(* ===== verification/Gosamba_Prelude.thy ===== *)
theory Gosamba_Prelude
  imports Main "HOL-Library.Word" "HOL-Library.Monad_Syntax"
begin

text \<open>
  Shared vocabulary of the development: Go's machine integers and byte slices,
  the run-time panic layer, little-endian access (\<^verbatim>\<open>encoding/binary\<close>), and the
  two interfaces most components are proved against.

  \<^item> A Go \<^verbatim>\<open>[]byte\<close> (and a Go \<^verbatim>\<open>string\<close>, which is a byte sequence too) is a
    \<open>byte list\<close>; \<^verbatim>\<open>uint16/32/64\<close> are words of that width; \<^verbatim>\<open>int\<close> is the
    64-bit \<^verbatim>\<open>int\<close> of the supported platforms (amd64, arm64) and never gets near its
    bound on values derived from 16- and 32-bit fields, so it is \<open>nat\<close> or \<open>int\<close>.
  \<^item> Indexing and slicing that Go checks at run time return \<open>option\<close>: \<open>None\<close> is
    the panic, and it is propagated by \<open>Option.bind\<close>. A slice is bounded by the
    \<^emph>\<open>length\<close> of its operand (Go bounds it by the capacity), so a slice the model
    accepts is accepted by Go and reads no byte past the message.
  \<^item> A Go function that returns \<open>(T, error)\<close> returns \<open>'e + 'a\<close> here, \<open>Inl\<close> for
    the error; a decoder has type \<open>('e + 'a) option\<close>: panic, error or value.
\<close>

unbundle bit_operations_syntax

type_synonym byte = "8 word"
type_synonym u16 = "16 word"
type_synonym u32 = "32 word"
type_synonym u64 = "64 word"
type_synonym bytes = "byte list"
type_synonym gostring = "byte list"
type_synonym ('e, 'a) decoded = "('e + 'a) option"

named_theorems go_panic \<open>definitions of the checked slice accesses\<close>
named_theorems byte_layout \<open>reading back what was written at a fixed offset\<close>

section \<open>Checked access to byte slices\<close>

definition u8_at :: "bytes \<Rightarrow> nat \<Rightarrow> byte option" where
  [go_panic]: "u8_at b i = (if i < length b then Some (b ! i) else None)"

definition go_slice :: "'a list \<Rightarrow> nat \<Rightarrow> nat \<Rightarrow> 'a list option" where
  [go_panic]: "go_slice b lo hi =
     (if lo \<le> hi \<and> hi \<le> length b then Some (take (hi - lo) (drop lo b)) else None)"

primrec le_word :: "bytes \<Rightarrow> 'a::len word" where
  "le_word [] = 0"
| "le_word (x # xs) = ucast x OR push_bit 8 (le_word xs)"

primrec le_bytes :: "nat \<Rightarrow> 'a::len word \<Rightarrow> bytes" where
  "le_bytes 0 w = []"
| "le_bytes (Suc n) w = ucast w # le_bytes n (drop_bit 8 w)"

definition u16_at :: "bytes \<Rightarrow> nat \<Rightarrow> u16 option" where
  [go_panic]: "u16_at b i = (if i + 2 \<le> length b then Some (le_word (take 2 (drop i b))) else None)"

definition u32_at :: "bytes \<Rightarrow> nat \<Rightarrow> u32 option" where
  [go_panic]: "u32_at b i = (if i + 4 \<le> length b then Some (le_word (take 4 (drop i b))) else None)"

definition u64_at :: "bytes \<Rightarrow> nat \<Rightarrow> u64 option" where
  [go_panic]: "u64_at b i = (if i + 8 \<le> length b then Some (le_word (take 8 (drop i b))) else None)"

text \<open>Writing a run of bytes into a buffer at an offset: \<open>copy\<close> and \<open>PutUint*\<close>.\<close>

definition patch :: "nat \<Rightarrow> bytes \<Rightarrow> bytes \<Rightarrow> bytes" where
  "patch off xs buf =
     map (\<lambda>i. if off \<le> i \<and> i < off + length xs then xs ! (i - off) else buf ! i) [0..<length buf]"

definition put_at :: "nat \<Rightarrow> bytes \<Rightarrow> bytes \<Rightarrow> bytes option" where
  [go_panic]: "put_at off xs buf = (if off + length xs \<le> length buf then Some (patch off xs buf) else None)"

abbreviation zeros :: "nat \<Rightarrow> bytes" where
  "zeros n \<equiv> replicate n 0"

abbreviation le16 :: "u16 \<Rightarrow> bytes" where "le16 w \<equiv> le_bytes 2 w"
abbreviation le32 :: "u32 \<Rightarrow> bytes" where "le32 w \<equiv> le_bytes 4 w"
abbreviation le64 :: "u64 \<Rightarrow> bytes" where "le64 w \<equiv> le_bytes 8 w"

lemma length_le_bytes [simp]: "length (le_bytes n w) = n"
  by (induction n arbitrary: w) auto

lemma length_patch [simp]: "length (patch off xs buf) = length buf"
  by (simp add: patch_def)

lemma nth_patch:
  "i < length buf \<Longrightarrow>
    patch off xs buf ! i = (if off \<le> i \<and> i < off + length xs then xs ! (i - off) else buf ! i)"
  by (simp add: patch_def)

lemma patch_same [byte_layout]:
  "off + length xs \<le> length buf \<Longrightarrow> n = length xs \<Longrightarrow> take n (drop off (patch off xs buf)) = xs"
  by (rule nth_equalityI) (auto simp: nth_patch)

lemma patch_other [byte_layout]:
  "off' + n \<le> off \<or> off + length xs \<le> off' \<Longrightarrow>
    take n (drop off' (patch off xs buf)) = take n (drop off' buf)"
  by (rule nth_equalityI) (auto simp: nth_patch)

lemma patch_nth_other [byte_layout]:
  "i < off \<or> off + length xs \<le> i \<Longrightarrow> i < length buf \<Longrightarrow> patch off xs buf ! i = buf ! i"
  by (auto simp: nth_patch)

lemma patch_nth_same [byte_layout]:
  "off \<le> i \<Longrightarrow> i < off + length xs \<Longrightarrow> off + length xs \<le> length buf \<Longrightarrow>
    patch off xs buf ! i = xs ! (i - off)"
  by (auto simp: nth_patch)

lemma patch_append_left: "off + length xs \<le> length a \<Longrightarrow> patch off xs (a @ b) = patch off xs a @ b"
  by (rule nth_equalityI) (auto simp: nth_patch nth_append)

lemma bit_le_word:
  "bit (le_word bs :: 'a::len word) i \<longleftrightarrow>
     i < LENGTH('a) \<and> i div 8 < length bs \<and> bit (bs ! (i div 8)) (i mod 8)"
proof (induction bs arbitrary: i)
  case Nil
  then show ?case by simp
next
  case (Cons x xs)
  show ?case
  proof (cases "i < 8")
    case True
    then show ?thesis by (simp add: bit_simps)
  next
    case False
    then have "i div 8 = Suc ((i - 8) div 8)" and "i mod 8 = (i - 8) mod 8"
      by (simp_all add: div_nat_eqI le_div_geq le_mod_geq)
    with False Cons.IH [of "i - 8"] show ?thesis
      by (auto simp: bit_simps dest: bit_imp_le_length)
  qed
qed

lemma nth_le_bytes: "i < n \<Longrightarrow> le_bytes n w ! i = ucast (drop_bit (8 * i) w)"
proof (induction n arbitrary: i w)
  case (Suc n)
  then show ?case
    by (cases i) (simp_all add: drop_bit_drop_bit ac_simps)
qed simp

lemma le_word_le_bytes: "le_word (le_bytes n w) = take_bit (8 * n) (w :: 'a::len word)"
proof (rule bit_word_eqI)
  fix i assume "i < LENGTH('a)"
  have *: "i div 8 < n \<longleftrightarrow> i < 8 * n"
    by (simp add: div_less_iff_less_mult mult.commute)
  have "8 * (i div 8) + i mod 8 = i" by simp
  with \<open>i < LENGTH('a)\<close> show "bit (le_word (le_bytes n w) :: 'a word) i = bit (take_bit (8 * n) w) i"
    by (auto simp: bit_le_word * nth_le_bytes bit_simps)
qed

lemma le_word_le16 [simp]: "le_word (le16 w) = w"
  and le_word_le32 [simp]: "le_word (le32 v) = v"
  and le_word_le64 [simp]: "le_word (le64 u) = u"
  by (simp_all add: le_word_le_bytes take_bit_word_eq_self)

lemma le_bytes_le_word:
  assumes "length bs = n" and "8 * n \<le> LENGTH('a::len)"
  shows "le_bytes n (le_word bs :: 'a word) = bs"
proof (rule nth_equalityI)
  fix i assume "i < length (le_bytes n (le_word bs :: 'a word))"
  then have i: "i < n" by simp
  have "ucast (drop_bit (8 * i) (le_word bs :: 'a word)) = bs ! i"
  proof (rule bit_word_eqI)
    fix j assume j: "j < LENGTH(8)"
    then have "(8 * i + j) div 8 = i" and "(8 * i + j) mod 8 = j" and "8 * i + j < LENGTH('a)"
      using i assms(2) by auto
    with i j assms(1) show "bit (ucast (drop_bit (8 * i) (le_word bs :: 'a word)) :: byte) j = bit (bs ! i) j"
      by (simp add: bit_le_word bit_simps)
  qed
  with i show "le_bytes n (le_word bs :: 'a word) ! i = bs ! i"
    by (simp add: nth_le_bytes)
qed (simp add: assms)

text \<open>Overwriting a range with what it already holds changes nothing.\<close>

lemma patch_id:
  assumes "off + n \<le> length buf" and "length b = length buf"
    and "take n (drop off buf) = take n (drop off b)"
  shows "patch off (take n (drop off b)) buf = buf"
  using assms(1,2) unfolding assms(3) [symmetric]
  by (intro nth_equalityI) (auto simp: nth_patch)

lemma patch_commute:
  "off + length xs \<le> off' \<or> off' + length ys \<le> off \<Longrightarrow>
    patch off xs (patch off' ys buf) = patch off' ys (patch off xs buf)"
  by (rule nth_equalityI) (auto simp: nth_patch)

lemma drop_patch: "off + length xs \<le> n \<Longrightarrow> drop n (patch off xs buf) = drop n buf"
  by (rule nth_equalityI) (auto simp: nth_patch)

section \<open>Prefix parsers and invariants as interfaces\<close>

text \<open>Running a prefix parser \<open>n\<close> times, handing on what each run leaves over.\<close>

fun parse_n :: "(bytes \<Rightarrow> ('a \<times> bytes) option) \<Rightarrow> nat \<Rightarrow> bytes \<Rightarrow> ('a list \<times> bytes) option" where
  "parse_n dec 0 bs = Some ([], bs)"
| "parse_n dec (Suc n) bs =
     (case dec bs of
        None \<Rightarrow> None
      | Some (a, rest) \<Rightarrow>
          (case parse_n dec n rest of None \<Rightarrow> None | Some (as, rest') \<Rightarrow> Some (a # as, rest')))"

text \<open>
  A format whose encodings can be told apart from whatever follows them: what a
  connection's byte stream and a DER sequence both need.
\<close>

locale prefix_codec =
  fixes enc :: "'a \<Rightarrow> bytes"
    and dec :: "bytes \<Rightarrow> ('a \<times> bytes) option"
    and ok :: "'a \<Rightarrow> bool"
  assumes dec_enc: "ok a \<Longrightarrow> dec (enc a @ rest) = Some (a, rest)"
begin

lemma enc_inject: "ok a \<Longrightarrow> ok b \<Longrightarrow> enc a @ r = enc b @ r' \<Longrightarrow> a = b \<and> r = r'"
  by (metis dec_enc option.inject prod.inject)

lemma parse_n_enc:
  "list_all ok as \<Longrightarrow> parse_n dec (length as) (concat (map enc as) @ rest) = Some (as, rest)"
  by (induction as) (simp_all add: dec_enc)

end

text \<open>
  A transition system with a property that holds at the start and that no step
  breaks: it holds in every reachable state.
\<close>

locale invariant_system =
  fixes start :: "'s \<Rightarrow> bool"
    and step :: "'s \<Rightarrow> 's \<Rightarrow> bool"
    and Inv :: "'s \<Rightarrow> bool"
  assumes Inv_start: "start s \<Longrightarrow> Inv s"
    and Inv_step: "Inv s \<Longrightarrow> step s t \<Longrightarrow> Inv t"
begin

lemma Inv_steps: "rtranclp step s t \<Longrightarrow> Inv s \<Longrightarrow> Inv t"
  by (induction rule: rtranclp_induct) (auto intro: Inv_step)

lemma Inv_reachable: "start s \<Longrightarrow> rtranclp step s t \<Longrightarrow> Inv t"
  by (rule Inv_steps [OF _ Inv_start])

end

end
