(* ===== verification/Nbss.thy ===== *)
theory Nbss
  imports Gosamba_Prelude
begin

text \<open>
  The NetBIOS session framing of \<^verbatim>\<open>internal/transport/nbss.go\<close>: one type byte, a 24-bit
  big-endian length and the payload. An \<^verbatim>\<open>io.Reader\<close> is the list of bytes it will still
  deliver before end of file; an \<^verbatim>\<open>io.Writer\<close> is the list of bytes handed to it.
\<close>

datatype nbss_err =
    EOF
  | ErrUnexpectedEOF
  | ErrUnsupportedFrameType byte
  | ErrFrameTooLarge nat
  | ErrPreframedTooShort nat

definition MaxFrameSize :: u32 where
  "MaxFrameSize = 16 * 1024 * 1024"

definition FrameHeaderSize :: nat where
  [simp]: "FrameHeaderSize = 4"

text \<open>\<^verbatim>\<open>io.ReadFull\<close>: \<open>n\<close> bytes, or the error that says how much was missing.\<close>

definition ReadFull :: "bytes \<Rightarrow> nat \<Rightarrow> nbss_err + bytes \<times> bytes" where
  "ReadFull r n =
     (if n \<le> length r then Inr (take n r, drop n r)
      else if r = [] then Inl EOF else Inl ErrUnexpectedEOF)"

definition frame_length :: "bytes \<Rightarrow> u32" where
  "frame_length hdr =
     push_bit 16 (ucast (hdr ! 1)) OR push_bit 8 (ucast (hdr ! 2)) OR ucast (hdr ! 3)"

definition ReadFrame :: "bytes \<Rightarrow> u32 \<Rightarrow> nbss_err + bytes \<times> bytes" where
  "ReadFrame r maxSize =
     (case ReadFull r 4 of
        Inl e \<Rightarrow> Inl e
      | Inr (hdr, r') \<Rightarrow>
          if hdr ! 0 \<noteq> 0 then Inl (ErrUnsupportedFrameType (hdr ! 0))
          else
            let len = frame_length hdr in
            if len > maxSize then Inl (ErrFrameTooLarge (unat len))
            else if len = 0 then Inr ([], r')
            else ReadFull r' (unat len))"

definition PutFrameHeader :: "bytes \<Rightarrow> nbss_err + bytes" where
  "PutFrameHeader buf =
     (if length buf < FrameHeaderSize then Inl (ErrPreframedTooShort (length buf))
      else
        let n = length buf - FrameHeaderSize in
        if n > 0xFFFFFF then Inl (ErrFrameTooLarge n)
        else Inr (buf[0 := 0, 1 := word_of_nat (drop_bit 16 n),
                      2 := word_of_nat (drop_bit 8 n), 3 := word_of_nat n]))"

definition WritePreframed :: "bytes \<Rightarrow> bytes \<Rightarrow> nbss_err + bytes" where
  "WritePreframed w buf = (case PutFrameHeader buf of Inl e \<Rightarrow> Inl e | Inr out \<Rightarrow> Inr (w @ out))"

definition WriteFrame :: "bytes \<Rightarrow> bytes \<Rightarrow> nbss_err + bytes" where
  "WriteFrame w payload =
     (if length payload > 0xFFFFFF then Inl (ErrFrameTooLarge (length payload))
      else WritePreframed w (zeros FrameHeaderSize @ payload))"

section \<open>The header written is the header read\<close>

definition frame_header :: "nat \<Rightarrow> bytes" where
  "frame_header n = [0, word_of_nat (drop_bit 16 n), word_of_nat (drop_bit 8 n), word_of_nat n]"

lemma zeros_4: "zeros 4 = [0, 0, 0, 0]"
  by (simp add: numeral_eq_Suc)

lemma WriteFrame_eq:
  "length p \<le> 0xFFFFFF \<Longrightarrow> WriteFrame w p = Inr (w @ frame_header (length p) @ p)"
  by (simp add: WriteFrame_def WritePreframed_def PutFrameHeader_def frame_header_def
      zeros_4 Let_def numeral_2_eq_2 numeral_3_eq_3)

lemma frame_length_header:
  assumes "n \<le> 0xFFFFFF"
  shows "frame_length (frame_header n) = word_of_nat n"
proof (rule bit_word_eqI)
  fix i assume i: "i < LENGTH(32)"
  have "take_bit 24 n = n"
    using assms by (simp add: take_bit_nat_eq_self_iff)
  then have "bit n i \<Longrightarrow> i < 24"
    by (metis bit_take_bit_iff)
  moreover have "16 \<le> i \<Longrightarrow> 16 + (i - 16) = i" "8 \<le> i \<Longrightarrow> 8 + (i - 8) = i" by simp_all
  ultimately show "bit (frame_length (frame_header n)) i = bit (word_of_nat n :: u32) i"
    using i by (cases "i < 8"; cases "i < 16") (auto simp: frame_length_def frame_header_def bit_simps)
qed

lemma unat_frame_length_header: "n \<le> 0xFFFFFF \<Longrightarrow> unat (frame_length (frame_header n)) = n"
  by (simp add: frame_length_header unat_of_nat take_bit_nat_eq_self_iff)

lemma ReadFrame_frame:
  assumes "length p \<le> 0xFFFFFF" and "length p \<le> unat maxSize"
  shows "ReadFrame (frame_header (length p) @ p @ rest) maxSize = Inr (p, rest)"
proof -
  let ?h = "frame_header (length p)"
  have h: "length ?h = 4" "?h ! 0 = 0" by (simp_all add: frame_header_def)
  have "ReadFull (?h @ p @ rest) 4 = Inr (?h, p @ rest)"
    using h by (simp add: ReadFull_def)
  moreover have "\<not> frame_length ?h > maxSize"
    using assms by (simp add: word_less_nat_alt unat_frame_length_header)
  moreover have "frame_length ?h = 0 \<longleftrightarrow> p = []"
    using assms(1) by (metis length_0_conv unat_eq_0 unat_frame_length_header)
  ultimately show ?thesis
    using h assms(1) by (simp add: ReadFrame_def ReadFull_def unat_frame_length_header)
qed

lemma frame_length_bound: "unat (frame_length hdr) < 2 ^ 24"
proof -
  have "take_bit 24 (frame_length hdr) = frame_length hdr"
    by (rule bit_word_eqI) (auto simp: frame_length_def bit_simps dest: bit_imp_le_length)
  then have "take_bit 24 (unat (frame_length hdr)) = unat (frame_length hdr)"
    by (metis unsigned_take_bit_eq)
  then show ?thesis
    by (metis take_bit_nat_less_exp)
qed

section \<open>Frames as a prefix codec\<close>

definition frame_enc :: "bytes \<Rightarrow> bytes" where
  "frame_enc p = frame_header (length p) @ p"

definition frame_dec :: "bytes \<Rightarrow> (bytes \<times> bytes) option" where
  "frame_dec r = (case ReadFrame r MaxFrameSize of Inl _ \<Rightarrow> None | Inr x \<Rightarrow> Some x)"

interpretation nbss: prefix_codec frame_enc frame_dec "\<lambda>p. length p \<le> 0xFFFFFF"
  by unfold_locales
    (simp add: frame_enc_def frame_dec_def ReadFrame_frame MaxFrameSize_def)

fun write_frames :: "bytes \<Rightarrow> bytes list \<Rightarrow> nbss_err + bytes" where
  "write_frames w [] = Inr w"
| "write_frames w (p # ps) = (case WriteFrame w p of Inl e \<Rightarrow> Inl e | Inr w' \<Rightarrow> write_frames w' ps)"

lemma write_frames_eq:
  "list_all (\<lambda>p. length p \<le> 0xFFFFFF) ps \<Longrightarrow>
    write_frames w ps = Inr (w @ concat (map frame_enc ps))"
  by (induction ps arbitrary: w) (simp_all add: WriteFrame_eq frame_enc_def)

end
