(* ===== verification/Go_Text.thy ===== *)
theory Go_Text
  imports Gosamba_Prelude
begin

text \<open>
  Text as Go sees it. A rune is an \<^verbatim>\<open>int32\<close>, modelled as \<open>int\<close>; a string is its UTF-8
  bytes. \<open>DecodeRune\<close> and \<open>utf8_bytes\<close> are \<^verbatim>\<open>unicode/utf8\<close>, \<open>utf16_Decode\<close> is
  \<^verbatim>\<open>unicode/utf16\<close>; on top of them stand the two conversions of \<^verbatim>\<open>internal/smb2\<close>:
  \<open>decodeUTF16LE\<close> (\<^verbatim>\<open>tree.go\<close>) and \<open>utf16leNotify\<close> (\<^verbatim>\<open>change_notify.go\<close>).
\<close>

abbreviation RuneError :: int where "RuneError \<equiv> 0xFFFD"

section \<open>UTF-8\<close>

definition valid_rune :: "int \<Rightarrow> bool" where
  "valid_rune r \<longleftrightarrow> 0 \<le> r \<and> r < 0xD800 \<or> 0xE000 \<le> r \<and> r \<le> 0x10FFFF"

definition utf8_bytes :: "int \<Rightarrow> bytes" where
  "utf8_bytes r0 =
     (let r = (if valid_rune r0 then r0 else RuneError) in
      if r < 0x80 then [word_of_int r]
      else if r < 0x800 then [word_of_int (0xC0 + r div 64), word_of_int (0x80 + r mod 64)]
      else if r < 0x10000 then
        [word_of_int (0xE0 + r div 4096), word_of_int (0x80 + r div 64 mod 64),
         word_of_int (0x80 + r mod 64)]
      else
        [word_of_int (0xF0 + r div 262144), word_of_int (0x80 + r div 4096 mod 64),
         word_of_int (0x80 + r div 64 mod 64), word_of_int (0x80 + r mod 64)])"

definition cont :: "int \<Rightarrow> int \<Rightarrow> byte \<Rightarrow> bool" where
  "cont lo hi b \<longleftrightarrow> lo \<le> uint b \<and> uint b \<le> hi"

definition DecodeRune :: "bytes \<Rightarrow> int \<times> nat" where
  "DecodeRune s =
     (case s of
        [] \<Rightarrow> (RuneError, 0)
      | b0 # t \<Rightarrow>
        (let x = uint b0 in
         if x < 0x80 then (x, 1)
         else if 0xC2 \<le> x \<and> x \<le> 0xDF then
           (case t of
              b1 # _ \<Rightarrow> if cont 0x80 0xBF b1 then ((x - 0xC0) * 64 + (uint b1 - 0x80), 2) else (RuneError, 1)
            | _ \<Rightarrow> (RuneError, 1))
         else if 0xE0 \<le> x \<and> x \<le> 0xEF then
           (case t of
              b1 # b2 # _ \<Rightarrow>
                if cont (if x = 0xE0 then 0xA0 else 0x80) (if x = 0xED then 0x9F else 0xBF) b1 \<and> cont 0x80 0xBF b2
                then ((x - 0xE0) * 4096 + (uint b1 - 0x80) * 64 + (uint b2 - 0x80), 3) else (RuneError, 1)
            | _ \<Rightarrow> (RuneError, 1))
         else if 0xF0 \<le> x \<and> x \<le> 0xF4 then
           (case t of
              b1 # b2 # b3 # _ \<Rightarrow>
                if cont (if x = 0xF0 then 0x90 else 0x80) (if x = 0xF4 then 0x8F else 0xBF) b1
                   \<and> cont 0x80 0xBF b2 \<and> cont 0x80 0xBF b3
                then ((x - 0xF0) * 262144 + (uint b1 - 0x80) * 4096 + (uint b2 - 0x80) * 64 + (uint b3 - 0x80), 4)
                else (RuneError, 1)
            | _ \<Rightarrow> (RuneError, 1))
         else (RuneError, 1)))"

lemma DecodeRune_size_pos: "s \<noteq> [] \<Longrightarrow> 0 < snd (DecodeRune s)"
  by (cases s) (auto simp: DecodeRune_def Let_def split: list.split)

lemma DecodeRune_size_le: "snd (DecodeRune s) \<le> length s"
  by (cases s) (auto simp: DecodeRune_def Let_def split: list.split)

lemma uint_byte: "0 \<le> x \<Longrightarrow> x < 256 \<Longrightarrow> uint (word_of_int x :: byte) = x"
  by (simp add: uint_word_of_int)

lemma uint_byte_add:
  assumes "0 \<le> x" and "numeral k + x < 256"
  shows "uint (numeral k + word_of_int x :: byte) = numeral k + x"
proof -
  have "(numeral k + word_of_int x :: byte) = word_of_int (numeral k + x)" by simp
  then show ?thesis using assms by (metis add_nonneg_nonneg uint_byte zero_le_numeral)
qed

lemma DecodeRune_2:
  assumes "2 \<le> a" "a < 32" "0 \<le> m" "m < 64"
  shows "DecodeRune (word_of_int (0xC0 + a) # word_of_int (0x80 + m) # rest) = (a * 64 + m, 2)"
proof -
  have "uint (word_of_int (0xC0 + a) :: byte) = 0xC0 + a" "uint (word_of_int (0x80 + m) :: byte) = 0x80 + m"
    by (rule uint_byte; use assms in linarith)+
  with assms show ?thesis
    by (simp add: DecodeRune_def cont_def Let_def del: of_int_add)
qed

lemma DecodeRune_3:
  assumes "0 \<le> a" "a < 16" "0 \<le> m" "m < 64" "0 \<le> k" "k < 64" "a = 0 \<longrightarrow> 32 \<le> m" "a = 13 \<longrightarrow> m < 32"
  shows "DecodeRune (word_of_int (0xE0 + a) # word_of_int (0x80 + m) # word_of_int (0x80 + k) # rest)
    = (a * 4096 + m * 64 + k, 3)"
proof -
  have "uint (word_of_int (0xE0 + a) :: byte) = 0xE0 + a" "uint (word_of_int (0x80 + m) :: byte) = 0x80 + m"
    "uint (word_of_int (0x80 + k) :: byte) = 0x80 + k"
    by (rule uint_byte; use assms in linarith)+
  with assms show ?thesis
    by (auto simp: DecodeRune_def cont_def Let_def simp del: of_int_add)
qed

lemma DecodeRune_4:
  assumes "0 \<le> a" "a < 5" "0 \<le> m" "m < 64" "0 \<le> k" "k < 64" "0 \<le> l" "l < 64"
    "a = 0 \<longrightarrow> 16 \<le> m" "a = 4 \<longrightarrow> m < 16"
  shows "DecodeRune (word_of_int (0xF0 + a) # word_of_int (0x80 + m) # word_of_int (0x80 + k)
      # word_of_int (0x80 + l) # rest)
    = (a * 262144 + m * 4096 + k * 64 + l, 4)"
proof -
  have "uint (word_of_int (0xF0 + a) :: byte) = 0xF0 + a" "uint (word_of_int (0x80 + m) :: byte) = 0x80 + m"
    "uint (word_of_int (0x80 + k) :: byte) = 0x80 + k" "uint (word_of_int (0x80 + l) :: byte) = 0x80 + l"
    by (rule uint_byte; use assms in linarith)+
  with assms show ?thesis
    by (auto simp: DecodeRune_def cont_def Let_def simp del: of_int_add)
qed

text \<open>The base-64 digits of a code point.\<close>

lemma base64_digits:
  "x * 64 + d = r \<Longrightarrow> y * 64 + c = x \<Longrightarrow> a * 64 + b = y \<Longrightarrow>
    r = a * 262144 + b * 4096 + c * 64 + (d :: int) \<and> x = (a * 64 + b) * 64 + c"
  by auto

lemma rune_digits:
  fixes r :: int
  assumes "0 \<le> r"
  obtains a b c d where "r div 64 = (a * 64 + b) * 64 + c" "r mod 64 = d" "r div 4096 = a * 64 + b"
    "r div 64 mod 64 = c" "r div 262144 = a" "r div 4096 mod 64 = b"
    "r = a * 262144 + b * 4096 + c * 64 + d"
    "0 \<le> a" "0 \<le> b" "b < 64" "0 \<le> c" "c < 64" "0 \<le> d" "d < 64"
proof
  have dm: "r div 4096 = r div 64 div 64" "r div 262144 = r div 4096 div 64"
    using zdiv_zmult2_eq [of 64 r 64] zdiv_zmult2_eq [of 64 r 4096] by simp_all
  have 1: "r div 64 * 64 + r mod 64 = r" by (rule div_mult_mod_eq)
  have 2: "r div 4096 * 64 + r div 64 mod 64 = r div 64" unfolding dm(1) by (rule div_mult_mod_eq)
  have 3: "r div 262144 * 64 + r div 4096 mod 64 = r div 4096" unfolding dm(2) by (rule div_mult_mod_eq)
  show "r div 64 = (r div 262144 * 64 + r div 4096 mod 64) * 64 + r div 64 mod 64"
    and "r = r div 262144 * 262144 + r div 4096 mod 64 * 4096 + r div 64 mod 64 * 64 + r mod 64"
    using base64_digits [OF 1 2 3] by (rule conjunct2, rule conjunct1)
  show "r div 4096 = r div 262144 * 64 + r div 4096 mod 64" by (rule 3 [symmetric])
  show "0 \<le> r div 262144" using assms by (simp add: pos_imp_zdiv_nonneg_iff)
qed (rule refl pos_mod_sign pos_mod_bound zero_less_numeral)+

lemma DecodeRune_utf8_bytes:
  assumes "valid_rune r"
  shows "DecodeRune (utf8_bytes r @ rest) = (r, length (utf8_bytes r))"
proof -
  have r: "0 \<le> r" "r \<le> 0x10FFFF" "r < 0xD800 \<or> 0xE000 \<le> r"
    using assms by (auto simp: valid_rune_def)
  obtain a b c d where dig: "r div 64 = (a * 64 + b) * 64 + c" "r mod 64 = d" "r div 4096 = a * 64 + b"
    "r div 64 mod 64 = c" "r div 262144 = a" "r div 4096 mod 64 = b"
    and re: "r = a * 262144 + b * 4096 + c * 64 + d"
    and bd: "0 \<le> a" "0 \<le> b" "b < 64" "0 \<le> c" "c < 64" "0 \<le> d" "d < 64"
    using rune_digits [OF r(1)] by metis
  consider (1) "r < 0x80" | (2) "0x80 \<le> r" "r < 0x800" | (3) "0x800 \<le> r" "r < 0x10000" | (4) "0x10000 \<le> r"
    by linarith
  then show ?thesis
  proof cases
    case 1
    with r assms show ?thesis
      by (simp add: utf8_bytes_def DecodeRune_def uint_byte Let_def)
  next
    case 2
    then have a0: "a = 0" "b = 0" using re bd by linarith+
    with 2 re bd have ab: "a = 0" "b = 0" "2 \<le> c" "c < 32" by simp_all
    have u: "utf8_bytes r = [word_of_int (0xC0 + c), word_of_int (0x80 + d)]"
      using 2 assms ab by (simp add: utf8_bytes_def Let_def dig(1,2))
    have "DecodeRune (utf8_bytes r @ rest) = (c * 64 + d, 2)"
      unfolding u append.simps by (rule DecodeRune_2 [OF ab(3,4) bd(6,7)])
    moreover have "c * 64 + d = r" using re ab by simp
    ultimately show ?thesis using u by simp
  next
    case 3
    then have a: "a = 0" "b < 16" using re bd by linarith+
    have b1: "b = 0 \<longrightarrow> 32 \<le> c" using 3 re bd a by simp
    have b2: "b = 13 \<longrightarrow> c < 32"
    proof
      assume "b = 13"
      then show "c < 32" using r(3) re bd a by linarith
    qed
    have u: "utf8_bytes r = [word_of_int (0xE0 + b), word_of_int (0x80 + c), word_of_int (0x80 + d)]"
      using 3 assms a by (simp add: utf8_bytes_def Let_def dig(2,3,4))
    have "DecodeRune (utf8_bytes r @ rest) = (b * 4096 + c * 64 + d, 3)"
      unfolding u append.simps by (rule DecodeRune_3 [OF bd(2) a(2) bd(4,5,6,7) b1 b2])
    moreover have "b * 4096 + c * 64 + d = r" using re a by simp
    ultimately show ?thesis using u by simp
  next
    case 4
    then have a: "a < 5" "a = 0 \<longrightarrow> 16 \<le> b" "a = 4 \<longrightarrow> b < 16" using r(2) re bd by simp_all
    have u: "utf8_bytes r = [word_of_int (0xF0 + a), word_of_int (0x80 + b), word_of_int (0x80 + c),
        word_of_int (0x80 + d)]"
      using 4 assms by (simp add: utf8_bytes_def Let_def dig(2,4,5,6))
    have "DecodeRune (utf8_bytes r @ rest) = (a * 262144 + b * 4096 + c * 64 + d, 4)"
      unfolding u append.simps by (rule DecodeRune_4 [OF bd(1) a(1) bd(2-7) a(2,3)])
    with re u show ?thesis by simp
  qed
qed

text \<open>\<open>string(runes)\<close> and \<open>for _, r := range s\<close>.\<close>

definition runes_to_string :: "int list \<Rightarrow> gostring" where
  "runes_to_string rs = concat (map utf8_bytes rs)"

function range_runes :: "gostring \<Rightarrow> int list" where
  "range_runes s =
     (if s = [] then [] else let (r, n) = DecodeRune s in r # range_runes (drop n s))"
  by pat_completeness auto
termination
proof (relation "measure length", goal_cases)
  case (2 s x r n)
  then have "0 < n"
    using DecodeRune_size_pos [of s] by (metis snd_conv)
  with 2 show ?case by simp
qed simp

declare range_runes.simps [simp del]

lemma utf8_bytes_nonempty: "utf8_bytes r \<noteq> []"
  by (simp add: utf8_bytes_def Let_def)

lemma range_runes_to_string: "list_all valid_rune rs \<Longrightarrow> range_runes (runes_to_string rs) = rs"
proof (induction rs)
  case Nil
  then show ?case by (simp add: runes_to_string_def range_runes.simps)
next
  case (Cons r rs)
  then have "DecodeRune (utf8_bytes r @ runes_to_string rs) = (r, length (utf8_bytes r))"
    by (simp add: DecodeRune_utf8_bytes)
  with Cons show ?case
    by (subst range_runes.simps) (simp add: runes_to_string_def utf8_bytes_nonempty)
qed

section \<open>UTF-16\<close>

fun utf16_Decode :: "u16 list \<Rightarrow> int list" where
  "utf16_Decode [] = []"
| "utf16_Decode (r # us) =
     (if r < 0xD800 \<or> 0xE000 \<le> r then uint r # utf16_Decode us
      else if r < 0xDC00 then
        (case us of
           s # us' \<Rightarrow>
             if 0xDC00 \<le> s \<and> s < 0xE000
             then ((uint r - 0xD800) * 1024 + (uint s - 0xDC00) + 0x10000) # utf16_Decode us'
             else RuneError # utf16_Decode us
         | [] \<Rightarrow> RuneError # utf16_Decode us)
      else RuneError # utf16_Decode us)"

fun u16_units :: "bytes \<Rightarrow> u16 list" where
  "u16_units (a # b # bs) = (ucast a OR push_bit 8 (ucast b)) # u16_units bs"
| "u16_units _ = []"

definition decodeUTF16LE :: "bytes \<Rightarrow> gostring" where
  "decodeUTF16LE b = runes_to_string (utf16_Decode (u16_units b))"

definition utf16leNotify_rune :: "int \<Rightarrow> bytes" where
  "utf16leNotify_rune r =
     (if r \<le> 0xFFFF then [word_of_int r, word_of_int (drop_bit 8 r)]
      else
        let r' = r - 0x10000;
            hi = 0xD800 + (word_of_int (drop_bit 10 r') :: u16);
            lo = 0xDC00 + (word_of_int (r' AND 0x3FF) :: u16)
        in [ucast hi, ucast (drop_bit 8 hi), ucast lo, ucast (drop_bit 8 lo)])"

definition utf16leNotify :: "gostring \<Rightarrow> bytes" where
  "utf16leNotify s = concat (map utf16leNotify_rune (range_runes s))"

lemma unit_of_bytes: "(ucast (ucast w :: byte) OR push_bit 8 (ucast (ucast (drop_bit 8 w) :: byte))) = (w :: u16)"
  by (rule bit_word_eqI) (auto simp: bit_simps)

lemma unit_of_rune:
  "(ucast (word_of_int r :: byte) OR push_bit 8 (ucast (word_of_int (drop_bit 8 r) :: byte))) = (word_of_int r :: u16)"
  by (rule bit_word_eqI) (auto simp: bit_simps)

lemma uint_u16: "0 \<le> x \<Longrightarrow> x < 65536 \<Longrightarrow> uint (word_of_int x :: u16) = x"
  by (simp add: uint_word_of_int)

lemma utf16_Decode_notify:
  assumes "valid_rune r"
  shows "utf16_Decode (u16_units (utf16leNotify_rune r @ bs)) = r # utf16_Decode (u16_units bs)"
proof (cases "r \<le> 0xFFFF")
  case True
  with assms have "uint (word_of_int r :: u16) = r"
    by (intro uint_u16) (auto simp: valid_rune_def)
  with True assms show ?thesis
    by (auto simp: utf16leNotify_rune_def unit_of_rune word_less_def word_le_def valid_rune_def)
next
  case False
  define q where "q = r - 0x10000"
  have q: "0 \<le> q" "q < 0x100000" using False assms by (auto simp: q_def valid_rune_def)
  have a: "drop_bit 10 q = q div 1024" "q AND 0x3FF = q mod 1024"
    using take_bit_eq_mask [of 10 q] by (simp_all add: drop_bit_eq_div mask_eq_exp_minus_1 take_bit_eq_mod)
  have b: "0 \<le> q div 1024" "q div 1024 < 1024" "0 \<le> q mod 1024" "q mod 1024 < 1024"
    using q by auto
  have u: "uint (0xD800 + (word_of_int (q div 1024) :: u16)) = 0xD800 + q div 1024"
    "uint (0xDC00 + (word_of_int (q mod 1024) :: u16)) = 0xDC00 + q mod 1024"
    using b by (simp_all add: uint_word_ariths uint_u16)
  have "(0xD800 + q div 1024 - 0xD800) * 1024 + (0xDC00 + q mod 1024 - 0xDC00) + 0x10000 = r"
    by (simp add: q_def)
  with False b u show ?thesis
    by (simp add: utf16leNotify_rune_def Let_def a unit_of_bytes word_less_def word_le_def flip: q_def)
qed

lemma decodeUTF16LE_notify:
  assumes "list_all valid_rune rs"
  shows "decodeUTF16LE (utf16leNotify (runes_to_string rs)) = runes_to_string rs"
proof -
  have "utf16_Decode (u16_units (concat (map utf16leNotify_rune rs))) = rs"
    using assms by (induction rs) (simp_all add: utf16_Decode_notify)
  with assms show ?thesis
    by (simp add: decodeUTF16LE_def utf16leNotify_def range_runes_to_string)
qed

end
