(* ===== verification/Smb2_Header.thy ===== *)
theory Smb2_Header
  imports Gosamba_Prelude
begin

text \<open>
  The SMB2 header codec of \<^verbatim>\<open>internal/smb2/header.go\<close>, the command names of
  \<^verbatim>\<open>command.go\<close> and the errors the whole \<^verbatim>\<open>smb2\<close> package returns.
  A Go array \<open>[16]byte\<close> is a byte list; \<open>wf_header\<close> records the length the Go type fixes.
\<close>

datatype smb_err =
    ErrShortBuffer
  | ErrBadProtocolID
  | ErrBadStructureSize
  | ErrInvalidParameter
  | ErrContextOffset
  | ErrCopyChunkLimit
  | ErrMissingPreauth
  | ErrNoNtlmssp

definition HeaderSize :: nat where
  [simp]: "HeaderSize = 64"

definition NextCommandOffset :: nat where
  [simp]: "NextCommandOffset = 20"

abbreviation (input) FlagServerToRedir :: u32 where "FlagServerToRedir \<equiv> 0x00000001"
abbreviation (input) FlagAsyncCommand :: u32 where "FlagAsyncCommand \<equiv> 0x00000002"
abbreviation (input) FlagRelatedOps :: u32 where "FlagRelatedOps \<equiv> 0x00000004"
abbreviation (input) FlagSigned :: u32 where "FlagSigned \<equiv> 0x00000008"

definition protocolID :: bytes where
  "protocolID = [0xFE, 0x53, 0x4D, 0x42]"

abbreviation (input) CommandNegotiate :: u16 where "CommandNegotiate \<equiv> 0x0000"
abbreviation (input) CommandSessionSetup :: u16 where "CommandSessionSetup \<equiv> 0x0001"
abbreviation (input) CommandLogoff :: u16 where "CommandLogoff \<equiv> 0x0002"
abbreviation (input) CommandTreeConnect :: u16 where "CommandTreeConnect \<equiv> 0x0003"
abbreviation (input) CommandTreeDisconnect :: u16 where "CommandTreeDisconnect \<equiv> 0x0004"
abbreviation (input) CommandCreate :: u16 where "CommandCreate \<equiv> 0x0005"
abbreviation (input) CommandClose :: u16 where "CommandClose \<equiv> 0x0006"
abbreviation (input) CommandFlush :: u16 where "CommandFlush \<equiv> 0x0007"
abbreviation (input) CommandRead :: u16 where "CommandRead \<equiv> 0x0008"
abbreviation (input) CommandWrite :: u16 where "CommandWrite \<equiv> 0x0009"
abbreviation (input) CommandLock :: u16 where "CommandLock \<equiv> 0x000A"
abbreviation (input) CommandIoctl :: u16 where "CommandIoctl \<equiv> 0x000B"
abbreviation (input) CommandCancel :: u16 where "CommandCancel \<equiv> 0x000C"
abbreviation (input) CommandEcho :: u16 where "CommandEcho \<equiv> 0x000D"
abbreviation (input) CommandQueryDirectory :: u16 where "CommandQueryDirectory \<equiv> 0x000E"
abbreviation (input) CommandChangeNotify :: u16 where "CommandChangeNotify \<equiv> 0x000F"
abbreviation (input) CommandQueryInfo :: u16 where "CommandQueryInfo \<equiv> 0x0010"
abbreviation (input) CommandSetInfo :: u16 where "CommandSetInfo \<equiv> 0x0011"
abbreviation (input) CommandOplockBreak :: u16 where "CommandOplockBreak \<equiv> 0x0012"

definition Command_String :: "u16 \<Rightarrow> string" where
  "Command_String c =
     (if c = CommandNegotiate then ''NEGOTIATE''
      else if c = CommandSessionSetup then ''SESSION_SETUP''
      else if c = CommandLogoff then ''LOGOFF''
      else if c = CommandTreeConnect then ''TREE_CONNECT''
      else if c = CommandTreeDisconnect then ''TREE_DISCONNECT''
      else if c = CommandCreate then ''CREATE''
      else if c = CommandClose then ''CLOSE''
      else if c = CommandFlush then ''FLUSH''
      else if c = CommandRead then ''READ''
      else if c = CommandWrite then ''WRITE''
      else if c = CommandLock then ''LOCK''
      else if c = CommandIoctl then ''IOCTL''
      else if c = CommandCancel then ''CANCEL''
      else if c = CommandEcho then ''ECHO''
      else if c = CommandQueryDirectory then ''QUERY_DIRECTORY''
      else if c = CommandChangeNotify then ''CHANGE_NOTIFY''
      else if c = CommandQueryInfo then ''QUERY_INFO''
      else if c = CommandSetInfo then ''SET_INFO''
      else if c = CommandOplockBreak then ''OPLOCK_BREAK''
      else ''UNKNOWN'')"

record header =
  h_CreditCharge :: u16
  h_Status :: u32
  h_Command :: u16
  h_CreditResponse :: u16
  h_Flags :: u32
  h_NextCommand :: u32
  h_MessageID :: u64
  h_TreeID :: u32
  h_SessionID :: u64
  h_Signature :: bytes

definition wf_header :: "header \<Rightarrow> bool" where
  "wf_header h \<longleftrightarrow> length (h_Signature h) = 16"

definition DecodeHeader :: "bytes \<Rightarrow> (smb_err, header) decoded" where
  "DecodeHeader b =
     (if length b < HeaderSize then Some (Inl ErrShortBuffer)
      else do {
        b0 \<leftarrow> u8_at b 0; b1 \<leftarrow> u8_at b 1; b2 \<leftarrow> u8_at b 2; b3 \<leftarrow> u8_at b 3;
        if b0 \<noteq> protocolID ! 0 \<or> b1 \<noteq> protocolID ! 1 \<or> b2 \<noteq> protocolID ! 2 \<or> b3 \<noteq> protocolID ! 3
        then Some (Inl ErrBadProtocolID)
        else do {
          ss \<leftarrow> u16_at b 4;
          if ss \<noteq> 64 then Some (Inl ErrBadStructureSize)
          else do {
            cc \<leftarrow> u16_at b 6;
            st \<leftarrow> u32_at b 8;
            cmd \<leftarrow> u16_at b 12;
            cr \<leftarrow> u16_at b 14;
            fl \<leftarrow> u32_at b 16;
            nc \<leftarrow> u32_at b 20;
            mid \<leftarrow> u64_at b 24;
            tid \<leftarrow> u32_at b 36;
            sid \<leftarrow> u64_at b 40;
            sig \<leftarrow> go_slice b 48 64;
            Some (Inr \<lparr>h_CreditCharge = cc, h_Status = st, h_Command = cmd, h_CreditResponse = cr,
              h_Flags = fl, h_NextCommand = nc, h_MessageID = mid, h_TreeID = tid,
              h_SessionID = sid, h_Signature = sig\<rparr>)
          }
        }
      })"

definition EncodeHeader :: "bytes \<Rightarrow> header \<Rightarrow> (smb_err, bytes) decoded" where
  "EncodeHeader out h =
     (if length out < HeaderSize then Some (Inl ErrShortBuffer)
      else do {
        out \<leftarrow> put_at 0 protocolID out;
        out \<leftarrow> put_at 4 (le16 64) out;
        out \<leftarrow> put_at 6 (le16 (h_CreditCharge h)) out;
        out \<leftarrow> put_at 8 (le32 (h_Status h)) out;
        out \<leftarrow> put_at 12 (le16 (h_Command h)) out;
        out \<leftarrow> put_at 14 (le16 (h_CreditResponse h)) out;
        out \<leftarrow> put_at 16 (le32 (h_Flags h)) out;
        out \<leftarrow> put_at 20 (le32 (h_NextCommand h)) out;
        out \<leftarrow> put_at 24 (le64 (h_MessageID h)) out;
        out \<leftarrow> put_at 32 (le32 0) out;
        out \<leftarrow> put_at 36 (le32 (h_TreeID h)) out;
        out \<leftarrow> put_at 40 (le64 (h_SessionID h)) out;
        out \<leftarrow> put_at 48 (h_Signature h) out;
        Some (Inr out)
      })"

definition EncodeAsyncHeader :: "bytes \<Rightarrow> header \<Rightarrow> u64 \<Rightarrow> (smb_err, bytes) decoded" where
  "EncodeAsyncHeader out h asyncID =
     (if length out < HeaderSize then Some (Inl ErrShortBuffer)
      else do {
        out \<leftarrow> put_at 0 protocolID out;
        out \<leftarrow> put_at 4 (le16 64) out;
        out \<leftarrow> put_at 6 (le16 (h_CreditCharge h)) out;
        out \<leftarrow> put_at 8 (le32 (h_Status h)) out;
        out \<leftarrow> put_at 12 (le16 (h_Command h)) out;
        out \<leftarrow> put_at 14 (le16 (h_CreditResponse h)) out;
        out \<leftarrow> put_at 16 (le32 (h_Flags h OR FlagAsyncCommand)) out;
        out \<leftarrow> put_at 20 (le32 (h_NextCommand h)) out;
        out \<leftarrow> put_at 24 (le64 (h_MessageID h)) out;
        out \<leftarrow> put_at 32 (le64 asyncID) out;
        out \<leftarrow> put_at 40 (le64 (h_SessionID h)) out;
        out \<leftarrow> put_at 48 (h_Signature h) out;
        Some (Inr out)
      })"

section \<open>The decoder never panics\<close>

lemma length_protocolID [simp]: "length protocolID = 4"
  by (simp add: protocolID_def)

lemma DecodeHeader_no_panic: "DecodeHeader b \<noteq> None"
  by (simp add: DecodeHeader_def go_panic)

lemma DecodeHeader_wf: "DecodeHeader b = Some (Inr h) \<Longrightarrow> wf_header h \<and> 64 \<le> length b"
  by (auto simp: DecodeHeader_def go_panic wf_header_def split: if_splits)

section \<open>What EncodeHeader writes\<close>

lemma EncodeHeader_eq:
  assumes "64 \<le> length out" and "wf_header h"
  shows "EncodeHeader out h = Some (Inr (
     patch 48 (h_Signature h) (patch 40 (le64 (h_SessionID h)) (patch 36 (le32 (h_TreeID h))
     (patch 32 (le32 0) (patch 24 (le64 (h_MessageID h)) (patch 20 (le32 (h_NextCommand h))
     (patch 16 (le32 (h_Flags h)) (patch 14 (le16 (h_CreditResponse h)) (patch 12 (le16 (h_Command h))
     (patch 8 (le32 (h_Status h)) (patch 6 (le16 (h_CreditCharge h)) (patch 4 (le16 64)
     (patch 0 protocolID out))))))))))))))"
  using assms by (simp add: EncodeHeader_def go_panic wf_header_def)

lemma EncodeHeader_roundtrip:
  assumes "64 \<le> length out" and "wf_header h"
  obtains out' where "EncodeHeader out h = Some (Inr out')" and "DecodeHeader out' = Some (Inr h)"
    and "length out' = length out" and "drop 64 out' = drop 64 out"
proof
  show "EncodeHeader out h = Some (Inr (
     patch 48 (h_Signature h) (patch 40 (le64 (h_SessionID h)) (patch 36 (le32 (h_TreeID h))
     (patch 32 (le32 0) (patch 24 (le64 (h_MessageID h)) (patch 20 (le32 (h_NextCommand h))
     (patch 16 (le32 (h_Flags h)) (patch 14 (le16 (h_CreditResponse h)) (patch 12 (le16 (h_Command h))
     (patch 8 (le32 (h_Status h)) (patch 6 (le16 (h_CreditCharge h)) (patch 4 (le16 64)
     (patch 0 protocolID out))))))))))))))" (is "_ = Some (Inr ?o)")
    using assms by (rule EncodeHeader_eq)
  show "DecodeHeader ?o = Some (Inr h)"
    using assms by (auto simp: DecodeHeader_def go_panic wf_header_def byte_layout)
  show "length ?o = length out" by simp
  show "drop 64 ?o = drop 64 out"
    using assms by (simp add: drop_patch wf_header_def)
qed

lemma le_word_append:
  "le_word (xs @ ys) = le_word xs OR push_bit (8 * length xs) (le_word ys)"
  by (induction xs) (simp_all add: or.assoc push_bit_or)

lemma take_le_bytes: "m \<le> n \<Longrightarrow> take m (le_bytes n w) = le_bytes m w"
  by (rule nth_equalityI) (simp_all add: nth_le_bytes)

lemma drop_le_bytes: "drop m (le_bytes n w) = le_bytes (n - m) (drop_bit (8 * m) w)"
  by (rule nth_equalityI) (simp_all add: nth_le_bytes drop_bit_drop_bit algebra_simps)

lemma le_word_ucast_le_bytes:
  "8 * n \<le> LENGTH('a) \<Longrightarrow>
    (le_word (le_bytes n (w :: 'b::len word)) :: 'a::len word) = ucast (take_bit (8 * n) w)"
proof (rule bit_word_eqI)
  fix i assume "i < LENGTH('a)"
  have *: "i div 8 < n \<longleftrightarrow> i < 8 * n"
    by (simp add: div_less_iff_less_mult mult.commute)
  have "8 * (i div 8) + i mod 8 = i" by simp
  with \<open>i < LENGTH('a)\<close>
  show "bit (le_word (le_bytes n w) :: 'a word) i = bit (ucast (take_bit (8 * n) w) :: 'a word) i"
    by (auto simp: bit_le_word * nth_le_bytes bit_simps)
qed

lemma EncodeAsyncHeader_eq:
  assumes "64 \<le> length out" and "wf_header h"
  shows "EncodeAsyncHeader out h asyncID = Some (Inr (
     patch 48 (h_Signature h) (patch 40 (le64 (h_SessionID h)) (patch 32 (le64 asyncID)
     (patch 24 (le64 (h_MessageID h)) (patch 20 (le32 (h_NextCommand h))
     (patch 16 (le32 (h_Flags h OR FlagAsyncCommand)) (patch 14 (le16 (h_CreditResponse h))
     (patch 12 (le16 (h_Command h)) (patch 8 (le32 (h_Status h)) (patch 6 (le16 (h_CreditCharge h))
     (patch 4 (le16 64) (patch 0 protocolID out)))))))))))))"
  using assms by (simp add: EncodeAsyncHeader_def go_panic wf_header_def)

lemma take_drop_inside_patch:
  "off \<le> off' \<Longrightarrow> off' + n \<le> off + length xs \<Longrightarrow> off + length xs \<le> length buf \<Longrightarrow>
    take n (drop off' (patch off xs buf)) = take n (drop (off' - off) xs)"
  by (rule nth_equalityI) (auto simp: nth_patch add.commute)

text \<open>Re-encoding a decoded header over its own bytes only clears the reserved field.\<close>

lemma EncodeHeader_DecodeHeader:
  assumes "DecodeHeader b = Some (Inr h)"
  shows "EncodeHeader b h = Some (Inr (patch 32 (zeros 4) b))"
proof -
  have len: "64 \<le> length b" and wf: "wf_header h"
    using DecodeHeader_wf [OF assms] by auto
  have pid: "take 4 (drop 0 b) = protocolID"
    by (rule nth_equalityI)
      (use assms len in \<open>auto simp: DecodeHeader_def go_panic protocolID_def nth_Cons less_Suc_eq
         numeral_eq_Suc split: if_splits nat.splits\<close>)
  have ss: "(le_word (take 2 (drop 4 b)) :: u16) = 64"
    using assms len by (auto simp: DecodeHeader_def go_panic split: if_splits)
  have f: "h = \<lparr>h_CreditCharge = le_word (take 2 (drop 6 b)), h_Status = le_word (take 4 (drop 8 b)),
      h_Command = le_word (take 2 (drop 12 b)), h_CreditResponse = le_word (take 2 (drop 14 b)),
      h_Flags = le_word (take 4 (drop 16 b)), h_NextCommand = le_word (take 4 (drop 20 b)),
      h_MessageID = le_word (take 8 (drop 24 b)), h_TreeID = le_word (take 4 (drop 36 b)),
      h_SessionID = le_word (take 8 (drop 40 b)), h_Signature = take 16 (drop 48 b)\<rparr>"
    using assms len by (auto simp: DecodeHeader_def go_panic split: if_splits)
  have [simp]: "le16 64 = take 2 (drop 4 b)"
    unfolding ss [symmetric] using len by (intro le_bytes_le_word) auto
  have z: "le32 0 = zeros 4" by (simp add: numeral_eq_Suc)
  show ?thesis
    unfolding EncodeHeader_eq [OF len wf]
    using len by (simp add: f le_bytes_le_word z flip: pid)
      (simp add: patch_id [of 0, simplified] patch_id byte_layout patch_commute [of 32])
qed

end
