(* ===== verification/Smb2_Messages.thy ===== *)
theory Smb2_Messages
  imports Smb2_Header Go_Text
begin

text \<open>
  The request decoders and response encoders of \<^verbatim>\<open>internal/smb2\<close>, one definition per Go
  function: \<^verbatim>\<open>session.go\<close>, \<^verbatim>\<open>tree.go\<close>, \<^verbatim>\<open>create.go\<close>, \<^verbatim>\<open>lock.go\<close>, \<^verbatim>\<open>read.go\<close>, \<^verbatim>\<open>write.go\<close>,
  \<^verbatim>\<open>close.go\<close>, \<^verbatim>\<open>flush.go\<close>, \<^verbatim>\<open>set_info.go\<close>, \<^verbatim>\<open>query_dir.go\<close>, \<^verbatim>\<open>query_info.go\<close>,
  \<^verbatim>\<open>change_notify.go\<close> and \<^verbatim>\<open>ioctl.go\<close>. A request body is whatever the peer sent, so what
  matters first is that no decoder panics and that every variable-length field it returns
  is a slice of the body.
\<close>

section \<open>Variable-length fields\<close>

text \<open>
  Every variable part of a request is named by an offset from the start of the 64-byte
  header and a length; the decoders all check it with the same three lines.
\<close>

definition body_slice :: "bytes \<Rightarrow> nat \<Rightarrow> nat \<Rightarrow> (smb_err, bytes) decoded" where
  "body_slice body offAbs n =
     (let off = int offAbs - 64 in
      if off < 0 \<or> off + int n > int (length body) then Some (Inl ErrShortBuffer)
      else map_option Inr (go_slice body (nat off) (nat off + n)))"

definition opt_slice :: "bytes \<Rightarrow> nat \<Rightarrow> nat \<Rightarrow> (smb_err, bytes) decoded" where
  "opt_slice body offAbs n = (if n > 0 then body_slice body offAbs n else Some (Inr []))"

text \<open>QUERY\_INFO and IOCTL ignore an input buffer that does not fit instead of refusing it.\<close>

definition lenient_slice :: "bytes \<Rightarrow> nat \<Rightarrow> nat \<Rightarrow> bytes option" where
  "lenient_slice body offAbs n =
     (let off = int offAbs - 64 in
      if n > 0 \<and> off \<ge> 0 \<and> off + int n \<le> int (length body)
      then go_slice body (nat off) (nat off + n) else Some [])"

lemma body_slice_no_panic [simp]: "body_slice body offAbs n \<noteq> None"
  by (auto simp: body_slice_def go_slice_def Let_def)

lemma opt_slice_no_panic [simp]: "opt_slice body offAbs n \<noteq> None"
  using body_slice_no_panic by (auto simp: opt_slice_def simp del: not_None_eq)

lemma nat_int_minus: "nat (int k - 64) = k - 64"
  by simp

lemma lenient_slice_no_panic [simp]: "lenient_slice body offAbs n \<noteq> None"
  by (auto simp: lenient_slice_def go_slice_def Let_def)

lemma body_slice_Inr:
  "body_slice body offAbs n = Some (Inr xs) \<longleftrightarrow>
     64 \<le> offAbs \<and> offAbs - 64 + n \<le> length body \<and> xs = take n (drop (offAbs - 64) body)"
  by (auto simp: body_slice_def go_slice_def Let_def nat_int_minus)

lemma opt_slice_Inr:
  "opt_slice body offAbs n = Some (Inr xs) \<Longrightarrow>
     length xs = n \<and> (\<exists>i. i + n \<le> length body \<and> xs = take n (drop i body))"
  by (auto simp: opt_slice_def body_slice_Inr split: if_splits)

text \<open>An error of an inner step is the error of the whole decoder.\<close>

definition ok_then :: "(smb_err, 'a) decoded \<Rightarrow> ('a \<Rightarrow> (smb_err, 'b) decoded) \<Rightarrow> (smb_err, 'b) decoded" where
  "ok_then m f = Option.bind m (\<lambda>r. case r of Inl e \<Rightarrow> Some (Inl e) | Inr a \<Rightarrow> f a)"

lemma ok_then_no_panic: "m \<noteq> None \<Longrightarrow> (\<And>a. f a \<noteq> None) \<Longrightarrow> ok_then m f \<noteq> None"
  by (auto simp: ok_then_def split: sum.splits)

lemma ok_then_Inr: "ok_then m f = Some (Inr b) \<longleftrightarrow> (\<exists>a. m = Some (Inr a) \<and> f a = Some (Inr b))"
  by (cases m) (auto simp: ok_then_def split: sum.splits)

section \<open>SESSION\_SETUP\<close>

record session_setup_request =
  ssr_Flags :: byte
  ssr_SecurityMode :: byte
  ssr_Capabilities :: u32
  ssr_Channel :: u32
  ssr_PreviousSessionID :: u64
  ssr_SecurityBuffer :: bytes

definition DecodeSessionSetupRequest :: "bytes \<Rightarrow> (smb_err, session_setup_request) decoded" where
  "DecodeSessionSetupRequest body =
     (if length body < 24 then Some (Inl ErrShortBuffer)
      else do {
        ss \<leftarrow> u16_at body 0;
        if ss \<noteq> 25 then Some (Inl ErrBadStructureSize)
        else do {
          fl \<leftarrow> u8_at body 2;
          sm \<leftarrow> u8_at body 3;
          cap \<leftarrow> u32_at body 4;
          ch \<leftarrow> u32_at body 8;
          secOffAbs \<leftarrow> u16_at body 12;
          secLen \<leftarrow> u16_at body 14;
          prev \<leftarrow> u64_at body 16;
          ok_then (opt_slice body (unat secOffAbs) (unat secLen)) (\<lambda>buf.
            Some (Inr \<lparr>ssr_Flags = fl, ssr_SecurityMode = sm, ssr_Capabilities = cap,
              ssr_Channel = ch, ssr_PreviousSessionID = prev, ssr_SecurityBuffer = buf\<rparr>))
        }
      })"

abbreviation SessionFlagIsGuest :: u16 where "SessionFlagIsGuest \<equiv> 0x0001"
abbreviation SessionFlagIsNull :: u16 where "SessionFlagIsNull \<equiv> 0x0002"
abbreviation SessionFlagEncryptData :: u16 where "SessionFlagEncryptData \<equiv> 0x0004"

definition EncodeSessionSetupResponse :: "u16 \<Rightarrow> bytes \<Rightarrow> bytes option" where
  "EncodeSessionSetupResponse flags buf = do {
     out \<leftarrow> put_at 0 [9] (zeros (8 + length buf));
     out \<leftarrow> put_at 2 (le16 flags) out;
     if length buf > 0 then do {
       out \<leftarrow> put_at 4 (le16 (64 + 8)) out;
       out \<leftarrow> put_at 6 (le16 (word_of_nat (length buf))) out;
       put_at 8 buf out
     } else Some out
   }"

section \<open>TREE\_CONNECT and TREE\_DISCONNECT\<close>

record tree_connect_request =
  tcr_Flags :: u16
  tcr_Path :: gostring

definition DecodeTreeConnectRequest :: "bytes \<Rightarrow> (smb_err, tree_connect_request) decoded" where
  "DecodeTreeConnectRequest body =
     (if length body < 8 then Some (Inl ErrShortBuffer)
      else do {
        ss \<leftarrow> u16_at body 0;
        if ss \<noteq> 9 then Some (Inl ErrBadStructureSize)
        else do {
          flags \<leftarrow> u16_at body 2;
          pathOffAbs \<leftarrow> u16_at body 4;
          pathLen \<leftarrow> u16_at body 6;
          if pathLen = 0 then Some (Inr \<lparr>tcr_Flags = flags, tcr_Path = []\<rparr>)
          else ok_then (body_slice body (unat pathOffAbs) (unat pathLen)) (\<lambda>p.
            Some (Inr \<lparr>tcr_Flags = flags, tcr_Path = decodeUTF16LE p\<rparr>))
        }
      })"

record tree_connect_response =
  tcp_ShareType :: byte
  tcp_ShareFlags :: u32
  tcp_Capabilities :: u32
  tcp_MaximalAccess :: u32

definition EncodeTreeConnectResponse :: "tree_connect_response \<Rightarrow> bytes option" where
  "EncodeTreeConnectResponse r = do {
     out \<leftarrow> put_at 0 (le16 16) (zeros 16);
     out \<leftarrow> put_at 2 [tcp_ShareType r] out;
     out \<leftarrow> put_at 4 (le32 (tcp_ShareFlags r)) out;
     out \<leftarrow> put_at 8 (le32 (tcp_Capabilities r)) out;
     put_at 12 (le32 (tcp_MaximalAccess r)) out
   }"

definition DecodeTreeDisconnectRequest :: "bytes \<Rightarrow> (smb_err, unit) decoded" where
  "DecodeTreeDisconnectRequest body =
     (if length body < 4 then Some (Inl ErrShortBuffer)
      else do {
        ss \<leftarrow> u16_at body 0;
        if ss \<noteq> 4 then Some (Inl ErrBadStructureSize) else Some (Inr ())
      })"

definition EncodeTreeDisconnectResponse :: bytes where
  "EncodeTreeDisconnectResponse = [0x04, 0x00, 0x00, 0x00]"

section \<open>CREATE\<close>

record create_request =
  crq_RequestedOplock :: byte
  crq_ImpersonationLevel :: u32
  crq_DesiredAccess :: u32
  crq_FileAttributes :: u32
  crq_ShareAccess :: u32
  crq_CreateDisposition :: u32
  crq_CreateOptions :: u32
  crq_Name :: gostring
  crq_CreateContexts :: bytes

definition DecodeCreateRequest :: "bytes \<Rightarrow> (smb_err, create_request) decoded" where
  "DecodeCreateRequest body =
     (if length body < 56 then Some (Inl ErrShortBuffer)
      else do {
        ss \<leftarrow> u16_at body 0;
        if ss \<noteq> 57 then Some (Inl ErrBadStructureSize)
        else do {
          opl \<leftarrow> u8_at body 3;
          imp \<leftarrow> u32_at body 4;
          des \<leftarrow> u32_at body 24;
          att \<leftarrow> u32_at body 28;
          sha \<leftarrow> u32_at body 32;
          dis \<leftarrow> u32_at body 36;
          opts \<leftarrow> u32_at body 40;
          nameOffAbs \<leftarrow> u16_at body 44;
          nameLen \<leftarrow> u16_at body 46;
          ccOffAbs \<leftarrow> u32_at body 48;
          ccLen \<leftarrow> u32_at body 52;
          ok_then (opt_slice body (unat nameOffAbs) (unat nameLen)) (\<lambda>name.
          ok_then (opt_slice body (unat ccOffAbs) (unat ccLen)) (\<lambda>cc.
            Some (Inr \<lparr>crq_RequestedOplock = opl, crq_ImpersonationLevel = imp,
              crq_DesiredAccess = des, crq_FileAttributes = att, crq_ShareAccess = sha,
              crq_CreateDisposition = dis, crq_CreateOptions = opts,
              crq_Name = decodeUTF16LE name, crq_CreateContexts = cc\<rparr>)))
        }
      })"

record create_response =
  crp_OplockLevel :: byte
  crp_Flags :: byte
  crp_CreateAction :: u32
  crp_CreationTime :: u64
  crp_LastAccessTime :: u64
  crp_LastWriteTime :: u64
  crp_ChangeTime :: u64
  crp_AllocationSize :: u64
  crp_EndOfFile :: u64
  crp_FileAttributes :: u32
  crp_FileID :: bytes
  crp_CreateContexts :: bytes

definition EncodeCreateResponse :: "create_response \<Rightarrow> bytes option" where
  "EncodeCreateResponse r = do {
     body \<leftarrow> put_at 0 (le16 89) (zeros 88);
     body \<leftarrow> put_at 2 [crp_OplockLevel r] body;
     body \<leftarrow> put_at 3 [crp_Flags r] body;
     body \<leftarrow> put_at 4 (le32 (crp_CreateAction r)) body;
     body \<leftarrow> put_at 8 (le64 (crp_CreationTime r)) body;
     body \<leftarrow> put_at 16 (le64 (crp_LastAccessTime r)) body;
     body \<leftarrow> put_at 24 (le64 (crp_LastWriteTime r)) body;
     body \<leftarrow> put_at 32 (le64 (crp_ChangeTime r)) body;
     body \<leftarrow> put_at 40 (le64 (crp_AllocationSize r)) body;
     body \<leftarrow> put_at 48 (le64 (crp_EndOfFile r)) body;
     body \<leftarrow> put_at 56 (le32 (crp_FileAttributes r)) body;
     body \<leftarrow> put_at 64 (crp_FileID r) body;
     if crp_CreateContexts r = [] then do {
       body \<leftarrow> put_at 80 (le32 0) body;
       body \<leftarrow> put_at 84 (le32 0) body;
       Some (body @ [0])
     } else do {
       let body = body @ zeros ((8 - length body mod 8) mod 8);
       body \<leftarrow> put_at 80 (le32 (word_of_nat (length body + 64))) body;
       body \<leftarrow> put_at 84 (le32 (word_of_nat (length (crp_CreateContexts r)))) body;
       Some (body @ crp_CreateContexts r)
     }
   }"

section \<open>LOCK\<close>

abbreviation LockFlagSharedLock :: u32 where "LockFlagSharedLock \<equiv> 0x00000001"
abbreviation LockFlagExclusiveLock :: u32 where "LockFlagExclusiveLock \<equiv> 0x00000002"
abbreviation LockFlagUnlock :: u32 where "LockFlagUnlock \<equiv> 0x00000004"
abbreviation LockFlagFailImmediately :: u32 where "LockFlagFailImmediately \<equiv> 0x00000010"

record lock_element =
  le_Offset :: u64
  le_Length :: u64
  le_Flags :: u32

record lock_request =
  lr_LockSequenceIndex :: u32
  lr_FileID :: bytes
  lr_Locks :: "lock_element list"

primrec decode_lock_elements :: "bytes \<Rightarrow> nat \<Rightarrow> nat \<Rightarrow> lock_element list option" where
  "decode_lock_elements body i 0 = Some []"
| "decode_lock_elements body i (Suc n) = do {
     off \<leftarrow> u64_at body (24 + i * 24);
     len \<leftarrow> u64_at body (24 + i * 24 + 8);
     fl \<leftarrow> u32_at body (24 + i * 24 + 16);
     els \<leftarrow> decode_lock_elements body (Suc i) n;
     Some (\<lparr>le_Offset = off, le_Length = len, le_Flags = fl\<rparr> # els)
   }"

definition DecodeLockRequest :: "bytes \<Rightarrow> (smb_err, lock_request) decoded" where
  "DecodeLockRequest body =
     (if length body < 48 then Some (Inl ErrShortBuffer)
      else do {
        ss \<leftarrow> u16_at body 0;
        if ss \<noteq> 48 then Some (Inl ErrBadStructureSize)
        else do {
          lockCount \<leftarrow> u16_at body 2;
          seqNumIdx \<leftarrow> u32_at body 4;
          fileID \<leftarrow> go_slice body 8 24;
          if unat lockCount = 0 then Some (Inl ErrInvalidParameter)
          else if length body < 24 + unat lockCount * 24 then Some (Inl ErrShortBuffer)
          else do {
            locks \<leftarrow> decode_lock_elements body 0 (unat lockCount);
            Some (Inr \<lparr>lr_LockSequenceIndex = seqNumIdx, lr_FileID = fileID, lr_Locks = locks\<rparr>)
          }
        }
      })"

definition EncodeLockResponse :: "bytes option" where
  "EncodeLockResponse = put_at 0 (le16 4) (zeros 4)"

section \<open>READ and WRITE\<close>

record read_request =
  rd_Length :: u32
  rd_Offset :: u64
  rd_FileID :: bytes
  rd_MinimumCount :: u32

definition DecodeReadRequest :: "bytes \<Rightarrow> (smb_err, read_request) decoded" where
  "DecodeReadRequest body =
     (if length body < 48 then Some (Inl ErrShortBuffer)
      else do {
        ss \<leftarrow> u16_at body 0;
        if ss \<noteq> 49 then Some (Inl ErrBadStructureSize)
        else do {
          len \<leftarrow> u32_at body 4;
          off \<leftarrow> u64_at body 8;
          mc \<leftarrow> u32_at body 32;
          fid \<leftarrow> go_slice body 16 32;
          Some (Inr \<lparr>rd_Length = len, rd_Offset = off, rd_FileID = fid, rd_MinimumCount = mc\<rparr>)
        }
      })"

definition EncodeReadResponse :: "bytes \<Rightarrow> bytes option" where
  "EncodeReadResponse data = do {
     out \<leftarrow> put_at 0 (le16 17) (zeros (16 + length data));
     out \<leftarrow> put_at 2 [64 + 16] out;
     out \<leftarrow> put_at 4 (le32 (word_of_nat (length data))) out;
     put_at 16 data out
   }"

record write_request =
  wr_Length :: u32
  wr_Offset :: u64
  wr_FileID :: bytes
  wr_Flags :: u32
  wr_Data :: bytes

definition DecodeWriteRequest :: "bytes \<Rightarrow> (smb_err, write_request) decoded" where
  "DecodeWriteRequest body =
     (if length body < 48 then Some (Inl ErrShortBuffer)
      else do {
        ss \<leftarrow> u16_at body 0;
        if ss \<noteq> 49 then Some (Inl ErrBadStructureSize)
        else do {
          dataOffAbs \<leftarrow> u16_at body 2;
          len \<leftarrow> u32_at body 4;
          off \<leftarrow> u64_at body 8;
          fl \<leftarrow> u32_at body 44;
          fid \<leftarrow> go_slice body 16 32;
          ok_then (opt_slice body (unat dataOffAbs) (unat len)) (\<lambda>data.
            Some (Inr \<lparr>wr_Length = len, wr_Offset = off, wr_FileID = fid, wr_Flags = fl, wr_Data = data\<rparr>))
        }
      })"

definition EncodeWriteResponse :: "u32 \<Rightarrow> bytes option" where
  "EncodeWriteResponse count = do {
     out \<leftarrow> put_at 0 (le16 17) (zeros 16);
     put_at 4 (le32 count) out
   }"

section \<open>CLOSE and FLUSH\<close>

abbreviation CloseFlagPostQueryAttrib :: u16 where "CloseFlagPostQueryAttrib \<equiv> 0x0001"

record close_request =
  clq_Flags :: u16
  clq_FileID :: bytes

definition DecodeCloseRequest :: "bytes \<Rightarrow> (smb_err, close_request) decoded" where
  "DecodeCloseRequest body =
     (if length body < 24 then Some (Inl ErrShortBuffer)
      else do {
        ss \<leftarrow> u16_at body 0;
        if ss \<noteq> 24 then Some (Inl ErrBadStructureSize)
        else do {
          fl \<leftarrow> u16_at body 2;
          fid \<leftarrow> go_slice body 8 24;
          Some (Inr \<lparr>clq_Flags = fl, clq_FileID = fid\<rparr>)
        }
      })"

record close_response =
  clp_Flags :: u16
  clp_CreationTime :: u64
  clp_LastAccessTime :: u64
  clp_LastWriteTime :: u64
  clp_ChangeTime :: u64
  clp_AllocationSize :: u64
  clp_EndOfFile :: u64
  clp_FileAttributes :: u32

definition EncodeCloseResponse :: "close_response \<Rightarrow> bytes option" where
  "EncodeCloseResponse r = do {
     out \<leftarrow> put_at 0 (le16 60) (zeros 60);
     out \<leftarrow> put_at 2 (le16 (clp_Flags r)) out;
     out \<leftarrow> put_at 8 (le64 (clp_CreationTime r)) out;
     out \<leftarrow> put_at 16 (le64 (clp_LastAccessTime r)) out;
     out \<leftarrow> put_at 24 (le64 (clp_LastWriteTime r)) out;
     out \<leftarrow> put_at 32 (le64 (clp_ChangeTime r)) out;
     out \<leftarrow> put_at 40 (le64 (clp_AllocationSize r)) out;
     out \<leftarrow> put_at 48 (le64 (clp_EndOfFile r)) out;
     put_at 56 (le32 (clp_FileAttributes r)) out
   }"

definition DecodeFlushRequest :: "bytes \<Rightarrow> (smb_err, bytes) decoded" where
  "DecodeFlushRequest body =
     (if length body < 24 then Some (Inl ErrShortBuffer)
      else do {
        ss \<leftarrow> u16_at body 0;
        if ss \<noteq> 24 then Some (Inl ErrBadStructureSize)
        else map_option Inr (go_slice body 8 24)
      })"

definition EncodeFlushResponse :: "bytes option" where
  "EncodeFlushResponse = put_at 0 (le16 4) (zeros 4)"

section \<open>SET\_INFO, QUERY\_DIRECTORY and QUERY\_INFO\<close>

record set_info_request =
  si_InfoType :: byte
  si_FileInfoClass :: byte
  si_BufferLength :: u32
  si_AdditionalInfo :: u32
  si_FileID :: bytes
  si_Buffer :: bytes

definition DecodeSetInfoRequest :: "bytes \<Rightarrow> (smb_err, set_info_request) decoded" where
  "DecodeSetInfoRequest body =
     (if length body < 32 then Some (Inl ErrShortBuffer)
      else do {
        ss \<leftarrow> u16_at body 0;
        if ss \<noteq> 33 then Some (Inl ErrBadStructureSize)
        else do {
          it \<leftarrow> u8_at body 2;
          fc \<leftarrow> u8_at body 3;
          bl \<leftarrow> u32_at body 4;
          ai \<leftarrow> u32_at body 12;
          bufOffAbs \<leftarrow> u16_at body 8;
          fid \<leftarrow> go_slice body 16 32;
          ok_then (opt_slice body (unat bufOffAbs) (unat bl)) (\<lambda>buf.
            Some (Inr \<lparr>si_InfoType = it, si_FileInfoClass = fc, si_BufferLength = bl,
              si_AdditionalInfo = ai, si_FileID = fid, si_Buffer = buf\<rparr>))
        }
      })"

definition EncodeSetInfoResponse :: "bytes option" where
  "EncodeSetInfoResponse = put_at 0 (le16 2) (zeros 2)"

record query_directory_request =
  qd_FileInformationClass :: byte
  qd_Flags :: byte
  qd_FileIndex :: u32
  qd_FileID :: bytes
  qd_OutputBufferLength :: u32
  qd_FileName :: gostring

definition DecodeQueryDirectoryRequest :: "bytes \<Rightarrow> (smb_err, query_directory_request) decoded" where
  "DecodeQueryDirectoryRequest body =
     (if length body < 32 then Some (Inl ErrShortBuffer)
      else do {
        ss \<leftarrow> u16_at body 0;
        if ss \<noteq> 33 then Some (Inl ErrBadStructureSize)
        else do {
          fc \<leftarrow> u8_at body 2;
          fl \<leftarrow> u8_at body 3;
          ix \<leftarrow> u32_at body 4;
          obl \<leftarrow> u32_at body 28;
          fid \<leftarrow> go_slice body 8 24;
          nameOffAbs \<leftarrow> u16_at body 24;
          nameLen \<leftarrow> u16_at body 26;
          ok_then (opt_slice body (unat nameOffAbs) (unat nameLen)) (\<lambda>name.
            Some (Inr \<lparr>qd_FileInformationClass = fc, qd_Flags = fl, qd_FileIndex = ix,
              qd_FileID = fid, qd_OutputBufferLength = obl, qd_FileName = decodeUTF16LE name\<rparr>))
        }
      })"

text \<open>
  QUERY\_DIRECTORY, QUERY\_INFO and CHANGE\_NOTIFY share one response shape: StructureSize 9,
  offset and length of the buffer, the buffer. Three Go functions, one body.
\<close>

definition encode_buffer_response :: "bytes \<Rightarrow> bytes option" where
  "encode_buffer_response buf = do {
     out \<leftarrow> put_at 0 (le16 9) (zeros (8 + length buf));
     if length buf > 0 then do {
       out \<leftarrow> put_at 2 (le16 (64 + 8)) out;
       out \<leftarrow> put_at 4 (le32 (word_of_nat (length buf))) out;
       put_at 8 buf out
     } else Some out
   }"

definition EncodeQueryDirectoryResponse :: "bytes \<Rightarrow> bytes option" where
  "EncodeQueryDirectoryResponse buf = encode_buffer_response buf"

definition EncodeQueryInfoResponse :: "bytes \<Rightarrow> bytes option" where
  "EncodeQueryInfoResponse buf = encode_buffer_response buf"

definition EncodeChangeNotifyResponse :: "bytes \<Rightarrow> bytes option" where
  "EncodeChangeNotifyResponse buf = encode_buffer_response buf"

record query_info_request =
  qi_InfoType :: byte
  qi_FileInfoClass :: byte
  qi_OutputBufferLen :: u32
  qi_AdditionalInfo :: u32
  qi_Flags :: u32
  qi_FileID :: bytes
  qi_InputBuffer :: bytes

definition DecodeQueryInfoRequest :: "bytes \<Rightarrow> (smb_err, query_info_request) decoded" where
  "DecodeQueryInfoRequest body =
     (if length body < 40 then Some (Inl ErrShortBuffer)
      else do {
        ss \<leftarrow> u16_at body 0;
        if ss \<noteq> 41 then Some (Inl ErrBadStructureSize)
        else do {
          it \<leftarrow> u8_at body 2;
          fc \<leftarrow> u8_at body 3;
          obl \<leftarrow> u32_at body 4;
          ai \<leftarrow> u32_at body 16;
          fl \<leftarrow> u32_at body 20;
          fid \<leftarrow> go_slice body 24 40;
          inOffAbs \<leftarrow> u16_at body 8;
          inLen \<leftarrow> u32_at body 12;
          buf \<leftarrow> lenient_slice body (unat inOffAbs) (unat inLen);
          Some (Inr \<lparr>qi_InfoType = it, qi_FileInfoClass = fc, qi_OutputBufferLen = obl,
            qi_AdditionalInfo = ai, qi_Flags = fl, qi_FileID = fid, qi_InputBuffer = buf\<rparr>)
        }
      })"

section \<open>CHANGE\_NOTIFY\<close>

record change_notify_request =
  cn_Flags :: u16
  cn_OutputBufferLength :: u32
  cn_FileID :: bytes
  cn_CompletionFilter :: u32

definition DecodeChangeNotifyRequest :: "bytes \<Rightarrow> (smb_err, change_notify_request) decoded" where
  "DecodeChangeNotifyRequest body =
     (if length body < 32 then Some (Inl ErrShortBuffer)
      else do {
        ss \<leftarrow> u16_at body 0;
        if ss \<noteq> 32 then Some (Inl ErrBadStructureSize)
        else do {
          fl \<leftarrow> u16_at body 2;
          obl \<leftarrow> u32_at body 4;
          fid \<leftarrow> go_slice body 8 24;
          cf \<leftarrow> u32_at body 24;
          Some (Inr \<lparr>cn_Flags = fl, cn_OutputBufferLength = obl, cn_FileID = fid, cn_CompletionFilter = cf\<rparr>)
        }
      })"

record notify_entry =
  ne_Action :: u32
  ne_Name :: gostring

definition notify_record :: "notify_entry \<Rightarrow> bytes option" where
  "notify_record e = do {
     let name = utf16leNotify (ne_Name e);
     rec \<leftarrow> put_at 4 (le32 (ne_Action e)) (zeros (12 + length name));
     rec \<leftarrow> put_at 8 (le32 (word_of_nat (length name))) rec;
     rec \<leftarrow> put_at 12 name rec;
     Some (if length rec mod 4 \<noteq> 0 then rec @ zeros (4 - length rec mod 4) else rec)
   }"

text \<open>First loop: the records one after the other, with the offset each starts at.\<close>

primrec notify_records :: "notify_entry list \<Rightarrow> bytes \<Rightarrow> nat list \<Rightarrow> (bytes \<times> nat list) option" where
  "notify_records [] out starts = Some (out, starts)"
| "notify_records (e # es) out starts = do {
     rec \<leftarrow> notify_record e;
     notify_records es (out @ rec) (starts @ [length out])
   }"

text \<open>Second loop: the distance to the next record, on all but the last.\<close>

fun patch_next_offsets :: "nat list \<Rightarrow> bytes \<Rightarrow> bytes option" where
  "patch_next_offsets (s # t # ts) out = do {
     out \<leftarrow> put_at s (le32 (word_of_nat (t - s))) out;
     patch_next_offsets (t # ts) out
   }"
| "patch_next_offsets _ out = Some out"

definition EncodeFileNotifyInformation :: "notify_entry list \<Rightarrow> bytes option" where
  "EncodeFileNotifyInformation entries =
     (if entries = [] then Some []
      else do {
        (out, starts) \<leftarrow> notify_records entries [] [];
        patch_next_offsets starts out
      })"

section \<open>IOCTL\<close>

record ioctl_request =
  io_CtlCode :: u32
  io_FileID :: bytes
  io_InputBuffer :: bytes
  io_Flags :: u32

definition DecodeIoctlRequest :: "bytes \<Rightarrow> (smb_err, ioctl_request) decoded" where
  "DecodeIoctlRequest body =
     (if length body < 56 then Some (Inl ErrShortBuffer)
      else do {
        ss \<leftarrow> u16_at body 0;
        if ss \<noteq> 57 then Some (Inl ErrBadStructureSize)
        else do {
          ctl \<leftarrow> u32_at body 4;
          fid \<leftarrow> go_slice body 8 24;
          inOffAbs \<leftarrow> u32_at body 24;
          inLen \<leftarrow> u32_at body 28;
          fl \<leftarrow> u32_at body 48;
          buf \<leftarrow> lenient_slice body (unat inOffAbs) (unat inLen);
          Some (Inr \<lparr>io_CtlCode = ctl, io_FileID = fid, io_InputBuffer = buf, io_Flags = fl\<rparr>)
        }
      })"

record ioctl_response =
  iop_CtlCode :: u32
  iop_FileID :: bytes
  iop_OutputBuffer :: bytes
  iop_Flags :: u32

definition EncodeIoctlResponse :: "ioctl_response \<Rightarrow> bytes option" where
  "EncodeIoctlResponse r = do {
     out \<leftarrow> put_at 0 (le16 49) (zeros (48 + length (iop_OutputBuffer r)));
     out \<leftarrow> put_at 4 (le32 (iop_CtlCode r)) out;
     out \<leftarrow> put_at 8 (iop_FileID r) out;
     out \<leftarrow> put_at 24 (le32 (64 + 48)) out;
     out \<leftarrow> put_at 32 (le32 (64 + 48)) out;
     out \<leftarrow> put_at 36 (le32 (word_of_nat (length (iop_OutputBuffer r)))) out;
     out \<leftarrow> put_at 40 (le32 (iop_Flags r)) out;
     put_at 48 (iop_OutputBuffer r) out
   }"

record validate_negotiate_info =
  vn_Capabilities :: u32
  vn_Guid :: bytes
  vn_SecurityMode :: u16
  vn_Dialect :: u16

definition EncodeValidateNegotiateInfoResponse :: "validate_negotiate_info \<Rightarrow> bytes option" where
  "EncodeValidateNegotiateInfoResponse r = do {
     out \<leftarrow> put_at 0 (le32 (vn_Capabilities r)) (zeros 24);
     out \<leftarrow> put_at 4 (vn_Guid r) out;
     out \<leftarrow> put_at 20 (le16 (vn_SecurityMode r)) out;
     put_at 22 (le16 (vn_Dialect r)) out
   }"

definition EncodeResumeKeyResponse :: "bytes \<Rightarrow> bytes option" where
  "EncodeResumeKeyResponse key = put_at 0 key (zeros 32)"

record srv_copy_chunk =
  cc_SourceOffset :: u64
  cc_TargetOffset :: u64
  cc_Length :: u32

record srv_copy_chunk_copy =
  ccc_SourceKey :: bytes
  ccc_Chunks :: "srv_copy_chunk list"

primrec decode_chunks :: "bytes \<Rightarrow> nat \<Rightarrow> nat \<Rightarrow> srv_copy_chunk list option" where
  "decode_chunks b i 0 = Some []"
| "decode_chunks b i (Suc n) = do {
     so \<leftarrow> u64_at b (32 + i * 24);
     ta \<leftarrow> u64_at b (32 + i * 24 + 8);
     ln \<leftarrow> u32_at b (32 + i * 24 + 16);
     cs \<leftarrow> decode_chunks b (Suc i) n;
     Some (\<lparr>cc_SourceOffset = so, cc_TargetOffset = ta, cc_Length = ln\<rparr> # cs)
   }"

text \<open>
  The Go function also returns the partly filled struct next to an error; no caller looks
  at it, so the error is returned alone.
\<close>

definition DecodeSrvCopyChunkCopy :: "bytes \<Rightarrow> u32 \<Rightarrow> (smb_err, srv_copy_chunk_copy) decoded" where
  "DecodeSrvCopyChunkCopy b maxChunks =
     (if length b < 32 then Some (Inl ErrShortBuffer)
      else do {
        key \<leftarrow> go_slice b 0 24;
        count \<leftarrow> u32_at b 24;
        if count = 0 then Some (Inl ErrCopyChunkLimit)
        else if count > maxChunks then Some (Inl ErrCopyChunkLimit)
        else if length b < 32 + unat count * 24 then Some (Inl ErrShortBuffer)
        else do {
          cs \<leftarrow> decode_chunks b 0 (unat count);
          Some (Inr \<lparr>ccc_SourceKey = key, ccc_Chunks = cs\<rparr>)
        }
      })"

definition EncodeSrvCopyChunkResponse :: "u32 \<Rightarrow> u32 \<Rightarrow> u32 \<Rightarrow> bytes option" where
  "EncodeSrvCopyChunkResponse chunksWritten chunkBytesWritten totalBytesWritten = do {
     out \<leftarrow> put_at 0 (le32 chunksWritten) (zeros 12);
     out \<leftarrow> put_at 4 (le32 chunkBytesWritten) out;
     put_at 8 (le32 totalBytesWritten) out
   }"

end
