(* ===== verification/Smb2_Message_Props.thy ===== *)
theory Smb2_Message_Props
  imports Smb2_Messages
begin

text \<open>
  Facts about the message codecs: no request can make a decoder panic, a LOCK request laid
  out as the protocol says is decoded element by element, and the offset and length fields
  of the responses point at the payload that was put in.
\<close>

named_theorems decoder_defs \<open>definitions of the request decoders\<close>

declare DecodeSessionSetupRequest_def [decoder_defs] DecodeTreeConnectRequest_def [decoder_defs]
  DecodeTreeDisconnectRequest_def [decoder_defs] DecodeCreateRequest_def [decoder_defs]
  DecodeReadRequest_def [decoder_defs] DecodeWriteRequest_def [decoder_defs]
  DecodeCloseRequest_def [decoder_defs] DecodeFlushRequest_def [decoder_defs]
  DecodeSetInfoRequest_def [decoder_defs] DecodeQueryDirectoryRequest_def [decoder_defs]
  DecodeQueryInfoRequest_def [decoder_defs] DecodeChangeNotifyRequest_def [decoder_defs]
  DecodeIoctlRequest_def [decoder_defs]

section \<open>No panic\<close>

lemma bind_no_panic: "m \<noteq> None \<Longrightarrow> (\<And>a. f a \<noteq> None) \<Longrightarrow> Option.bind m f \<noteq> None"
  by (cases m) auto

lemma lenient_bind_no_panic:
  "(\<And>a. f a \<noteq> None) \<Longrightarrow> Option.bind (lenient_slice body off n) f \<noteq> None"
  by (rule bind_no_panic) simp_all

lemma fixed_decoders_no_panic:
  "DecodeSessionSetupRequest body \<noteq> None" "DecodeTreeConnectRequest body \<noteq> None"
  "DecodeTreeDisconnectRequest body \<noteq> None" "DecodeCreateRequest body \<noteq> None"
  "DecodeReadRequest body \<noteq> None" "DecodeWriteRequest body \<noteq> None"
  "DecodeCloseRequest body \<noteq> None" "DecodeFlushRequest body \<noteq> None"
  "DecodeSetInfoRequest body \<noteq> None" "DecodeQueryDirectoryRequest body \<noteq> None"
  "DecodeQueryInfoRequest body \<noteq> None" "DecodeChangeNotifyRequest body \<noteq> None"
  "DecodeIoctlRequest body \<noteq> None"
  by (simp_all add: decoder_defs go_panic ok_then_no_panic lenient_bind_no_panic
      del: not_None_eq)

lemma decode_lock_elements_no_panic:
  "24 + (i + n) * 24 \<le> length body \<Longrightarrow> decode_lock_elements body i n \<noteq> None"
  by (induction n arbitrary: i) (simp_all add: go_panic bind_no_panic del: not_None_eq)

lemma DecodeLockRequest_no_panic: "DecodeLockRequest body \<noteq> None"
proof (cases "DecodeLockRequest body")
  case None
  then obtain n :: nat where "decode_lock_elements body 0 n = None" and "24 + n * 24 \<le> length body"
    by (auto simp: DecodeLockRequest_def go_panic bind_eq_None_conv not_less split: if_splits)
  then show ?thesis using decode_lock_elements_no_panic [of 0 n body] by simp
qed simp

lemma decode_chunks_no_panic:
  "32 + (i + n) * 24 \<le> length b \<Longrightarrow> decode_chunks b i n \<noteq> None"
  by (induction n arbitrary: i) (simp_all add: go_panic bind_no_panic del: not_None_eq)

lemma DecodeSrvCopyChunkCopy_no_panic: "DecodeSrvCopyChunkCopy b m \<noteq> None"
proof (cases "DecodeSrvCopyChunkCopy b m")
  case None
  then obtain n :: nat where "decode_chunks b 0 n = None" and "32 + n * 24 \<le> length b"
    by (auto simp: DecodeSrvCopyChunkCopy_def go_panic bind_eq_None_conv not_less split: if_splits)
  then show ?thesis using decode_chunks_no_panic [of 0 n b] by simp
qed simp

section \<open>LOCK requests on the wire\<close>

definition lock_element_wire :: "lock_element \<Rightarrow> bytes" where
  "lock_element_wire e = le64 (le_Offset e) @ le64 (le_Length e) @ le32 (le_Flags e) @ zeros 4"

definition lock_request_wire :: "lock_request \<Rightarrow> bytes" where
  "lock_request_wire r =
     le16 48 @ le16 (word_of_nat (length (lr_Locks r))) @ le32 (lr_LockSequenceIndex r) @
     lr_FileID r @ concat (map lock_element_wire (lr_Locks r))"

lemma length_lock_element_wire [simp]: "length (lock_element_wire e) = 24"
  by (simp add: lock_element_wire_def)

lemma length_concat_wire [simp]: "length (concat (map lock_element_wire es)) = length es * 24"
  by (induction es) auto

lemma decode_lock_elements_wire:
  assumes "length pre = 24 + i * 24"
  shows "decode_lock_elements (pre @ concat (map lock_element_wire es) @ rest) i (length es) = Some es"
  using assms
proof (induction es arbitrary: i pre)
  case Nil
  then show ?case by simp
next
  case (Cons e es)
  have "decode_lock_elements ((pre @ lock_element_wire e) @ concat (map lock_element_wire es) @ rest)
      (Suc i) (length es) = Some es"
    by (rule Cons.IH) (simp add: Cons.prems)
  with Cons.prems show ?case
    by (cases e) (simp add: go_panic, simp add: lock_element_wire_def)
qed

lemma DecodeLockRequest_wire:
  assumes "length (lr_FileID r) = 16" and "lr_Locks r \<noteq> []" and "length (lr_Locks r) < 2 ^ 16"
  shows "DecodeLockRequest (lock_request_wire r @ rest) = Some (Inr r)"
proof -
  let ?n = "word_of_nat (length (lr_Locks r)) :: u16"
  have n: "unat ?n = length (lr_Locks r)"
    using assms(3) by (simp add: unat_of_nat take_bit_nat_eq_self_iff)
  have "0 < length (lr_Locks r)" using assms(2) by simp
  moreover have "decode_lock_elements (lock_request_wire r @ rest) 0 (length (lr_Locks r)) = Some (lr_Locks r)"
    using decode_lock_elements_wire [of "le16 48 @ le16 ?n @ le32 (lr_LockSequenceIndex r) @ lr_FileID r" 0
        "lr_Locks r" rest] assms(1)
    by (simp add: lock_request_wire_def)
  ultimately show ?thesis
    using assms n by (simp add: DecodeLockRequest_def go_panic) (simp add: lock_request_wire_def)
qed

section \<open>Responses describe their own layout\<close>

text \<open>
  A client finds the payload of a response through its offset and length fields. These
  lemmas say that following them yields what was put in.
\<close>

lemma zeros_patch_len: "put_at off xs buf = Some b \<Longrightarrow> length b = length buf"
  by (auto simp: put_at_def split: if_splits)

lemma take_drop_0_patch: "off + length xs \<le> length buf \<Longrightarrow> n \<le> off \<Longrightarrow> take n (patch off xs buf) = take n buf"
  using patch_other [of 0 n off xs buf] by simp

lemma drop_patch_same: "off + length xs = length buf \<Longrightarrow> drop off (patch off xs buf) = xs"
  using patch_same [of off xs buf "length xs"] by simp

lemma EncodeReadResponse_layout:
  assumes "length data < 2 ^ 32"
  obtains b where "EncodeReadResponse data = Some b" and "length b = 16 + length data"
    and "u8_at b 2 = Some 80" and "u32_at b 4 = Some (word_of_nat (length data))"
    and "body_slice b 80 (length data) = Some (Inr data)"
proof
  show "EncodeReadResponse data = Some (patch 16 data (patch 4 (le32 (word_of_nat (length data)))
      (patch 2 [80] (patch 0 (le16 17) (zeros (16 + length data))))))" (is "_ = Some ?b")
    by (simp add: EncodeReadResponse_def go_panic)
  show "length ?b = 16 + length data" by simp
  show "u8_at ?b 2 = Some 80" and "u32_at ?b 4 = Some (word_of_nat (length data))"
    by (simp_all add: go_panic byte_layout)
  show "body_slice ?b 80 (length data) = Some (Inr data)"
    by (simp add: body_slice_Inr byte_layout drop_patch_same)
qed

lemma encode_buffer_response_layout:
  obtains b where "encode_buffer_response buf = Some b" and "length b = 8 + length buf"
    and "buf \<noteq> [] \<Longrightarrow> u16_at b 2 = Some 72" and "buf \<noteq> [] \<Longrightarrow> u32_at b 4 = Some (word_of_nat (length buf))"
    and "drop 8 b = buf"
proof (cases "buf = []")
  case True
  show ?thesis
    by (rule that [of "patch 0 (le16 9) (zeros 8)"])
      (simp_all add: True encode_buffer_response_def go_panic)
next
  case False
  show ?thesis
    by (rule that [of "patch 8 buf (patch 4 (le32 (word_of_nat (length buf))) (patch 2 (le16 72)
         (patch 0 (le16 9) (zeros (8 + length buf)))))"])
      (use False in \<open>simp_all add: encode_buffer_response_def go_panic byte_layout drop_patch_same\<close>)
qed

lemma EncodeCreateResponse_eq:
  assumes "length (crp_FileID r) = 16"
  shows "EncodeCreateResponse r =
    (let body = patch 64 (crp_FileID r) (patch 56 (le32 (crp_FileAttributes r)) (patch 48 (le64 (crp_EndOfFile r))
       (patch 40 (le64 (crp_AllocationSize r)) (patch 32 (le64 (crp_ChangeTime r))
       (patch 24 (le64 (crp_LastWriteTime r)) (patch 16 (le64 (crp_LastAccessTime r))
       (patch 8 (le64 (crp_CreationTime r)) (patch 4 (le32 (crp_CreateAction r)) (patch 3 [crp_Flags r]
       (patch 2 [crp_OplockLevel r] (patch 0 (le16 89) (zeros 88))))))))))))
     in if crp_CreateContexts r = [] then Some (patch 84 (le32 0) (patch 80 (le32 0) body) @ [0])
        else Some (patch 84 (le32 (word_of_nat (length (crp_CreateContexts r)))) (patch 80 (le32 152) body)
          @ crp_CreateContexts r))"
  using assms by (simp add: EncodeCreateResponse_def go_panic Let_def)

lemma EncodeCreateResponse_layout:
  assumes "length (crp_FileID r) = 16"
  obtains b where "EncodeCreateResponse r = Some b" and "take 16 (drop 64 b) = crp_FileID r"
    and "u64_at b 48 = Some (crp_EndOfFile r)" and "u32_at b 4 = Some (crp_CreateAction r)"
    and "crp_CreateContexts r \<noteq> [] \<Longrightarrow> u32_at b 80 = Some 152"
    and "crp_CreateContexts r \<noteq> [] \<Longrightarrow> u32_at b 84 = Some (word_of_nat (length (crp_CreateContexts r)))"
    and "crp_CreateContexts r \<noteq> [] \<Longrightarrow> drop 88 b = crp_CreateContexts r"
    and "crp_CreateContexts r = [] \<Longrightarrow> length b = 89 \<and> u32_at b 84 = Some 0"
proof (cases "crp_CreateContexts r = []")
  case True
  with assms show ?thesis
    by (intro that [of "the (EncodeCreateResponse r)"])
      (simp_all add: EncodeCreateResponse_eq Let_def go_panic byte_layout drop_patch_same)
next
  case False
  with assms show ?thesis
    by (intro that [of "the (EncodeCreateResponse r)"])
      (simp_all add: EncodeCreateResponse_eq Let_def go_panic byte_layout drop_patch_same)
qed

end
