(* ===== verification/Lock_Ranges.thy ===== *)
theory Lock_Ranges
  imports Gosamba_Prelude
begin

text \<open>
  The byte-range lock table of \<^verbatim>\<open>internal/parent/lock_ranges.go\<close>: the pure
  \<^verbatim>\<open>rangeTable\<close> (conflict scan, apply, release) and the mutex-guarded \<^verbatim>\<open>lockTable\<close>
  around it with its published count and its release broadcast.

  An \<^verbatim>\<open>*Open\<close> is compared by pointer only, so an owner is a natural number. The
  map \<^verbatim>\<open>locks\<close> is a partial function: a deleted key is \<open>None\<close>, and reading a
  missing key gives the empty slice.
\<close>

type_synonym open_ref = nat

record fileKey =
  fk_dev :: u64
  fk_ino :: u64

record lockRange =
  lr_owner :: open_ref
  lr_start :: u64
  lr_length :: u64
  lr_exclusive :: bool

datatype lockKind = lockUnlock | lockShared | lockExclusive

datatype lock_err = errLockConflict | errLockLimit | errLockRange | errLockSys nat

type_synonym lock_result = "lock_err option"

definition range_kind :: "lockRange \<Rightarrow> lockKind" where
  "range_kind r = (if lr_exclusive r then lockExclusive else lockShared)"

definition maxLockRangesPerFile :: nat where
  "maxLockRangesPerFile = 4096"

definition maxLockRangesPerOwner :: nat where
  "maxLockRangesPerOwner = 1024"

record rangeTable =
  rt_locks :: "fileKey \<rightharpoonup> lockRange list"
  rt_n :: int

definition newRangeTable :: rangeTable where
  "newRangeTable = \<lparr>rt_locks = (\<lambda>_. None), rt_n = 0\<rparr>"

definition ranges_of :: "rangeTable \<Rightarrow> fileKey \<Rightarrow> lockRange list" where
  "ranges_of t key = (case rt_locks t key of None \<Rightarrow> [] | Some rs \<Rightarrow> rs)"

definition rangeEnd :: "u64 \<Rightarrow> u64 \<Rightarrow> u64" where
  "rangeEnd start len = (let end = start + len in if end < start then NOT 0 else end)"

definition rangesOverlap :: "u64 \<Rightarrow> u64 \<Rightarrow> u64 \<Rightarrow> u64 \<Rightarrow> bool" where
  "rangesOverlap aStart aLen bStart bLen =
     (if aLen = 0 \<or> bLen = 0 then False
      else aStart < rangeEnd bStart bLen \<and> bStart < rangeEnd aStart aLen)"

definition sameRange :: "lockRange \<Rightarrow> u64 \<Rightarrow> u64 \<Rightarrow> bool" where
  "sameRange r start len = (lr_start r = start \<and> lr_length r = len)"

fun conflict_scan :: "lockRange list \<Rightarrow> open_ref \<Rightarrow> u64 \<Rightarrow> u64 \<Rightarrow> bool \<Rightarrow> bool" where
  "conflict_scan [] owner start len write = False"
| "conflict_scan (r # rs) owner start len write =
     (if lr_owner r = owner then conflict_scan rs owner start len write
      else if \<not> rangesOverlap start len (lr_start r) (lr_length r)
        then conflict_scan rs owner start len write
      else if write \<or> lr_exclusive r then True
      else conflict_scan rs owner start len write)"

definition rt_conflict :: "rangeTable \<Rightarrow> fileKey \<Rightarrow> open_ref \<Rightarrow> u64 \<Rightarrow> u64 \<Rightarrow> bool \<Rightarrow> bool" where
  "rt_conflict t key owner start len write =
     (if len = 0 then False else conflict_scan (ranges_of t key) owner start len write)"

text \<open>The outcome of the scan a lock request makes over the ranges of its file.\<close>

datatype lock_scan = AlreadyHeld | Conflicts | Free nat

fun scan_lock :: "lockRange list \<Rightarrow> open_ref \<Rightarrow> u64 \<Rightarrow> u64 \<Rightarrow> bool \<Rightarrow> nat \<Rightarrow> lock_scan" where
  "scan_lock [] owner start len exclusive owned = Free owned"
| "scan_lock (r # rs) owner start len exclusive owned =
     (if lr_owner r = owner then
        if sameRange r start len \<and> lr_exclusive r = exclusive then AlreadyHeld
        else scan_lock rs owner start len exclusive (owned + 1)
      else if \<not> rangesOverlap start len (lr_start r) (lr_length r)
        then scan_lock rs owner start len exclusive owned
      else if exclusive \<or> lr_exclusive r then Conflicts
      else scan_lock rs owner start len exclusive owned)"

text \<open>What \<^verbatim>\<open>apply\<close> and \<^verbatim>\<open>releaseOwner\<close> do with the ranges they keep.\<close>

definition store_filtered :: "rangeTable \<Rightarrow> fileKey \<Rightarrow> (lockRange \<Rightarrow> bool) \<Rightarrow> rangeTable" where
  "store_filtered t key keep =
     (let ranges = ranges_of t key; out = filter keep ranges in
      t\<lparr>rt_locks := (if length out = 0 then (rt_locks t)(key := None) else (rt_locks t)(key \<mapsto> out)),
        rt_n := rt_n t - (int (length ranges) - int (length out))\<rparr>)"

definition rt_apply :: "rangeTable \<Rightarrow> fileKey \<Rightarrow> open_ref \<Rightarrow> u64 \<Rightarrow> u64 \<Rightarrow> lockKind
    \<Rightarrow> lock_result \<times> rangeTable" where
  "rt_apply t key owner start len kind =
     (if len = 0 then (None, t)
      else case kind of
        lockUnlock \<Rightarrow>
          (None, store_filtered t key (\<lambda>r. \<not> (lr_owner r = owner \<and> sameRange r start len)))
      | _ \<Rightarrow>
          let exclusive = (kind = lockExclusive) in
          (case scan_lock (ranges_of t key) owner start len exclusive 0 of
             AlreadyHeld \<Rightarrow> (None, t)
           | Conflicts \<Rightarrow> (Some errLockConflict, t)
           | Free owned \<Rightarrow>
               if length (ranges_of t key) \<ge> maxLockRangesPerFile \<or> owned \<ge> maxLockRangesPerOwner
               then (Some errLockLimit, t)
               else (None, t\<lparr>rt_locks := (rt_locks t)(key \<mapsto> ranges_of t key @
                        [\<lparr>lr_owner = owner, lr_start = start, lr_length = len, lr_exclusive = exclusive\<rparr>]),
                      rt_n := rt_n t + 1\<rparr>)))"

definition rt_releaseOwner :: "rangeTable \<Rightarrow> fileKey \<Rightarrow> open_ref \<Rightarrow> rangeTable" where
  "rt_releaseOwner t key owner = store_filtered t key (\<lambda>r. lr_owner r \<noteq> owner)"

fun rangesDiff :: "lockRange list \<Rightarrow> lockRange list \<Rightarrow> lockRange list" where
  "rangesDiff [] b = []"
| "rangesDiff (r # a) b =
     (if list_ex (\<lambda>o'. sameRange o' (lr_start r) (lr_length r) \<and> lr_exclusive o' = lr_exclusive r) b
      then rangesDiff a b else r # rangesDiff a b)"

section \<open>The guarded table: published count and release broadcast\<close>

text \<open>
  A channel is a number; \<open>lt_closed\<close> lists the channels closed so far, and
  \<open>lt_next\<close> is the name of the next channel \<^verbatim>\<open>make\<close> returns.
\<close>

record lockTable =
  lt_t :: rangeTable
  lt_n :: int
  lt_released :: "nat option"
  lt_closed :: "nat list"
  lt_next :: nat

definition newLockTable :: lockTable where
  "newLockTable = \<lparr>lt_t = newRangeTable, lt_n = 0, lt_released = None, lt_closed = [], lt_next = 0\<rparr>"

definition publish :: "lockTable \<Rightarrow> int \<Rightarrow> lockTable" where
  "publish l before =
     (let l1 = l\<lparr>lt_n := rt_n (lt_t l)\<rparr> in
      case lt_released l1 of
        None \<Rightarrow> l1
      | Some ch \<Rightarrow>
          if rt_n (lt_t l1) < before
          then l1\<lparr>lt_closed := ch # lt_closed l1, lt_released := None\<rparr> else l1)"

definition lt_apply :: "lockTable \<Rightarrow> fileKey \<Rightarrow> open_ref \<Rightarrow> u64 \<Rightarrow> u64 \<Rightarrow> lockKind
    \<Rightarrow> lock_result \<times> lockTable" where
  "lt_apply l key owner start len kind =
     (let before = rt_n (lt_t l); (err, t) = rt_apply (lt_t l) key owner start len kind in
      (err, publish (l\<lparr>lt_t := t\<rparr>) before))"

definition lt_releaseOwner :: "lockTable \<Rightarrow> fileKey \<Rightarrow> open_ref \<Rightarrow> lockTable" where
  "lt_releaseOwner l key owner =
     (let before = rt_n (lt_t l) in publish (l\<lparr>lt_t := rt_releaseOwner (lt_t l) key owner\<rparr>) before)"

definition lt_empty :: "lockTable \<Rightarrow> bool" where
  "lt_empty l = (lt_n l = 0)"

definition lt_conflict :: "lockTable \<Rightarrow> fileKey \<Rightarrow> open_ref \<Rightarrow> u64 \<Rightarrow> u64 \<Rightarrow> bool \<Rightarrow> bool" where
  "lt_conflict l key owner start len write =
     (if lt_empty l then False else rt_conflict (lt_t l) key owner start len write)"

definition snapshot :: "lockTable \<Rightarrow> fileKey \<Rightarrow> open_ref \<Rightarrow> lockRange list" where
  "snapshot l key owner = filter (\<lambda>r. lr_owner r = owner) (ranges_of (lt_t l) key)"

definition atCapacity :: "lockTable \<Rightarrow> fileKey \<Rightarrow> open_ref \<Rightarrow> bool" where
  "atCapacity l key owner =
     (let ranges = ranges_of (lt_t l) key in
      if length ranges \<ge> maxLockRangesPerFile then True
      else length (filter (\<lambda>r. lr_owner r = owner) ranges) \<ge> maxLockRangesPerOwner)"

definition releaseSignal :: "lockTable \<Rightarrow> nat \<times> lockTable" where
  "releaseSignal l =
     (case lt_released l of
        Some ch \<Rightarrow> (ch, l)
      | None \<Rightarrow> (lt_next l, l\<lparr>lt_released := Some (lt_next l), lt_next := lt_next l + 1\<rparr>))"

section \<open>What overlap means\<close>

text \<open>
  The bytes a range covers. The exclusive end saturates at \<open>2 ^ 64 - 1\<close>, so the
  last byte of the 64-bit space is the one byte no range covers.
\<close>

definition range_bytes :: "u64 \<Rightarrow> u64 \<Rightarrow> nat set" where
  "range_bytes start len = {x. unat start \<le> x \<and> x < unat start + unat len \<and> x < 2 ^ 64 - 1}"

lemma unat_max_u64: "unat (- 1 :: u64) = 2 ^ 64 - 1"
  by (simp add: unsigned_minus_1_eq_mask mask_eq_exp_minus_1)

lemma unat_rangeEnd: "unat (rangeEnd s l) = min (unat s + unat l) (2 ^ 64 - 1)"
proof -
  have bounds: "unat s < 2 ^ 64" "unat l < 2 ^ 64"
    using unsigned_less [of s] unsigned_less [of l] by simp_all
  have sum: "unat (s + l) = (unat s + unat l) mod 2 ^ 64"
    by (simp add: unat_word_ariths)
  show ?thesis
  proof (cases "unat s + unat l < 2 ^ 64")
    case True
    then show ?thesis using sum by (simp add: rangeEnd_def Let_def word_less_nat_alt)
  next
    case False
    then have "unat (s + l) = unat s + unat l - 2 ^ 64"
      using bounds sum by (simp add: mod_if)
    with bounds False have "s + l < s" and "min (unat s + unat l) (2 ^ 64 - 1) = 2 ^ 64 - 1"
      unfolding word_less_nat_alt by linarith+
    then show ?thesis
      by (simp add: rangeEnd_def unat_max_u64 del: min_def)
  qed
qed

lemma rangesOverlap_iff:
  "rangesOverlap s l s' l' \<longleftrightarrow> range_bytes s l \<inter> range_bytes s' l' \<noteq> {}"
proof
  assume o: "rangesOverlap s l s' l'"
  then have "unat l > 0" "unat l' > 0" "unat s < unat (rangeEnd s' l')" "unat s' < unat (rangeEnd s l)"
    by (auto simp: rangesOverlap_def word_less_nat_alt unat_gt_0 split: if_splits)
  then have "max (unat s) (unat s') \<in> range_bytes s l \<inter> range_bytes s' l'"
    unfolding range_bytes_def unat_rangeEnd by auto
  then show "range_bytes s l \<inter> range_bytes s' l' \<noteq> {}" by blast
next
  assume "range_bytes s l \<inter> range_bytes s' l' \<noteq> {}"
  then obtain x where x: "unat s \<le> x" "x < unat s + unat l" "unat s' \<le> x" "x < unat s' + unat l'" "x < 2 ^ 64 - 1"
    by (auto simp: range_bytes_def)
  then have "l \<noteq> 0" "l' \<noteq> 0" by auto
  moreover have "unat s < unat (rangeEnd s' l')" "unat s' < unat (rangeEnd s l)"
    using x unfolding unat_rangeEnd by simp_all
  ultimately show "rangesOverlap s l s' l'"
    by (simp add: rangesOverlap_def word_less_nat_alt)
qed

lemma rangesOverlap_sym: "rangesOverlap s l s' l' = rangesOverlap s' l' s l"
  by (auto simp: rangesOverlap_def)

section \<open>The table invariant\<close>

text \<open>
  Two ranges of one file may stand side by side when they belong to one handle,
  share no byte, or are both shared.
\<close>

definition compatible :: "lockRange \<Rightarrow> lockRange \<Rightarrow> bool" where
  "compatible r s \<longleftrightarrow>
     lr_owner r = lr_owner s \<or> \<not> rangesOverlap (lr_start r) (lr_length r) (lr_start s) (lr_length s) \<or>
     (\<not> lr_exclusive r \<and> \<not> lr_exclusive s)"

definition owned_by :: "open_ref \<Rightarrow> lockRange list \<Rightarrow> lockRange list" where
  "owned_by owner rs = filter (\<lambda>r. lr_owner r = owner) rs"

definition wf_ranges :: "lockRange list \<Rightarrow> bool" where
  "wf_ranges rs \<longleftrightarrow> distinct rs \<and> length rs \<le> maxLockRangesPerFile \<and>
     (\<forall>owner. length (owned_by owner rs) \<le> maxLockRangesPerOwner) \<and>
     (\<forall>r \<in> set rs. lr_length r \<noteq> 0) \<and> (\<forall>r \<in> set rs. \<forall>s \<in> set rs. compatible r s)"

definition wf_table :: "rangeTable \<Rightarrow> bool" where
  "wf_table t \<longleftrightarrow> finite (dom (rt_locks t)) \<and>
     (\<forall>key. rt_locks t key \<noteq> Some []) \<and> (\<forall>key. wf_ranges (ranges_of t key)) \<and>
     rt_n t = (\<Sum>key \<in> dom (rt_locks t). int (length (ranges_of t key)))"

lemma compatible_sym: "compatible r s = compatible s r"
  unfolding compatible_def by (metis rangesOverlap_sym)

lemma conflict_scan_iff:
  "conflict_scan rs owner start len write \<longleftrightarrow>
     (\<exists>r \<in> set rs. lr_owner r \<noteq> owner \<and> rangesOverlap start len (lr_start r) (lr_length r) \<and>
        (write \<or> lr_exclusive r))"
  by (induction rs) auto

text \<open>The scan of a lock request, branch by branch.\<close>

lemma sameRange_record:
  "\<lparr>lr_owner = owner, lr_start = start, lr_length = len, lr_exclusive = exclusive\<rparr> = r \<longleftrightarrow>
     lr_owner r = owner \<and> sameRange r start len \<and> lr_exclusive r = exclusive"
  by (cases r) (auto simp: sameRange_def)

lemma scan_lock_Free:
  "scan_lock rs owner start len exclusive k = Free n \<longleftrightarrow>
     n = k + length (owned_by owner rs) \<and>
     \<lparr>lr_owner = owner, lr_start = start, lr_length = len, lr_exclusive = exclusive\<rparr> \<notin> set rs \<and>
     (\<forall>r \<in> set rs. compatible \<lparr>lr_owner = owner, lr_start = start, lr_length = len, lr_exclusive = exclusive\<rparr> r)"
proof (induction rs arbitrary: k owner start len exclusive)
  case (Cons r rs)
  show ?case
    unfolding scan_lock.simps list.set insert_iff de_Morgan_disj sameRange_record
    by (auto simp: Cons.IH owned_by_def compatible_def)
qed (auto simp: owned_by_def)

lemma scan_lock_AlreadyHeld:
  "scan_lock rs owner start len exclusive k = AlreadyHeld \<Longrightarrow>
    \<lparr>lr_owner = owner, lr_start = start, lr_length = len, lr_exclusive = exclusive\<rparr> \<in> set rs"
proof (induction rs arbitrary: k)
  case (Cons r rs)
  then show ?case
    by (cases r) (auto simp: sameRange_def split: if_splits)
qed simp

lemma scan_lock_Conflicts:
  "scan_lock rs owner start len exclusive k = Conflicts \<Longrightarrow>
    \<exists>r \<in> set rs. \<not> compatible \<lparr>lr_owner = owner, lr_start = start, lr_length = len, lr_exclusive = exclusive\<rparr> r"
  by (induction rs arbitrary: k) (auto simp: compatible_def split: if_splits)

lemma ranges_of_store_filtered:
  "ranges_of (store_filtered t key keep) k =
     (if k = key then filter keep (ranges_of t key) else ranges_of t k)"
  by (auto simp: store_filtered_def ranges_of_def Let_def)

lemma wf_ranges_filter: "wf_ranges rs \<Longrightarrow> wf_ranges (filter keep rs)"
proof -
  have "length (owned_by owner (filter keep rs)) \<le> length (owned_by owner rs)" for owner
    by (simp add: owned_by_def length_filter_le flip: filter_filter)
       (metis (no_types, lifting) filter_cong filter_filter length_filter_le)
  then show "wf_ranges rs \<Longrightarrow> wf_ranges (filter keep rs)"
    unfolding wf_ranges_def by (auto intro: le_trans [OF length_filter_le] order_trans)
qed

lemma wf_ranges_snoc:
  assumes "wf_ranges rs" and "scan_lock rs owner start len exclusive 0 = Free owned"
    and "length rs < maxLockRangesPerFile" and "owned < maxLockRangesPerOwner" and "len \<noteq> 0"
  shows "wf_ranges (rs @ [\<lparr>lr_owner = owner, lr_start = start, lr_length = len, lr_exclusive = exclusive\<rparr>])"
  using assms
  by (auto simp: wf_ranges_def scan_lock_Free owned_by_def compatible_sym Suc_le_eq)
    (simp add: compatible_def)

text \<open>The counter follows the lengths: a store at one key moves the sum by the difference.\<close>

lemma sum_ranges_update:
  assumes "finite (dom m)" and "\<forall>k. m k \<noteq> Some []"
  shows "(\<Sum>k \<in> dom (m(key := v)). int (length (case (m(key := v)) k of None \<Rightarrow> [] | Some rs \<Rightarrow> rs))) =
    (\<Sum>k \<in> dom m. int (length (case m k of None \<Rightarrow> [] | Some rs \<Rightarrow> rs)))
      - int (length (case m key of None \<Rightarrow> [] | Some rs \<Rightarrow> rs))
      + int (length (case v of None \<Rightarrow> [] | Some rs \<Rightarrow> rs))"
proof -
  let ?len = "\<lambda>o'. int (length (case o' of None \<Rightarrow> [] | Some rs \<Rightarrow> rs))"
  let ?D = "insert key (dom m)"
  have "(\<Sum>k \<in> dom (m(key := v)). ?len ((m(key := v)) k)) = (\<Sum>k \<in> ?D. ?len ((m(key := v)) k))"
    using assms(1) by (intro sum.mono_neutral_left) (auto split: if_splits option.splits)
  also have "\<dots> = ?len v + (\<Sum>k \<in> ?D - {key}. ?len (m k))"
    using assms(1) by (subst sum.remove [where x = key]) (auto intro!: sum.cong)
  also have "(\<Sum>k \<in> ?D - {key}. ?len (m k)) = (\<Sum>k \<in> ?D. ?len (m k)) - ?len (m key)"
    using sum.remove [of ?D key "\<lambda>k. ?len (m k)"] assms(1) by simp
  also have "(\<Sum>k \<in> ?D. ?len (m k)) = (\<Sum>k \<in> dom m. ?len (m k))"
    using assms(1) by (intro sum.mono_neutral_right) (auto split: option.splits)
  finally show ?thesis by linarith
qed

lemma wf_table_put:
  assumes "wf_table t" and "v \<noteq> Some []" and "wf_ranges (case v of None \<Rightarrow> [] | Some rs \<Rightarrow> rs)"
    and "n = rt_n t - int (length (ranges_of t key)) + int (length (case v of None \<Rightarrow> [] | Some rs \<Rightarrow> rs))"
  shows "wf_table (t\<lparr>rt_locks := (rt_locks t)(key := v), rt_n := n\<rparr>)"
proof -
  have "finite (dom ((rt_locks t)(key := v)))"
    using assms(1) by (auto simp: wf_table_def)
  moreover have "\<forall>k. ((rt_locks t)(key := v)) k \<noteq> Some []"
    using assms(1,2) by (auto simp: wf_table_def)
  moreover have "\<forall>k. wf_ranges (case ((rt_locks t)(key := v)) k of None \<Rightarrow> [] | Some rs \<Rightarrow> rs)"
    using assms(1,3) by (auto simp: wf_table_def ranges_of_def)
  ultimately show ?thesis
    using assms(1,4) by (simp add: wf_table_def ranges_of_def sum_ranges_update del: fun_upd_apply dom_fun_upd)
qed

lemma wf_table_new: "wf_table newRangeTable"
  by (simp add: wf_table_def newRangeTable_def ranges_of_def wf_ranges_def owned_by_def)

lemma wf_store_filtered: "wf_table t \<Longrightarrow> wf_table (store_filtered t key keep)"
proof -
  assume t: "wf_table t"
  let ?out = "filter keep (ranges_of t key)"
  let ?v = "if length ?out = 0 then None else Some ?out"
  have "wf_ranges ?out"
    using t by (auto simp: wf_table_def intro: wf_ranges_filter)
  then have "wf_table (t\<lparr>rt_locks := (rt_locks t)(key := ?v),
      rt_n := rt_n t - (int (length (ranges_of t key)) - int (length ?out))\<rparr>)"
    by (intro wf_table_put [OF t]) (auto split: if_splits simp del: length_0_conv)
  then show ?thesis
    by (cases "?out = []") (simp_all add: store_filtered_def Let_def)
qed

lemma wf_rt_apply: "wf_table t \<Longrightarrow> rt_apply t key owner start len kind = (err, t') \<Longrightarrow> wf_table t'"
proof -
  assume t: "wf_table t" and *: "rt_apply t key owner start len kind = (err, t')"
  have put: "wf_table (t\<lparr>rt_locks := (rt_locks t)(key \<mapsto> ranges_of t key @ [r]), rt_n := rt_n t + 1\<rparr>)"
    if "wf_ranges (ranges_of t key @ [r])" for r
    using that by (intro wf_table_put [OF t]) simp_all
  have wf: "wf_ranges (ranges_of t key)"
    using t by (simp add: wf_table_def)
  show "wf_table t'"
    using * t
    by (auto simp: rt_apply_def Let_def intro!: wf_store_filtered put wf_ranges_snoc [OF wf]
        split: if_splits lockKind.splits lock_scan.splits)
qed

lemma wf_rt_releaseOwner: "wf_table t \<Longrightarrow> wf_table (rt_releaseOwner t key owner)"
  by (simp add: rt_releaseOwner_def wf_store_filtered)

section \<open>Every table the server can reach\<close>

inductive table_step :: "rangeTable \<Rightarrow> rangeTable \<Rightarrow> bool" where
  step_apply: "rt_apply t key owner start len kind = (err, t') \<Longrightarrow> table_step t t'"
| step_release: "table_step t (rt_releaseOwner t key owner)"

inductive_cases table_stepE: "table_step t t'"

interpretation lock_tables: invariant_system "\<lambda>t. t = newRangeTable" table_step wf_table
proof
  show "wf_table t" if "t = newRangeTable" for t
    using that by (simp add: wf_table_new)
  show "wf_table t'" if "wf_table t" "table_step t t'" for t t'
    using that(2) that(1) by cases (auto intro: wf_rt_apply wf_rt_releaseOwner)
qed

section \<open>Each operation on the set of ranges held\<close>

abbreviation new_range :: "open_ref \<Rightarrow> u64 \<Rightarrow> u64 \<Rightarrow> bool \<Rightarrow> lockRange" where
  "new_range owner start len exclusive \<equiv>
     \<lparr>lr_owner = owner, lr_start = start, lr_length = len, lr_exclusive = exclusive\<rparr>"

lemma rt_apply_unlock:
  "len \<noteq> 0 \<Longrightarrow> rt_apply t key owner start len lockUnlock =
     (None, store_filtered t key (\<lambda>r. \<not> (lr_owner r = owner \<and> sameRange r start len)))"
  by (simp add: rt_apply_def)

text \<open>
  On a well-formed table the order of the scan does not matter: a range already
  held conflicts with nothing.
\<close>

lemma rt_apply_lock:
  assumes "wf_table t" and "len \<noteq> 0" and "kind \<noteq> lockUnlock"
  shows "rt_apply t key owner start len kind =
    (let r = new_range owner start len (kind = lockExclusive); rs = ranges_of t key in
     if r \<in> set rs then (None, t)
     else if \<exists>s \<in> set rs. \<not> compatible r s then (Some errLockConflict, t)
     else if length rs \<ge> maxLockRangesPerFile \<or> length (owned_by owner rs) \<ge> maxLockRangesPerOwner
       then (Some errLockLimit, t)
     else (None, t\<lparr>rt_locks := (rt_locks t)(key \<mapsto> rs @ [r]), rt_n := rt_n t + 1\<rparr>))"
proof -
  let ?r = "new_range owner start len (kind = lockExclusive)" and ?rs = "ranges_of t key"
  have wf: "wf_ranges ?rs" using assms(1) by (simp add: wf_table_def)
  show ?thesis
  proof (cases "scan_lock ?rs owner start len (kind = lockExclusive) 0")
    case AlreadyHeld
    then show ?thesis
      using assms(2,3) by (cases kind) (simp_all add: rt_apply_def Let_def scan_lock_AlreadyHeld)
  next
    case Conflicts
    then have ex: "\<exists>s \<in> set ?rs. \<not> compatible ?r s" by (rule scan_lock_Conflicts)
    then have "?r \<notin> set ?rs" using wf by (auto simp: wf_ranges_def)
    with ex Conflicts show ?thesis
      using assms(2,3) by (cases kind) (simp_all add: rt_apply_def Let_def)
  next
    case (Free owned)
    then have "owned = length (owned_by owner ?rs)" "?r \<notin> set ?rs" "\<forall>s \<in> set ?rs. compatible ?r s"
      by (simp_all add: scan_lock_Free)
    with Free show ?thesis
      using assms(2,3) by (cases kind) (simp_all add: rt_apply_def Let_def)
  qed
qed

lemma ranges_of_update:
  "ranges_of (t\<lparr>rt_locks := (rt_locks t)(key \<mapsto> rs), rt_n := n\<rparr>) k = (if k = key then rs else ranges_of t k)"
  by (simp add: ranges_of_def)

lemma rt_apply_other_key:
  "rt_apply t key owner start len kind = (err, t') \<Longrightarrow> k \<noteq> key \<Longrightarrow> ranges_of t' k = ranges_of t k"
  by (auto simp: rt_apply_def Let_def ranges_of_store_filtered ranges_of_update
      split: if_splits lockKind.splits lock_scan.splits)

lemma rt_apply_error: "rt_apply t key owner start len kind = (Some e, t') \<Longrightarrow> t' = t"
  by (auto simp: rt_apply_def Let_def split: if_splits lockKind.splits lock_scan.splits)

lemma rt_apply_granted:
  assumes "wf_table t" and "rt_apply t key owner start len kind = (None, t')" and "len \<noteq> 0"
  shows "set (ranges_of t' key) =
    (if kind = lockUnlock then {r \<in> set (ranges_of t key). \<not> (lr_owner r = owner \<and> sameRange r start len)}
     else insert (new_range owner start len (kind = lockExclusive)) (set (ranges_of t key)))"
proof (cases "kind = lockUnlock")
  case True
  with assms(2,3) show ?thesis
    by (auto simp: rt_apply_unlock ranges_of_store_filtered)
next
  case False
  with assms(2,3) show ?thesis
    by (auto simp: rt_apply_lock [OF assms(1)] Let_def ranges_of_update split: if_splits)
qed

text \<open>A table operation removes a range exactly when the counter goes down.\<close>

lemma store_filtered_n: "rt_n (store_filtered t key keep) \<le> rt_n t"
  by (simp add: store_filtered_def Let_def)

lemma store_filtered_same:
  assumes "rt_n t \<le> rt_n (store_filtered t key keep)"
  shows "ranges_of (store_filtered t key keep) k = ranges_of t k"
proof -
  have "length (ranges_of t key) \<le> length (filter keep (ranges_of t key))"
    using assms by (simp add: store_filtered_def Let_def)
  then have "filter keep (ranges_of t key) = ranges_of t key"
    by (metis filter_id_conv le_antisym length_filter_le length_filter_less not_less)
  then show ?thesis by (simp add: ranges_of_store_filtered)
qed

lemma table_step_no_release:
  assumes "table_step t t'" and "rt_n t \<le> rt_n t'"
  shows "set (ranges_of t k) \<subseteq> set (ranges_of t' k)"
  using assms(1)
proof cases
  case (step_apply key owner start len kind err)
  then show ?thesis
    using assms(2) by (auto simp: rt_apply_def Let_def ranges_of_update store_filtered_same
        split: if_splits lockKind.splits lock_scan.splits)
next
  case (step_release key owner)
  then show ?thesis
    using assms(2) by (simp add: rt_releaseOwner_def store_filtered_same)
qed

section \<open>The guarded table\<close>

definition lt_inv :: "lockTable \<Rightarrow> bool" where
  "lt_inv l \<longleftrightarrow> wf_table (lt_t l) \<and> lt_n l = rt_n (lt_t l) \<and> (\<forall>ch \<in> set (lt_closed l). ch < lt_next l) \<and>
     (\<forall>ch. lt_released l = Some ch \<longrightarrow> ch < lt_next l \<and> ch \<notin> set (lt_closed l))"

inductive lt_step :: "lockTable \<Rightarrow> lockTable \<Rightarrow> bool" where
  lt_step_apply: "lt_apply l key owner start len kind = (err, l') \<Longrightarrow> lt_step l l'"
| lt_step_release: "lt_step l (lt_releaseOwner l key owner)"
| lt_step_signal: "releaseSignal l = (ch, l') \<Longrightarrow> lt_step l l'"

inductive_cases lt_stepE: "lt_step l l'"

text \<open>A step either leaves the ranges alone or performs a table step and publishes.\<close>

lemma lt_step_split:
  assumes "lt_step l l'"
  obtains (signal) ch where "releaseSignal l = (ch, l')" "lt_t l' = lt_t l"
  | (publish) t' where "table_step (lt_t l) t'" "l' = publish (l\<lparr>lt_t := t'\<rparr>) (rt_n (lt_t l))"
  using assms
proof cases
  case (lt_step_apply key owner start len kind err)
  then show ?thesis
    by (intro publish [of "snd (rt_apply (lt_t l) key owner start len kind)"])
      (auto simp: lt_apply_def Let_def split: prod.splits intro: step_apply)
next
  case (lt_step_release key owner)
  then show ?thesis
    by (intro publish [of "rt_releaseOwner (lt_t l) key owner"])
      (simp_all add: lt_releaseOwner_def Let_def step_release)
next
  case (lt_step_signal ch)
  then show ?thesis
    by (intro signal [of ch]) (auto simp: releaseSignal_def split: option.splits)
qed

lemma lt_t_publish [simp]: "lt_t (publish l before) = lt_t l"
  by (simp add: publish_def Let_def split: option.splits)

lemma lt_inv_new: "lt_inv newLockTable"
  by (simp add: lt_inv_def newLockTable_def wf_table_new) (simp add: newRangeTable_def)

lemma lt_inv_publish:
  "lt_inv l \<Longrightarrow> wf_table t' \<Longrightarrow> lt_inv (publish (l\<lparr>lt_t := t'\<rparr>) before)"
  by (auto simp: lt_inv_def publish_def Let_def split: option.splits)

lemma lt_inv_signal: "lt_inv l \<Longrightarrow> releaseSignal l = (ch, l') \<Longrightarrow> lt_inv l' \<and> lt_released l' = Some ch"
  by (auto simp: lt_inv_def releaseSignal_def less_SucI split: option.splits)

interpretation guarded_tables: invariant_system "\<lambda>l. l = newLockTable" lt_step lt_inv
proof
  show "lt_inv l" if "l = newLockTable" for l
    using that by (simp add: lt_inv_new)
  show "lt_inv l'" if l: "lt_inv l" and "lt_step l l'" for l l'
    using that(2)
  proof (cases rule: lt_step_split)
    case signal
    with l show ?thesis by (simp add: lt_inv_signal)
  next
    case publish
    moreover have "wf_table (lt_t l)" using l by (simp add: lt_inv_def)
    ultimately show ?thesis using l by (auto intro: lt_inv_publish lock_tables.Inv_step)
  qed
qed

text \<open>
  A waiter that took its channel keeps it until a range disappears: while the
  channel is open, every range held at subscription is still held.
\<close>

definition waiting_on :: "nat \<Rightarrow> (fileKey \<Rightarrow> lockRange set) \<Rightarrow> lockTable \<Rightarrow> bool" where
  "waiting_on ch held l \<longleftrightarrow> lt_inv l \<and>
     (ch \<in> set (lt_closed l) \<or> lt_released l = Some ch \<and> (\<forall>k. held k \<subseteq> set (ranges_of (lt_t l) k)))"

lemma waiting_on_step:
  assumes "waiting_on ch held l" and "lt_step l l'"
  shows "waiting_on ch held l'"
proof -
  have inv: "lt_inv l'" using assms guarded_tables.Inv_step by (auto simp: waiting_on_def)
  show ?thesis
    using assms(2)
  proof (cases rule: lt_step_split)
    case (signal c)
    with assms(1) inv show ?thesis
      by (auto simp: waiting_on_def releaseSignal_def split: option.splits)
  next
    case (publish t')
    show ?thesis
    proof (cases "rt_n t' < rt_n (lt_t l)")
      case True
      with publish assms(1) inv show ?thesis
        by (auto simp: waiting_on_def publish_def Let_def split: option.splits)
    next
      case False
      with publish(1) have "\<forall>k. set (ranges_of (lt_t l) k) \<subseteq> set (ranges_of t' k)"
        by (simp add: table_step_no_release)
      with publish False assms(1) inv show ?thesis
        by (auto simp: waiting_on_def publish_def Let_def split: option.splits)
    qed
  qed
qed

lemma waiting_on_steps: "rtranclp lt_step l l' \<Longrightarrow> waiting_on ch held l \<Longrightarrow> waiting_on ch held l'"
  by (induction rule: rtranclp_induct) (auto intro: waiting_on_step)

text \<open>The fast path: a published count of zero means that no file has a range.\<close>

lemma lt_empty_ranges: "lt_inv l \<Longrightarrow> lt_empty l \<Longrightarrow> ranges_of (lt_t l) key = []"
proof (rule ccontr)
  assume l: "lt_inv l" "lt_empty l" and "ranges_of (lt_t l) key \<noteq> []"
  then have "key \<in> dom (rt_locks (lt_t l))"
    by (auto simp: ranges_of_def split: option.splits)
  then have "int (length (ranges_of (lt_t l) key)) \<le> rt_n (lt_t l)"
    using l(1) unfolding lt_inv_def wf_table_def by (auto intro!: member_le_sum [of key _ "\<lambda>k. int (length (ranges_of (lt_t l) k))"])
  with l \<open>ranges_of (lt_t l) key \<noteq> []\<close> show False
    by (simp add: lt_inv_def lt_empty_def)
qed

lemma lt_conflict_eq: "lt_inv l \<Longrightarrow> lt_conflict l key owner start len write = rt_conflict (lt_t l) key owner start len write"
  by (simp add: lt_conflict_def rt_conflict_def lt_empty_ranges)

end
