(* ===== verification/Smb2_Status.thy ===== *)
theory Smb2_Status
  imports Gosamba_Prelude
begin

text \<open>
  The NTSTATUS codes of \<^verbatim>\<open>internal/smb2/status.go\<close>: the named constants as a datatype
  and \<open>status_code\<close> for the 32-bit value each one puts in the header. The top two bits
  of an NTSTATUS are its severity.
\<close>

datatype Status =
    StatusSuccess
  | StatusPending
  | StatusInvalidParameter
  | StatusAccessDenied
  | StatusObjectNameNotFound
  | StatusObjectNameCollision
  | StatusFileIsADirectory
  | StatusNotADirectory
  | StatusNotSupported
  | StatusInternalError
  | StatusUserSessionDeleted
  | StatusLogonFailure
  | StatusMoreProcessingReq
  | StatusNoSuchFile
  | StatusNoMoreFiles
  | StatusPipeNotAvailable
  | StatusBadNetworkName
  | StatusEndOfFile
  | StatusPipeBroken
  | StatusCancelled
  | StatusNotifyEnumDir
  | StatusNotifyCleanup
  | StatusFsDriverRequired
  | StatusNetworkNameDeleted
  | StatusBufferOverflow
  | StatusLockNotGranted
  | StatusFileLockConflict
  | StatusSharingViolation
  | StatusDiskFull
  | StatusInsufficientResources
  | StatusObjectPathNotFound
  | StatusObjectNameInvalid
  | StatusDirectoryNotEmpty
  | StatusTooManyOpenedFiles
  | StatusNotSameDevice
  | StatusIODeviceError
  | StatusInvalidHandle
  | StatusTooManyLinks
  | StatusInvalidInfoClass
  | StatusInfoLengthMismatch
  | StatusInvalidOplockProtocol
  | StatusNotFound
  | StatusInvalidViewSize

primrec status_code :: "Status \<Rightarrow> u32" where
  "status_code StatusSuccess = 0x00000000"
| "status_code StatusPending = 0x00000103"
| "status_code StatusInvalidParameter = 0xC000000D"
| "status_code StatusAccessDenied = 0xC0000022"
| "status_code StatusObjectNameNotFound = 0xC0000034"
| "status_code StatusObjectNameCollision = 0xC0000035"
| "status_code StatusFileIsADirectory = 0xC00000BA"
| "status_code StatusNotADirectory = 0xC0000103"
| "status_code StatusNotSupported = 0xC00000BB"
| "status_code StatusInternalError = 0xC00000E5"
| "status_code StatusUserSessionDeleted = 0xC0000203"
| "status_code StatusLogonFailure = 0xC000006D"
| "status_code StatusMoreProcessingReq = 0xC0000016"
| "status_code StatusNoSuchFile = 0xC000000F"
| "status_code StatusNoMoreFiles = 0x80000006"
| "status_code StatusPipeNotAvailable = 0xC00000AC"
| "status_code StatusBadNetworkName = 0xC00000CC"
| "status_code StatusEndOfFile = 0xC0000011"
| "status_code StatusPipeBroken = 0xC000014B"
| "status_code StatusCancelled = 0xC0000120"
| "status_code StatusNotifyEnumDir = 0x0000010C"
| "status_code StatusNotifyCleanup = 0x0000010B"
| "status_code StatusFsDriverRequired = 0xC000019C"
| "status_code StatusNetworkNameDeleted = 0xC00000C9"
| "status_code StatusBufferOverflow = 0x80000005"
| "status_code StatusLockNotGranted = 0xC0000055"
| "status_code StatusFileLockConflict = 0xC0000054"
| "status_code StatusSharingViolation = 0xC0000043"
| "status_code StatusDiskFull = 0xC000007F"
| "status_code StatusInsufficientResources = 0xC000009A"
| "status_code StatusObjectPathNotFound = 0xC000003A"
| "status_code StatusObjectNameInvalid = 0xC0000033"
| "status_code StatusDirectoryNotEmpty = 0xC0000101"
| "status_code StatusTooManyOpenedFiles = 0xC000011F"
| "status_code StatusNotSameDevice = 0xC00000D4"
| "status_code StatusIODeviceError = 0xC0000185"
| "status_code StatusInvalidHandle = 0xC0000008"
| "status_code StatusTooManyLinks = 0xC0000265"
| "status_code StatusInvalidInfoClass = 0xC0000003"
| "status_code StatusInfoLengthMismatch = 0xC0000004"
| "status_code StatusInvalidOplockProtocol = 0xC00000E3"
| "status_code StatusNotFound = 0xC0000225"
| "status_code StatusInvalidViewSize = 0xC000001F"

text \<open>An answer with severity 3 is an error reply; the others carry a regular body.\<close>

definition status_severity :: "Status \<Rightarrow> u32" where
  "status_severity s = drop_bit 30 (status_code s)"

definition all_statuses :: "Status list" where
  "all_statuses =
   [StatusSuccess, StatusPending, StatusInvalidParameter, StatusAccessDenied,
    StatusObjectNameNotFound, StatusObjectNameCollision, StatusFileIsADirectory,
    StatusNotADirectory, StatusNotSupported, StatusInternalError, StatusUserSessionDeleted,
    StatusLogonFailure, StatusMoreProcessingReq, StatusNoSuchFile, StatusNoMoreFiles,
    StatusPipeNotAvailable, StatusBadNetworkName, StatusEndOfFile, StatusPipeBroken,
    StatusCancelled, StatusNotifyEnumDir, StatusNotifyCleanup, StatusFsDriverRequired,
    StatusNetworkNameDeleted, StatusBufferOverflow, StatusLockNotGranted,
    StatusFileLockConflict, StatusSharingViolation, StatusDiskFull,
    StatusInsufficientResources, StatusObjectPathNotFound, StatusObjectNameInvalid,
    StatusDirectoryNotEmpty, StatusTooManyOpenedFiles, StatusNotSameDevice,
    StatusIODeviceError, StatusInvalidHandle, StatusTooManyLinks, StatusInvalidInfoClass,
    StatusInfoLengthMismatch, StatusInvalidOplockProtocol, StatusNotFound,
    StatusInvalidViewSize]"

lemma all_statuses: "s \<in> set all_statuses"
  by (cases s) (simp_all add: all_statuses_def)

lemma distinct_status_codes: "distinct (map status_code all_statuses)"
  by (simp add: all_statuses_def)

lemma status_code_inject [simp]: "status_code s = status_code t \<longleftrightarrow> s = t"
  using distinct_status_codes all_statuses by (auto simp: distinct_map dest: inj_onD)

end
