(* ===== verification/Lock_Manager.thy ===== *)
theory Lock_Manager
  imports Lock_Ranges Smb2_Messages Smb2_Status
begin

text \<open>
  SMB2 LOCK: \<^verbatim>\<open>internal/parent/lock.go\<close> (element validation, the all-or-nothing
  request, parking of blocking requests) and the two platform lock managers,
  \<^verbatim>\<open>lock_darwin.go\<close> (the table is the authority) and \<^verbatim>\<open>lock_linux.go\<close> (kernel OFD
  locks with the table as a shadow).

  The platform manager is an argument of the shared code: \<open>applyLock\<close> and
  \<open>snapshotRanges\<close> act on a state \<open>'s\<close>. What \<^verbatim>\<open>fstat\<close> says of a handle is the
  argument \<open>keyFor\<close> (an errno or the file key); the kernel's \<^verbatim>\<open>F_OFD_SETLK\<close> is the
  argument \<open>fcntl\<close> on an abstract kernel state.
\<close>

section \<open>Validated lock elements\<close>

record lockOp =
  op_el :: lock_element
  op_kind :: lockKind

definition blocking :: "lockOp \<Rightarrow> bool" where
  "blocking op \<longleftrightarrow> op_kind op \<noteq> lockUnlock \<and> le_Flags (op_el op) AND LockFlagFailImmediately = 0"

abbreviation (input) MaxInt64 :: nat where "MaxInt64 \<equiv> 2 ^ 63 - 1"

fun decodeLockOps :: "lock_element list \<Rightarrow> lockOp list option" where
  "decodeLockOps [] = Some []"
| "decodeLockOps (el # els) =
     (case (if le_Flags el AND LockFlagUnlock \<noteq> 0 then Some lockUnlock
            else if le_Flags el AND LockFlagSharedLock \<noteq> 0 then Some lockShared
            else if le_Flags el AND LockFlagExclusiveLock \<noteq> 0 then Some lockExclusive
            else None) of
        None \<Rightarrow> None
      | Some kind \<Rightarrow>
          if unat (le_Offset el) > MaxInt64 then None
          else (case decodeLockOps els of
                  None \<Rightarrow> None
                | Some ops \<Rightarrow> Some (\<lparr>op_el = el, op_kind = kind\<rparr> # ops)))"

fun lockStatus :: "lock_err \<Rightarrow> Status" where
  "lockStatus errLockConflict = StatusLockNotGranted"
| "lockStatus errLockLimit = StatusInsufficientResources"
| "lockStatus errLockRange = StatusInvalidParameter"
| "lockStatus (errLockSys _) = StatusInternalError"

section \<open>One request, applied atomically\<close>

type_synonym 's apply_lock = "'s \<Rightarrow> open_ref \<Rightarrow> u64 \<Rightarrow> u64 \<Rightarrow> lockKind \<Rightarrow> lock_result \<times> 's"
type_synonym 's snapshot_ranges = "'s \<Rightarrow> open_ref \<Rightarrow> lockRange list"

fun unlock_ranges :: "'s apply_lock \<Rightarrow> open_ref \<Rightarrow> lockRange list \<Rightarrow> 's \<Rightarrow> 's" where
  "unlock_ranges applyLock open [] s = s"
| "unlock_ranges applyLock open (r # rs) s =
     unlock_ranges applyLock open rs (snd (applyLock s open (lr_start r) (lr_length r) lockUnlock))"

fun relock_ranges :: "'s apply_lock \<Rightarrow> open_ref \<Rightarrow> lockRange list \<Rightarrow> 's \<Rightarrow> 's" where
  "relock_ranges applyLock open [] s = s"
| "relock_ranges applyLock open (r # rs) s =
     relock_ranges applyLock open rs (snd (applyLock s open (lr_start r) (lr_length r) (range_kind r)))"

definition restoreLocks :: "'s apply_lock \<Rightarrow> 's snapshot_ranges \<Rightarrow> open_ref \<Rightarrow> lockRange list \<Rightarrow> 's \<Rightarrow> 's" where
  "restoreLocks applyLock snapshotRanges open snap s =
     relock_ranges applyLock open snap
       (unlock_ranges applyLock open (rangesDiff (snapshotRanges s open) snap) s)"

fun apply_ops :: "'s apply_lock \<Rightarrow> open_ref \<Rightarrow> nat \<Rightarrow> lockOp list \<Rightarrow> 's \<Rightarrow> (nat \<times> lock_err) option \<times> 's" where
  "apply_ops applyLock open i [] s = (None, s)"
| "apply_ops applyLock open i (op # ops) s =
     (case applyLock s open (le_Offset (op_el op)) (le_Length (op_el op)) (op_kind op) of
        (None, s') \<Rightarrow> apply_ops applyLock open (Suc i) ops s'
      | (Some err, s') \<Rightarrow> (Some (i, err), s'))"

definition applyLockOps :: "'s apply_lock \<Rightarrow> 's snapshot_ranges \<Rightarrow> open_ref \<Rightarrow> lockOp list \<Rightarrow> 's
    \<Rightarrow> (nat \<times> lock_err) option \<times> 's" where
  "applyLockOps applyLock snapshotRanges open ops s =
     (let snap = (if length ops > 1 then snapshotRanges s open else []) in
      case apply_ops applyLock open 0 ops s of
        (None, s') \<Rightarrow> (None, s')
      | (Some (i, err), s') \<Rightarrow>
          (Some (i, err), if length ops > 1 then restoreLocks applyLock snapshotRanges open snap s' else s'))"

section \<open>The handler and parked requests\<close>

definition maxPendingLockWaits :: int where
  "maxPendingLockWaits = 256"

definition startLockWait :: "int \<Rightarrow> bool \<times> int" where
  "startLockWait pending =
     (if pending + 1 > maxPendingLockWaits then (False, pending + 1 - 1) else (True, pending + 1))"

datatype lock_answer = LockReply Status | LockParked "lockOp list"

text \<open>
  \<open>getOpen\<close> is the session's open table, \<open>hasFile\<close> tells a handle with a file from a
  directory or a virtual one, \<open>configured\<close> whether the dispatcher has a lock manager.
  The result is \<open>None\<close> for a panic, else the answer, the new lock state and the
  number of parked requests.
\<close>

definition handleLock :: "'s apply_lock \<Rightarrow> 's snapshot_ranges \<Rightarrow> (bytes \<Rightarrow> open_ref option) \<Rightarrow> (open_ref \<Rightarrow> bool)
    \<Rightarrow> bool \<Rightarrow> bytes \<Rightarrow> 's \<Rightarrow> int \<Rightarrow> (lock_answer \<times> 's \<times> int) option" where
  "handleLock applyLock snapshotRanges getOpen hasFile configured body s pending =
     (case DecodeLockRequest body of
        None \<Rightarrow> None
      | Some (Inl _) \<Rightarrow> Some (LockReply StatusInvalidParameter, s, pending)
      | Some (Inr req) \<Rightarrow>
     (case getOpen (lr_FileID req) of
        None \<Rightarrow> Some (LockReply StatusInvalidParameter, s, pending)
      | Some open \<Rightarrow>
          if \<not> hasFile open then Some (LockReply StatusInvalidParameter, s, pending)
          else if \<not> configured then Some (LockReply StatusInternalError, s, pending)
          else
     (case decodeLockOps (lr_Locks req) of
        None \<Rightarrow> Some (LockReply StatusInvalidParameter, s, pending)
      | Some ops \<Rightarrow>
     (case applyLockOps applyLock snapshotRanges open ops s of
        (None, s') \<Rightarrow> Some (LockReply StatusSuccess, s', pending)
      | (Some (idx, err), s') \<Rightarrow>
          if err = errLockConflict \<and> blocking (ops ! idx) then
            (case startLockWait pending of
               (True, pending') \<Rightarrow> Some (LockParked ops, s', pending')
             | (False, pending') \<Rightarrow> Some (LockReply (lockStatus err), s', pending'))
          else Some (LockReply (lockStatus err), s', pending)))))"

text \<open>
  A parked request sleeps on three channels; an event names the one that fires and,
  for a release, the state the lock manager has reached by then. The result is the
  status of the async completion, or \<open>None\<close> while the request is still parked.
\<close>

datatype 's wait_event = Released 's | WaitCancelled | WaitTimeout

fun awaitLock :: "'s apply_lock \<Rightarrow> 's snapshot_ranges \<Rightarrow> open_ref \<Rightarrow> lockOp list \<Rightarrow> 's
    \<Rightarrow> 's wait_event list \<Rightarrow> Status option \<times> 's" where
  "awaitLock applyLock snapshotRanges open ops s events =
     (case applyLockOps applyLock snapshotRanges open ops s of
        (None, s') \<Rightarrow> (Some StatusSuccess, s')
      | (Some (idx, err), s') \<Rightarrow>
          if err = errLockConflict \<and> blocking (ops ! idx) then
            (case events of
               [] \<Rightarrow> (None, s')
             | Released s'' # es \<Rightarrow> awaitLock applyLock snapshotRanges open ops s'' es
             | WaitCancelled # es \<Rightarrow> (Some StatusCancelled, s')
             | WaitTimeout # es \<Rightarrow> (Some StatusLockNotGranted, s'))
          else (Some (lockStatus err), s'))"

declare awaitLock.simps [simp del]

section \<open>The darwin manager\<close>

type_synonym key_for = "open_ref \<Rightarrow> nat + fileKey"

definition applyLock_darwin :: "key_for \<Rightarrow> lockTable apply_lock" where
  "applyLock_darwin keyFor tbl open offset len kind =
     (case keyFor open of
        Inl errno \<Rightarrow> (Some (errLockSys errno), tbl)
      | Inr key \<Rightarrow> lt_apply tbl key open offset len kind)"

definition snapshotRanges :: "key_for \<Rightarrow> lockTable snapshot_ranges" where
  "snapshotRanges keyFor tbl open =
     (case keyFor open of Inl _ \<Rightarrow> [] | Inr key \<Rightarrow> snapshot tbl key open)"

definition releaseAll :: "key_for \<Rightarrow> lockTable \<Rightarrow> open_ref \<Rightarrow> lockTable" where
  "releaseAll keyFor tbl open =
     (case keyFor open of Inl _ \<Rightarrow> tbl | Inr key \<Rightarrow> lt_releaseOwner tbl key open)"

definition conflictsWith :: "key_for \<Rightarrow> lockTable \<Rightarrow> open_ref \<Rightarrow> u64 \<Rightarrow> u64 \<Rightarrow> bool \<Rightarrow> bool" where
  "conflictsWith keyFor tbl open offset len write =
     (if len = 0 \<or> lt_empty tbl then False
      else (case keyFor open of
              Inl _ \<Rightarrow> False
            | Inr key \<Rightarrow> lt_conflict tbl key open offset len write))"

section \<open>The linux manager\<close>

datatype flock_type = F_UNLCK | F_RDLCK | F_WRLCK

record flock =
  fl_Type :: flock_type
  fl_Start :: int
  fl_Len :: int

abbreviation (input) EAGAIN :: nat where "EAGAIN \<equiv> 11"
abbreviation (input) EACCES :: nat where "EACCES \<equiv> 13"

definition flockRange :: "u64 \<Rightarrow> u64 \<Rightarrow> (int \<times> int) option" where
  "flockRange offset len =
     (if unat offset > MaxInt64 then None
      else
        let start = uint offset; end = offset + len in
        if end < offset \<or> unat end > MaxInt64 then Some (start, 0)
        else Some (start, uint len))"

fun flock_type_of :: "lockKind \<Rightarrow> flock_type" where
  "flock_type_of lockUnlock = F_UNLCK"
| "flock_type_of lockShared = F_RDLCK"
| "flock_type_of lockExclusive = F_WRLCK"

definition applyLock_linux :: "('k \<Rightarrow> open_ref \<Rightarrow> flock \<Rightarrow> nat option \<times> 'k) \<Rightarrow> key_for \<Rightarrow> (lockTable \<times> 'k) apply_lock" where
  "applyLock_linux fcntl keyFor s open offset len kind =
     (let (tbl, k) = s in
      if len = 0 then (None, s)
      else case flockRange offset len of
        None \<Rightarrow> (Some errLockRange, s)
      | Some (start, l) \<Rightarrow>
          let full = (case keyFor open of
                        Inl _ \<Rightarrow> False
                      | Inr key \<Rightarrow> kind \<noteq> lockUnlock \<and> atCapacity tbl key open) in
          if full then (Some errLockLimit, s)
          else (case fcntl k open \<lparr>fl_Type = flock_type_of kind, fl_Start = start, fl_Len = l\<rparr> of
             (Some errno, k') \<Rightarrow>
               (Some (if errno = EAGAIN \<or> errno = EACCES then errLockConflict else errLockSys errno), (tbl, k'))
           | (None, k') \<Rightarrow>
               (case keyFor open of
                  Inl _ \<Rightarrow> (None, (tbl, k'))
                | Inr key \<Rightarrow> (None, (snd (lt_apply tbl key open offset len kind), k')))))"

section \<open>The contract of a lock manager\<close>

text \<open>What one granted element does to the set of ranges on the handle's file.\<close>

definition lock_spec :: "open_ref \<Rightarrow> u64 \<Rightarrow> u64 \<Rightarrow> lockKind \<Rightarrow> lockRange set \<Rightarrow> lockRange set" where
  "lock_spec owner start len kind V =
     (if len = 0 then V
      else if kind = lockUnlock then {r \<in> V. \<not> (lr_owner r = owner \<and> sameRange r start len)}
      else insert (new_range owner start len (kind = lockExclusive)) V)"

definition op_spec :: "open_ref \<Rightarrow> lockRange set \<Rightarrow> lockOp \<Rightarrow> lockRange set" where
  "op_spec owner V op = lock_spec owner (le_Offset (op_el op)) (le_Length (op_el op)) (op_kind op) V"

definition others :: "open_ref \<Rightarrow> lockRange set \<Rightarrow> lockRange set" where
  "others owner V = {r \<in> V. lr_owner r \<noteq> owner}"

lemma others_lock_spec [simp]: "others owner (lock_spec owner start len kind V) = others owner V"
  by (auto simp: others_def lock_spec_def)

text \<open>What \<open>rangesDiff\<close> leaves out of the handle's ranges is in the snapshot.\<close>

lemma rangesDiff_iff:
  "r \<in> set (rangesDiff a b) \<longleftrightarrow> r \<in> set a \<and>
     \<not> (\<exists>d \<in> set b. sameRange d (lr_start r) (lr_length r) \<and> lr_exclusive d = lr_exclusive r)"
  by (induction a) (auto simp: list_ex_iff)

text \<open>
  \<open>view s h\<close> is the set of ranges on the file of handle \<open>h\<close>, whoever holds them;
  \<open>rest s h\<close> is everything the manager knows about other files. A manager grants
  again what it granted before when nothing was added since.
\<close>

locale lock_service =
  fixes applyLock :: "'s apply_lock"
    and snap :: "'s snapshot_ranges"
    and Inv :: "'s \<Rightarrow> bool"
    and view :: "'s \<Rightarrow> open_ref \<Rightarrow> lockRange set"
    and rest :: "'s \<Rightarrow> open_ref \<Rightarrow> 'r"
    and usable :: "open_ref \<Rightarrow> bool"
  assumes apply_frame: "Inv s \<Longrightarrow> applyLock s h off len k = (res, s') \<Longrightarrow> Inv s' \<and> rest s' h = rest s h"
    and apply_fail: "Inv s \<Longrightarrow> applyLock s h off len k = (Some e, s') \<Longrightarrow> view s' h = view s h"
    and apply_grant: "Inv s \<Longrightarrow> usable h \<Longrightarrow> applyLock s h off len k = (None, s') \<Longrightarrow>
      view s' h = lock_spec h off len k (view s h)"
    and unlock_granted: "Inv s \<Longrightarrow> usable h \<Longrightarrow> fst (applyLock s h off len lockUnlock) = None"
    and regrant: "Inv s0 \<Longrightarrow> Inv s \<Longrightarrow> usable h \<Longrightarrow> view s h \<subseteq> view s0 h \<Longrightarrow> r \<in> view s0 h \<Longrightarrow>
      lr_owner r = h \<Longrightarrow> fst (applyLock s h (lr_start r) (lr_length r) (range_kind r)) = None"
    and snap_view: "Inv s \<Longrightarrow> set (snap s h) = {r \<in> view s h. lr_owner r = h}"
    and view_nonzero: "Inv s \<Longrightarrow> r \<in> view s h \<Longrightarrow> lr_length r \<noteq> 0"
    and unusable: "\<not> usable h \<Longrightarrow> view s h = {}"
begin

lemma unlock_step:
  assumes "Inv s" and "usable h" and "len \<noteq> 0"
  obtains s' where "applyLock s h off len lockUnlock = (None, s')" and "Inv s'" and "rest s' h = rest s h"
    and "view s' h = {r \<in> view s h. \<not> (lr_owner r = h \<and> sameRange r off len)}"
proof -
  obtain s' where s': "applyLock s h off len lockUnlock = (None, s')"
    using unlock_granted [OF assms(1,2), of off len] by (metis prod.collapse)
  show ?thesis
    using apply_frame [OF assms(1) s'] apply_grant [OF assms(1,2) s'] assms(3)
    by (intro that [OF s']) (simp_all add: lock_spec_def)
qed

lemma unlock_ranges_view:
  "Inv s \<Longrightarrow> usable h \<Longrightarrow> (\<forall>r \<in> set rs. lr_length r \<noteq> 0) \<Longrightarrow>
    Inv (unlock_ranges applyLock h rs s) \<and> rest (unlock_ranges applyLock h rs s) h = rest s h \<and>
    view (unlock_ranges applyLock h rs s) h =
      {r \<in> view s h. \<not> (lr_owner r = h \<and> (\<exists>d \<in> set rs. sameRange r (lr_start d) (lr_length d)))}"
proof (induction rs arbitrary: s)
  case (Cons d rs)
  then have nz: "lr_length d \<noteq> 0" by simp
  obtain s' where "applyLock s h (lr_start d) (lr_length d) lockUnlock = (None, s')" and "Inv s'"
    and "rest s' h = rest s h"
    and "view s' h = {r \<in> view s h. \<not> (lr_owner r = h \<and> sameRange r (lr_start d) (lr_length d))}"
    by (rule unlock_step [OF Cons.prems(1,2) nz])
  with Cons.IH [of s'] Cons.prems(2,3)
  have "Inv (unlock_ranges applyLock h (d # rs) s)" "rest (unlock_ranges applyLock h (d # rs) s) h = rest s h"
    and "view (unlock_ranges applyLock h (d # rs) s) h =
      {r \<in> {r \<in> view s h. \<not> (lr_owner r = h \<and> sameRange r (lr_start d) (lr_length d))}.
        \<not> (lr_owner r = h \<and> (\<exists>d \<in> set rs. sameRange r (lr_start d) (lr_length d)))}"
    by simp_all
  then show ?case by auto
qed simp

lemma relock_step:
  assumes "Inv s0" and "Inv s" and "usable h" and "view s h \<subseteq> view s0 h" and "r \<in> view s0 h" and "lr_owner r = h"
  obtains s' where "applyLock s h (lr_start r) (lr_length r) (range_kind r) = (None, s')" and "Inv s'"
    and "rest s' h = rest s h" and "view s' h = insert r (view s h)"
proof -
  obtain s' where s': "applyLock s h (lr_start r) (lr_length r) (range_kind r) = (None, s')"
    using regrant [OF assms] by (metis prod.collapse)
  have "new_range h (lr_start r) (lr_length r) (lr_exclusive r) = r"
    using assms(6) by (cases r) simp
  then have "view s' h = insert r (view s h)"
    using apply_grant [OF assms(2,3) s'] view_nonzero [OF assms(1,5)]
    by (cases "lr_exclusive r") (simp_all add: lock_spec_def range_kind_def)
  then show ?thesis
    using apply_frame [OF assms(2) s'] by (intro that [OF s']) simp_all
qed

lemma relock_ranges_view:
  assumes "Inv s0" and "usable h" and "set rs \<subseteq> {r \<in> view s0 h. lr_owner r = h}"
    and "Inv s" and "view s h \<subseteq> view s0 h"
  shows "Inv (relock_ranges applyLock h rs s) \<and> rest (relock_ranges applyLock h rs s) h = rest s h \<and>
    view (relock_ranges applyLock h rs s) h = view s h \<union> set rs"
  using assms(3-)
proof (induction rs arbitrary: s)
  case (Cons r rs)
  have "r \<in> view s0 h" "lr_owner r = h" using Cons.prems(1) by simp_all
  then obtain s' where "applyLock s h (lr_start r) (lr_length r) (range_kind r) = (None, s')" and "Inv s'"
    and "rest s' h = rest s h" and "view s' h = insert r (view s h)"
    by (rule relock_step [OF assms(1) Cons.prems(2) assms(2) Cons.prems(3)])
  with Cons.IH [of s'] Cons.prems show ?case by simp
qed simp

lemma apply_frame_snd:
  "Inv s \<Longrightarrow> Inv (snd (applyLock s h off len k)) \<and> rest (snd (applyLock s h off len k)) h = rest s h"
  using apply_frame [of s h off len k "fst (applyLock s h off len k)" "snd (applyLock s h off len k)"] by simp

lemma unlock_ranges_frame:
  "Inv s \<Longrightarrow> Inv (unlock_ranges applyLock h rs s) \<and> rest (unlock_ranges applyLock h rs s) h = rest s h"
  by (induction rs arbitrary: s) (simp_all add: apply_frame_snd)

lemma relock_ranges_frame:
  "Inv s \<Longrightarrow> Inv (relock_ranges applyLock h rs s) \<and> rest (relock_ranges applyLock h rs s) h = rest s h"
  by (induction rs arbitrary: s) (simp_all add: apply_frame_snd)

lemma apply_others:
  assumes "Inv s" and "applyLock s h off len k = (e, s')"
  shows "others h (view s' h) = others h (view s h)"
proof (cases "usable h")
  case True
  with assms show ?thesis
    by (cases e) (auto simp: apply_grant dest: apply_fail)
qed (simp add: unusable)

lemma apply_ops_frame:
  "Inv s \<Longrightarrow> apply_ops applyLock h i ops s = (res, s') \<Longrightarrow>
    Inv s' \<and> rest s' h = rest s h \<and> others h (view s' h) = others h (view s h)"
proof (induction ops arbitrary: i s)
  case (Cons op ops)
  obtain e s1 where s1: "applyLock s h (le_Offset (op_el op)) (le_Length (op_el op)) (op_kind op) = (e, s1)"
    by (cases "applyLock s h (le_Offset (op_el op)) (le_Length (op_el op)) (op_kind op)")
  note frame = apply_frame [OF Cons.prems(1) s1] apply_others [OF Cons.prems(1) s1]
  show ?case
  proof (cases e)
    case None
    with Cons.prems(2) s1 Cons.IH [of s1] frame show ?thesis by auto
  next
    case (Some err)
    with Cons.prems(2) s1 frame show ?thesis by auto
  qed
qed simp

lemma apply_ops_granted:
  "Inv s \<Longrightarrow> usable h \<Longrightarrow> apply_ops applyLock h i ops s = (None, s') \<Longrightarrow>
    view s' h = foldl (op_spec h) (view s h) ops"
proof (induction ops arbitrary: i s)
  case (Cons op ops)
  then obtain s1 where s1: "applyLock s h (le_Offset (op_el op)) (le_Length (op_el op)) (op_kind op) = (None, s1)"
    and "apply_ops applyLock h (Suc i) ops s1 = (None, s')"
    by (auto split: prod.splits option.splits)
  with Cons.IH [of s1 "Suc i"] apply_frame [OF Cons.prems(1) s1] apply_grant [OF Cons.prems(1,2) s1] Cons.prems(2)
  show ?case by (simp add: op_spec_def)
qed simp

lemma restoreLocks_view:
  assumes "Inv s0" and "Inv s" and "usable h" and "others h (view s h) = others h (view s0 h)"
  shows "Inv (restoreLocks applyLock snap h (snap s0 h) s) \<and>
    rest (restoreLocks applyLock snap h (snap s0 h) s) h = rest s h \<and>
    view (restoreLocks applyLock snap h (snap s0 h) s) h = view s0 h"
proof -
  let ?diff = "rangesDiff (snap s h) (snap s0 h)"
  let ?s1 = "unlock_ranges applyLock h ?diff s"
  have snap0: "set (snap s0 h) = {r \<in> view s0 h. lr_owner r = h}" and snap: "set (snap s h) = {r \<in> view s h. lr_owner r = h}"
    using assms(1,2) by (simp_all add: snap_view)
  have "\<forall>r \<in> set ?diff. lr_length r \<noteq> 0"
    using snap view_nonzero [OF assms(2)] by (auto simp: rangesDiff_iff)
  note s1 = unlock_ranges_view [OF assms(2,3) this]
  have eq: "d = r" if "lr_owner d = lr_owner r" "sameRange d (lr_start r) (lr_length r)" "lr_exclusive d = lr_exclusive r"
    for d r :: lockRange
    using that by (cases d, cases r) (simp add: sameRange_def)
  have sub: "view ?s1 h \<subseteq> view s0 h"
  proof
    fix r assume "r \<in> view ?s1 h"
    then have r: "r \<in> view s h" and out: "lr_owner r = h \<Longrightarrow> r \<notin> set ?diff"
      using s1 by (auto simp: sameRange_def)
    show "r \<in> view s0 h"
    proof (cases "lr_owner r = h")
      case True
      with r out have "\<exists>d \<in> set (snap s0 h). sameRange d (lr_start r) (lr_length r) \<and> lr_exclusive d = lr_exclusive r"
        by (auto simp: rangesDiff_iff snap)
      with True eq [of _ r] show ?thesis unfolding snap0 by force
    next
      case False
      with r assms(4) show ?thesis by (auto simp: others_def)
    qed
  qed
  note s2 = relock_ranges_view [OF assms(1,3) _ _ sub, of "snap s0 h"]
  have "view ?s1 h \<union> set (snap s0 h) = view s0 h"
  proof (rule subset_antisym)
    show "view ?s1 h \<union> set (snap s0 h) \<subseteq> view s0 h" using sub snap0 by auto
    show "view s0 h \<subseteq> view ?s1 h \<union> set (snap s0 h)"
      using assms(4) s1 snap0 by (auto simp: others_def)
  qed
  with s1 s2 snap0 show ?thesis by (simp add: restoreLocks_def)
qed

lemma failed_request_changes_nothing:
  assumes "Inv s" and "applyLockOps applyLock snap h ops s = (Some (i, err), s')"
  shows "Inv s' \<and> rest s' h = rest s h \<and> view s' h = view s h"
proof -
  obtain s1 where s1: "apply_ops applyLock h 0 ops s = (Some (i, err), s1)"
    and s': "s' = (if length ops > 1 then restoreLocks applyLock snap h (snap s h) s1 else s1)"
    using assms(2) by (auto simp: applyLockOps_def Let_def split: prod.splits option.splits if_splits)
  note frame = apply_ops_frame [OF assms(1) s1]
  show ?thesis
  proof (cases "length ops > 1")
    case True
    show ?thesis
    proof (cases "usable h")
      case True
      with s' \<open>length ops > 1\<close> frame show ?thesis
        using restoreLocks_view [OF assms(1) _ True, of s1] by simp
    next
      case False
      with s' frame \<open>length ops > 1\<close> show ?thesis
        by (simp add: restoreLocks_def unusable unlock_ranges_frame relock_ranges_frame)
    qed
  next
    case False
    with s1 obtain op where op: "ops = [op]"
      by (cases ops) auto
    with s1 have "applyLock s h (le_Offset (op_el op)) (le_Length (op_el op)) (op_kind op) = (Some err, s1)"
      by (auto split: prod.splits option.splits)
    with s' False frame apply_fail [OF assms(1)] show ?thesis by simp
  qed
qed

lemma granted_request:
  assumes "Inv s" and "usable h" and "applyLockOps applyLock snap h ops s = (None, s')"
  shows "Inv s' \<and> rest s' h = rest s h \<and> view s' h = foldl (op_spec h) (view s h) ops"
proof -
  have "apply_ops applyLock h 0 ops s = (None, s')"
    using assms(3) by (auto simp: applyLockOps_def Let_def split: prod.splits option.splits)
  with assms(1,2) show ?thesis
    by (auto dest: apply_ops_frame apply_ops_granted)
qed

end

section \<open>The darwin manager meets the contract\<close>

definition file_view :: "key_for \<Rightarrow> lockTable \<Rightarrow> open_ref \<Rightarrow> lockRange set" where
  "file_view keyFor tbl h = (case keyFor h of Inl _ \<Rightarrow> {} | Inr key \<Rightarrow> set (ranges_of (lt_t tbl) key))"

definition other_files :: "key_for \<Rightarrow> lockTable \<Rightarrow> open_ref \<Rightarrow> fileKey \<Rightarrow> lockRange list" where
  "other_files keyFor tbl h =
     (case keyFor h of Inl _ \<Rightarrow> ranges_of (lt_t tbl) | Inr key \<Rightarrow> (ranges_of (lt_t tbl))(key := []))"

lemma lt_apply_split:
  assumes "lt_apply l key owner start len kind = (err, l')"
  shows "rt_apply (lt_t l) key owner start len kind = (err, lt_t l')"
  using assms by (auto simp: lt_apply_def Let_def split: prod.splits)

lemma fst_lt_apply: "fst (lt_apply l key owner start len kind) = fst (rt_apply (lt_t l) key owner start len kind)"
  by (simp add: lt_apply_def Let_def split: prod.splits)

lemma rt_apply_zero: "rt_apply t key owner start 0 kind = (None, t)"
  by (simp add: rt_apply_def)

lemma rt_apply_spec:
  assumes "wf_table t" and "rt_apply t key owner start len kind = (None, t')"
  shows "set (ranges_of t' key) = lock_spec owner start len kind (set (ranges_of t key))"
proof (cases "len = 0")
  case True
  with assms(2) show ?thesis by (simp add: rt_apply_zero lock_spec_def)
next
  case False
  with rt_apply_granted [OF assms] show ?thesis by (simp add: lock_spec_def)
qed

lemma distinct_subset_length:
  "distinct xs \<Longrightarrow> set xs \<subseteq> set ys \<Longrightarrow> x \<in> set ys \<Longrightarrow> x \<notin> set xs \<Longrightarrow> length xs < length ys"
  by (metis card_length distinct_card finite_set le_trans linorder_not_le psubsetI psubset_card_mono)

text \<open>A range granted once is granted again while the table holds no more than it did then.\<close>

lemma rt_regrant:
  assumes "wf_table t0" and "wf_table t" and sub: "set (ranges_of t key) \<subseteq> set (ranges_of t0 key)"
    and r: "r \<in> set (ranges_of t0 key)"
  shows "fst (rt_apply t key (lr_owner r) (lr_start r) (lr_length r) (range_kind r)) = None"
proof -
  let ?rs = "ranges_of t key" and ?old = "ranges_of t0 key"
  have wf: "wf_ranges ?rs" "wf_ranges ?old" using assms(1,2) by (simp_all add: wf_table_def)
  have nz: "lr_length r \<noteq> 0" and compat: "\<forall>s \<in> set ?rs. compatible r s"
    using wf r sub by (auto simp: wf_ranges_def)
  have eq: "new_range (lr_owner r) (lr_start r) (lr_length r) (range_kind r = lockExclusive) = r"
    by (cases r) (simp add: range_kind_def)
  have kind: "range_kind r \<noteq> lockUnlock" by (simp add: range_kind_def)
  have caps: "length ?rs < maxLockRangesPerFile \<and> length (owned_by (lr_owner r) ?rs) < maxLockRangesPerOwner" if "r \<notin> set ?rs"
  proof -
    have "length ?rs < length ?old"
      using wf that r sub by (intro distinct_subset_length) (auto simp: wf_ranges_def)
    moreover have "length (owned_by (lr_owner r) ?rs) < length (owned_by (lr_owner r) ?old)"
      using wf that r sub by (intro distinct_subset_length [of _ _ r]) (auto simp: wf_ranges_def owned_by_def)
    ultimately show ?thesis using wf(2) by (auto simp: wf_ranges_def intro: less_le_trans)
  qed
  show ?thesis
    unfolding rt_apply_lock [OF assms(2) nz kind] eq Let_def
    using compat caps by (cases "r \<in> set ?rs") (simp_all add: not_le)
qed

interpretation darwin: lock_service "applyLock_darwin keyFor" "snapshotRanges keyFor" lt_inv
    "file_view keyFor" "other_files keyFor" "\<lambda>h. \<exists>key. keyFor h = Inr key" for keyFor
proof
  fix s s0 s' :: lockTable and h off len k e and res :: lock_result and r
  have wf: "wf_table (lt_t s)" if "lt_inv s" for s using that by (simp add: lt_inv_def)
  show "lt_inv s' \<and> other_files keyFor s' h = other_files keyFor s h"
    if "lt_inv s" "applyLock_darwin keyFor s h off len k = (res, s')"
    using that guarded_tables.Inv_step [OF that(1) lt_step_apply] rt_apply_other_key [OF lt_apply_split]
    by (auto simp: applyLock_darwin_def other_files_def fun_eq_iff split: sum.splits)
  show "file_view keyFor s' h = file_view keyFor s h"
    if "lt_inv s" "applyLock_darwin keyFor s h off len k = (Some e, s')"
    using that(2) by (auto simp: applyLock_darwin_def file_view_def split: sum.splits
        dest!: lt_apply_split rt_apply_error)
  show "file_view keyFor s' h = lock_spec h off len k (file_view keyFor s h)"
    if "lt_inv s" "\<exists>key. keyFor h = Inr key" "applyLock_darwin keyFor s h off len k = (None, s')"
    using that by (auto simp: applyLock_darwin_def file_view_def rt_apply_spec [OF wf] dest!: lt_apply_split)
  show "fst (applyLock_darwin keyFor s h off len lockUnlock) = None" if "\<exists>key. keyFor h = Inr key"
    using that by (auto simp: applyLock_darwin_def fst_lt_apply rt_apply_def)
  show "fst (applyLock_darwin keyFor s h (lr_start r) (lr_length r) (range_kind r)) = None"
    if "lt_inv s0" "lt_inv s" "\<exists>key. keyFor h = Inr key" "file_view keyFor s h \<subseteq> file_view keyFor s0 h"
      "r \<in> file_view keyFor s0 h" "lr_owner r = h"
    using that rt_regrant [OF wf wf, of s0 s _ r]
    by (auto simp: applyLock_darwin_def file_view_def fst_lt_apply)
  show "set (snapshotRanges keyFor s h) = {r \<in> file_view keyFor s h. lr_owner r = h}"
    by (auto simp: snapshotRanges_def snapshot_def file_view_def split: sum.splits)
  show "lr_length r \<noteq> 0" if "lt_inv s" "r \<in> file_view keyFor s h"
    using that wf by (auto simp: file_view_def wf_table_def wf_ranges_def split: sum.splits)
  show "file_view keyFor s h = {}" if "\<not> (\<exists>key. keyFor h = Inr key)"
    using that by (auto simp: file_view_def split: sum.splits)
qed

section \<open>The linux manager: ranges handed to the kernel\<close>

text \<open>
  The bytes an \<^verbatim>\<open>fcntl\<close> range covers below the largest file offset: a length of 0
  runs to the end of the file.
\<close>

definition fcntl_bytes :: "int \<Rightarrow> int \<Rightarrow> nat set" where
  "fcntl_bytes start l = {x. x < 2 ^ 63 \<and> start \<le> int x \<and> (l = 0 \<or> int x < start + l)}"

lemma flockRange_bytes:
  assumes "len \<noteq> 0" and "flockRange offset len = Some (start, l)"
  shows "fcntl_bytes start l = {x. x < 2 ^ 63 \<and> unat offset \<le> x \<and> x < unat offset + unat len}"
proof -
  have bounds: "unat offset < 2 ^ 63" "unat len < 2 ^ 64" "0 < unat len"
    using assms unsigned_less [of len] by (auto simp: flockRange_def unat_gt_0 split: if_splits)
  define n m where "n = unat offset" and "m = unat len"
  have start: "start = int n"
    using assms(2) by (auto simp: n_def flockRange_def Let_def split: if_splits)
  show ?thesis
  proof (cases "offset + len < offset \<or> unat (offset + len) > MaxInt64")
    case True
    have "2 ^ 63 \<le> unat offset + unat len"
    proof (rule ccontr)
      assume "\<not> 2 ^ 63 \<le> unat offset + unat len"
      moreover from this have "unat (offset + len) = unat offset + unat len"
        by (simp add: unat_word_ariths)
      ultimately show False using True by (auto simp: word_less_nat_alt)
    qed
    moreover have "l = 0" using True assms(2) by (auto simp: flockRange_def Let_def split: if_splits)
    ultimately show ?thesis unfolding fcntl_bytes_def start n_def [symmetric] by auto
  next
    case False
    then have "l = int m"
      using assms(2) by (auto simp: m_def flockRange_def Let_def split: if_splits)
    then show ?thesis using bounds(3) unfolding fcntl_bytes_def start n_def [symmetric] m_def [symmetric] by auto
  qed
qed

lemma linux_table_inv:
  assumes "lt_inv (fst s)" and "applyLock_linux fcntl keyFor s h off len k = (res, s')"
  shows "lt_inv (fst s')"
proof -
  have "lt_inv (snd (lt_apply (fst s) key h off len k))" for key
    by (rule guarded_tables.Inv_step [OF assms(1)
          lt_step_apply [of _ key h off len k "fst (lt_apply (fst s) key h off len k)"]]) simp
  with assms show ?thesis
    by (auto simp: applyLock_linux_def Let_def split: if_splits option.splits prod.splits sum.splits)
qed

section \<open>Parked requests\<close>

lemma awaitLock_completes:
  "WaitCancelled \<in> set events \<or> WaitTimeout \<in> set events \<Longrightarrow>
    \<exists>st s'. awaitLock applyLock snap h ops s events = (Some st, s')"
proof (induction events arbitrary: s)
  case (Cons e es)
  show ?case
  proof (cases e)
    case (Released s'')
    with Cons.prems Cons.IH [of s''] show ?thesis
      by (subst awaitLock.simps) (auto split: prod.splits option.splits)
  qed (subst awaitLock.simps, auto split: prod.splits option.splits)+
qed simp

text \<open>
  However often it retries, a parked request ends in one attempt: it reports success
  exactly when that attempt was granted, and any other status when it was refused.
\<close>

lemma awaitLock_last_attempt:
  assumes "awaitLock applyLock snap h ops s events = (Some st, s')"
  obtains x res where "x = s \<or> Released x \<in> set events"
    and "applyLockOps applyLock snap h ops x = (res, s')" and "res = None \<longleftrightarrow> st = StatusSuccess"
  using assms
proof (induction events arbitrary: s)
  case Nil
  have "lockStatus err \<noteq> StatusSuccess" for err by (cases err) simp_all
  with Nil.prems(2) show ?case
    by (subst (asm) awaitLock.simps)
      (auto split: prod.splits option.splits if_splits intro!: Nil.prems(1) [of s])
next
  case (Cons e es)
  have ls: "lockStatus err \<noteq> StatusSuccess" for err by (cases err) simp_all
  note here = Cons.prems(1) [of s]
  show ?case
  proof (cases "\<exists>s'' s1. e = Released s'' \<and> awaitLock applyLock snap h ops s'' es = (Some st, s')")
    case True
    then show ?thesis
      using Cons.prems(1) by (auto elim!: Cons.IH [rotated])
  next
    case False
    with Cons.prems(2) ls show ?thesis
      by (subst (asm) awaitLock.simps)
        (auto split: prod.splits option.splits if_splits wait_event.splits intro!: here)
  qed
qed

lemma startLockWait_bound:
  "startLockWait pending = (ok, pending') \<Longrightarrow> pending \<le> maxPendingLockWaits \<Longrightarrow>
    pending' \<le> maxPendingLockWaits \<and> (ok \<longleftrightarrow> pending' = pending + 1) \<and> (\<not> ok \<longrightarrow> pending' = pending)"
  by (auto simp: startLockWait_def split: if_splits)

end
