(* ===== verification/Lock_Properties.thy ===== *)
theory Lock_Properties
  imports Lock_Manager
begin

text \<open>
  What the byte-range locks promise a client, stated over the tables the server can
  reach from the empty one: mutual exclusion, the caps, the grant decision, the READ
  and WRITE guard, the release broadcast, and the atomicity of a LOCK request.
\<close>

abbreviation reachable_locks :: "lockTable \<Rightarrow> bool" where
  "reachable_locks l \<equiv> rtranclp lt_step newLockTable l"

lemma reachable_locks_inv: "reachable_locks l \<Longrightarrow> lt_inv l"
  by (rule guarded_tables.Inv_reachable) simp_all

lemma reachable_locks_wf: "reachable_locks l \<Longrightarrow> wf_table (lt_t l)"
  by (auto dest: reachable_locks_inv simp: lt_inv_def)

lemma reachable_locks_ranges: "reachable_locks l \<Longrightarrow> wf_ranges (ranges_of (lt_t l) key)"
  by (auto dest: reachable_locks_wf simp: wf_table_def)

lemma reachable_locks_apply:
  "reachable_locks l \<Longrightarrow> reachable_locks (snd (lt_apply l key owner start len kind))"
  by (rule rtranclp.rtrancl_into_rtrancl, assumption,
      rule lt_step_apply [of l key owner start len kind "fst (lt_apply l key owner start len kind)"]) simp

text \<open>Tables with the same ranges have the same counter.\<close>

lemma same_ranges_same_count:
  assumes "wf_table t" and "wf_table t'" and eq: "\<forall>key. set (ranges_of t' key) = set (ranges_of t key)"
  shows "rt_n t' = rt_n t"
proof -
  have dom: "dom (rt_locks t) = {key. set (ranges_of t key) \<noteq> {}}" if "wf_table t" for t
  proof -
    have "rt_locks t key \<noteq> Some []" for key using that by (simp add: wf_table_def)
    then have "key \<in> dom (rt_locks t) \<longleftrightarrow> set (ranges_of t key) \<noteq> {}" for key
      by (cases "rt_locks t key") (auto simp: ranges_of_def)
    then show ?thesis by blast
  qed
  have "length (ranges_of t' key) = length (ranges_of t key)" for key
    using assms unfolding wf_table_def wf_ranges_def by (metis distinct_card)
  then show ?thesis
    using assms dom [OF assms(1)] dom [OF assms(2)] by (simp add: wf_table_def)
qed

text \<open>The ranges of the handle's file and those of all others are the whole table.\<close>

lemma same_views_same_ranges:
  assumes "other_files keyFor l' h = other_files keyFor l h" and "file_view keyFor l' h = file_view keyFor l h"
  shows "set (ranges_of (lt_t l') key) = set (ranges_of (lt_t l) key)"
proof (cases "keyFor h = Inr key")
  case True
  with assms(2) show ?thesis by (simp add: file_view_def)
next
  case False
  with fun_cong [OF assms(1), of key] show ?thesis
    by (cases "keyFor h") (auto simp: other_files_def split: if_splits)
qed

lemma op_spec_other: "lr_owner r \<noteq> h \<Longrightarrow> r \<in> op_spec h V op \<longleftrightarrow> r \<in> V"
  by (auto simp: op_spec_def lock_spec_def)

section \<open>Mutual exclusion and bounds\<close>

text \<open>C1: In every lock table the server can reach, two ranges on one file that belong to
  different handles and have a byte in common are both shared locks.\<close>

theorem no_conflicting_locks:
  assumes "reachable_locks l" and "r \<in> set (ranges_of (lt_t l) key)" and "s \<in> set (ranges_of (lt_t l) key)"
    and "lr_owner r \<noteq> lr_owner s"
    and "range_bytes (lr_start r) (lr_length r) \<inter> range_bytes (lr_start s) (lr_length s) \<noteq> {}"
  shows "\<not> lr_exclusive r \<and> \<not> lr_exclusive s"
  using reachable_locks_ranges [OF assms(1), of key] assms(2-)
  unfolding wf_ranges_def compatible_def rangesOverlap_iff by blast

text \<open>The table stays within its caps (4096 ranges per file, 1024 per handle and file),
  holds no range twice and none of length zero, and the published count is the number
  of ranges over all files.\<close>

theorem lock_table_bounded:
  assumes "reachable_locks l"
  shows "length (ranges_of (lt_t l) key) \<le> 4096
    \<and> length (filter (\<lambda>r. lr_owner r = owner) (ranges_of (lt_t l) key)) \<le> 1024
    \<and> distinct (ranges_of (lt_t l) key) \<and> (\<forall>r \<in> set (ranges_of (lt_t l) key). lr_length r \<noteq> 0)
    \<and> lt_n l = (\<Sum>k \<in> dom (rt_locks (lt_t l)). int (length (ranges_of (lt_t l) k)))"
  using reachable_locks_ranges [OF assms, of key] reachable_locks_inv [OF assms]
  by (simp add: wf_ranges_def owned_by_def maxLockRangesPerFile_def maxLockRangesPerOwner_def lt_inv_def wf_table_def)

text \<open>C32: A lock request for a non-empty range is decided and recorded as SMB2 asks. When the handle already holds
  exactly that range it is granted and nothing is added; it is refused as a conflict exactly when another handle holds a
  range with a common byte and one of the two is exclusive, and refused for capacity when a cap is
  reached, and then nothing changes; otherwise it is granted and the range is appended to those of the file.
  The ranges of every other file stay as they are.\<close>

theorem lock_grant_decision:
  assumes "reachable_locks l" and "len \<noteq> 0" and "kind \<noteq> lockUnlock"
    and "lt_apply l key owner start len kind = (err, l')"
    and "r = \<lparr>lr_owner = owner, lr_start = start, lr_length = len, lr_exclusive = (kind = lockExclusive)\<rparr>"
    and "rs = ranges_of (lt_t l) key"
  shows "(err, ranges_of (lt_t l') key) =
      (if r \<in> set rs then (None, rs)
       else if \<exists>s \<in> set rs. lr_owner s \<noteq> owner \<and> range_bytes start len \<inter> range_bytes (lr_start s) (lr_length s) \<noteq> {}
            \<and> (kind = lockExclusive \<or> lr_exclusive s) then (Some errLockConflict, rs)
       else if length rs \<ge> 4096 \<or> length (filter (\<lambda>r. lr_owner r = owner) rs) \<ge> 1024 then (Some errLockLimit, rs)
       else (None, rs @ [r]))
    \<and> (\<forall>k. k \<noteq> key \<longrightarrow> ranges_of (lt_t l') k = ranges_of (lt_t l) k)"
proof -
  note run = lt_apply_split [OF assms(4)]
  have conflict: "(\<exists>s \<in> set rs. \<not> compatible r s) \<longleftrightarrow>
    (\<exists>s \<in> set rs. lr_owner s \<noteq> owner \<and> range_bytes start len \<inter> range_bytes (lr_start s) (lr_length s) \<noteq> {}
          \<and> (kind = lockExclusive \<or> lr_exclusive s))"
    by (auto simp: assms(5) compatible_def rangesOverlap_iff)
  have "(err, lt_t l') = (if r \<in> set rs then (None, lt_t l) else if \<exists>s \<in> set rs. \<not> compatible r s then (Some errLockConflict, lt_t l)
     else if length rs \<ge> 4096 \<or> length (filter (\<lambda>r. lr_owner r = owner) rs) \<ge> 1024 then (Some errLockLimit, lt_t l)
     else (None, (lt_t l)\<lparr>rt_locks := (rt_locks (lt_t l))(key \<mapsto> rs @ [r]), rt_n := rt_n (lt_t l) + 1\<rparr>))"
    using rt_apply_lock [OF reachable_locks_wf [OF assms(1)] assms(2,3), of key owner start] run
    unfolding assms(5,6) Let_def owned_by_def maxLockRangesPerFile_def maxLockRangesPerOwner_def by simp
  then have "(err, ranges_of (lt_t l') key) = (if r \<in> set rs then (None, rs)
     else if \<exists>s \<in> set rs. \<not> compatible r s then (Some errLockConflict, rs)
     else if length rs \<ge> 4096 \<or> length (filter (\<lambda>r. lr_owner r = owner) rs) \<ge> 1024 then (Some errLockLimit, rs)
     else (None, rs @ [r]))"
    by (auto simp: assms(6) ranges_of_def split: if_splits)
  with rt_apply_other_key [OF run] show ?thesis unfolding conflict by blast
qed

text \<open>The guard on READ and WRITE (with its fast path for an empty table) fires exactly when a
  different handle holds a range with a byte of the transfer and the lock is exclusive
  or the transfer is a write.\<close>

theorem io_guard_exact:
  assumes "reachable_locks l"
  shows "conflictsWith keyFor l h off len write \<longleftrightarrow>
    (\<exists>key r. keyFor h = Inr key \<and> r \<in> set (ranges_of (lt_t l) key) \<and> lr_owner r \<noteq> h
       \<and> range_bytes off len \<inter> range_bytes (lr_start r) (lr_length r) \<noteq> {} \<and> (write \<or> lr_exclusive r))"
proof -
  note inv = reachable_locks_inv [OF assms]
  have "len = 0 \<Longrightarrow> range_bytes off len = {}" by (simp add: range_bytes_def)
  then show ?thesis
    using lt_empty_ranges [OF inv]
    by (cases "keyFor h")
      (auto simp: conflictsWith_def lt_conflict_eq [OF inv] rt_conflict_def conflict_scan_iff rangesOverlap_iff)
qed

section \<open>The release broadcast\<close>

text \<open>No wake-up is lost: as long as the channel a waiter took from \<^verbatim>\<open>releaseSignal\<close> is open,
  whatever operations other handles performed in between, every range that was held
  when it subscribed is still held.\<close>

theorem no_lost_wakeup:
  assumes "reachable_locks l" and "releaseSignal l = (ch, l1)" and "rtranclp lt_step l1 l2"
    and "ch \<notin> set (lt_closed l2)"
  shows "set (ranges_of (lt_t l) key) \<subseteq> set (ranges_of (lt_t l2) key)"
proof -
  have "lt_t l1 = lt_t l" using assms(2) by (auto simp: releaseSignal_def split: option.splits)
  moreover have "waiting_on ch (\<lambda>k. set (ranges_of (lt_t l1) k)) l1"
    using lt_inv_signal [OF reachable_locks_inv [OF assms(1)] assms(2)] by (simp add: waiting_on_def)
  ultimately show ?thesis
    using waiting_on_steps [OF assms(3), of ch "\<lambda>k. set (ranges_of (lt_t l1) k)"] assms(4)
    unfolding waiting_on_def by simp
qed

section \<open>A LOCK request is atomic\<close>

text \<open>C5: A failed LOCK request rolls back on the table-based lock manager (that of darwin), when no other handle's
  request falls between its elements: if any element fails, the lock table holds on every file exactly the
  ranges it held before the request, and the published count is unchanged.\<close>

theorem failed_lock_request_rolls_back:
  assumes "reachable_locks tbl"
    and "applyLockOps (applyLock_darwin keyFor) (snapshotRanges keyFor) h ops tbl = (Some (i, err), tbl')"
  shows "(\<forall>key. set (ranges_of (lt_t tbl') key) = set (ranges_of (lt_t tbl) key)) \<and> lt_n tbl' = lt_n tbl"
proof -
  note inv = reachable_locks_inv [OF assms(1)]
  note same = darwin.failed_request_changes_nothing [OF inv assms(2)]
  have sets: "\<forall>key. set (ranges_of (lt_t tbl') key) = set (ranges_of (lt_t tbl) key)"
    using same same_views_same_ranges by blast
  moreover have "wf_table (lt_t tbl')" "lt_n tbl' = rt_n (lt_t tbl')" "lt_n tbl = rt_n (lt_t tbl)"
    using same inv by (auto simp: lt_inv_def)
  ultimately show ?thesis
    using same_ranges_same_count [OF reachable_locks_wf [OF assms(1)]] by simp
qed

text \<open>When a LOCK request succeeds, the ranges on the file are those obtained by applying its
  elements in order (an unlock removes the handle's equal ranges, a lock adds one),
  other files are untouched, and ranges of other handles survive.\<close>

theorem granted_lock_request_applies_all:
  assumes "reachable_locks tbl" and "keyFor h = Inr key"
    and "applyLockOps (applyLock_darwin keyFor) (snapshotRanges keyFor) h ops tbl = (None, tbl')"
  shows "set (ranges_of (lt_t tbl') key) = foldl (op_spec h) (set (ranges_of (lt_t tbl) key)) ops
    \<and> (\<forall>k. k \<noteq> key \<longrightarrow> ranges_of (lt_t tbl') k = ranges_of (lt_t tbl) k)
    \<and> (\<forall>r. lr_owner r \<noteq> h \<longrightarrow> (r \<in> set (ranges_of (lt_t tbl') key)) = (r \<in> set (ranges_of (lt_t tbl) key)))"
proof -
  have fold: "r \<in> foldl (op_spec h) V ops \<longleftrightarrow> r \<in> V" if "lr_owner r \<noteq> h" for r V
    using that by (induction ops arbitrary: V) (simp_all add: op_spec_other)
  have "\<exists>key. keyFor h = Inr key" using assms(2) by simp
  note granted = darwin.granted_request [OF reachable_locks_inv [OF assms(1)] this assms(3)]
  have view: "set (ranges_of (lt_t tbl') key) = foldl (op_spec h) (set (ranges_of (lt_t tbl) key)) ops"
    using granted assms(2) by (simp add: file_view_def)
  have "ranges_of (lt_t tbl') k = ranges_of (lt_t tbl) k" if "k \<noteq> key" for k
  proof -
    have "(ranges_of (lt_t tbl'))(key := []) = (ranges_of (lt_t tbl))(key := [])"
      using granted assms(2) by (simp add: other_files_def)
    from fun_cong [OF this, of k] that show ?thesis by simp
  qed
  with view fold show ?thesis by simp
qed

text \<open>A parked LOCK request that is cancelled or times out is completed, whatever releases it was
  woken by before, and a completion other than success leaves every file's ranges as
  its last attempt found them.\<close>

theorem parked_lock_completes:
  assumes "reachable_locks tbl" and "\<forall>x. Released x \<in> set events \<longrightarrow> reachable_locks x"
    and "WaitCancelled \<in> set events \<or> WaitTimeout \<in> set events"
  shows "\<exists>st tbl'. awaitLock (applyLock_darwin keyFor) (snapshotRanges keyFor) h ops tbl events = (Some st, tbl')
    \<and> (st \<noteq> StatusSuccess \<longrightarrow> (\<exists>x. (x = tbl \<or> Released x \<in> set events)
        \<and> (\<forall>key. set (ranges_of (lt_t tbl') key) = set (ranges_of (lt_t x) key))))"
proof -
  obtain st tbl' where run: "awaitLock (applyLock_darwin keyFor) (snapshotRanges keyFor) h ops tbl events = (Some st, tbl')"
    using awaitLock_completes [OF assms(3)] by blast
  obtain x res where x: "x = tbl \<or> Released x \<in> set events"
    "applyLockOps (applyLock_darwin keyFor) (snapshotRanges keyFor) h ops x = (res, tbl')" "res = None \<longleftrightarrow> st = StatusSuccess"
    by (rule awaitLock_last_attempt [OF run])
  have "\<forall>key. set (ranges_of (lt_t tbl') key) = set (ranges_of (lt_t x) key)" if ns: "st \<noteq> StatusSuccess"
  proof -
    have inv: "lt_inv x" using x(1) assms(1,2) reachable_locks_inv by blast
    obtain i err where "res = Some (i, err)" using x(3) ns by (cases res) auto
    with x(2) have "applyLockOps (applyLock_darwin keyFor) (snapshotRanges keyFor) h ops x = (Some (i, err), tbl')" by simp
    from darwin.failed_request_changes_nothing [OF inv this] show ?thesis
      using same_views_same_ranges by blast
  qed
  with run x(1) show ?thesis by blast
qed

section \<open>The linux manager\<close>

text \<open>For a non-empty SMB2 range whose offset a file can reach, the \<^verbatim>\<open>fcntl\<close> range handed to the
  kernel covers exactly the bytes of the request that lie below \<open>2 ^ 63\<close>; an offset past
  that is refused.\<close>

theorem flock_range_exact:
  assumes "len \<noteq> 0"
  shows "(unat offset > MaxInt64 \<longrightarrow> flockRange offset len = None)
    \<and> (unat offset \<le> MaxInt64 \<longrightarrow> (\<exists>start l. flockRange offset len = Some (start, l)
        \<and> fcntl_bytes start l = {x. x < 2 ^ 63 \<and> unat offset \<le> x \<and> x < unat offset + unat len}))"
proof -
  have "\<exists>start l. flockRange offset len = Some (start, l)" if "unat offset \<le> MaxInt64"
    using that by (simp add: flockRange_def Let_def)
  then show ?thesis
    using flockRange_bytes [OF assms] by (fastforce simp: flockRange_def)
qed

text \<open>
  A kernel for one byte range: each handle has at most one lock on it, a new lock of
  the same handle replaces the old one, and another handle's lock conflicts when
  either is a write lock.
\<close>

fun one_range_ofd :: "(open_ref \<rightharpoonup> flock_type) \<Rightarrow> open_ref \<Rightarrow> flock \<Rightarrow> nat option \<times> (open_ref \<rightharpoonup> flock_type)" where
  "one_range_ofd k h fl =
     (if fl_Type fl = F_UNLCK then (None, k(h := None))
      else if (\<exists>h' \<in> {0, 1, 2}. h' \<noteq> h \<and> (k h' = Some F_WRLCK \<or> fl_Type fl = F_WRLCK \<and> k h' \<noteq> None))
        then (Some EAGAIN, k)
      else (None, k(h \<mapsto> fl_Type fl)))"

text \<open>On linux the shadow table can lose a lock the kernel granted. Handle 1 takes a range
  exclusively and then again as shared (the kernel converts its lock, the table keeps
  both entries); handle 2 then gets the shared lock from the kernel, the table refuses
  to record it, and the refusal is dropped: handle 2 has no entry, and its own read is
  reported as a conflict.\<close>

theorem linux_shadow_drops_a_granted_lock:
  "let key = \<lparr>fk_dev = 1, fk_ino = 7\<rparr>; keyFor = (\<lambda>_. Inr key);
       lock = (\<lambda>s h k. applyLock_linux one_range_ofd keyFor s h 0 10 k);
       (e1, s1) = lock (newLockTable, (\<lambda>_. None)) 1 lockExclusive;
       (e2, s2) = lock s1 1 lockShared;
       (e3, s3) = lock s2 2 lockShared
   in e1 = None \<and> e2 = None \<and> e3 = None \<and> snd s3 2 = Some F_RDLCK
     \<and> snapshot (fst s3) key 2 = [] \<and> conflictsWith keyFor (fst s3) 2 0 10 False"
  by (simp add: applyLock_linux_def flockRange_def lt_apply_def rt_apply_def newLockTable_def newRangeTable_def
      ranges_of_def atCapacity_def publish_def snapshot_def conflictsWith_def lt_conflict_def lt_empty_def
      rt_conflict_def sameRange_def rangesOverlap_def rangeEnd_def Let_def
      maxLockRangesPerFile_def maxLockRangesPerOwner_def)

section \<open>Witnesses\<close>

text \<open>Two handles with overlapping shared locks on one file.\<close>

abbreviation wkey :: fileKey where "wkey \<equiv> \<lparr>fk_dev = 1, fk_ino = 7\<rparr>"

definition two_shared :: lockTable where
  "two_shared = snd (lt_apply (snd (lt_apply newLockTable wkey 1 0 10 lockShared)) wkey 2 5 10 lockShared)"

lemma two_shared_reachable: "reachable_locks two_shared"
  unfolding two_shared_def by (intro reachable_locks_apply) simp

lemma two_shared_eq:
  "two_shared = \<lparr>lt_t = \<lparr>rt_locks = (\<lambda>_. None)(wkey \<mapsto> [new_range 1 0 10 False, new_range 2 5 10 False]), rt_n = 2\<rparr>,
     lt_n = 2, lt_released = None, lt_closed = [], lt_next = 0\<rparr>"
  by (simp add: two_shared_def lt_apply_def rt_apply_def newLockTable_def newRangeTable_def ranges_of_def publish_def
      sameRange_def rangesOverlap_def rangeEnd_def Let_def maxLockRangesPerFile_def maxLockRangesPerOwner_def)

lemma two_shared_ranges: "ranges_of (lt_t two_shared) wkey = [new_range 1 0 10 False, new_range 2 5 10 False]"
  by (simp add: two_shared_eq ranges_of_def)

theorem no_conflicting_locks_witness:
  "\<not> lr_exclusive (new_range 1 0 10 False) \<and> \<not> lr_exclusive (new_range 2 5 10 False)"
proof (rule no_conflicting_locks [OF two_shared_reachable, of _ wkey])
  have "(7::nat) \<in> range_bytes 0 10 \<inter> range_bytes 5 10" by (simp add: range_bytes_def)
  then show "range_bytes (lr_start (new_range 1 0 10 False)) (lr_length (new_range 1 0 10 False)) \<inter>
    range_bytes (lr_start (new_range 2 5 10 False)) (lr_length (new_range 2 5 10 False)) \<noteq> {}"
    by auto
qed (simp_all add: two_shared_ranges)

theorem lock_grant_decision_witness:
  "\<exists>l'. lt_apply two_shared wkey 3 8 4 lockExclusive = (Some errLockConflict, l')
     \<and> ranges_of (lt_t l') wkey = ranges_of (lt_t two_shared) wkey"
proof -
  obtain err l' where run: "lt_apply two_shared wkey 3 8 4 lockExclusive = (err, l')" by fastforce
  have "(9::nat) \<in> range_bytes 8 4 \<inter> range_bytes 0 10" by (simp add: range_bytes_def)
  then have "range_bytes 8 4 \<inter> range_bytes 0 10 \<noteq> {}" by blast
  then show ?thesis
    using lock_grant_decision [OF two_shared_reachable _ _ run refl refl] run by (simp add: two_shared_ranges)
qed

text \<open>Handle 1 unlocks its range and asks for one that handle 2 blocks: the unlock is undone.\<close>

definition bad_request :: "lockOp list" where
  "bad_request =
     [\<lparr>op_el = \<lparr>le_Offset = 0, le_Length = 10, le_Flags = 4\<rparr>, op_kind = lockUnlock\<rparr>,
      \<lparr>op_el = \<lparr>le_Offset = 5, le_Length = 2, le_Flags = 2\<rparr>, op_kind = lockExclusive\<rparr>]"

lemmas run_locks = applyLockOps_def applyLock_darwin_def snapshotRanges_def snapshot_def lt_apply_def
  rt_apply_def store_filtered_def ranges_of_def publish_def sameRange_def rangesOverlap_def rangeEnd_def
  Let_def maxLockRangesPerFile_def maxLockRangesPerOwner_def restoreLocks_def range_kind_def

lemma bad_request_fails:
  "\<exists>tbl'. applyLockOps (applyLock_darwin (\<lambda>_. Inr wkey)) (snapshotRanges (\<lambda>_. Inr wkey)) 1 bad_request two_shared
     = (Some (1, errLockConflict), tbl')"
  by (simp add: run_locks two_shared_eq bad_request_def)

theorem failed_lock_request_rolls_back_witness:
  "\<exists>tbl'. applyLockOps (applyLock_darwin (\<lambda>_. Inr wkey)) (snapshotRanges (\<lambda>_. Inr wkey)) 1 bad_request two_shared
     = (Some (1, errLockConflict), tbl') \<and> lt_n tbl' = lt_n two_shared"
  using bad_request_fails failed_lock_request_rolls_back [OF two_shared_reachable] by blast

end
