(* ===== verification/Wire_Properties.thy ===== *)
theory Wire_Properties
  imports Nbss Go_Text Smb2_Message_Props Lock_Properties
begin

text \<open>
  What crosses the socket is what was meant: frames, headers, names and LOCK requests
  survive the trip, and the LOCK handler answers every body.
\<close>

text \<open>Any sequence of payloads within the 24-bit length limit, written as NetBIOS frames to one stream, is
  read back as the same sequence whatever follows it on the stream.\<close>

theorem frame_stream_roundtrip:
  assumes "list_all (\<lambda>p. length p \<le> 0xFFFFFF) ps"
  shows "\<exists>w. write_frames [] ps = Inr w \<and> parse_n frame_dec (length ps) (w @ rest) = Some (ps, rest)"
  using nbss.parse_n_enc [OF assms, of rest] by (simp add: write_frames_eq [OF assms])

text \<open>A frame payload of more than the 24-bit limit is refused by the writer, and a reader using the
  server's 16 MiB limit never rejects a frame for its size: its three length bytes cannot
  express more.\<close>

theorem frame_size_limits:
  "(length p > 0xFFFFFF \<longrightarrow> WriteFrame w p = Inl (ErrFrameTooLarge (length p)))
    \<and> ReadFrame r MaxFrameSize \<noteq> Inl (ErrFrameTooLarge n)"
proof -
  have "\<not> frame_length hdr > MaxFrameSize" for hdr
    using frame_length_bound [of hdr] by (simp add: MaxFrameSize_def word_less_nat_alt not_less)
  moreover have "ReadFull a k \<noteq> Inl (ErrFrameTooLarge n)" for a k
    by (simp add: ReadFull_def)
  ultimately have "ReadFrame r MaxFrameSize \<noteq> Inl (ErrFrameTooLarge n)"
    by (auto simp: ReadFrame_def Let_def split: sum.splits)
  then show ?thesis by (simp add: WriteFrame_def)
qed

text \<open>A header encoded into a buffer decodes to the same header and leaves everything after its 64 bytes
  alone; re-encoding a decoded header changes nothing but the reserved bytes 32 to 35.\<close>

theorem header_roundtrip:
  assumes "64 \<le> length out" and "wf_header h"
  shows "\<exists>out'. EncodeHeader out h = Some (Inr out') \<and> DecodeHeader out' = Some (Inr h) \<and> drop 64 out' = drop 64 out
    \<and> (\<forall>b h'. DecodeHeader b = Some (Inr h') \<longrightarrow> EncodeHeader b h' = Some (Inr (patch 32 (zeros 4) b)))"
  by (rule EncodeHeader_roundtrip [OF assms]) (auto intro: EncodeHeader_DecodeHeader)

text \<open>A file name made of valid Unicode code points, sent to a client as UTF-16LE, decodes to the same
  UTF-8 name.\<close>

theorem name_roundtrip:
  assumes "list_all valid_rune rs"
  shows "decodeUTF16LE (utf16leNotify (runes_to_string rs)) = runes_to_string rs"
  using assms by (rule decodeUTF16LE_notify)

text \<open>A LOCK request in wire form, followed by anything, decodes to exactly its elements.\<close>

theorem lock_request_decodes:
  assumes "length (lr_FileID r) = 16" and "lr_Locks r \<noteq> []" and "length (lr_Locks r) < 2 ^ 16"
  shows "DecodeLockRequest (lock_request_wire r @ rest) = Some (Inr r)"
  using assms by (rule DecodeLockRequest_wire)

text \<open>The ways the LOCK handler ends.\<close>

lemma handleLock_cases:
  assumes "handleLock applyLock snap getOpen hasFile configured body s pending = Some (ans, s', pending')"
  obtains (refused) st where "ans = LockReply st" "s' = s" "pending' = pending" "st \<noteq> StatusSuccess"
  | (applied) h ops where "applyLockOps applyLock snap h ops s = (None, s')" "ans = LockReply StatusSuccess" "pending' = pending"
  | (failed) h ops idx err where "applyLockOps applyLock snap h ops s = (Some (idx, err), s')"
      "ans = LockReply (lockStatus err)" "pending' = pending"
  | (parked) h ops idx where "applyLockOps applyLock snap h ops s = (Some (idx, errLockConflict), s')"
      "ans = LockParked ops" "blocking (ops ! idx)" "pending' = pending + 1" "pending < maxPendingLockWaits"
  using assms
  by (auto simp: handleLock_def startLockWait_def split: option.splits sum.splits if_splits prod.splits)

lemma lockStatus_not_success: "lockStatus err \<noteq> StatusSuccess"
  by (cases err) simp_all

lemma handleLock_no_panic: "handleLock applyLock snap getOpen hasFile configured body s pending \<noteq> None"
  using DecodeLockRequest_no_panic [of body]
  by (auto simp: handleLock_def split: option.splits sum.splits if_splits prod.splits bool.splits)

text \<open>The LOCK handler answers every body without a panic; it changes the lock table only when it answers
  success, parks at most 256 requests, and parks only a request whose refused element
  asked to wait.\<close>

theorem lock_handler_sound:
  assumes "reachable_locks tbl" and "pending \<le> 256"
  shows "\<exists>ans tbl' pending'. handleLock (applyLock_darwin keyFor) (snapshotRanges keyFor) getOpen hasFile configured body tbl pending
      = Some (ans, tbl', pending')
    \<and> (ans \<noteq> LockReply StatusSuccess \<longrightarrow> (\<forall>key. set (ranges_of (lt_t tbl') key) = set (ranges_of (lt_t tbl) key)))
    \<and> pending' \<le> 256
    \<and> (\<forall>ops. ans = LockParked ops \<longrightarrow> pending' = pending + 1 \<and> (\<exists>idx. blocking (ops ! idx)))"
proof -
  obtain ans tbl' pending' where run: "handleLock (applyLock_darwin keyFor) (snapshotRanges keyFor) getOpen hasFile configured body tbl pending
      = Some (ans, tbl', pending')"
    using handleLock_no_panic by (metis option.exhaust prod_cases3)
  note inv = reachable_locks_inv [OF assms(1)]
  have rolled: "set (ranges_of (lt_t tbl') key) = set (ranges_of (lt_t tbl) key)"
    if "applyLockOps (applyLock_darwin keyFor) (snapshotRanges keyFor) h ops tbl = (Some (idx, err), tbl')" for h ops idx err key
    using darwin.failed_request_changes_nothing [OF inv that] same_views_same_ranges by blast
  from run show ?thesis
  proof (cases rule: handleLock_cases)
    case refused
    with run assms(2) show ?thesis by auto
  next
    case applied
    with run assms(2) show ?thesis by auto
  next
    case (failed h ops idx err)
    with run assms(2) rolled [OF failed(1)] show ?thesis by auto
  next
    case (parked h ops idx)
    with run rolled [OF parked(1)] show ?thesis by (auto simp: maxPendingLockWaits_def)
  qed
qed

section \<open>Witnesses\<close>

abbreviation wheader :: header where
  "wheader \<equiv> \<lparr>h_CreditCharge = 1, h_Status = 0, h_Command = 10, h_CreditResponse = 1, h_Flags = 0, h_NextCommand = 0,
     h_MessageID = 5, h_TreeID = 2, h_SessionID = 3, h_Signature = zeros 16\<rparr>"

end
