(* ===== verification/Access_Mask.thy ===== *)
theory Access_Mask
  imports Gosamba_Prelude
begin

text \<open>
  The access-mask arithmetic of \<^verbatim>\<open>internal/parent/maxaccess.go\<close> and the credit policy of
  \<^verbatim>\<open>internal/parent/credits.go\<close>. The answer of \<^verbatim>\<open>faccessat\<close> is an argument: an errno,
  or none for success.
\<close>

abbreviation (input) accFileReadData :: u32 where "accFileReadData \<equiv> 0x00000001"
abbreviation (input) accFileWriteData :: u32 where "accFileWriteData \<equiv> 0x00000002"
abbreviation (input) accFileAppendData :: u32 where "accFileAppendData \<equiv> 0x00000004"
abbreviation (input) accFileReadEA :: u32 where "accFileReadEA \<equiv> 0x00000008"
abbreviation (input) accFileWriteEA :: u32 where "accFileWriteEA \<equiv> 0x00000010"
abbreviation (input) accFileExecute :: u32 where "accFileExecute \<equiv> 0x00000020"
abbreviation (input) accFileDeleteChild :: u32 where "accFileDeleteChild \<equiv> 0x00000040"
abbreviation (input) accFileReadAttributes :: u32 where "accFileReadAttributes \<equiv> 0x00000080"
abbreviation (input) accFileWriteAttributes :: u32 where "accFileWriteAttributes \<equiv> 0x00000100"
abbreviation (input) accDelete :: u32 where "accDelete \<equiv> 0x00010000"
abbreviation (input) accReadControl :: u32 where "accReadControl \<equiv> 0x00020000"
abbreviation (input) accWriteDAC :: u32 where "accWriteDAC \<equiv> 0x00040000"
abbreviation (input) accWriteOwner :: u32 where "accWriteOwner \<equiv> 0x00080000"
abbreviation (input) accSynchronize :: u32 where "accSynchronize \<equiv> 0x00100000"

definition accessFileAllAccess :: u32 where
  "accessFileAllAccess = 0x001F01FF"

definition accessReadOnlyShare :: u32 where
  "accessReadOnlyShare = 0x001200A9"

definition accessWriteBits :: u32 where
  "accessWriteBits = accFileWriteData OR accFileAppendData OR accFileWriteEA OR accFileWriteAttributes OR
     accFileDeleteChild OR accDelete OR accWriteDAC OR accWriteOwner"

definition shareAccessCeiling :: "bool \<Rightarrow> u32" where
  "shareAccessCeiling readOnly = (if readOnly then accessReadOnlyShare else accessFileAllAccess)"

definition narrowAccessMask :: "u32 \<Rightarrow> bool \<Rightarrow> bool \<Rightarrow> bool \<Rightarrow> u32" where
  "narrowAccessMask ceiling readable writable executable =
     (let granted = ceiling;
          granted = (if \<not> writable then granted AND NOT accessWriteBits else granted);
          granted = (if \<not> executable then granted AND NOT accFileExecute else granted);
          granted = (if \<not> readable then granted AND NOT (accFileReadData OR accFileReadEA) else granted)
      in granted)"

datatype access_mode = R_OK | W_OK | X_OK

abbreviation (input) EPERM :: nat where "EPERM \<equiv> 1"
abbreviation (input) EACCES' :: nat where "EACCES' \<equiv> 13"
abbreviation (input) EROFS :: nat where "EROFS \<equiv> 30"

definition pathPermits :: "(gostring \<Rightarrow> access_mode \<Rightarrow> nat option) \<Rightarrow> gostring \<Rightarrow> access_mode \<Rightarrow> bool" where
  "pathPermits faccessat path mode =
     (case faccessat path mode of
        None \<Rightarrow> True
      | Some err \<Rightarrow> \<not> (err = EACCES' \<or> err = EPERM \<or> err = EROFS))"

definition maximalAccess :: "(gostring \<Rightarrow> access_mode \<Rightarrow> nat option) \<Rightarrow> gostring \<Rightarrow> bool \<Rightarrow> u32" where
  "maximalAccess faccessat path shareReadOnly =
     (let ceiling = shareAccessCeiling shareReadOnly;
          writable = (ceiling AND accessWriteBits \<noteq> 0 \<and> pathPermits faccessat path W_OK)
      in narrowAccessMask ceiling (pathPermits faccessat path R_OK) writable (pathPermits faccessat path X_OK))"

definition creditWindow :: u16 where
  "creditWindow = 512"

definition grantCredits :: "u16 \<Rightarrow> u16 \<Rightarrow> u16" where
  "grantCredits creditCharge reqCredit =
     (let floor = creditCharge;
          floor = (if floor < 1 then 1 else floor);
          g = reqCredit;
          g = (if g < floor then floor else g);
          g = (if g > creditWindow then creditWindow else g);
          g = (if g < floor then floor else g)
      in g)"

section \<open>What is reported\<close>

lemma accessWriteBits_value: "accessWriteBits = 0x000D0156"
  by (simp add: accessWriteBits_def)

text \<open>The maximal-access mask reported for an object never exceeds the share's ceiling, carries no
  write right on a read-only share or where the kernel denies write access, no read-data
  right where it denies reading and no execute right where it denies execution, and
  always carries READ_CONTROL, SYNCHRONIZE and FILE_READ_ATTRIBUTES.\<close>

theorem maximal_access_sound:
  "maximalAccess faccessat path ro AND NOT (shareAccessCeiling ro) = 0
    \<and> (ro \<or> \<not> pathPermits faccessat path W_OK \<longrightarrow> maximalAccess faccessat path ro AND accessWriteBits = 0)
    \<and> (\<not> pathPermits faccessat path R_OK \<longrightarrow> maximalAccess faccessat path ro AND accFileReadData = 0)
    \<and> (\<not> pathPermits faccessat path X_OK \<longrightarrow> maximalAccess faccessat path ro AND accFileExecute = 0)
    \<and> maximalAccess faccessat path ro AND (accReadControl OR accSynchronize OR accFileReadAttributes)
        = accReadControl OR accSynchronize OR accFileReadAttributes"
  by (cases ro; cases "pathPermits faccessat path R_OK"; cases "pathPermits faccessat path W_OK";
      cases "pathPermits faccessat path X_OK")
    (simp_all add: maximalAccess_def narrowAccessMask_def shareAccessCeiling_def accessFileAllAccess_def
      accessReadOnlyShare_def accessWriteBits_value Let_def)

section \<open>Credits\<close>

text \<open>The credit grant replaces at least what the request consumed and is never zero; when the charge
  fits the window, the grant is the request clamped between the charge (at least 1) and
  the 512-credit window. Only a charge above the window pushes the grant above it.\<close>

theorem credit_grant_exact:
  "unat (grantCredits charge req) =
     (if unat charge > 512 then unat charge else max (max 1 (unat charge)) (min 512 (unat req)))"
  by (simp add: grantCredits_def creditWindow_def Let_def word_less_nat_alt)

section \<open>Witnesses\<close>

end
