(* ===== verification/Share_Modes.thy ===== *)
theory Share_Modes
  imports Lock_Ranges Access_Mask
begin

text \<open>
  Share-mode (deny-mode) enforcement: \<^verbatim>\<open>internal/parent/sharemode.go\<close> and the bounded
  wait of \<^verbatim>\<open>sharewait.go\<close>.

  \<open>fdKey h\<close> is what \<^verbatim>\<open>shareKeyForFd\<close> finds behind handle \<open>h\<close> at the time of the call:
  \<open>None\<close> when the handle has lost its descriptor or \<^verbatim>\<open>fstat\<close> fails. A channel is a
  number, as in the lock table; a waiter is identified by its channel, which is
  fresh for every registration.
\<close>

abbreviation (input) AccessGenericRead :: u32 where "AccessGenericRead \<equiv> 0x80000000"
abbreviation (input) AccessGenericWrite :: u32 where "AccessGenericWrite \<equiv> 0x40000000"
abbreviation (input) AccessGenericExecute :: u32 where "AccessGenericExecute \<equiv> 0x20000000"
abbreviation (input) AccessGenericAll :: u32 where "AccessGenericAll \<equiv> 0x10000000"

definition shareAccessRead :: u32 where "shareAccessRead = 0x00000001"
definition shareAccessWrite :: u32 where "shareAccessWrite = 0x00000002"
definition shareAccessDelete :: u32 where "shareAccessDelete = 0x00000004"

definition sharingReadAccess :: u32 where
  "sharingReadAccess = accFileReadData OR accFileExecute OR AccessGenericRead OR AccessGenericExecute OR AccessGenericAll"

definition sharingWriteAccess :: u32 where
  "sharingWriteAccess = accFileWriteData OR accFileAppendData OR AccessGenericWrite OR AccessGenericAll"

definition sharingDeleteAccess :: u32 where
  "sharingDeleteAccess = accDelete OR AccessGenericAll"

definition sharingAttrOnlyAccess :: u32 where
  "sharingAttrOnlyAccess = accFileReadAttributes OR accFileWriteAttributes OR accSynchronize"

record shareModeEntry =
  sme_owner :: "open_ref option"
  sme_read :: bool
  sme_write :: bool
  sme_del :: bool
  sme_attrOnly :: bool
  sme_shared :: u32

definition newShareModeEntry :: "open_ref option \<Rightarrow> u32 \<Rightarrow> u32 \<Rightarrow> shareModeEntry" where
  "newShareModeEntry owner desired share =
     \<lparr>sme_owner = owner,
      sme_read = (desired AND sharingReadAccess \<noteq> 0),
      sme_write = (desired AND sharingWriteAccess \<noteq> 0),
      sme_del = (desired AND sharingDeleteAccess \<noteq> 0),
      sme_attrOnly = (desired AND NOT sharingAttrOnlyAccess = 0),
      sme_shared = share\<rparr>"

definition shareConflict :: "shareModeEntry \<Rightarrow> shareModeEntry \<Rightarrow> bool" where
  "shareConflict existing incoming =
     (if sme_attrOnly existing \<noteq> sme_attrOnly incoming then False
      else if sme_read incoming \<and> sme_shared existing AND shareAccessRead = 0 then True
      else if sme_write incoming \<and> sme_shared existing AND shareAccessWrite = 0 then True
      else if sme_del incoming \<and> sme_shared existing AND shareAccessDelete = 0 then True
      else if sme_read existing \<and> sme_shared incoming AND shareAccessRead = 0 then True
      else if sme_write existing \<and> sme_shared incoming AND shareAccessWrite = 0 then True
      else if sme_del existing \<and> sme_shared incoming AND shareAccessDelete = 0 then True
      else False)"

record shareWaiter =
  sw_key :: fileKey
  sw_ch :: nat

record shareModeTable =
  sm_byFile :: "fileKey \<rightharpoonup> shareModeEntry list"
  sm_owners :: "open_ref \<rightharpoonup> fileKey"
  sm_waiters :: "fileKey \<rightharpoonup> shareWaiter list"
  sm_closed :: "nat list"
  sm_next :: nat

definition newShareModeTable :: shareModeTable where
  "newShareModeTable = \<lparr>sm_byFile = (\<lambda>_. None), sm_owners = (\<lambda>_. None), sm_waiters = (\<lambda>_. None),
     sm_closed = [], sm_next = 0\<rparr>"

definition entries :: "shareModeTable \<Rightarrow> fileKey \<Rightarrow> shareModeEntry list" where
  "entries t key = (case sm_byFile t key of None \<Rightarrow> [] | Some es \<Rightarrow> es)"

definition waiters :: "shareModeTable \<Rightarrow> fileKey \<Rightarrow> shareWaiter list" where
  "waiters t key = (case sm_waiters t key of None \<Rightarrow> [] | Some ws \<Rightarrow> ws)"

text \<open>The handle record as far as \<^verbatim>\<open>shareModeApplies\<close> looks at it.\<close>

record open_kind =
  ok_IsDir :: bool
  ok_IsStream :: bool
  ok_IsPipe :: bool
  ok_HasFile :: bool

definition shareModeApplies :: "open_kind option \<Rightarrow> bool" where
  "shareModeApplies k =
     (case k of None \<Rightarrow> False | Some k \<Rightarrow> \<not> ok_IsDir k \<and> \<not> ok_IsStream k \<and> \<not> ok_IsPipe k \<and> ok_HasFile k)"

definition entryLive :: "(open_ref \<rightharpoonup> fileKey) \<Rightarrow> shareModeEntry \<Rightarrow> fileKey \<Rightarrow> bool" where
  "entryLive fdKey e key = (case sme_owner e of None \<Rightarrow> False | Some h \<Rightarrow> fdKey h = Some key)"

definition checkLocked :: "(open_ref \<rightharpoonup> fileKey) \<Rightarrow> shareModeTable \<Rightarrow> fileKey \<Rightarrow> u32 \<Rightarrow> u32 \<Rightarrow> bool" where
  "checkLocked fdKey t key desired share =
     (let probe = newShareModeEntry None desired share in
      \<not> list_ex (\<lambda>e. entryLive fdKey e key \<and> shareConflict e probe) (entries t key))"

definition sm_store :: "shareModeTable \<Rightarrow> fileKey \<Rightarrow> shareModeEntry list \<Rightarrow> shareModeTable" where
  "sm_store t key ents =
     (if length ents = 0 then t\<lparr>sm_byFile := (sm_byFile t)(key := None)\<rparr>
      else t\<lparr>sm_byFile := (sm_byFile t)(key \<mapsto> ents)\<rparr>)"

fun drop_owners :: "shareModeEntry list \<Rightarrow> (open_ref \<rightharpoonup> fileKey) \<Rightarrow> (open_ref \<rightharpoonup> fileKey)" where
  "drop_owners [] m = m"
| "drop_owners (e # es) m = drop_owners es (case sme_owner e of None \<Rightarrow> m | Some h \<Rightarrow> m(h := None))"

definition acquireLocked :: "(open_ref \<rightharpoonup> fileKey) \<Rightarrow> shareModeTable \<Rightarrow> fileKey \<Rightarrow> open_ref \<Rightarrow> u32 \<Rightarrow> u32
    \<Rightarrow> bool \<times> shareModeTable" where
  "acquireLocked fdKey t key h desired share =
     (let incoming = newShareModeEntry (Some h) desired share in
      if sm_owners t h \<noteq> None then (True, t)
      else
        let ents = entries t key;
            t1 = t\<lparr>sm_owners := drop_owners (filter (\<lambda>e. \<not> entryLive fdKey e key) ents) (sm_owners t)\<rparr>;
            kept = filter (\<lambda>e. entryLive fdKey e key) ents in
        if list_ex (\<lambda>e. shareConflict e incoming) kept then (False, sm_store t1 key kept)
        else
          let t2 = sm_store t1 key (kept @ [incoming]) in
          (True, t2\<lparr>sm_owners := (sm_owners t2)(h \<mapsto> key)\<rparr>))"

definition wakeLocked :: "shareModeTable \<Rightarrow> fileKey \<Rightarrow> shareModeTable" where
  "wakeLocked t key =
     (let ws = waiters t key in
      if length ws = 0 then t
      else t\<lparr>sm_waiters := (sm_waiters t)(key := None), sm_closed := map sw_ch ws @ sm_closed t\<rparr>)"

definition sm_release :: "shareModeTable \<Rightarrow> open_ref option \<Rightarrow> shareModeTable" where
  "sm_release t ho =
     (case ho of
        None \<Rightarrow> t
      | Some h \<Rightarrow>
          (case sm_owners t h of
             None \<Rightarrow> t
           | Some key \<Rightarrow>
               let t1 = t\<lparr>sm_owners := (sm_owners t)(h := None)\<rparr>;
                   kept = filter (\<lambda>e. sme_owner e \<noteq> Some h) (entries t key)
               in wakeLocked (sm_store t1 key kept) key))"

fun rename_first :: "open_ref \<Rightarrow> open_ref \<Rightarrow> shareModeEntry list \<Rightarrow> shareModeEntry list" where
  "rename_first from to [] = []"
| "rename_first from to (e # es) =
     (if sme_owner e = Some from then e\<lparr>sme_owner := Some to\<rparr> # es else e # rename_first from to es)"

definition transfer :: "shareModeTable \<Rightarrow> open_ref option \<Rightarrow> open_ref option \<Rightarrow> shareModeTable" where
  "transfer t fromo too =
     (case (fromo, too) of
        (Some from, Some to) \<Rightarrow>
          if from = to then t
          else (case sm_owners t from of
             None \<Rightarrow> t
           | Some key \<Rightarrow>
               t\<lparr>sm_owners := (sm_owners t)(from := None, to \<mapsto> key),
                 sm_byFile := (sm_byFile t)(key \<mapsto> rename_first from to (entries t key))\<rparr>)
      | _ \<Rightarrow> t)"

definition registerWaiterLocked :: "shareModeTable \<Rightarrow> fileKey \<Rightarrow> shareWaiter \<times> shareModeTable" where
  "registerWaiterLocked t key =
     (let w = \<lparr>sw_key = key, sw_ch = sm_next t\<rparr> in
      (w, t\<lparr>sm_waiters := (sm_waiters t)(key \<mapsto> waiters t key @ [w]), sm_next := sm_next t + 1\<rparr>))"

definition acquireOrWait :: "(open_ref \<rightharpoonup> fileKey) \<Rightarrow> shareModeTable \<Rightarrow> fileKey \<Rightarrow> open_ref \<Rightarrow> u32 \<Rightarrow> u32
    \<Rightarrow> bool \<times> shareWaiter option \<times> shareModeTable" where
  "acquireOrWait fdKey t key h desired share =
     (case acquireLocked fdKey t key h desired share of
        (True, t1) \<Rightarrow> (True, None, t1)
      | (False, t1) \<Rightarrow> (case registerWaiterLocked t1 key of (w, t2) \<Rightarrow> (False, Some w, t2)))"

definition unwait :: "shareModeTable \<Rightarrow> shareWaiter option \<Rightarrow> shareModeTable" where
  "unwait t wo =
     (case wo of
        None \<Rightarrow> t
      | Some w \<Rightarrow>
          let ws = waiters t (sw_key w) in
          if w \<in> set ws then
            (let ws' = remove1 w ws in
             if length ws' = 0 then t\<lparr>sm_waiters := (sm_waiters t)(sw_key w := None)\<rparr>
             else t\<lparr>sm_waiters := (sm_waiters t)(sw_key w \<mapsto> ws')\<rparr>)
          else t)"

section \<open>Waiting out a transient conflict\<close>

definition maxSharingWaits :: int where
  "maxSharingWaits = 4"

definition beginSharingWait :: "int \<Rightarrow> bool \<times> int" where
  "beginSharingWait slots =
     (if slots + 1 > maxSharingWaits then (False, slots + 1 - 1) else (True, slots + 1))"

definition endSharingWait :: "int \<Rightarrow> int" where
  "endSharingWait slots = slots - 1"

text \<open>
  While a CREATE is parked, either a release closes its channel (the event carries the
  table and what the descriptors show by then) or the deadline fires.
\<close>

datatype share_event = ShareWoken shareModeTable "open_ref \<rightharpoonup> fileKey" | ShareDeadline shareModeTable

fun wait_loop :: "fileKey \<Rightarrow> open_ref \<Rightarrow> u32 \<Rightarrow> u32 \<Rightarrow> shareWaiter option \<Rightarrow> share_event list
    \<Rightarrow> (bool \<times> shareModeTable) option" where
  "wait_loop key h desired share w [] = None"
| "wait_loop key h desired share w (ShareDeadline t # es) = Some (False, unwait t w)"
| "wait_loop key h desired share w (ShareWoken t fdKey # es) =
     (case acquireOrWait fdKey t key h desired share of
        (True, _, t') \<Rightarrow> Some (True, t')
      | (False, w', t') \<Rightarrow> wait_loop key h desired share w' es)"

definition acquireShareMode :: "(open_ref \<rightharpoonup> fileKey) \<Rightarrow> shareModeTable \<Rightarrow> fileKey \<Rightarrow> open_ref \<Rightarrow> u32 \<Rightarrow> u32
    \<Rightarrow> int \<Rightarrow> share_event list \<Rightarrow> (bool \<times> shareModeTable \<times> int) option" where
  "acquireShareMode fdKey t key h desired share slots events =
     (case acquireOrWait fdKey t key h desired share of
        (True, _, t1) \<Rightarrow> Some (True, t1, slots)
      | (False, w, t1) \<Rightarrow>
          (case beginSharingWait slots of
             (False, slots1) \<Rightarrow> Some (False, unwait t1 w, slots1)
           | (True, slots1) \<Rightarrow>
               (case wait_loop key h desired share w events of
                  None \<Rightarrow> None
                | Some (ok, t2) \<Rightarrow> Some (ok, t2, endSharingWait slots1))))"

section \<open>The sharing check\<close>

lemma shareConflict_sym: "shareConflict a b = shareConflict b a"
  unfolding shareConflict_def by auto

text \<open>The rights an open uses, as a share mask: what it needs every other open to share.\<close>

definition used_mask :: "shareModeEntry \<Rightarrow> u32" where
  "used_mask e = (if sme_read e then shareAccessRead else 0) OR (if sme_write e then shareAccessWrite else 0)
     OR (if sme_del e then shareAccessDelete else 0)"

lemma and_or_distrib_zero: "(a OR b) AND c = 0 \<longleftrightarrow> a AND c = 0 \<and> b AND (c :: u32) = 0"
  by (simp add: bit_eq_iff bit_simps) blast

lemma share_bits: "shareAccessRead = 2 ^ 0" "shareAccessWrite = 2 ^ 1" "shareAccessDelete = 2 ^ 2"
  by (simp_all add: shareAccessRead_def shareAccessWrite_def shareAccessDelete_def)

lemma share_bit_clear:
  "(s AND shareAccessRead = 0) = (\<not> bit s 0)" "(s AND shareAccessWrite = 0) = (\<not> bit s 1)"
  "(s AND shareAccessDelete = 0) = (\<not> bit s 2)"
  unfolding share_bits by (rule and_exp_eq_0_iff_not_bit)+

lemma share_bit_outside:
  "(shareAccessRead AND NOT s = 0) = bit s 0" "(shareAccessWrite AND NOT s = 0) = bit s 1"
  "(shareAccessDelete AND NOT s = 0) = bit s 2"
  by (simp_all add: and.commute [of _ "NOT s"] share_bit_clear bit_not_iff)

lemma shareConflict_iff:
  "shareConflict a b \<longleftrightarrow> sme_attrOnly a = sme_attrOnly b \<and>
     (used_mask b AND NOT (sme_shared a) \<noteq> 0 \<or> used_mask a AND NOT (sme_shared b) \<noteq> 0)"
proof -
  have "used_mask x AND NOT s = 0 \<longleftrightarrow>
    \<not> (sme_read x \<and> s AND shareAccessRead = 0) \<and> \<not> (sme_write x \<and> s AND shareAccessWrite = 0) \<and>
    \<not> (sme_del x \<and> s AND shareAccessDelete = 0)" for x s
    unfolding used_mask_def and_or_distrib_zero share_bit_clear
    by (simp add: share_bit_outside)
  then show ?thesis
    unfolding shareConflict_def by auto
qed

section \<open>The table invariant\<close>

definition sm_inv :: "shareModeTable \<Rightarrow> bool" where
  "sm_inv t \<longleftrightarrow> (\<forall>key. sm_byFile t key \<noteq> Some []) \<and>
     (\<forall>key h. sm_owners t h = Some key \<longleftrightarrow> Some h \<in> sme_owner ` set (entries t key)) \<and>
     (\<forall>key. None \<notin> sme_owner ` set (entries t key)) \<and>
     (\<forall>key. distinct (map sme_owner (entries t key))) \<and>
     (\<forall>key. \<forall>a \<in> set (entries t key). \<forall>b \<in> set (entries t key). a \<noteq> b \<longrightarrow> \<not> shareConflict a b)"

lemma sm_invD:
  assumes "sm_inv t"
  shows sm_inv_owner: "sm_owners t h = Some key \<longleftrightarrow> Some h \<in> sme_owner ` set (entries t key)"
    and sm_inv_some: "a \<in> set (entries t key) \<Longrightarrow> sme_owner a \<noteq> None"
    and sm_inv_conflict: "a \<in> set (entries t key) \<Longrightarrow> b \<in> set (entries t key) \<Longrightarrow> a \<noteq> b \<Longrightarrow> \<not> shareConflict a b"
proof -
  show "sm_owners t h = Some key \<longleftrightarrow> Some h \<in> sme_owner ` set (entries t key)"
    using assms by (simp add: sm_inv_def)
  have "None \<notin> sme_owner ` set (entries t key)" using assms by (simp add: sm_inv_def)
  then show "a \<in> set (entries t key) \<Longrightarrow> sme_owner a \<noteq> None" by force
  show "a \<in> set (entries t key) \<Longrightarrow> b \<in> set (entries t key) \<Longrightarrow> a \<noteq> b \<Longrightarrow> \<not> shareConflict a b"
    using assms by (simp add: sm_inv_def)
qed

lemma drop_owners: "drop_owners es m h = (if Some h \<in> sme_owner ` set es then None else m h)"
  by (induction es arbitrary: m) (auto split: option.splits)

lemma entries_store: "entries (sm_store t key ents) k = (if k = key then ents else entries t k)"
  by (auto simp: sm_store_def entries_def)

lemma entries_update [simp]:
  "entries (t\<lparr>sm_owners := m\<rparr>) = entries t" "entries (t\<lparr>sm_waiters := m'\<rparr>) = entries t"
  "entries (t\<lparr>sm_closed := c\<rparr>) = entries t" "entries (t\<lparr>sm_next := n\<rparr>) = entries t"
  by (simp_all add: entries_def fun_eq_iff)

lemma store_fields [simp]:
  "sm_owners (sm_store t key ents) = sm_owners t" "sm_waiters (sm_store t key ents) = sm_waiters t"
  "sm_closed (sm_store t key ents) = sm_closed t" "sm_next (sm_store t key ents) = sm_next t"
  by (simp_all add: sm_store_def)

lemma store_not_empty: "\<forall>key. sm_byFile t key \<noteq> Some [] \<Longrightarrow> sm_byFile (sm_store t key ents) k \<noteq> Some []"
  by (auto simp: sm_store_def)

lemma wake_fields [simp]:
  "sm_byFile (wakeLocked t key) = sm_byFile t" "sm_owners (wakeLocked t key) = sm_owners t"
  by (simp_all add: wakeLocked_def Let_def)

lemma entries_wake [simp]: "entries (wakeLocked t key) = entries t"
  by (simp add: entries_def fun_eq_iff)

text \<open>Replacing the entries of one file and the owners that go with them.\<close>

lemma sm_inv_put:
  assumes t: "sm_inv t" and "sm_byFile t' = sm_byFile (sm_store t key ents)"
    and "\<And>h. sm_owners t' h = Some key \<longleftrightarrow> Some h \<in> sme_owner ` set ents"
    and "\<And>h k. k \<noteq> key \<Longrightarrow> sm_owners t' h = Some k \<longleftrightarrow> sm_owners t h = Some k"
    and "None \<notin> sme_owner ` set ents" and "distinct (map sme_owner ents)"
    and "\<forall>a \<in> set ents. \<forall>b \<in> set ents. a \<noteq> b \<longrightarrow> \<not> shareConflict a b"
  shows "sm_inv t'"
proof -
  have ent: "entries t' k = (if k = key then ents else entries t k)" for k
    using assms(2) entries_store [of t key ents k] by (simp add: entries_def)
  have "\<forall>k. sm_byFile t' k \<noteq> Some []"
    using t store_not_empty [of t key ents] unfolding assms(2) sm_inv_def by simp
  then show ?thesis
    using t assms(3-) unfolding sm_inv_def ent by simp
qed

lemma sm_inv_new: "sm_inv newShareModeTable"
  by (simp add: sm_inv_def newShareModeTable_def entries_def)

lemma owner_unique:
  "sm_inv t \<Longrightarrow> Some h \<in> sme_owner ` set (entries t k) \<Longrightarrow> Some h \<in> sme_owner ` set (entries t k') \<Longrightarrow> k = k'"
  unfolding sm_inv_def by (metis option.inject)

lemma distinct_map_filter_disjoint:
  "distinct (map f xs) \<Longrightarrow> y \<in> f ` set (filter P xs) \<Longrightarrow> y \<notin> f ` set (filter (\<lambda>x. \<not> P x) xs)"
  by (auto simp: distinct_map inj_on_def)

lemma sm_inv_acquire:
  assumes t: "sm_inv t" and "acquireLocked fdKey t key h desired share = (ok, t')"
  shows "sm_inv t'"
proof (cases "sm_owners t h = None")
  case False
  with assms show ?thesis by (simp add: acquireLocked_def Let_def)
next
  case True
  let ?live = "\<lambda>e. entryLive fdKey e key"
  let ?ents = "entries t key" and ?inc = "newShareModeEntry (Some h) desired share"
  let ?kept = "filter ?live ?ents" and ?dead = "filter (\<lambda>e. \<not> ?live e) ?ents"
  let ?own = "drop_owners ?dead (sm_owners t)"
  have dist: "distinct (map sme_owner ?ents)"
    and own: "\<And>k h. sm_owners t h = Some k \<longleftrightarrow> Some h \<in> sme_owner ` set (entries t k)"
    and conf: "\<forall>a \<in> set ?ents. \<forall>b \<in> set ?ents. a \<noteq> b \<longrightarrow> \<not> shareConflict a b"
    and none: "None \<notin> sme_owner ` set ?ents"
    using t by (simp_all add: sm_inv_def)
  have here: "?own h' = Some key \<longleftrightarrow> Some h' \<in> sme_owner ` set ?kept" for h'
    using distinct_map_filter_disjoint [OF dist, of "Some h'" ?live]
    by (auto simp: drop_owners own image_iff)
  have other: "?own h' = Some k \<longleftrightarrow> sm_owners t h' = Some k" if "k \<noteq> key" for h' k
  proof -
    have "Some h' \<notin> sme_owner ` set ?dead" if "sm_owners t h' = Some k"
    proof
      assume "Some h' \<in> sme_owner ` set ?dead"
      then have "sm_owners t h' = Some key" by (auto simp: own)
      with that \<open>k \<noteq> key\<close> show False by simp
    qed
    then show ?thesis by (auto simp: drop_owners)
  qed
  have distk: "distinct (map sme_owner ?kept)"
    using dist by (simp add: distinct_map_filter)
  have fresh: "Some h \<notin> sme_owner ` set ?ents"
    using True own by (metis option.distinct(1))
  show ?thesis
  proof (cases "list_ex (\<lambda>e. shareConflict e ?inc) ?kept")
    case conflict: True
    then have "t' = sm_store (t\<lparr>sm_owners := ?own\<rparr>) key ?kept"
      using assms(2) True by (simp add: acquireLocked_def Let_def)
    then show ?thesis
      using here other none distk conf by (intro sm_inv_put [OF t, of t' key ?kept]) (auto simp: sm_store_def)
  next
    case free: False
    have inc: "sme_owner ?inc = Some h" by (simp add: newShareModeEntry_def)
    have t': "t' = (sm_store (t\<lparr>sm_owners := ?own\<rparr>) key (?kept @ [?inc]))\<lparr>sm_owners := ?own(h \<mapsto> key)\<rparr>"
      using assms(2) True free by (simp add: acquireLocked_def Let_def)
    show ?thesis
    proof (rule sm_inv_put [OF t, of t' key "?kept @ [?inc]"])
      show "sm_byFile t' = sm_byFile (sm_store t key (?kept @ [?inc]))"
        by (simp add: t' sm_store_def)
      show "sm_owners t' h' = Some key \<longleftrightarrow> Some h' \<in> sme_owner ` set (?kept @ [?inc])" for h'
        using here [of h'] by (auto simp: t' inc)
      show "sm_owners t' h' = Some k \<longleftrightarrow> sm_owners t h' = Some k" if "k \<noteq> key" for h' k
        using other [OF that, of h'] that True by (auto simp: t')
      show "distinct (map sme_owner (?kept @ [?inc]))"
        using distk fresh inc by auto
      show "\<forall>a \<in> set (?kept @ [?inc]). \<forall>b \<in> set (?kept @ [?inc]). a \<noteq> b \<longrightarrow> \<not> shareConflict a b"
        using conf free by (auto simp: list_ex_iff shareConflict_sym)
    qed (use none inc in auto)
  qed
qed

lemma sm_inv_release:
  assumes t: "sm_inv t"
  shows "sm_inv (sm_release t ho)"
proof (cases ho)
  case (Some h)
  show ?thesis
  proof (cases "sm_owners t h")
    case (Some key)
    let ?kept = "filter (\<lambda>e. sme_owner e \<noteq> Some h) (entries t key)"
    have own: "\<And>k h. sm_owners t h = Some k \<longleftrightarrow> Some h \<in> sme_owner ` set (entries t k)"
      using t by (simp add: sm_inv_def)
    have "distinct (map sme_owner (entries t key))" and "None \<notin> sme_owner ` set (entries t key)"
      and "\<forall>a \<in> set (entries t key). \<forall>b \<in> set (entries t key). a \<noteq> b \<longrightarrow> \<not> shareConflict a b"
      using t by (simp_all add: sm_inv_def)
    note facts = this
    have t': "sm_byFile (sm_release t ho) = sm_byFile (sm_store t key ?kept)"
      "sm_owners (sm_release t ho) = (sm_owners t)(h := None)"
      using \<open>ho = Some h\<close> Some by (simp_all add: sm_release_def Let_def sm_store_def)
    show ?thesis
    proof (rule sm_inv_put [OF t, of _ key ?kept])
      show "sm_owners (sm_release t ho) h' = Some key \<longleftrightarrow> Some h' \<in> sme_owner ` set ?kept" for h'
        using own [of h' key] by (auto simp: t')
      show "sm_owners (sm_release t ho) h' = Some k \<longleftrightarrow> sm_owners t h' = Some k" if "k \<noteq> key" for h' k
        using that Some by (auto simp: t')
      show "distinct (map sme_owner ?kept)"
        using facts(1) by (rule distinct_map_filter)
    qed (use facts t' in auto)
  qed (use Some t in \<open>simp add: sm_release_def\<close>)
qed (use t in \<open>simp add: sm_release_def\<close>)

lemma set_rename_first:
  "distinct (map sme_owner es) \<Longrightarrow> Some from \<in> sme_owner ` set es \<Longrightarrow>
    set (rename_first from to es) = (\<lambda>e. if sme_owner e = Some from then e\<lparr>sme_owner := Some to\<rparr> else e) ` set es"
proof (induction es)
  case (Cons e es)
  show ?case
  proof (cases "sme_owner e = Some from")
    case True
    then have "(\<lambda>e. if sme_owner e = Some from then e\<lparr>sme_owner := Some to\<rparr> else e) ` set es = set es"
      using Cons.prems(1) by (force simp: image_iff)
    with True show ?thesis by simp
  next
    case False
    with Cons show ?thesis by auto
  qed
qed simp

lemma owners_rename_first:
  "map sme_owner (rename_first from to es) =
     (if Some from \<in> sme_owner ` set es
      then takeWhile (\<lambda>x. x \<noteq> Some from) (map sme_owner es) @ Some to # tl (dropWhile (\<lambda>x. x \<noteq> Some from) (map sme_owner es))
      else map sme_owner es)"
  by (induction es) auto

lemma shareConflict_owner [simp]:
  "shareConflict (a\<lparr>sme_owner := x\<rparr>) b = shareConflict a b" "shareConflict a (b\<lparr>sme_owner := x\<rparr>) = shareConflict a b"
  by (simp_all add: shareConflict_def)

lemma distinct_rename_first:
  "distinct (map sme_owner es) \<Longrightarrow> Some to \<notin> sme_owner ` set es \<Longrightarrow> distinct (map sme_owner (rename_first from to es))"
proof (induction es)
  case (Cons e es)
  have "set (map sme_owner (rename_first from to es)) \<subseteq> insert (Some to) (sme_owner ` set es)"
    by (induction es) auto
  with Cons show ?case by auto
qed simp

text \<open>A reservation moves to a handle that has none: the slot is never given up.\<close>

lemma sm_inv_transfer:
  assumes t: "sm_inv t" and fresh: "\<And>to. too = Some to \<Longrightarrow> sm_owners t to = None"
  shows "sm_inv (transfer t fromo too)"
proof (cases "\<exists>from to key. fromo = Some from \<and> too = Some to \<and> from \<noteq> to \<and> sm_owners t from = Some key")
  case False
  then have "transfer t fromo too = t"
    by (auto simp: transfer_def split: option.splits)
  with t show ?thesis by simp
next
  case True
  then obtain src dst key where *: "fromo = Some src" "too = Some dst" "src \<noteq> dst" "sm_owners t src = Some key" by blast
  let ?es = "entries t key" and ?new = "rename_first src dst (entries t key)"
  let ?ren = "\<lambda>e :: shareModeEntry. if sme_owner e = Some src then e\<lparr>sme_owner := Some dst\<rparr> else e"
  have own: "\<And>k h. sm_owners t h = Some k \<longleftrightarrow> Some h \<in> sme_owner ` set (entries t k)"
    and dist: "distinct (map sme_owner ?es)" and none: "None \<notin> sme_owner ` set ?es"
    and conf: "\<forall>a \<in> set ?es. \<forall>b \<in> set ?es. a \<noteq> b \<longrightarrow> \<not> shareConflict a b"
    using t by (simp_all add: sm_inv_def)
  have mem: "Some src \<in> sme_owner ` set ?es" using own * by simp
  have new: "set ?new = ?ren ` set ?es" by (rule set_rename_first [OF dist mem])
  have dst: "Some dst \<notin> sme_owner ` set ?es" using own fresh [OF *(2)] by (metis option.distinct(1))
  have ne: "?new \<noteq> []" using mem new by auto
  define O' where "O' = sme_owner ` set ?es"
  have "sme_owner ` set ?new = (\<lambda>x. if x = Some src then Some dst else x) ` O'"
    unfolding new O'_def image_image by (rule image_cong) simp_all
  moreover have "Some src \<in> O'" using mem by (simp add: O'_def)
  ultimately have owners: "Some h \<in> sme_owner ` set ?new \<longleftrightarrow> h = dst \<or> h \<noteq> src \<and> Some h \<in> sme_owner ` set ?es" for h
    using *(3) unfolding O'_def [symmetric] by (auto simp: image_iff)
  have t': "sm_byFile (transfer t fromo too) = sm_byFile (sm_store t key ?new)"
    "sm_owners (transfer t fromo too) = (sm_owners t)(src := None, dst \<mapsto> key)"
    using * ne by (simp_all add: transfer_def sm_store_def)
  show ?thesis
  proof (rule sm_inv_put [OF t t'(1)])
    show "sm_owners (transfer t fromo too) h = Some key \<longleftrightarrow> Some h \<in> sme_owner ` set ?new" for h
      using own [of h key] *(3) by (auto simp: t'(2) owners)
    show "sm_owners (transfer t fromo too) h = Some k \<longleftrightarrow> sm_owners t h = Some k" if "k \<noteq> key" for h k
      unfolding t'(2) using that *(3,4) fresh [OF *(2)] by auto
    show "None \<notin> sme_owner ` set ?new" using none by (auto simp: new)
    show "distinct (map sme_owner ?new)" using dist dst by (rule distinct_rename_first)
    show "\<forall>a \<in> set ?new. \<forall>b \<in> set ?new. a \<noteq> b \<longrightarrow> \<not> shareConflict a b"
    proof (intro ballI impI)
      fix a b assume ab: "a \<in> set ?new" "b \<in> set ?new" "a \<noteq> b"
      then obtain x y where xy: "a = ?ren x" "b = ?ren y" "x \<in> set ?es" "y \<in> set ?es"
        unfolding new by blast
      then have "x \<noteq> y" and "shareConflict a b = shareConflict x y" using ab(3) by auto
      with conf xy show "\<not> shareConflict a b" by blast
    qed
  qed
qed

lemma sm_inv_waiters:
  "sm_inv t \<Longrightarrow> registerWaiterLocked t key = (w, t') \<Longrightarrow> sm_inv t'" "sm_inv t \<Longrightarrow> sm_inv (unwait t wo)"
proof -
  have cong: "sm_inv t'" if "sm_inv t" "sm_byFile t' = sm_byFile t" "sm_owners t' = sm_owners t" for t t'
    using that by (simp add: sm_inv_def entries_def)
  show "sm_inv t \<Longrightarrow> registerWaiterLocked t key = (w, t') \<Longrightarrow> sm_inv t'"
    by (erule cong) (auto simp: registerWaiterLocked_def Let_def)
  show "sm_inv t \<Longrightarrow> sm_inv (unwait t wo)"
    by (erule cong) (simp_all add: unwait_def Let_def split: option.splits)
qed

section \<open>Every table the server can reach\<close>

inductive share_step :: "shareModeTable \<Rightarrow> shareModeTable \<Rightarrow> bool" where
  share_acquire: "acquireOrWait fdKey t key h desired share = (ok, w, t') \<Longrightarrow> share_step t t'"
| share_release: "share_step t (sm_release t ho)"
| share_transfer: "(\<forall>to. too = Some to \<longrightarrow> sm_owners t to = None) \<Longrightarrow> share_step t (transfer t fromo too)"
| share_unwait: "share_step t (unwait t w)"

inductive_cases share_stepE: "share_step t t'"

interpretation share_tables: invariant_system "\<lambda>t. t = newShareModeTable" share_step sm_inv
proof
  show "sm_inv t" if "t = newShareModeTable" for t
    using that by (simp add: sm_inv_new)
  show "sm_inv t'" if t: "sm_inv t" and "share_step t t'" for t t'
    using that(2)
  proof cases
    case (share_acquire fdKey key h desired share ok w)
    then show ?thesis
      by (auto simp: acquireOrWait_def split: prod.splits bool.splits
          dest: sm_inv_acquire [OF t] sm_inv_waiters(1))
  qed (use t in \<open>auto intro: sm_inv_release sm_inv_transfer sm_inv_waiters\<close>)
qed

section \<open>Registered waiters\<close>

definition waiter_inv :: "shareModeTable \<Rightarrow> bool" where
  "waiter_inv t \<longleftrightarrow> (\<forall>key. distinct (waiters t key)) \<and> (\<forall>ch \<in> set (sm_closed t). ch < sm_next t) \<and>
     (\<forall>key. \<forall>w \<in> set (waiters t key). sw_key w = key \<and> sw_ch w < sm_next t \<and> sw_ch w \<notin> set (sm_closed t)) \<and>
     (\<forall>key key'. \<forall>w \<in> set (waiters t key). \<forall>w' \<in> set (waiters t key'). sw_ch w = sw_ch w' \<longrightarrow> w = w')"

lemma waiterD:
  assumes "waiter_inv t" and "w \<in> set (waiters t key)"
  shows "sw_key w = key" and "sw_ch w < sm_next t" and "sw_ch w \<notin> set (sm_closed t)"
    and "w' \<in> set (waiters t key') \<Longrightarrow> sw_ch w = sw_ch w' \<Longrightarrow> w = w'"
  using assms unfolding waiter_inv_def by simp_all

lemma waiters_update [simp]:
  "waiters (t\<lparr>sm_owners := m\<rparr>) = waiters t" "waiters (t\<lparr>sm_byFile := b\<rparr>) = waiters t"
  "waiters (t\<lparr>sm_closed := c\<rparr>) = waiters t" "waiters (t\<lparr>sm_next := n\<rparr>) = waiters t"
  by (simp_all add: waiters_def fun_eq_iff)

lemma waiters_store [simp]: "waiters (sm_store t key ents) = waiters t"
  by (simp add: waiters_def fun_eq_iff)

lemma waiters_unwait:
  "waiters (unwait t (Some w)) k = (if k = sw_key w then remove1 w (waiters t k) else waiters t k)"
  by (auto simp: unwait_def Let_def waiters_def remove1_idem split: option.splits)

lemma waiters_register:
  "registerWaiterLocked t key = (w, t') \<Longrightarrow>
    waiters t' k = (if k = key then waiters t key @ [w] else waiters t k) \<and> sw_key w = key \<and> sw_ch w = sm_next t"
  by (auto simp: registerWaiterLocked_def Let_def waiters_def)

lemma waiters_wake:
  "waiters (wakeLocked t key) k = (if k = key then [] else waiters t k)"
  "set (sm_closed (wakeLocked t key)) = set (sm_closed t) \<union> sw_ch ` set (waiters t key)"
  by (cases "waiters t key = []"; simp add: wakeLocked_def Let_def; simp add: waiters_def)+
    (cases "waiters t key = []"; auto simp: wakeLocked_def Let_def)

lemma acquireLocked_waiters:
  "acquireLocked fdKey t key h desired share = (ok, t') \<Longrightarrow>
    waiters t' = waiters t \<and> sm_closed t' = sm_closed t \<and> sm_next t' = sm_next t"
  by (auto simp: acquireLocked_def Let_def split: if_splits)

lemma acquireOrWait_refused:
  assumes "acquireOrWait fdKey t key h desired share = (False, wo, t')"
  obtains w where "wo = Some w" and "sw_key w = key" and "sw_ch w = sm_next t"
    and "\<forall>k. waiters t' k = (if k = key then waiters t key @ [w] else waiters t k)"
proof -
  obtain t1 w where t1: "acquireLocked fdKey t key h desired share = (False, t1)"
    and w: "registerWaiterLocked t1 key = (w, t')" and "wo = Some w"
    using assms by (auto simp: acquireOrWait_def split: prod.splits bool.splits)
  with acquireLocked_waiters [OF t1] waiters_register [OF w] show ?thesis
    by (intro that) auto
qed

text \<open>A refused acquisition that cannot park leaves the waiter lists as they were.\<close>

lemma unwait_refused:
  assumes "waiter_inv t" and "acquireOrWait fdKey t key h desired share = (False, wo, t')"
  shows "waiters (unwait t' wo) = waiters t"
proof -
  obtain w where w: "wo = Some w" "sw_key w = key" "sw_ch w = sm_next t"
    and ws: "\<forall>k. waiters t' k = (if k = key then waiters t key @ [w] else waiters t k)"
    by (rule acquireOrWait_refused [OF assms(2)])
  have "w \<notin> set (waiters t key)"
    using waiterD(2) [OF assms(1), of w key] w(3) by auto
  then show ?thesis
    unfolding w(1) by (auto simp: fun_eq_iff waiters_unwait ws w(2) remove1_append)
qed

lemma wait_loop_deadline:
  "(\<exists>t. ShareDeadline t \<in> set events) \<Longrightarrow> wait_loop key h desired share w events \<noteq> None"
proof (induction events arbitrary: w)
  case (Cons e es)
  then show ?case by (cases e) (auto split: prod.splits bool.splits)
qed simp

lemma waiter_inv_cong:
  "waiter_inv t \<Longrightarrow> waiters t' = waiters t \<Longrightarrow> sm_closed t' = sm_closed t \<Longrightarrow> sm_next t' = sm_next t \<Longrightarrow> waiter_inv t'"
  by (simp add: waiter_inv_def)

lemma waiter_inv_register:
  assumes t: "waiter_inv t" and w: "registerWaiterLocked t key = (w, t')"
  shows "waiter_inv t'"
proof -
  have ws: "\<forall>k. waiters t' k = (if k = key then waiters t key @ [w] else waiters t k)"
    and key: "sw_key w = key" "sw_ch w = sm_next t"
    using waiters_register [OF w] by auto
  have t': "sm_closed t' = sm_closed t" "sm_next t' = Suc (sm_next t)"
    using w by (auto simp: registerWaiterLocked_def Let_def)
  note old = waiterD [OF t]
  have dist: "\<forall>k. distinct (waiters t k)" and closed: "\<forall>ch \<in> set (sm_closed t). ch < sm_next t"
    using t by (auto simp: waiter_inv_def)
  have fresh: "w' \<in> set (waiters t k) \<Longrightarrow> sw_ch w' \<noteq> sw_ch w" for w' k
    using old(2) [of w' k] key(2) by simp
  have mem: "x \<in> set (waiters t' k) \<Longrightarrow> x = w \<and> k = key \<or> x \<in> set (waiters t k)" for x k
    using ws by (auto split: if_splits)
  have "distinct (waiters t' k)" for k
    using dist ws fresh [of w key] by auto
  moreover have "\<forall>ch \<in> set (sm_closed t'). ch < sm_next t'"
    using closed by (auto simp: t' less_SucI)
  moreover have "sw_key x = k \<and> sw_ch x < sm_next t' \<and> sw_ch x \<notin> set (sm_closed t')" if "x \<in> set (waiters t' k)" for x k
    using mem [OF that] key closed old(1,2,3) [of x k] by (auto simp: t')
  moreover have "x = y" if "x \<in> set (waiters t' k)" "y \<in> set (waiters t' k')" "sw_ch x = sw_ch y" for x y k k'
    using mem [OF that(1)] mem [OF that(2)] fresh [of x k] fresh [of y k'] old(4) [of x k y k'] that(3) by auto
  ultimately show ?thesis
    unfolding waiter_inv_def by blast
qed

text \<open>Dropping waiters and closing channels keeps the invariant.\<close>

lemma waiter_inv_shrink:
  assumes t: "waiter_inv t" and "sm_next t' = sm_next t"
    and ws: "\<And>k. set (waiters t' k) \<subseteq> set (waiters t k) \<and> distinct (waiters t' k)"
    and closed: "set (sm_closed t') \<subseteq> set (sm_closed t) \<union> {ch. ch < sm_next t}"
    and open_ch: "\<And>k w. w \<in> set (waiters t' k) \<Longrightarrow> sw_ch w \<notin> set (sm_closed t')"
  shows "waiter_inv t'"
proof -
  have "\<forall>ch \<in> set (sm_closed t'). ch < sm_next t'"
    using t closed assms(2) unfolding waiter_inv_def by auto
  moreover have "x \<in> set (waiters t' k) \<Longrightarrow> x \<in> set (waiters t k)" for x k
    using ws [of k] by blast
  ultimately show ?thesis
    using waiterD [OF t] ws open_ch assms(2) unfolding waiter_inv_def by metis
qed

lemma waiter_inv_unwait: "waiter_inv t \<Longrightarrow> waiter_inv (unwait t wo)"
proof (cases wo)
  case (Some w)
  assume t: "waiter_inv t"
  have same: "sm_closed (unwait t wo) = sm_closed t" "sm_next (unwait t wo) = sm_next t"
    by (simp_all add: Some unwait_def Let_def)
  have "distinct (waiters t k)" for k using t by (simp add: waiter_inv_def)
  then have sub: "set (waiters (unwait t wo) k) \<subseteq> set (waiters t k) \<and> distinct (waiters (unwait t wo) k)" for k
    by (simp add: Some waiters_unwait set_remove1_subset)
  show ?thesis
  proof (rule waiter_inv_shrink [OF t same(2) sub])
    show "sw_ch x \<notin> set (sm_closed (unwait t wo))" if "x \<in> set (waiters (unwait t wo) k)" for x k
      using that sub [of k] waiterD(3) [OF t, of x k] by (auto simp: same)
  qed (auto simp: same)
qed (simp add: unwait_def)

lemma waiter_inv_wake:
  assumes t: "waiter_inv t"
  shows "waiter_inv (wakeLocked t key)"
proof (rule waiter_inv_shrink [OF t])
  show "sm_next (wakeLocked t key) = sm_next t" by (simp add: wakeLocked_def Let_def)
  show "set (waiters (wakeLocked t key) k) \<subseteq> set (waiters t k) \<and> distinct (waiters (wakeLocked t key) k)" for k
    using t by (simp add: waiters_wake waiter_inv_def)
  show "set (sm_closed (wakeLocked t key)) \<subseteq> set (sm_closed t) \<union> {ch. ch < sm_next t}"
    using waiterD(2) [OF t, of _ key] by (auto simp: waiters_wake)
  show "sw_ch x \<notin> set (sm_closed (wakeLocked t key))" if "x \<in> set (waiters (wakeLocked t key) k)" for x k
  proof -
    have x: "k \<noteq> key" "x \<in> set (waiters t k)"
      using that by (auto simp: waiters_wake split: if_splits)
    have "sw_ch x \<noteq> sw_ch y" if "y \<in> set (waiters t key)" for y
      using waiterD(1) [OF t x(2)] waiterD(1) [OF t that] waiterD(4) [OF t x(2) that] x(1) by auto
    with waiterD(3) [OF t x(2)] show ?thesis by (auto simp: waiters_wake)
  qed
qed

interpretation share_waiters: invariant_system "\<lambda>t. t = newShareModeTable" share_step waiter_inv
proof
  show "waiter_inv t" if "t = newShareModeTable" for t
    using that by (simp add: waiter_inv_def newShareModeTable_def waiters_def)
  show "waiter_inv t'" if t: "waiter_inv t" and "share_step t t'" for t t'
    using that(2)
  proof cases
    case (share_acquire fdKey key h desired share ok w)
    obtain ok1 t1 where acq: "acquireLocked fdKey t key h desired share = (ok1, t1)"
      by (cases "acquireLocked fdKey t key h desired share")
    have "waiter_inv t1"
      using waiter_inv_cong [OF t] acquireLocked_waiters [OF acq] by simp
    with share_acquire acq show ?thesis
      by (auto simp: acquireOrWait_def split: prod.splits bool.splits dest: waiter_inv_register)
  next
    case (share_release ho)
    have "waiter_inv (sm_store (t\<lparr>sm_owners := m\<rparr>) key es)" for m key es
      by (rule waiter_inv_cong [OF t]) simp_all
    with t share_release show ?thesis
      by (simp add: sm_release_def Let_def waiter_inv_wake split: option.splits)
  next
    case (share_transfer too fromo)
    then show ?thesis
      by (intro waiter_inv_cong [OF t]) (simp_all add: transfer_def split: option.splits)
  next
    case (share_unwait w)
    with t show ?thesis by (simp add: waiter_inv_unwait)
  qed
qed

end
