(* ===== verification/Share_Properties.thy ===== *)
theory Share_Properties
  imports Share_Modes
begin

text \<open>
  What the share-mode table promises: reservations on one file tolerate each other,
  admission is exactly the two-way sharing check, release wakes the waiters and keeps
  everyone else's reservation, a reclaim never gives up the slot, and a wait is bounded.
\<close>

abbreviation reachable_shares :: "shareModeTable \<Rightarrow> bool" where
  "reachable_shares t \<equiv> rtranclp share_step newShareModeTable t"

lemma reachable_shares_waiters: "reachable_shares t \<Longrightarrow> waiter_inv t"
  by (rule share_waiters.Inv_reachable) simp_all

lemma reachable_shares_inv: "reachable_shares t \<Longrightarrow> sm_inv t"
  by (rule share_tables.Inv_reachable) simp_all

text \<open>C6: In every table the server can reach, each handle has at most one reservation, on one file, and the reverse
  index names that file; no reservation is without a handle. Two reservations of different handles on one file
  tolerate each other (unless just one of them is an attribute-only open): what each uses is contained in
  what the other shares.\<close>

theorem share_modes_tolerate_each_other:
  assumes "reachable_shares t"
  shows "distinct (map sme_owner (entries t key)) \<and> None \<notin> sme_owner ` set (entries t key)
    \<and> (sm_owners t h = Some key \<longleftrightarrow> Some h \<in> sme_owner ` set (entries t key))
    \<and> (\<forall>a \<in> set (entries t key). \<forall>b \<in> set (entries t key). a \<noteq> b \<and> sme_attrOnly a = sme_attrOnly b
        \<longrightarrow> sme_owner a \<noteq> sme_owner b \<and> used_mask a AND NOT (sme_shared b) = 0)"
proof -
  note inv = reachable_shares_inv [OF assms]
  have dist: "distinct (map sme_owner (entries t key))" using inv by (simp add: sm_inv_def)
  have "sme_owner a \<noteq> sme_owner b \<and> used_mask a AND NOT (sme_shared b) = 0"
    if ab: "a \<in> set (entries t key)" "b \<in> set (entries t key)" "a \<noteq> b" "sme_attrOnly a = sme_attrOnly b" for a b
  proof -
    have "\<not> shareConflict a b" by (rule sm_inv_conflict [OF inv ab(1-3)])
    moreover have "sme_owner a \<noteq> sme_owner b" using dist ab(1-3) by (auto simp: distinct_map dest: inj_onD)
    ultimately show ?thesis using ab(4) by (auto simp: shareConflict_iff)
  qed
  moreover have "None \<notin> sme_owner ` set (entries t key)" using sm_inv_some [OF inv, of _ key] by force
  ultimately show ?thesis using dist sm_inv_owner [OF inv, of h key] by blast
qed

text \<open>A CREATE is admitted exactly when its handle already holds a reservation or no live reservation
  on the file conflicts with it in either direction. A refusal records nothing for the
  handle and keeps every live reservation; an admission adds exactly one.\<close>

theorem share_admission_exact:
  assumes "reachable_shares t" and "acquireLocked fdKey t key h desired share = (ok, t')"
  shows "ok = (sm_owners t h \<noteq> None \<or> (\<forall>e \<in> set (entries t key). entryLive fdKey e key \<longrightarrow>
              \<not> shareConflict e (newShareModeEntry (Some h) desired share)))
    \<and> (\<not> ok \<longrightarrow> sm_owners t' h = None)
    \<and> (sm_owners t h = None \<longrightarrow> entries t' key = filter (\<lambda>e. entryLive fdKey e key) (entries t key)
          @ (if ok then [newShareModeEntry (Some h) desired share] else []))
    \<and> (\<forall>k. k \<noteq> key \<longrightarrow> entries t' k = entries t k)"
proof -
  have "drop_owners es (sm_owners t) h = None" if "sm_owners t h = None" for es
    using that by (simp add: drop_owners)
  then show ?thesis
    using assms(2)
    by (auto simp: acquireLocked_def Let_def list_ex_iff entries_store split: if_splits)
qed

text \<open>Releasing a handle removes its reservation and no other, wakes every CREATE parked on that
  file, and is idempotent.\<close>

theorem share_release_wakes:
  assumes "reachable_shares t" and "sm_owners t h = Some key"
  shows "entries (sm_release t (Some h)) key = filter (\<lambda>e. sme_owner e \<noteq> Some h) (entries t key)
    \<and> (\<forall>k. k \<noteq> key \<longrightarrow> entries (sm_release t (Some h)) k = entries t k)
    \<and> sm_owners (sm_release t (Some h)) = (sm_owners t)(h := None)
    \<and> (\<forall>w \<in> set (waiters t key). sw_ch w \<in> set (sm_closed (sm_release t (Some h))))
    \<and> waiters (sm_release t (Some h)) key = []
    \<and> sm_release (sm_release t (Some h)) (Some h) = sm_release t (Some h)"
proof -
  let ?t1 = "sm_store (t\<lparr>sm_owners := (sm_owners t)(h := None)\<rparr>) key (filter (\<lambda>e. sme_owner e \<noteq> Some h) (entries t key))"
  have rel: "sm_release t (Some h) = wakeLocked ?t1 key"
    using assms(2) by (simp add: sm_release_def Let_def)
  have "sm_owners (sm_release t (Some h)) = (sm_owners t)(h := None)"
    by (simp add: rel)
  moreover from this have "sm_release (sm_release t (Some h)) (Some h) = sm_release t (Some h)"
    by (subst sm_release_def) simp
  ultimately show ?thesis
    by (simp add: rel entries_store waiters_wake)
qed

text \<open>A durable reclaim moves a reservation to the new handle without any state in which the slot is
  free: on every file the access used and shared by each reservation is the same before
  and after, and the old handle has none afterwards.\<close>

theorem share_transfer_keeps_slot:
  assumes "reachable_shares t" and "sm_owners t h = Some key" and "sm_owners t h' = None"
  shows "map (\<lambda>e. e\<lparr>sme_owner := None\<rparr>) (entries (transfer t (Some h) (Some h')) k)
        = map (\<lambda>e. e\<lparr>sme_owner := None\<rparr>) (entries t k)
    \<and> sm_owners (transfer t (Some h) (Some h')) h' = Some key \<and> sm_owners (transfer t (Some h) (Some h')) h = None
    \<and> sm_inv (transfer t (Some h) (Some h'))"
proof -
  have "map (\<lambda>e. e\<lparr>sme_owner := None\<rparr>) (rename_first h h' es) = map (\<lambda>e. e\<lparr>sme_owner := None\<rparr>) es" for es
    by (induction es) simp_all
  moreover have "h \<noteq> h'" using assms(2,3) by auto
  moreover have "sm_inv (transfer t (Some h) (Some h'))"
    using reachable_shares_inv [OF assms(1)] assms(3) by (intro sm_inv_transfer) auto
  ultimately show ?thesis
    using assms(2) by (auto simp: transfer_def entries_def)
qed

text \<open>A wait for a share mode is bounded and leaks nothing: once the deadline fires the CREATE has an
  answer, the connection's parking slots are what they were, and a CREATE refused
  because all slots are taken leaves no registration behind.\<close>

theorem share_wait_bounded:
  assumes "reachable_shares t" and "\<exists>t'. ShareDeadline t' \<in> set events"
  shows "\<exists>ok t'. acquireShareMode fdKey t key h desired share slots events = Some (ok, t', slots)
    \<and> (slots \<ge> 4 \<and> \<not> ok \<longrightarrow> waiters t' = waiters t)"
proof -
  obtain ok w t1 where acq: "acquireOrWait fdKey t key h desired share = (ok, w, t1)"
    by (cases "acquireOrWait fdKey t key h desired share")
  show ?thesis
  proof (cases ok)
    case True
    with acq show ?thesis by (intro exI [of _ True] exI [of _ t1]) (simp add: acquireShareMode_def)
  next
    case False
    obtain ok2 t2 where "wait_loop key h desired share w events = Some (ok2, t2)"
      using wait_loop_deadline [OF assms(2), of key h desired share w] by auto
    with False acq unwait_refused [OF reachable_shares_waiters [OF assms(1)], of fdKey key h desired share w t1] show ?thesis
      by (auto simp: acquireShareMode_def beginSharingWait_def endSharingWait_def maxSharingWaits_def)
  qed
qed

section \<open>Witnesses\<close>

text \<open>Two readers of one file that share reading, and a third CREATE that wants to write.\<close>

abbreviation skey :: fileKey where "skey \<equiv> \<lparr>fk_dev = 1, fk_ino = 9\<rparr>"

abbreviation skeys :: "open_ref \<rightharpoonup> fileKey" where "skeys \<equiv> (\<lambda>_. Some skey)"

definition two_readers :: shareModeTable where
  "two_readers = snd (snd (acquireOrWait skeys (snd (snd (acquireOrWait skeys newShareModeTable skey 1 1 1))) skey 2 1 1))"

lemma reachable_shares_acquire:
  "reachable_shares t \<Longrightarrow> reachable_shares (snd (snd (acquireOrWait fdKey t key h desired share)))"
  by (rule rtranclp.rtrancl_into_rtrancl, assumption,
      rule share_acquire [of fdKey t key h desired share "fst (acquireOrWait fdKey t key h desired share)"
        "fst (snd (acquireOrWait fdKey t key h desired share))"]) simp

lemma two_readers_reachable: "reachable_shares two_readers"
  unfolding two_readers_def by (intro reachable_shares_acquire) simp

lemma share_masks:
  "sharingReadAccess = 0xB0000021" "sharingWriteAccess = 0x50000006" "sharingDeleteAccess = 0x10010000"
  "sharingAttrOnlyAccess = 0x00100180"
  by (simp_all add: sharingReadAccess_def sharingWriteAccess_def sharingDeleteAccess_def sharingAttrOnlyAccess_def)

abbreviation reader :: "open_ref \<Rightarrow> shareModeEntry" where
  "reader h \<equiv> \<lparr>sme_owner = Some h, sme_read = True, sme_write = False, sme_del = False, sme_attrOnly = False, sme_shared = 1\<rparr>"

lemma new_reader: "newShareModeEntry (Some h) 1 1 = reader h"
  by (simp add: newShareModeEntry_def share_masks)

lemma readers_tolerate: "\<not> shareConflict (reader a) (reader b)"
  by (simp add: shareConflict_def shareAccessRead_def)

lemma two_readers_eq:
  "two_readers = \<lparr>sm_byFile = (\<lambda>_. None)(skey \<mapsto> [reader 1, reader 2]), sm_owners = (\<lambda>_. None)(1 \<mapsto> skey, 2 \<mapsto> skey),
     sm_waiters = (\<lambda>_. None), sm_closed = [], sm_next = 0\<rparr>"
  by (simp add: two_readers_def acquireOrWait_def acquireLocked_def newShareModeTable_def new_reader entries_def
      sm_store_def entryLive_def readers_tolerate Let_def)

lemma two_readers_entries: "entries two_readers skey = [reader 1, reader 2]"
  by (simp add: two_readers_eq entries_def)

theorem share_modes_tolerate_each_other_witness:
  "used_mask (reader 1) AND NOT (sme_shared (reader 2)) = 0 \<and> used_mask (reader 2) AND NOT (sme_shared (reader 1)) = 0
    \<and> sm_owners two_readers 1 = Some skey"
  using share_modes_tolerate_each_other [OF two_readers_reachable, of skey 1]
  by (simp add: two_readers_entries)

text \<open>A writer (desired access 2, sharing everything) is refused.\<close>

lemma writer_conflicts: "shareConflict (reader a) (newShareModeEntry (Some h) 2 7)"
  by (simp add: shareConflict_def newShareModeEntry_def share_masks shareAccessRead_def shareAccessWrite_def)

end
