(* ===== verification/Handles.thy ===== *)
theory Handles
  imports Lock_Manager Share_Modes
begin

text \<open>
  Open handles (\<^verbatim>\<open>Open\<close> and \<^verbatim>\<open>Tree\<close> of \<^verbatim>\<open>internal/parent/session.go\<close>, the share of
  \<^verbatim>\<open>internal/config\<close>) and the process-wide
  state a handle's release touches: the share-mode table, the lock table and the
  descriptors. \<open>releaseOpen\<close> and \<open>releaseOpenKeepShareMode\<close> are those of \<^verbatim>\<open>durable.go\<close>.

  Handles are objects shared by pointer, so the state has a heap of them. The
  descriptor behind a handle is described by \<open>fstat\<close>, an argument: the file key, or an
  errno. Closing a descriptor is recorded in a log, newest first.
\<close>

record ShareConfig =
  sc_Name :: gostring
  sc_Path :: gostring
  sc_ReadOnly :: bool
  sc_GuestOK :: bool

record Tree =
  t_ID :: u32
  t_Share :: ShareConfig

abbreviation t_ShareName :: "Tree \<Rightarrow> gostring" where
  "t_ShareName tree \<equiv> sc_Name (t_Share tree)"

record Open =
  o_FileID :: bytes
  o_Path :: gostring
  o_LinkPath :: gostring
  o_IsDir :: bool
  o_IsPipe :: bool
  o_IsStream :: bool
  o_HasFile :: bool
  o_Tree :: "Tree option"
  o_DeleteOnClose :: bool
  o_GrantedAccess :: u32
  o_IsDurable :: bool
  o_DurableClientGuid :: bytes
  o_DurableCreateGuid :: bytes
  o_PipeName :: gostring
  o_pipeOut :: bytes
  o_StreamName :: gostring
  o_streamBuf :: bytes
  o_streamWritten :: bool
  o_streamSynthetic :: bool

definition namePath :: "Open \<Rightarrow> gostring" where
  "namePath h = (if o_LinkPath h \<noteq> [] then o_LinkPath h else o_Path h)"

definition durableWriteAccess :: u32 where
  "durableWriteAccess = accFileWriteData OR accFileAppendData OR AccessGenericWrite OR AccessGenericAll"

record handles =
  hs_opens :: "open_ref \<Rightarrow> Open"
  hs_locks :: lockTable
  hs_shares :: shareModeTable
  hs_closed :: "open_ref list"

text \<open>What the share-mode table finds behind a handle: nothing once the descriptor is gone.\<close>

definition fd_keys :: "key_for \<Rightarrow> handles \<Rightarrow> (open_ref \<rightharpoonup> fileKey)" where
  "fd_keys fstat hs h =
     (if o_HasFile (hs_opens hs h) \<and> h \<notin> set (hs_closed hs)
      then (case fstat h of Inl _ \<Rightarrow> None | Inr key \<Rightarrow> Some key) else None)"

definition close_file :: "open_ref \<Rightarrow> handles \<Rightarrow> handles" where
  "close_file h hs = hs\<lparr>hs_closed := h # hs_closed hs\<rparr>"

definition releaseOpenKeepShareMode :: "key_for \<Rightarrow> open_ref option \<Rightarrow> handles \<Rightarrow> handles" where
  "releaseOpenKeepShareMode fstat ho hs =
     (case ho of
        None \<Rightarrow> hs
      | Some h \<Rightarrow>
          if \<not> o_HasFile (hs_opens hs h) then hs
          else close_file h (hs\<lparr>hs_locks := releaseAll fstat (hs_locks hs) h\<rparr>))"

definition releaseOpen :: "key_for \<Rightarrow> open_ref option \<Rightarrow> handles \<Rightarrow> handles" where
  "releaseOpen fstat ho hs =
     (case ho of
        None \<Rightarrow> hs
      | Some h \<Rightarrow> releaseOpenKeepShareMode fstat ho (hs\<lparr>hs_shares := sm_release (hs_shares hs) (Some h)\<rparr>))"

section \<open>What a release leaves behind\<close>

definition holds_nothing :: "open_ref \<Rightarrow> handles \<Rightarrow> bool" where
  "holds_nothing h hs \<longleftrightarrow> sm_owners (hs_shares hs) h = None"

lemma sm_release_owner: "sm_owners (sm_release t (Some h)) h = None"
  by (simp add: sm_release_def Let_def split: option.splits)

lemma sm_release_others: "h' \<noteq> h \<Longrightarrow> sm_owners (sm_release t (Some h)) h' = sm_owners t h'"
  by (simp add: sm_release_def Let_def split: option.splits)

lemma releaseAll_ranges:
  assumes "fstat h = Inr key"
  shows "ranges_of (lt_t (releaseAll fstat tbl h)) key = filter (\<lambda>r. lr_owner r \<noteq> h) (ranges_of (lt_t tbl) key)"
  using assms by (simp add: releaseAll_def lt_releaseOwner_def Let_def rt_releaseOwner_def ranges_of_store_filtered)

lemma releaseOpen_shares [simp]:
  "hs_shares (releaseOpen fstat (Some h) hs) = sm_release (hs_shares hs) (Some h)"
  by (simp add: releaseOpen_def releaseOpenKeepShareMode_def close_file_def)

lemma releaseOpen_opens [simp]:
  "hs_opens (releaseOpen fstat ho hs) = hs_opens hs" "hs_opens (releaseOpenKeepShareMode fstat ho hs) = hs_opens hs"
  by (simp_all add: releaseOpen_def releaseOpenKeepShareMode_def close_file_def split: option.splits)

lemma releaseOpen_closed [simp]:
  "hs_closed (releaseOpen fstat (Some h) hs) = (if o_HasFile (hs_opens hs h) then h # hs_closed hs else hs_closed hs)"
  "hs_closed (releaseOpenKeepShareMode fstat (Some h) hs) =
     (if o_HasFile (hs_opens hs h) then h # hs_closed hs else hs_closed hs)"
  by (simp_all add: releaseOpen_def releaseOpenKeepShareMode_def close_file_def)

text \<open>Releasing a batch of handles one after the other.\<close>

definition release_batch :: "key_for \<Rightarrow> open_ref list \<Rightarrow> handles \<Rightarrow> handles" where
  "release_batch fstat os hs = fold (\<lambda>h. releaseOpen fstat (Some h)) os hs"

lemma release_batch_simps [simp]:
  "release_batch fstat [] hs = hs"
  "release_batch fstat (h # os) hs = release_batch fstat os (releaseOpen fstat (Some h) hs)"
  by (simp_all add: release_batch_def)

lemma release_batch_opens [simp]: "hs_opens (release_batch fstat os hs) = hs_opens hs"
  by (induction os arbitrary: hs) simp_all

lemma release_batch_closed:
  "hs_closed (release_batch fstat os hs) = rev (filter (\<lambda>h. o_HasFile (hs_opens hs h)) os) @ hs_closed hs"
  by (induction os arbitrary: hs) simp_all

lemma release_batch_owners:
  "sm_owners (hs_shares (release_batch fstat os hs)) h = (if h \<in> set os then None else sm_owners (hs_shares hs) h)"
proof (induction os arbitrary: hs)
  case (Cons x os)
  then show ?case
    by (cases "x = h") (simp_all add: sm_release_owner sm_release_others)
qed simp

end
