(* ===== verification/Create_Contexts.thy ===== *)
theory Create_Contexts
  imports Smb2_Message_Props
begin

text \<open>
  SMB2 create contexts: the linked list of \<^verbatim>\<open>internal/smb2/create.go\<close>
  (\<^verbatim>\<open>IterateCreateContexts\<close>, \<^verbatim>\<open>EncodeCreateContexts\<close>), the contexts a durable open or a
  lease travels in (\<^verbatim>\<open>internal/parent/durable.go\<close>, parsing half) and the previous-version
  token (\<^verbatim>\<open>timewarp.go\<close>). A callback is a function on a state that also says whether to
  go on; \<open>None\<close> is a panic of the callback.
\<close>

record create_context =
  cc_Name :: bytes
  cc_Data :: bytes

text \<open>One pass of the loop body up to the callback: the Next field and the entry at \<open>off\<close>.\<close>

definition context_at :: "bytes \<Rightarrow> nat \<Rightarrow> (nat \<times> create_context) option" where
  "context_at raw off = do {
     nx \<leftarrow> u32_at raw off;
     nameOff \<leftarrow> u16_at raw (off + 4);
     nameLen \<leftarrow> u16_at raw (off + 6);
     dataOff \<leftarrow> u16_at raw (off + 10);
     dataLen \<leftarrow> u32_at raw (off + 12);
     name \<leftarrow> (if unat nameLen > 0 \<and> off + unat nameOff + unat nameLen \<le> length raw
              then go_slice raw (off + unat nameOff) (off + unat nameOff + unat nameLen) else Some []);
     data \<leftarrow> (if unat dataLen > 0 \<and> off + unat dataOff + unat dataLen \<le> length raw
              then go_slice raw (off + unat dataOff) (off + unat dataOff + unat dataLen) else Some []);
     Some (unat nx, \<lparr>cc_Name = name, cc_Data = data\<rparr>)
   }"

function iterate_from :: "bytes \<Rightarrow> ('s \<Rightarrow> create_context \<Rightarrow> (bool \<times> 's) option) \<Rightarrow> nat \<Rightarrow> 's \<Rightarrow> 's option" where
  "iterate_from raw fn off st =
     (if off < length raw then
        if length raw - off < 16 then Some st
        else (case context_at raw off of
           None \<Rightarrow> None
         | Some (nx, c) \<Rightarrow>
             (case fn st c of
                None \<Rightarrow> None
              | Some (go_on, st') \<Rightarrow>
                  if \<not> go_on then Some st'
                  else if nx = 0 then Some st'
                  else iterate_from raw fn (off + nx) st'))
      else Some st)"
  by pat_completeness auto
termination
  by (relation "measure (\<lambda>(raw, fn, off, st). length raw - off)") auto

declare iterate_from.simps [simp del]

definition IterateCreateContexts :: "bytes \<Rightarrow> ('s \<Rightarrow> create_context \<Rightarrow> (bool \<times> 's) option) \<Rightarrow> 's \<Rightarrow> 's option" where
  "IterateCreateContexts raw fn st = iterate_from raw fn 0 st"

definition pad8 :: "bytes \<Rightarrow> bytes" where
  "pad8 e = e @ zeros ((8 - length e mod 8) mod 8)"

definition encode_context :: "bool \<Rightarrow> create_context \<Rightarrow> bytes option" where
  "encode_context isLast c = do {
     hdr \<leftarrow> put_at 4 (le16 16) (zeros 16);
     hdr \<leftarrow> put_at 6 (le16 (word_of_nat (length (cc_Name c)))) hdr;
     hdr \<leftarrow> put_at 12 (le32 (word_of_nat (length (cc_Data c)))) hdr;
     let out = pad8 (hdr @ cc_Name c);
     out \<leftarrow> put_at 10 (le16 (word_of_nat (length out))) out;
     let out = out @ cc_Data c;
     (if isLast then Some out
      else (let out = pad8 out in put_at 0 (le32 (word_of_nat (length out))) out))
   }"

fun encode_contexts :: "create_context list \<Rightarrow> bytes option" where
  "encode_contexts [] = Some []"
| "encode_contexts [c] = encode_context True c"
| "encode_contexts (c # cs) = do { e \<leftarrow> encode_context False c; es \<leftarrow> encode_contexts cs; Some (e @ es) }"

definition EncodeCreateContexts :: "create_context list \<Rightarrow> bytes option" where
  "EncodeCreateContexts ctxs = (if length ctxs = 0 then Some [] else encode_contexts ctxs)"

section \<open>Durable-handle, lease and timewarp contexts\<close>

definition tagDH2Q :: bytes where "tagDH2Q = [0x44, 0x48, 0x32, 0x51]"
definition tagDHnQ :: bytes where "tagDHnQ = [0x44, 0x48, 0x6e, 0x51]"
definition tagDH2C :: bytes where "tagDH2C = [0x44, 0x48, 0x32, 0x43]"
definition tagDHnC :: bytes where "tagDHnC = [0x44, 0x48, 0x6e, 0x43]"
definition tagRqLs :: bytes where "tagRqLs = [0x52, 0x71, 0x4c, 0x73]"
definition tagTwrp :: bytes where "tagTwrp = [0x54, 0x57, 0x72, 0x70]"

record durableRequest =
  dq_present :: bool
  dq_v2 :: bool
  dq_timeout :: u32
  dq_flags :: u32
  dq_guid :: bytes

record durableReconnect =
  dc_present :: bool
  dc_v2 :: bool
  dc_fileID :: bytes
  dc_guid :: bytes

record leaseRequest =
  ls_present :: bool
  ls_v2 :: bool
  ls_key :: bytes
  ls_state :: u32

type_synonym durable_contexts = "durableRequest \<times> durableReconnect \<times> leaseRequest"

definition no_durable :: durable_contexts where
  "no_durable =
     (\<lparr>dq_present = False, dq_v2 = False, dq_timeout = 0, dq_flags = 0, dq_guid = zeros 16\<rparr>,
      \<lparr>dc_present = False, dc_v2 = False, dc_fileID = zeros 16, dc_guid = zeros 16\<rparr>,
      \<lparr>ls_present = False, ls_v2 = False, ls_key = zeros 16, ls_state = 0\<rparr>)"

definition eqTag :: "bytes \<Rightarrow> bytes \<Rightarrow> bool" where
  "eqTag name tag =
     (if length name \<noteq> length tag then False else list_all (\<lambda>i. name ! i = tag ! i) [0..<length name])"

definition rqLsV1Size :: nat where "rqLsV1Size = 32"
definition rqLsV2Size :: nat where "rqLsV2Size = 52"

definition durable_step :: "durable_contexts \<Rightarrow> create_context \<Rightarrow> (bool \<times> durable_contexts) option" where
  "durable_step s c =
     (case s of (dq, dc, lr) \<Rightarrow>
      let data = cc_Data c in
      if eqTag (cc_Name c) tagDH2Q then
        if length data \<ge> 32 then do {
          timeout \<leftarrow> u32_at data 0;
          flags \<leftarrow> u32_at data 4;
          guid \<leftarrow> go_slice data 16 32;
          Some (True, (\<lparr>dq_present = True, dq_v2 = True, dq_timeout = timeout, dq_flags = flags, dq_guid = guid\<rparr>, dc, lr))
        } else Some (True, s)
      else if eqTag (cc_Name c) tagDHnQ then
        Some (True, (dq\<lparr>dq_present := True, dq_v2 := False\<rparr>, dc, lr))
      else if eqTag (cc_Name c) tagDH2C then
        if length data \<ge> 36 then do {
          fileID \<leftarrow> go_slice data 0 16;
          guid \<leftarrow> go_slice data 16 32;
          Some (True, (dq, \<lparr>dc_present = True, dc_v2 = True, dc_fileID = fileID, dc_guid = guid\<rparr>, lr))
        } else Some (True, s)
      else if eqTag (cc_Name c) tagDHnC then
        if length data \<ge> 16 then do {
          fileID \<leftarrow> go_slice data 0 16;
          Some (True, (dq, dc\<lparr>dc_present := True, dc_v2 := False, dc_fileID := fileID\<rparr>, lr))
        } else Some (True, s)
      else if eqTag (cc_Name c) tagRqLs then
        if length data \<ge> 20 then do {
          key \<leftarrow> go_slice data 0 16;
          state \<leftarrow> u32_at data 16;
          Some (True, (dq, dc, \<lparr>ls_present = True, ls_v2 = (length data \<ge> rqLsV2Size), ls_key = key, ls_state = state\<rparr>))
        } else Some (True, s)
      else Some (True, s))"

definition parseDurableContexts :: "bytes \<Rightarrow> durable_contexts option" where
  "parseDurableContexts raw =
     (if length raw = 0 then Some no_durable else IterateCreateContexts raw durable_step no_durable)"

definition hasTimewarpContext :: "bytes \<Rightarrow> bool option" where
  "hasTimewarpContext raw =
     (if length raw = 0 then Some False
      else IterateCreateContexts raw
        (\<lambda>found c. if cc_Name c = tagTwrp then Some (False, True) else Some (True, found)) False)"

definition encodeDH2QResponse :: "u32 \<Rightarrow> u32 \<Rightarrow> bytes option" where
  "encodeDH2QResponse timeout flags = do {
     b \<leftarrow> put_at 0 (le32 timeout) (zeros 8);
     put_at 4 (le32 flags) b
   }"

definition encodeDHnQResponse :: bytes where
  "encodeDHnQResponse = zeros 8"

definition encodeRqLsResponse :: "bytes \<Rightarrow> u32 \<Rightarrow> bool \<Rightarrow> bytes option" where
  "encodeRqLsResponse key granted v2 =
     (let size = (if v2 then rqLsV2Size else rqLsV1Size) in do {
        b \<leftarrow> put_at 0 key (zeros size);
        put_at 16 (le32 granted) b
      })"

section \<open>No panic, and what the encoder's output iterates to\<close>

lemma eqTag_iff [simp]: "eqTag name tag \<longleftrightarrow> name = tag"
  by (auto simp: eqTag_def list_all_iff intro: nth_equalityI)

lemma context_at_no_panic: "off + 16 \<le> length raw \<Longrightarrow> context_at raw off \<noteq> None"
  by (simp add: context_at_def go_panic bind_eq_None_conv)

lemma iterate_from_no_panic:
  "(\<And>st c. fn st c \<noteq> None) \<Longrightarrow> iterate_from raw fn off st \<noteq> None"
proof (induction raw fn off st rule: iterate_from.induct)
  case (1 raw fn off st)
  show ?case
  proof (cases "off + 16 \<le> length raw")
    case True
    then obtain nx c where c: "context_at raw off = Some (nx, c)"
      using context_at_no_panic by fastforce
    obtain go_on st' where st': "fn st c = Some (go_on, st')"
      using "1.prems" [of st c] by auto
    show ?thesis
      using True c st' "1.IH" [OF _ _ c refl st' refl _ _ "1.prems"]
      by (subst iterate_from.simps) auto
  next
    case False
    then show ?thesis by (subst iterate_from.simps) auto
  qed
qed

text \<open>What a callback sees of a list of contexts.\<close>

fun fold_contexts :: "('s \<Rightarrow> create_context \<Rightarrow> (bool \<times> 's) option) \<Rightarrow> 's \<Rightarrow> create_context list \<Rightarrow> 's option" where
  "fold_contexts fn st [] = Some st"
| "fold_contexts fn st (c # cs) =
     (case fn st c of
        None \<Rightarrow> None
      | Some (go_on, st') \<Rightarrow> if go_on then fold_contexts fn st' cs else Some st')"

definition wire_context :: "create_context \<Rightarrow> bool" where
  "wire_context c \<longleftrightarrow> length (cc_Name c) \<le> 65000 \<and> length (cc_Data c) < 2 ^ 31"

lemma length_pad8: "length (pad8 e) mod 8 = 0" "length e \<le> length (pad8 e)" "length (pad8 e) < length e + 8"
proof -
  have "(n + (8 - n mod 8) mod 8) mod 8 = 0" for n :: nat
    by (metis add_diff_inverse_nat add.commute le_add_diff_inverse2 less_imp_le_nat mod_add_left_eq mod_add_right_eq
        mod_less_divisor mod_self zero_less_numeral)
  then show "length (pad8 e) mod 8 = 0" by (simp add: pad8_def)
  show "length e \<le> length (pad8 e)" "length (pad8 e) < length e + 8"
    by (simp_all add: pad8_def)
qed

definition context_header :: "nat \<Rightarrow> create_context \<Rightarrow> nat \<Rightarrow> bytes" where
  "context_header nx c dataOff =
     patch 0 (le32 (word_of_nat nx)) (patch 10 (le16 (word_of_nat dataOff)) (patch 12 (le32 (word_of_nat (length (cc_Data c))))
       (patch 6 (le16 (word_of_nat (length (cc_Name c)))) (patch 4 (le16 16) (zeros 16)))))"

lemma length_context_header [simp]: "length (context_header nx c d) = 16"
  by (simp add: context_header_def)

lemma patch_zero_zeros: "patch 0 (le32 0) (patch 10 a (patch 12 b (patch 6 c (patch 4 d (zeros 16))))) =
    patch 10 a (patch 12 b (patch 6 c (patch 4 d (zeros 16))))" (is "patch 0 _ ?b = _")
proof (rule nth_equalityI)
  fix i assume "i < length (patch 0 (le32 0) ?b)"
  then show "patch 0 (le32 0) ?b ! i = ?b ! i"
    by (cases "i < 4") (simp_all add: nth_patch nth_le_bytes)
qed simp

definition name_pad :: "create_context \<Rightarrow> nat" where
  "name_pad c = (8 - (16 + length (cc_Name c)) mod 8) mod 8"

lemma name_pad_less: "name_pad c < 8"
  by (simp add: name_pad_def)

definition data_off :: "create_context \<Rightarrow> nat" where
  "data_off c = 16 + length (cc_Name c) + name_pad c"

lemma pad8_name: "length h = 16 \<Longrightarrow> pad8 (h @ cc_Name c) = h @ cc_Name c @ zeros (name_pad c)"
  by (simp add: pad8_def name_pad_def)

lemma encode_context_last:
  "encode_context True c = Some (context_header 0 c (data_off c) @ cc_Name c @ zeros (name_pad c) @ cc_Data c)"
  by (simp add: encode_context_def go_panic pad8_name Let_def patch_append_left context_header_def data_off_def
      patch_zero_zeros ac_simps)

definition data_pad :: "create_context \<Rightarrow> nat" where
  "data_pad c = (8 - (data_off c + length (cc_Data c)) mod 8) mod 8"

definition entry_length :: "create_context \<Rightarrow> nat" where
  "entry_length c = data_off c + length (cc_Data c) + data_pad c"

lemma pad8_data:
  "length h = 16 \<Longrightarrow> pad8 (h @ cc_Name c @ zeros (name_pad c) @ cc_Data c) =
    h @ cc_Name c @ zeros (name_pad c) @ cc_Data c @ zeros (data_pad c)"
  by (simp add: pad8_def data_pad_def data_off_def ac_simps)

lemma encode_context_more:
  "encode_context False c = Some (context_header (entry_length c) c (data_off c) @ cc_Name c @ zeros (name_pad c)
     @ cc_Data c @ zeros (data_pad c))"
  by (simp add: encode_context_def go_panic pad8_name pad8_data Let_def patch_append_left context_header_def
      data_off_def entry_length_def ac_simps)

text \<open>Reading the fields of an entry that starts the buffer.\<close>

lemma take_patch_0: "n = length xs \<Longrightarrow> n \<le> length buf \<Longrightarrow> take n (patch 0 xs buf @ ys) = xs"
  using patch_same [of 0 xs buf n] by simp

lemma take_drop_append: "k + n \<le> length a \<Longrightarrow> take n (drop k (a @ b)) = take n (drop k a)"
  by simp

lemma context_at_entry:
  assumes c: "wire_context c" and nx: "nx < 2 ^ 32"
  shows "context_at (context_header nx c (data_off c) @ cc_Name c @ zeros (name_pad c) @ cc_Data c @ rest) 0 = Some (nx, c)"
    (is "context_at ?raw 0 = _")
proof -
  let ?h = "context_header nx c (data_off c)"
  note name_pad_less [of c]
  then have lens: "length (cc_Name c) < 2 ^ 16" "data_off c < 2 ^ 16" "length (cc_Data c) < 2 ^ 32"
    using c by (simp_all add: wire_context_def data_off_def)
  have "u32_at ?raw 0 = Some (word_of_nat nx)" and "u16_at ?raw 4 = Some 16"
    and "u16_at ?raw 6 = Some (word_of_nat (length (cc_Name c)))" and "u16_at ?raw 10 = Some (word_of_nat (data_off c))"
    and "u32_at ?raw 12 = Some (word_of_nat (length (cc_Data c)))"
    unfolding u16_at_def u32_at_def
    by (simp_all add: take_drop_append context_header_def byte_layout drop_patch drop_patch_same take_patch_0
        del: take_append drop_append)
  moreover have "unat (word_of_nat nx :: u32) = nx" "unat (word_of_nat (length (cc_Name c)) :: u16) = length (cc_Name c)"
    "unat (word_of_nat (data_off c) :: u16) = data_off c" "unat (word_of_nat (length (cc_Data c)) :: u32) = length (cc_Data c)"
    using lens nx by (simp_all add: unat_of_nat take_bit_nat_eq_self_iff)
  moreover have "(if length (cc_Name c) > 0 \<and> 0 + 16 + length (cc_Name c) \<le> length ?raw
      then go_slice ?raw (0 + 16) (0 + 16 + length (cc_Name c)) else Some []) = Some (cc_Name c)"
    by (simp add: go_slice_def)
  moreover have "(if length (cc_Data c) > 0 \<and> 0 + data_off c + length (cc_Data c) \<le> length ?raw
      then go_slice ?raw (0 + data_off c) (0 + data_off c + length (cc_Data c)) else Some []) = Some (cc_Data c)"
    by (simp add: go_slice_def data_off_def)
  moreover have "\<lparr>cc_Name = cc_Name c, cc_Data = cc_Data c\<rparr> = c" by (cases c) simp
  moreover have "unat (16 :: u16) = 16" by simp
  ultimately show ?thesis
    unfolding context_at_def by (simp only: bind.bind_lunit add_0_left)
qed

lemma read_drop:
  assumes "off \<le> length raw"
  shows "u16_at raw (off + k) = u16_at (drop off raw) k" and "u32_at raw (off + k) = u32_at (drop off raw) k"
    and "go_slice raw (off + a) (off + b) = go_slice (drop off raw) a b"
    and "off + (a + b) \<le> length raw \<longleftrightarrow> a + b \<le> length (drop off raw)"
  using assms by (auto simp: u16_at_def u32_at_def go_slice_def add.commute)

lemma context_at_drop:
  assumes "off \<le> length raw"
  shows "context_at raw off = context_at (drop off raw) 0"
proof -
  have "u32_at raw off = u32_at (drop off raw) 0"
    using read_drop(2) [OF assms, of 0] by simp
  then show ?thesis
    unfolding context_at_def add.assoc [of off] read_drop(1,2) [OF assms] read_drop(3) [OF assms] read_drop(4) [OF assms]
    by (simp only: add_0_right add_0_left)
qed

lemma iterate_from_context:
  assumes "16 \<le> length (drop off raw)" and "context_at (drop off raw) 0 = Some (nx, c)"
  shows "iterate_from raw fn off st =
    (case fn st c of None \<Rightarrow> None
     | Some (go_on, st') \<Rightarrow> if \<not> go_on then Some st' else if nx = 0 then Some st' else iterate_from raw fn (off + nx) st')"
proof -
  have "context_at raw off = Some (nx, c)"
    using assms context_at_drop [of off raw] by simp
  moreover have "off < length raw" "\<not> length raw - off < 16" using assms(1) by simp_all
  ultimately show ?thesis by (subst iterate_from.simps) simp
qed

lemma entry_length_bounds: "wire_context c \<Longrightarrow> entry_length c < 2 ^ 32" "0 < entry_length c"
proof -
  have "data_pad c < 8" by (simp add: data_pad_def)
  with name_pad_less [of c] show "wire_context c \<Longrightarrow> entry_length c < 2 ^ 32"
    by (simp add: wire_context_def entry_length_def data_off_def)
  show "0 < entry_length c" by (simp add: entry_length_def data_off_def)
qed

lemma iterate_last:
  assumes "wire_context c" and "encode_context True c = Some (drop off raw)"
  shows "iterate_from raw fn off st = fold_contexts fn st [c]"
proof -
  have d: "drop off raw = context_header 0 c (data_off c) @ cc_Name c @ zeros (name_pad c) @ cc_Data c @ []"
    using assms(2) by (simp add: encode_context_last)
  have "context_at (drop off raw) 0 = Some (0, c)"
    unfolding d by (rule context_at_entry [OF assms(1)]) simp
  moreover have "16 \<le> length (drop off raw)" unfolding d by simp
  ultimately show ?thesis
    by (simp add: iterate_from_context split: option.split)
qed

lemma iterate_more:
  assumes "wire_context c" and "encode_context False c = Some e" and "drop off raw = e @ es"
  shows "drop (off + entry_length c) raw = es"
    and "iterate_from raw fn off st =
      (case fn st c of None \<Rightarrow> None
       | Some (go_on, st') \<Rightarrow> if \<not> go_on then Some st' else iterate_from raw fn (off + entry_length c) st')"
proof -
  have e: "e = context_header (entry_length c) c (data_off c) @ cc_Name c @ zeros (name_pad c) @ cc_Data c @ zeros (data_pad c)"
    using assms(2) by (simp add: encode_context_more)
  have len: "length e = entry_length c" by (simp add: e entry_length_def data_off_def)
  have "drop (off + entry_length c) raw = drop (entry_length c) (drop off raw)" by (simp add: add.commute)
  then show "drop (off + entry_length c) raw = es" by (simp add: assms(3) len)
  have "context_at (drop off raw) 0 = Some (entry_length c, c)"
    using context_at_entry [OF assms(1) entry_length_bounds(1) [OF assms(1)], of "zeros (data_pad c) @ es"]
    by (simp add: assms(3) e)
  moreover have "16 \<le> length (drop off raw)" by (simp add: assms(3) e)
  ultimately show "iterate_from raw fn off st =
      (case fn st c of None \<Rightarrow> None
       | Some (go_on, st') \<Rightarrow> if \<not> go_on then Some st' else iterate_from raw fn (off + entry_length c) st')"
    using entry_length_bounds(2) [of c] by (cases "fn st c") (auto simp: iterate_from_context)
qed

lemma iterate_encoded:
  "list_all wire_context cs \<Longrightarrow> cs \<noteq> [] \<Longrightarrow> encode_contexts cs = Some (drop off raw) \<Longrightarrow>
    iterate_from raw fn off st = fold_contexts fn st cs"
proof (induction cs arbitrary: off st rule: encode_contexts.induct)
  case (2 c)
  then show ?case using iterate_last by simp
next
  case (3 c c' cs)
  obtain e es where e: "encode_context False c = Some e" and es: "encode_contexts (c' # cs) = Some es"
    and d: "drop off raw = e @ es"
    using 3(4) by (auto simp: bind_eq_Some_conv)
  have c: "wire_context c" using 3(2) by simp
  note more = iterate_more [OF c e d]
  have "iterate_from raw fn (off + entry_length c) st' = fold_contexts fn st' (c' # cs)" for st'
    using 3(1) [OF e, of "off + entry_length c" st'] 3(2) es more(1) by simp
  then show ?case
    unfolding more(2) [of fn st] by (cases "fn st c") auto
qed simp

lemma encode_contexts_ok: "encode_contexts cs \<noteq> None"
  by (induction cs rule: encode_contexts.induct) (auto simp: encode_context_last encode_context_more)

text \<open>Every list of create contexts (names up to 65000 bytes, data under 2 GiB) is serialised without a
  panic, and iterating over the bytes shows the callback exactly those contexts in
  order, stopping where it asks to stop.\<close>

theorem create_contexts_roundtrip:
  assumes "list_all wire_context cs"
  shows "\<exists>raw. EncodeCreateContexts cs = Some raw \<and> IterateCreateContexts raw fn st = fold_contexts fn st cs"
proof (cases "cs = []")
  case True
  then show ?thesis by (simp add: EncodeCreateContexts_def IterateCreateContexts_def iterate_from.simps)
next
  case False
  obtain raw where raw: "encode_contexts cs = Some raw" using encode_contexts_ok [of cs] by auto
  with iterate_encoded [OF assms False, of 0 raw fn st] False show ?thesis
    by (simp add: EncodeCreateContexts_def IterateCreateContexts_def)
qed

lemma durable_step_no_panic: "durable_step s c \<noteq> None"
  by (cases s) (auto simp: durable_step_def Let_def go_panic)

text \<open>Whatever bytes a client sends as create contexts, the walk over them ends and neither the
  durable-handle parser nor the timewarp check panics.\<close>

theorem create_context_parsers_never_panic:
  "parseDurableContexts raw \<noteq> None \<and> hasTimewarpContext raw \<noteq> None"
proof
  show "parseDurableContexts raw \<noteq> None"
    unfolding parseDurableContexts_def IterateCreateContexts_def
    using iterate_from_no_panic [of durable_step raw 0 no_durable, OF durable_step_no_panic]
    by (auto simp del: not_None_eq)
  show "hasTimewarpContext raw \<noteq> None"
    unfolding hasTimewarpContext_def IterateCreateContexts_def
    using iterate_from_no_panic [of "\<lambda>found c. if cc_Name c = tagTwrp then Some (False, True) else Some (True, found)" raw 0 False]
    by (auto simp del: not_None_eq)
qed

end
