(* ===== verification/Durable.thy ===== *)
theory Durable
  imports Handles Create_Contexts
begin

text \<open>
  Durable handles (\<^verbatim>\<open>internal/parent/durable.go\<close>): the server-wide table of reclaimable
  opens, the reconnect handler and the grant on CREATE.

  Times and durations are nanoseconds. An attached entry's deadline is the zero
  \<^verbatim>\<open>time.Time\<close> in the code; here it is \<open>None\<close>. The map is an association list with one
  pair per key; its order stands for the unspecified order of a Go map. A table
  operation takes the process state as well, since it may release handles. A nil table
  is the caller's case.
\<close>

record durableKey =
  dk_clientGuid :: bytes
  dk_createGuid :: bytes

record durableEntry =
  de_open :: open_ref
  de_deadline :: "int option"
  de_timeout :: int
  de_shareName :: gostring
  de_userName :: gostring

type_synonym DurableTable = "(durableKey \<times> durableEntry) list"

definition attached :: "durableEntry \<Rightarrow> bool" where
  "attached e \<longleftrightarrow> de_deadline e = None"

definition expired :: "durableEntry \<Rightarrow> int \<Rightarrow> bool" where
  "expired e now \<longleftrightarrow> \<not> attached e \<and> now > the (de_deadline e)"

definition NewDurableTable :: DurableTable where
  "NewDurableTable = []"

definition dt_delete :: "durableKey \<Rightarrow> DurableTable \<Rightarrow> DurableTable" where
  "dt_delete k t = filter (\<lambda>p. fst p \<noteq> k) t"

definition dt_put :: "durableKey \<Rightarrow> durableEntry \<Rightarrow> DurableTable \<Rightarrow> DurableTable" where
  "dt_put k e t = (k, e) # dt_delete k t"

definition Register :: "key_for \<Rightarrow> bytes \<Rightarrow> bytes \<Rightarrow> open_ref \<Rightarrow> int \<Rightarrow> gostring \<Rightarrow> gostring
    \<Rightarrow> handles \<Rightarrow> DurableTable \<Rightarrow> bool \<times> handles \<times> DurableTable" where
  "Register fstat clientGuid createGuid h timeout shareName userName hs t =
     (let k = \<lparr>dk_clientGuid = clientGuid, dk_createGuid = createGuid\<rparr>;
          prev = map_of t k;
          superseded = (case prev of None \<Rightarrow> False | Some p \<Rightarrow> de_open p \<noteq> h);
          entry = \<lparr>de_open = h, de_deadline = None, de_timeout = timeout,
                   de_shareName = shareName, de_userName = userName\<rparr>
      in if timeout \<le> 0 then
           (False,
            if superseded \<and> \<not> attached (the prev) then releaseOpen fstat (Some (de_open (the prev))) hs else hs,
            dt_delete k t)
         else if superseded then
           if attached (the prev) then (False, hs, t)
           else (True, releaseOpen fstat (Some (de_open (the prev))) hs, dt_put k entry t)
         else (True, hs, dt_put k entry t))"

definition Detach :: "int \<Rightarrow> bytes \<Rightarrow> bytes \<Rightarrow> DurableTable \<Rightarrow> DurableTable" where
  "Detach now clientGuid createGuid t =
     (let k = \<lparr>dk_clientGuid = clientGuid, dk_createGuid = createGuid\<rparr> in
      case map_of t k of
        None \<Rightarrow> t
      | Some e \<Rightarrow>
          if \<not> attached e then t
          else map (\<lambda>p. if fst p = k then (k, (snd p)\<lparr>de_deadline := Some (now + de_timeout (snd p))\<rparr>) else p) t)"

definition Reclaim :: "key_for \<Rightarrow> int \<Rightarrow> bytes \<Rightarrow> bytes \<Rightarrow> handles \<Rightarrow> DurableTable
    \<Rightarrow> open_ref option \<times> handles \<times> DurableTable" where
  "Reclaim fstat now clientGuid createGuid hs t =
     (let k = \<lparr>dk_clientGuid = clientGuid, dk_createGuid = createGuid\<rparr> in
      case map_of t k of
        None \<Rightarrow> (None, hs, t)
      | Some e \<Rightarrow>
          let t' = dt_delete k t in
          if expired e now then (None, releaseOpen fstat (Some (de_open e)) hs, t')
          else (Some (de_open e), hs, t'))"

definition reclaimChecked :: "key_for \<Rightarrow> int \<Rightarrow> bytes \<Rightarrow> bytes \<Rightarrow> gostring \<Rightarrow> gostring \<Rightarrow> bool
    \<Rightarrow> handles \<Rightarrow> DurableTable \<Rightarrow> open_ref option \<times> handles \<times> DurableTable" where
  "reclaimChecked fstat now clientGuid createGuid shareName userName requireDetached hs t =
     (let k = \<lparr>dk_clientGuid = clientGuid, dk_createGuid = createGuid\<rparr> in
      case map_of t k of
        None \<Rightarrow> (None, hs, t)
      | Some e \<Rightarrow>
          if expired e now then (None, releaseOpen fstat (Some (de_open e)) hs, dt_delete k t)
          else if requireDetached \<and> attached e then (None, hs, t)
          else if de_shareName e \<noteq> shareName then (None, hs, t)
          else if de_userName e \<noteq> userName then (None, hs, t)
          else (Some (de_open e), hs, dt_delete k t))"

definition reclaimForReconnect :: "key_for \<Rightarrow> int \<Rightarrow> bytes \<Rightarrow> bytes \<Rightarrow> gostring \<Rightarrow> gostring
    \<Rightarrow> handles \<Rightarrow> DurableTable \<Rightarrow> open_ref option \<times> handles \<times> DurableTable" where
  "reclaimForReconnect fstat now clientGuid createGuid shareName userName hs t =
     reclaimChecked fstat now clientGuid createGuid shareName userName True hs t"

definition Has :: "int \<Rightarrow> bytes \<Rightarrow> bytes \<Rightarrow> DurableTable \<Rightarrow> bool" where
  "Has now clientGuid createGuid t =
     (case map_of t \<lparr>dk_clientGuid = clientGuid, dk_createGuid = createGuid\<rparr> of
        None \<Rightarrow> False | Some e \<Rightarrow> \<not> expired e now)"

definition Remove :: "bytes \<Rightarrow> bytes \<Rightarrow> DurableTable \<Rightarrow> DurableTable" where
  "Remove clientGuid createGuid t = dt_delete \<lparr>dk_clientGuid = clientGuid, dk_createGuid = createGuid\<rparr> t"

fun Expire :: "key_for \<Rightarrow> int \<Rightarrow> handles \<Rightarrow> DurableTable \<Rightarrow> nat \<times> handles \<times> DurableTable" where
  "Expire fstat now hs [] = (0, hs, [])"
| "Expire fstat now hs ((k, e) # t) =
     (if expired e now then
        (case Expire fstat now (releaseOpen fstat (Some (de_open e)) hs) t of (n, hs', t') \<Rightarrow> (Suc n, hs', t'))
      else (case Expire fstat now hs t of (n, hs', t') \<Rightarrow> (n, hs', (k, e) # t')))"

definition durableLookupKey :: "durableReconnect \<Rightarrow> bytes" where
  "durableLookupKey rec = (if dc_v2 rec then dc_guid rec else dc_fileID rec)"

section \<open>Table laws\<close>

definition dt_inv :: "DurableTable \<Rightarrow> bool" where
  "dt_inv t \<longleftrightarrow> distinct (map fst t)"

lemma map_of_dt_delete: "map_of (dt_delete k t) k' = (if k' = k then None else map_of t k')"
  by (induction t) (auto simp: dt_delete_def)

lemma map_of_dt_put: "map_of (dt_put k e t) k' = (if k' = k then Some e else map_of t k')"
  by (simp add: dt_put_def map_of_dt_delete)

lemma dt_inv_delete: "dt_inv t \<Longrightarrow> dt_inv (dt_delete k t)"
  by (simp add: dt_inv_def dt_delete_def distinct_map_filter)

lemma dt_inv_put: "dt_inv t \<Longrightarrow> dt_inv (dt_put k e t)"
  using dt_inv_delete [of t k] by (auto simp: dt_inv_def dt_put_def dt_delete_def)

lemma map_of_Detach:
  "map_of (Detach now cg xg t) k =
     (case map_of t k of
        None \<Rightarrow> None
      | Some e \<Rightarrow> Some (if k = \<lparr>dk_clientGuid = cg, dk_createGuid = xg\<rparr> \<and> attached e
          then e\<lparr>de_deadline := Some (now + de_timeout e)\<rparr> else e))"
proof -
  let ?k = "\<lparr>dk_clientGuid = cg, dk_createGuid = xg\<rparr>"
  let ?f = "\<lambda>e. e\<lparr>de_deadline := Some (now + de_timeout e)\<rparr>"
  have "map_of (map (\<lambda>p. if fst p = ?k then (?k, ?f (snd p)) else p) t) k =
     (if k = ?k then map_option ?f (map_of t k) else map_of t k)"
    by (induction t) auto
  then show ?thesis
    by (auto simp: Detach_def Let_def split: option.splits)
qed

lemma dt_inv_Detach: "dt_inv t \<Longrightarrow> dt_inv (Detach now cg xg t)"
proof -
  have "fst \<circ> (\<lambda>p. if fst p = k then (k, g p) else p) = fst" for k :: durableKey and g :: "durableKey \<times> durableEntry \<Rightarrow> durableEntry"
    by (rule ext) simp
  then show "dt_inv t \<Longrightarrow> dt_inv (Detach now cg xg t)"
    by (simp add: dt_inv_def Detach_def Let_def split: option.splits)
qed

text \<open>The sweeper keeps what has not expired and releases the rest, one after the other.\<close>

lemma Expire_eq:
  "Expire fstat now hs t =
     (length (filter (\<lambda>p. expired (snd p) now) t),
      release_batch fstat (map (\<lambda>p. de_open (snd p)) (filter (\<lambda>p. expired (snd p) now) t)) hs,
      filter (\<lambda>p. \<not> expired (snd p) now) t)"
  by (induction fstat now hs t rule: Expire.induct) simp_all

lemma map_of_filter_value:
  "distinct (map fst t) \<Longrightarrow> map_of (filter (\<lambda>p. P (snd p)) t) k = (case map_of t k of None \<Rightarrow> None | Some v \<Rightarrow> if P v then Some v else None)"
proof (induction t)
  case (Cons p t)
  have "k \<notin> fst ` set t \<Longrightarrow> map_of (filter (\<lambda>p. P (snd p)) t) k = None"
    by (auto simp: map_of_eq_None_iff)
  with Cons show ?case
    by (cases p) (auto split: option.splits simp: map_of_eq_None_iff)
qed simp

text \<open>What a granted reclaim says of the entry it consumed.\<close>

lemma reclaimed_entry:
  assumes "reclaimForReconnect fstat now cg xg share user hs t = (Some h, hs', t')"
  obtains e d where "map_of t \<lparr>dk_clientGuid = cg, dk_createGuid = xg\<rparr> = Some e" and "de_open e = h"
    and "de_deadline e = Some d" and "now \<le> d" and "de_shareName e = share" and "de_userName e = user"
    and "hs' = hs" and "map_of t' = (map_of t)(\<lparr>dk_clientGuid = cg, dk_createGuid = xg\<rparr> := None)"
  using assms
  by (auto simp: reclaimForReconnect_def reclaimChecked_def Let_def expired_def attached_def map_of_dt_delete fun_eq_iff
      split: option.splits if_splits)

section \<open>The reconnect handler\<close>

definition leaseNone :: u32 where "leaseNone = 0x00"
definition leaseReadCaching :: u32 where "leaseReadCaching = 0x01"
definition leaseHandleCaching :: u32 where "leaseHandleCaching = 0x02"
definition leaseWriteCaching :: u32 where "leaseWriteCaching = 0x04"

text \<open>
  What the handler reads of its surroundings: the connection (client GUID, durable
  timeout), the tree and the user, what opening the path read-write and read-only
  returns (an errno on failure), the size and the times that go into the response, and
  whether the session still takes handles.
\<close>

record reconnect_env =
  re_clientGuid :: bytes
  re_durableTimeout :: int
  re_tree :: Tree
  re_userName :: gostring
  re_openRDWR :: "gostring \<Rightarrow> nat option"
  re_openRDONLY :: "gostring \<Rightarrow> nat option"
  re_size :: "u64 option"
  re_mtime :: u64
  re_addOpen :: bool

datatype reconnect_answer = NotReclaimed | SessionDeleted | Reclaimed "bytes option"

abbreviation (input) FileAttrNormal :: u32 where "FileAttrNormal \<equiv> 0x00000080"
abbreviation (input) FileAttrDirectory :: u32 where "FileAttrDirectory \<equiv> 0x00000010"
abbreviation (input) CreateActionOpened :: u32 where "CreateActionOpened \<equiv> 1"

definition reconnect_open :: "reconnect_env \<Rightarrow> durableReconnect \<Rightarrow> Open \<Rightarrow> Open" where
  "reconnect_open env rec saved =
     \<lparr>o_FileID = o_FileID saved, o_Path = o_Path saved, o_LinkPath = o_LinkPath saved, o_IsDir = o_IsDir saved,
      o_IsPipe = False, o_IsStream = False, o_HasFile = \<not> o_IsDir saved, o_Tree = Some (re_tree env),
      o_DeleteOnClose = o_DeleteOnClose saved, o_GrantedAccess = o_GrantedAccess saved, o_IsDurable = True,
      o_DurableClientGuid = re_clientGuid env, o_DurableCreateGuid = durableLookupKey rec,
      o_PipeName = [], o_pipeOut = [], o_StreamName = [], o_streamBuf = [], o_streamWritten = False, o_streamSynthetic = False\<rparr>"

text \<open>Re-opening the backing file: read-write, or read-only when no write access was granted.\<close>

definition reopen_ok :: "reconnect_env \<Rightarrow> Open \<Rightarrow> bool" where
  "reopen_ok env h =
     (if o_IsDir h then True
      else (case re_openRDWR env (o_Path h) of
              None \<Rightarrow> True
            | Some _ \<Rightarrow>
                if o_GrantedAccess h AND durableWriteAccess \<noteq> 0 then False
                else re_openRDONLY env (o_Path h) = None))"

definition reconnect_contexts :: "durableReconnect \<Rightarrow> leaseRequest \<Rightarrow> create_context list option" where
  "reconnect_contexts rec lr =
     (if dc_v2 rec then
        if ls_present lr then do {
          d \<leftarrow> encodeRqLsResponse (ls_key lr) leaseNone (ls_v2 lr);
          Some [\<lparr>cc_Name = tagRqLs, cc_Data = d\<rparr>]
        } else Some []
      else Some [\<lparr>cc_Name = tagDHnQ, cc_Data = encodeDHnQResponse\<rparr>])"

definition reconnect_response :: "reconnect_env \<Rightarrow> durableReconnect \<Rightarrow> leaseRequest \<Rightarrow> Open \<Rightarrow> bytes option" where
  "reconnect_response env rec lr h = do {
     echo \<leftarrow> reconnect_contexts rec lr;
     blob \<leftarrow> EncodeCreateContexts echo;
     let size = (if o_IsDir h then 0 else (case re_size env of None \<Rightarrow> 0 | Some n \<Rightarrow> n));
     EncodeCreateResponse
       \<lparr>crp_OplockLevel = 0, crp_Flags = 0, crp_CreateAction = CreateActionOpened,
        crp_CreationTime = re_mtime env, crp_LastAccessTime = re_mtime env, crp_LastWriteTime = re_mtime env,
        crp_ChangeTime = re_mtime env, crp_AllocationSize = size, crp_EndOfFile = size,
        crp_FileAttributes = (if o_IsDir h then FileAttrDirectory else FileAttrNormal),
        crp_FileID = o_FileID h, crp_CreateContexts = blob\<rparr>
   }"

text \<open>\<open>new\<close> is the address of the replacement handle.\<close>

definition handleDurableReconnect :: "key_for \<Rightarrow> int \<Rightarrow> reconnect_env \<Rightarrow> open_ref \<Rightarrow> durableReconnect \<Rightarrow> leaseRequest
    \<Rightarrow> handles \<Rightarrow> DurableTable \<Rightarrow> reconnect_answer \<times> handles \<times> DurableTable" where
  "handleDurableReconnect fstat now env new rec lr hs t =
     (case reclaimForReconnect fstat now (re_clientGuid env) (durableLookupKey rec)
             (t_ShareName (re_tree env)) (re_userName env) hs t of
        (None, hs1, t1) \<Rightarrow> (NotReclaimed, hs1, t1)
      | (Some saved, hs1, t1) \<Rightarrow>
          let hs2 = releaseOpenKeepShareMode fstat (Some saved) hs1;
              h = reconnect_open env rec (hs_opens hs1 saved) in
          if \<not> reopen_ok env h then
            (NotReclaimed, hs2\<lparr>hs_shares := sm_release (hs_shares hs2) (Some saved)\<rparr>, t1)
          else
            let hs3 = hs2\<lparr>hs_opens := (hs_opens hs2)(new := h),
                          hs_shares := transfer (hs_shares hs2) (Some saved) (Some new)\<rparr> in
            if \<not> re_addOpen env then
              (SessionDeleted,
               (releaseOpen fstat (Some new) hs3)\<lparr>hs_opens := (hs_opens hs3)(new := h\<lparr>o_HasFile := False\<rparr>)\<rparr>, t1)
            else
              (case Register fstat (o_DurableClientGuid h) (o_DurableCreateGuid h) new (re_durableTimeout env)
                      (t_ShareName (re_tree env)) (re_userName env) hs3 t1 of
                 (ok, hs4, t2) \<Rightarrow>
                   (Reclaimed (reconnect_response env rec lr h),
                    (if ok then hs4 else hs4\<lparr>hs_opens := (hs_opens hs4)(new := h\<lparr>o_IsDurable := False\<rparr>)\<rparr>), t2)))"

section \<open>The grant on CREATE\<close>

definition Millisecond :: int where "Millisecond = 1000000"

definition grant_timeout :: "durableRequest \<Rightarrow> int \<Rightarrow> int" where
  "grant_timeout dq cap =
     (if dq_v2 dq \<and> dq_timeout dq > 0 then
        let req = int (unat (dq_timeout dq)) * Millisecond in if req < cap then req else cap
      else cap)"

text \<open>\<open>table\<close> is \<open>None\<close> when the connection has no durable table; the result carries the response contexts.\<close>

definition applyDurableAndLease :: "key_for \<Rightarrow> bytes \<Rightarrow> int \<Rightarrow> gostring \<Rightarrow> open_ref \<Rightarrow> durableRequest \<Rightarrow> leaseRequest
    \<Rightarrow> bytes \<Rightarrow> handles \<Rightarrow> DurableTable option \<Rightarrow> bytes option \<times> handles \<times> DurableTable option" where
  "applyDurableAndLease fstat connGuid cap userName h dq lr baseCtxs hs table =
     (let base = (if length baseCtxs > 0
                  then IterateCreateContexts baseCtxs (\<lambda>acc c. Some (True, acc @ [c])) [] else Some []);
          lease = (if ls_present lr
                   then do { d \<leftarrow> encodeRqLsResponse (ls_key lr) leaseNone (ls_v2 lr);
                             Some [\<lparr>cc_Name = tagRqLs, cc_Data = d\<rparr>] }
                   else Some []);
          finish = (\<lambda>mid. do { b \<leftarrow> base; m \<leftarrow> mid; l \<leftarrow> lease; EncodeCreateContexts (b @ m @ l) })
      in case table of
           None \<Rightarrow> (finish (Some []), hs, None)
         | Some t \<Rightarrow>
             if dq_present dq \<and> cap > 0 then
               let timeout = grant_timeout dq cap;
                   createGuid = (if \<not> dq_v2 dq then o_FileID (hs_opens hs h) else dq_guid dq);
                   shareName = (case o_Tree (hs_opens hs h) of None \<Rightarrow> [] | Some tr \<Rightarrow> t_ShareName tr) in
               (case Register fstat connGuid createGuid h timeout shareName userName hs t of
                  (True, hs1, t1) \<Rightarrow>
                    (finish (if dq_v2 dq
                       then do { d \<leftarrow> encodeDH2QResponse (word_of_int (timeout div Millisecond)) 0;
                                 Some [\<lparr>cc_Name = tagDH2Q, cc_Data = d\<rparr>] }
                       else Some [\<lparr>cc_Name = tagDHnQ, cc_Data = encodeDHnQResponse\<rparr>]),
                     hs1\<lparr>hs_opens := (hs_opens hs1)(h := (hs_opens hs1 h)\<lparr>o_IsDurable := True,
                        o_DurableClientGuid := connGuid, o_DurableCreateGuid := createGuid\<rparr>)\<rparr>,
                     Some t1)
                | (False, hs1, t1) \<Rightarrow> (finish (Some []), hs1, Some t1))
             else (finish (Some []), hs, Some t))"

end
