(* ===== verification/Durable_Properties.thy ===== *)
theory Durable_Properties
  imports Durable
begin

text \<open>
  What durable handles promise: only the user that opened a handle reclaims it, on the
  same share and only once its connection is gone; a refused attempt changes nothing;
  a live handle never expires; no open is orphaned; a reconnect keeps the deny mode
  or gives everything back; and the grants on CREATE stay within the server's caps.
\<close>

abbreviation dkey :: "bytes \<Rightarrow> bytes \<Rightarrow> durableKey" where
  "dkey cg xg \<equiv> \<lparr>dk_clientGuid = cg, dk_createGuid = xg\<rparr>"

text \<open>C7: A reconnect obtains a handle only from an unexpired entry whose connection is gone and that was
  registered for the same share and the same user; the entry is consumed and nothing
  else changes.\<close>

theorem reclaim_only_by_owner:
  assumes "reclaimForReconnect fstat now cg xg share user hs t = (Some h, hs', t')"
  shows "\<exists>e d. map_of t (dkey cg xg) = Some e \<and> de_open e = h \<and> de_deadline e = Some d \<and> now \<le> d
    \<and> de_shareName e = share \<and> de_userName e = user
    \<and> hs' = hs \<and> map_of t' = (map_of t)(dkey cg xg := None)"
  by (rule reclaimed_entry [OF assms]) blast

text \<open>A refused reconnect cannot evict anybody: unless the named entry has itself expired, the table
  and every handle are exactly as before.\<close>

theorem refused_reclaim_changes_nothing:
  assumes "reclaimForReconnect fstat now cg xg share user hs t = (None, hs', t')"
    and "\<forall>e. map_of t (dkey cg xg) = Some e \<longrightarrow> \<not> expired e now"
  shows "hs' = hs \<and> t' = t"
  using assms
  by (auto simp: reclaimForReconnect_def reclaimChecked_def Let_def split: option.splits if_splits)

text \<open>The sweeper never touches a handle whose connection is alive, whatever the clock says; it keeps
  every entry that is not past its deadline, and an expired handle ends with no
  share-mode reservation and its descriptor closed.\<close>

theorem sweeper_spares_live_handles:
  assumes "dt_inv t" and "Expire fstat now hs t = (n, hs', t')" and "map_of t k = Some e"
  shows "(attached e \<or> now \<le> the (de_deadline e) \<longrightarrow> map_of t' k = Some e)
    \<and> (expired e now \<longrightarrow> map_of t' k = None \<and> sm_owners (hs_shares hs') (de_open e) = None
          \<and> (o_HasFile (hs_opens hs (de_open e)) \<longrightarrow> de_open e \<in> set (hs_closed hs')))
    \<and> dt_inv t'"
proof -
  have t': "t' = filter (\<lambda>p. \<not> expired (snd p) now) t"
    and hs': "hs' = release_batch fstat (map (\<lambda>p. de_open (snd p)) (filter (\<lambda>p. expired (snd p) now) t)) hs"
    using assms(2) by (simp_all add: Expire_eq)
  have "(k, e) \<in> set t" using assms(3) by (rule map_of_SomeD)
  then have mem: "expired e now \<Longrightarrow> de_open e \<in> set (map (\<lambda>p. de_open (snd p)) (filter (\<lambda>p. expired (snd p) now) t))"
    by force
  have "map_of t' k = (if expired e now then None else Some e)"
    using assms(1,3) unfolding t' dt_inv_def by (simp add: map_of_filter_value [of t "\<lambda>v. \<not> expired v now"])
  moreover have "dt_inv t'" using assms(1) by (simp add: t' dt_inv_def distinct_map_filter)
  ultimately show ?thesis
    using mem by (auto simp: hs' release_batch_owners release_batch_closed expired_def)
qed

text \<open>Registering an open never orphans another: a key held by a live connection's open is refused and
  left alone; any other entry that leaves the table is the same open, or belongs to a
  live connection that closes it itself (a non-durable request), or has been released.\<close>

theorem register_never_orphans:
  assumes "Register fstat cg xg h timeout share user hs t = (ok, hs', t')"
  shows "(ok \<longrightarrow> timeout > 0 \<and> (\<exists>e. map_of t' (dkey cg xg) = Some e \<and> de_open e = h \<and> attached e
            \<and> de_shareName e = share \<and> de_userName e = user))
    \<and> (\<forall>e. map_of t (dkey cg xg) = Some e \<and> attached e \<and> de_open e \<noteq> h \<and> timeout > 0 \<longrightarrow> \<not> ok \<and> hs' = hs \<and> t' = t)
    \<and> (\<forall>k e. map_of t k = Some e \<and> map_of t' k \<noteq> Some e \<longrightarrow>
          de_open e = h \<or> attached e \<or> sm_owners (hs_shares hs') (de_open e) = None
            \<and> (o_HasFile (hs_opens hs (de_open e)) \<longrightarrow> de_open e \<in> set (hs_closed hs')))"
  using assms
  by (auto simp: Register_def Let_def map_of_dt_put map_of_dt_delete attached_def sm_release_owner
      split: option.splits if_splits)

text \<open>C33: A reconnect that consumes the entry but fails afterwards (the file cannot be re-opened, or the
  session is gone) gives everything back: the saved descriptor is closed and neither the
  old nor the new handle holds a share-mode reservation.\<close>

theorem failed_reconnect_leaks_nothing:
  assumes "handleDurableReconnect fstat now env new rec lr hs t = (ans, hs', t')"
    and "reclaimForReconnect fstat now (re_clientGuid env) (durableLookupKey rec)
           (t_ShareName (re_tree env)) (re_userName env) hs t = (Some saved, hs1, t1)"
    and "ans = NotReclaimed \<or> ans = SessionDeleted" and "new \<noteq> saved" and "sm_owners (hs_shares hs) new = None"
  shows "sm_owners (hs_shares hs') saved = None \<and> sm_owners (hs_shares hs') new = None
    \<and> (o_HasFile (hs_opens hs saved) \<longrightarrow> saved \<in> set (hs_closed hs')) \<and> t' = t1"
proof -
  have hs1: "hs1 = hs" by (rule reclaimed_entry [OF assms(2)])
  let ?sh = "hs_shares hs"
  have keep: "hs_shares (releaseOpenKeepShareMode fstat (Some saved) hs) = ?sh"
    by (simp add: releaseOpenKeepShareMode_def close_file_def)
  have moved: "sm_owners (transfer ?sh (Some saved) (Some new)) saved = None"
    using assms(4) by (auto simp: transfer_def split: option.splits)
  have closed: "saved \<in> set (hs_closed (releaseOpenKeepShareMode fstat (Some saved) hs))" if "o_HasFile (hs_opens hs saved)"
    using that by simp
  show ?thesis
    using assms(1,3,4,5) moved closed
    by (auto simp: handleDurableReconnect_def assms(2) hs1 keep Let_def sm_release_owner sm_release_others
        split: if_splits prod.splits)
qed

text \<open>A granted reconnect is the same open continuing: on every file the access each reservation uses and
  shares is unchanged, the new handle carries the old FileID, path, link path and
  granted access, and if that access includes writing the descriptor is writable.\<close>

theorem reconnect_keeps_the_open:
  assumes "handleDurableReconnect fstat now env new rec lr hs t = (Reclaimed resp, hs', t')"
    and "reclaimForReconnect fstat now (re_clientGuid env) (durableLookupKey rec)
           (t_ShareName (re_tree env)) (re_userName env) hs t = (Some saved, hs1, t1)"
  shows "(\<forall>k. map (\<lambda>e. e\<lparr>sme_owner := None\<rparr>) (entries (hs_shares hs') k)
            = map (\<lambda>e. e\<lparr>sme_owner := None\<rparr>) (entries (hs_shares hs) k))
    \<and> o_FileID (hs_opens hs' new) = o_FileID (hs_opens hs saved)
    \<and> o_Path (hs_opens hs' new) = o_Path (hs_opens hs saved)
    \<and> o_LinkPath (hs_opens hs' new) = o_LinkPath (hs_opens hs saved)
    \<and> o_GrantedAccess (hs_opens hs' new) = o_GrantedAccess (hs_opens hs saved)
    \<and> (\<not> o_IsDir (hs_opens hs saved) \<and> o_GrantedAccess (hs_opens hs saved) AND durableWriteAccess \<noteq> 0
        \<longrightarrow> re_openRDWR env (o_Path (hs_opens hs saved)) = None)"
proof -
  have hs1: "hs1 = hs" by (rule reclaimed_entry [OF assms(2)])
  have free: "map_of t1 (dkey (re_clientGuid env) (durableLookupKey rec)) = None"
    by (rule reclaimed_entry [OF assms(2)]) simp
  let ?h = "reconnect_open env rec (hs_opens hs saved)"
  let ?hs2 = "releaseOpenKeepShareMode fstat (Some saved) hs"
  let ?hs3 = "?hs2\<lparr>hs_opens := (hs_opens hs)(new := ?h), hs_shares := transfer (hs_shares ?hs2) (Some saved) (Some new)\<rparr>"
  have keep: "hs_shares ?hs2 = hs_shares hs"
    by (simp add: releaseOpenKeepShareMode_def close_file_def)
  have ren: "map (\<lambda>e. e\<lparr>sme_owner := None\<rparr>) (rename_first a b es) = map (\<lambda>e. e\<lparr>sme_owner := None\<rparr>) es" for a b es
    by (induction es) simp_all
  have tr: "map (\<lambda>e. e\<lparr>sme_owner := None\<rparr>) (entries (transfer s a b) k) = map (\<lambda>e. e\<lparr>sme_owner := None\<rparr>) (entries s k)" for s a b k
    by (auto simp: transfer_def entries_def ren split: option.splits)
  have reg: "fst (snd (Register fstat (re_clientGuid env) (durableLookupKey rec) new (re_durableTimeout env)
      (t_ShareName (re_tree env)) (re_userName env) ?hs3 t1)) = ?hs3"
    using free by (simp add: Register_def Let_def)
  obtain ok hs4 t2 where reg': "Register fstat (re_clientGuid env) (durableLookupKey rec) new (re_durableTimeout env)
      (t_ShareName (re_tree env)) (re_userName env) ?hs3 t1 = (ok, hs4, t2)"
    by (metis prod_cases3)
  have hs4: "hs4 = ?hs3" using reg unfolding reg' by simp
  have guids: "o_DurableClientGuid ?h = re_clientGuid env" "o_DurableCreateGuid ?h = durableLookupKey rec"
    by (simp_all add: reconnect_open_def)
  have "reopen_ok env ?h" and hs': "hs' = (if ok then ?hs3 else ?hs3\<lparr>hs_opens := (hs_opens ?hs3)(new := ?h\<lparr>o_IsDurable := False\<rparr>)\<rparr>)"
    using assms(1) unfolding handleDurableReconnect_def
    by (auto simp: assms(2) hs1 Let_def guids reg' hs4 split: if_splits)
  then show ?thesis
    by (auto simp: tr keep reconnect_open_def reopen_ok_def split: option.splits if_splits)
qed

text \<open>The server never grants a cached lease and never keeps a handle longer than its cap or the client
  asked: the lease state echoed is zero in the form the client used, and the granted
  timeout is positive, at most the cap and at most a non-zero v2 request.\<close>

theorem grants_within_caps:
  assumes "length key = 16" and "cap > 0"
  shows "(\<exists>b. encodeRqLsResponse key leaseNone v2 = Some b \<and> length b = (if v2 then 52 else 32)
        \<and> take 16 b = key \<and> drop 16 b = zeros (length b - 16))
    \<and> 0 < grant_timeout dq cap \<and> grant_timeout dq cap \<le> cap
    \<and> (dq_v2 dq \<and> dq_timeout dq > 0 \<longrightarrow> grant_timeout dq cap \<le> int (unat (dq_timeout dq)) * 1000000)"
proof -
  have pos: "0 < int (unat (dq_timeout dq))" if "dq_timeout dq > 0"
    using that by (metis of_nat_0_less_iff unat_gt_0 word_gt_0)
  have zero: "patch 16 (le32 0) (patch 0 key (zeros n)) = key @ zeros (n - 16)" if "n \<ge> 20" for n
    using that assms(1) by (intro nth_equalityI) (auto simp: nth_patch nth_append nth_le_bytes)
  then show ?thesis
    using assms pos
    by (auto simp: encodeRqLsResponse_def leaseNone_def rqLsV1Size_def rqLsV2Size_def go_panic Let_def zero
        grant_timeout_def Millisecond_def)
qed

section \<open>Witnesses\<close>

text \<open>Handle 7 of user \<open>u\<close> on share \<open>s\<close>, detached at time 0 with a minute to live.\<close>

abbreviation wentry :: durableEntry where
  "wentry \<equiv> \<lparr>de_open = 7, de_deadline = Some 60, de_timeout = 60, de_shareName = [115], de_userName = [117]\<rparr>"

abbreviation wtable :: DurableTable where
  "wtable \<equiv> [(dkey [1] [2], wentry)]"

abbreviation whandle :: Open where
  "whandle \<equiv> \<lparr>o_FileID = zeros 16, o_Path = [47], o_LinkPath = [], o_IsDir = False, o_IsPipe = False, o_IsStream = False,
     o_HasFile = True, o_Tree = None, o_DeleteOnClose = False, o_GrantedAccess = 3, o_IsDurable = True,
     o_DurableClientGuid = [1], o_DurableCreateGuid = [2],
     o_PipeName = [], o_pipeOut = [], o_StreamName = [], o_streamBuf = [], o_streamWritten = False, o_streamSynthetic = False\<rparr>"

abbreviation whandles :: handles where
  "whandles \<equiv> \<lparr>hs_opens = (\<lambda>_. whandle), hs_locks = newLockTable, hs_shares = newShareModeTable, hs_closed = []\<rparr>"

abbreviation wfstat :: key_for where "wfstat \<equiv> (\<lambda>_. Inl 9)"

abbreviation wrec :: durableReconnect where
  "wrec \<equiv> \<lparr>dc_present = True, dc_v2 = True, dc_fileID = zeros 16, dc_guid = [2]\<rparr>"

abbreviation wlease :: leaseRequest where
  "wlease \<equiv> \<lparr>ls_present = False, ls_v2 = False, ls_key = zeros 16, ls_state = 0\<rparr>"

abbreviation wenv :: "nat option \<Rightarrow> reconnect_env" where
  "wenv err \<equiv> \<lparr>re_clientGuid = [1], re_durableTimeout = 60, re_tree = \<lparr>t_ID = 2, t_Share = \<lparr>sc_Name = [115], sc_Path = [47, 115], sc_ReadOnly = False, sc_GuestOK = False\<rparr>\<rparr>, re_userName = [117],
     re_openRDWR = (\<lambda>_. err), re_openRDONLY = (\<lambda>_. None), re_size = Some 5, re_mtime = 7, re_addOpen = True\<rparr>"

lemma wreclaim: "reclaimForReconnect wfstat 30 [1] [2] [115] [117] whandles wtable = (Some 7, whandles, [])"
  by (simp add: reclaimForReconnect_def reclaimChecked_def expired_def attached_def dt_delete_def)

theorem reclaim_only_by_owner_witness:
  "\<exists>e. map_of wtable (dkey [1] [2]) = Some e \<and> de_userName e = [117] \<and> de_shareName e = [115]"
  using reclaim_only_by_owner [OF wreclaim] by blast

theorem failed_reconnect_leaks_nothing_witness:
  "\<exists>hs' t'. handleDurableReconnect wfstat 30 (wenv (Some 13)) 5 wrec wlease whandles wtable = (NotReclaimed, hs', t')
     \<and> 7 \<in> set (hs_closed hs')"
proof -
  obtain hs' t' where run: "handleDurableReconnect wfstat 30 (wenv (Some 13)) 5 wrec wlease whandles wtable = (NotReclaimed, hs', t')"
    by (simp add: handleDurableReconnect_def durableLookupKey_def wreclaim Let_def reopen_ok_def reconnect_open_def
        durableWriteAccess_def)
  have "sm_owners newShareModeTable 5 = None" by (simp add: newShareModeTable_def)
  then have "7 \<in> set (hs_closed hs')"
    using failed_reconnect_leaks_nothing [OF run, of 7 whandles "[]"] by (simp add: durableLookupKey_def wreclaim)
  with run show ?thesis by blast
qed

end
