(* ===== verification/Go_Map.thy ===== *)
theory Go_Map
  imports Gosamba_Prelude "HOL-Library.Multiset"
begin

text \<open>
  Go maps the code iterates over: association lists with one pair per key, the order of
  iteration being that of the list.
\<close>

type_synonym ('k, 'v) gomap = "('k \<times> 'v) list"

definition map_delete :: "'k \<Rightarrow> ('k, 'v) gomap \<Rightarrow> ('k, 'v) gomap" where
  "map_delete k m = filter (\<lambda>p. fst p \<noteq> k) m"

definition map_put :: "'k \<Rightarrow> 'v \<Rightarrow> ('k, 'v) gomap \<Rightarrow> ('k, 'v) gomap" where
  "map_put k v m = (k, v) # map_delete k m"

lemma map_of_delete: "map_of (map_delete k m) k' = (if k' = k then None else map_of m k')"
  by (induction m) (auto simp: map_delete_def)

lemma map_of_put: "map_of (map_put k v m) k' = (if k' = k then Some v else map_of m k')"
  by (simp add: map_put_def map_of_delete)

lemma distinct_delete: "distinct (map fst m) \<Longrightarrow> distinct (map fst (map_delete k m))"
  by (simp add: map_delete_def distinct_map_filter)

lemma distinct_put: "distinct (map fst m) \<Longrightarrow> distinct (map fst (map_put k v m))"
  using distinct_delete [of m k] by (auto simp: map_put_def map_delete_def)

lemma delete_absent: "map_of m k = None \<Longrightarrow> map_delete k m = m"
  by (auto simp: map_delete_def map_of_eq_None_iff filter_id_conv)

lemma set_map_delete: "set (map_delete k m) = {p \<in> set m. fst p \<noteq> k}"
  by (simp add: map_delete_def)

lemma set_map_put: "set (map_put k v m) = insert (k, v) {p \<in> set m. fst p \<noteq> k}"
  by (simp add: map_put_def map_delete_def)

lemma length_map_delete: "length (map_delete k m) \<le> length m"
  by (simp add: map_delete_def)

lemma mset_delete:
  "distinct (map fst m) \<Longrightarrow> map_of m k = Some v \<Longrightarrow> mset (map snd m) = add_mset v (mset (map snd (map_delete k m)))"
proof (induction m)
  case (Cons p m)
  show ?case
  proof (cases "fst p = k")
    case True
    then have "map_of m k = None" using Cons.prems(1) by (auto simp: map_of_eq_None_iff)
    with True Cons.prems(2) delete_absent [of m k] show ?thesis by (cases p) (simp add: map_delete_def)
  next
    case False
    with Cons show ?thesis by (cases p) (simp add: map_delete_def)
  qed
qed simp

end
