(* ===== verification/Async_Requests.thy ===== *)
theory Async_Requests
  imports Go_Map Lock_Ranges Smb2_Status
begin

text \<open>
  Outstanding asynchronous requests of one connection (\<^verbatim>\<open>notifyReg\<close>, \<^verbatim>\<open>asyncTable\<close> and
  their operations in \<^verbatim>\<open>internal/parent/dispatch.go\<close>): a CHANGE_NOTIFY or a parked LOCK waits on
  its \<^verbatim>\<open>cancel\<close> channel until SMB2_CANCEL, the release of its handle or the teardown of the
  connection closes it.

  Registrations are shared by pointer between the table and the waiting goroutine, so they live in
  a heap, a list indexed by reference. Closing a closed channel panics in Go; \<open>nr_closes\<close> counts how
  often a channel was closed, and the theory shows that no count ever passes one. The table is
  there from the start, as \<^verbatim>\<open>ServeConn\<close> installs it; each operation runs under its mutex and
  is one step.
\<close>

type_synonym reg_ref = nat

record notifyReg =
  nr_open :: open_ref
  nr_closes :: nat
  nr_status :: Status
  nr_cancelled :: bool

definition maxPreCancelled :: nat where
  "maxPreCancelled = 256"

record asyncTable =
  at_heap :: "notifyReg list"
  at_regs :: "(u64, reg_ref) gomap"
  at_preCancelled :: "(u64, Status) gomap"
  at_nextID :: u64

definition newAsyncTable :: asyncTable where
  "newAsyncTable = \<lparr>at_heap = [], at_regs = [], at_preCancelled = [], at_nextID = 0\<rparr>"

definition nextAsyncID :: "asyncTable \<Rightarrow> u64 \<times> asyncTable" where
  "nextAsyncID t = (at_nextID t + 1, t\<lparr>at_nextID := at_nextID t + 1\<rparr>)"

text \<open>The registration a handler creates just before it registers it.\<close>

definition newNotifyReg :: "open_ref \<Rightarrow> asyncTable \<Rightarrow> reg_ref \<times> asyncTable" where
  "newNotifyReg op t =
     (length (at_heap t), t\<lparr>at_heap := at_heap t @ [\<lparr>nr_open = op, nr_closes = 0, nr_status = StatusCancelled, nr_cancelled = False\<rparr>]\<rparr>)"

definition complete_reg :: "Status \<Rightarrow> notifyReg \<Rightarrow> notifyReg" where
  "complete_reg status reg = reg\<lparr>nr_cancelled := True, nr_status := status, nr_closes := Suc (nr_closes reg)\<rparr>"

definition complete_at :: "reg_ref \<Rightarrow> Status \<Rightarrow> asyncTable \<Rightarrow> asyncTable" where
  "complete_at r status t = t\<lparr>at_heap := (at_heap t)[r := complete_reg status (at_heap t ! r)]\<rparr>"

definition registerNotify :: "u64 \<Rightarrow> reg_ref \<Rightarrow> asyncTable \<Rightarrow> asyncTable" where
  "registerNotify msgID r t =
     (case map_of (at_preCancelled t) msgID of
        Some status \<Rightarrow> complete_at r status (t\<lparr>at_preCancelled := map_delete msgID (at_preCancelled t)\<rparr>)
      | None \<Rightarrow> t\<lparr>at_regs := map_put msgID r (at_regs t)\<rparr>)"

definition unregisterNotify :: "u64 \<Rightarrow> asyncTable \<Rightarrow> asyncTable" where
  "unregisterNotify msgID t = t\<lparr>at_regs := map_delete msgID (at_regs t)\<rparr>"

definition cancelNotify :: "u64 \<Rightarrow> Status \<Rightarrow> asyncTable \<Rightarrow> bool \<times> asyncTable" where
  "cancelNotify msgID status t =
     (case map_of (at_regs t) msgID of
        None \<Rightarrow>
          (False, if length (at_preCancelled t) < maxPreCancelled
                  then t\<lparr>at_preCancelled := map_put msgID status (at_preCancelled t)\<rparr> else t)
      | Some r \<Rightarrow> if nr_cancelled (at_heap t ! r) then (False, t) else (True, complete_at r status t))"

fun cancel_each :: "(notifyReg \<Rightarrow> bool) \<Rightarrow> reg_ref list \<Rightarrow> asyncTable \<Rightarrow> asyncTable" where
  "cancel_each P [] t = t"
| "cancel_each P (r # rs) t =
     cancel_each P rs
       (if nr_cancelled (at_heap t ! r) then t
        else if \<not> P (at_heap t ! r) then t
        else complete_at r StatusNotifyCleanup t)"

definition cancelNotifiesForOpens :: "open_ref list \<Rightarrow> asyncTable \<Rightarrow> asyncTable" where
  "cancelNotifiesForOpens opens t =
     (if opens = [] then t else cancel_each (\<lambda>reg. nr_open reg \<in> set opens) (map snd (at_regs t)) t)"

definition CancelAllNotifies :: "asyncTable \<Rightarrow> asyncTable" where
  "CancelAllNotifies t = cancel_each (\<lambda>_. True) (map snd (at_regs t)) t"

text \<open>What the frames of a connection do to the table, in any order.\<close>

datatype async_op =
    ReqRegister u64 open_ref
  | ReqUnregister u64
  | ReqCancel u64 Status
  | ReqCancelOpens "open_ref list"
  | ReqCancelAll
  | ReqDrawID

fun async_do :: "async_op \<Rightarrow> asyncTable \<Rightarrow> asyncTable" where
  "async_do (ReqRegister m op) t = (case newNotifyReg op t of (r, t') \<Rightarrow> registerNotify m r t')"
| "async_do (ReqUnregister m) t = unregisterNotify m t"
| "async_do (ReqCancel m st) t = snd (cancelNotify m st t)"
| "async_do (ReqCancelOpens os) t = cancelNotifiesForOpens os t"
| "async_do ReqCancelAll t = CancelAllNotifies t"
| "async_do ReqDrawID t = snd (nextAsyncID t)"

abbreviation async_run :: "async_op list \<Rightarrow> asyncTable \<Rightarrow> asyncTable" where
  "async_run ops \<equiv> fold async_do ops"

section \<open>Every request completes once\<close>

definition async_inv :: "asyncTable \<Rightarrow> bool" where
  "async_inv t \<longleftrightarrow> (\<forall>r \<in> snd ` set (at_regs t). r < length (at_heap t)) \<and> distinct (map snd (at_regs t)) \<and>
     (\<forall>reg \<in> set (at_heap t). nr_closes reg = (if nr_cancelled reg then 1 else 0)) \<and>
     length (at_preCancelled t) \<le> maxPreCancelled"

lemma complete_at_heap: "at_heap (complete_at r st t) = (at_heap t)[r := complete_reg st (at_heap t ! r)]"
  and complete_at_regs [simp]: "at_regs (complete_at r st t) = at_regs t"
  and complete_at_pre [simp]: "at_preCancelled (complete_at r st t) = at_preCancelled t"
  by (simp_all add: complete_at_def)

lemma complete_at_inv:
  assumes "async_inv t" and "\<not> nr_cancelled (at_heap t ! r)" and "r < length (at_heap t)"
  shows "async_inv (complete_at r st t)"
proof -
  have "nr_closes reg = (if nr_cancelled reg then 1 else 0)" if "reg \<in> set ((at_heap t)[r := complete_reg st (at_heap t ! r)])" for reg
  proof -
    have "reg \<in> set (at_heap t) \<or> reg = complete_reg st (at_heap t ! r)"
      using that set_update_subset_insert by fastforce
    moreover have "nr_closes (at_heap t ! r) = 0"
      using assms by (auto simp: async_inv_def)
    ultimately show ?thesis using assms(1) by (auto simp: async_inv_def complete_reg_def)
  qed
  with assms show ?thesis by (simp add: async_inv_def complete_at_heap)
qed

lemma cancel_each_regs [simp]: "at_regs (cancel_each P rs t) = at_regs t"
  and cancel_each_pre [simp]: "at_preCancelled (cancel_each P rs t) = at_preCancelled t"
  and cancel_each_length [simp]: "length (at_heap (cancel_each P rs t)) = length (at_heap t)"
  by (induction rs arbitrary: t) (simp_all add: complete_at_heap)

lemma cancel_each_inv: "async_inv t \<Longrightarrow> (\<forall>r \<in> set rs. r < length (at_heap t)) \<Longrightarrow> async_inv (cancel_each P rs t)"
proof (induction rs arbitrary: t)
  case (Cons x rs)
  then have "async_inv (complete_at x StatusNotifyCleanup t)" if "\<not> nr_cancelled (at_heap t ! x)"
    using that by (intro complete_at_inv) auto
  with Cons show ?case by (simp add: complete_at_heap)
qed simp

lemma cancel_registered_inv: "async_inv t \<Longrightarrow> async_inv (cancel_each P (map snd (at_regs t)) t)"
  by (rule cancel_each_inv) (auto simp: async_inv_def)

lemma length_put_bound: "length m < n \<Longrightarrow> length (map_put k v m) \<le> n"
  using length_map_delete [of k m] by (simp add: map_put_def)

lemma newNotifyReg_inv:
  assumes "async_inv t" and "newNotifyReg op t = (r, t')"
  shows "async_inv t' \<and> r < length (at_heap t') \<and> \<not> nr_cancelled (at_heap t' ! r) \<and> r \<notin> snd ` set (at_regs t') \<and>
    at_preCancelled t' = at_preCancelled t \<and> at_regs t' = at_regs t"
proof -
  have "length (at_heap t) \<notin> snd ` set (at_regs t)" using assms(1) by (auto simp: async_inv_def)
  with assms show ?thesis by (fastforce simp: newNotifyReg_def async_inv_def less_Suc_eq)
qed

lemma inv_register:
  assumes "async_inv t" and "r < length (at_heap t)" and "\<not> nr_cancelled (at_heap t ! r)" and "r \<notin> snd ` set (at_regs t)"
  shows "async_inv (registerNotify m r t)"
proof (cases "map_of (at_preCancelled t) m")
  case None
  have "distinct (map snd (map_delete m (at_regs t)))" and "r \<notin> snd ` set (map_delete m (at_regs t))"
    using assms by (auto simp: async_inv_def map_delete_def distinct_map_filter)
  with None assms show ?thesis
    by (auto simp: registerNotify_def async_inv_def map_put_def map_delete_def)
next
  case (Some st)
  have "async_inv (t\<lparr>at_preCancelled := map_delete m (at_preCancelled t)\<rparr>)"
    using assms(1) length_map_delete [of m "at_preCancelled t"] by (auto simp: async_inv_def)
  then show ?thesis
    using Some assms by (simp add: registerNotify_def complete_at_inv)
qed

lemma async_do_inv: "async_inv t \<Longrightarrow> async_inv (async_do a t)"
proof (induction a)
  case (ReqRegister m op)
  obtain r t' where new: "newNotifyReg op t = (r, t')" by (cases "newNotifyReg op t")
  have "async_inv (registerNotify m r t')"
    using newNotifyReg_inv [OF ReqRegister new] inv_register by blast
  with new show ?case by simp
next
  case (ReqUnregister m)
  then show ?case by (auto simp: unregisterNotify_def async_inv_def map_delete_def distinct_map_filter)
next
  case (ReqCancel m st)
  show ?case
  proof (cases "map_of (at_regs t) m")
    case None
    with ReqCancel length_put_bound [of "at_preCancelled t" maxPreCancelled m st] show ?thesis
      by (auto simp: cancelNotify_def async_inv_def)
  next
    case (Some r)
    then have "r < length (at_heap t)" using ReqCancel by (force simp: async_inv_def dest: map_of_SomeD)
    with Some ReqCancel show ?thesis by (simp add: cancelNotify_def complete_at_inv)
  qed
next
  case (ReqCancelOpens os)
  then show ?case by (simp add: cancelNotifiesForOpens_def cancel_registered_inv)
next
  case ReqCancelAll
  then show ?case by (simp add: CancelAllNotifies_def cancel_registered_inv)
next
  case ReqDrawID
  then show ?case by (simp add: nextAsyncID_def async_inv_def)
qed

interpretation async_tables: invariant_system "\<lambda>t. t = newAsyncTable" "\<lambda>t t'. \<exists>a. t' = async_do a t" async_inv
  by unfold_locales (auto simp: async_do_inv, simp add: async_inv_def newAsyncTable_def)

lemma async_run_inv: "async_inv t \<Longrightarrow> async_inv (async_run ops t)"
  by (induction ops arbitrary: t) (simp_all add: async_do_inv)

lemma async_inv_new: "async_inv newAsyncTable"
  by (rule async_tables.Inv_start) simp

section \<open>What a release completes\<close>

lemma cancel_each_nth:
  "distinct rs \<Longrightarrow> (\<forall>r \<in> set rs. r < length (at_heap t)) \<Longrightarrow> r < length (at_heap t) \<Longrightarrow>
    at_heap (cancel_each P rs t) ! r =
      (if r \<in> set rs \<and> \<not> nr_cancelled (at_heap t ! r) \<and> P (at_heap t ! r)
       then complete_reg StatusNotifyCleanup (at_heap t ! r) else at_heap t ! r)"
proof (induction rs arbitrary: t)
  case (Cons x rs)
  then show ?case by (auto simp: complete_at_heap nth_list_update)
qed simp

lemma cancelNotifiesForOpens_nth:
  assumes "async_inv t" and "(m, r) \<in> set (at_regs t)"
  shows "at_heap (cancelNotifiesForOpens os t) ! r =
    (if nr_open (at_heap t ! r) \<in> set os \<and> \<not> nr_cancelled (at_heap t ! r)
     then complete_reg StatusNotifyCleanup (at_heap t ! r) else at_heap t ! r)"
proof -
  have regs: "distinct (map snd (at_regs t))" "\<forall>r \<in> set (map snd (at_regs t)). r < length (at_heap t)" "r \<in> set (map snd (at_regs t))"
    using assms by (force simp: async_inv_def)+
  then show ?thesis
    using cancel_each_nth [OF regs(1,2), of r "\<lambda>reg. nr_open reg \<in> set os"]
    by (auto simp: cancelNotifiesForOpens_def)
qed

lemma cancelNotifiesForOpens_cancels:
  assumes "async_inv t" and "(m, r) \<in> set (at_regs t)" and "nr_open (at_heap t ! r) \<in> set os"
  shows "nr_cancelled (at_heap (cancelNotifiesForOpens os t) ! r)"
  using cancelNotifiesForOpens_nth [OF assms(1,2), of os] assms(3) by (auto simp: complete_reg_def)

lemma cancelNotifiesForOpens_fields [simp]:
  "at_regs (cancelNotifiesForOpens os t) = at_regs t" "at_preCancelled (cancelNotifiesForOpens os t) = at_preCancelled t"
  by (simp_all add: cancelNotifiesForOpens_def)

section \<open>A cancel may overtake its request\<close>

definition concerns :: "u64 \<Rightarrow> async_op \<Rightarrow> bool" where
  "concerns m a \<longleftrightarrow> (case a of ReqRegister m' _ \<Rightarrow> m' = m | ReqCancel m' _ \<Rightarrow> m' = m | _ \<Rightarrow> False)"

lemma async_do_pre:
  "\<not> concerns m a \<Longrightarrow> map_of (at_preCancelled t) m = Some st \<Longrightarrow> map_of (at_preCancelled (async_do a t)) m = Some st"
  by (induction a)
    (auto simp: concerns_def newNotifyReg_def registerNotify_def unregisterNotify_def cancelNotify_def map_of_delete map_of_put
      cancelNotifiesForOpens_def CancelAllNotifies_def nextAsyncID_def split: option.splits)

lemma async_run_pre:
  "\<not> list_ex (concerns m) ops \<Longrightarrow> map_of (at_preCancelled t) m = Some st \<Longrightarrow> map_of (at_preCancelled (async_run ops t)) m = Some st"
  by (induction ops arbitrary: t) (simp_all add: async_do_pre)

lemma register_precancelled:
  assumes "map_of (at_preCancelled t) m = Some st"
  shows "nr_cancelled (last (at_heap (async_do (ReqRegister m op) t))) \<and> nr_status (last (at_heap (async_do (ReqRegister m op) t))) = st \<and>
    nr_open (last (at_heap (async_do (ReqRegister m op) t))) = op"
  using assms by (simp add: newNotifyReg_def registerNotify_def complete_at_def complete_reg_def list_update_append)

text \<open>C30: However frames interleave, every waiting request is woken at most once (a second close of its
  channel would panic the server), exactly when it is marked cancelled, and the set of early
  cancels stays within its bound. An SMB2_CANCEL that overtakes the request it names is not lost: when
  there is room to remember it, the request is completed with the canceller's status the moment it
  registers, whatever else happens in between.\<close>

theorem async_requests_complete_once:
  "let t = async_run ops newAsyncTable; t1 = async_run between (async_do (ReqCancel m st) t) in
     (\<forall>reg \<in> set (at_heap t). nr_closes reg = (if nr_cancelled reg then 1 else 0))
     \<and> length (at_preCancelled t) \<le> 256
     \<and> (map_of (at_regs t) m = None \<and> length (at_preCancelled t) < 256 \<and> \<not> list_ex (concerns m) between \<longrightarrow>
          nr_cancelled (last (at_heap (async_do (ReqRegister m op) t1)))
          \<and> nr_status (last (at_heap (async_do (ReqRegister m op) t1))) = st
          \<and> nr_open (last (at_heap (async_do (ReqRegister m op) t1))) = op)"
proof -
  let ?t = "async_run ops newAsyncTable"
  let ?t1 = "async_run between (async_do (ReqCancel m st) ?t)"
  have inv: "async_inv ?t" by (rule async_run_inv [OF async_inv_new])
  have "map_of (at_preCancelled ?t1) m = Some st"
    if "map_of (at_regs ?t) m = None" "length (at_preCancelled ?t) < 256" "\<not> list_ex (concerns m) between"
    by (rule async_run_pre [OF that(3)]) (use that in \<open>simp add: cancelNotify_def maxPreCancelled_def map_of_put\<close>)
  with inv show ?thesis
    unfolding Let_def async_inv_def maxPreCancelled_def using register_precancelled [of ?t1 m st op] by blast
qed

theorem async_requests_complete_once_witness:
  "nr_cancelled (last (at_heap (async_run [ReqCancel 7 StatusCancelled, ReqRegister 7 3] newAsyncTable)))"
  using async_requests_complete_once [of "[]" "[]" 7 StatusCancelled 3]
  by (simp add: newAsyncTable_def Let_def)

end
