(* ===== verification/Resume_Keys.thy ===== *)
theory Resume_Keys
  imports Go_Map Lock_Ranges
begin

text \<open>
  Resume keys (\<^verbatim>\<open>resumeKeyTable\<close> of \<^verbatim>\<open>internal/parent/copychunk.go\<close>): the bearer
  capabilities by which a server-side copy names its source. One table per connection, each
  operation under its mutex. The bytes \<^verbatim>\<open>crypto/rand\<close> delivers are an argument, \<open>None\<close> when the read
  fails.
\<close>

type_synonym sess_ref = nat
type_synonym resume_key = bytes

record resumeKeyEntry =
  rk_open :: open_ref
  rk_sess :: sess_ref

record resumeKeyTable =
  rk_byKey :: "(resume_key, resumeKeyEntry) gomap"
  rk_byOpen :: "(open_ref, resume_key) gomap"

definition newResumeKeyTable :: resumeKeyTable where
  "newResumeKeyTable = \<lparr>rk_byKey = [], rk_byOpen = []\<rparr>"

definition rk_drop :: "resume_key \<Rightarrow> open_ref \<Rightarrow> resumeKeyTable \<Rightarrow> resumeKeyTable" where
  "rk_drop key op t = t\<lparr>rk_byKey := map_delete key (rk_byKey t), rk_byOpen := map_delete op (rk_byOpen t)\<rparr>"

definition rk_mint :: "resume_key option \<Rightarrow> sess_ref \<Rightarrow> open_ref \<Rightarrow> resumeKeyTable \<Rightarrow> resume_key option \<times> resumeKeyTable" where
  "rk_mint rand sess op t =
     (case rand of
        None \<Rightarrow> (None, t)
      | Some key \<Rightarrow>
          (Some key, t\<lparr>rk_byKey := map_put key \<lparr>rk_open = op, rk_sess = sess\<rparr> (rk_byKey t),
                       rk_byOpen := map_put op key (rk_byOpen t)\<rparr>))"

definition issue :: "resume_key option \<Rightarrow> sess_ref \<Rightarrow> open_ref \<Rightarrow> resumeKeyTable \<Rightarrow> resume_key option \<times> resumeKeyTable" where
  "issue rand sess op t =
     (case map_of (rk_byOpen t) op of
        Some key \<Rightarrow>
          (case map_of (rk_byKey t) key of
             Some e \<Rightarrow> if rk_sess e = sess then (Some key, t) else rk_mint rand sess op (rk_drop key op t)
           | None \<Rightarrow> rk_mint rand sess op (rk_drop key op t))
      | None \<Rightarrow> rk_mint rand sess op t)"

definition resolve :: "resume_key \<Rightarrow> sess_ref \<Rightarrow> resumeKeyTable \<Rightarrow> open_ref option" where
  "resolve key sess t =
     (case map_of (rk_byKey t) key of
        None \<Rightarrow> None
      | Some e \<Rightarrow> if rk_sess e \<noteq> sess then None else Some (rk_open e))"

definition rk_release :: "open_ref option \<Rightarrow> resumeKeyTable \<Rightarrow> resumeKeyTable" where
  "rk_release ho t =
     (case ho of
        None \<Rightarrow> t
      | Some op \<Rightarrow> (case map_of (rk_byOpen t) op of Some key \<Rightarrow> rk_drop key op t | None \<Rightarrow> t))"

definition rk_clear :: "resumeKeyTable \<Rightarrow> resumeKeyTable" where
  "rk_clear t = t\<lparr>rk_byKey := [], rk_byOpen := []\<rparr>"

section \<open>The capabilities a table stands for\<close>

text \<open>The two maps are inverse to each other, and a table means the set of capabilities
  (key, session, handle) it honours.\<close>

definition rk_inv :: "resumeKeyTable \<Rightarrow> bool" where
  "rk_inv t \<longleftrightarrow> (\<forall>k op. map_of (rk_byOpen t) op = Some k \<longleftrightarrow> (\<exists>s. map_of (rk_byKey t) k = Some \<lparr>rk_open = op, rk_sess = s\<rparr>))"

definition capabilities :: "resumeKeyTable \<Rightarrow> (resume_key \<times> sess_ref \<times> open_ref) set" where
  "capabilities t = {(k, s, op). resolve k s t = Some op}"

lemma capability_iff: "(k, s, op) \<in> capabilities t \<longleftrightarrow> map_of (rk_byKey t) k = Some \<lparr>rk_open = op, rk_sess = s\<rparr>"
proof (cases "map_of (rk_byKey t) k")
  case (Some e)
  then show ?thesis by (cases e) (auto simp: capabilities_def resolve_def)
qed (simp add: capabilities_def resolve_def)

lemma rk_inv_new: "rk_inv newResumeKeyTable"
  by (simp add: rk_inv_def newResumeKeyTable_def)

lemma rk_drop_inv:
  assumes "rk_inv t" and "map_of (rk_byOpen t) op = Some key"
  shows "rk_inv (rk_drop key op t) \<and> capabilities (rk_drop key op t) = {c \<in> capabilities t. snd (snd c) \<noteq> op}"
proof -
  have key: "(\<exists>s. map_of (rk_byKey t) k = Some \<lparr>rk_open = op, rk_sess = s\<rparr>) \<longleftrightarrow> k = key" for k
    using assms unfolding rk_inv_def by (metis option.inject)
  have "map_of (rk_byOpen (rk_drop key op t)) o' = Some k \<longleftrightarrow>
      (\<exists>s. map_of (rk_byKey (rk_drop key op t)) k = Some \<lparr>rk_open = o', rk_sess = s\<rparr>)" for k o'
    using assms key [of k] key [of key] unfolding rk_inv_def rk_drop_def
    by (cases "o' = op"; cases "k = key") (auto simp: map_of_delete)
  moreover have "(k, s, o') \<in> capabilities (rk_drop key op t) \<longleftrightarrow> (k, s, o') \<in> capabilities t \<and> o' \<noteq> op" for k s o'
    using key [of k] key [of key] by (cases "k = key") (auto simp: capability_iff rk_drop_def map_of_delete)
  ultimately show ?thesis unfolding rk_inv_def by auto
qed

lemma rk_mint_inv:
  assumes "rk_inv t" and "map_of (rk_byOpen t) op = None" and "map_of (rk_byKey t) key = None"
  shows "rk_inv (snd (rk_mint (Some key) sess op t)) \<and>
    capabilities (snd (rk_mint (Some key) sess op t)) = insert (key, sess, op) (capabilities t)"
proof -
  let ?t = "snd (rk_mint (Some key) sess op t)"
  have none: "map_of (rk_byKey t) k \<noteq> Some \<lparr>rk_open = op, rk_sess = s\<rparr>" for k s
    using assms(1,2) unfolding rk_inv_def by (metis option.distinct(1))
  have "map_of (rk_byOpen t) o' \<noteq> Some key" for o'
    using assms(1,3) unfolding rk_inv_def by simp
  then have "map_of (rk_byOpen ?t) o' = Some k \<longleftrightarrow> (\<exists>s. map_of (rk_byKey ?t) k = Some \<lparr>rk_open = o', rk_sess = s\<rparr>)" for k o'
    using assms none unfolding rk_inv_def rk_mint_def
    by (cases "o' = op"; cases "k = key") (auto simp: map_of_put)
  moreover have "(k, s, o') \<in> capabilities ?t \<longleftrightarrow> (k, s, o') = (key, sess, op) \<or> (k, s, o') \<in> capabilities t" for k s o'
    using assms(3) by (cases "k = key") (auto simp: capability_iff rk_mint_def map_of_put)
  ultimately show ?thesis unfolding rk_inv_def by auto
qed

lemma rk_release_inv:
  assumes "rk_inv t"
  shows "rk_inv (rk_release (Some op) t) \<and> capabilities (rk_release (Some op) t) = {c \<in> capabilities t. snd (snd c) \<noteq> op}"
proof (cases "map_of (rk_byOpen t) op")
  case (Some key)
  with rk_drop_inv [OF assms Some] show ?thesis by (simp add: rk_release_def)
next
  case None
  have "map_of (rk_byKey t) k \<noteq> Some \<lparr>rk_open = op, rk_sess = s\<rparr>" for k s
    using assms None unfolding rk_inv_def by (metis option.distinct(1))
  with None assms show ?thesis by (auto simp: rk_release_def capability_iff)
qed

lemma issue_inv:
  assumes "rk_inv t" and "\<And>key. rand = Some key \<Longrightarrow> map_of (rk_byKey t) key = None"
  shows "rk_inv (snd (issue rand sess op t)) \<and>
    (case fst (issue rand sess op t) of
       None \<Rightarrow> rand = None
     | Some k \<Rightarrow> (k, sess, op) \<in> capabilities (snd (issue rand sess op t))) \<and>
    (\<forall>c \<in> capabilities (snd (issue rand sess op t)). c \<in> capabilities t \<or> (fst (snd c), snd (snd c)) = (sess, op))"
proof -
  have mint: ?thesis
    if issue: "issue rand sess op t = rk_mint rand sess op t'" and t': "rk_inv t'" "map_of (rk_byOpen t') op = None"
      and sub: "capabilities t' \<subseteq> capabilities t" and fresh: "\<And>key. rand = Some key \<Longrightarrow> map_of (rk_byKey t') key = None" for t'
  proof (cases rand)
    case None
    with issue t' sub show ?thesis by (auto simp: rk_mint_def)
  next
    case (Some key)
    note m = rk_mint_inv [OF t' fresh [OF Some], of sess]
    have "fst (rk_mint (Some key) sess op t') = Some key" by (simp add: rk_mint_def)
    with Some issue m sub show ?thesis by auto
  qed
  show ?thesis
  proof (cases "map_of (rk_byOpen t) op")
    case None
    then show ?thesis using assms by (intro mint [of t]) (simp_all add: issue_def)
  next
    case (Some key)
    then obtain s where e: "map_of (rk_byKey t) key = Some \<lparr>rk_open = op, rk_sess = s\<rparr>"
      using assms(1) unfolding rk_inv_def by blast
    show ?thesis
    proof (cases "s = sess")
      case True
      with Some e assms(1) show ?thesis by (simp add: issue_def capability_iff)
    next
      case False
      note d = rk_drop_inv [OF assms(1) Some]
      show ?thesis
        by (rule mint [of "rk_drop key op t"])
          (use False Some e d assms(2) in \<open>auto simp: issue_def rk_drop_def map_of_delete\<close>)
    qed
  qed
qed

section \<open>Who can use a key\<close>

text \<open>The history of a connection's table: requests for keys, releases of handles and the final
  clear. Keys are drawn fresh, as 24 random bytes are.\<close>

inductive key_step :: "resumeKeyTable \<Rightarrow> resumeKeyTable \<Rightarrow> bool" where
  ks_issue: "(\<And>key. rand = Some key \<Longrightarrow> map_of (rk_byKey t) key = None) \<Longrightarrow> key_step t (snd (issue rand sess op t))"
| ks_release: "key_step t (rk_release ho t)"
| ks_clear: "key_step t (rk_clear t)"

inductive_cases key_stepE: "key_step t t'"

interpretation key_tables: invariant_system "\<lambda>t. t = newResumeKeyTable" key_step rk_inv
proof
  show "rk_inv t" if "t = newResumeKeyTable" for t using that rk_inv_new by simp
  show "rk_inv t'" if t: "rk_inv t" and "key_step t t'" for t t'
    using that(2)
  proof cases
    case (ks_issue rand sess op)
    with issue_inv [OF t] show ?thesis by blast
  next
    case (ks_release ho)
    with t rk_release_inv [OF t] show ?thesis by (cases ho) (simp_all add: rk_release_def)
  next
    case ks_clear
    then show ?thesis by (simp add: rk_clear_def rk_inv_def)
  qed
qed

lemma reachable_keys: "rtranclp key_step newResumeKeyTable t \<Longrightarrow> rk_inv t"
  by (rule key_tables.Inv_reachable) simp_all

text \<open>A resume key works for the session it was issued to and for no other, and only while the handle
  it names is open: issuing one gives the asking session a key for that handle and nobody else
  anything new, releasing a handle revokes every key for it and no other key, and clearing the table
  revokes all.\<close>

theorem resume_key_is_bound:
  assumes "rtranclp key_step newResumeKeyTable t"
    and "\<And>key. rand = Some key \<Longrightarrow> map_of (rk_byKey t) key = None"
  shows "(resolve k s t = Some op \<and> resolve k s' t = Some op' \<longrightarrow> s' = s \<and> op' = op)
    \<and> (case fst (issue rand sess op t) of None \<Rightarrow> rand = None
        | Some key \<Rightarrow> resolve key sess (snd (issue rand sess op t)) = Some op)
    \<and> capabilities (snd (issue rand sess op t)) \<subseteq> capabilities t \<union> {c. fst (snd c) = sess \<and> snd (snd c) = op}
    \<and> capabilities (rk_release (Some op) t) = {c \<in> capabilities t. snd (snd c) \<noteq> op}
    \<and> resolve k s (rk_clear t) = None"
proof -
  note inv = reachable_keys [OF assms(1)]
  note i = issue_inv [where rand = rand and sess = sess and op = op, OF inv assms(2)]
  have "case fst (issue rand sess op t) of None \<Rightarrow> rand = None
      | Some key \<Rightarrow> resolve key sess (snd (issue rand sess op t)) = Some op"
    using i by (simp add: capabilities_def split: option.splits)
  moreover have "resolve k s (rk_clear t) = None" by (simp add: rk_clear_def resolve_def)
  moreover have "resolve k s t = Some op \<and> resolve k s' t = Some op' \<longrightarrow> s' = s \<and> op' = op"
    by (auto simp: resolve_def split: option.splits if_splits)
  ultimately show ?thesis
    using i rk_release_inv [OF inv, of op] by auto
qed

end
