(* ===== verification/Sessions.thy ===== *)
theory Sessions
  imports Durable Async_Requests Resume_Keys
begin

text \<open>
  Sessions and who owns their handles: the tree and open tables of a session, the
  per-connection session table with its half-open cap (\<^verbatim>\<open>internal/parent/session.go\<close>), the
  server-wide index that resolves PreviousSessionId (\<^verbatim>\<open>sessionindex.go\<close>), the release of
  a batch of handles (\<^verbatim>\<open>dispatch.go\<close>, \<^verbatim>\<open>conn.go\<close>).

  Sessions and connections (hosts)
  are objects shared by pointer and live in heaps. \<^verbatim>\<open>strings.EqualFold\<close>, which depends on
  the Unicode tables, is the argument \<open>equalFold\<close>.
\<close>

record Session =
  s_ID :: u64
  s_UserName :: gostring
  s_AllowShares :: "gostring list"
  s_IsGuest :: bool
  s_SigningKey :: bytes
  s_S2CCipherKey :: bytes
  s_C2SCipherKey :: bytes
  s_Authenticated :: bool
  s_gotEncrypted :: bool
  s_trees :: "(u32, Tree) gomap"
  s_opens :: "(bytes, open_ref) gomap"
  s_dead :: bool
  s_nextTreeID :: u32

definition initTables :: "Session \<Rightarrow> Session" where
  "initTables s = (if s_nextTreeID s = 0 then s\<lparr>s_nextTreeID := 1\<rparr> else s)"

definition AddTree :: "ShareConfig \<Rightarrow> Session \<Rightarrow> Tree \<times> Session" where
  "AddTree share s =
     (let s1 = initTables s; n = s_nextTreeID s1 + 1; t = \<lparr>t_ID = n, t_Share = share\<rparr> in
      (t, s1\<lparr>s_nextTreeID := n, s_trees := map_put n t (s_trees s1)\<rparr>))"

definition GetTree :: "u32 \<Rightarrow> Session \<Rightarrow> Tree option" where
  "GetTree i s = map_of (s_trees s) i"

definition RemoveTree :: "u32 \<Rightarrow> Session \<Rightarrow> Session" where
  "RemoveTree i s = s\<lparr>s_trees := map_delete i (s_trees s)\<rparr>"

definition on_tree :: "(open_ref \<Rightarrow> Open) \<Rightarrow> u32 \<Rightarrow> open_ref \<Rightarrow> bool" where
  "on_tree heap i h = (case o_Tree (heap h) of None \<Rightarrow> False | Some t \<Rightarrow> t_ID t = i)"

definition RemoveTreeAndOpens :: "(open_ref \<Rightarrow> Open) \<Rightarrow> u32 \<Rightarrow> Session \<Rightarrow> open_ref list \<times> Session" where
  "RemoveTreeAndOpens heap i s =
     (map snd (filter (\<lambda>p. on_tree heap i (snd p)) (s_opens s)),
      s\<lparr>s_trees := map_delete i (s_trees s), s_opens := filter (\<lambda>p. \<not> on_tree heap i (snd p)) (s_opens s)\<rparr>)"

definition TakeAllOpens :: "Session \<Rightarrow> open_ref list \<times> Session" where
  "TakeAllOpens s = (map snd (s_opens s), s\<lparr>s_dead := True, s_opens := [], s_trees := []\<rparr>)"

definition OpenCount :: "Session \<Rightarrow> nat" where
  "OpenCount s = length (s_opens s)"

definition TreeCount :: "Session \<Rightarrow> nat" where
  "TreeCount s = length (s_trees s)"

definition AddOpen :: "(open_ref \<Rightarrow> Open) \<Rightarrow> open_ref \<Rightarrow> Session \<Rightarrow> bool \<times> Session" where
  "AddOpen heap h s =
     (if s_dead s then (False, s)
      else let s1 = initTables s in (True, s1\<lparr>s_opens := map_put (o_FileID (heap h)) h (s_opens s1)\<rparr>))"

definition AddOpenToTree :: "(open_ref \<Rightarrow> Open) \<Rightarrow> open_ref \<Rightarrow> u32 \<Rightarrow> Session \<Rightarrow> bool \<times> Session" where
  "AddOpenToTree heap h treeID s =
     (if s_dead s then (False, s)
      else if map_of (s_trees s) treeID = None then (False, s)
      else let s1 = initTables s in (True, s1\<lparr>s_opens := map_put (o_FileID (heap h)) h (s_opens s1)\<rparr>))"

definition GetOpen :: "bytes \<Rightarrow> Session \<Rightarrow> open_ref option" where
  "GetOpen fid s = map_of (s_opens s) fid"

definition RemoveOpen :: "bytes \<Rightarrow> Session \<Rightarrow> open_ref option \<times> Session" where
  "RemoveOpen fid s = (map_of (s_opens s) fid, s\<lparr>s_opens := map_delete fid (s_opens s)\<rparr>)"

section \<open>The session table of a connection\<close>

type_synonym host_ref = nat

definition maxHalfOpenSessions :: nat where
  "maxHalfOpenSessions = 64"

record SessionTable =
  st_byID :: "(u64, sess_ref) gomap"
  st_halfOpen :: "u64 list"

definition NewSessionTable :: SessionTable where
  "NewSessionTable = \<lparr>st_byID = [], st_halfOpen = []\<rparr>"

text \<open>The counter is process-wide; a new session object sits at address \<open>ref\<close>.\<close>

definition allocSessionID :: "u64 \<Rightarrow> u64 \<times> u64" where
  "allocSessionID ctr = (ctr + 1, ctr + 1)"

definition st_New :: "sess_ref \<Rightarrow> u64 \<Rightarrow> SessionTable \<Rightarrow> u64 \<times> u64 \<times> SessionTable" where
  "st_New ref ctr t =
     (case allocSessionID ctr of (i, ctr') \<Rightarrow> (i, ctr', t\<lparr>st_byID := map_put i ref (st_byID t)\<rparr>))"

definition NewHalfOpen :: "sess_ref \<Rightarrow> u64 \<Rightarrow> SessionTable \<Rightarrow> u64 option \<times> u64 \<times> SessionTable" where
  "NewHalfOpen ref ctr t =
     (if length (st_halfOpen t) \<ge> maxHalfOpenSessions then (None, ctr, t)
      else (case allocSessionID ctr of (i, ctr') \<Rightarrow>
        (Some i, ctr', t\<lparr>st_byID := map_put i ref (st_byID t), st_halfOpen := i # removeAll i (st_halfOpen t)\<rparr>)))"

definition MarkAuthenticated :: "u64 \<Rightarrow> SessionTable \<Rightarrow> SessionTable" where
  "MarkAuthenticated i t = t\<lparr>st_halfOpen := removeAll i (st_halfOpen t)\<rparr>"

definition st_Remove :: "u64 \<Rightarrow> SessionTable \<Rightarrow> SessionTable" where
  "st_Remove i t = t\<lparr>st_byID := map_delete i (st_byID t), st_halfOpen := removeAll i (st_halfOpen t)\<rparr>"

definition st_Get :: "u64 \<Rightarrow> SessionTable \<Rightarrow> sess_ref option" where
  "st_Get i t = map_of (st_byID t) i"

section \<open>Releasing handles\<close>

text \<open>\<^verbatim>\<open>Dispatcher.releaseOpens\<close>, on the tables of the connection that owns the handles: requests
  parked on them are woken first, then each handle gives up its resume key, its share-mode
  reservation, its durable entry, its locks and its descriptor. The durable table is \<open>None\<close> when the
  server runs without one.\<close>

fun release_each :: "key_for \<Rightarrow> open_ref list \<Rightarrow> handles \<Rightarrow> DurableTable option \<Rightarrow> resumeKeyTable
    \<Rightarrow> handles \<times> DurableTable option \<times> resumeKeyTable" where
  "release_each fstat [] hs dt rk = (hs, dt, rk)"
| "release_each fstat (h # os) hs dt rk =
     (let rk1 = rk_release (Some h) rk;
          hs1 = hs\<lparr>hs_shares := sm_release (hs_shares hs) (Some h)\<rparr>;
          op = hs_opens hs h;
          dt1 = (if o_IsDurable op then map_option (Remove (o_DurableClientGuid op) (o_DurableCreateGuid op)) dt else dt);
          hs2 = (if o_HasFile op then
                   (close_file h (hs1\<lparr>hs_locks := releaseAll fstat (hs_locks hs1) h\<rparr>))
                     \<lparr>hs_opens := (hs_opens hs1)(h := op\<lparr>o_HasFile := False\<rparr>)\<rparr>
                 else hs1)
      in release_each fstat os hs2 dt1 rk1)"

definition releaseOpens :: "key_for \<Rightarrow> open_ref list \<Rightarrow> handles \<Rightarrow> DurableTable option \<Rightarrow> resumeKeyTable \<Rightarrow> asyncTable
    \<Rightarrow> handles \<times> DurableTable option \<times> resumeKeyTable \<times> asyncTable" where
  "releaseOpens fstat os hs dt rk asy =
     (let asy' = cancelNotifiesForOpens os asy in
      case release_each fstat os hs dt rk of (hs', dt', rk') \<Rightarrow> (hs', dt', rk', asy'))"

text \<open>\<^verbatim>\<open>releaseConnOpens\<close> after it has taken the handles out of every session: a handle whose
  durable entry is live is detached and stays open, any other descriptor is given up.\<close>

definition durable_kept :: "int \<Rightarrow> DurableTable option \<Rightarrow> Open \<Rightarrow> bool" where
  "durable_kept now dt op \<longleftrightarrow> o_IsDurable op \<and> dt \<noteq> None \<and>
     Has now (o_DurableClientGuid op) (o_DurableCreateGuid op) (the dt)"

definition drop_handle :: "key_for \<Rightarrow> open_ref \<Rightarrow> handles \<Rightarrow> handles" where
  "drop_handle fstat h hs =
     (let hs1 = hs\<lparr>hs_shares := sm_release (hs_shares hs) (Some h)\<rparr> in
      close_file h (hs1\<lparr>hs_locks := releaseAll fstat (hs_locks hs1) h\<rparr>))"

fun release_conn :: "key_for \<Rightarrow> int \<Rightarrow> open_ref list \<Rightarrow> handles \<Rightarrow> DurableTable option \<Rightarrow> handles \<times> DurableTable option" where
  "release_conn fstat now [] hs dt = (hs, dt)"
| "release_conn fstat now (h # os) hs dt =
     (let op = hs_opens hs h in
      if \<not> o_HasFile op then release_conn fstat now os hs dt
      else if durable_kept now dt op
        then release_conn fstat now os hs (map_option (Detach now (o_DurableClientGuid op) (o_DurableCreateGuid op)) dt)
      else release_conn fstat now os (drop_handle fstat h hs) dt)"

fun take_sessions :: "sess_ref list \<Rightarrow> (sess_ref \<Rightarrow> Session) \<Rightarrow> open_ref list \<times> (sess_ref \<Rightarrow> Session)" where
  "take_sessions [] sess = ([], sess)"
| "take_sessions (r # rs) sess =
     (case TakeAllOpens (sess r) of (os, s') \<Rightarrow>
        (case take_sessions rs (sess(r := s')) of (os', sess') \<Rightarrow> (os @ os', sess')))"

definition releaseConnOpens :: "key_for \<Rightarrow> int \<Rightarrow> SessionTable \<Rightarrow> (sess_ref \<Rightarrow> Session) \<Rightarrow> handles \<Rightarrow> DurableTable option
    \<Rightarrow> (sess_ref \<Rightarrow> Session) \<times> handles \<times> DurableTable option" where
  "releaseConnOpens fstat now t sess hs dt =
     (case take_sessions (map snd (st_byID t)) sess of (os, sess') \<Rightarrow>
        (case release_conn fstat now os hs dt of (hs', dt') \<Rightarrow> (sess', hs', dt')))"

section \<open>The server-wide session index\<close>

text \<open>The process: session objects, one session table, ClientGuid, resume-key table and async
  table per connection, and what all connections share.\<close>

record server =
  sv_sess :: "sess_ref \<Rightarrow> Session"
  sv_tables :: "host_ref \<Rightarrow> SessionTable"
  sv_guid :: "host_ref \<Rightarrow> bytes"
  sv_index :: "(u64, sess_ref \<times> host_ref) gomap"
  sv_handles :: handles
  sv_durable :: "DurableTable option"
  sv_resume :: "host_ref \<Rightarrow> resumeKeyTable"
  sv_async :: "host_ref \<Rightarrow> asyncTable"

definition idx_register :: "sess_ref \<Rightarrow> host_ref \<Rightarrow> server \<Rightarrow> server" where
  "idx_register r host sv =
     (if s_ID (sv_sess sv r) = 0 then sv
      else sv\<lparr>sv_index := map_put (s_ID (sv_sess sv r)) (r, host) (sv_index sv)\<rparr>)"

definition idx_unregister :: "u64 \<Rightarrow> server \<Rightarrow> server" where
  "idx_unregister i sv = sv\<lparr>sv_index := map_delete i (sv_index sv)\<rparr>"

definition unregisterHost :: "host_ref \<Rightarrow> server \<Rightarrow> server" where
  "unregisterHost host sv = sv\<lparr>sv_index := filter (\<lambda>p. snd (snd p) \<noteq> host) (sv_index sv)\<rparr>"

definition idx_get :: "u64 \<Rightarrow> server \<Rightarrow> sess_ref option" where
  "idx_get i sv = map_option fst (map_of (sv_index sv) i)"

definition release_on :: "key_for \<Rightarrow> host_ref \<Rightarrow> open_ref list \<Rightarrow> server \<Rightarrow> server" where
  "release_on fstat host os sv =
     (case releaseOpens fstat os (sv_handles sv) (sv_durable sv) (sv_resume sv host) (sv_async sv host) of
        (hs', dt', rk', asy') \<Rightarrow>
          sv\<lparr>sv_handles := hs', sv_durable := dt', sv_resume := (sv_resume sv)(host := rk'),
             sv_async := (sv_async sv)(host := asy')\<rparr>)"

definition closeSession :: "key_for \<Rightarrow> host_ref \<Rightarrow> sess_ref \<Rightarrow> server \<Rightarrow> server" where
  "closeSession fstat host r sv =
     (let sv1 = sv\<lparr>sv_tables := (sv_tables sv)(host := st_Remove (s_ID (sv_sess sv r)) (sv_tables sv host))\<rparr> in
      case TakeAllOpens (sv_sess sv1 r) of (os, s') \<Rightarrow>
        release_on fstat host os (sv1\<lparr>sv_sess := (sv_sess sv1)(r := s')\<rparr>))"

definition maySupersede :: "(gostring \<Rightarrow> gostring \<Rightarrow> bool) \<Rightarrow> Session \<Rightarrow> bytes \<Rightarrow> Session \<Rightarrow> bytes \<Rightarrow> bool" where
  "maySupersede equalFold prev prevGuid by_sess byGuid =
     (if \<not> s_Authenticated prev \<or> \<not> s_Authenticated by_sess then False
      else if s_IsGuest prev \<noteq> s_IsGuest by_sess then False
      else if \<not> equalFold (s_UserName prev) (s_UserName by_sess) then False
      else if s_IsGuest by_sess \<and> prevGuid \<noteq> byGuid then False
      else True)"

definition supersede :: "(gostring \<Rightarrow> gostring \<Rightarrow> bool) \<Rightarrow> key_for \<Rightarrow> u64 \<Rightarrow> sess_ref \<Rightarrow> bytes \<Rightarrow> server \<Rightarrow> bool \<times> server" where
  "supersede equalFold fstat prevID by_ref byGuid sv =
     (if prevID = 0 \<or> prevID = s_ID (sv_sess sv by_ref) then (False, sv)
      else (case map_of (sv_index sv) prevID of
         None \<Rightarrow> (False, sv)
       | Some (r, host) \<Rightarrow>
           if \<not> maySupersede equalFold (sv_sess sv r) (sv_guid sv host) (sv_sess sv by_ref) byGuid then (False, sv)
           else (True, closeSession fstat host r (sv\<lparr>sv_index := map_delete prevID (sv_index sv)\<rparr>))))"

section \<open>Commands that end a tree, a session or a connection\<close>

text \<open>\<^verbatim>\<open>handleTreeDisconnect\<close> and \<^verbatim>\<open>handleLogoff\<close>; the outer \<open>None\<close> is a panic of the decoder.\<close>

definition handleTreeDisconnect :: "key_for \<Rightarrow> host_ref \<Rightarrow> sess_ref \<Rightarrow> u32 \<Rightarrow> bytes \<Rightarrow> server \<Rightarrow> (Status \<times> server) option" where
  "handleTreeDisconnect fstat host r treeID body sv =
     (case DecodeTreeDisconnectRequest body of
        None \<Rightarrow> None
      | Some (Inl _) \<Rightarrow> Some (StatusInvalidParameter, sv)
      | Some (Inr _) \<Rightarrow>
          (case RemoveTreeAndOpens (hs_opens (sv_handles sv)) treeID (sv_sess sv r) of (os, s') \<Rightarrow>
             Some (StatusSuccess, release_on fstat host os (sv\<lparr>sv_sess := (sv_sess sv)(r := s')\<rparr>))))"

definition handleLogoff :: "key_for \<Rightarrow> host_ref \<Rightarrow> sess_ref \<Rightarrow> server \<Rightarrow> Status \<times> server" where
  "handleLogoff fstat host r sv =
     (case TakeAllOpens (sv_sess sv r) of (os, s') \<Rightarrow>
        let sv1 = release_on fstat host os (sv\<lparr>sv_sess := (sv_sess sv)(r := s')\<rparr>);
            i = s_ID (sv_sess sv r);
            sv2 = sv1\<lparr>sv_tables := (sv_tables sv1)(host := st_Remove i (sv_tables sv1 host))\<rparr>
        in (StatusSuccess, idx_unregister i sv2))"

text \<open>The deferred teardown of \<^verbatim>\<open>ServeConn\<close>: out of the index, wake everything parked, drop the
  resume keys, dispose of the handles.\<close>

definition conn_teardown :: "key_for \<Rightarrow> int \<Rightarrow> host_ref \<Rightarrow> server \<Rightarrow> server" where
  "conn_teardown fstat now host sv =
     (let sv1 = unregisterHost host sv;
          sv2 = sv1\<lparr>sv_async := (sv_async sv1)(host := CancelAllNotifies (sv_async sv1 host)),
                   sv_resume := (sv_resume sv1)(host := rk_clear (sv_resume sv1 host))\<rparr>
      in case releaseConnOpens fstat now (sv_tables sv2 host) (sv_sess sv2) (sv_handles sv2) (sv_durable sv2) of
           (sess', hs', dt') \<Rightarrow> sv2\<lparr>sv_sess := sess', sv_handles := hs', sv_durable := dt'\<rparr>)"

end
