(* ===== verification/Session_Properties.thy ===== *)
theory Session_Properties
  imports Sessions
begin

text \<open>
  Ownership of handles: every handle added to a session leaves it through exactly one
  remover, teardown releases what it takes, a session is closed by nobody but its user,
  and an unauthenticated peer cannot grow the session table.
\<close>

section \<open>Every handle has exactly one remover\<close>

text \<open>A session with the handles added to it and those taken out of it so far. A FileID is
  fresh for each handle, as the server draws it at random.\<close>

record session_trace =
  tr_sess :: Session
  tr_added :: "open_ref list"
  tr_taken :: "open_ref list"

inductive session_step :: "(open_ref \<Rightarrow> Open) \<Rightarrow> session_trace \<Rightarrow> session_trace \<Rightarrow> bool" for heap where
  do_add: "AddOpen heap h (tr_sess s) = (ok, s') \<Longrightarrow> GetOpen (o_FileID (heap h)) (tr_sess s) = None \<Longrightarrow>
    session_step heap s (s\<lparr>tr_sess := s', tr_added := (if ok then h # tr_added s else tr_added s)\<rparr>)"
| do_add_tree: "AddOpenToTree heap h i (tr_sess s) = (ok, s') \<Longrightarrow> GetOpen (o_FileID (heap h)) (tr_sess s) = None \<Longrightarrow>
    session_step heap s (s\<lparr>tr_sess := s', tr_added := (if ok then h # tr_added s else tr_added s)\<rparr>)"
| do_remove: "RemoveOpen fid (tr_sess s) = (ho, s') \<Longrightarrow>
    session_step heap s (s\<lparr>tr_sess := s', tr_taken := (case ho of None \<Rightarrow> [] | Some h \<Rightarrow> [h]) @ tr_taken s\<rparr>)"
| do_tree: "RemoveTreeAndOpens heap i (tr_sess s) = (os, s') \<Longrightarrow>
    session_step heap s (s\<lparr>tr_sess := s', tr_taken := os @ tr_taken s\<rparr>)"
| do_take: "TakeAllOpens (tr_sess s) = (os, s') \<Longrightarrow>
    session_step heap s (s\<lparr>tr_sess := s', tr_taken := os @ tr_taken s\<rparr>)"
| do_connect: "AddTree share (tr_sess s) = (t, s') \<Longrightarrow> session_step heap s (s\<lparr>tr_sess := s'\<rparr>)"

inductive_cases session_stepE: "session_step heap s t"

definition trace_inv :: "session_trace \<Rightarrow> bool" where
  "trace_inv s \<longleftrightarrow> distinct (map fst (s_opens (tr_sess s))) \<and>
     mset (tr_added s) = mset (map snd (s_opens (tr_sess s))) + mset (tr_taken s) \<and>
     (s_dead (tr_sess s) \<longrightarrow> s_opens (tr_sess s) = [])"

definition fresh_session :: "session_trace \<Rightarrow> bool" where
  "fresh_session s \<longleftrightarrow> s_opens (tr_sess s) = [] \<and> \<not> s_dead (tr_sess s) \<and> tr_added s = [] \<and> tr_taken s = []"

lemma initTables_fields [simp]: "s_opens (initTables s) = s_opens s" "s_dead (initTables s) = s_dead s"
  "s_trees (initTables s) = s_trees s"
  by (simp_all add: initTables_def)

lemma mset_split: "mset (map snd xs) = mset (map snd (filter P xs)) + mset (map snd (filter (\<lambda>p. \<not> P p) xs))"
  by (induction xs) auto

interpretation session_handles: invariant_system fresh_session "session_step heap" trace_inv for heap
proof
  show "trace_inv s" if "fresh_session s" for s
    using that by (simp add: fresh_session_def trace_inv_def)
  show "trace_inv t" if s: "trace_inv s" and "session_step heap s t" for s t
    using that(2)
  proof cases
    case (do_remove fid ho s')
    show ?thesis
    proof (cases ho)
      case None
      with s do_remove show ?thesis
        by (auto simp: trace_inv_def RemoveOpen_def delete_absent)
    next
      case (Some h)
      with s do_remove mset_delete [of "s_opens (tr_sess s)" fid h] show ?thesis
        by (auto simp: trace_inv_def RemoveOpen_def distinct_delete)
    qed
  next
    case (do_tree i os s')
    with s mset_split [of "s_opens (tr_sess s)" "\<lambda>p. on_tree heap i (snd p)"] show ?thesis
      by (auto simp: trace_inv_def RemoveTreeAndOpens_def distinct_map_filter ac_simps)
  qed (use s in \<open>auto simp: trace_inv_def AddOpen_def AddOpenToTree_def GetOpen_def TakeAllOpens_def AddTree_def Let_def
        map_put_def delete_absent distinct_put map_of_eq_None_iff split: if_splits\<close>)
qed

text \<open>C4: However adds, closes, tree disconnects and teardowns interleave, each handle added to a session is
  either still in it or was handed to exactly one remover; and after a teardown nothing
  is left behind or added later, so all of them were handed out.\<close>

theorem handles_leave_exactly_once:
  assumes "fresh_session s" and "rtranclp (session_step heap) s t"
  shows "mset (tr_added t) = mset (map snd (s_opens (tr_sess t))) + mset (tr_taken t)
    \<and> (s_dead (tr_sess t) \<longrightarrow> mset (tr_taken t) = mset (tr_added t))
    \<and> (distinct (tr_added t) \<longrightarrow> distinct (tr_taken t) \<and> set (tr_taken t) \<inter> snd ` set (s_opens (tr_sess t)) = {})"
proof -
  have inv: "trace_inv t" by (rule session_handles.Inv_reachable [OF assms])
  then have eq: "mset (tr_added t) = mset (map snd (s_opens (tr_sess t)) @ tr_taken t)"
    by (simp add: trace_inv_def)
  have "distinct (tr_added t) \<Longrightarrow> distinct (map snd (s_opens (tr_sess t)) @ tr_taken t)"
    using mset_eq_imp_distinct_iff [OF eq] by blast
  then show ?thesis using inv by (auto simp: trace_inv_def)
qed

section \<open>Teardown releases what it takes\<close>

lemma drop_handle_fields [simp]:
  "hs_opens (drop_handle fstat h hs) = hs_opens hs" "hs_closed (drop_handle fstat h hs) = h # hs_closed hs"
  "hs_shares (drop_handle fstat h hs) = sm_release (hs_shares hs) (Some h)"
  by (simp_all add: drop_handle_def close_file_def Let_def)

lemma sm_release_none: "sm_owners t x = None \<Longrightarrow> sm_owners (sm_release t (Some y)) x = None"
  by (cases "x = y") (simp_all add: sm_release_owner sm_release_others)

lemma release_conn_keeps:
  "release_conn fstat now os hs dt = (hs', dt') \<Longrightarrow>
    set (hs_closed hs) \<subseteq> set (hs_closed hs') \<and> (\<forall>h. sm_owners (hs_shares hs) h = None \<longrightarrow> sm_owners (hs_shares hs') h = None)"
proof (induction os arbitrary: hs dt)
  case (Cons h os)
  consider (nofile) "\<not> o_HasFile (hs_opens hs h)" | (durable) "o_HasFile (hs_opens hs h)" "durable_kept now dt (hs_opens hs h)"
    | (gone) "o_HasFile (hs_opens hs h)" "\<not> durable_kept now dt (hs_opens hs h)" by blast
  then show ?case
  proof cases
    case gone
    then have "release_conn fstat now os (drop_handle fstat h hs) dt = (hs', dt')"
      using Cons.prems by simp
    from Cons.IH [OF this] show ?thesis by (simp add: sm_release_none)
  qed (use Cons in \<open>simp_all add: Let_def\<close>)
qed simp

text \<open>A handle that is gone for good: no reservation, and a descriptor that is closed.\<close>

lemma release_conn_releases:
  "release_conn fstat now os hs dt = (hs', dt') \<Longrightarrow> h \<in> set os \<Longrightarrow> o_HasFile (hs_opens hs h) \<Longrightarrow>
    \<not> o_IsDurable (hs_opens hs h) \<or> dt = None \<Longrightarrow> sm_owners (hs_shares hs') h = None \<and> h \<in> set (hs_closed hs')"
proof (induction os arbitrary: hs dt)
  case (Cons x os)
  consider (nofile) "\<not> o_HasFile (hs_opens hs x)" | (durable) "o_HasFile (hs_opens hs x)" "durable_kept now dt (hs_opens hs x)"
    | (gone) "o_HasFile (hs_opens hs x)" "\<not> durable_kept now dt (hs_opens hs x)" by blast
  then show ?case
  proof cases
    case nofile
    with Cons show ?thesis by auto
  next
    case durable
    then have "x \<noteq> h" using Cons.prems(4) by (auto simp: durable_kept_def)
    with durable Cons.prems show ?thesis
      by (intro Cons.IH [of hs "map_option (Detach now (o_DurableClientGuid (hs_opens hs x)) (o_DurableCreateGuid (hs_opens hs x))) dt"])
        (auto simp: Let_def)
  next
    case gone
    then have rec: "release_conn fstat now os (drop_handle fstat x hs) dt = (hs', dt')"
      using Cons.prems by simp
    show ?thesis
    proof (cases "x = h")
      case True
      with release_conn_keeps [OF rec] show ?thesis by (simp add: sm_release_owner)
    next
      case False
      with Cons.prems show ?thesis by (intro Cons.IH [OF rec]) simp_all
    qed
  qed
qed simp

lemma take_sessions_all:
  "take_sessions rs sess = (os, sess') \<Longrightarrow> r \<in> set rs \<Longrightarrow> s_dead (sess' r) \<and> s_opens (sess' r) = [] \<and> snd ` set (s_opens (sess r)) \<subseteq> set os"
proof (induction rs arbitrary: sess os)
  case (Cons x rs)
  obtain os1 s1 where t1: "TakeAllOpens (sess x) = (os1, s1)" by (cases "TakeAllOpens (sess x)")
  obtain os2 where t2: "take_sessions rs (sess(x := s1)) = (os2, sess')" and os: "os = os1 @ os2"
    using Cons.prems(1) t1 by (auto split: prod.splits)
  have s1: "s_dead s1" "s_opens s1 = []" "os1 = map snd (s_opens (sess x))"
    using t1 by (auto simp: TakeAllOpens_def)
  have keep: "take_sessions rs f = (os', f') \<Longrightarrow> s_dead (f x) \<Longrightarrow> s_opens (f x) = [] \<Longrightarrow> s_dead (f' x) \<and> s_opens (f' x) = []" for f os' f'
  proof (induction rs arbitrary: f os' f')
    case (Cons y rs)
    then show ?case by (auto split: prod.splits simp: TakeAllOpens_def elim!: Cons.IH)
  qed simp
  show ?case
  proof (cases "r = x")
    case True
    with keep [OF t2] s1 os show ?thesis by auto
  next
    case False
    with Cons.IH [OF t2] Cons.prems(2) os show ?thesis by auto
  qed
qed simp

lemma releaseConnOpens_releases:
  assumes "releaseConnOpens fstat now tbl sess hs dt = (sess', hs', dt')"
    and "(i, r) \<in> set (st_byID tbl)"
  shows "s_dead (sess' r) \<and> s_opens (sess' r) = []
    \<and> (\<forall>h. h \<in> snd ` set (s_opens (sess r)) \<and> o_HasFile (hs_opens hs h) \<and> (\<not> o_IsDurable (hs_opens hs h) \<or> dt = None)
        \<longrightarrow> sm_owners (hs_shares hs') h = None \<and> h \<in> set (hs_closed hs'))"
proof -
  obtain os where take: "take_sessions (map snd (st_byID tbl)) sess = (os, sess')"
    and rel: "release_conn fstat now os hs dt = (hs', dt')"
    using assms(1) by (auto simp: releaseConnOpens_def split: prod.splits)
  have "r \<in> set (map snd (st_byID tbl))" using assms(2) by force
  note all = take_sessions_all [OF take this]
  have "sm_owners (hs_shares hs') h = None \<and> h \<in> set (hs_closed hs')"
    if "h \<in> snd ` set (s_opens (sess r))" "o_HasFile (hs_opens hs h)" "\<not> o_IsDurable (hs_opens hs h) \<or> dt = None" for h
    by (rule release_conn_releases [OF rel]) (use all that in auto)
  with all show ?thesis by simp
qed

lemma CancelAllNotifies_cancels:
  assumes "async_inv t" and "(m, r) \<in> set (at_regs t)"
  shows "nr_cancelled (at_heap (CancelAllNotifies t) ! r)"
proof -
  have regs: "distinct (map snd (at_regs t))" "\<forall>r \<in> set (map snd (at_regs t)). r < length (at_heap t)" "r \<in> set (map snd (at_regs t))"
    using assms by (force simp: async_inv_def)+
  then have "r < length (at_heap t)" by blast
  from cancel_each_nth [OF regs(1,2) this, of "\<lambda>_. True"] regs(3) show ?thesis
    by (simp add: CancelAllNotifies_def complete_reg_def)
qed

text \<open>When a connection drops, no session of it can be found through the index, every session it had
  is marked dead and emptied, every request parked on it is woken, no resume key of it works any more,
  and every handle with a descriptor that is not durable (or when there is no durable
  table) ends with its share-mode reservation given up and its descriptor closed.\<close>

theorem dropped_connection_releases_handles:
  assumes "conn_teardown fstat now host sv = sv'"
    and "(i, r) \<in> set (st_byID (sv_tables sv host))"
    and "async_inv (sv_async sv host)"
  shows "s_dead (sv_sess sv' r) \<and> s_opens (sv_sess sv' r) = []
    \<and> host \<notin> snd ` snd ` set (sv_index sv')
    \<and> (\<forall>(m, q) \<in> set (at_regs (sv_async sv host)). nr_cancelled (at_heap (sv_async sv' host) ! q))
    \<and> resolve k s (sv_resume sv' host) = None
    \<and> (\<forall>h. h \<in> snd ` set (s_opens (sv_sess sv r)) \<and> o_HasFile (hs_opens (sv_handles sv) h)
          \<and> (\<not> o_IsDurable (hs_opens (sv_handles sv) h) \<or> sv_durable sv = None)
        \<longrightarrow> sm_owners (hs_shares (sv_handles sv')) h = None \<and> h \<in> set (hs_closed (sv_handles sv')))"
proof -
  obtain sess' hs' dt' where rel:
    "releaseConnOpens fstat now (sv_tables sv host) (sv_sess sv) (sv_handles sv) (sv_durable sv) = (sess', hs', dt')"
    by (metis prod_cases3)
  have fields: "sv_sess sv' = sess'" "sv_handles sv' = hs'" "sv_resume sv' host = rk_clear (sv_resume sv host)"
    "sv_async sv' host = CancelAllNotifies (sv_async sv host)"
    "sv_index sv' = filter (\<lambda>p. snd (snd p) \<noteq> host) (sv_index sv)"
    using assms(1) rel by (auto simp: conn_teardown_def unregisterHost_def Let_def)
  show ?thesis
    using releaseConnOpens_releases [OF rel assms(2)] CancelAllNotifies_cancels [OF assms(3)]
    by (auto simp: fields rk_clear_def resolve_def)
qed

section \<open>Closing somebody's session\<close>

text \<open>What is left of a handle after its release: no share-mode reservation, a closed descriptor, no byte-range lock
  on the file behind it (\<open>fstat\<close> says which one that is, while the descriptor is open), no durable entry, no resume
  key on its connection, and nobody still waiting on it.\<close>

definition handle_gone :: "key_for \<Rightarrow> Open \<Rightarrow> open_ref \<Rightarrow> host_ref \<Rightarrow> server \<Rightarrow> bool" where
  "handle_gone fstat op h host sv \<longleftrightarrow>
     sm_owners (hs_shares (sv_handles sv)) h = None
     \<and> (o_HasFile op \<longrightarrow> h \<in> set (hs_closed (sv_handles sv)))
     \<and> (\<forall>key. o_HasFile op \<and> fstat h = Inr key \<longrightarrow> h \<notin> lr_owner ` set (ranges_of (lt_t (hs_locks (sv_handles sv))) key))
     \<and> (\<forall>d. o_IsDurable op \<and> sv_durable sv = Some d \<longrightarrow>
          map_of d \<lparr>dk_clientGuid = o_DurableClientGuid op, dk_createGuid = o_DurableCreateGuid op\<rparr> = None)
     \<and> (\<forall>k s. resolve k s (sv_resume sv host) \<noteq> Some h)
     \<and> (\<forall>(m, r) \<in> set (at_regs (sv_async sv host)). nr_open (at_heap (sv_async sv host) ! r) = h \<longrightarrow>
          nr_cancelled (at_heap (sv_async sv host) ! r))"

definition conn_ok :: "host_ref \<Rightarrow> server \<Rightarrow> bool" where
  "conn_ok host sv \<longleftrightarrow> rk_inv (sv_resume sv host) \<and> async_inv (sv_async sv host)"

lemma release_each_handles:
  "release_each fstat os hs dt rk = (hs', dt', rk') \<Longrightarrow>
    (\<forall>h. sm_owners (hs_shares hs') h = (if h \<in> set os then None else sm_owners (hs_shares hs) h)) \<and>
    (\<forall>h \<in> set os. o_HasFile (hs_opens hs h) \<longrightarrow> h \<in> set (hs_closed hs')) \<and>
    set (hs_closed hs) \<subseteq> set (hs_closed hs')"
proof (induction os arbitrary: hs dt rk)
  case (Cons x os)
  let ?op = "hs_opens hs x"
  let ?hs1 = "hs\<lparr>hs_shares := sm_release (hs_shares hs) (Some x)\<rparr>"
  let ?hs2 = "if o_HasFile ?op then (close_file x (?hs1\<lparr>hs_locks := releaseAll fstat (hs_locks ?hs1) x\<rparr>))
      \<lparr>hs_opens := (hs_opens ?hs1)(x := ?op\<lparr>o_HasFile := False\<rparr>)\<rparr> else ?hs1"
  obtain dt1 rk1 where rec: "release_each fstat os ?hs2 dt1 rk1 = (hs', dt', rk')"
    using Cons.prems by (auto simp: Let_def)
  have shares: "sm_owners (hs_shares ?hs2) h = (if h = x then None else sm_owners (hs_shares hs) h)" for h
    by (simp add: close_file_def sm_release_owner sm_release_others)
  have closed: "set (hs_closed ?hs2) = (if o_HasFile ?op then insert x (set (hs_closed hs)) else set (hs_closed hs))"
    by (simp add: close_file_def)
  have opens: "h \<noteq> x \<Longrightarrow> hs_opens ?hs2 h = hs_opens hs h" for h
    by simp
  note ih = Cons.IH [OF rec]
  have "h \<in> set (hs_closed hs')" if "h \<in> set (x # os)" "o_HasFile (hs_opens hs h)" for h
  proof (cases "h = x")
    case True
    with ih closed that(2) show ?thesis by auto
  next
    case False
    with ih opens [OF False] that show ?thesis by auto
  qed
  with ih shares closed show ?case by (auto split: if_splits)
qed simp

lemma releaseAll_shrinks: "set (ranges_of (lt_t (releaseAll fstat tbl x)) key) \<subseteq> set (ranges_of (lt_t tbl) key)"
  by (auto simp: releaseAll_def lt_releaseOwner_def Let_def rt_releaseOwner_def ranges_of_store_filtered split: sum.splits if_splits)

lemma releaseAll_owner: "fstat h = Inr key \<Longrightarrow> h \<notin> lr_owner ` set (ranges_of (lt_t (releaseAll fstat tbl h)) key)"
  by (auto simp: releaseAll_ranges)

lemma release_each_locks:
  "release_each fstat os hs dt rk = (hs', dt', rk') \<Longrightarrow> fstat h = Inr key \<Longrightarrow>
    h \<in> set os \<and> o_HasFile (hs_opens hs h) \<or> h \<notin> lr_owner ` set (ranges_of (lt_t (hs_locks hs)) key) \<Longrightarrow>
    h \<notin> lr_owner ` set (ranges_of (lt_t (hs_locks hs')) key)"
proof (induction os arbitrary: hs dt rk)
  case (Cons x os)
  let ?op = "hs_opens hs x"
  let ?hs1 = "hs\<lparr>hs_shares := sm_release (hs_shares hs) (Some x)\<rparr>"
  let ?hs2 = "if o_HasFile ?op then (close_file x (?hs1\<lparr>hs_locks := releaseAll fstat (hs_locks ?hs1) x\<rparr>))
      \<lparr>hs_opens := (hs_opens ?hs1)(x := ?op\<lparr>o_HasFile := False\<rparr>)\<rparr> else ?hs1"
  obtain dt1 rk1 where rec: "release_each fstat os ?hs2 dt1 rk1 = (hs', dt', rk')"
    using Cons.prems(1) by (auto simp: Let_def)
  have shrinks: "set (ranges_of (lt_t (hs_locks ?hs2)) key) \<subseteq> set (ranges_of (lt_t (hs_locks hs)) key)"
    using releaseAll_shrinks [of fstat "hs_locks hs" x key] by (simp add: close_file_def)
  have opens: "h \<noteq> x \<Longrightarrow> hs_opens ?hs2 h = hs_opens hs h" by simp
  have "h \<in> set os \<and> o_HasFile (hs_opens ?hs2 h) \<or> h \<notin> lr_owner ` set (ranges_of (lt_t (hs_locks ?hs2)) key)"
  proof (cases "h = x \<and> o_HasFile ?op")
    case True
    then show ?thesis using releaseAll_owner [of fstat h key "hs_locks hs"] Cons.prems(2) by (auto simp: close_file_def)
  next
    case False
    then show ?thesis using Cons.prems(3) opens shrinks by (cases "h = x") auto
  qed
  from Cons.IH [OF rec Cons.prems(2) this] show ?case .
qed simp

lemma release_each_keys:
  "release_each fstat os hs dt rk = (hs', dt', rk') \<Longrightarrow> rk_inv rk \<Longrightarrow>
    rk_inv rk' \<and> capabilities rk' = {c \<in> capabilities rk. snd (snd c) \<notin> set os}"
proof (induction os arbitrary: hs dt rk)
  case (Cons x os)
  then obtain hs1 dt1 where "release_each fstat os hs1 dt1 (rk_release (Some x) rk) = (hs', dt', rk')"
    by (auto simp: Let_def)
  from Cons.IH [OF this] rk_release_inv [OF Cons.prems(2), of x] show ?case by auto
qed simp

abbreviation durable_key :: "Open \<Rightarrow> durableKey" where
  "durable_key op \<equiv> \<lparr>dk_clientGuid = o_DurableClientGuid op, dk_createGuid = o_DurableCreateGuid op\<rparr>"

lemma release_each_opens:
  "release_each fstat os hs dt rk = (hs', dt', rk') \<Longrightarrow>
    o_IsDurable (hs_opens hs' h) = o_IsDurable (hs_opens hs h) \<and> durable_key (hs_opens hs' h) = durable_key (hs_opens hs h)"
proof (induction os arbitrary: hs dt rk)
  case (Cons x os)
  then show ?case by (fastforce simp: Let_def close_file_def split: if_splits)
qed simp

lemma release_each_no_table: "fst (snd (release_each fstat os hs None rk)) = None"
  by (induction os arbitrary: hs rk) (simp_all add: Let_def)

lemma release_each_durable:
  "release_each fstat os hs dt rk = (hs', dt', rk') \<Longrightarrow> h \<in> set os \<or> dt \<noteq> None \<and> map_of (the dt) (durable_key (hs_opens hs h)) = None \<Longrightarrow>
    o_IsDurable (hs_opens hs h) \<Longrightarrow> dt' = Some d \<Longrightarrow> map_of d (durable_key (hs_opens hs h)) = None"
proof (induction os arbitrary: hs dt rk)
  case (Cons x os)
  let ?op = "hs_opens hs x"
  let ?dt1 = "if o_IsDurable ?op then map_option (Remove (o_DurableClientGuid ?op) (o_DurableCreateGuid ?op)) dt else dt"
  obtain hs1 where rec: "release_each fstat os hs1 ?dt1 (rk_release (Some x) rk) = (hs', dt', rk')"
    and op: "o_IsDurable (hs_opens hs1 h) = o_IsDurable (hs_opens hs h)" "durable_key (hs_opens hs1 h) = durable_key (hs_opens hs h)"
    using Cons.prems(1) by (cases "o_HasFile ?op") (auto simp: Let_def close_file_def)
  have "h \<in> set os \<or> ?dt1 \<noteq> None \<and> map_of (the ?dt1) (durable_key (hs_opens hs1 h)) = None" if "dt \<noteq> None"
    using Cons.prems(2,3) that op by (cases "h = x"; cases dt) (simp_all add: Remove_def map_of_dt_delete)
  moreover have "dt \<noteq> None"
    using rec Cons.prems(4) release_each_no_table [of fstat os hs1 "rk_release (Some x) rk"] by (cases dt) (simp_all split: if_splits)
  ultimately show ?case using Cons.IH [OF rec] Cons.prems(3,4) op by simp
qed simp

lemma release_on_fields [simp]:
  "sv_sess (release_on fstat host os sv) = sv_sess sv" "sv_tables (release_on fstat host os sv) = sv_tables sv"
  "sv_index (release_on fstat host os sv) = sv_index sv" "sv_guid (release_on fstat host os sv) = sv_guid sv"
  by (simp_all add: release_on_def split: prod.splits)

lemma release_on_gone:
  assumes "conn_ok host sv" and "h \<in> set os"
  shows "handle_gone fstat (hs_opens (sv_handles sv) h) h host (release_on fstat host os sv)"
proof -
  obtain hs' dt' rk' where rel: "release_each fstat os (sv_handles sv) (sv_durable sv) (sv_resume sv host) = (hs', dt', rk')"
    by (metis prod_cases3)
  let ?asy = "cancelNotifiesForOpens os (sv_async sv host)"
  have sv': "release_on fstat host os sv = sv\<lparr>sv_handles := hs', sv_durable := dt',
      sv_resume := (sv_resume sv)(host := rk'), sv_async := (sv_async sv)(host := ?asy)\<rparr>"
    by (simp add: release_on_def releaseOpens_def rel Let_def)
  have keys: "resolve k s rk' \<noteq> Some h" for k s
  proof
    assume "resolve k s rk' = Some h"
    then have "(k, s, h) \<in> capabilities rk'" by (simp add: capabilities_def)
    with release_each_keys [OF rel] assms show False by (simp add: conn_ok_def)
  qed
  have asy: "nr_cancelled (at_heap ?asy ! r)"
    if "(m, r) \<in> set (at_regs (sv_async sv host))" "nr_open (at_heap ?asy ! r) = h" for m r
  proof -
    have "nr_open (at_heap (sv_async sv host) ! r) = h"
      using cancelNotifiesForOpens_nth [of "sv_async sv host" m r os] that assms(1)
      by (auto simp: conn_ok_def complete_reg_def split: if_splits)
    with that(1) assms show ?thesis
      by (intro cancelNotifiesForOpens_cancels) (auto simp: conn_ok_def)
  qed
  show ?thesis
    unfolding sv' handle_gone_def
    using release_each_handles [OF rel] release_each_locks [OF rel, of h] release_each_durable [OF rel, of h] assms(2) keys asy by auto
qed

text \<open>C8: PreviousSessionId closes a session only for its own user: the named session and the requester are
  both authenticated, agree on being guests, have the same user name, and two guests
  come from the same client. Then the session is dead, its id is gone from the index
  and from its connection, and nothing is left of any of its handles: no reservation, no open descriptor, no
  byte-range lock on the file behind it (where its fstat does not fail), no durable entry, no resume key, no
  request waiting on it. A refusal changes nothing at all.\<close>

theorem only_the_owner_supersedes:
  assumes "supersede equalFold fstat prevID by_ref byGuid sv = (closed, sv')" and "\<And>host. conn_ok host sv"
  shows "(\<not> closed \<longrightarrow> sv' = sv)
    \<and> (closed \<longrightarrow> (\<exists>r host. map_of (sv_index sv) prevID = Some (r, host)
        \<and> s_Authenticated (sv_sess sv r) \<and> s_Authenticated (sv_sess sv by_ref)
        \<and> s_IsGuest (sv_sess sv r) = s_IsGuest (sv_sess sv by_ref)
        \<and> equalFold (s_UserName (sv_sess sv r)) (s_UserName (sv_sess sv by_ref))
        \<and> (s_IsGuest (sv_sess sv by_ref) \<longrightarrow> sv_guid sv host = byGuid)
        \<and> map_of (sv_index sv') prevID = None \<and> st_Get (s_ID (sv_sess sv r)) (sv_tables sv' host) = None
        \<and> s_dead (sv_sess sv' r) \<and> s_opens (sv_sess sv' r) = []
        \<and> (\<forall>h \<in> snd ` set (s_opens (sv_sess sv r)). handle_gone fstat (hs_opens (sv_handles sv) h) h host sv')))"
proof (cases closed)
  case False
  with assms(1) show ?thesis
    by (auto simp: supersede_def split: if_splits option.splits prod.splits)
next
  case True
  then obtain r host where rh: "map_of (sv_index sv) prevID = Some (r, host)"
    and may: "maySupersede equalFold (sv_sess sv r) (sv_guid sv host) (sv_sess sv by_ref) byGuid"
    and sv': "sv' = closeSession fstat host r (sv\<lparr>sv_index := map_delete prevID (sv_index sv)\<rparr>)"
    using assms(1) by (auto simp: supersede_def split: if_splits option.splits prod.splits)
  let ?os = "map snd (s_opens (sv_sess sv r))"
  let ?sv1 = "sv\<lparr>sv_index := map_delete prevID (sv_index sv),
      sv_tables := (sv_tables sv)(host := st_Remove (s_ID (sv_sess sv r)) (sv_tables sv host)),
      sv_sess := (sv_sess sv)(r := (sv_sess sv r)\<lparr>s_dead := True, s_opens := [], s_trees := []\<rparr>)\<rparr>"
  have close: "sv' = release_on fstat host ?os ?sv1"
    unfolding sv' by (simp add: closeSession_def TakeAllOpens_def Let_def)
  have "conn_ok host ?sv1" using assms(2) [of host] by (simp add: conn_ok_def)
  from release_on_gone [OF this]
  have gone: "handle_gone fstat (hs_opens (sv_handles sv) h) h host sv'" if "h \<in> snd ` set (s_opens (sv_sess sv r))" for h
    unfolding close using that by auto
  have rest: "map_of (sv_index sv') prevID = None" "s_dead (sv_sess sv' r)" "s_opens (sv_sess sv' r) = []"
    "st_Get (s_ID (sv_sess sv r)) (sv_tables sv' host) = None"
    unfolding close by (simp_all add: map_of_delete st_Get_def st_Remove_def)
  show ?thesis
    using True rh may gone rest by (auto simp: maySupersede_def split: if_splits)
qed

text \<open>LOGOFF and TREE_DISCONNECT leave nothing behind. After LOGOFF the session is dead, its id is gone
  from the connection and the index, and nothing is left of any handle it had; a valid
  TREE_DISCONNECT removes the tree, takes exactly the handles opened on it out of the session and
  leaves nothing of them, an invalid one changes nothing, and neither panics.\<close>

theorem session_end_releases_handles:
  assumes "conn_ok host sv"
  shows "(let sv' = snd (handleLogoff fstat host r sv) in
      s_dead (sv_sess sv' r) \<and> s_opens (sv_sess sv' r) = []
      \<and> st_Get (s_ID (sv_sess sv r)) (sv_tables sv' host) = None \<and> idx_get (s_ID (sv_sess sv r)) sv' = None
      \<and> (\<forall>h \<in> snd ` set (s_opens (sv_sess sv r)). handle_gone fstat (hs_opens (sv_handles sv) h) h host sv'))
    \<and> (\<exists>status sv'. handleTreeDisconnect fstat host r treeID body sv = Some (status, sv')
      \<and> (status \<noteq> StatusSuccess \<longrightarrow> sv' = sv)
      \<and> (status = StatusSuccess \<longrightarrow> GetTree treeID (sv_sess sv' r) = None
          \<and> s_opens (sv_sess sv' r) = filter (\<lambda>p. \<not> on_tree (hs_opens (sv_handles sv)) treeID (snd p)) (s_opens (sv_sess sv r))
          \<and> (\<forall>h \<in> snd ` set (s_opens (sv_sess sv r)). on_tree (hs_opens (sv_handles sv)) treeID h \<longrightarrow>
               handle_gone fstat (hs_opens (sv_handles sv) h) h host sv')))"
proof -
  let ?s' = "(sv_sess sv r)\<lparr>s_dead := True, s_opens := [], s_trees := []\<rparr>"
  let ?sv1 = "release_on fstat host (map snd (s_opens (sv_sess sv r))) (sv\<lparr>sv_sess := (sv_sess sv)(r := ?s')\<rparr>)"
  have ok: "conn_ok host (sv\<lparr>sv_sess := f\<rparr>)" for f using assms by (simp add: conn_ok_def)
  have logoff: "snd (handleLogoff fstat host r sv) = idx_unregister (s_ID (sv_sess sv r))
      (?sv1\<lparr>sv_tables := (sv_tables ?sv1)(host := st_Remove (s_ID (sv_sess sv r)) (sv_tables ?sv1 host))\<rparr>)"
    by (simp add: handleLogoff_def TakeAllOpens_def Let_def)
  have moved: "handle_gone fstat op h host (idx_unregister i (sv0\<lparr>sv_tables := x\<rparr>)) = handle_gone fstat op h host sv0" for op h i sv0 x
    by (simp add: handle_gone_def idx_unregister_def)
  have 1: "handle_gone fstat (hs_opens (sv_handles sv) h) h host (snd (handleLogoff fstat host r sv))"
    if "h \<in> snd ` set (s_opens (sv_sess sv r))" for h
    unfolding logoff moved using release_on_gone [OF ok, of h "map snd (s_opens (sv_sess sv r))"] that by auto
  have 2: "\<exists>status sv'. handleTreeDisconnect fstat host r treeID body sv = Some (status, sv')
      \<and> (status \<noteq> StatusSuccess \<longrightarrow> sv' = sv)
      \<and> (status = StatusSuccess \<longrightarrow> GetTree treeID (sv_sess sv' r) = None
          \<and> s_opens (sv_sess sv' r) = filter (\<lambda>p. \<not> on_tree (hs_opens (sv_handles sv)) treeID (snd p)) (s_opens (sv_sess sv r))
          \<and> (\<forall>h \<in> snd ` set (s_opens (sv_sess sv r)). on_tree (hs_opens (sv_handles sv)) treeID h \<longrightarrow>
               handle_gone fstat (hs_opens (sv_handles sv) h) h host sv'))"
  proof (cases "DecodeTreeDisconnectRequest body")
    case None
    with fixed_decoders_no_panic(3) [of body] show ?thesis by simp
  next
    case (Some d)
    then show ?thesis
    proof (cases d)
      case (Inl e)
      with Some show ?thesis by (simp add: handleTreeDisconnect_def)
    next
      case (Inr u)
      with Some release_on_gone [OF ok] show ?thesis
        by (auto simp: handleTreeDisconnect_def RemoveTreeAndOpens_def GetTree_def map_of_delete)
    qed
  qed
  from 1 2 show ?thesis
    by (simp add: Let_def logoff idx_unregister_def st_Get_def st_Remove_def idx_get_def map_of_delete)
qed

section \<open>The half-open cap\<close>

definition table_inv :: "u64 \<times> SessionTable \<Rightarrow> bool" where
  "table_inv c \<longleftrightarrow> (case c of (ctr, t) \<Rightarrow> distinct (st_halfOpen t) \<and> length (st_halfOpen t) \<le> 64 \<and>
     distinct (map fst (st_byID t)) \<and> set (st_halfOpen t) \<subseteq> fst ` set (st_byID t) \<and>
     (\<forall>i \<in> fst ` set (st_byID t). i \<noteq> 0 \<and> unat i \<le> unat ctr))"

text \<open>The steps of one connection's table; other connections may draw ids in between. The
  64-bit counter does not wrap.\<close>

inductive table_move :: "u64 \<times> SessionTable \<Rightarrow> u64 \<times> SessionTable \<Rightarrow> bool" where
  mv_new: "ctr \<noteq> - 1 \<Longrightarrow> st_New ref ctr t = (i, ctr', t') \<Longrightarrow> table_move (ctr, t) (ctr', t')"
| mv_half: "ctr \<noteq> - 1 \<Longrightarrow> NewHalfOpen ref ctr t = (io, ctr', t') \<Longrightarrow> table_move (ctr, t) (ctr', t')"
| mv_mark: "table_move (ctr, t) (ctr, MarkAuthenticated i t)"
| mv_remove: "table_move (ctr, t) (ctr, st_Remove i t)"
| mv_other: "unat ctr \<le> unat ctr' \<Longrightarrow> table_move (ctr, t) (ctr', t)"

lemma unat_succ: "ctr \<noteq> - 1 \<Longrightarrow> unat (ctr + 1 :: u64) = Suc (unat ctr)"
proof -
  assume ne: "ctr \<noteq> - 1"
  have "unat ctr < 2 ^ 64" using unsigned_less [of ctr] by simp
  moreover have "unat ctr \<noteq> 2 ^ 64 - 1" using ne unat_max_u64 by (metis word_unat_eq_iff)
  ultimately show ?thesis by (simp add: unat_word_ariths)
qed

lemma table_inv_put:
  assumes "table_inv (ctr, t)" and "ctr \<noteq> - 1"
  shows "table_inv (ctr + 1, t\<lparr>st_byID := map_put (ctr + 1) ref (st_byID t)\<rparr>)"
proof -
  have "i \<noteq> ctr + 1" if "i \<in> fst ` set (st_byID t)" for i
    using assms that unat_succ [OF assms(2)] by (fastforce simp: table_inv_def)
  then have "map_delete (ctr + 1) (st_byID t) = st_byID t"
    by (force simp: map_delete_def filter_id_conv)
  moreover have "ctr + 1 \<noteq> 0" using unat_succ [OF assms(2)] by (metis nat.distinct(1) unat_0)
  ultimately show ?thesis
    using assms(1) unat_succ [OF assms(2)] distinct_put [of "st_byID t" "ctr + 1" ref]
    by (fastforce simp: table_inv_def map_put_def)
qed

interpretation session_tables: invariant_system "\<lambda>c. snd c = NewSessionTable" table_move table_inv
proof
  show "table_inv c" if "snd c = NewSessionTable" for c
    using that by (cases c) (simp add: table_inv_def NewSessionTable_def)
  show "table_inv c'" if c: "table_inv c" and "table_move c c'" for c c'
    using that(2)
  proof cases
    case (mv_new ctr ref t i ctr' t')
    then show ?thesis
      using table_inv_put [of ctr t ref] c by (auto simp: st_New_def allocSessionID_def)
  next
    case (mv_half ctr ref t io ctr' t')
    show ?thesis
    proof (cases "length (st_halfOpen t) \<ge> maxHalfOpenSessions")
      case True
      with mv_half c show ?thesis by (simp add: NewHalfOpen_def)
    next
      case False
      have "ctr + 1 \<notin> set (st_halfOpen t)"
        using c mv_half(1,3) unat_succ [OF mv_half(3)] by (fastforce simp: table_inv_def)
      then have "removeAll (ctr + 1) (st_halfOpen t) = st_halfOpen t" by (rule removeAll_id)
      with False mv_half table_inv_put [of ctr t ref] c \<open>ctr + 1 \<notin> set (st_halfOpen t)\<close> show ?thesis
        by (auto simp: NewHalfOpen_def allocSessionID_def table_inv_def maxHalfOpenSessions_def map_put_def)
    qed
  next
    case (mv_mark ctr t i)
    then show ?thesis
      using c order_trans [OF length_removeAll_less_eq, of "st_halfOpen t" 64 i]
      by (auto simp: table_inv_def MarkAuthenticated_def distinct_removeAll)
  next
    case (mv_remove ctr t i)
    then show ?thesis
      using c order_trans [OF length_removeAll_less_eq, of "st_halfOpen t" 64 i]
      by (auto simp: table_inv_def st_Remove_def distinct_removeAll map_delete_def distinct_map_filter)
  next
    case (mv_other ctr ctr' t)
    with c show ?thesis by (fastforce simp: table_inv_def)
  qed
qed

text \<open>However an unauthenticated peer drives SESSION_SETUP, a connection never has more than 64 sessions
  mid-handshake, each is in the table, and session ids are non-zero, distinct and never
  above the process-wide counter they are drawn from.\<close>

theorem half_open_sessions_bounded:
  assumes "rtranclp table_move (ctr0, NewSessionTable) (ctr, t)"
  shows "length (st_halfOpen t) \<le> 64 \<and> set (st_halfOpen t) \<subseteq> fst ` set (st_byID t)
    \<and> distinct (map fst (st_byID t)) \<and> (\<forall>i \<in> fst ` set (st_byID t). i \<noteq> 0 \<and> unat i \<le> unat ctr)"
  using session_tables.Inv_reachable [OF _ assms] by (simp add: table_inv_def)

section \<open>Witnesses\<close>

abbreviation wopen :: Open where
  "wopen \<equiv> \<lparr>o_FileID = [9], o_Path = [47], o_LinkPath = [], o_IsDir = False, o_IsPipe = False, o_IsStream = False,
     o_HasFile = True, o_Tree = None, o_DeleteOnClose = False, o_GrantedAccess = 1, o_IsDurable = False,
     o_DurableClientGuid = [], o_DurableCreateGuid = [],
     o_PipeName = [], o_pipeOut = [], o_StreamName = [], o_streamBuf = [], o_streamWritten = False, o_streamSynthetic = False\<rparr>"

abbreviation wsession :: "(bytes, open_ref) gomap \<Rightarrow> Session" where
  "wsession opens \<equiv> \<lparr>s_ID = 3, s_UserName = [117], s_AllowShares = [], s_IsGuest = False, s_SigningKey = [], s_S2CCipherKey = [],
     s_C2SCipherKey = [], s_Authenticated = True, s_gotEncrypted = False, s_trees = [], s_opens = opens,
     s_dead = False, s_nextTreeID = 1\<rparr>"

abbreviation wtrace :: session_trace where
  "wtrace \<equiv> \<lparr>tr_sess = wsession [], tr_added = [], tr_taken = []\<rparr>"

abbreviation wtrace1 :: session_trace where
  "wtrace1 \<equiv> \<lparr>tr_sess = wsession [([9], 4)], tr_added = [4], tr_taken = []\<rparr>"

abbreviation wtrace2 :: session_trace where
  "wtrace2 \<equiv> \<lparr>tr_sess = (wsession [])\<lparr>s_dead := True\<rparr>, tr_added = [4], tr_taken = [4]\<rparr>"

lemma wtrace_steps: "rtranclp (session_step (\<lambda>_. wopen)) wtrace wtrace2"
proof -
  have "session_step (\<lambda>_. wopen) wtrace (wtrace\<lparr>tr_sess := wsession [([9], 4)], tr_added := (if True then 4 # tr_added wtrace else tr_added wtrace)\<rparr>)"
    by (rule do_add) (simp_all add: AddOpen_def initTables_def map_put_def map_delete_def GetOpen_def)
  moreover have "session_step (\<lambda>_. wopen) wtrace1 (wtrace1\<lparr>tr_sess := (wsession [])\<lparr>s_dead := True\<rparr>, tr_taken := [4] @ tr_taken wtrace1\<rparr>)"
    by (rule do_take) (simp add: TakeAllOpens_def)
  ultimately show ?thesis by simp
qed

theorem handles_leave_exactly_once_witness:
  "fresh_session wtrace \<and> mset (tr_taken wtrace2) = mset (tr_added wtrace2)"
proof -
  have fresh: "fresh_session wtrace" by (simp add: fresh_session_def)
  with handles_leave_exactly_once [OF fresh wtrace_steps] show ?thesis by simp
qed

abbreviation wfile :: fileKey where "wfile \<equiv> \<lparr>fk_dev = 1, fk_ino = 9\<rparr>"

text \<open>Handle 4 holds a lock on its file.\<close>

definition wlocks :: lockTable where
  "wlocks = snd (lt_apply newLockTable wfile 4 0 10 lockExclusive)"

abbreviation whs :: handles where
  "whs \<equiv> \<lparr>hs_opens = (\<lambda>_. wopen), hs_locks = wlocks, hs_shares = newShareModeTable, hs_closed = []\<rparr>"

abbreviation wserver :: server where
  "wserver \<equiv> \<lparr>sv_sess = (\<lambda>r. if r = 8 then wsession [([9], 4)] else (wsession [])\<lparr>s_ID := 6\<rparr>),
     sv_tables = (\<lambda>_. \<lparr>st_byID = [(3, 8)], st_halfOpen = []\<rparr>),
     sv_guid = (\<lambda>_. [1]), sv_index = [(3, (8, 2))], sv_handles = whs, sv_durable = None,
     sv_resume = (\<lambda>_. newResumeKeyTable), sv_async = (\<lambda>_. newAsyncTable)\<rparr>"

lemma wserver_ok: "conn_ok host wserver"
  by (simp add: conn_ok_def rk_inv_new async_inv_new)

lemma wlocks_held: "lr_owner ` set (ranges_of (lt_t wlocks) wfile) = {4}"
  by code_simp

theorem only_the_owner_supersedes_witness:
  "\<exists>sv'. supersede (=) (\<lambda>_. Inr wfile) 3 5 [1] wserver = (True, sv') \<and> 4 \<in> set (hs_closed (sv_handles sv'))
     \<and> 4 \<in> lr_owner ` set (ranges_of (lt_t (hs_locks (sv_handles wserver))) wfile)
     \<and> 4 \<notin> lr_owner ` set (ranges_of (lt_t (hs_locks (sv_handles sv'))) wfile)"
proof -
  obtain sv' where run: "supersede (=) (\<lambda>_. Inr wfile) 3 5 [1] wserver = (True, sv')"
    by (simp add: supersede_def maySupersede_def)
  have "handle_gone (\<lambda>_. Inr wfile) wopen 4 2 sv'"
    using only_the_owner_supersedes [OF run wserver_ok] by auto
  with run wlocks_held show ?thesis by (auto simp: handle_gone_def)
qed

end
