(* ===== verification/Wildcard.thy ===== *)
theory Wildcard
  imports Go_Text
begin

text \<open>
  SMB search patterns (\<^verbatim>\<open>internal/parent/wildcard.go\<close>): the two-pointer matcher with a single
  backtrack point, over byte offsets into pattern and name as in the code. \<open>None\<close> stands for a
  loop that does not end or an index out of range; the theory shows that neither happens and that the
  matcher agrees with the obvious recursive definition of \<open>*\<close> and \<open>?\<close> on characters.

  \<^verbatim>\<open>unicode.SimpleFold\<close> depends on the Unicode tables and is the argument \<open>simpleFold\<close>. Its
  documentation says that it walks the finite cycle of characters equal up to case.
\<close>

abbreviation (input) star_rune :: int where "star_rune \<equiv> 0x2A"
abbreviation (input) qm_rune :: int where "qm_rune \<equiv> 0x3F"
abbreviation (input) RuneSelf :: int where "RuneSelf \<equiv> 0x80"

definition decodeRune :: "bytes \<Rightarrow> int \<times> nat" where
  "decodeRune s = (case DecodeRune s of (r, n) \<Rightarrow> if r = RuneError \<and> n = 1 then (- uint (hd s), 1) else (r, n))"

text \<open>One character of \<open>s\<close> at offset \<open>i\<close>, ASCII decoded in place.\<close>

definition rune_at :: "bytes \<Rightarrow> nat \<Rightarrow> (int \<times> nat) option" where
  "rune_at s i =
     (case u8_at s i of
        None \<Rightarrow> None
      | Some b \<Rightarrow> Some (if uint b \<ge> RuneSelf then decodeRune (drop i s) else (uint b, 1)))"

definition ascii_lower :: "int \<Rightarrow> int" where
  "ascii_lower a = (if 0x41 \<le> a \<and> a \<le> 0x5A then a + 0x20 else a)"

partial_function (option) fold_orbit :: "(int \<Rightarrow> int) \<Rightarrow> int \<Rightarrow> int \<Rightarrow> int \<Rightarrow> bool option" where
  "fold_orbit simpleFold a b r =
     (if r = a then Some False
      else if r = b then Some True
      else fold_orbit simpleFold a b (simpleFold r))"

definition foldEqual :: "(int \<Rightarrow> int) \<Rightarrow> int \<Rightarrow> int \<Rightarrow> bool option" where
  "foldEqual simpleFold a b =
     (if a = b then Some True
      else if a < RuneSelf \<and> b < RuneSelf then Some (ascii_lower a = ascii_lower b)
      else fold_orbit simpleFold a b (simpleFold a))"

definition accepts :: "(int \<Rightarrow> int) \<Rightarrow> bool \<Rightarrow> int \<Rightarrow> int \<Rightarrow> bool option" where
  "accepts simpleFold caseSensitive pc nc =
     (if pc = qm_rune \<or> pc = nc then Some True
      else if caseSensitive then Some False
      else foldEqual simpleFold pc nc)"

definition try_accept :: "(int \<Rightarrow> int) \<Rightarrow> bool \<Rightarrow> bytes \<Rightarrow> bytes \<Rightarrow> nat \<Rightarrow> nat \<Rightarrow> (nat \<times> nat) option option" where
  "try_accept simpleFold caseSensitive pattern name p n =
     (if p < length pattern then
        (case (rune_at pattern p, rune_at name n) of
           (Some (pc, psize), Some (nc, nsize)) \<Rightarrow>
             map_option (\<lambda>ok. if ok then Some (p + psize, n + nsize) else None) (accepts simpleFold caseSensitive pc nc)
         | _ \<Rightarrow> None)
      else Some None)"

partial_function (option) match_loop ::
  "(int \<Rightarrow> int) \<Rightarrow> bool \<Rightarrow> bytes \<Rightarrow> bytes \<Rightarrow> nat \<Rightarrow> nat \<Rightarrow> nat option \<Rightarrow> nat \<Rightarrow> bool option" where
  "match_loop simpleFold caseSensitive pattern name p n starP starN =
     (if n < length name then
        if p < length pattern \<and> map_option fst (rune_at pattern p) = Some star_rune then
          (if p + 1 = length pattern then Some True
           else match_loop simpleFold caseSensitive pattern name (p + 1) n (Some (p + 1)) n)
        else
          (case try_accept simpleFold caseSensitive pattern name p n of
             None \<Rightarrow> None
           | Some (Some (p', n')) \<Rightarrow> match_loop simpleFold caseSensitive pattern name p' n' starP starN
           | Some None \<Rightarrow>
               (case starP of
                  None \<Rightarrow> Some False
                | Some sp \<Rightarrow>
                    (case rune_at name starN of
                       None \<Rightarrow> None
                     | Some (_, nsize) \<Rightarrow>
                         match_loop simpleFold caseSensitive pattern name sp (starN + nsize) (Some sp) (starN + nsize))))
      else Some (list_all (\<lambda>b. b = 0x2A) (drop p pattern)))"

definition matchSMBPattern :: "(int \<Rightarrow> int) \<Rightarrow> bytes \<Rightarrow> bytes \<Rightarrow> bool \<Rightarrow> bool option" where
  "matchSMBPattern simpleFold pattern name caseSensitive =
     (if pattern = [] \<or> pattern = [0x2A] then Some True
      else match_loop simpleFold caseSensitive pattern name 0 0 None 0)"

section \<open>The reference definition\<close>

function smb_runes :: "bytes \<Rightarrow> int list" where
  "smb_runes s = (if s = [] then [] else case decodeRune s of (r, k) \<Rightarrow> r # smb_runes (drop k s))"
  by pat_completeness auto
termination
proof (relation "measure length", goal_cases)
  case (2 s r k)
  then have "0 < k"
    using DecodeRune_size_pos [of s] by (auto simp: decodeRune_def split: prod.splits if_splits)
  with 2 show ?case by simp
qed simp

declare smb_runes.simps [simp del]

fun glob :: "(int \<Rightarrow> int \<Rightarrow> bool) \<Rightarrow> int list \<Rightarrow> int list \<Rightarrow> bool" where
  "glob eq [] n = (n = [])"
| "glob eq (c # p) [] = (c = star_rune \<and> glob eq p [])"
| "glob eq (c # p) (x # n) =
     (if c = star_rune then glob eq p (x # n) \<or> glob eq (c # p) n
      else (c = qm_rune \<or> eq c x) \<and> glob eq p n)"

text \<open>Equality up to simple case folding, as the code defines it.\<close>

definition same_fold :: "(int \<Rightarrow> int) \<Rightarrow> int \<Rightarrow> int \<Rightarrow> bool" where
  "same_fold simpleFold a b \<longleftrightarrow> a = b \<or>
     (if a < RuneSelf \<and> b < RuneSelf then ascii_lower a = ascii_lower b else \<exists>j. b = (simpleFold ^^ j) a)"

definition cyclic_fold :: "(int \<Rightarrow> int) \<Rightarrow> bool" where
  "cyclic_fold simpleFold \<longleftrightarrow> (\<forall>a. \<exists>k > 0. (simpleFold ^^ k) a = a)"

definition smb_eq :: "(int \<Rightarrow> int) \<Rightarrow> bool \<Rightarrow> int \<Rightarrow> int \<Rightarrow> bool" where
  "smb_eq simpleFold caseSensitive a b \<longleftrightarrow> a = b \<or> \<not> caseSensitive \<and> same_fold simpleFold a b"

section \<open>Folding ends\<close>

lemma funpow_cycle:
  assumes "(f ^^ k) a = a" and "k > 0"
  obtains i where "i < k" and "(f ^^ j) a = (f ^^ i) a"
proof
  have "(f ^^ (k * q)) a = a" for q
    using assms(1) by (induction q) (simp_all add: funpow_add)
  then show "(f ^^ j) a = (f ^^ (j mod k)) a"
    by (metis add.commute comp_apply funpow_add mult.commute mult_div_mod_eq)
  show "j mod k < k" using assms(2) by simp
qed

lemma fold_orbit_steps:
  assumes "(sf ^^ k) a = a" and "\<forall>i. 0 < i \<and> i < k \<longrightarrow> (sf ^^ i) a \<noteq> a" and "0 < m" and "m \<le> k"
  shows "fold_orbit sf a b ((sf ^^ m) a) = Some (\<exists>i. m \<le> i \<and> i < k \<and> (sf ^^ i) a = b)"
  using assms(3,4)
proof (induction "k - m" arbitrary: m)
  case 0
  then have "m = k" by simp
  with assms(1) show ?case by (subst fold_orbit.simps) simp
next
  case (Suc d)
  then have m: "m < k" and ne: "(sf ^^ m) a \<noteq> a" using assms(2) by auto
  show ?case
  proof (cases "(sf ^^ m) a = b")
    case True
    with m ne show ?thesis by (subst fold_orbit.simps) auto
  next
    case False
    have "fold_orbit sf a b ((sf ^^ m) a) = fold_orbit sf a b ((sf ^^ Suc m) a)"
      by (subst fold_orbit.simps) (simp add: False ne)
    also have "\<dots> = Some (\<exists>i. Suc m \<le> i \<and> i < k \<and> (sf ^^ i) a = b)"
      by (rule Suc.hyps(1)) (use Suc.hyps(2) m in auto)
    also have "(\<exists>i. Suc m \<le> i \<and> i < k \<and> (sf ^^ i) a = b) \<longleftrightarrow> (\<exists>i. m \<le> i \<and> i < k \<and> (sf ^^ i) a = b)"
    proof
      assume "\<exists>i. Suc m \<le> i \<and> i < k \<and> (sf ^^ i) a = b"
      then obtain i where "Suc m \<le> i" "i < k" "(sf ^^ i) a = b" by blast
      then show "\<exists>i. m \<le> i \<and> i < k \<and> (sf ^^ i) a = b" by (intro exI [of _ i]) simp
    next
      assume "\<exists>i. m \<le> i \<and> i < k \<and> (sf ^^ i) a = b"
      then obtain i where i: "m \<le> i" "i < k" "(sf ^^ i) a = b" by blast
      with False have "i \<noteq> m" by blast
      with i show "\<exists>i. Suc m \<le> i \<and> i < k \<and> (sf ^^ i) a = b" by (intro exI [of _ i]) simp
    qed
    finally show ?thesis .
  qed
qed

lemma foldEqual_same_fold:
  assumes "cyclic_fold sf"
  shows "foldEqual sf a b = Some (same_fold sf a b)"
proof (cases "a = b \<or> a < RuneSelf \<and> b < RuneSelf")
  case True
  then show ?thesis by (auto simp: foldEqual_def same_fold_def)
next
  case False
  define k where "k = (LEAST k. 0 < k \<and> (sf ^^ k) a = a)"
  have "\<exists>k. 0 < k \<and> (sf ^^ k) a = a" using assms by (auto simp: cyclic_fold_def)
  then have k: "0 < k \<and> (sf ^^ k) a = a" unfolding k_def by (rule LeastI_ex)
  moreover have "(sf ^^ i) a \<noteq> a" if "0 < i" "i < k" for i
    using not_less_Least [of i "\<lambda>k. 0 < k \<and> (sf ^^ k) a = a"] that by (auto simp: k_def)
  ultimately have "fold_orbit sf a b ((sf ^^ 1) a) = Some (\<exists>i. 1 \<le> i \<and> i < k \<and> (sf ^^ i) a = b)"
    by (intro fold_orbit_steps) auto
  moreover have "(\<exists>i. 1 \<le> i \<and> i < k \<and> (sf ^^ i) a = b) \<longleftrightarrow> (\<exists>j. b = (sf ^^ j) a)"
  proof
    assume "\<exists>j. b = (sf ^^ j) a"
    then obtain j where "b = (sf ^^ j) a" by blast
    with funpow_cycle [of k sf a j] k obtain i where i: "i < k" "b = (sf ^^ i) a" by metis
    moreover have "i \<noteq> 0" using i False by (metis funpow_0)
    ultimately show "\<exists>i. 1 \<le> i \<and> i < k \<and> (sf ^^ i) a = b" by (metis One_nat_def Suc_leI neq0_conv)
  qed blast
  ultimately have "fold_orbit sf a b (sf a) = Some (\<exists>j. b = (sf ^^ j) a)" by simp
  with False show ?thesis by (auto simp: foldEqual_def same_fold_def)
qed

lemma accepts_iff: "cyclic_fold sf \<Longrightarrow> accepts sf cs pc nc = Some (pc = qm_rune \<or> smb_eq sf cs pc nc)"
  by (auto simp: accepts_def smb_eq_def foldEqual_same_fold)

section \<open>Reading characters\<close>

lemma decodeRune_size: "s \<noteq> [] \<Longrightarrow> 0 < snd (decodeRune s) \<and> snd (decodeRune s) \<le> length s"
  using DecodeRune_size_pos [of s] DecodeRune_size_le [of s]
  by (cases s) (auto simp: decodeRune_def split: prod.splits)

lemma DecodeRune_ascii: "s \<noteq> [] \<Longrightarrow> uint (hd s) < RuneSelf \<Longrightarrow> DecodeRune s = (uint (hd s), 1)"
  by (cases s) (simp_all add: DecodeRune_def)

lemma decodeRune_ascii: "s \<noteq> [] \<Longrightarrow> uint (hd s) < RuneSelf \<Longrightarrow> decodeRune s = (uint (hd s), 1)"
  using DecodeRune_ascii [of s] by (auto simp: decodeRune_def)

lemma DecodeRune_large: "s \<noteq> [] \<Longrightarrow> uint (hd s) \<ge> RuneSelf \<Longrightarrow> fst (DecodeRune s) \<ge> RuneSelf"
  by (cases s) (auto simp: DecodeRune_def Let_def cont_def split: list.split)

lemma decodeRune_ascii_iff:
  assumes "s \<noteq> []" and "0 \<le> c" and "c < RuneSelf"
  shows "fst (decodeRune s) = c \<longleftrightarrow> uint (hd s) = c"
proof (cases "uint (hd s) < RuneSelf")
  case True
  with assms show ?thesis by (simp add: decodeRune_ascii)
next
  case False
  with assms DecodeRune_large [of s] show ?thesis
    by (auto simp: decodeRune_def split: prod.splits)
qed

lemma rune_at_eq: "i < length s \<Longrightarrow> rune_at s i = Some (decodeRune (drop i s))"
  using decodeRune_ascii [of "drop i s"]
  by (simp add: rune_at_def u8_at_def hd_drop_conv_nth)

lemma smb_runes_at:
  assumes "rune_at s i = Some (r, k)"
  shows "i < length s \<and> smb_runes (drop i s) = r # smb_runes (drop (i + k) s) \<and> 0 < k \<and> i + k \<le> length s"
proof -
  have i: "i < length s" using assms by (auto simp: rune_at_def u8_at_def split: option.splits if_splits)
  then have d: "decodeRune (drop i s) = (r, k)" using assms by (simp add: rune_at_eq)
  with i decodeRune_size [of "drop i s"] have k: "0 < k" "i + k \<le> length s" by auto
  have "smb_runes (drop i s) = r # smb_runes (drop (i + k) s)"
    using i d by (subst smb_runes.simps) (simp add: add.commute)
  with i k show ?thesis by simp
qed

lemma rune_at_star:
  assumes "i < length s"
  shows "map_option fst (rune_at s i) = Some star_rune \<longleftrightarrow> rune_at s i = Some (star_rune, 1)"
  using assms decodeRune_ascii [of "drop i s"] decodeRune_ascii_iff [of "drop i s" star_rune]
  by (cases "decodeRune (drop i s)") (auto simp: rune_at_eq)

lemma smb_runes_nil [simp]: "smb_runes s = [] \<longleftrightarrow> s = []"
  by (subst smb_runes.simps) (simp split: prod.splits)

lemma glob_nil: "glob eq (smb_runes s) [] \<longleftrightarrow> list_all (\<lambda>b. b = 0x2A) s"
proof (induction s rule: length_induct)
  case (1 s)
  show ?case
  proof (cases s)
    case Nil
    then show ?thesis by (simp add: smb_runes.simps)
  next
    case (Cons b t)
    have star: "uint b = star_rune \<longleftrightarrow> b = 0x2A"
      by (auto simp: word_uint_eq_iff)
    show ?thesis
    proof (cases "b = 0x2A")
      case True
      with Cons have "decodeRune s = (star_rune, 1)" using decodeRune_ascii [of s] star by simp
      with Cons True 1 show ?thesis by (subst smb_runes.simps) simp
    next
      case False
      with Cons star have "fst (decodeRune s) \<noteq> star_rune" using decodeRune_ascii_iff [of s star_rune] by simp
      with Cons False show ?thesis by (subst smb_runes.simps) (auto split: prod.splits)
    qed
  qed
qed

section \<open>Backtracking to the last star is enough\<close>

lemma glob_star: "glob eq (star_rune # p) n \<longleftrightarrow> (\<exists>v w. n = v @ w \<and> glob eq p w)"
proof (induction n)
  case (Cons x n)
  have "(\<exists>v w. x # n = v @ w \<and> glob eq p w) \<longleftrightarrow> glob eq p (x # n) \<or> (\<exists>v w. n = v @ w \<and> glob eq p w)"
    by (metis append_Cons append_Nil list.inject neq_Nil_conv)
  with Cons show ?case by simp
qed simp

lemma glob_star_unfold: "glob eq (star_rune # p) n \<longleftrightarrow> glob eq p n \<or> n \<noteq> [] \<and> glob eq (star_rune # p) (tl n)"
  by (cases n) simp_all

lemma glob_star_longer: "glob eq (star_rune # p) w \<Longrightarrow> glob eq (star_rune # p) (v @ w)"
  unfolding glob_star by (metis append.assoc)

text \<open>A pattern that starts with star-free characters consumes one character each.\<close>

lemma glob_plain_prefix:
  "star_rune \<notin> set u \<Longrightarrow> glob eq (u @ p) n \<Longrightarrow> \<exists>v w. n = v @ w \<and> length v = length u \<and> glob eq p w"
proof (induction u arbitrary: n)
  case (Cons c u)
  then obtain x n' where n: "n = x # n'" and g: "glob eq (u @ p) n'" by (cases n) auto
  from Cons.IH [OF _ g] Cons.prems(1) obtain v w where "n' = v @ w" "length v = length u" "glob eq p w" by auto
  then show ?case using n by (intro exI [of _ "x # v"] exI [of _ w]) simp
qed simp

lemma later_star_suffices:
  assumes "star_rune \<notin> set u" and "length u = length v" and "sn = v @ n"
    and "sn \<noteq> []" and "glob eq (star_rune # u @ star_rune # p) (tl sn)"
  shows "glob eq (star_rune # p) n"
proof -
  obtain x m where m: "tl sn = x @ m" "glob eq (u @ star_rune # p) m" using assms(5) glob_star by blast
  then obtain v' w where w: "m = v' @ w" "length v' = length u" "glob eq (star_rune # p) w"
    using glob_plain_prefix [OF assms(1)] by blast
  have sn: "sn = (hd sn # x @ v') @ w" using m w assms(4) by (metis append.assoc append_Cons list.collapse)
  have "length v \<le> length (hd sn # x @ v')" using w(2) assms(2) by simp
  then obtain y where "n = y @ w"
    using assms(3) sn by (metis append_eq_append_conv_if append_eq_conv_conj drop_append)
  with glob_star_longer [OF w(3)] show ?thesis by simp
qed

lemma no_room_for_star:
  assumes "star_rune \<notin> set u" and "length u = length v" and "v \<noteq> []"
  shows "\<not> glob eq (star_rune # u @ p) (tl v)"
proof
  assume "glob eq (star_rune # u @ p) (tl v)"
  then obtain x m where m: "tl v = x @ m" "glob eq (u @ p) m" using glob_star by blast
  then obtain v' w where "m = v' @ w" "length v' = length u"
    using glob_plain_prefix [OF assms(1)] by blast
  with m assms(2,3) have "length u < length v"
    by (cases v) (auto simp: m(1))
  with assms(2) show False by simp
qed

section \<open>The loop computes the reference definition\<close>

text \<open>What the loop maintains about its last star: it lies before the current position, and the
  characters since then are star-free and were matched one to one.\<close>

definition star_inv :: "bytes \<Rightarrow> bytes \<Rightarrow> nat \<Rightarrow> nat \<Rightarrow> nat option \<Rightarrow> nat \<Rightarrow> bool" where
  "star_inv pat name p n starP starN \<longleftrightarrow> p \<le> length pat \<and> n \<le> length name \<and>
     (case starP of None \<Rightarrow> True
      | Some sp \<Rightarrow> sp \<le> p \<and> starN \<le> length name \<and>
          (\<exists>u v. smb_runes (drop sp pat) = u @ smb_runes (drop p pat) \<and> smb_runes (drop starN name) = v @ smb_runes (drop n name)
             \<and> length u = length v \<and> star_rune \<notin> set u))"

definition loop_value :: "(int \<Rightarrow> int \<Rightarrow> bool) \<Rightarrow> bytes \<Rightarrow> bytes \<Rightarrow> nat \<Rightarrow> nat \<Rightarrow> nat option \<Rightarrow> nat \<Rightarrow> bool" where
  "loop_value eq pat name p n starP starN \<longleftrightarrow>
     glob eq (smb_runes (drop p pat)) (smb_runes (drop n name)) \<or>
     (case starP of None \<Rightarrow> False
      | Some sp \<Rightarrow> smb_runes (drop starN name) \<noteq> [] \<and>
          glob eq (star_rune # smb_runes (drop sp pat)) (tl (smb_runes (drop starN name))))"

lemma star_inv_advance:
  assumes "star_inv pat name p n starP starN" and "rune_at pat p = Some (pc, pk)" and "rune_at name n = Some (nc, nk)"
    and "pc \<noteq> star_rune"
  shows "star_inv pat name (p + pk) (n + nk) starP starN"
proof (cases starP)
  case None
  with assms smb_runes_at [OF assms(2)] smb_runes_at [OF assms(3)] show ?thesis by (simp add: star_inv_def)
next
  case (Some sp)
  then obtain u v where uv: "smb_runes (drop sp pat) = u @ smb_runes (drop p pat)" "smb_runes (drop starN name) = v @ smb_runes (drop n name)"
    "length u = length v" "star_rune \<notin> set u" and sp: "sp \<le> p" "starN \<le> length name"
    using assms(1) unfolding star_inv_def by auto
  have "smb_runes (drop sp pat) = (u @ [pc]) @ smb_runes (drop (p + pk) pat)"
    "smb_runes (drop starN name) = (v @ [nc]) @ smb_runes (drop (n + nk) name)"
    using uv smb_runes_at [OF assms(2)] smb_runes_at [OF assms(3)] by simp_all
  moreover have "length (u @ [pc]) = length (v @ [nc])" "star_rune \<notin> set (u @ [pc])" using uv assms(4) by auto
  ultimately show ?thesis
    using Some sp smb_runes_at [OF assms(2)] smb_runes_at [OF assms(3)] unfolding star_inv_def by fastforce
qed

lemma loop_value_end:
  assumes "star_inv pat name p n starP starN" and "\<not> n < length name"
  shows "loop_value eq pat name p n starP starN \<longleftrightarrow> list_all (\<lambda>b. b = 0x2A) (drop p pat)"
proof -
  have n: "drop n name = []" using assms(2) by simp
  have "\<not> glob eq (star_rune # smb_runes (drop sp pat)) (tl (smb_runes (drop starN name)))"
    if sp: "starP = Some sp" and ne: "smb_runes (drop starN name) \<noteq> []" for sp
  proof -
    obtain u v where "smb_runes (drop sp pat) = u @ smb_runes (drop p pat)" "smb_runes (drop starN name) = v"
      "length u = length v" "star_rune \<notin> set u"
      using assms(1) n unfolding star_inv_def sp by (auto simp: smb_runes.simps [of "[]"])
    with no_room_for_star [of u v eq] ne show ?thesis by simp
  qed
  then show ?thesis
    unfolding loop_value_def n using glob_nil [of eq "drop p pat"]
    by (auto simp: smb_runes.simps [of "[]"] split: option.splits)
qed

lemma loop_value_star:
  assumes "star_inv pat name p n starP starN" and "rune_at pat p = Some (star_rune, 1)"
  shows "loop_value eq pat name p n starP starN \<longleftrightarrow> loop_value eq pat name (p + 1) n (Some (p + 1)) n"
proof -
  let ?P = "smb_runes (drop (p + 1) pat)" and ?N = "smb_runes (drop n name)"
  have p: "smb_runes (drop p pat) = star_rune # ?P" using smb_runes_at [OF assms(2)] by simp
  have new: "loop_value eq pat name (p + 1) n (Some (p + 1)) n \<longleftrightarrow> glob eq (star_rune # ?P) ?N"
    unfolding loop_value_def using glob_star_unfold [of eq ?P ?N] by simp
  have old: "glob eq (star_rune # ?P) ?N"
    if sp: "starP = Some sp" and ne: "smb_runes (drop starN name) \<noteq> []"
      and g: "glob eq (star_rune # smb_runes (drop sp pat)) (tl (smb_runes (drop starN name)))" for sp
  proof -
    obtain u v where "smb_runes (drop sp pat) = u @ star_rune # ?P" "smb_runes (drop starN name) = v @ ?N"
      "length u = length v" "star_rune \<notin> set u"
      using assms(1) p unfolding star_inv_def sp by auto
    with later_star_suffices [of u v "smb_runes (drop starN name)" ?N eq ?P] ne g show ?thesis by simp
  qed
  show ?thesis
    unfolding new using old by (auto simp: loop_value_def p split: option.splits)
qed

lemma loop_value_advance:
  assumes "rune_at pat p = Some (pc, pk)" and "rune_at name n = Some (nc, nk)" and "pc \<noteq> star_rune"
    and "pc = qm_rune \<or> eq pc nc"
  shows "loop_value eq pat name p n starP starN \<longleftrightarrow> loop_value eq pat name (p + pk) (n + nk) starP starN"
  using assms smb_runes_at [OF assms(1)] smb_runes_at [OF assms(2)] by (simp add: loop_value_def)

lemma loop_value_backtrack:
  assumes "\<not> glob eq (smb_runes (drop p pat)) (smb_runes (drop n name))" and "rune_at name starN = Some (c, k)"
  shows "loop_value eq pat name p n (Some sp) starN \<longleftrightarrow> loop_value eq pat name sp (starN + k) (Some sp) (starN + k)"
  using assms smb_runes_at [OF assms(2)] glob_star_unfold [of eq "smb_runes (drop sp pat)" "smb_runes (drop (starN + k) name)"]
  by (simp add: loop_value_def)

lemma star_inv_at_star:
  "star_inv pat name p n starP starN \<Longrightarrow> rune_at pat p = Some (star_rune, 1) \<Longrightarrow> star_inv pat name (p + 1) n (Some (p + 1)) n"
  using smb_runes_at [of pat p star_rune 1] by (auto simp: star_inv_def)

lemma star_inv_backtrack:
  assumes "star_inv pat name p n (Some sp) starN" and "rune_at name starN = Some (c, k)"
  shows "star_inv pat name sp (starN + k) (Some sp) (starN + k)"
  using assms smb_runes_at [OF assms(2)] by (auto simp: star_inv_def)

lemma star_behind:
  assumes "star_inv pat name p n (Some sp) starN" and "n < length name"
  obtains c k where "rune_at name starN = Some (c, k)"
proof -
  have "smb_runes (drop n name) \<noteq> []" using assms(2) by simp
  then have "smb_runes (drop starN name) \<noteq> []" using assms(1) unfolding star_inv_def by fastforce
  then have "starN < length name" by simp
  then show ?thesis using that rune_at_eq by (metis surj_pair)
qed

lemma try_accept_eq:
  assumes "cyclic_fold sf" and "n < length name"
  shows "try_accept sf cs pat name p n =
    (if p < length pat then
       (case (the (rune_at pat p), the (rune_at name n)) of
          ((pc, pk), (nc, nk)) \<Rightarrow> if pc = qm_rune \<or> smb_eq sf cs pc nc then Some (Some (p + pk, n + nk)) else Some None)
     else Some None)"
  using assms by (simp add: try_accept_def rune_at_eq accepts_iff split: prod.splits)

definition loop_measure :: "bytes \<Rightarrow> bytes \<Rightarrow> nat \<Rightarrow> nat option \<Rightarrow> nat \<Rightarrow> nat \<times> nat \<times> nat" where
  "loop_measure pat name n starP starN =
     (case starP of None \<Rightarrow> Suc (length pat) | Some sp \<Rightarrow> length pat - sp, length name - starN, length name - n)"

abbreviation lex3 :: "((nat \<times> nat \<times> nat) \<times> (nat \<times> nat \<times> nat)) set" where
  "lex3 \<equiv> less_than <*lex*> less_than <*lex*> less_than"

lemma wf_lex3: "wf lex3"
  by (intro wf_lex_prod wf_less_than)

lemma glob_mismatch:
  assumes "n < length name" and "\<not> (p < length pat \<and> map_option fst (rune_at pat p) = Some star_rune)"
    and "cyclic_fold sf" and "try_accept sf cs pat name p n = Some None"
  shows "\<not> glob (smb_eq sf cs) (smb_runes (drop p pat)) (smb_runes (drop n name))"
proof (cases "p < length pat")
  case True
  obtain pc pk nc nk where r: "rune_at pat p = Some (pc, pk)" "rune_at name n = Some (nc, nk)"
    using True assms(1) rune_at_eq by (metis surj_pair)
  with True assms smb_runes_at [OF r(1)] smb_runes_at [OF r(2)] show ?thesis
    by (auto simp: try_accept_eq split: if_splits)
next
  case False
  with assms(1) show ?thesis by (simp add: smb_runes.simps [of "[]"])
qed

lemma match_loop_value:
  assumes "cyclic_fold sf" and "star_inv pat name p n starP starN"
  shows "match_loop sf cs pat name p n starP starN = Some (loop_value (smb_eq sf cs) pat name p n starP starN)"
  using assms(2)
proof (induction "loop_measure pat name n starP starN" arbitrary: p n starP starN rule: wf_induct_rule [OF wf_lex3])
  case (1 n starP starN p)
  let ?eq = "smb_eq sf cs"
  note unfold = match_loop.simps [of sf cs pat name p n starP starN]
  show ?case
  proof (cases "n < length name")
    case False
    then show ?thesis using loop_value_end [OF 1(2) False, of ?eq] by (subst unfold) simp
  next
    case n: True
    show ?thesis
    proof (cases "p < length pat \<and> map_option fst (rune_at pat p) = Some star_rune")
      case True
      then have star: "rune_at pat p = Some (star_rune, 1)" using rune_at_star by blast
      note val = loop_value_star [OF 1(2) star, of ?eq]
      note inv = star_inv_at_star [OF 1(2) star]
      have "match_loop sf cs pat name (p + 1) n (Some (p + 1)) n = Some (loop_value ?eq pat name (p + 1) n (Some (p + 1)) n)"
        by (rule 1(1) [OF _ inv]) (use True 1(2) in \<open>auto simp: loop_measure_def star_inv_def split: option.splits\<close>)
      moreover have "loop_value ?eq pat name (p + 1) n (Some (p + 1)) n" if "p + 1 = length pat"
        using that glob_star [of ?eq "[]" "smb_runes (drop n name)"] val [symmetric] smb_runes_at [OF star]
        by (auto simp: loop_value_def smb_runes.simps [of "[]"])
      ultimately show ?thesis
        unfolding val using True n by (subst unfold) simp
    next
      case plain: False
      note step = unfold [unfolded if_P [OF n] if_not_P [OF plain]]
      show ?thesis
      proof (cases "try_accept sf cs pat name p n")
        case None
        then show ?thesis using try_accept_eq [OF assms(1) n] by (auto split: if_splits prod.splits)
      next
        case (Some res)
        show ?thesis
        proof (cases res)
          case None
          note miss = glob_mismatch [OF n plain assms(1) Some [unfolded None]]
          show ?thesis
          proof (cases starP)
            case None
            with miss Some \<open>res = None\<close> show ?thesis unfolding step by (simp add: loop_value_def)
          next
            case sp: (Some sp)
            obtain c k where c: "rune_at name starN = Some (c, k)" using star_behind 1(2) n sp by blast
            have "match_loop sf cs pat name sp (starN + k) (Some sp) (starN + k)
                = Some (loop_value ?eq pat name sp (starN + k) (Some sp) (starN + k))"
              by (rule 1(1) [OF _ star_inv_backtrack [OF 1(2) [unfolded sp] c]])
                (use smb_runes_at [OF c] sp in \<open>auto simp: loop_measure_def\<close>)
            with loop_value_backtrack [OF miss c] c Some \<open>res = None\<close> sp show ?thesis
              unfolding step by simp
          qed
        next
          case acc: (Some pn)
          from Some acc obtain pc pk nc nk where r: "rune_at pat p = Some (pc, pk)" "rune_at name n = Some (nc, nk)"
            and ok: "pc = qm_rune \<or> ?eq pc nc" and pn: "pn = (p + pk, n + nk)" and p: "p < length pat"
            using n try_accept_eq [OF assms(1) n, of cs pat p] rune_at_eq [of p pat] rune_at_eq [of n name]
            by (auto split: if_splits prod.splits)
          have ne: "pc \<noteq> star_rune" using plain p r by simp
          have "match_loop sf cs pat name (p + pk) (n + nk) starP starN = Some (loop_value ?eq pat name (p + pk) (n + nk) starP starN)"
            by (rule 1(1) [OF _ star_inv_advance [OF 1(2) r ne]])
              (use smb_runes_at [OF r(2)] in \<open>auto simp: loop_measure_def\<close>)
          with loop_value_advance [where eq = ?eq, OF r ne ok] Some acc pn show ?thesis
            unfolding step by simp
        qed
      qed
    qed
  qed
qed

lemma matchSMBPattern_glob:
  assumes "cyclic_fold simpleFold"
  shows "matchSMBPattern simpleFold pattern name caseSensitive =
    Some (pattern = [] \<or> glob (smb_eq simpleFold caseSensitive) (smb_runes pattern) (smb_runes name))"
proof -
  have star: "glob eq (smb_runes [0x2A]) n" for eq n
  proof -
    have "smb_runes [0x2A] = [star_rune]"
      by (subst smb_runes.simps) (simp add: decodeRune_def DecodeRune_def smb_runes.simps)
    then show ?thesis using glob_star [of eq "[]" n] by simp
  qed
  have "star_inv pattern name 0 0 None 0" by (simp add: star_inv_def)
  from match_loop_value [OF assms this, of caseSensitive] star show ?thesis
    by (simp add: matchSMBPattern_def loop_value_def)
qed

text \<open>C29: The search-pattern matcher always answers (it neither loops nor indexes out of range, whatever
  bytes pattern and name hold) and its answer is that of the recursive definition of \<open>*\<close> and
  \<open>?\<close> over the decoded characters: backtracking to the most recent star only loses nothing. Every
  other character, brackets and backslashes included, is a literal, compared exactly on a
  case-sensitive share and up to simple folding otherwise.\<close>

theorem wildcard_matcher_correct:
  assumes "cyclic_fold simpleFold"
  shows "matchSMBPattern simpleFold pattern name caseSensitive =
    Some (pattern = [] \<or> glob (smb_eq simpleFold caseSensitive) (smb_runes pattern) (smb_runes name))"
  by (rule matchSMBPattern_glob [OF assms])

theorem wildcard_matcher_correct_witness:
  "matchSMBPattern (\<lambda>r. r) [0x2A, 0x2E, 0x74] [0x61, 0x2E, 0x54] False = Some True"
proof -
  have "cyclic_fold (\<lambda>r. r)"
    by (auto simp: cyclic_fold_def intro!: exI [of _ 1])
  from wildcard_matcher_correct [OF this, of "[0x2A, 0x2E, 0x74]" "[0x61, 0x2E, 0x54]" False] show ?thesis
    by (simp add: smb_runes.simps decodeRune_def DecodeRune_def smb_eq_def same_fold_def ascii_lower_def)
qed

end
