(* ===== verification/Vfs_Path.thy ===== *)
theory Vfs_Path
  imports Gosamba_Prelude "HOL-Library.Sublist"
begin

text \<open>
  Share-relative path resolution (\<^verbatim>\<open>internal/vfs/path.go\<close>). Paths are byte strings;
  \<open>Clean\<close>, \<open>Join2\<close>, \<open>Dir\<close> and \<open>Rel\<close> are those of \<^verbatim>\<open>path/filepath\<close> on a Unix system. What the
  file system holds is an argument: \<^verbatim>\<open>os.Lstat\<close> and \<^verbatim>\<open>filepath.EvalSymlinks\<close> are fields of
  \<open>fs_env\<close>.
\<close>

abbreviation (input) slash :: byte where "slash \<equiv> 0x2F"
abbreviation (input) backslash :: byte where "backslash \<equiv> 0x5C"
abbreviation (input) dot :: bytes where "dot \<equiv> [0x2E]"
abbreviation (input) dotdot :: bytes where "dotdot \<equiv> [0x2E, 0x2E]"

section \<open>Strings and slashes\<close>

fun split_on :: "byte \<Rightarrow> bytes \<Rightarrow> bytes list" where
  "split_on c [] = [[]]"
| "split_on c (x # xs) =
     (if x = c then [] # split_on c xs
      else (case split_on c xs of [] \<Rightarrow> [[x]] | h # t \<Rightarrow> (x # h) # t))"

fun join_slash :: "bytes list \<Rightarrow> bytes" where
  "join_slash [] = []"
| "join_slash [c] = c"
| "join_slash (c # d # cs) = c @ slash # join_slash (d # cs)"

definition replace_backslashes :: "bytes \<Rightarrow> bytes" where
  "replace_backslashes s = map (\<lambda>b. if b = backslash then slash else b) s"

definition trim_slash :: "bytes \<Rightarrow> bytes" where
  "trim_slash s = (case s of [] \<Rightarrow> [] | b # t \<Rightarrow> if b = slash then t else s)"

section \<open>filepath\<close>

text \<open>The lexical rules of \<^verbatim>\<open>Clean\<close>, on components; the stack holds the components kept so far,
  innermost first.\<close>

fun clean_stack :: "bool \<Rightarrow> bytes list \<Rightarrow> bytes list \<Rightarrow> bytes list" where
  "clean_stack rooted st [] = rev st"
| "clean_stack rooted st (c # cs) =
     (if c = [] \<or> c = dot then clean_stack rooted st cs
      else if c = dotdot then
        (if st \<noteq> [] \<and> hd st \<noteq> dotdot then clean_stack rooted (tl st) cs
         else if rooted then clean_stack rooted st cs
         else clean_stack rooted (dotdot # st) cs)
      else clean_stack rooted (c # st) cs)"

definition Clean :: "bytes \<Rightarrow> bytes" where
  "Clean p =
     (if p = [] then dot
      else let rooted = (hd p = slash); cs = clean_stack rooted [] (split_on slash p) in
        if rooted then slash # join_slash cs
        else if cs = [] then dot else join_slash cs)"

definition Join2 :: "bytes \<Rightarrow> bytes \<Rightarrow> bytes" where
  "Join2 a b = (if a \<noteq> [] then Clean (a @ slash # b) else if b \<noteq> [] then Clean b else [])"

definition Dir :: "bytes \<Rightarrow> bytes" where
  "Dir p = Clean (rev (dropWhile (\<lambda>b. b \<noteq> slash) (rev p)))"

definition components :: "bytes \<Rightarrow> bytes list" where
  "components p = filter (\<lambda>c. c \<noteq> [] \<and> c \<noteq> dot) (split_on slash p)"

fun common_prefix :: "bytes list \<Rightarrow> bytes list \<Rightarrow> nat" where
  "common_prefix (a # as) (b # bs) = (if a = b then Suc (common_prefix as bs) else 0)"
| "common_prefix _ _ = 0"

definition Rel :: "bytes \<Rightarrow> bytes \<Rightarrow> bytes option" where
  "Rel base targ =
     (let b = Clean base; t = Clean targ; bs = components b; ts = components t; k = common_prefix bs ts in
      if b = t then Some dot
      else if (hd b = slash) \<noteq> (hd t = slash) then None
      else if k < length bs \<and> bs ! k = dotdot then None
      else Some (join_slash (replicate (length bs - k) dotdot @ drop k ts)))"

section \<open>path.go\<close>

datatype path_err = ErrTraversal | ErrDanglingLink

definition has_prefix :: "bytes \<Rightarrow> bytes \<Rightarrow> bool" where
  "has_prefix s pre \<longleftrightarrow> take (length pre) s = pre"

definition Resolve :: "bytes \<Rightarrow> bytes \<Rightarrow> path_err + bytes" where
  "Resolve root0 smbPath =
     (let root = Clean root0; p = trim_slash (replace_backslashes smbPath) in
      if p = [] then Inr root
      else let full = Clean (Join2 root p) in
        if full \<noteq> root \<and> \<not> has_prefix full (root @ [slash]) then Inl ErrTraversal else Inr full)"

definition contained :: "bytes \<Rightarrow> bytes \<Rightarrow> bool" where
  "contained canonRoot p \<longleftrightarrow> p = canonRoot \<or> has_prefix p (canonRoot @ [slash])"

datatype lstat_result = Exists | NotExist | LstatError
datatype eval_result = Real bytes | EvalNotExist | EvalError

record fs_env =
  fs_Lstat :: "bytes \<Rightarrow> lstat_result"
  fs_EvalSymlinks :: "bytes \<Rightarrow> eval_result"

datatype ancestor = Found bytes | Unchecked

partial_function (option) deepest_existing :: "fs_env \<Rightarrow> bytes \<Rightarrow> ancestor option" where
  "deepest_existing fs checkPath =
     (case fs_Lstat fs checkPath of
        Exists \<Rightarrow> Some (Found checkPath)
      | LstatError \<Rightarrow> Some Unchecked
      | NotExist \<Rightarrow> if Dir checkPath = checkPath then Some Unchecked else deepest_existing fs (Dir checkPath))"

definition check_ancestor :: "fs_env \<Rightarrow> bytes \<Rightarrow> bytes \<Rightarrow> bytes \<Rightarrow> path_err + bytes" where
  "check_ancestor fs canonRoot lexical checkPath =
     (case fs_EvalSymlinks fs checkPath of
        Real real \<Rightarrow> if contained canonRoot (Clean real) then Inr lexical else Inl ErrTraversal
      | EvalNotExist \<Rightarrow>
          (case fs_EvalSymlinks fs (Dir checkPath) of
             Real parent \<Rightarrow> if contained canonRoot (Clean parent) then Inl ErrDanglingLink else Inl ErrTraversal
           | _ \<Rightarrow> Inl ErrTraversal)
      | EvalError \<Rightarrow> Inl ErrTraversal)"

definition ResolveSecure :: "fs_env \<Rightarrow> bytes \<Rightarrow> bytes \<Rightarrow> (path_err + bytes) option" where
  "ResolveSecure fs root smbPath =
     (case Resolve root smbPath of
        Inl e \<Rightarrow> Some (Inl e)
      | Inr lexical \<Rightarrow>
          (case fs_EvalSymlinks fs root of
             Real cr \<Rightarrow>
               (case deepest_existing fs lexical of
                  None \<Rightarrow> None
                | Some Unchecked \<Rightarrow> Some (Inr lexical)
                | Some (Found q) \<Rightarrow> Some (check_ancestor fs (Clean cr) lexical q))
           | _ \<Rightarrow> Some (Inr lexical)))"

definition ResolveLink :: "fs_env \<Rightarrow> bytes \<Rightarrow> bytes \<Rightarrow> path_err + bytes" where
  "ResolveLink fs root path =
     (case fs_EvalSymlinks fs (Clean root) of
        Real cr \<Rightarrow>
          (case fs_EvalSymlinks fs path of
             Real target \<Rightarrow> if contained (Clean cr) (Clean target) then Inr (Clean target) else Inl ErrTraversal
           | EvalNotExist \<Rightarrow> Inl ErrDanglingLink
           | EvalError \<Rightarrow> Inl ErrTraversal)
      | _ \<Rightarrow> Inl ErrTraversal)"

text \<open>The walk of \<^verbatim>\<open>ResolveSecureNorm\<close>; \<open>resolveNorm dir leaf\<close> is \<^verbatim>\<open>ResolveNorm\<close>.\<close>

fun norm_walk :: "(bytes \<Rightarrow> bytes \<Rightarrow> bytes option) \<Rightarrow> bytes \<Rightarrow> bytes list \<Rightarrow> bytes" where
  "norm_walk resolveNorm current [] = current"
| "norm_walk resolveNorm current (c # comps) =
     (if c = [] \<or> c = dot then norm_walk resolveNorm current comps
      else if c = dotdot then norm_walk resolveNorm (Dir current) comps
      else norm_walk resolveNorm
        (Join2 current (case resolveNorm current c of Some leaf \<Rightarrow> leaf | None \<Rightarrow> c)) comps)"

definition ResolveSecureNorm :: "(bytes \<Rightarrow> bytes \<Rightarrow> bytes option) \<Rightarrow> fs_env \<Rightarrow> bytes \<Rightarrow> bytes \<Rightarrow> (path_err + bytes) option" where
  "ResolveSecureNorm resolveNorm fs root0 smbPath =
     (let root = Clean root0; p = trim_slash (replace_backslashes smbPath) in
      if p = [] then ResolveSecure fs root smbPath
      else (case Resolve root smbPath of
         Inl e \<Rightarrow> Some (Inl e)
       | Inr lexical \<Rightarrow>
           if fs_Lstat fs lexical = Exists then ResolveSecure fs root smbPath
           else (case Rel root (norm_walk resolveNorm root (split_on slash p)) of
              None \<Rightarrow> Some (Inl ErrTraversal)
            | Some rel \<Rightarrow> ResolveSecure fs root rel)))"

section \<open>Clean absolute paths\<close>

definition name_ok :: "bytes \<Rightarrow> bool" where
  "name_ok c \<longleftrightarrow> c \<noteq> [] \<and> c \<noteq> dot \<and> c \<noteq> dotdot \<and> slash \<notin> set c"

definition abs_path :: "bytes list \<Rightarrow> bytes" where
  "abs_path cs = slash # join_slash cs"

lemma split_on_nonempty: "split_on c s \<noteq> []"
  by (induction s) (auto split: list.splits)

lemma split_on_no_sep: "d \<in> set (split_on c s) \<Longrightarrow> c \<notin> set d"
  by (induction s arbitrary: d) (auto split: list.splits if_splits)

lemma split_on_append: "split_on c (a @ c # b) = split_on c a @ split_on c b"
proof (induction a)
  case (Cons x a)
  then show ?case by (cases "split_on c a") (auto simp: split_on_nonempty)
qed simp

lemma split_on_plain: "c \<notin> set s \<Longrightarrow> split_on c s = [s]"
  by (induction s) auto

lemma split_join: "cs \<noteq> [] \<Longrightarrow> \<forall>c \<in> set cs. slash \<notin> set c \<Longrightarrow> split_on slash (join_slash cs) = cs"
  by (induction cs rule: join_slash.induct) (simp_all add: split_on_plain split_on_append)

lemma clean_stack_rooted:
  "list_all name_ok st \<Longrightarrow> \<forall>c \<in> set cs. slash \<notin> set c \<Longrightarrow> list_all name_ok (clean_stack True st cs)"
proof (induction cs arbitrary: st)
  case (Cons c cs)
  then show ?case by (cases st) (auto simp: name_ok_def)
qed (simp add: list_all_rev)

lemma clean_stack_names: "list_all name_ok cs \<Longrightarrow> clean_stack rooted st cs = rev st @ cs"
  by (induction cs arbitrary: st) (auto simp: name_ok_def)

lemma clean_stack_append:
  "clean_stack rooted st (as @ bs) = clean_stack rooted (rev (clean_stack rooted st as)) bs"
  by (induction as arbitrary: st) auto

lemma split_abs_path:
  assumes "list_all name_ok cs"
  shows "split_on slash (abs_path cs) = [] # (if cs = [] then [[]] else cs)"
  using assms split_join [of cs] by (auto simp: abs_path_def list_all_iff name_ok_def)

lemma Clean_rooted:
  assumes "p \<noteq> []" and "hd p = slash"
  shows "Clean p = abs_path (clean_stack True [] (split_on slash p))" "list_all name_ok (clean_stack True [] (split_on slash p))"
proof -
  show "Clean p = abs_path (clean_stack True [] (split_on slash p))"
    using assms by (simp add: Clean_def abs_path_def)
  show "list_all name_ok (clean_stack True [] (split_on slash p))"
    using split_on_no_sep [of _ slash p] by (intro clean_stack_rooted) auto
qed

lemma Clean_abs_path: "list_all name_ok cs \<Longrightarrow> Clean (abs_path cs) = abs_path cs"
proof -
  assume ok: "list_all name_ok cs"
  have "clean_stack True [] (split_on slash (abs_path cs)) = cs"
    unfolding split_abs_path [OF ok] using clean_stack_names [OF ok, of True "[]"] by simp
  then show ?thesis using Clean_rooted(1) [of "abs_path cs"] by (simp add: abs_path_def)
qed

lemma Join2_abs_path:
  assumes "list_all name_ok cs"
  shows "Join2 (abs_path cs) p = abs_path (clean_stack True (rev cs) (split_on slash p))"
    "list_all name_ok (clean_stack True (rev cs) (split_on slash p))"
proof -
  have "Join2 (abs_path cs) p = abs_path (clean_stack True [] (split_on slash (abs_path cs @ slash # p)))"
    using Clean_rooted(1) [of "abs_path cs @ slash # p"] by (simp add: Join2_def abs_path_def)
  also have "clean_stack True [] (split_on slash (abs_path cs @ slash # p)) = clean_stack True (rev cs) (split_on slash p)"
    unfolding split_on_append split_abs_path [OF assms] clean_stack_append
    using clean_stack_names [OF assms, of True "[]"] by simp
  finally show "Join2 (abs_path cs) p = abs_path (clean_stack True (rev cs) (split_on slash p))" .
  show "list_all name_ok (clean_stack True (rev cs) (split_on slash p))"
    using assms split_on_no_sep [of _ slash p] by (intro clean_stack_rooted) (auto simp: list_all_rev)
qed

lemma join_slash_append: "cs \<noteq> [] \<Longrightarrow> ds \<noteq> [] \<Longrightarrow> join_slash (cs @ ds) = join_slash cs @ slash # join_slash ds"
proof (induction cs rule: join_slash.induct)
  case (2 c)
  then show ?case by (cases ds) simp_all
qed simp_all

text \<open>The textual containment test is the one on components, unless the root is \<open>/\<close> itself.\<close>

lemma contained_components:
  assumes "list_all name_ok rs" and "list_all name_ok fs" and "rs \<noteq> []"
  shows "contained (abs_path rs) (abs_path fs) \<longleftrightarrow> prefix rs fs"
proof
  assume c: "contained (abs_path rs) (abs_path fs)"
  show "prefix rs fs"
  proof (cases "abs_path fs = abs_path rs")
    case True
    then have "split_on slash (abs_path fs) = split_on slash (abs_path rs)" by simp
    then have "(if fs = [] then [[]] else fs) = (if rs = [] then [[]] else rs)"
      unfolding split_abs_path [OF assms(1)] split_abs_path [OF assms(2)] by simp
    with assms show ?thesis by (auto simp: name_ok_def split: if_splits)
  next
    case False
    with c obtain t where t: "abs_path fs = abs_path rs @ slash # t"
      unfolding contained_def has_prefix_def by (metis append.assoc append_Cons append_Nil append_take_drop_id)
    have "[] # (if fs = [] then [[]] else fs) = ([] # rs) @ split_on slash t"
      using arg_cong [OF t, of "split_on slash"] assms(3)
      unfolding split_on_append split_abs_path [OF assms(1)] split_abs_path [OF assms(2)] by simp
    then have "(if fs = [] then [[]] else fs) = rs @ split_on slash t" by simp
    with assms(3) split_on_nonempty [of slash t] have "fs = rs @ split_on slash t"
      by (auto simp: Cons_eq_append_conv split: if_splits)
    then show ?thesis by (simp add: prefix_def)
  qed
next
  assume "prefix rs fs"
  then obtain ds where fs: "fs = rs @ ds" by (auto simp: prefix_def)
  show "contained (abs_path rs) (abs_path fs)"
    using assms(3) fs join_slash_append [of rs ds]
    by (cases "ds = []") (auto simp: contained_def has_prefix_def abs_path_def)
qed

section \<open>Lexical containment\<close>

abbreviation root_names :: "bytes \<Rightarrow> bytes list" where
  "root_names root \<equiv> clean_stack True [] (split_on slash root)"

text \<open>The components the client's path leads to from the root, \<open>..\<close> resolved.\<close>

definition target_names :: "bytes \<Rightarrow> bytes \<Rightarrow> bytes list" where
  "target_names root smbPath =
     clean_stack True (rev (root_names root)) (split_on slash (trim_slash (replace_backslashes smbPath)))"

lemma root_names_ok: "list_all name_ok (root_names root)"
  using split_on_no_sep [of _ slash root] by (intro clean_stack_rooted) auto

lemma target_names_ok: "list_all name_ok (target_names root smbPath)"
  unfolding target_names_def
  using root_names_ok [of root] split_on_no_sep [of _ slash "trim_slash (replace_backslashes smbPath)"]
  by (intro clean_stack_rooted) (auto simp: list_all_rev)

lemma root_names_abs_path: "list_all name_ok cs \<Longrightarrow> root_names (abs_path cs) = cs"
  using clean_stack_names [of cs True "[]"] by (auto simp: split_abs_path)

lemma Resolve_rooted:
  assumes "root \<noteq> []" and "hd root = slash" and "root_names root \<noteq> []"
  shows "Resolve root smbPath =
    (if prefix (root_names root) (target_names root smbPath) then Inr (abs_path (target_names root smbPath)) else Inl ErrTraversal)"
proof -
  let ?rs = "root_names root" and ?p = "trim_slash (replace_backslashes smbPath)"
  note clean = Clean_rooted(1) [OF assms(1,2)]
  show ?thesis
  proof (cases "?p = []")
    case True
    then have "target_names root smbPath = ?rs" by (simp add: target_names_def)
    with True clean show ?thesis by (simp add: Resolve_def)
  next
    case False
    have "Clean (Join2 (abs_path ?rs) ?p) = abs_path (target_names root smbPath)"
      using Join2_abs_path [OF root_names_ok] Clean_abs_path by (simp add: target_names_def)
    with False clean contained_components [OF root_names_ok target_names_ok assms(3), of root smbPath] show ?thesis
      by (auto simp: Resolve_def Let_def contained_def)
  qed
qed

text \<open>Once the root is \<open>/\<close>, no path but the root itself is accepted.\<close>

lemma Resolve_slash:
  assumes "target_names [slash] smbPath \<noteq> []"
  shows "Resolve [slash] smbPath = Inl ErrTraversal"
proof -
  have root: "root_names [slash] = []" by simp
  let ?fs = "target_names [slash] smbPath"
  obtain c cs where fs: "?fs = c # cs" using assms by (cases ?fs) auto
  then have c: "name_ok c" using target_names_ok [of "[slash]" smbPath] by simp
  then obtain b c' where b: "c = b # c'" "b \<noteq> slash" by (cases c) (auto simp: name_ok_def)
  have "join_slash ?fs = b # tl (join_slash ?fs)" unfolding fs using b by (cases cs) auto
  then have "take 2 (abs_path ?fs) = [slash, b]" by (metis abs_path_def numeral_2_eq_2 take_Suc_Cons take0)
  then have "\<not> has_prefix (abs_path ?fs) [slash, slash]" using b by (simp add: has_prefix_def numeral_2_eq_2)
  moreover have "abs_path ?fs \<noteq> [slash]" using \<open>join_slash ?fs = _\<close> by (metis abs_path_def list.distinct(1) list.inject)
  moreover have "trim_slash (replace_backslashes smbPath) \<noteq> []" using assms by (auto simp: target_names_def)
  moreover have "Clean [slash] = [slash]" by (simp add: Clean_def)
  moreover have "Clean (Join2 [slash] (trim_slash (replace_backslashes smbPath))) = abs_path ?fs"
    using Join2_abs_path [of "[]" "trim_slash (replace_backslashes smbPath)"] Clean_abs_path [OF target_names_ok, of "[slash]" smbPath]
    by (simp add: target_names_def abs_path_def)
  ultimately show ?thesis by (simp add: Resolve_def Let_def)
qed

section \<open>Containment after symbolic links\<close>

lemma Dir_abs_path:
  assumes "list_all name_ok cs"
  shows "Dir (abs_path cs) = abs_path (butlast cs)"
proof (cases cs rule: rev_cases)
  case Nil
  then show ?thesis by (simp add: Dir_def abs_path_def Clean_def)
next
  case (snoc xs x)
  then have ok: "list_all name_ok xs" and x: "slash \<notin> set x" using assms by (auto simp: name_ok_def)
  define pre where "pre = (if xs = [] then [slash] else abs_path xs @ [slash])"
  have split: "abs_path cs = pre @ x"
    using snoc join_slash_append [of xs "[x]"] by (auto simp: pre_def abs_path_def)
  have "dropWhile (\<lambda>b. b \<noteq> slash) (rev (pre @ x)) = rev pre"
    using x by (simp add: pre_def dropWhile_append)
  then have "Dir (abs_path cs) = Clean pre" by (simp add: Dir_def split)
  also have "\<dots> = abs_path xs"
  proof (cases "xs = []")
    case True
    then show ?thesis by (simp add: pre_def Clean_def abs_path_def)
  next
    case False
    have "clean_stack True [] (split_on slash (abs_path xs @ slash # [])) = xs"
      unfolding split_on_append split_abs_path [OF ok] clean_stack_append
      using clean_stack_names [OF ok, of True "[]"] False by simp
    with False Clean_rooted(1) [of pre] show ?thesis by (simp add: pre_def abs_path_def)
  qed
  finally show ?thesis using snoc by simp
qed

lemma abs_path_inject: "list_all name_ok cs \<Longrightarrow> list_all name_ok ds \<Longrightarrow> abs_path cs = abs_path ds \<longleftrightarrow> cs = ds"
  using root_names_abs_path by metis

lemma list_all_take: "list_all P cs \<Longrightarrow> list_all P (take n cs)"
  by (metis append_take_drop_id list_all_append)

text \<open>The walk towards the root ends, and finds the deepest existing ancestor unless a stat fails
  otherwise or nothing exists at all.\<close>

lemma deepest_existing_returns:
  assumes "list_all name_ok cs"
  shows "deepest_existing fs (abs_path cs) = Some Unchecked \<or>
    (\<exists>n \<le> length cs. deepest_existing fs (abs_path cs) = Some (Found (abs_path (take n cs)))
       \<and> fs_Lstat fs (abs_path (take n cs)) = Exists \<and> (\<forall>m. n < m \<and> m \<le> length cs \<longrightarrow> fs_Lstat fs (abs_path (take m cs)) = NotExist))"
  using assms
proof (induction cs rule: rev_induct)
  case Nil
  then show ?case
    using Dir_abs_path [of "[]"] by (subst (1 2) deepest_existing.simps) (auto split: lstat_result.splits)
next
  case (snoc x cs)
  then have ok: "list_all name_ok cs" by simp
  have dir: "Dir (abs_path (cs @ [x])) = abs_path cs" using Dir_abs_path [OF snoc.prems] by simp
  have ne: "abs_path cs \<noteq> abs_path (cs @ [x])" using abs_path_inject [OF ok snoc.prems] by simp
  show ?case
  proof (cases "fs_Lstat fs (abs_path (cs @ [x]))")
    case Exists
    then have "deepest_existing fs (abs_path (cs @ [x])) = Some (Found (abs_path (cs @ [x])))"
      by (subst deepest_existing.simps) simp
    with Exists show ?thesis by (intro disjI2 exI [of _ "Suc (length cs)"]) auto
  next
    case LstatError
    then show ?thesis by (subst deepest_existing.simps) simp
  next
    case NotExist
    then have eq: "deepest_existing fs (abs_path (cs @ [x])) = deepest_existing fs (abs_path cs)"
      using dir ne by (subst deepest_existing.simps) simp
    from snoc.IH [OF ok] show ?thesis
    proof
      assume "deepest_existing fs (abs_path cs) = Some Unchecked"
      with eq show ?thesis by simp
    next
      assume "\<exists>n \<le> length cs. deepest_existing fs (abs_path cs) = Some (Found (abs_path (take n cs)))
       \<and> fs_Lstat fs (abs_path (take n cs)) = Exists \<and> (\<forall>m. n < m \<and> m \<le> length cs \<longrightarrow> fs_Lstat fs (abs_path (take m cs)) = NotExist)"
      then obtain n where n: "n \<le> length cs" "deepest_existing fs (abs_path cs) = Some (Found (abs_path (take n cs)))"
        "fs_Lstat fs (abs_path (take n cs)) = Exists" "\<forall>m. n < m \<and> m \<le> length cs \<longrightarrow> fs_Lstat fs (abs_path (take m cs)) = NotExist"
        by blast
      have "fs_Lstat fs (abs_path (take m (cs @ [x]))) = NotExist" if "n < m" "m \<le> length (cs @ [x])" for m
        using that NotExist n(4) by (cases "m = Suc (length cs)") auto
      with n(1-3) eq show ?thesis by (intro disjI2 exI [of _ n]) auto
    qed
  qed
qed

text \<open>What a path may be served under: it extends the root by proper names, and when the root has a
  canonical form, the deepest existing ancestor of the path (if the walk finds it) really lies inside
  the canonical root.\<close>

definition served_path :: "fs_env \<Rightarrow> bytes \<Rightarrow> bytes \<Rightarrow> bool" where
  "served_path fs root path \<longleftrightarrow>
     (\<exists>ds. list_all name_ok ds \<and> path = abs_path (root_names root @ ds)) \<and>
     (\<forall>cr q. fs_EvalSymlinks fs root = Real cr \<and> deepest_existing fs path = Some (Found q) \<longrightarrow>
        (\<exists>real. fs_EvalSymlinks fs q = Real real \<and> contained (Clean cr) (Clean real)))"

lemma ResolveSecure_served:
  assumes "root \<noteq> []" and "hd root = slash" and "root_names root \<noteq> []"
  shows "\<exists>r. ResolveSecure fs root smbPath = Some r \<and> (\<forall>path. r = Inr path \<longrightarrow> served_path fs root path)"
proof (cases "prefix (root_names root) (target_names root smbPath)")
  case False
  then show ?thesis using Resolve_rooted [OF assms, of smbPath] by (simp add: ResolveSecure_def)
next
  case True
  let ?cs = "target_names root smbPath"
  from True obtain ds where ds: "?cs = root_names root @ ds" by (auto simp: prefix_def)
  then have ok: "list_all name_ok ds" using target_names_ok [of root smbPath] by simp
  have lex: "Resolve root smbPath = Inr (abs_path ?cs)" using Resolve_rooted [OF assms] True by simp
  have names: "\<exists>ds. list_all name_ok ds \<and> abs_path ?cs = abs_path (root_names root @ ds)" using ds ok by auto
  show ?thesis
  proof (cases "fs_EvalSymlinks fs root")
    case (Real cr)
    then show ?thesis
      using deepest_existing_returns [OF target_names_ok, of fs root smbPath] lex names
      by (auto simp: ResolveSecure_def served_path_def check_ancestor_def split: eval_result.splits if_splits)
  qed (use lex names in \<open>simp_all add: ResolveSecure_def served_path_def\<close>)
qed

lemma served_Clean:
  assumes "root \<noteq> []" and "hd root = slash"
  shows "Clean root \<noteq> [] \<and> hd (Clean root) = slash \<and> root_names (Clean root) = root_names root"
  using Clean_rooted [OF assms] root_names_abs_path [OF root_names_ok] by (simp add: abs_path_def)

text \<open>C10: No client path escapes its share. For a share whose root is absolute (and not \<open>/\<close>), whatever
  bytes the client sends, resolution answers; a path is accepted exactly when its \<open>..\<close>s stay below
  the root, and an accepted path is the root extended by proper names. After the check of symbolic
  links, the real path of the deepest existing ancestor lies inside the canonical root, also when
  each component was first replaced by whatever on-disk spelling the normalising lookup found;
  and a link is followed only to a target inside the root.\<close>

theorem paths_stay_in_the_share:
  assumes "root \<noteq> []" and "hd root = slash" and "root_names root \<noteq> []"
  shows "Resolve root smbPath = (if prefix (root_names root) (target_names root smbPath)
      then Inr (abs_path (target_names root smbPath)) else Inl ErrTraversal)
    \<and> (\<exists>r. ResolveSecure fs root smbPath = Some r \<and> (\<forall>path. r = Inr path \<longrightarrow> served_path fs root path))
    \<and> (\<exists>r. ResolveSecureNorm resolveNorm fs root smbPath = Some r \<and> (\<forall>path. r = Inr path \<longrightarrow> served_path fs (Clean root) path))
    \<and> (ResolveLink fs root link = Inr target \<longrightarrow>
        (\<exists>cr. fs_EvalSymlinks fs (Clean root) = Real cr \<and> contained (Clean cr) target))"
proof (intro conjI)
  note cl = served_Clean [OF assms(1,2)]
  have secure: "\<exists>r. ResolveSecure fs (Clean root) s = Some r \<and> (\<forall>path. r = Inr path \<longrightarrow> served_path fs (Clean root) path)" for s
    by (rule ResolveSecure_served) (use cl assms in auto)
  show "\<exists>r. ResolveSecureNorm resolveNorm fs root smbPath = Some r \<and> (\<forall>path. r = Inr path \<longrightarrow> served_path fs (Clean root) path)"
    unfolding ResolveSecureNorm_def Let_def
    using secure by (simp split: sum.split option.split)
  show "ResolveLink fs root link = Inr target \<longrightarrow> (\<exists>cr. fs_EvalSymlinks fs (Clean root) = Real cr \<and> contained (Clean cr) target)"
    by (auto simp: ResolveLink_def split: eval_result.splits if_splits)
qed (rule Resolve_rooted [OF assms], rule ResolveSecure_served [OF assms])

abbreviation wfs :: fs_env where
  "wfs \<equiv> \<lparr>fs_Lstat = (\<lambda>_. Exists), fs_EvalSymlinks = Real\<rparr>"

theorem paths_stay_in_the_share_witness:
  "Resolve [slash, 0x73] [0x2E, 0x2E, backslash, 0x61] = Inl ErrTraversal"
proof -
  have "\<not> prefix (root_names [slash, 0x73]) (target_names [slash, 0x73] [0x2E, 0x2E, backslash, 0x61])"
    by (simp add: target_names_def trim_slash_def replace_backslashes_def)
  with paths_stay_in_the_share [of "[slash, 0x73]" "[0x2E, 0x2E, backslash, 0x61]" wfs "\<lambda>_ _. None" "[]" "[]"] show ?thesis
    by simp
qed

end
