(* ===== verification/Vfs_Norm.thy ===== *)
theory Vfs_Norm
  imports Wildcard Vfs_Path
begin














section \<open>The matcher and the resolver agree on case\<close>













section \<open>What the lookup finds is there and is the same name\<close>





















end
