(* ===== verification/Smb3_Cipher.thy ===== *)
theory Smb3_Cipher
  imports Gosamba_Prelude
begin

text \<open>
  The message authentication code of \<^verbatim>\<open>internal/smb3/cmac.go\<close> and the key derivation of
  \<^verbatim>\<open>internal/smb3/kdf.go\<close>. The primitives the code takes from Go's \<^verbatim>\<open>crypto\<close> packages (the AES
  block function, HMAC-SHA256, AES-GCM) are the fields of \<open>crypto\<close>, an argument of every
  definition that uses them. \<open>CMAC\<close> streams the message through a 4 KiB scratch buffer; it is
  shown to compute the block chain of RFC 4493.
\<close>

record crypto =
  cr_aes :: "bytes \<Rightarrow> bytes \<Rightarrow> bytes"
  cr_hmac :: "bytes \<Rightarrow> bytes \<Rightarrow> bytes"
  cr_gcm_seal :: "bytes \<Rightarrow> bytes \<Rightarrow> bytes \<Rightarrow> bytes \<Rightarrow> bytes"
  cr_gcm_open :: "bytes \<Rightarrow> bytes \<Rightarrow> bytes \<Rightarrow> bytes \<Rightarrow> bytes option"

text \<open>Copying into a Go array of \<open>n\<close> bytes: the array keeps its length.\<close>

definition fixed :: "nat \<Rightarrow> bytes \<Rightarrow> bytes" where
  "fixed n xs = take n (xs @ zeros n)"

text \<open>
  \<^verbatim>\<open>aes.NewCipher\<close> fails unless the key has 16, 24 or 32 bytes; a cipher is its key.
  \<^verbatim>\<open>Encrypt\<close> writes one 16-byte block.
\<close>

definition NewCipher :: "bytes \<Rightarrow> bytes option" where
  "NewCipher key = (if length key \<in> {16, 24, 32} then Some key else None)"

definition Encrypt :: "crypto \<Rightarrow> bytes \<Rightarrow> bytes \<Rightarrow> bytes" where
  "Encrypt cr key b = fixed 16 (cr_aes cr key b)"

definition XORBytes :: "bytes \<Rightarrow> bytes \<Rightarrow> bytes" where
  "XORBytes x y = map2 (XOR) x y"

abbreviation be32 :: "u32 \<Rightarrow> bytes" where
  "be32 w \<equiv> rev (le32 w)"

lemma length_fixed [simp]: "length (fixed n xs) = n"
  by (simp add: fixed_def)

lemma fixed_id [simp]: "length xs = n \<Longrightarrow> fixed n xs = xs"
  by (simp add: fixed_def)

lemma length_Encrypt [simp]: "length (Encrypt cr key b) = 16"
  by (simp add: Encrypt_def)

lemma length_XORBytes [simp]: "length (XORBytes x y) = min (length x) (length y)"
  by (simp add: XORBytes_def)

lemma XORBytes_cancel: "length x \<le> length k \<Longrightarrow> XORBytes (XORBytes x k) k = x"
  by (rule nth_equalityI) (simp_all add: XORBytes_def xor.assoc)

lemma XORBytes_cancel_eq:
  "length x = length k \<Longrightarrow> length y = length k \<Longrightarrow> XORBytes x k = XORBytes y k \<Longrightarrow> x = y"
  by (metis XORBytes_cancel order_refl)

section \<open>CMAC\<close>

text \<open>\<^verbatim>\<open>leftShift\<close> walks from the last byte to the first, handing the carry on.\<close>

fun shift_carry :: "bytes \<Rightarrow> bytes \<times> byte" where
  "shift_carry [] = ([], 0)"
| "shift_carry (b # bs) =
     (case shift_carry bs of (out, overflow) \<Rightarrow>
        ((push_bit 1 b OR overflow) # out, if b AND 0x80 \<noteq> 0 then 1 else 0))"

definition leftShift :: "bytes \<Rightarrow> bytes" where
  "leftShift xs = fst (shift_carry xs)"

definition xor_last :: "bytes \<Rightarrow> bytes" where
  "xor_last k = k[15 := k ! 15 XOR 0x87]"

definition cmacSubkeys :: "(bytes \<Rightarrow> bytes) \<Rightarrow> bytes \<times> bytes" where
  "cmacSubkeys E =
     (let L = E (zeros 16);
          k1 = (if L ! 0 AND 0x80 \<noteq> 0 then xor_last (leftShift L) else leftShift L);
          k2 = (if k1 ! 0 AND 0x80 \<noteq> 0 then xor_last (leftShift k1) else leftShift k1)
      in (k1, k2))"

text \<open>\<^verbatim>\<open>cbc.CryptBlocks\<close> on whole blocks: the ciphertext and the chaining value it leaves.\<close>

function CryptBlocks :: "(bytes \<Rightarrow> bytes) \<Rightarrow> bytes \<Rightarrow> bytes \<Rightarrow> bytes \<times> bytes" where
  "CryptBlocks E iv src =
     (if length src < 16 then ([], iv)
      else let c = E (XORBytes (take 16 src) iv) in
        case CryptBlocks E c (drop 16 src) of (out, iv') \<Rightarrow> (c @ out, iv'))"
  by pat_completeness auto
termination by (relation "measure (\<lambda>(E, iv, src). length src)") auto

declare CryptBlocks.simps [simp del]

definition cmacChunk :: nat where
  "cmacChunk = 4096"

function cmac_prefix :: "(bytes \<Rightarrow> bytes) \<Rightarrow> bytes \<Rightarrow> nat \<Rightarrow> nat \<Rightarrow> bytes \<Rightarrow> bytes \<Rightarrow> bytes" where
  "cmac_prefix E msg prefixLen off iv x =
     (if off < prefixLen then
        let end = min (off + cmacChunk) prefixLen;
            (scratch, iv') = CryptBlocks E iv (take (end - off) (drop off msg));
            x' = take 16 (drop (end - off - 16) scratch)
        in cmac_prefix E msg prefixLen (off + cmacChunk) iv' x'
      else x)"
  by pat_completeness auto
termination
  by (relation "measure (\<lambda>(E, msg, prefixLen, off, iv, x). prefixLen - off)") (auto simp: cmacChunk_def)

declare cmac_prefix.simps [simp del]

text \<open>\<open>None\<close>: \<^verbatim>\<open>CMAC\<close> ignores the error of \<^verbatim>\<open>aes.NewCipher\<close> and panics on the nil cipher.\<close>

definition cmac_with :: "(bytes \<Rightarrow> bytes) \<Rightarrow> bytes \<Rightarrow> bytes" where
  "cmac_with E msg =
     (let (k1, k2) = cmacSubkeys E;
          complete = (length msg > 0 \<and> length msg mod 16 = 0);
          prefixLen = (if complete then length msg - 16 else length msg div 16 * 16);
          rem = drop prefixLen msg;
          lastBlock = (if complete then XORBytes (fixed 16 rem) k1
                       else XORBytes ((fixed 16 rem)[length rem := 0x80]) k2);
          x = (if prefixLen > 0 then cmac_prefix E msg prefixLen 0 (zeros 16) (zeros 16) else zeros 16)
      in E (XORBytes lastBlock x))"

definition CMAC :: "crypto \<Rightarrow> bytes \<Rightarrow> bytes \<Rightarrow> bytes option" where
  "CMAC cr key msg = map_option (\<lambda>k. cmac_with (Encrypt cr k) msg) (NewCipher key)"

section \<open>Key derivation\<close>

definition kdf_block :: "crypto \<Rightarrow> bytes \<Rightarrow> bytes \<Rightarrow> bytes \<Rightarrow> u32 \<Rightarrow> u32 \<Rightarrow> bytes" where
  "kdf_block cr key label ctxt L i =
     fixed 32 (cr_hmac cr key (be32 i @ label @ [0] @ ctxt @ be32 L))"

partial_function (option) kdf_loop :: "crypto \<Rightarrow> bytes \<Rightarrow> bytes \<Rightarrow> bytes \<Rightarrow> u32 \<Rightarrow> u32 \<Rightarrow> bytes \<Rightarrow> bytes option" where
  "kdf_loop cr key label ctxt L i out =
     (if (of_nat (length out) :: u32) * 8 < L
      then kdf_loop cr key label ctxt L (i + 1) (out @ kdf_block cr key label ctxt L i)
      else Some out)"

definition KDF :: "crypto \<Rightarrow> bytes \<Rightarrow> bytes \<Rightarrow> bytes \<Rightarrow> u32 \<Rightarrow> bytes option" where
  "KDF cr key label ctxt L =
     Option.bind (kdf_loop cr key label ctxt L 1 []) (\<lambda>out. go_slice out 0 (unat (L div 8)))"

section \<open>The reference: RFC 4493\<close>

function chunks16 :: "bytes \<Rightarrow> bytes list" where
  "chunks16 xs = (if xs = [] then [] else take 16 xs # chunks16 (drop 16 xs))"
  by pat_completeness auto
termination by (relation "measure length") auto

declare chunks16.simps [simp del]

abbreviation cbc_mac :: "(bytes \<Rightarrow> bytes) \<Rightarrow> bytes \<Rightarrow> bytes list \<Rightarrow> bytes" where
  "cbc_mac E x bs \<equiv> foldl (\<lambda>x b. E (XORBytes b x)) x bs"

definition rfc_last :: "bytes \<times> bytes \<Rightarrow> bytes \<Rightarrow> bytes" where
  "rfc_last ks m =
     (if length m = 16 then XORBytes m (fst ks)
      else XORBytes (m @ 0x80 # zeros (15 - length m)) (snd ks))"

definition rfc4493 :: "(bytes \<Rightarrow> bytes) \<Rightarrow> bytes \<Rightarrow> bytes" where
  "rfc4493 E msg =
     (let bs = (if msg = [] then [[]] else chunks16 msg)
      in cbc_mac E (zeros 16) (butlast bs @ [rfc_last (cmacSubkeys E) (last bs)]))"

text \<open>Doubling in the field of RFC 4493, on the block read as a big-endian number.\<close>

primrec be_val :: "bytes \<Rightarrow> nat" where
  "be_val [] = 0"
| "be_val (b # bs) = unat b * 256 ^ length bs + be_val bs"

definition rfc_double :: "nat \<Rightarrow> nat" where
  "rfc_double v = (2 * v mod 2 ^ 128) XOR (if 2 ^ 127 \<le> v then 0x87 else 0)"

section \<open>The streamed code is the reference\<close>

lemma chunks16_Nil [simp]: "chunks16 [] = []"
  by (simp add: chunks16.simps)

lemma chunks16_step: "xs \<noteq> [] \<Longrightarrow> chunks16 xs = take 16 xs # chunks16 (drop 16 xs)"
  by (subst chunks16.simps) simp

lemma chunks16_append: "length xs mod 16 = 0 \<Longrightarrow> chunks16 (xs @ ys) = chunks16 xs @ chunks16 ys"
proof (induction xs rule: chunks16.induct)
  case (1 xs)
  show ?case
  proof (cases "xs = []")
    case False
    with 1 have len: "16 \<le> length xs" by (cases "length xs < 16") auto
    with False 1 show ?thesis
      by (simp add: chunks16_step [of xs] chunks16_step [of "xs @ ys"] le_mod_geq)
  qed simp
qed

lemma chunks16_short: "xs \<noteq> [] \<Longrightarrow> length xs \<le> 16 \<Longrightarrow> chunks16 xs = [xs]"
  by (simp add: chunks16_step)

locale block_cipher =
  fixes E :: "bytes \<Rightarrow> bytes"
  assumes length_E: "length (E b) = 16"
begin

lemma length_cbc_mac: "length x = 16 \<Longrightarrow> length (cbc_mac E x bs) = 16"
  by (induction bs arbitrary: x) (simp_all add: length_E)

lemma CryptBlocks_spec:
  assumes "length src mod 16 = 0"
  shows "snd (CryptBlocks E iv src) = cbc_mac E iv (chunks16 src)
    \<and> length (fst (CryptBlocks E iv src)) = length src
    \<and> (src \<noteq> [] \<longrightarrow> drop (length src - 16) (fst (CryptBlocks E iv src)) = cbc_mac E iv (chunks16 src))"
  using assms
proof (induction src arbitrary: iv rule: measure_induct_rule [of length])
  case (less src)
  show ?case
  proof (cases "length src < 16")
    case True
    with less(2) show ?thesis by (simp add: CryptBlocks.simps)
  next
    case False
    define c where "c = E (XORBytes (take 16 src) iv)"
    obtain out iv' where run: "CryptBlocks E c (drop 16 src) = (out, iv')"
      by fastforce
    have "length (drop 16 src) < length src" and "length (drop 16 src) mod 16 = 0"
      using False less(2) by (auto simp: le_mod_geq)
    from less(1) [OF this, of c] have IH: "iv' = cbc_mac E c (chunks16 (drop 16 src))"
      "length out = length src - 16"
      "drop 16 src \<noteq> [] \<longrightarrow> drop (length src - 16 - 16) out = cbc_mac E c (chunks16 (drop 16 src))"
      by (simp_all add: run)
    have here: "CryptBlocks E iv src = (c @ out, iv')"
      using False by (subst CryptBlocks.simps) (simp add: Let_def c_def [symmetric] run)
    have fold: "cbc_mac E iv (chunks16 src) = cbc_mac E c (chunks16 (drop 16 src))"
      using False by (subst chunks16_step) (auto simp: c_def)
    have "length c = 16" by (simp add: c_def length_E)
    show ?thesis
    proof (cases "length src = 16")
      case True
      with IH \<open>length c = 16\<close> show ?thesis by (simp add: here fold)
    next
      case more: False
      with False less(2) have "32 \<le> length src" by presburger
      with IH \<open>length c = 16\<close> False show ?thesis by (simp add: here fold)
    qed
  qed
qed

lemma cmac_prefix_spec:
  assumes "prefixLen \<le> length msg" and "prefixLen mod 16 = 0" and "off mod 16 = 0" and "off < prefixLen"
  shows "cmac_prefix E msg prefixLen off iv x = cbc_mac E iv (chunks16 (take (prefixLen - off) (drop off msg)))"
  using assms
proof (induction "prefixLen - off" arbitrary: off iv x rule: less_induct)
  case less
  define fin where "fin = min (off + cmacChunk) prefixLen"
  define piece where "piece = take (fin - off) (drop off msg)"
  obtain scratch iv' where run: "CryptBlocks E iv piece = (scratch, iv')" by fastforce
  have fin: "off + 16 \<le> fin" "fin \<le> prefixLen" "fin mod 16 = 0"
    using less(3-5) unfolding fin_def cmacChunk_def min_def by presburger+
  have len: "length piece = fin - off" and nonempty: "piece \<noteq> []"
    using fin less(2) by (auto simp: piece_def)
  have "length piece mod 16 = 0" using fin(1,3) less(4) len by presburger
  from CryptBlocks_spec [OF this, of iv] nonempty
  have cb: "iv' = cbc_mac E iv (chunks16 piece)" "length scratch = fin - off"
    "drop (fin - off - 16) scratch = iv'"
    by (simp_all add: run len)
  have x': "take 16 (drop (fin - off - 16) scratch) = iv'"
    using cb(2,3) fin(1) by (metis diff_diff_cancel diff_le_self le_diff_conv2 length_drop nat_le_linear
        add_leD1 add.commute order_refl take_all)
  have step: "cmac_prefix E msg prefixLen off iv x = cmac_prefix E msg prefixLen (off + cmacChunk) iv' iv'"
    using less(5) by (subst cmac_prefix.simps)
      (simp add: fin_def [symmetric] piece_def [symmetric] run x' Let_def del: diff_diff_left)
  show ?case
  proof (cases "off + cmacChunk < prefixLen")
    case True
    then have fin': "fin = off + cmacChunk" by (simp add: fin_def)
    have "prefixLen - (off + cmacChunk) < prefixLen - off" using less(5) by (simp add: cmacChunk_def)
    from less(1) [OF this less(2,3) _ True] fin(3) fin'
    have "cmac_prefix E msg prefixLen (off + cmacChunk) iv' iv'
        = cbc_mac E iv' (chunks16 (take (prefixLen - fin) (drop fin msg)))" by simp
    moreover have "take (prefixLen - off) (drop off msg) = piece @ take (prefixLen - fin) (drop fin msg)"
      using take_add [of "fin - off" "prefixLen - fin" "drop off msg"] fin by (simp add: piece_def)
    ultimately show ?thesis
      using \<open>length piece mod 16 = 0\<close> by (simp add: step chunks16_append cb(1))
  next
    case False
    then have "fin = prefixLen" by (simp add: fin_def)
    moreover have "cmac_prefix E msg prefixLen (off + cmacChunk) iv' iv' = iv'"
      using False by (simp add: cmac_prefix.simps)
    ultimately show ?thesis by (simp add: step cb(1) piece_def)
  qed
qed

lemma cmac_prefix_whole:
  assumes "prefixLen \<le> length msg" and "prefixLen mod 16 = 0"
  shows "(if prefixLen > 0 then cmac_prefix E msg prefixLen 0 (zeros 16) (zeros 16) else zeros 16)
    = cbc_mac E (zeros 16) (chunks16 (take prefixLen msg))"
  using cmac_prefix_spec [OF assms, of 0] by simp

lemma cmac_with_spec: "cmac_with E msg = rfc4493 E msg"
proof (cases "length msg > 0 \<and> length msg mod 16 = 0")
  case True
  let ?n = "length msg - 16"
  have n: "?n mod 16 = 0" "16 \<le> length msg" using True by presburger+
  have len: "length (drop ?n msg) = 16" using n by simp
  have "chunks16 msg = chunks16 (take ?n msg) @ [drop ?n msg]"
    using chunks16_append [of "take ?n msg" "drop ?n msg"] n len chunks16_short [of "drop ?n msg"]
    by fastforce
  then show ?thesis
    using True n len cmac_prefix_whole [of ?n msg]
    by (auto simp: cmac_with_def rfc4493_def rfc_last_def Let_def split: prod.split)
next
  case False
  let ?n = "length msg div 16 * 16"
  let ?m = "drop ?n msg"
  have len: "length ?m < 16" by (simp add: minus_div_mult_eq_mod)
  have split: "(if msg = [] then [[]] else chunks16 msg) = chunks16 (take ?n msg) @ [?m]"
  proof (cases "msg = []")
    case nonempty: False
    with False have "length msg mod 16 \<noteq> 0" by auto
    then have "length msg > ?n" by presburger
    then have "?m \<noteq> []" by simp
    with nonempty chunks16_append [of "take ?n msg" ?m] chunks16_short [of ?m] len show ?thesis
      by (simp add: min_def)
  qed simp
  have "(fixed 16 ?m)[length ?m := 0x80] = ?m @ 0x80 # zeros (15 - length ?m)"
    using len by (intro nth_equalityI) (auto simp: fixed_def nth_append nth_list_update nth_Cons')
  with False split len cmac_prefix_whole [of ?n msg] show ?thesis
    by (auto simp: cmac_with_def rfc4493_def rfc_last_def Let_def split: prod.split)
qed

end

interpretation aes_block: block_cipher "Encrypt cr key" for cr key
  by unfold_locales simp

lemma top_bit_byte: "b AND 0x80 \<noteq> 0 \<longleftrightarrow> 128 \<le> unat b" for b :: byte
proof -
  have "(0x80 :: byte) = push_bit 7 1" by simp
  then have "b AND 0x80 \<noteq> 0 \<longleftrightarrow> bit b 7"
    by (metis and_exp_eq_0_iff_not_bit push_bit_of_1)
  also have "\<dots> \<longleftrightarrow> odd (unat b div 128)"
    using bit_unsigned_iff [of b 7, where 'a = nat] by (simp add: bit_iff_odd [of "unat b"])
  also have "\<dots> \<longleftrightarrow> 128 \<le> unat b"
  proof (cases "128 \<le> unat b")
    case True
    then have "unat b div 128 = 1"
      using unsigned_less [of b, where 'a = nat] by (simp add: div_nat_eqI)
    with True show ?thesis by simp
  qed simp
  finally show ?thesis .
qed

lemma shift_carry_byte:
  fixes b c :: byte
  assumes "c \<in> {0, 1}"
  shows "unat (push_bit 1 b OR c) + 256 * unat (if b AND 0x80 \<noteq> 0 then 1 else 0 :: byte) = 2 * unat b + unat c"
proof -
  have "unat (push_bit 1 b) = 2 * unat b mod 256"
    by (simp only: unsigned_push_bit_eq) (simp add: take_bit_eq_mod mult.commute)
  moreover have ev: "even (2 * unat b mod 256)" by (rule dvd_mod) simp_all
  ultimately have "unat (push_bit 1 b OR c) = 2 * unat b mod 256 + unat c"
    using assms ev by (auto simp only: unsigned_or_eq) (auto simp: or_Suc_0_eq)
  then show ?thesis
    unfolding top_bit_byte using unsigned_less [of b, where 'a = nat]
    by (cases "128 \<le> unat b") (simp_all add: le_mod_geq)
qed

lemma shift_carry_val:
  "be_val (fst (shift_carry bs)) + 256 ^ length bs * unat (snd (shift_carry bs)) = 2 * be_val bs
   \<and> length (fst (shift_carry bs)) = length bs \<and> snd (shift_carry bs) \<in> {0, 1}"
proof (induction bs)
  case (Cons b bs)
  obtain out c where run: "shift_carry bs = (out, c)" by fastforce
  have c: "c \<in> {0, 1}" and IH: "be_val out + 256 ^ length bs * unat c = 2 * be_val bs" and len: "length out = length bs"
    using Cons by (simp_all add: run)
  define ov :: byte where "ov = (if b AND 0x80 \<noteq> 0 then 1 else 0)"
  have *: "unat (push_bit 1 b OR c) + 256 * unat ov = 2 * unat b + unat c"
    using shift_carry_byte [OF c, of b] by (simp add: ov_def)
  have "unat (push_bit 1 b OR c) * 256 ^ length bs + be_val out + 256 ^ Suc (length bs) * unat ov
      = (unat (push_bit 1 b OR c) + 256 * unat ov) * 256 ^ length bs + be_val out"
    by (simp add: algebra_simps)
  also have "\<dots> = 2 * (unat b * 256 ^ length bs + be_val bs)"
    using IH unfolding * by (simp add: algebra_simps)
  finally have "be_val (fst (shift_carry (b # bs))) + 256 ^ length (b # bs) * unat ov = 2 * be_val (b # bs)"
    using len by (simp add: run)
  moreover have "snd (shift_carry (b # bs)) = ov" by (simp add: run ov_def)
  moreover have "ov \<in> {0, 1}" by (simp add: ov_def)
  ultimately show ?case using len by (simp add: run)
qed simp

lemma be_val_less: "be_val bs < 256 ^ length bs"
proof (induction bs)
  case (Cons b bs)
  have "unat b < 256" using unsigned_less [of b, where 'a = nat] by simp
  then have "(unat b + 1) * 256 ^ length bs \<le> 256 * 256 ^ length bs"
    by (intro mult_right_mono) simp_all
  then have "unat b * 256 ^ length bs + 256 ^ length bs \<le> 256 * 256 ^ length bs"
    by (simp only: distrib_right mult_1)
  with Cons show ?case
    by (simp only: be_val.simps length_Cons power_Suc)
qed simp

lemma be_val_snoc: "be_val (bs @ [b]) = 256 * be_val bs + unat b"
  by (induction bs) (simp_all add: algebra_simps)

lemma xor_low_byte:
  fixes q r s :: nat
  assumes "r < 256" and "s < 256"
  shows "(256 * q + r) XOR s = 256 * q + (r XOR s)"
proof -
  let ?x = "(256 * q + r) XOR s"
  have low: "take_bit 8 r = r" "take_bit 8 s = s" "drop_bit 8 s = 0"
    using assms by (simp_all add: take_bit_nat_eq_self drop_bit_eq_div)
  have "drop_bit 8 ?x = q"
    using assms(1) low(3) by (simp add: drop_bit_xor) (simp add: drop_bit_eq_div)
  moreover have "take_bit 8 (256 * q + r) = r"
    using assms(1) by (simp add: take_bit_eq_mod)
  then have "take_bit 8 ?x = r XOR s"
    using low by (simp add: take_bit_xor)
  ultimately have "?x = 256 * q + (r XOR s)"
    using bits_ident [of 8 ?x] by (simp add: push_bit_eq_mult)
  then show ?thesis .
qed

lemma be_val_xor_last: "length k = 16 \<Longrightarrow> be_val (xor_last k) = be_val k XOR 0x87"
proof -
  assume len: "length k = 16"
  define q where "q = butlast k"
  have "k \<noteq> []" using len by auto
  then have k: "k = q @ [k ! 15]" and q: "length q = 15"
    using len append_butlast_last_id [of k] last_conv_nth [of k] by (auto simp: q_def)
  have "xor_last k = q @ [k ! 15 XOR 0x87]"
    unfolding xor_last_def by (subst k) (simp add: q list_update_append)
  then have "be_val (xor_last k) = 256 * be_val q + (unat (k ! 15) XOR 0x87)"
    by (simp add: be_val_snoc unsigned_xor_eq)
  also have "\<dots> = be_val (q @ [k ! 15]) XOR 0x87"
    using unsigned_less [of "k ! 15", where 'a = nat]
    by (simp add: be_val_snoc xor_low_byte)
  finally show ?thesis using k by simp
qed

lemma subkey_step:
  assumes "length L = 16"
  defines "k \<equiv> (if L ! 0 AND 0x80 \<noteq> 0 then xor_last (leftShift L) else leftShift L)"
  shows "length k = 16" and "be_val k = rfc_double (be_val L)"
proof -
  obtain b bs where L: "L = b # bs" and bs: "length bs = 15"
    using assms(1) by (cases L) auto
  have len: "length (leftShift L) = 16"
    using shift_carry_val [of L] assms(1) by (simp add: leftShift_def)
  then show "length k = 16" by (simp add: k_def xor_last_def)
  have top: "L ! 0 AND 0x80 \<noteq> 0 \<longleftrightarrow> 2 ^ 127 \<le> be_val L"
  proof -
    have "be_val bs < 2 ^ 120" using be_val_less [of bs] bs by simp
    then show ?thesis unfolding top_bit_byte by (auto simp: L bs)
  qed
  have "be_val (leftShift L) = 2 * be_val L mod 2 ^ 128"
  proof -
    have "be_val (leftShift L) + 2 ^ 128 * unat (snd (shift_carry L)) = 2 * be_val L"
      using shift_carry_val [of L] assms(1) by (simp add: leftShift_def)
    moreover have "be_val (leftShift L) < 2 ^ 128"
      using be_val_less [of "leftShift L"] len by simp
    ultimately show ?thesis by (metis mod_mult_self2 mod_less)
  qed
  with top len show "be_val k = rfc_double (be_val L)"
    by (simp add: k_def rfc_double_def be_val_xor_last)
qed

lemma cmacSubkeys_double:
  fixes cr key
  defines "E \<equiv> Encrypt cr key"
  shows "be_val (fst (cmacSubkeys E)) = rfc_double (be_val (E (zeros 16)))
    \<and> be_val (snd (cmacSubkeys E)) = rfc_double (rfc_double (be_val (E (zeros 16))))"
  using subkey_step [of "E (zeros 16)"] subkey_step
  unfolding cmacSubkeys_def Let_def E_def by (simp del: One_nat_def)

lemma length_cmac_with: "length (cmac_with (Encrypt cr key) msg) = 16"
  by (simp add: cmac_with_def Let_def split_beta)

lemma length_CMAC: "CMAC cr key msg = Some mac \<Longrightarrow> length mac = 16"
  by (auto simp: CMAC_def length_cmac_with)

text \<open>The two key lengths SMB3 derives need one HMAC block each.\<close>

lemma KDF_128: "KDF cr key label ctxt 128 = Some (take 16 (kdf_block cr key label ctxt 128 1))"
  by (simp add: KDF_def kdf_loop.simps go_slice_def kdf_block_def)

lemma KDF_256: "KDF cr key label ctxt 256 = Some (kdf_block cr key label ctxt 256 1)"
  by (simp add: KDF_def kdf_loop.simps go_slice_def kdf_block_def)

text \<open>C35: The signing code, which streams a message of any length through a 4 KiB scratch buffer,
  computes the AES-CMAC of RFC 4493: the chain of encryptions over the 16-byte blocks of the message,
  whose last block is masked with the first subkey when it is full and padded and masked with the
  second otherwise; and the subkeys are the encryption of the zero block doubled once and twice in
  the field the standard uses. It panics exactly on a key that is no AES key.\<close>

theorem cmac_is_rfc4493:
  "CMAC cr key msg = (if length key \<in> {16, 24, 32} then Some (rfc4493 (Encrypt cr key) msg) else None)
   \<and> be_val (fst (cmacSubkeys (Encrypt cr key))) = rfc_double (be_val (Encrypt cr key (zeros 16)))
   \<and> be_val (snd (cmacSubkeys (Encrypt cr key))) = rfc_double (rfc_double (be_val (Encrypt cr key (zeros 16))))"
  using cmacSubkeys_double [of cr key] aes_block.cmac_with_spec [of cr key msg]
  by (simp add: CMAC_def NewCipher_def)

end
