(* ===== verification/Smb3_Ccm.thy ===== *)
theory Smb3_Ccm
  imports Smb3_Cipher
begin

text \<open>
  AES-CCM as SMB3 uses it (\<^verbatim>\<open>internal/smb3/ccm.go\<close>): 11-byte nonce, 16-byte tag, 4-byte length
  field. The block function is an argument; \<open>None\<close> of \<open>ccm_Seal\<close> is the panic on a nonce of
  another length. \<open>aead_scheme\<close> is the contract of Go's \<^verbatim>\<open>cipher.AEAD\<close> the transform code relies
  on, and CCM is shown to satisfy it.
\<close>

definition ccmNonceSize :: nat where "ccmNonceSize = 11"
definition ccmTagSize :: nat where "ccmTagSize = 16"
definition ccmL :: nat where "ccmL = 4"

datatype ccm_err = CcmBadNonce | CcmTooShort | CcmAuthFailed

fun ct_diff :: "bytes \<Rightarrow> bytes \<Rightarrow> byte \<Rightarrow> byte" where
  "ct_diff (a # as) (b # bs) v = ct_diff as bs (v OR (a XOR b))"
| "ct_diff _ _ v = v"

definition ctEq :: "bytes \<Rightarrow> bytes \<Rightarrow> bool" where
  "ctEq a b = (if length a \<noteq> length b then False else ct_diff a b 0 = 0)"

text \<open>One step of the CBC-MAC: xor a block into \<^verbatim>\<open>mac\<close> and encrypt it in place.\<close>

abbreviation mac_block :: "(bytes \<Rightarrow> bytes) \<Rightarrow> bytes \<Rightarrow> bytes \<Rightarrow> bytes" where
  "mac_block E mac blk \<equiv> E (XORBytes mac blk)"

fun mac_stream :: "(bytes \<Rightarrow> bytes) \<Rightarrow> bytes \<Rightarrow> bytes \<Rightarrow> nat \<Rightarrow> bytes" where
  "mac_stream E mac stream 0 = mac"
| "mac_stream E mac stream (Suc n) = mac_stream E (mac_block E mac (take 16 stream)) (drop 16 stream) n"

definition aad_stream :: "bytes \<Rightarrow> bytes" where
  "aad_stream aad =
     (let al = length aad;
          lbuf = (if al < 0xFF00 then [word_of_nat (al div 2 ^ 8), word_of_nat al]
                  else [0xFF, 0xFE, word_of_nat (al div 2 ^ 24), word_of_nat (al div 2 ^ 16),
                        word_of_nat (al div 2 ^ 8), word_of_nat al]);
          stream = lbuf @ aad
      in stream @ zeros ((16 - length stream mod 16) mod 16))"

definition ccm_b0 :: "bytes \<Rightarrow> bytes \<Rightarrow> bytes \<Rightarrow> bytes" where
  "ccm_b0 nonce plaintext aad =
     (let flags = (if length aad > 0 then 0x40 else 0) OR push_bit 3 (word_of_nat ((ccmTagSize - 2) div 2))
                    OR word_of_nat (ccmL - 1)
      in flags # nonce @ be32 (word_of_nat (length plaintext)))"

definition computeTag :: "(bytes \<Rightarrow> bytes) \<Rightarrow> bytes \<Rightarrow> bytes \<Rightarrow> bytes \<Rightarrow> bytes" where
  "computeTag E nonce plaintext aad =
     (let mac0 = E (ccm_b0 nonce plaintext aad);
          mac1 = (if length aad > 0
                  then mac_stream E mac0 (aad_stream aad) (length (aad_stream aad) div 16) else mac0);
          n = length plaintext div 16;
          mac2 = mac_stream E mac1 plaintext n;
          rem = drop (n * 16) plaintext
      in if length rem > 0 then mac_block E mac2 (fixed 16 rem) else mac2)"

definition ccm_ctr :: "bytes \<Rightarrow> u32 \<Rightarrow> bytes" where
  "ccm_ctr nonce counter = word_of_nat (ccmL - 1) # nonce @ be32 counter"

function ctr_from :: "(bytes \<Rightarrow> bytes) \<Rightarrow> bytes \<Rightarrow> nat \<Rightarrow> bytes \<Rightarrow> bytes" where
  "ctr_from E nonce off src =
     (if src = [] then []
      else XORBytes (take 16 src) (E (ccm_ctr nonce (word_of_nat (off div 16) + 1)))
             @ ctr_from E nonce (off + 16) (drop 16 src))"
  by pat_completeness auto
termination by (relation "measure (\<lambda>(E, nonce, off, src). length src)") auto

declare ctr_from.simps [simp del]

definition ctrXor :: "(bytes \<Rightarrow> bytes) \<Rightarrow> bytes \<Rightarrow> bytes \<Rightarrow> bytes" where
  "ctrXor E nonce src = ctr_from E nonce 0 src"

definition ctrEncryptTag :: "(bytes \<Rightarrow> bytes) \<Rightarrow> bytes \<Rightarrow> bytes \<Rightarrow> bytes" where
  "ctrEncryptTag E nonce tag = XORBytes tag (E (ccm_ctr nonce 0))"

definition ccm_Seal :: "(bytes \<Rightarrow> bytes) \<Rightarrow> bytes \<Rightarrow> bytes \<Rightarrow> bytes \<Rightarrow> bytes \<Rightarrow> bytes option" where
  "ccm_Seal E dst nonce plaintext aad =
     (if length nonce \<noteq> ccmNonceSize then None
      else Some (dst @ ctrXor E nonce plaintext
                     @ take ccmTagSize (ctrEncryptTag E nonce (computeTag E nonce plaintext aad))))"

definition ccm_Open :: "(bytes \<Rightarrow> bytes) \<Rightarrow> bytes \<Rightarrow> bytes \<Rightarrow> bytes \<Rightarrow> bytes \<Rightarrow> ccm_err + bytes" where
  "ccm_Open E dst nonce ciphertext aad =
     (if length nonce \<noteq> ccmNonceSize then Inl CcmBadNonce
      else if length ciphertext < ccmTagSize then Inl CcmTooShort
      else let ctLen = length ciphertext - ccmTagSize;
               ct = take ctLen ciphertext;
               gotTag = drop ctLen ciphertext;
               pt = ctrXor E nonce ct;
               encExpTag = ctrEncryptTag E nonce (computeTag E nonce pt aad)
           in if \<not> ctEq gotTag (take ccmTagSize encExpTag) then Inl CcmAuthFailed
              else Inr (dst @ pt))"

section \<open>The reference: NIST SP 800-38C\<close>

text \<open>The blocks the tag authenticates: a first block with nonce and length, the additional data with
  its length in front, the plaintext; each part filled up with zeros to whole blocks.\<close>

definition pad16 :: "bytes \<Rightarrow> bytes" where
  "pad16 xs = xs @ zeros ((16 - length xs mod 16) mod 16)"

definition nist_aad_length :: "nat \<Rightarrow> bytes" where
  "nist_aad_length n = (if n < 0xFF00 then rev (le_bytes 2 (word_of_nat n :: u16)) else [0xFF, 0xFE] @ be32 (word_of_nat n))"

definition nist_format :: "bytes \<Rightarrow> bytes \<Rightarrow> bytes \<Rightarrow> bytes list" where
  "nist_format nonce plaintext aad =
     (let b0 = (if aad = [] then 0x3B else 0x7B) # nonce @ be32 (word_of_nat (length plaintext));
          a = (if aad = [] then [] else pad16 (nist_aad_length (length aad) @ aad))
      in chunks16 (b0 @ a @ pad16 plaintext))"

text \<open>The counter blocks, the key stream of \<open>m\<close> blocks from the first counter on, and the ciphertext with its tag.\<close>

definition nist_counter :: "bytes \<Rightarrow> nat \<Rightarrow> bytes" where
  "nist_counter nonce i = 0x03 # nonce @ be32 (word_of_nat i)"

definition key_stream :: "(bytes \<Rightarrow> bytes) \<Rightarrow> bytes \<Rightarrow> nat \<Rightarrow> nat \<Rightarrow> bytes" where
  "key_stream E nonce from m = concat (map (\<lambda>i. E (nist_counter nonce i)) [from..<from + m])"

definition nist_ccm :: "(bytes \<Rightarrow> bytes) \<Rightarrow> bytes \<Rightarrow> bytes \<Rightarrow> bytes \<Rightarrow> bytes" where
  "nist_ccm E nonce plaintext aad =
     map2 (XOR) plaintext (key_stream E nonce 1 ((length plaintext + 15) div 16))
     @ map2 (XOR) (cbc_mac E (zeros 16) (nist_format nonce plaintext aad)) (E (nist_counter nonce 0))"

section \<open>Comparison and counter mode\<close>

lemma xor_zero_iff: "a XOR b = 0 \<longleftrightarrow> a = b" for a b :: byte
  by (simp add: bit_eq_iff bit_xor_iff)

lemma ct_diff_zero: "length a = length b \<Longrightarrow> ct_diff a b v = 0 \<longleftrightarrow> v = 0 \<and> a = b"
  by (induction a b v rule: ct_diff.induct) (auto simp: or_eq_0_iff xor_zero_iff)

lemma ctEq_iff: "ctEq a b \<longleftrightarrow> a = b"
  using ct_diff_zero by (auto simp: ctEq_def)

lemma ctr_from_Nil: "ctr_from E nonce off [] = []"
  by (simp add: ctr_from.simps)

lemma XORBytes_commute: "XORBytes a b = XORBytes b a"
  by (rule nth_equalityI) (simp_all add: XORBytes_def xor.commute)

lemma XORBytes_zeros: "length b = n \<Longrightarrow> XORBytes b (zeros n) = b"
  by (rule nth_equalityI) (simp_all add: XORBytes_def)

lemma length_pad16: "length (pad16 xs) mod 16 = 0"
proof -
  define q r where "q = length xs div 16" and "r = length xs mod 16"
  have xs: "length xs = 16 * q + r" and "r < 16" by (simp_all add: q_def r_def)
  show ?thesis
  proof (cases "r = 0")
    case False
    with \<open>r < 16\<close> have "length (pad16 xs) = 16 * Suc q"
      by (simp add: pad16_def r_def [symmetric] xs)
    then show ?thesis by simp
  qed (simp add: pad16_def r_def)
qed

lemma le16_bytes: "le16 w = [ucast w, ucast (drop_bit 8 w)]"
  by (simp add: numeral_2_eq_2)

lemma le32_bytes: "le32 w = [ucast w, ucast (drop_bit 8 w), ucast (drop_bit 16 w), ucast (drop_bit 24 w)]"
proof -
  have "(4 :: nat) = Suc (Suc (Suc (Suc 0)))" by simp
  then show ?thesis by (simp only: le_bytes.simps) (simp add: drop_bit_drop_bit)
qed

lemma byte_of_nat:
  "8 * k + 8 \<le> LENGTH('a) \<Longrightarrow> ucast (drop_bit (8 * k) (word_of_nat n :: 'a::len word)) = (word_of_nat (n div 2 ^ (8 * k)) :: byte)"
  by (rule bit_word_eqI) (auto simp: bit_simps simp flip: drop_bit_eq_div)

lemma aad_length_bytes:
  "rev (le_bytes 2 (word_of_nat n :: u16)) = [word_of_nat (n div 2 ^ 8), word_of_nat n]"
  "be32 (word_of_nat n) = [word_of_nat (n div 2 ^ 24), word_of_nat (n div 2 ^ 16), word_of_nat (n div 2 ^ 8), word_of_nat n]"
  unfolding le16_bytes le32_bytes
  using byte_of_nat [of 0 n, where 'a = 16] byte_of_nat [of 1 n, where 'a = 16]
    byte_of_nat [of 0 n, where 'a = 32] byte_of_nat [of 1 n, where 'a = 32]
    byte_of_nat [of 2 n, where 'a = 32] byte_of_nat [of 3 n, where 'a = 32]
  by simp_all

context block_cipher
begin

lemma length_ctr_from: "length (ctr_from E nonce off src) = length src"
proof (induction src arbitrary: off rule: measure_induct_rule [of length])
  case (less src)
  show ?case
    by (subst ctr_from.simps) (auto simp: length_E less)
qed

lemma ctr_from_involution: "ctr_from E nonce off (ctr_from E nonce off src) = src"
proof (induction src arbitrary: off rule: measure_induct_rule [of length])
  case (less src)
  show ?case
  proof (cases "src = []")
    case True
    then show ?thesis by (simp add: ctr_from.simps)
  next
    case False
    define k where "k = E (ccm_ctr nonce (word_of_nat (off div 16) + 1))"
    define c where "c = XORBytes (take 16 src) k"
    have k: "length k = 16" by (simp add: k_def length_E)
    have here: "ctr_from E nonce off src = c @ ctr_from E nonce (off + 16) (drop 16 src)"
      using False by (subst ctr_from.simps) (simp add: c_def k_def)
    have IH: "ctr_from E nonce (off + 16) (ctr_from E nonce (off + 16) (drop 16 src)) = drop 16 src"
      using False by (intro less) simp
    have undo: "XORBytes c k = take 16 src"
      unfolding c_def using k by (intro XORBytes_cancel) simp
    have pieces: "take 16 (c @ ctr_from E nonce (off + 16) (drop 16 src)) = c"
      "drop 16 (c @ ctr_from E nonce (off + 16) (drop 16 src)) = ctr_from E nonce (off + 16) (drop 16 src)"
      using k by (cases "16 \<le> length src"; simp add: c_def ctr_from_Nil)+
    have nonempty: "c \<noteq> []" using False k by (auto simp: c_def XORBytes_def)
    show ?thesis
      unfolding here by (subst ctr_from.simps)
        (simp only: nonempty pieces IH undo k_def [symmetric] append_is_Nil_conv simp_thms if_False append_take_drop_id)
  qed
qed

lemma length_mac_stream: "length mac = 16 \<Longrightarrow> length (mac_stream E mac stream n) = 16"
  by (induction n arbitrary: mac stream) (simp_all add: length_E)

lemma length_computeTag: "length (computeTag E nonce plaintext aad) = 16"
  by (auto simp: computeTag_def Let_def length_E intro!: length_mac_stream)

lemma length_ctrEncryptTag: "length tag = 16 \<Longrightarrow> length (ctrEncryptTag E nonce tag) = 16"
  by (simp add: ctrEncryptTag_def length_E)

lemma ccm_Open_iff:
  assumes "length nonce = 11"
  shows "ccm_Open E dst nonce ciphertext aad = Inr (dst @ pt) \<longleftrightarrow> ccm_Seal E dst nonce pt aad = Some (dst @ ciphertext)"
proof
  assume "ccm_Open E dst nonce ciphertext aad = Inr (dst @ pt)"
  then have len: "16 \<le> length ciphertext"
    and pt: "pt = ctrXor E nonce (take (length ciphertext - 16) ciphertext)"
    and tag: "drop (length ciphertext - 16) ciphertext = take 16 (ctrEncryptTag E nonce (computeTag E nonce pt aad))"
    by (auto simp: ccm_Open_def Let_def ccmNonceSize_def ccmTagSize_def ctEq_iff split: if_splits)
  have "ctrXor E nonce pt = take (length ciphertext - 16) ciphertext"
    unfolding pt ctrXor_def by (rule ctr_from_involution)
  with tag show "ccm_Seal E dst nonce pt aad = Some (dst @ ciphertext)"
    using assms by (simp add: ccm_Seal_def ccmNonceSize_def ccmTagSize_def flip: tag)
next
  assume "ccm_Seal E dst nonce pt aad = Some (dst @ ciphertext)"
  then have c: "ciphertext = ctrXor E nonce pt @ ctrEncryptTag E nonce (computeTag E nonce pt aad)"
    using assms by (simp add: ccm_Seal_def ccmNonceSize_def ccmTagSize_def length_ctrEncryptTag length_computeTag)
  then show "ccm_Open E dst nonce ciphertext aad = Inr (dst @ pt)"
    using assms by (simp add: ccm_Open_def Let_def ccmNonceSize_def ccmTagSize_def ctEq_iff length_ctrEncryptTag
        length_computeTag ctrXor_def length_ctr_from ctr_from_involution)
qed

lemma mac_stream_cbc:
  "length mac = 16 \<Longrightarrow> 16 * n \<le> length stream \<Longrightarrow>
     mac_stream E mac stream n = cbc_mac E mac (chunks16 (take (16 * n) stream))"
proof (induction n arbitrary: mac stream)
  case (Suc n)
  have "take (16 * Suc n) stream = take 16 stream @ take (16 * n) (drop 16 stream)"
    by (metis mult_Suc_right take_add)
  moreover have "length (take 16 stream) = 16" and "take 16 stream \<noteq> []" using Suc by auto
  ultimately have "chunks16 (take (16 * Suc n) stream) = take 16 stream # chunks16 (take (16 * n) (drop 16 stream))"
    by (simp add: chunks16_append chunks16_short)
  with Suc show ?case by (simp add: length_E XORBytes_commute)
qed simp

lemma mac_pad16:
  assumes "length mac = 16"
  shows "(let n = length xs div 16; m = mac_stream E mac xs n; rem = drop (n * 16) xs
          in if length rem > 0 then mac_block E m (fixed 16 rem) else m)
    = cbc_mac E mac (chunks16 (pad16 xs))"
proof -
  define n where "n = length xs div 16"
  define rem where "rem = drop (n * 16) xs"
  have len: "length rem = length xs mod 16" and xs: "xs = take (16 * n) xs @ rem"
    by (simp_all add: rem_def n_def minus_mult_div_eq_mod mult.commute [of _ 16])
  have full: "length (take (16 * n) xs) = 16 * n" by (simp add: n_def)
  define m where "m = cbc_mac E mac (chunks16 (take (16 * n) xs))"
  have m: "mac_stream E mac xs n = m"
    using mac_stream_cbc [OF assms, of n xs] by (simp add: m_def n_def)
  have "length m = 16" unfolding m_def by (rule length_cbc_mac [OF assms])
  show ?thesis
  proof (cases "rem = []")
    case True
    with len have "pad16 xs = xs" by (simp add: pad16_def)
    moreover from True have "m = cbc_mac E mac (chunks16 xs)" using xs by (simp add: m_def)
    ultimately show ?thesis
      unfolding Let_def n_def [symmetric] rem_def [symmetric] using True m by simp
  next
    case False
    have "0 < length xs mod 16" using len False by (metis length_greater_0_conv)
    have "length rem < 16" "(16 - length xs mod 16) mod 16 = 16 - length rem"
      using len \<open>0 < length xs mod 16\<close> by simp_all
    then have blk: "pad16 xs = take (16 * n) xs @ fixed 16 rem"
      unfolding pad16_def fixed_def by (simp, metis append_assoc xs)
    have "chunks16 (pad16 xs) = chunks16 (take (16 * n) xs) @ [fixed 16 rem]"
      unfolding blk(1) using full by (simp add: chunks16_append chunks16_short flip: length_greater_0_conv)
    with False m show ?thesis
      unfolding Let_def n_def [symmetric] rem_def [symmetric] by (simp add: m_def XORBytes_commute)
  qed
qed

lemma mac_whole:
  assumes "length mac = 16"
  shows "mac_stream E mac (pad16 xs) (length (pad16 xs) div 16) = cbc_mac E mac (chunks16 (pad16 xs))"
proof -
  have "16 * (length (pad16 xs) div 16) = length (pad16 xs)" using length_pad16 [of xs] by presburger
  with mac_stream_cbc [OF assms, of "length (pad16 xs) div 16" "pad16 xs"] show ?thesis by simp
qed

lemma computeTag_nist:
  assumes "length nonce = 11"
  shows "computeTag E nonce plaintext aad = cbc_mac E (zeros 16) (nist_format nonce plaintext aad)"
proof -
  let ?b0 = "ccm_b0 nonce plaintext aad"
  have b0: "?b0 = (if aad = [] then 0x3B else 0x7B) # nonce @ be32 (word_of_nat (length plaintext))"
    by (simp add: ccm_b0_def ccmTagSize_def ccmL_def)
  then have len: "length ?b0 = 16" using assms by simp
  then have first: "E (XORBytes ?b0 (zeros 16)) = E ?b0" by (simp add: XORBytes_zeros)
  have aad: "aad_stream aad = pad16 (nist_aad_length (length aad) @ aad)"
    by (simp add: aad_stream_def pad16_def nist_aad_length_def Let_def aad_length_bytes)
  define a where "a = (if aad = [] then [] else pad16 (nist_aad_length (length aad) @ aad))"
  define mac1 where "mac1 = cbc_mac E (E ?b0) (chunks16 a)"
  have "length mac1 = 16" unfolding mac1_def by (intro length_cbc_mac) (simp add: length_E)
  have "computeTag E nonce plaintext aad = cbc_mac E mac1 (chunks16 (pad16 plaintext))"
    unfolding mac_pad16 [OF \<open>length mac1 = 16\<close>, symmetric]
    by (simp add: computeTag_def Let_def aad mac_whole length_E mac1_def a_def)
  moreover have "length a mod 16 = 0" by (simp add: a_def length_pad16)
  ultimately show ?thesis
    using len first
    by (simp add: nist_format_def Let_def b0 [symmetric] a_def [symmetric] chunks16_append chunks16_short mac1_def
        flip: length_greater_0_conv)
qed

end

section \<open>Counter mode is the key stream\<close>

lemma ccm_ctr_nist: "ccm_ctr nonce (word_of_nat i) = nist_counter nonce i"
  by (simp add: ccm_ctr_def nist_counter_def ccmL_def)

context block_cipher
begin

lemma ctr_from_stream:
  "ctr_from E nonce (16 * n) src = map2 (XOR) src (key_stream E nonce (Suc n) ((length src + 15) div 16))"
proof (induction "length src" arbitrary: n src rule: less_induct)
  case less
  show ?case
  proof (cases "src = []")
    case True
    then show ?thesis by (simp add: ctr_from_Nil)
  next
    case False
    let ?E = "E (nist_counter nonce (Suc n))"
    have blocks: "(length src + 15) div 16 = Suc ((length (drop 16 src) + 15) div 16)"
      using False by (cases "length src \<le> 16") (auto simp: le_div_geq Suc_le_eq)
    have ks: "key_stream E nonce (Suc n) (Suc m) = ?E @ key_stream E nonce (Suc (Suc n)) m" for m
      by (simp add: key_stream_def upt_conv_Cons del: upt_Suc)
    have split: "map2 (XOR) src (?E @ k) = map2 (XOR) (take 16 src) ?E @ map2 (XOR) (drop 16 src) k" for k
    proof (cases "length src \<le> 16")
      case True
      then show ?thesis by (simp add: zip_append2 length_E)
    next
      case False
      then have "src = take 16 src @ drop 16 src" "length (take 16 src) = 16" by simp_all
      then show ?thesis using zip_append [of "take 16 src" ?E "drop 16 src" k] by (metis length_E map_append)
    qed
    have rest: "ctr_from E nonce (16 * Suc n) (drop 16 src)
        = map2 (XOR) (drop 16 src) (key_stream E nonce (Suc (Suc n)) ((length (drop 16 src) + 15) div 16))"
      by (rule less) (use False in simp)
    have "word_of_nat (16 * n div 16) + 1 = (word_of_nat (Suc n) :: u32)" by simp
    then have step: "ctr_from E nonce (16 * n) src = XORBytes (take 16 src) ?E @ ctr_from E nonce (16 * Suc n) (drop 16 src)"
      using False by (subst ctr_from.simps) (simp add: ccm_ctr_nist add.commute del: of_nat_Suc)
    show ?thesis unfolding step rest blocks ks split by (simp add: XORBytes_def)
  qed
qed

lemma ccm_Seal_nist:
  assumes "length nonce = 11"
  shows "ccm_Seal E dst nonce pt aad = Some (dst @ nist_ccm E nonce pt aad)"
proof -
  have "ctrXor E nonce pt = map2 (XOR) pt (key_stream E nonce 1 ((length pt + 15) div 16))"
    using ctr_from_stream [of nonce 0 pt] by (simp add: ctrXor_def)
  moreover have "take 16 (ctrEncryptTag E nonce tag) = map2 (XOR) tag (E (nist_counter nonce 0))" for tag
    using ccm_ctr_nist [of nonce 0] by (simp add: ctrEncryptTag_def XORBytes_def length_E)
  ultimately show ?thesis
    using assms unfolding ccm_Seal_def nist_ccm_def ccmNonceSize_def ccmTagSize_def computeTag_nist [OF assms] by simp
qed

end

section \<open>The contract of an AEAD\<close>

text \<open>What the transform code relies on: opening undoes sealing, nothing else opens, and sealing adds
  a 16-byte tag.\<close>

locale aead_scheme =
  fixes seal :: "bytes \<Rightarrow> bytes \<Rightarrow> bytes \<Rightarrow> bytes"
    and unseal :: "bytes \<Rightarrow> bytes \<Rightarrow> bytes \<Rightarrow> bytes option"
    and nonceLen :: nat
  assumes unseal_iff: "length nonce = nonceLen \<Longrightarrow> unseal nonce ct aad = Some pt \<longleftrightarrow> ct = seal nonce pt aad"
    and length_seal: "length nonce = nonceLen \<Longrightarrow> length (seal nonce pt aad) = length pt + 16"
begin

lemma unseal_seal: "length nonce = nonceLen \<Longrightarrow> unseal nonce (seal nonce pt aad) aad = Some pt"
  by (simp add: unseal_iff)

lemma seal_inject: "length nonce = nonceLen \<Longrightarrow> seal nonce p aad = seal nonce q aad \<Longrightarrow> p = q"
  by (metis unseal_seal option.inject)

end

definition ccm_text :: "(bytes \<Rightarrow> bytes) \<Rightarrow> bytes \<Rightarrow> bytes \<Rightarrow> bytes \<Rightarrow> bytes" where
  "ccm_text E nonce plaintext aad = the (ccm_Seal E [] nonce plaintext aad)"

definition ccm_plain :: "(bytes \<Rightarrow> bytes) \<Rightarrow> bytes \<Rightarrow> bytes \<Rightarrow> bytes \<Rightarrow> bytes option" where
  "ccm_plain E nonce ciphertext aad = (case ccm_Open E [] nonce ciphertext aad of Inl _ \<Rightarrow> None | Inr pt \<Rightarrow> Some pt)"

context block_cipher
begin

lemma ccm_plain_iff:
  assumes "length nonce = 11"
  shows "ccm_plain E nonce ct aad = Some pt \<longleftrightarrow> ct = ccm_text E nonce pt aad"
proof -
  have "ccm_plain E nonce ct aad = Some pt \<longleftrightarrow> ccm_Open E [] nonce ct aad = Inr pt"
    by (auto simp: ccm_plain_def split: sum.splits)
  also have "\<dots> \<longleftrightarrow> ccm_Seal E [] nonce pt aad = Some ct"
    using ccm_Open_iff [OF assms, of "[]"] by simp
  finally show ?thesis
    using assms by (auto simp: ccm_text_def ccm_Seal_def ccmNonceSize_def)
qed

lemma length_ccm_text: "length nonce = 11 \<Longrightarrow> length (ccm_text E nonce pt aad) = length pt + 16"
  by (simp add: ccm_text_def ccm_Seal_def ccmNonceSize_def ccmTagSize_def ctrXor_def length_ctr_from
      length_ctrEncryptTag length_computeTag)

end

sublocale block_cipher \<subseteq> ccm: aead_scheme "ccm_text E" "ccm_plain E" 11
  by unfold_locales (simp_all add: ccm_plain_iff length_ccm_text)

text \<open>C34: AES-CCM, which the server implements itself, is what the standard says and is a faithful
  sealing. Sealing appends to the buffer it is given exactly the ciphertext of NIST SP 800-38C for a 4-byte length field
  and a 16-byte tag: the plaintext xored with the key stream of the encrypted counter blocks 1, 2, ..., followed by the
  CBC-MAC of the blocks the standard prescribes for nonce, additional data and plaintext, xored with the
  encrypted counter block 0. The tag the code computes is that CBC-MAC, and opening accepts a ciphertext exactly when sealing the
  plaintext it returns, under the same nonce and additional data, gives that ciphertext. (Lengths and counters are
  taken modulo \<open>2^32\<close>, below which the standard keeps them.)\<close>

theorem ccm_is_nist_and_exact:
  assumes "length nonce = 11"
  shows "ccm_Seal (Encrypt cr key) dst nonce pt aad = Some (dst @ nist_ccm (Encrypt cr key) nonce pt aad)
    \<and> (ccm_Open (Encrypt cr key) dst nonce ct aad = Inr (dst @ pt)
           \<longleftrightarrow> ccm_Seal (Encrypt cr key) dst nonce pt aad = Some (dst @ ct))
    \<and> computeTag (Encrypt cr key) nonce pt aad = cbc_mac (Encrypt cr key) (zeros 16) (nist_format nonce pt aad)
    \<and> length (nist_ccm (Encrypt cr key) nonce pt aad) = length pt + 16"
proof (intro conjI)
  show nist: "ccm_Seal (Encrypt cr key) dst nonce pt aad = Some (dst @ nist_ccm (Encrypt cr key) nonce pt aad)" for dst
    by (rule aes_block.ccm_Seal_nist [OF assms])
  show "ccm_Open (Encrypt cr key) dst nonce ct aad = Inr (dst @ pt)
          \<longleftrightarrow> ccm_Seal (Encrypt cr key) dst nonce pt aad = Some (dst @ ct)"
    by (rule aes_block.ccm_Open_iff [OF assms])
  show "computeTag (Encrypt cr key) nonce pt aad = cbc_mac (Encrypt cr key) (zeros 16) (nist_format nonce pt aad)"
    by (rule aes_block.computeTag_nist [OF assms])
  show "length (nist_ccm (Encrypt cr key) nonce pt aad) = length pt + 16"
    using nist [of "[]"] aes_block.length_ccm_text [OF assms, of cr key pt aad] by (simp add: ccm_text_def)
qed

abbreviation wcrypto :: crypto where
  "wcrypto \<equiv> \<lparr>cr_aes = (\<lambda>k b. map2 (XOR) k b), cr_hmac = (\<lambda>k m. m), cr_gcm_seal = (\<lambda>k n p a. p @ fixed 16 n),
     cr_gcm_open = (\<lambda>k n c a. if length c \<ge> 16 \<and> drop (length c - 16) c = fixed 16 n
                      then Some (take (length c - 16) c) else None)\<rparr>"

theorem ccm_is_nist_and_exact_witness:
  "ccm_Seal (Encrypt wcrypto (zeros 16)) [9] (zeros 11) [1, 2, 3] [7] = Some ([9] @ nist_ccm (Encrypt wcrypto (zeros 16)) (zeros 11) [1, 2, 3] [7])
   \<and> ccm_Open (Encrypt wcrypto (zeros 16)) [9] (zeros 11) (nist_ccm (Encrypt wcrypto (zeros 16)) (zeros 11) [1, 2, 3] [7]) [7]
      = Inr ([9] @ [1, 2, 3])"
proof -
  have n: "length (zeros 11 :: bytes) = 11" by simp
  show ?thesis
    using ccm_is_nist_and_exact [OF n, of wcrypto "zeros 16" "[9]" "[1, 2, 3]" "[7]"
        "nist_ccm (Encrypt wcrypto (zeros 16)) (zeros 11) [1, 2, 3] [7]"] by blast
qed

end
