(* ===== verification/Smb3_Transform.thy ===== *)
theory Smb3_Transform
  imports Smb3_Ccm Go_Map
begin

text \<open>
  Signing (\<^verbatim>\<open>internal/smb3/sign.go\<close>), the transform header with its nonces
  (\<^verbatim>\<open>encrypt.go\<close>) and the cache of cipher instances (\<^verbatim>\<open>aeadcache.go\<close>). An AEAD value is the
  algorithm with its key. The process-global nonce counter, its random prefix and the cache are the
  fields of \<open>smb3_state\<close>; \<open>None\<close> is a panic.
\<close>

section \<open>Signing\<close>

abbreviation (input) SignAlgoHMACSHA256 :: u16 where "SignAlgoHMACSHA256 \<equiv> 0x0000"
abbreviation (input) SignAlgoAESCMAC :: u16 where "SignAlgoAESCMAC \<equiv> 0x0001"
abbreviation (input) SignAlgoAESGMAC :: u16 where "SignAlgoAESGMAC \<equiv> 0x0002"

definition hmacSHA256Sign :: "crypto \<Rightarrow> bytes \<Rightarrow> bytes \<Rightarrow> bytes" where
  "hmacSHA256Sign cr key msg = fixed 16 (cr_hmac cr key msg)"

definition gmacSign :: "crypto \<Rightarrow> bytes \<Rightarrow> bytes \<Rightarrow> bytes option" where
  "gmacSign cr key msg =
     (case NewCipher key of
        None \<Rightarrow> Some (zeros 16)
      | Some k \<Rightarrow> do {
          msgID \<leftarrow> u64_at msg 24;
          flags \<leftarrow> u32_at msg 16;
          let nonce = le64 msgID @ le32 (flags AND (0x00000001 OR 0x00000002));
          Some (fixed 16 (cr_gcm_seal cr k nonce [] msg))
        })"

definition computeMAC :: "crypto \<Rightarrow> u16 \<Rightarrow> bytes \<Rightarrow> bytes \<Rightarrow> bytes option" where
  "computeMAC cr algo key msg =
     (if algo = SignAlgoAESGMAC then gmacSign cr key msg
      else if algo = SignAlgoHMACSHA256 then Some (hmacSHA256Sign cr key msg)
      else CMAC cr key msg)"

definition SignMessage :: "crypto \<Rightarrow> u16 \<Rightarrow> bytes \<Rightarrow> bytes \<Rightarrow> bytes option" where
  "SignMessage cr algo signingKey msg =
     (if length msg < 64 then Some msg
      else let m0 = patch 48 (zeros 16) msg;
               m1 = m0[16 := m0 ! 16 OR 0x08]
           in map_option (\<lambda>sig. patch 48 sig m1) (computeMAC cr algo signingKey m1))"

text \<open>The verdict, and the message as it is left (the signature field is zeroed and put back).\<close>

definition VerifyMessage :: "crypto \<Rightarrow> u16 \<Rightarrow> bytes \<Rightarrow> bytes \<Rightarrow> (bool \<times> bytes) option" where
  "VerifyMessage cr algo signingKey msg =
     (if length msg < 64 then Some (False, msg)
      else let saved = take 16 (drop 48 msg);
               m0 = patch 48 (zeros 16) msg
           in map_option (\<lambda>mac. (mac = saved, patch 48 saved m0)) (computeMAC cr algo signingKey m0))"

section \<open>Cipher instances\<close>

abbreviation (input) CipherAES128CCM :: u16 where "CipherAES128CCM \<equiv> 0x0001"
abbreviation (input) CipherAES128GCM :: u16 where "CipherAES128GCM \<equiv> 0x0002"
abbreviation (input) CipherAES256CCM :: u16 where "CipherAES256CCM \<equiv> 0x0003"
abbreviation (input) CipherAES256GCM :: u16 where "CipherAES256GCM \<equiv> 0x0004"

datatype smb3_err =
    ErrShortTransform
  | ErrBadTransformID
  | ErrNotEncrypted u16
  | ErrUnknownCipher u16
  | ErrShortKey u16 nat
  | ErrNonceLength nat
  | ErrTransformDecrypt
  | ErrShortTransformBody

datatype aead = GCM bytes | CCM bytes

definition CipherKeyBits :: "u16 \<Rightarrow> u32" where
  "CipherKeyBits cipherID = (if cipherID = CipherAES256CCM \<or> cipherID = CipherAES256GCM then 256 else 128)"

definition newAEAD :: "u16 \<Rightarrow> bytes \<Rightarrow> smb3_err + aead \<times> nat" where
  "newAEAD cipherID rawKey =
     (if cipherID = CipherAES128GCM \<or> cipherID = CipherAES128CCM then
        if length rawKey < 16 then Inl (ErrShortKey cipherID (length rawKey))
        else if cipherID = CipherAES128GCM then Inr (GCM (take 16 rawKey), 12) else Inr (CCM (take 16 rawKey), 11)
      else if cipherID = CipherAES256GCM \<or> cipherID = CipherAES256CCM then
        if length rawKey < 32 then Inl (ErrShortKey cipherID (length rawKey))
        else if cipherID = CipherAES256GCM then Inr (GCM (take 32 rawKey), 12) else Inr (CCM (take 32 rawKey), 11)
      else Inl (ErrUnknownCipher cipherID))"

fun aead_Seal :: "crypto \<Rightarrow> aead \<Rightarrow> bytes \<Rightarrow> bytes \<Rightarrow> bytes \<Rightarrow> bytes \<Rightarrow> bytes option" where
  "aead_Seal cr (GCM k) dst nonce plaintext aad =
     (if length nonce \<noteq> 12 then None else Some (dst @ cr_gcm_seal cr k nonce plaintext aad))"
| "aead_Seal cr (CCM k) dst nonce plaintext aad = ccm_Seal (Encrypt cr k) dst nonce plaintext aad"

fun aead_Open :: "crypto \<Rightarrow> aead \<Rightarrow> bytes \<Rightarrow> bytes \<Rightarrow> bytes \<Rightarrow> bytes \<Rightarrow> bytes option" where
  "aead_Open cr (GCM k) dst nonce ciphertext aad = map_option ((@) dst) (cr_gcm_open cr k nonce ciphertext aad)"
| "aead_Open cr (CCM k) dst nonce ciphertext aad =
     (case ccm_Open (Encrypt cr k) dst nonce ciphertext aad of Inl _ \<Rightarrow> None | Inr pt \<Rightarrow> Some pt)"

record smb3_state =
  nonceCounter :: u64
  noncePrefix :: bytes
  aeadCaches :: "u16 \<Rightarrow> (bytes, aead \<times> nat) gomap"

definition aeadCacheLimit :: nat where
  "aeadCacheLimit = 512"

definition aeadFor :: "u16 \<Rightarrow> bytes \<Rightarrow> smb3_state \<Rightarrow> (smb3_err + aead \<times> nat) \<times> smb3_state" where
  "aeadFor cipherID rawKey st =
     (if cipherID = 0 \<or> cipherID > CipherAES256GCM then (newAEAD cipherID rawKey, st)
      else case map_of (aeadCaches st cipherID) rawKey of
        Some e \<Rightarrow> (Inr e, st)
      | None \<Rightarrow>
          (case newAEAD cipherID rawKey of
             Inl err \<Rightarrow> (Inl err, st)
           | Inr e \<Rightarrow>
               let m = (if length (aeadCaches st cipherID) \<ge> aeadCacheLimit then [] else aeadCaches st cipherID)
               in (Inr e, st\<lparr>aeadCaches := (aeadCaches st)(cipherID := map_put rawKey e m)\<rparr>)))"

section \<open>The transform header\<close>

definition TransformHeaderSize :: nat where [simp]: "TransformHeaderSize = 52"
definition transformAADStart :: nat where [simp]: "transformAADStart = 20"
definition transformAADLen :: nat where [simp]: "transformAADLen = 32"
definition transformProtocolID :: bytes where "transformProtocolID = [0xFD, 0x53, 0x4D, 0x42]"
abbreviation (input) TransformFlagEncrypted :: u16 where "TransformFlagEncrypted \<equiv> 0x0001"

definition nextNonce :: "nat \<Rightarrow> smb3_state \<Rightarrow> bytes \<times> smb3_state" where
  "nextNonce n st =
     (let c = nonceCounter st + 1 in
      (take n (le64 c @ fixed 8 (noncePrefix st) @ zeros n), st\<lparr>nonceCounter := c\<rparr>))"

definition IsTransform :: "bytes \<Rightarrow> bool" where
  "IsTransform buf \<longleftrightarrow> length buf \<ge> 4 \<and> buf ! 0 = transformProtocolID ! 0 \<and> buf ! 1 = transformProtocolID ! 1
     \<and> buf ! 2 = transformProtocolID ! 2 \<and> buf ! 3 = transformProtocolID ! 3"

definition DecryptTransform :: "crypto \<Rightarrow> u16 \<Rightarrow> bytes \<Rightarrow> bytes \<Rightarrow> smb3_state
    \<Rightarrow> ((smb3_err + bytes \<times> u64) \<times> smb3_state) option" where
  "DecryptTransform cr cipherID key frame st =
     (if length frame < TransformHeaderSize then Some (Inl ErrShortTransform, st)
      else if \<not> IsTransform frame then Some (Inl ErrBadTransformID, st)
      else do {
        origSize \<leftarrow> u32_at frame 36;
        flags \<leftarrow> u16_at frame 42;
        sessID \<leftarrow> u64_at frame 44;
        if flags AND TransformFlagEncrypted = 0 then Some (Inl (ErrNotEncrypted flags), st)
        else do {
          ciphertext \<leftarrow> go_slice frame TransformHeaderSize (length frame);
          if length ciphertext < unat origSize then Some (Inl ErrShortTransformBody, st)
          else case aeadFor cipherID key st of
            (Inl err, st') \<Rightarrow> Some (Inl err, st')
          | (Inr (aead, nonceLen), st') \<Rightarrow> do {
              nonce \<leftarrow> go_slice frame 20 (20 + nonceLen);
              tag \<leftarrow> go_slice frame 4 20;
              aad \<leftarrow> go_slice frame transformAADStart (transformAADStart + transformAADLen);
              Some (case aead_Open cr aead [] nonce (ciphertext @ tag) aad of
                      None \<Rightarrow> (Inl ErrTransformDecrypt, st')
                    | Some pt \<Rightarrow> (Inr (pt, sessID), st'))
            }
        }
      })"

definition EncryptTransform :: "crypto \<Rightarrow> u16 \<Rightarrow> bytes \<Rightarrow> u64 \<Rightarrow> bytes \<Rightarrow> smb3_state
    \<Rightarrow> ((smb3_err + bytes) \<times> smb3_state) option" where
  "EncryptTransform cr cipherID key sessID plaintext st =
     (case aeadFor cipherID key st of
        (Inl err, st1) \<Rightarrow> Some (Inl err, st1)
      | (Inr (aead, nonceLen), st1) \<Rightarrow>
          if nonceLen > 16 \<or> nonceLen < 8 then Some (Inl (ErrNonceLength nonceLen), st1)
          else case nextNonce nonceLen st1 of (nonce, st2) \<Rightarrow> do {
            let out = zeros TransformHeaderSize;
            out \<leftarrow> put_at 0 transformProtocolID out;
            out \<leftarrow> put_at 20 nonce out;
            out \<leftarrow> put_at 36 (le32 (word_of_nat (length plaintext))) out;
            out \<leftarrow> put_at 42 (le16 TransformFlagEncrypted) out;
            out \<leftarrow> put_at 44 (le64 sessID) out;
            aad \<leftarrow> go_slice out transformAADStart (transformAADStart + transformAADLen);
            sealed \<leftarrow> aead_Seal cr aead out nonce plaintext aad;
            let tagOff = length sealed - 16;
            sealed \<leftarrow> put_at 4 (drop tagOff sealed) sealed;
            Some (Inr (take tagOff sealed), st2)
          })"

section \<open>Signatures\<close>

lemma patch_patch_same:
  "length xs = length ys \<Longrightarrow> patch off xs (patch off ys buf) = patch off xs buf"
  by (rule nth_equalityI) (auto simp: nth_patch)

lemma patch_self: "off + n \<le> length buf \<Longrightarrow> patch off (take n (drop off buf)) buf = buf"
  by (rule patch_id) simp_all

lemma patch_update_other:
  "i < off \<or> off + length xs \<le> i \<Longrightarrow> patch off xs (buf[i := v]) = (patch off xs buf)[i := v]"
  by (cases "i < length buf") (rule nth_equalityI; auto simp: nth_patch nth_list_update)+

lemma length_computeMAC: "computeMAC cr algo key msg = Some mac \<Longrightarrow> length mac = 16"
  by (auto simp: computeMAC_def gmacSign_def hmacSHA256Sign_def length_CMAC
      split: if_splits option.splits bind_splits)

lemma computeMAC_total:
  "64 \<le> length msg \<Longrightarrow> algo \<in> {SignAlgoHMACSHA256, SignAlgoAESGMAC} \<or> length key \<in> {16, 24, 32} \<Longrightarrow>
     \<exists>mac. computeMAC cr algo key msg = Some mac"
  by (auto simp: computeMAC_def gmacSign_def CMAC_def NewCipher_def u64_at_def u32_at_def Let_def)

lemma VerifyMessage_eq:
  assumes "64 \<le> length msg"
  shows "VerifyMessage cr algo key msg =
    map_option (\<lambda>mac. (mac = take 16 (drop 48 msg), msg)) (computeMAC cr algo key (patch 48 (zeros 16) msg))"
  using assms by (simp add: VerifyMessage_def Let_def patch_patch_same patch_self)

definition flagged :: "bytes \<Rightarrow> bytes" where
  "flagged msg = (patch 48 (zeros 16) msg)[16 := msg ! 16 OR 0x08]"

lemma flagged_nth:
  assumes "i < length msg" "64 \<le> length msg"
  shows "flagged msg ! i = (if i = 16 then msg ! 16 OR 0x08 else if 48 \<le> i \<and> i < 64 then 0 else msg ! i)"
  using assms by (auto simp: flagged_def nth_list_update nth_patch)

lemma length_flagged [simp]: "length (flagged msg) = length msg"
  by (simp add: flagged_def)

lemma SignMessage_eq:
  "64 \<le> length msg \<Longrightarrow>
     SignMessage cr algo key msg = map_option (\<lambda>sig. patch 48 sig (flagged msg)) (computeMAC cr algo key (flagged msg))"
  by (simp add: SignMessage_def Let_def flagged_def nth_patch)

lemma flagged_cleared:
  assumes "64 \<le> length msg" "length sig = 16"
  shows "patch 48 (zeros 16) (patch 48 sig (flagged msg)) = flagged msg"
  using assms by (simp add: flagged_def patch_patch_same patch_update_other)

lemma flagged_signed:
  assumes "64 \<le> length msg" "msg ! 16 AND 0x08 \<noteq> 0"
  shows "flagged msg = patch 48 (zeros 16) msg"
proof -
  have "bit (msg ! 16) 3"
    using assms(2) and_exp_eq_0_iff_not_bit [of "msg ! 16" 3] by simp
  then have "set_bit 3 (msg ! 16) = msg ! 16" by (simp add: set_bit_eq_idem_iff)
  then have "msg ! 16 OR 0x08 = msg ! 16" by (simp add: set_bit_eq_or)
  then show ?thesis
    using assms(1) by (simp add: flagged_def nth_patch list_update_same_conv)
qed

lemma SignMessage_cases:
  assumes "64 \<le> length msg" and "SignMessage cr algo key msg = Some m"
  obtains sig where "m = patch 48 sig (flagged msg)" "length sig = 16" "computeMAC cr algo key (flagged msg) = Some sig"
  using assms by (auto simp: SignMessage_eq length_computeMAC)

lemma SignMessage_verifies:
  assumes "64 \<le> length msg" and "SignMessage cr algo key msg = Some m"
  shows "VerifyMessage cr algo key m = Some (True, m)"
proof -
  obtain sig where sig: "m = patch 48 sig (flagged msg)" "length sig = 16" "computeMAC cr algo key (flagged msg) = Some sig"
    by (rule SignMessage_cases [OF assms])
  have "take 16 (drop 48 m) = sig" unfolding sig(1) using assms(1) sig(2) by (intro patch_same) simp_all
  moreover have "64 \<le> length m" using assms(1) sig(1) by simp
  moreover have "patch 48 (zeros 16) m = flagged msg" unfolding sig(1) by (rule flagged_cleared [OF assms(1) sig(2)])
  ultimately show ?thesis by (simp only: VerifyMessage_eq sig(3) option.map simp_thms)
qed

text \<open>Signing and verifying fit together. Signing a message of at least a header's length succeeds,
  changes nothing but the signature field and the signed flag, and what it produces verifies. For any
  message, verification leaves the buffer as it found it, and accepts a message that carries the
  signed flag exactly when signing it again would reproduce it byte for byte.\<close>

theorem signatures_fit:
  assumes "64 \<le> length msg"
    and "algo \<in> {SignAlgoHMACSHA256, SignAlgoAESGMAC} \<or> length key \<in> {16, 24, 32}"
  shows "(\<exists>m. SignMessage cr algo key msg = Some m \<and> VerifyMessage cr algo key m = Some (True, m)
            \<and> length m = length msg \<and> m ! 16 = msg ! 16 OR 0x08
            \<and> (\<forall>i < length msg. i \<noteq> 16 \<and> (i < 48 \<or> 64 \<le> i) \<longrightarrow> m ! i = msg ! i))
    \<and> (\<exists>ok. VerifyMessage cr algo key msg = Some (ok, msg)
            \<and> (msg ! 16 AND 0x08 \<noteq> 0 \<longrightarrow> ok = (SignMessage cr algo key msg = Some msg)))"
proof (rule conjI)
  have len: "64 \<le> length (flagged msg)" using assms(1) by simp
  from computeMAC_total [OF len assms(2)] obtain sig where sig: "computeMAC cr algo key (flagged msg) = Some sig"
    by blast
  then have sl: "length sig = 16" by (rule length_computeMAC)
  let ?m = "patch 48 sig (flagged msg)"
  have "SignMessage cr algo key msg = Some ?m"
    by (simp add: SignMessage_eq [OF assms(1)] sig)
  moreover from this have "VerifyMessage cr algo key ?m = Some (True, ?m)"
    by (rule SignMessage_verifies [OF assms(1)])
  moreover have "length ?m = length msg" "?m ! 16 = msg ! 16 OR 0x08"
    using assms(1) sl patch_nth_other [of 16 48 sig "flagged msg"] by (simp_all add: flagged_nth)
  moreover have "\<forall>i < length msg. i \<noteq> 16 \<and> (i < 48 \<or> 64 \<le> i) \<longrightarrow> ?m ! i = msg ! i"
  proof (intro allI impI)
    fix i assume i: "i < length msg" "i \<noteq> 16 \<and> (i < 48 \<or> 64 \<le> i)"
    then have "?m ! i = flagged msg ! i" using sl by (intro patch_nth_other) auto
    with i assms(1) show "?m ! i = msg ! i" by (auto simp: flagged_nth)
  qed
  ultimately show "\<exists>m. SignMessage cr algo key msg = Some m \<and> VerifyMessage cr algo key m = Some (True, m)
            \<and> length m = length msg \<and> m ! 16 = msg ! 16 OR 0x08
            \<and> (\<forall>i < length msg. i \<noteq> 16 \<and> (i < 48 \<or> 64 \<le> i) \<longrightarrow> m ! i = msg ! i)"
    by blast
next
  let ?m0 = "patch 48 (zeros 16) msg"
  obtain mac where mac: "computeMAC cr algo key ?m0 = Some mac"
    using computeMAC_total [of ?m0 algo key cr] assms by auto
  then have ml: "length mac = 16" by (rule length_computeMAC)
  have "mac = take 16 (drop 48 msg) \<longleftrightarrow> patch 48 mac ?m0 = msg"
  proof
    assume here: "mac = take 16 (drop 48 msg)"
    have "patch 48 mac ?m0 = patch 48 mac msg" using ml by (simp add: patch_patch_same)
    then show "patch 48 mac ?m0 = msg" using assms(1) by (simp only: here) (simp add: patch_self)
  next
    assume "patch 48 mac ?m0 = msg"
    moreover have "take 16 (drop 48 (patch 48 mac ?m0)) = mac"
      using assms(1) ml by (intro patch_same) simp_all
    ultimately show "mac = take 16 (drop 48 msg)" by simp
  qed
  then have "msg ! 16 AND 0x08 \<noteq> 0 \<longrightarrow> (mac = take 16 (drop 48 msg)) = (SignMessage cr algo key msg = Some msg)"
    by (simp add: SignMessage_eq [OF assms(1)] flagged_signed [OF assms(1)] mac)
  then show "\<exists>ok. VerifyMessage cr algo key msg = Some (ok, msg)
            \<and> (msg ! 16 AND 0x08 \<noteq> 0 \<longrightarrow> ok = (SignMessage cr algo key msg = Some msg))"
    by (simp add: VerifyMessage_eq [OF assms(1)] mac)
qed

section \<open>The cache of cipher instances is invisible\<close>

definition cache_ok :: "smb3_state \<Rightarrow> bool" where
  "cache_ok st \<longleftrightarrow> (\<forall>cid key v. map_of (aeadCaches st cid) key = Some v \<longrightarrow> newAEAD cid key = Inr v)
     \<and> (\<forall>cid. length (aeadCaches st cid) \<le> aeadCacheLimit)"

lemma length_map_put_le: "length (map_put k v m) \<le> Suc (length m)"
  by (simp add: map_put_def map_delete_def)

lemma aeadFor_cache_ok:
  assumes "cache_ok st"
  obtains st' where "aeadFor cid key st = (newAEAD cid key, st')" "cache_ok st'"
    "nonceCounter st' = nonceCounter st" "noncePrefix st' = noncePrefix st"
proof (cases "cid = 0 \<or> cid > CipherAES256GCM")
  case True
  then show ?thesis using assms by (intro that [of st]) (simp_all add: aeadFor_def)
next
  case False
  show ?thesis
  proof (cases "map_of (aeadCaches st cid) key")
    case (Some e)
    then have "newAEAD cid key = Inr e" using assms unfolding cache_ok_def by blast
    with False Some assms show ?thesis by (intro that [of st]) (simp_all add: aeadFor_def)
  next
    case None
    show ?thesis
    proof (cases "newAEAD cid key")
      case (Inl err)
      with False None assms show ?thesis by (intro that [of st]) (simp_all add: aeadFor_def)
    next
      case (Inr e)
      define m where "m = (if length (aeadCaches st cid) \<ge> aeadCacheLimit then [] else aeadCaches st cid)"
      have m: "length m < aeadCacheLimit" by (simp add: m_def aeadCacheLimit_def)
      have sub: "newAEAD cid k = Inr v" if "map_of m k = Some v" for k v
        using assms that unfolding cache_ok_def m_def by (cases v) (simp split: if_splits)
      have "length (map_put key e m) \<le> aeadCacheLimit"
        using m length_map_put_le [of key e m] by simp
      then have "cache_ok (st\<lparr>aeadCaches := (aeadCaches st)(cid := map_put key e m)\<rparr>)"
        using assms Inr sub by (auto simp: cache_ok_def map_of_put split: if_splits)
      with False None Inr show ?thesis
        by (intro that [of "st\<lparr>aeadCaches := (aeadCaches st)(cid := map_put key e m)\<rparr>"])
          (simp_all add: aeadFor_def Let_def m_def)
    qed
  qed
qed

section \<open>Sealed frames\<close>

text \<open>What is relied on of Go's AES-GCM.\<close>

definition gcm_ok :: "crypto \<Rightarrow> bool" where
  "gcm_ok cr \<longleftrightarrow> (\<forall>k. aead_scheme (cr_gcm_seal cr k) (cr_gcm_open cr k) 12)"

definition aead_text :: "crypto \<Rightarrow> aead \<Rightarrow> bytes \<Rightarrow> bytes \<Rightarrow> bytes \<Rightarrow> bytes" where
  "aead_text cr a = (case a of GCM k \<Rightarrow> cr_gcm_seal cr k | CCM k \<Rightarrow> ccm_text (Encrypt cr k))"

definition aead_plain :: "crypto \<Rightarrow> aead \<Rightarrow> bytes \<Rightarrow> bytes \<Rightarrow> bytes \<Rightarrow> bytes option" where
  "aead_plain cr a = (case a of GCM k \<Rightarrow> cr_gcm_open cr k | CCM k \<Rightarrow> ccm_plain (Encrypt cr k))"

lemma aead_contract:
  assumes "gcm_ok cr" and "newAEAD cid key = Inr (a, nonceLen)"
  shows "aead_scheme (aead_text cr a) (aead_plain cr a) nonceLen"
  using assms aes_block.ccm.aead_scheme_axioms
  by (auto simp: newAEAD_def gcm_ok_def aead_text_def aead_plain_def split: if_splits)

lemma newAEAD_nonceLen: "newAEAD cid key = Inr (a, nonceLen) \<Longrightarrow> nonceLen = 11 \<or> nonceLen = 12"
  by (auto simp: newAEAD_def split: if_splits)

lemma aead_Seal_text:
  "newAEAD cid key = Inr (a, nonceLen) \<Longrightarrow> length nonce = nonceLen \<Longrightarrow>
     aead_Seal cr a dst nonce pt aad = Some (dst @ aead_text cr a nonce pt aad)"
  by (auto simp: newAEAD_def aead_text_def ccm_text_def ccm_Seal_def ccmNonceSize_def split: if_splits)

lemma aead_Open_plain: "aead_Open cr a [] nonce ct aad = aead_plain cr a nonce ct aad"
  by (cases a) (auto simp: aead_plain_def ccm_plain_def map_option_case split: sum.split option.split)

definition transform_header :: "bytes \<Rightarrow> nat \<Rightarrow> u64 \<Rightarrow> bytes" where
  "transform_header nonce n sid =
     patch 44 (le64 sid) (patch 42 (le16 TransformFlagEncrypted)
       (patch 36 (le32 (word_of_nat n)) (patch 20 nonce (patch 0 transformProtocolID (zeros 52)))))"

lemma length_transform_header [simp]: "length (transform_header nonce n sid) = 52"
  by (simp add: transform_header_def)

lemma length_nextNonce: "nextNonce n st = (nonce, st') \<Longrightarrow> length nonce = n"
  by (auto simp: nextNonce_def Let_def)

lemma EncryptTransform_frame:
  assumes "cache_ok st" and "gcm_ok cr" and aead: "newAEAD cid key = Inr (a, nonceLen)"
  obtains st' where
    "EncryptTransform cr cid key sid pt st =
       (let nonce = fst (nextNonce nonceLen st); h = transform_header nonce (length pt) sid;
            c = aead_text cr a nonce pt (drop 20 h)
        in Some (Inr (patch 4 (drop (length pt) c) h @ take (length pt) c), st'))"
    "cache_ok st'" "nonceCounter st' = nonceCounter st + 1" "noncePrefix st' = noncePrefix st"
proof -
  obtain st1 where st1: "aeadFor cid key st = (newAEAD cid key, st1)" "cache_ok st1"
    "nonceCounter st1 = nonceCounter st" "noncePrefix st1 = noncePrefix st"
    by (rule aeadFor_cache_ok [OF assms(1)])
  obtain nonce st2 where nn: "nextNonce nonceLen st1 = (nonce, st2)" by fastforce
  have same: "fst (nextNonce nonceLen st) = nonce"
    using nn st1 by (simp add: nextNonce_def Let_def)
  have st2: "cache_ok st2" "nonceCounter st2 = nonceCounter st + 1" "noncePrefix st2 = noncePrefix st"
    using nn st1 by (auto simp: nextNonce_def Let_def cache_ok_def)
  have nl: "length nonce = nonceLen" using nn by (rule length_nextNonce)
  note len = newAEAD_nonceLen [OF aead]
  let ?h = "transform_header nonce (length pt) sid"
  let ?c = "aead_text cr a nonce pt (drop 20 ?h)"
  have c: "length ?c = length pt + 16"
    by (rule aead_scheme.length_seal [OF aead_contract [OF assms(2) aead] nl])
  have "EncryptTransform cr cid key sid pt st = Some (Inr (patch 4 (drop (length pt) ?c) ?h @ take (length pt) ?c), st2)"
  proof -
    have bounds: "\<not> (16 < nonceLen \<or> nonceLen < 8)" and fits: "length nonce \<le> 32"
      using len nl by auto
    have put: "put_at 4 (drop (length pt) ?c) (?h @ ?c) = Some (patch 4 (drop (length pt) ?c) ?h @ ?c)"
      using c by (simp add: put_at_def patch_append_left)
    show ?thesis
      unfolding EncryptTransform_def st1(1) aead
      by (simp add: nn bounds fits put_at_def [of 0] put_at_def [of 20] put_at_def [of 36] put_at_def [of 42]
          put_at_def [of 44] go_slice_def transform_header_def [symmetric] aead_Seal_text [OF aead nl] c put Let_def
          transformProtocolID_def [THEN arg_cong, of length, simplified])
  qed
  with st2 show ?thesis by (intro that [of st2]) (simp_all add: Let_def same)
qed

text \<open>Reading the fields of a frame whose first 52 bytes are a header with a tag in it.\<close>

lemma header_fields:
  fixes n :: nat and sid :: u64 and ct :: bytes
  assumes "length nonce \<le> 16" and "length tag = 16"
  defines "f \<equiv> patch 4 tag (transform_header nonce n sid) @ ct"
  shows "IsTransform f" "u32_at f 36 = Some (word_of_nat n)" "u16_at f 42 = Some TransformFlagEncrypted"
    "u64_at f 44 = Some sid" "go_slice f 52 (52 + length ct) = Some ct"
    "go_slice f 20 (20 + length nonce) = Some nonce" "go_slice f 4 20 = Some tag"
    "go_slice f 20 52 = Some (drop 20 (transform_header nonce n sid))"
proof -
  let ?h = "transform_header nonce n sid"
  have id: "length transformProtocolID = 4" by (simp add: transformProtocolID_def)
  have nth: "f ! i = ?h ! i" if "i < 4" for i
    using that by (simp add: f_def nth_append nth_patch)
  have proto: "?h ! i = transformProtocolID ! i" if "i < 4" for i
    using that id by (simp add: transform_header_def nth_patch)
  show "IsTransform f" by (simp add: IsTransform_def nth proto) (simp add: f_def)
  have low: "take k (drop off f) = take k (drop off ?h)" if "20 \<le> off" "off + k \<le> 52" for k off
    using that assms(2) by (simp add: f_def patch_other)
  show "u32_at f 36 = Some (word_of_nat n)"
    using low [of 36 4] assms(1) id by (simp add: u32_at_def f_def transform_header_def byte_layout)
  show "u16_at f 42 = Some TransformFlagEncrypted"
    using low [of 42 2] assms(1) id by (simp add: u16_at_def f_def transform_header_def byte_layout)
  show "u64_at f 44 = Some sid"
  proof -
    have "take 8 (drop 44 ?h) = le64 sid"
      unfolding transform_header_def by (intro patch_same) simp_all
    with low [of 44 8] have "take 8 (drop 44 f) = le64 sid" by simp
    moreover have "44 + 8 \<le> length f" by (simp add: f_def)
    ultimately show ?thesis by (simp only: u64_at_def if_True le_word_le64)
  qed
  show "go_slice f 52 (52 + length ct) = Some ct" by (simp add: go_slice_def f_def)
  show "go_slice f 20 (20 + length nonce) = Some nonce"
    using low [of 20 "length nonce"] assms(1) id by (simp add: go_slice_def f_def transform_header_def byte_layout)
  show "go_slice f 4 20 = Some tag"
    using assms(2) by (simp add: go_slice_def f_def byte_layout)
  show "go_slice f 20 52 = Some (drop 20 ?h)"
    using low [of 20 32] by (simp add: go_slice_def f_def)
qed

lemma DecryptTransform_frame:
  assumes "cache_ok st" and "newAEAD cid key = Inr (a, nonceLen)"
    and "length nonce = nonceLen" and "length tag = 16" and "n \<le> length ct"
  obtains st' where
    "DecryptTransform cr cid key (patch 4 tag (transform_header nonce n sid) @ ct) st =
       Some (case aead_plain cr a nonce (ct @ tag) (drop 20 (transform_header nonce n sid)) of
               None \<Rightarrow> (Inl ErrTransformDecrypt, st') | Some pt \<Rightarrow> (Inr (pt, sid), st'))"
    "cache_ok st'"
proof -
  obtain st1 where st1: "aeadFor cid key st = (newAEAD cid key, st1)" "cache_ok st1"
    by (rule aeadFor_cache_ok [OF assms(1)])
  let ?f = "patch 4 tag (transform_header nonce n sid) @ ct"
  have nl: "length nonce \<le> 16" using newAEAD_nonceLen [OF assms(2)] assms(3) by auto
  note fields = header_fields [OF nl assms(4), of n sid ct]
  have "unat (word_of_nat n :: u32) \<le> length ct"
    using assms(5) mod_less_eq_dividend [of n "2 ^ 32"] by (simp add: unat_of_nat)
  then have "DecryptTransform cr cid key ?f st =
       Some (case aead_plain cr a nonce (ct @ tag) (drop 20 (transform_header nonce n sid)) of
               None \<Rightarrow> (Inl ErrTransformDecrypt, st1) | Some pt \<Rightarrow> (Inr (pt, sid), st1))"
    unfolding DecryptTransform_def using fields(1)
    by (simp add: fields(2-) [unfolded assms(3)] st1(1) assms(2) aead_Open_plain)
  with st1(2) show ?thesis by (rule that [rotated])
qed

text \<open>C27: Encryption of a frame is undone by decryption. For each of the four ciphers and any key long
  enough for it, wrapping a message of any length succeeds, the frame carries the transform header,
  and unwrapping it, possibly in another state of the cipher cache, returns the message and the
  session id it was sealed for.\<close>

theorem transform_roundtrip:
  assumes "cache_ok st" and "cache_ok st'" and "gcm_ok cr"
    and "cid \<in> {CipherAES128CCM, CipherAES128GCM, CipherAES256CCM, CipherAES256GCM}"
    and "unat (CipherKeyBits cid) \<le> 8 * length key"
  shows "\<exists>frame s s'. EncryptTransform cr cid key sid pt st = Some (Inr frame, s) \<and> cache_ok s
    \<and> IsTransform frame \<and> length frame = 52 + length pt
    \<and> DecryptTransform cr cid key frame st' = Some (Inr (pt, sid), s') \<and> cache_ok s'"
proof -
  obtain a nonceLen where aead: "newAEAD cid key = Inr (a, nonceLen)"
    using assms(4,5) by (auto simp: newAEAD_def CipherKeyBits_def)
  note contract = aead_contract [OF assms(3) aead]
  define nonce where "nonce = fst (nextNonce nonceLen st)"
  have nl: "length nonce = nonceLen"
    unfolding nonce_def by (cases "nextNonce nonceLen st") (simp add: length_nextNonce)
  define h where "h = transform_header nonce (length pt) sid"
  define c where "c = aead_text cr a nonce pt (drop 20 h)"
  define tag ct where "tag = drop (length pt) c" and "ct = take (length pt) c"
  have c: "length c = length pt + 16"
    unfolding c_def by (rule aead_scheme.length_seal [OF contract nl])
  then have tag: "length tag = 16" "length pt \<le> length ct" "length ct = length pt" "ct @ tag = c"
    by (simp_all add: tag_def ct_def)
  let ?frame = "patch 4 tag h @ ct"
  obtain s where enc: "EncryptTransform cr cid key sid pt st = Some (Inr ?frame, s)" "cache_ok s"
    using EncryptTransform_frame [OF assms(1,3) aead, of sid pt]
    unfolding Let_def nonce_def [symmetric] h_def [symmetric] c_def [symmetric] tag_def [symmetric] ct_def [symmetric]
    by metis
  obtain s' where dec: "DecryptTransform cr cid key ?frame st' =
       Some (case aead_plain cr a nonce (ct @ tag) (drop 20 h) of
               None \<Rightarrow> (Inl ErrTransformDecrypt, s') | Some p \<Rightarrow> (Inr (p, sid), s'))" "cache_ok s'"
    using DecryptTransform_frame [OF assms(2) aead nl tag(1,2), of cr sid] unfolding h_def by metis
  have "aead_plain cr a nonce (ct @ tag) (drop 20 h) = Some pt"
    unfolding tag(4) c_def by (rule aead_scheme.unseal_seal [OF contract nl])
  with dec have "DecryptTransform cr cid key ?frame st' = Some (Inr (pt, sid), s')" by simp
  moreover have "IsTransform ?frame"
    unfolding h_def using nl newAEAD_nonceLen [OF aead] by (intro header_fields(1) tag(1)) auto
  moreover have "length ?frame = 52 + length pt" using tag(3) by (simp add: h_def)
  ultimately show ?thesis using enc dec(2) by blast
qed

text \<open>Decryption on any accepted frame, read off the definition.\<close>

lemma DecryptTransform_accepts:
  assumes "cache_ok st" and "DecryptTransform cr cid key frame st = Some (Inr (pt, sid), st')"
  obtains a nonceLen where "newAEAD cid key = Inr (a, nonceLen)" "52 \<le> length frame" "IsTransform frame"
    "aead_plain cr a (take nonceLen (drop 20 frame)) (drop 52 frame @ take 16 (drop 4 frame)) (take 32 (drop 20 frame)) = Some pt"
    "sid = le_word (take 8 (drop 44 frame))"
proof -
  obtain st1 where st1: "aeadFor cid key st = (newAEAD cid key, st1)"
    by (rule aeadFor_cache_ok [OF assms(1)])
  show ?thesis
    using assms(2)
    by (auto simp: DecryptTransform_def st1 go_panic aead_Open_plain intro!: that
        split: if_splits sum.splits option.splits bind_splits)
qed

lemma frame_split:
  assumes "52 \<le> length frame" and "IsTransform frame"
  shows "frame = transformProtocolID @ take 16 (drop 4 frame) @ take 32 (drop 20 frame) @ drop 52 frame"
proof -
  have "take 4 frame = transformProtocolID"
    using assms by (intro nth_equalityI) (auto simp: IsTransform_def transformProtocolID_def less_Suc_eq numeral_eq_Suc)
  moreover have "drop 4 frame = take 16 (drop 4 frame) @ drop 20 frame"
    using append_take_drop_id [of 16 "drop 4 frame"] by simp
  moreover have "drop 20 frame = take 32 (drop 20 frame) @ drop 52 frame"
    using append_take_drop_id [of 32 "drop 20 frame"] by simp
  ultimately have "frame = transformProtocolID @ take 16 (drop 4 frame) @ take 32 (drop 20 frame) @ drop 52 frame"
    using append_take_drop_id [of 4 frame] by metis
  then show ?thesis .
qed

text \<open>C25: Decryption is authentic: a frame it accepts is, byte for byte, the sealing of the plaintext
  it returns, under the key and under the nonce, session id and flags the frame itself carries. No
  byte of an accepted frame can be changed without the plaintext or the header changing with it.\<close>

theorem transform_authentic:
  assumes "cache_ok st" and "gcm_ok cr"
    and "DecryptTransform cr cid key frame st = Some (Inr (pt, sid), st')"
  shows "\<exists>a nonceLen. newAEAD cid key = Inr (a, nonceLen) \<and> sid = le_word (take 8 (drop 44 frame))
    \<and> (let c = aead_text cr a (take nonceLen (drop 20 frame)) pt (take 32 (drop 20 frame))
       in frame = transformProtocolID @ drop (length pt) c @ take 32 (drop 20 frame) @ take (length pt) c)"
proof -
  obtain a nonceLen where acc: "newAEAD cid key = Inr (a, nonceLen)" "52 \<le> length frame" "IsTransform frame"
    "aead_plain cr a (take nonceLen (drop 20 frame)) (drop 52 frame @ take 16 (drop 4 frame)) (take 32 (drop 20 frame)) = Some pt"
    "sid = le_word (take 8 (drop 44 frame))"
    by (rule DecryptTransform_accepts [OF assms(1,3)])
  let ?nonce = "take nonceLen (drop 20 frame)"
  define c where "c = aead_text cr a ?nonce pt (take 32 (drop 20 frame))"
  have nl: "length ?nonce = nonceLen" using newAEAD_nonceLen [OF acc(1)] acc(2) by auto
  note contract = aead_contract [OF assms(2) acc(1)]
  have c: "drop 52 frame @ take 16 (drop 4 frame) = c" "length c = length pt + 16"
    using acc(4) aead_scheme.unseal_iff [OF contract nl] aead_scheme.length_seal [OF contract nl]
    by (simp_all add: c_def)
  have "length (drop 52 frame @ take 16 (drop 4 frame)) = length (drop 52 frame) + 16" using acc(2) by simp
  then have "length (drop 52 frame) = length pt" unfolding c by simp
  then have "drop (length pt) c = take 16 (drop 4 frame)" "take (length pt) c = drop 52 frame"
    unfolding c(1) [symmetric] by simp_all
  then have "frame = transformProtocolID @ drop (length pt) c @ take 32 (drop 20 frame) @ take (length pt) c"
    using frame_split [OF acc(2,3)] by simp
  then show ?thesis using acc(1,5) unfolding c_def Let_def by blast
qed

section \<open>Nonces\<close>

text \<open>The frames a run of encryptions emits, whatever their ciphers, keys and sessions.\<close>

fun emitted :: "crypto \<Rightarrow> (u16 \<times> bytes \<times> u64 \<times> bytes) list \<Rightarrow> smb3_state \<Rightarrow> bytes list" where
  "emitted cr [] st = []"
| "emitted cr ((cid, key, sid, pt) # jobs) st =
     (case EncryptTransform cr cid key sid pt st of
        None \<Rightarrow> []
      | Some (Inl _, st') \<Rightarrow> emitted cr jobs st'
      | Some (Inr frame, st') \<Rightarrow> frame # emitted cr jobs st')"

abbreviation frame_nonce :: "bytes \<Rightarrow> bytes" where
  "frame_nonce frame \<equiv> take 8 (drop 20 frame)"

lemma EncryptTransform_cases:
  assumes "cache_ok st" and "gcm_ok cr"
  shows "(\<exists>err st'. EncryptTransform cr cid key sid pt st = Some (Inl err, st') \<and> cache_ok st'
            \<and> nonceCounter st' = nonceCounter st)
    \<or> (\<exists>frame st'. EncryptTransform cr cid key sid pt st = Some (Inr frame, st') \<and> cache_ok st'
            \<and> nonceCounter st' = nonceCounter st + 1 \<and> frame_nonce frame = le64 (nonceCounter st + 1)
            \<and> IsTransform frame)"
proof (cases "newAEAD cid key")
  case (Inl err)
  obtain st1 where "aeadFor cid key st = (newAEAD cid key, st1)" "cache_ok st1" "nonceCounter st1 = nonceCounter st"
    by (rule aeadFor_cache_ok [OF assms(1)])
  with Inl show ?thesis by (simp add: EncryptTransform_def)
next
  case (Inr e)
  then obtain a nonceLen where aead: "newAEAD cid key = Inr (a, nonceLen)" by (cases e) auto
  define nonce where "nonce = fst (nextNonce nonceLen st)"
  have nonce: "length nonce = nonceLen" "take 8 nonce = le64 (nonceCounter st + 1)" "8 \<le> length nonce" "length nonce \<le> 16"
    using newAEAD_nonceLen [OF aead] by (auto simp: nonce_def nextNonce_def Let_def)
  define h where "h = transform_header nonce (length pt) sid"
  define c where "c = aead_text cr a nonce pt (drop 20 h)"
  have c: "length (drop (length pt) c) = 16"
    using aead_scheme.length_seal [OF aead_contract [OF assms(2) aead] nonce(1)] by (simp add: c_def)
  let ?frame = "patch 4 (drop (length pt) c) h @ take (length pt) c"
  obtain st' where enc: "EncryptTransform cr cid key sid pt st = Some (Inr ?frame, st')" "cache_ok st'"
    "nonceCounter st' = nonceCounter st + 1"
    using EncryptTransform_frame [OF assms aead, of sid pt]
    unfolding Let_def nonce_def [symmetric] h_def [symmetric] c_def [symmetric] by metis
  have "go_slice ?frame 20 (20 + length nonce) = Some nonce"
    unfolding h_def by (rule header_fields(6) [OF nonce(4) c])
  then have "take (length nonce) (drop 20 ?frame) = nonce"
    by (simp add: go_slice_def split: if_splits)
  then have "take 8 (take (length nonce) (drop 20 ?frame)) = take 8 nonce"
    by (rule arg_cong)
  then have "frame_nonce ?frame = take 8 nonce"
    using nonce(3) by (simp only: take_take min.absorb1)
  moreover have "IsTransform ?frame" unfolding h_def by (rule header_fields(1) [OF nonce(4) c])
  ultimately show ?thesis using enc nonce(2) by auto
qed

lemma emitted_nonces:
  assumes "cache_ok st" and "gcm_ok cr"
  shows "map frame_nonce (emitted cr jobs st) =
    map (\<lambda>k. le64 (nonceCounter st + word_of_nat (Suc k))) [0..<length (emitted cr jobs st)]"
  using assms(1)
proof (induction jobs arbitrary: st)
  case (Cons job jobs)
  obtain cid key sid pt where job: "job = (cid, key, sid, pt)" by (cases job) auto
  from EncryptTransform_cases [OF Cons(2) assms(2), of cid key sid pt] show ?case
  proof (elim disjE exE conjE)
    fix err st' assume "EncryptTransform cr cid key sid pt st = Some (Inl err, st')" "cache_ok st'"
      "nonceCounter st' = nonceCounter st"
    with Cons(1) [of st'] show ?case by (simp add: job)
  next
    fix frame st' assume enc: "EncryptTransform cr cid key sid pt st = Some (Inr frame, st')" "cache_ok st'"
      "nonceCounter st' = nonceCounter st + 1" "frame_nonce frame = le64 (nonceCounter st + 1)"
    let ?n = "length (emitted cr jobs st')"
    have upt: "[0..<Suc ?n] = 0 # map Suc [0..<?n]" by (simp add: map_Suc_upt upt_conv_Cons del: upt_Suc)
    have "map frame_nonce (emitted cr (job # jobs) st) = le64 (nonceCounter st + 1)
        # map (\<lambda>k. le64 (nonceCounter st + 1 + word_of_nat (Suc k))) [0..<?n]"
      using Cons(1) [OF enc(2)] enc by (simp add: job del: of_nat_Suc)
    also have "\<dots> = map (\<lambda>k. le64 (nonceCounter st + word_of_nat (Suc k))) [0..<Suc ?n]"
      by (simp add: upt add.assoc del: upt_Suc)
    finally show ?case using enc(1) by (simp add: job del: upt_Suc)
  qed
qed simp

lemma length_emitted: "length (emitted cr jobs st) \<le> length jobs"
proof (induction jobs arbitrary: st)
  case (Cons job jobs)
  have "length (emitted cr jobs s) \<le> Suc (length jobs)" for s
    using Cons [of s] by simp
  with Cons show ?case by (cases job) (simp split: option.split sum.split prod.split)
qed simp

text \<open>C24: No nonce is used twice. Over any run of fewer than 2^64 encryptions, with any mixture of
  ciphers, keys and sessions, including ones that fail, the frames emitted carry pairwise different
  nonces, since they differ already in the eight counter bytes.\<close>

theorem nonces_never_repeat:
  assumes "cache_ok st" and "gcm_ok cr" and "length jobs < 2 ^ 64"
  shows "distinct (map frame_nonce (emitted cr jobs st))"
proof -
  have "length (emitted cr jobs st) \<le> length jobs"
    by (rule length_emitted)
  then have small: "length (emitted cr jobs st) < 2 ^ 64" using assms(3) by simp
  have "inj_on (\<lambda>k. le64 (nonceCounter st + word_of_nat (Suc k))) {0..<length (emitted cr jobs st)}"
  proof (rule inj_onI)
    fix i j assume ij: "i \<in> {0..<length (emitted cr jobs st)}" "j \<in> {0..<length (emitted cr jobs st)}"
      and "le64 (nonceCounter st + word_of_nat (Suc i)) = le64 (nonceCounter st + word_of_nat (Suc j))"
    then have "nonceCounter st + word_of_nat (Suc i) = nonceCounter st + word_of_nat (Suc j)"
      by (metis le_word_le64)
    then have "(word_of_nat i :: u64) = word_of_nat j" by simp
    then have "take_bit 64 i = take_bit 64 j" by (simp add: word_of_nat_eq_iff)
    with ij small show "i = j" by (simp add: take_bit_nat_eq_self)
  qed
  then show ?thesis
    unfolding emitted_nonces [OF assms(1,2)] by (simp add: distinct_map)
qed

section \<open>Witnesses\<close>

abbreviation wstate :: smb3_state where
  "wstate \<equiv> \<lparr>nonceCounter = 0, noncePrefix = zeros 8, aeadCaches = (\<lambda>_. [])\<rparr>"

lemma wstate_ok: "cache_ok wstate"
  by (simp add: cache_ok_def)

lemma wcrypto_ok: "gcm_ok wcrypto"
  unfolding gcm_ok_def
proof (intro allI, unfold_locales)
  fix k nonce ct aad pt :: bytes
  show "cr_gcm_open wcrypto k nonce ct aad = Some pt \<longleftrightarrow> ct = cr_gcm_seal wcrypto k nonce pt aad"
    by simp (metis append_take_drop_id append_eq_conv_conj diff_add_inverse2 le_add2 length_append length_fixed)
  show "length (cr_gcm_seal wcrypto k nonce pt aad) = length pt + 16"
    by simp
qed

theorem transform_roundtrip_witness:
  "\<exists>frame s s'. EncryptTransform wcrypto 2 (zeros 16) 7 [1, 2, 3] wstate = Some (Inr frame, s)
     \<and> DecryptTransform wcrypto 2 (zeros 16) frame wstate = Some (Inr ([1, 2, 3], 7), s')"
proof -
  have "unat (CipherKeyBits 2) \<le> 8 * length (zeros 16)" by (simp add: CipherKeyBits_def)
  from transform_roundtrip [OF wstate_ok wstate_ok wcrypto_ok _ this, of 7 "[1, 2, 3]"] show ?thesis by auto
qed

theorem nonces_never_repeat_witness:
  "distinct (map frame_nonce (emitted wcrypto [(2, zeros 16, 7, [1]), (1, zeros 16, 7, [1]), (9, [], 7, [1])] wstate))"
  by (rule nonces_never_repeat [OF wstate_ok wcrypto_ok]) simp

theorem transform_authentic_witness:
  "\<exists>a nonceLen. newAEAD 2 (zeros 16) = Inr (a, nonceLen)
    \<and> 7 = (le_word (take 8 (drop 44 (patch 4 (zeros 16) (transform_header (zeros 12) 1 7) @ [1]))) :: u64)"
proof -
  have aead: "newAEAD 2 (zeros 16) = Inr (GCM (zeros 16), 12)" by (simp add: newAEAD_def)
  have opens: "aead_plain wcrypto (GCM (zeros 16)) (zeros 12) ([1] @ zeros 16) aad = Some [1]" for aad
    by (simp add: aead_plain_def fixed_def numeral_eq_Suc)
  obtain st where dec: "DecryptTransform wcrypto 2 (zeros 16) (patch 4 (zeros 16) (transform_header (zeros 12) 1 7) @ [1]) wstate
      = Some (Inr ([1], 7), st)"
    using DecryptTransform_frame [OF wstate_ok aead, of "zeros 12" "zeros 16" 1 "[1]" wcrypto 7] opens
    by (auto simp del: append.simps)
  from transform_authentic [OF wstate_ok wcrypto_ok dec] show ?thesis by auto
qed

end
