(* ===== verification/Responses.thy ===== *)
theory Responses
  imports Sessions Smb3_Transform Smb2_Message_Props
begin

text \<open>
  The state of the dispatcher (\<^verbatim>\<open>Dispatcher\<close> of \<^verbatim>\<open>internal/parent/dispatch.go\<close>) and how a handler
  answers: \<^verbatim>\<open>buildResponse\<close>, \<^verbatim>\<open>respondSuccess\<close>, \<^verbatim>\<open>respondError\<close>,
  \<^verbatim>\<open>respondSuccessWithTreeID\<close>, and \<^verbatim>\<open>emit\<close> of \<^verbatim>\<open>compound.go\<close>, which collects the responses
  of one inbound frame.

  The connection-scoped fields are \<open>dispatcher\<close>; the per-frame fields, fresh in every clone
  \<^verbatim>\<open>forFrame\<close> returns, are \<open>chain\<close>. A handler takes the message and the session and yields
  whether the connection goes on and the new state; \<open>None\<close> is a panic. \<open>ds_k\<close> is the state of the machine
  the server runs on, its files above all.
\<close>

record dispatcher =
  d_host :: host_ref
  d_Shares :: "ShareConfig list"
  d_RequireEncryption :: bool
  d_RequireSigning :: bool
  d_SigningAlgo :: u16
  d_Cipher :: u16
  d_MaxIOSize :: u32
  d_Dialect :: u16
  d_ServerGuid :: bytes
  d_NegotiatedCapabilities :: u32
  d_NegotiatedSecurityMode :: u16

record pendingMsg =
  pm_buf :: bytes
  pm_sess :: "sess_ref option"
  pm_encrypt :: bool

record chain =
  ch_LastCreatedFileID :: bytes
  ch_HasLastCreated :: bool
  ch_lastChainStatus :: Status
  ch_encryptChain :: bool
  ch_pending :: "pendingMsg list"

datatype handle_lock = NoLock | SharedLock open_ref | ExclusiveLock open_ref

text \<open>\<open>ds_held\<close> is the per-handle lock the message being served holds.\<close>

record 'k dstate =
  ds_sv :: server
  ds_chain :: chain
  ds_held :: handle_lock
  ds_k :: 'k

type_synonym 'k handler = "header \<Rightarrow> bytes \<Rightarrow> sess_ref \<Rightarrow> 'k dstate \<Rightarrow> (bool \<times> 'k dstate) option"

abbreviation ds_session :: "'k dstate \<Rightarrow> sess_ref \<Rightarrow> Session" where
  "ds_session ds r \<equiv> sv_sess (ds_sv ds) r"

definition forFrame :: "bool \<Rightarrow> chain" where
  "forFrame encrypted =
     \<lparr>ch_LastCreatedFileID = zeros 16, ch_HasLastCreated = False, ch_lastChainStatus = StatusSuccess,
      ch_encryptChain = encrypted, ch_pending = []\<rparr>"

definition willEncryptResponse :: "dispatcher \<Rightarrow> sess_ref option \<Rightarrow> 'k dstate \<Rightarrow> bool" where
  "willEncryptResponse d sess ds =
     (case sess of None \<Rightarrow> False
      | Some r \<Rightarrow> length (s_S2CCipherKey (ds_session ds r)) > 0 \<and> d_Cipher d \<noteq> 0
          \<and> (s_gotEncrypted (ds_session ds r) \<or> ch_encryptChain (ds_chain ds)))"

definition emit :: "dispatcher \<Rightarrow> sess_ref option \<Rightarrow> bytes \<Rightarrow> 'k dstate \<Rightarrow> 'k dstate" where
  "emit d sess buf ds =
     ds\<lparr>ds_chain := (ds_chain ds)\<lparr>ch_pending := ch_pending (ds_chain ds) @
          [\<lparr>pm_buf = buf, pm_sess = sess, pm_encrypt = willEncryptResponse d sess ds\<rparr>]\<rparr>\<rparr>"

definition response_header :: "header \<Rightarrow> Status \<Rightarrow> header" where
  "response_header reqHdr status =
     \<lparr>h_CreditCharge = h_CreditCharge reqHdr, h_Status = status_code status, h_Command = h_Command reqHdr,
      h_CreditResponse = grantCredits (h_CreditCharge reqHdr) (h_CreditResponse reqHdr),
      h_Flags = FlagServerToRedir, h_NextCommand = 0, h_MessageID = h_MessageID reqHdr,
      h_TreeID = h_TreeID reqHdr, h_SessionID = h_SessionID reqHdr, h_Signature = zeros 16\<rparr>"

text \<open>Four bytes of room for the frame header, the encoded header, the body.\<close>

definition buildResponse :: "header \<Rightarrow> Status \<Rightarrow> bytes \<Rightarrow> bytes option" where
  "buildResponse reqHdr status body =
     (case EncodeHeader (zeros HeaderSize) (response_header reqHdr status) of
        None \<Rightarrow> None
      | Some (Inl _) \<Rightarrow> Some (zeros 4 @ zeros HeaderSize @ body)
      | Some (Inr h) \<Rightarrow> Some (zeros 4 @ h @ body))"

definition set_status :: "Status \<Rightarrow> 'k dstate \<Rightarrow> 'k dstate" where
  "set_status status ds = ds\<lparr>ds_chain := (ds_chain ds)\<lparr>ch_lastChainStatus := status\<rparr>\<rparr>"

definition respond :: "dispatcher \<Rightarrow> header \<Rightarrow> sess_ref option \<Rightarrow> Status \<Rightarrow> bytes \<Rightarrow> 'k dstate \<Rightarrow> 'k dstate option" where
  "respond d hdr sess status body ds =
     map_option (\<lambda>buf. emit d sess buf (set_status status ds)) (buildResponse hdr status body)"

definition respondSuccess :: "dispatcher \<Rightarrow> header \<Rightarrow> sess_ref option \<Rightarrow> bytes \<Rightarrow> 'k dstate \<Rightarrow> 'k dstate option" where
  "respondSuccess d hdr sess body ds = respond d hdr sess StatusSuccess body ds"

definition errBody :: bytes where
  "errBody = [0x09, 0x00, 0x00, 0x00, 0x00, 0x00, 0x00, 0x00, 0x00]"

definition respondError :: "dispatcher \<Rightarrow> header \<Rightarrow> Status \<Rightarrow> sess_ref option \<Rightarrow> 'k dstate \<Rightarrow> 'k dstate option" where
  "respondError d hdr status sess ds = respond d hdr sess status errBody ds"

definition respondSuccessWithTreeID :: "dispatcher \<Rightarrow> header \<Rightarrow> sess_ref option \<Rightarrow> bytes \<Rightarrow> u32 \<Rightarrow> 'k dstate \<Rightarrow> 'k dstate option" where
  "respondSuccessWithTreeID d hdr sess body treeID ds =
     respond d (hdr\<lparr>h_TreeID := treeID\<rparr>) sess StatusSuccess body ds"

text \<open>Answer and keep the connection; answer and drop it.\<close>

abbreviation keep :: "'k dstate option \<Rightarrow> (bool \<times> 'k dstate) option" where
  "keep r \<equiv> map_option (Pair True) r"

abbreviation drop_conn :: "'k dstate option \<Rightarrow> (bool \<times> 'k dstate) option" where
  "drop_conn r \<equiv> map_option (Pair False) r"

section \<open>Every request that is answered gets one decodable response\<close>

definition answered :: "header \<Rightarrow> Status \<Rightarrow> sess_ref option \<Rightarrow> bytes \<Rightarrow> 'k dstate \<Rightarrow> 'k dstate \<Rightarrow> bool" where
  "answered hdr status sess body ds ds' \<longleftrightarrow>
     (\<exists>msg. ch_pending (ds_chain ds') = ch_pending (ds_chain ds) @ [msg] \<and> pm_sess msg = sess
        \<and> DecodeHeader (drop 4 (pm_buf msg)) = Some (Inr (response_header hdr status))
        \<and> drop 68 (pm_buf msg) = body)
     \<and> ds_sv ds' = ds_sv ds \<and> ds_held ds' = ds_held ds \<and> ds_k ds' = ds_k ds \<and> ch_lastChainStatus (ds_chain ds') = status
     \<and> ch_LastCreatedFileID (ds_chain ds') = ch_LastCreatedFileID (ds_chain ds)
     \<and> ch_HasLastCreated (ds_chain ds') = ch_HasLastCreated (ds_chain ds)
     \<and> ch_encryptChain (ds_chain ds') = ch_encryptChain (ds_chain ds)"

lemma wf_response_header [simp]: "wf_header (response_header hdr status)"
  by (simp add: wf_header_def response_header_def)

lemma DecodeHeader_append: "64 \<le> length h \<Longrightarrow> DecodeHeader (h @ x) = DecodeHeader h"
proof -
  assume len: "64 \<le> length h"
  then have "h \<noteq> []" by auto
  with len show ?thesis by (simp add: DecodeHeader_def go_panic nth_append)
qed

lemma buildResponse_decodes:
  obtains buf where "buildResponse hdr status body = Some buf" "length buf = 68 + length body"
    "DecodeHeader (drop 4 buf) = Some (Inr (response_header hdr status))" "drop 68 buf = body"
proof -
  obtain h where h: "EncodeHeader (zeros HeaderSize) (response_header hdr status) = Some (Inr h)"
    "DecodeHeader h = Some (Inr (response_header hdr status))" "length h = 64"
    by (rule EncodeHeader_roundtrip [of "zeros HeaderSize" "response_header hdr status"]) auto
  have "DecodeHeader (h @ body) = Some (Inr (response_header hdr status))"
    using h by (simp add: DecodeHeader_append)
  with h show ?thesis by (intro that [of "zeros 4 @ h @ body"]) (simp_all add: buildResponse_def)
qed

lemma respond_answered: "\<exists>ds'. respond d hdr sess status body ds = Some ds' \<and> answered hdr status sess body ds ds'"
proof -
  obtain buf where buf: "buildResponse hdr status body = Some buf"
    "DecodeHeader (drop 4 buf) = Some (Inr (response_header hdr status))" "drop 68 buf = body"
    by (rule buildResponse_decodes)
  then show ?thesis
    by (auto simp: respond_def answered_def emit_def set_status_def)
qed

end
