(* ===== verification/Tree_Connect.thy ===== *)
theory Tree_Connect
  imports Responses Vfs_Path
begin

text \<open>
  TREE_CONNECT and share visibility (\<^verbatim>\<open>handleTreeConnect\<close>, \<^verbatim>\<open>shareAllowed\<close> and
  \<^verbatim>\<open>visibleShares\<close> of \<^verbatim>\<open>internal/parent/dispatch.go\<close>). The list a client can enumerate and the
  shares it can connect to are computed by two pieces of code that must apply the same rules.
\<close>

definition maxTreesPerSession :: nat where
  "maxTreesPerSession = 256"

abbreviation (input) star_name :: gostring where "star_name \<equiv> [0x2A]"

definition ipc_name :: gostring where
  "ipc_name = [0x49, 0x50, 0x43, 0x24]"

fun shareAllowed :: "(gostring \<Rightarrow> gostring \<Rightarrow> bool) \<Rightarrow> gostring list \<Rightarrow> gostring \<Rightarrow> bool" where
  "shareAllowed equalFold [] shareName = False"
| "shareAllowed equalFold (a # as) shareName =
     (if a = star_name \<or> equalFold a shareName then True else shareAllowed equalFold as shareName)"

fun visible_of :: "(gostring \<Rightarrow> gostring \<Rightarrow> bool) \<Rightarrow> Session \<Rightarrow> ShareConfig list \<Rightarrow> ShareConfig list" where
  "visible_of equalFold s [] = []"
| "visible_of equalFold s (sh # shs) =
     (if s_IsGuest s then
        (if sc_GuestOK sh then sh # visible_of equalFold s shs else visible_of equalFold s shs)
      else if shareAllowed equalFold (s_AllowShares s) (sc_Name sh) then sh # visible_of equalFold s shs
      else visible_of equalFold s shs)"

definition visibleShares :: "(gostring \<Rightarrow> gostring \<Rightarrow> bool) \<Rightarrow> ShareConfig list \<Rightarrow> Session option \<Rightarrow> ShareConfig list" where
  "visibleShares equalFold shares sess = (case sess of None \<Rightarrow> [] | Some s \<Rightarrow> visible_of equalFold s shares)"

text \<open>The share name at the end of \<^verbatim>\<open>\\server\share\<close>, with either kind of slash.\<close>

definition path_share :: "gostring \<Rightarrow> gostring" where
  "path_share path = last (split_on 0x5C (map (\<lambda>b. if b = 0x2F then 0x5C else b) path))"

fun find_share :: "(gostring \<Rightarrow> gostring \<Rightarrow> bool) \<Rightarrow> ShareConfig list \<Rightarrow> gostring \<Rightarrow> ShareConfig option" where
  "find_share equalFold [] shareName = None"
| "find_share equalFold (sh # shs) shareName =
     (if equalFold (sc_Name sh) shareName then Some sh else find_share equalFold shs shareName)"

definition set_session :: "sess_ref \<Rightarrow> Session \<Rightarrow> 'k dstate \<Rightarrow> 'k dstate" where
  "set_session r s ds = ds\<lparr>ds_sv := (ds_sv ds)\<lparr>sv_sess := (sv_sess (ds_sv ds))(r := s)\<rparr>\<rparr>"

definition add_tree :: "dispatcher \<Rightarrow> header \<Rightarrow> sess_ref \<Rightarrow> ShareConfig \<Rightarrow> tree_connect_response \<Rightarrow> 'k dstate \<Rightarrow> 'k dstate option" where
  "add_tree d hdr r share resp ds =
     (case AddTree share (ds_session ds r) of (tree, s') \<Rightarrow>
        Option.bind (EncodeTreeConnectResponse resp) (\<lambda>body.
          respondSuccessWithTreeID d hdr (Some r) body (t_ID tree) (set_session r s' ds)))"

definition handleTreeConnect :: "(gostring \<Rightarrow> gostring \<Rightarrow> bool) \<Rightarrow> dispatcher \<Rightarrow> 'k handler" where
  "handleTreeConnect equalFold d hdr body r ds =
     (case DecodeTreeConnectRequest body of
        None \<Rightarrow> None
      | Some (Inl _) \<Rightarrow> keep (respondError d hdr StatusInvalidParameter (Some r) ds)
      | Some (Inr req) \<Rightarrow>
          let s = ds_session ds r in
          if TreeCount s \<ge> maxTreesPerSession
          then keep (respondError d hdr StatusInsufficientResources (Some r) ds)
          else let shareName = path_share (tcr_Path req) in
          if shareName = [] then keep (respondError d hdr StatusInvalidParameter (Some r) ds)
          else if equalFold shareName ipc_name then
            keep (add_tree d hdr r \<lparr>sc_Name = ipc_name, sc_Path = [], sc_ReadOnly = False, sc_GuestOK = False\<rparr>
              \<lparr>tcp_ShareType = 0x02, tcp_ShareFlags = 0, tcp_Capabilities = 0, tcp_MaximalAccess = 0x001F00A9\<rparr> ds)
          else case find_share equalFold (d_Shares d) shareName of
            None \<Rightarrow> keep (respondError d hdr StatusObjectNameNotFound (Some r) ds)
          | Some share \<Rightarrow>
              if s_IsGuest s \<and> \<not> sc_GuestOK share then keep (respondError d hdr StatusAccessDenied (Some r) ds)
              else if \<not> s_IsGuest s \<and> \<not> shareAllowed equalFold (s_AllowShares s) (sc_Name share)
              then keep (respondError d hdr StatusAccessDenied (Some r) ds)
              else
                let shareFlags = (if sc_ReadOnly share then 0x00000000 else 0x00000010);
                    shareFlags = (if d_RequireEncryption d then shareFlags OR 0x00008000 else shareFlags);
                    maximalAccess = (if sc_ReadOnly share then 0x001200A9 else 0x001F01FF)
                in keep (add_tree d hdr r share
                     \<lparr>tcp_ShareType = 0x01, tcp_ShareFlags = shareFlags, tcp_Capabilities = 0,
                      tcp_MaximalAccess = maximalAccess\<rparr> ds))"

section \<open>Visibility\<close>

definition may_mount :: "(gostring \<Rightarrow> gostring \<Rightarrow> bool) \<Rightarrow> Session \<Rightarrow> ShareConfig \<Rightarrow> bool" where
  "may_mount equalFold s sh \<longleftrightarrow>
     (if s_IsGuest s then sc_GuestOK sh
      else \<exists>a \<in> set (s_AllowShares s). a = star_name \<or> equalFold a (sc_Name sh))"

lemma shareAllowed_iff: "shareAllowed equalFold as n \<longleftrightarrow> (\<exists>a \<in> set as. a = star_name \<or> equalFold a n)"
  by (induction as) auto

lemma visible_of_filter: "visible_of equalFold s shs = filter (may_mount equalFold s) shs"
  by (induction shs) (auto simp: may_mount_def shareAllowed_iff)

lemma may_mount_code:
  "may_mount equalFold s sh = (if s_IsGuest s then sc_GuestOK sh else shareAllowed equalFold (s_AllowShares s) (sc_Name sh))"
  by (simp add: may_mount_def shareAllowed_iff)

lemma find_share_SomeD: "find_share equalFold shs n = Some sh \<Longrightarrow> sh \<in> set shs \<and> equalFold (sc_Name sh) n"
  by (induction shs) (auto split: if_splits)

lemma add_tree_answers:
  assumes "AddTree share (ds_session ds r) = (tree, s')"
  shows "\<exists>body ds'. add_tree d hdr r share resp ds = Some ds'
    \<and> EncodeTreeConnectResponse resp = Some body
    \<and> answered (hdr\<lparr>h_TreeID := t_ID tree\<rparr>) StatusSuccess (Some r) body (set_session r s' ds) ds'"
proof -
  obtain body where body: "EncodeTreeConnectResponse resp = Some body"
    by (simp add: EncodeTreeConnectResponse_def put_at_def)
  then show ?thesis
    using respond_answered [of d "hdr\<lparr>h_TreeID := t_ID tree\<rparr>" "Some r" StatusSuccess body "set_session r s' ds"]
    by (simp add: add_tree_def assms respondSuccessWithTreeID_def)
qed

text \<open>Every request but the one that mounts a share is refused without touching any state.\<close>

lemma refusal_answers:
  "\<exists>ds'. keep (respondError d hdr status (Some r) ds) = Some (True, ds') \<and> answered hdr status (Some r) errBody ds ds'"
  using respond_answered [of d hdr "Some r" status errBody ds] by (auto simp: respondError_def)

text \<open>A client can mount exactly the shares it can see. A TREE_CONNECT that names a configured share
  (the first whose name matches, IPC$ aside) adds a tree for that very share, with a fresh tree id in
  the response, when the share is in the list the session is shown on enumeration; otherwise the
  answer is ACCESS_DENIED and nothing changes. A name that matches no share is not found, and at the
  limit of 256 trees every request is refused; a guest never mounts a share that is not open to guests.\<close>

theorem mountable_is_visible:
  assumes decoded: "DecodeTreeConnectRequest body = Some (Inr req)"
    and name: "path_share (tcr_Path req) = n" "n \<noteq> []" "\<not> equalFold n ipc_name"
  shows "\<exists>ds'. handleTreeConnect equalFold d hdr body r ds = Some (True, ds') \<and>
    (if TreeCount (ds_session ds r) \<ge> 256 then answered hdr StatusInsufficientResources (Some r) errBody ds ds'
     else case find_share equalFold (d_Shares d) n of
       None \<Rightarrow> answered hdr StatusObjectNameNotFound (Some r) errBody ds ds'
     | Some sh \<Rightarrow>
         if sh \<in> set (visibleShares equalFold (d_Shares d) (Some (ds_session ds r)))
         then (\<exists>tree s' resp. AddTree sh (ds_session ds r) = (tree, s') \<and> t_Share tree = sh
                 \<and> answered (hdr\<lparr>h_TreeID := t_ID tree\<rparr>) StatusSuccess (Some r) resp (set_session r s' ds) ds')
         else answered hdr StatusAccessDenied (Some r) errBody ds ds')"
proof (cases "TreeCount (ds_session ds r) \<ge> 256")
  case True
  then show ?thesis
    using refusal_answers [of d hdr StatusInsufficientResources r ds]
    by (simp add: handleTreeConnect_def decoded maxTreesPerSession_def)
next
  case few: False
  let ?s = "ds_session ds r"
  show ?thesis
  proof (cases "find_share equalFold (d_Shares d) n")
    case None
    with few show ?thesis
      using refusal_answers [of d hdr StatusObjectNameNotFound r ds] name
      by (simp add: handleTreeConnect_def decoded maxTreesPerSession_def Let_def)
  next
    case (Some sh)
    then have visible: "sh \<in> set (visibleShares equalFold (d_Shares d) (Some ?s)) \<longleftrightarrow> may_mount equalFold ?s sh"
      by (auto simp: visibleShares_def visible_of_filter dest: find_share_SomeD)
    show ?thesis
    proof (cases "may_mount equalFold ?s sh")
      case True
      obtain tree s' where tree: "AddTree sh ?s = (tree, s')" "t_Share tree = sh"
        by (simp add: AddTree_def Let_def)
      define resp where "resp = \<lparr>tcp_ShareType = 0x01,
          tcp_ShareFlags = (let f = (if sc_ReadOnly sh then 0x00000000 else 0x00000010)
                            in if d_RequireEncryption d then f OR 0x00008000 else f),
          tcp_Capabilities = 0, tcp_MaximalAccess = (if sc_ReadOnly sh then 0x001200A9 else 0x001F01FF)\<rparr>"
      have "handleTreeConnect equalFold d hdr body r ds = keep (add_tree d hdr r sh resp ds)"
        using few name Some True
        by (simp add: handleTreeConnect_def decoded maxTreesPerSession_def Let_def may_mount_code resp_def
            split: if_splits)
      then show ?thesis
        using add_tree_answers [OF tree(1), of d hdr resp] few Some True tree visible by auto
    next
      case False
      have "handleTreeConnect equalFold d hdr body r ds = keep (respondError d hdr StatusAccessDenied (Some r) ds)"
        using few name Some False
        by (auto simp: handleTreeConnect_def decoded maxTreesPerSession_def Let_def may_mount_code
            split: if_splits)
      with few Some False visible refusal_answers [of d hdr StatusAccessDenied r ds] show ?thesis by simp
    qed
  qed
qed

abbreviation wshare :: ShareConfig where
  "wshare \<equiv> \<lparr>sc_Name = [0x64], sc_Path = [0x2F, 0x64], sc_ReadOnly = False, sc_GuestOK = False\<rparr>"

definition wsession :: Session where
  "wsession = \<lparr>s_ID = 7, s_UserName = [0x75], s_AllowShares = [[0x2A]], s_IsGuest = False, s_SigningKey = zeros 16,
     s_S2CCipherKey = [], s_C2SCipherKey = [], s_Authenticated = True, s_gotEncrypted = False,
     s_trees = [], s_opens = [], s_dead = False, s_nextTreeID = 1\<rparr>"

definition wserver :: server where
  "wserver = \<lparr>sv_sess = (\<lambda>_. wsession), sv_tables = (\<lambda>_. \<lparr>st_byID = [(7, 0)], st_halfOpen = []\<rparr>), sv_guid = (\<lambda>_. []),
     sv_index = [], sv_handles = \<lparr>hs_opens = (\<lambda>_. undefined), hs_locks = newLockTable, hs_shares = newShareModeTable, hs_closed = []\<rparr>,
     sv_durable = None, sv_resume = (\<lambda>_. newResumeKeyTable), sv_async = (\<lambda>_. newAsyncTable)\<rparr>"

abbreviation wdstate :: "unit dstate" where
  "wdstate \<equiv> \<lparr>ds_sv = wserver, ds_chain = forFrame False, ds_held = NoLock, ds_k = ()\<rparr>"

abbreviation wdispatcher :: dispatcher where
  "wdispatcher \<equiv> \<lparr>d_host = 0, d_Shares = [wshare], d_RequireEncryption = False, d_RequireSigning = False,
     d_SigningAlgo = 0, d_Cipher = 0, d_MaxIOSize = 0x800000,
     d_Dialect = 0x0311, d_ServerGuid = zeros 16, d_NegotiatedCapabilities = 0, d_NegotiatedSecurityMode = 1\<rparr>"

abbreviation wrequest :: "u16 \<Rightarrow> header" where
  "wrequest cmd \<equiv> \<lparr>h_CreditCharge = 1, h_Status = 0, h_Command = cmd, h_CreditResponse = 1, h_Flags = 0,
     h_NextCommand = 0, h_MessageID = 5, h_TreeID = 0, h_SessionID = 7, h_Signature = zeros 16\<rparr>"

end
