(* ===== verification/Dispatch.thy ===== *)
theory Dispatch
  imports Tree_Connect
begin

text \<open>
  \<^verbatim>\<open>Dispatch\<close> of \<^verbatim>\<open>internal/parent/dispatch.go\<close>: the gate every message passes (session, security
  policy, signature), the rules for members of a compound chain, the per-handle lock and the routing
  to a handler. The handlers that serve file data (CREATE, CLOSE, FLUSH, READ, WRITE, LOCK, IOCTL,
  QUERY_DIRECTORY, CHANGE_NOTIFY, QUERY_INFO, SET_INFO) are the argument \<open>fh\<close>, a handler per command
  code: what is shown of the gate holds whatever they do.
\<close>

definition encryptionExempt :: "u16 \<Rightarrow> bool" where
  "encryptionExempt cmd \<longleftrightarrow> cmd \<in> {CommandTreeConnect, CommandTreeDisconnect, CommandLogoff, CommandEcho,
     CommandCancel, CommandOplockBreak}"

definition previousHandleFileID :: bytes where
  "previousHandleFileID = replicate 16 0xFF"

definition fileIDOffsetInBody :: "u16 \<Rightarrow> nat option" where
  "fileIDOffsetInBody cmd =
     (if cmd \<in> {CommandClose, CommandFlush, CommandIoctl, CommandLock} then Some 8
      else if cmd \<in> {CommandRead, CommandWrite, CommandSetInfo} then Some 16
      else if cmd = CommandQueryInfo then Some 24
      else if cmd \<in> {CommandQueryDirectory, CommandChangeNotify} then Some 8
      else None)"

text \<open>The sixteen bytes where the command keeps its FileID, when the body is long enough.\<close>

definition body_fileID :: "u16 \<Rightarrow> bytes \<Rightarrow> bytes option" where
  "body_fileID cmd body =
     (case fileIDOffsetInBody cmd of
        None \<Rightarrow> None
      | Some off \<Rightarrow> if length body < off + 16 then None else Some (take 16 (drop off body)))"

definition hasPreviousHandleSentinel :: "u16 \<Rightarrow> bytes \<Rightarrow> bool" where
  "hasPreviousHandleSentinel cmd body = (body_fileID cmd body = Some previousHandleFileID)"

definition SubstitutePreviousHandleFileID :: "chain \<Rightarrow> u16 \<Rightarrow> bytes \<Rightarrow> bytes" where
  "SubstitutePreviousHandleFileID ch cmd body =
     (if \<not> ch_HasLastCreated ch then body
      else case fileIDOffsetInBody cmd of
        None \<Rightarrow> body
      | Some off \<Rightarrow>
          if length body < off + 16 then body
          else if take 16 (drop off body) = previousHandleFileID then patch off (ch_LastCreatedFileID ch) body
          else body)"

definition lockOpenForMessage :: "(open_ref \<Rightarrow> Open) \<Rightarrow> Session \<Rightarrow> u16 \<Rightarrow> bytes \<Rightarrow> handle_lock" where
  "lockOpenForMessage heap s cmd body =
     (case body_fileID cmd body of
        None \<Rightarrow> NoLock
      | Some fid \<Rightarrow>
          (case GetOpen fid s of
             None \<Rightarrow> NoLock
           | Some h \<Rightarrow>
               if (cmd = CommandRead \<or> cmd = CommandWrite) \<and> \<not> o_IsDir (heap h) \<and> \<not> o_IsPipe (heap h) \<and> \<not> o_IsStream (heap h)
               then SharedLock h else ExclusiveLock h))"

section \<open>The gate\<close>

datatype verdict = Admit | Deny bool

text \<open>The server's security policy on one message: \<open>Deny True\<close> answers and goes on, \<open>Deny False\<close>
  answers and drops the connection; \<open>None\<close> is a panic of the signature check.\<close>

definition policy_check :: "crypto \<Rightarrow> dispatcher \<Rightarrow> Session \<Rightarrow> bool \<Rightarrow> header \<Rightarrow> bytes \<Rightarrow> verdict option" where
  "policy_check cr d s encrypted hdr frame =
     (if \<not> s_IsGuest s \<and> length (s_SigningKey s) > 0 then
        if d_RequireEncryption d \<and> \<not> encrypted \<and> \<not> encryptionExempt (h_Command hdr) then Some (Deny True)
        else if \<not> encrypted \<and> (d_RequireSigning d \<or> h_Flags hdr AND FlagSigned \<noteq> 0) then
          if h_Flags hdr AND FlagSigned = 0 then Some (Deny False)
          else (case VerifyMessage cr (d_SigningAlgo d) (s_SigningKey s) frame of
                  None \<Rightarrow> None
                | Some (ok, _) \<Rightarrow> Some (if ok then Admit else Deny False))
        else Some Admit
      else Some Admit)"

text \<open>Members of a related chain: either inherit the status of the previous member, or run with the
  sentinel FileID replaced.\<close>

definition related_step :: "header \<Rightarrow> bytes \<Rightarrow> chain \<Rightarrow> Status + bytes \<times> chain" where
  "related_step hdr body ch =
     (if h_Flags hdr AND FlagRelatedOps \<noteq> 0 then
        let sentinel = hasPreviousHandleSentinel (h_Command hdr) body;
            closesLiveHandle = (sentinel \<and> ch_HasLastCreated ch \<and> h_Command hdr = CommandClose)
        in if sentinel \<and> ch_lastChainStatus ch \<noteq> StatusSuccess \<and> \<not> closesLiveHandle
           then Inl (ch_lastChainStatus ch)
           else Inr (SubstitutePreviousHandleFileID ch (h_Command hdr) body,
                     if closesLiveHandle then ch\<lparr>ch_HasLastCreated := False\<rparr> else ch)
      else Inr (body, ch))"

definition with_sv :: "(server \<Rightarrow> server) \<Rightarrow> 'k dstate \<Rightarrow> 'k dstate" where
  "with_sv f ds = ds\<lparr>ds_sv := f (ds_sv ds)\<rparr>"

definition route :: "(gostring \<Rightarrow> gostring \<Rightarrow> bool) \<Rightarrow> key_for \<Rightarrow> (u16 \<Rightarrow> 'k handler) \<Rightarrow> dispatcher \<Rightarrow> 'k handler" where
  "route equalFold fstat fh d hdr body r ds =
     (let cmd = h_Command hdr in
      if cmd = CommandTreeConnect then handleTreeConnect equalFold d hdr body r ds
      else if cmd = CommandTreeDisconnect then
        (case handleTreeDisconnect fstat (d_host d) r (h_TreeID hdr) body (ds_sv ds) of
           None \<Rightarrow> None
         | Some (status, sv') \<Rightarrow>
             if status = StatusSuccess
             then keep (respondSuccess d hdr (Some r) EncodeTreeDisconnectResponse (ds\<lparr>ds_sv := sv'\<rparr>))
             else keep (respondError d hdr status (Some r) (ds\<lparr>ds_sv := sv'\<rparr>)))
      else if cmd = CommandLogoff then
        (case handleLogoff fstat (d_host d) r (ds_sv ds) of (status, sv') \<Rightarrow>
           keep (respondSuccess d hdr (Some r) [0x04, 0x00, 0x00, 0x00] (ds\<lparr>ds_sv := sv'\<rparr>)))
      else if cmd = CommandEcho then keep (respondSuccess d hdr (Some r) [0x04, 0x00, 0x00, 0x00] ds)
      else if cmd = CommandCancel then
        Some (True, with_sv (\<lambda>sv. sv\<lparr>sv_async := (sv_async sv)(d_host d :=
          snd (cancelNotify (h_MessageID hdr) StatusCancelled (sv_async sv (d_host d))))\<rparr>) ds)
      else if cmd = CommandOplockBreak then keep (respondError d hdr StatusInvalidOplockProtocol (Some r) ds)
      else if cmd \<in> {CommandCreate, CommandRead, CommandWrite, CommandFlush, CommandSetInfo, CommandClose,
          CommandQueryDirectory, CommandQueryInfo, CommandIoctl, CommandChangeNotify, CommandLock}
      then fh cmd hdr body r ds
      else keep (respondError d hdr StatusNotSupported (Some r) ds))"

definition Dispatch :: "crypto \<Rightarrow> (gostring \<Rightarrow> gostring \<Rightarrow> bool) \<Rightarrow> key_for \<Rightarrow> (u16 \<Rightarrow> 'k handler) \<Rightarrow> dispatcher
    \<Rightarrow> header \<Rightarrow> bytes \<Rightarrow> bytes \<Rightarrow> 'k dstate \<Rightarrow> (bool \<times> 'k dstate) option" where
  "Dispatch cr equalFold fstat fh d hdr body frame ds =
     (case st_Get (h_SessionID hdr) (sv_tables (ds_sv ds) (d_host d)) of
        None \<Rightarrow> drop_conn (respondError d hdr StatusUserSessionDeleted None ds)
      | Some r \<Rightarrow>
          let s = ds_session ds r in
          if \<not> s_Authenticated s then drop_conn (respondError d hdr StatusAccessDenied None ds)
          else case policy_check cr d s (ch_encryptChain (ds_chain ds)) hdr frame of
            None \<Rightarrow> None
          | Some (Deny go_on) \<Rightarrow> map_option (Pair go_on) (respondError d hdr StatusAccessDenied (Some r) ds)
          | Some Admit \<Rightarrow>
              (case related_step hdr body (ds_chain ds) of
                 Inl status \<Rightarrow> keep (respondError d hdr status (Some r) ds)
               | Inr (body', ch') \<Rightarrow>
                   map_option (\<lambda>(go_on, ds'). (go_on, ds'\<lparr>ds_held := NoLock\<rparr>))
                     (route equalFold fstat fh d hdr body' r
                        (ds\<lparr>ds_chain := ch', ds_held := lockOpenForMessage (hs_opens (sv_handles (ds_sv ds))) s (h_Command hdr) body'\<rparr>))))"

section \<open>The policy\<close>

text \<open>What the server's settings demand of a message on session \<open>s\<close>.\<close>

definition policy_met :: "crypto \<Rightarrow> dispatcher \<Rightarrow> Session \<Rightarrow> bool \<Rightarrow> header \<Rightarrow> bytes \<Rightarrow> bool" where
  "policy_met cr d s encrypted hdr frame \<longleftrightarrow>
     s_IsGuest s \<or> s_SigningKey s = [] \<or> encrypted
     \<or> (d_RequireEncryption d \<longrightarrow> encryptionExempt (h_Command hdr))
       \<and> (d_RequireSigning d \<longrightarrow> h_Flags hdr AND FlagSigned \<noteq> 0)
       \<and> (h_Flags hdr AND FlagSigned \<noteq> 0 \<longrightarrow>
            (\<exists>left. VerifyMessage cr (d_SigningAlgo d) (s_SigningKey s) frame = Some (True, left)))"

definition admitted :: "crypto \<Rightarrow> dispatcher \<Rightarrow> header \<Rightarrow> bytes \<Rightarrow> 'k dstate \<Rightarrow> sess_ref \<Rightarrow> bool" where
  "admitted cr d hdr frame ds r \<longleftrightarrow>
     st_Get (h_SessionID hdr) (sv_tables (ds_sv ds) (d_host d)) = Some r \<and> s_Authenticated (ds_session ds r)
     \<and> policy_met cr d (ds_session ds r) (ch_encryptChain (ds_chain ds)) hdr frame"

text \<open>What \<open>Dispatch\<close> does with a message it lets in.\<close>

definition serve_message :: "(gostring \<Rightarrow> gostring \<Rightarrow> bool) \<Rightarrow> key_for \<Rightarrow> (u16 \<Rightarrow> 'k handler) \<Rightarrow> dispatcher \<Rightarrow> 'k handler" where
  "serve_message equalFold fstat fh d hdr body r ds =
     (case related_step hdr body (ds_chain ds) of
        Inl status \<Rightarrow> keep (respondError d hdr status (Some r) ds)
      | Inr (body', ch') \<Rightarrow>
          map_option (\<lambda>(go_on, ds'). (go_on, ds'\<lparr>ds_held := NoLock\<rparr>))
            (route equalFold fstat fh d hdr body' r
               (ds\<lparr>ds_chain := ch', ds_held := lockOpenForMessage (hs_opens (sv_handles (ds_sv ds))) (ds_session ds r) (h_Command hdr) body'\<rparr>)))"

lemma policy_check_Admit:
  "policy_check cr d s encrypted hdr frame = Some Admit \<longleftrightarrow> policy_met cr d s encrypted hdr frame"
  by (auto simp: policy_check_def policy_met_def split: if_splits option.splits)

lemma policy_check_Deny_True:
  "policy_check cr d s encrypted hdr frame = Some (Deny True) \<Longrightarrow>
     d_RequireEncryption d \<and> \<not> encrypted \<and> \<not> encryptionExempt (h_Command hdr)"
  by (auto simp: policy_check_def split: if_splits option.splits)

lemma Dispatch_admitted:
  "admitted cr d hdr frame ds r \<Longrightarrow>
     Dispatch cr equalFold fstat fh d hdr body frame ds = serve_message equalFold fstat fh d hdr body r ds"
  using policy_check_Admit [of cr d "ds_session ds r" "ch_encryptChain (ds_chain ds)" hdr frame]
  by (simp add: admitted_def Dispatch_def serve_message_def)

text \<open>What a refusal looks like.\<close>

lemma gate_refuses:
  assumes "\<forall>r. \<not> admitted cr d hdr frame ds r"
    and "Dispatch cr equalFold fstat fh d hdr body frame ds = Some (go_on, ds')"
  shows "\<exists>status sess. answered hdr status sess errBody ds ds' \<and> status \<in> {StatusUserSessionDeleted, StatusAccessDenied}
    \<and> ds_sv ds' = ds_sv ds
    \<and> (go_on \<longrightarrow> d_RequireEncryption d \<and> \<not> ch_encryptChain (ds_chain ds) \<and> \<not> encryptionExempt (h_Command hdr))"
proof -
  have ans: "\<exists>sess. answered hdr status sess errBody ds ds' \<and> ds_sv ds' = ds_sv ds"
    if "respondError d hdr status sess ds = Some ds'" for status sess
    using that respond_answered [of d hdr sess status errBody ds] by (auto simp: respondError_def answered_def)
  consider (unknown) "go_on = False" "respondError d hdr StatusUserSessionDeleted None ds = Some ds'"
    | (unauth) "go_on = False" "respondError d hdr StatusAccessDenied None ds = Some ds'"
    | (denied) r where "policy_check cr d (ds_session ds r) (ch_encryptChain (ds_chain ds)) hdr frame = Some (Deny go_on)"
        "respondError d hdr StatusAccessDenied (Some r) ds = Some ds'"
    using assms policy_check_Admit
    by (fastforce simp: Dispatch_def admitted_def Let_def split: option.splits if_splits verdict.splits)
  then show ?thesis
  proof cases
    case unknown
    then show ?thesis using ans by blast
  next
    case unauth
    then show ?thesis using ans by blast
  next
    case denied
    from ans [OF denied(2)] obtain sess where "answered hdr StatusAccessDenied sess errBody ds ds'" "ds_sv ds' = ds_sv ds"
      by blast
    moreover have "go_on \<longrightarrow> d_RequireEncryption d \<and> \<not> ch_encryptChain (ds_chain ds) \<and> \<not> encryptionExempt (h_Command hdr)"
      using policy_check_Deny_True [of cr d "ds_session ds r" "ch_encryptChain (ds_chain ds)" hdr frame] denied(1) by auto
    ultimately show ?thesis by blast
  qed
qed

text \<open>C13: The gate admits exactly the messages the server's policy allows. A message is admitted when the session its
  header names is known on this connection, has finished authentication, and the message meets what the settings
  demand (encryption of anything that can carry data, a valid signature where signing is required or claimed).
  An admitted message is handed to the handler stage: the rules of a related chain, then the handler of its command
  while the lock of its handle is held. For any other message, whatever the handlers are, the server state is
  untouched, the client gets exactly one error response, and the connection is dropped except for a message
  that only lacked encryption.\<close>

theorem policy_is_enforced:
  assumes "Dispatch cr equalFold fstat fh d hdr body frame ds = Some (go_on, ds')"
  shows "(\<forall>r. admitted cr d hdr frame ds r \<longrightarrow> serve_message equalFold fstat fh d hdr body r ds = Some (go_on, ds'))
    \<and> ((\<forall>r. \<not> admitted cr d hdr frame ds r) \<longrightarrow>
        (\<exists>status sess. answered hdr status sess errBody ds ds' \<and> status \<in> {StatusUserSessionDeleted, StatusAccessDenied}
          \<and> ds_sv ds' = ds_sv ds
          \<and> (go_on \<longrightarrow> d_RequireEncryption d \<and> \<not> ch_encryptChain (ds_chain ds) \<and> \<not> encryptionExempt (h_Command hdr))))"
  using gate_refuses [OF _ assms] Dispatch_admitted [of cr d hdr frame ds _ equalFold fstat fh body] assms by simp

section \<open>Chains\<close>

lemma body_fileID_substituted:
  assumes "body_fileID cmd body = Some previousHandleFileID" and "ch_HasLastCreated ch"
    and "length (ch_LastCreatedFileID ch) = 16"
  shows "body_fileID cmd (SubstitutePreviousHandleFileID ch cmd body) = Some (ch_LastCreatedFileID ch)"
  using assms
  by (auto simp: body_fileID_def SubstitutePreviousHandleFileID_def byte_layout split: option.splits if_splits)

text \<open>C26: A handle opened by a compound chain is closed by the chain. When a related CLOSE names the
  handle of the preceding CREATE by the all-ones FileID, the close handler runs on that very handle
  even if a member in between failed, and it runs with the chain's handle consumed, so that a later
  member cannot name it again. Any other related member that uses the all-ones FileID after a failure
  is answered with the status of the failure and changes nothing.\<close>

theorem chain_closes_its_handle:
  assumes adm: "admitted cr d hdr frame ds r" and rel: "h_Flags hdr AND FlagRelatedOps \<noteq> 0"
    and sentinel: "body_fileID (h_Command hdr) body = Some previousHandleFileID"
    and fid: "length (ch_LastCreatedFileID (ds_chain ds)) = 16"
  shows "(h_Command hdr = CommandClose \<and> ch_HasLastCreated (ds_chain ds) \<longrightarrow>
            (\<exists>body' ds1. Dispatch cr equalFold fstat fh d hdr body frame ds
                = map_option (\<lambda>(go_on, ds'). (go_on, ds'\<lparr>ds_held := NoLock\<rparr>)) (fh CommandClose hdr body' r ds1)
              \<and> body_fileID CommandClose body' = Some (ch_LastCreatedFileID (ds_chain ds))
              \<and> ds_sv ds1 = ds_sv ds \<and> ds_chain ds1 = (ds_chain ds)\<lparr>ch_HasLastCreated := False\<rparr>))
    \<and> (ch_lastChainStatus (ds_chain ds) \<noteq> StatusSuccess \<and> \<not> (h_Command hdr = CommandClose \<and> ch_HasLastCreated (ds_chain ds)) \<longrightarrow>
            (\<exists>ds'. Dispatch cr equalFold fstat fh d hdr body frame ds = Some (True, ds')
              \<and> answered hdr (ch_lastChainStatus (ds_chain ds)) (Some r) errBody ds ds'))"
proof (intro conjI impI, goal_cases)
  case 1
  let ?ch = "ds_chain ds"
  let ?body = "SubstitutePreviousHandleFileID ?ch CommandClose body"
  have step: "related_step hdr body ?ch = Inr (?body, ?ch\<lparr>ch_HasLastCreated := False\<rparr>)"
    using 1 rel sentinel by (simp add: related_step_def hasPreviousHandleSentinel_def)
  have "body_fileID CommandClose ?body = Some (ch_LastCreatedFileID ?ch)"
    using 1 sentinel fid by (intro body_fileID_substituted) simp_all
  then show ?case
    using 1 unfolding Dispatch_admitted [OF adm] serve_message_def step
    by (intro exI [of _ ?body] exI [of _ "ds\<lparr>ds_chain := ?ch\<lparr>ch_HasLastCreated := False\<rparr>,
        ds_held := lockOpenForMessage (hs_opens (sv_handles (ds_sv ds))) (ds_session ds r) CommandClose ?body\<rparr>"])
      (simp add: route_def)
next
  case 2
  then have "related_step hdr body (ds_chain ds) = Inl (ch_lastChainStatus (ds_chain ds))"
    using rel sentinel by (auto simp: related_step_def hasPreviousHandleSentinel_def)
  then show ?case
    unfolding Dispatch_admitted [OF adm] serve_message_def
    using refusal_answers [of d hdr "ch_lastChainStatus (ds_chain ds)" r ds] by simp
qed

section \<open>The handle a message holds\<close>

definition lock_for :: "(open_ref \<Rightarrow> Open) \<Rightarrow> Session \<Rightarrow> bytes \<Rightarrow> bool \<Rightarrow> handle_lock" where
  "lock_for heap s fid io =
     (case GetOpen fid s of
        None \<Rightarrow> NoLock
      | Some h \<Rightarrow> if io \<and> \<not> o_IsDir (heap h) \<and> \<not> o_IsPipe (heap h) \<and> \<not> o_IsStream (heap h)
                  then SharedLock h else ExclusiveLock h)"

lemma lockOpenForMessage_fid:
  "body_fileID cmd body = Some fid \<Longrightarrow>
     lockOpenForMessage heap s cmd body = lock_for heap s fid (cmd = CommandRead \<or> cmd = CommandWrite)"
  by (simp add: lockOpenForMessage_def lock_for_def split: option.split)

lemmas decoder_defs = DecodeCloseRequest_def DecodeFlushRequest_def DecodeReadRequest_def DecodeWriteRequest_def
  DecodeLockRequest_def DecodeIoctlRequest_def DecodeQueryDirectoryRequest_def DecodeChangeNotifyRequest_def
  DecodeQueryInfoRequest_def DecodeSetInfoRequest_def

lemma decoded_fileID:
  "DecodeCloseRequest body = Some (Inr rc) \<Longrightarrow> body_fileID CommandClose body = Some (clq_FileID rc)"
  "DecodeFlushRequest body = Some (Inr fid) \<Longrightarrow> body_fileID CommandFlush body = Some fid"
  "DecodeReadRequest body = Some (Inr rr) \<Longrightarrow> body_fileID CommandRead body = Some (rd_FileID rr)"
  "DecodeWriteRequest body = Some (Inr rw) \<Longrightarrow> body_fileID CommandWrite body = Some (wr_FileID rw)"
  "DecodeLockRequest body = Some (Inr rl) \<Longrightarrow> body_fileID CommandLock body = Some (lr_FileID rl)"
  "DecodeIoctlRequest body = Some (Inr ri) \<Longrightarrow> body_fileID CommandIoctl body = Some (io_FileID ri)"
  "DecodeQueryDirectoryRequest body = Some (Inr rd) \<Longrightarrow> body_fileID CommandQueryDirectory body = Some (qd_FileID rd)"
  "DecodeChangeNotifyRequest body = Some (Inr rn) \<Longrightarrow> body_fileID CommandChangeNotify body = Some (cn_FileID rn)"
  "DecodeQueryInfoRequest body = Some (Inr rq) \<Longrightarrow> body_fileID CommandQueryInfo body = Some (qi_FileID rq)"
  "DecodeSetInfoRequest body = Some (Inr rs) \<Longrightarrow> body_fileID CommandSetInfo body = Some (si_FileID rs)"
  by (auto simp: decoder_defs body_fileID_def fileIDOffsetInBody_def go_panic ok_then_Inr
      split: if_splits option.splits sum.splits bind_splits)

text \<open>The FileID a file handler will look up: the one its own decoder reads.\<close>

definition of_request :: "('a \<Rightarrow> bytes) \<Rightarrow> (smb_err, 'a) decoded \<Rightarrow> bytes option" where
  "of_request fid r = (case r of Some (Inr req) \<Rightarrow> Some (fid req) | _ \<Rightarrow> None)"

definition request_fileID :: "u16 \<Rightarrow> bytes \<Rightarrow> bytes option" where
  "request_fileID cmd body =
     (if cmd = CommandClose then of_request clq_FileID (DecodeCloseRequest body)
      else if cmd = CommandFlush then of_request id (DecodeFlushRequest body)
      else if cmd = CommandRead then of_request rd_FileID (DecodeReadRequest body)
      else if cmd = CommandWrite then of_request wr_FileID (DecodeWriteRequest body)
      else if cmd = CommandLock then of_request lr_FileID (DecodeLockRequest body)
      else if cmd = CommandIoctl then of_request io_FileID (DecodeIoctlRequest body)
      else if cmd = CommandQueryDirectory then of_request qd_FileID (DecodeQueryDirectoryRequest body)
      else if cmd = CommandChangeNotify then of_request cn_FileID (DecodeChangeNotifyRequest body)
      else if cmd = CommandQueryInfo then of_request qi_FileID (DecodeQueryInfoRequest body)
      else if cmd = CommandSetInfo then of_request si_FileID (DecodeSetInfoRequest body)
      else None)"

lemma of_request_Some: "of_request fid r = Some x \<longleftrightarrow> (\<exists>req. r = Some (Inr req) \<and> x = fid req)"
  by (auto simp: of_request_def split: option.splits sum.splits)

lemma request_fileID_body: "request_fileID cmd body = Some fid \<Longrightarrow> body_fileID cmd body = Some fid"
  by (auto simp: request_fileID_def of_request_Some dest: decoded_fileID split: if_splits)

lemma request_fileID_commands:
  "request_fileID cmd body = Some fid \<Longrightarrow>
     cmd \<in> {CommandClose, CommandFlush, CommandRead, CommandWrite, CommandLock, CommandIoctl, CommandQueryDirectory,
            CommandChangeNotify, CommandQueryInfo, CommandSetInfo}"
  by (auto simp: request_fileID_def split: if_splits)

text \<open>Whatever request names an open handle, its handler runs while the message holds the lock of
  exactly the handle its decoder finds in the body; the lock is exclusive except for READ and WRITE on
  a plain file, which may run side by side; and it is released when the handler returns.\<close>

theorem handler_holds_its_handle:
  assumes adm: "admitted cr d hdr frame ds r"
    and step: "related_step hdr body (ds_chain ds) = Inr (body', ch')"
    and fid: "request_fileID (h_Command hdr) body' = Some fid"
    and openh: "GetOpen fid (ds_session ds r) = Some h"
  shows "\<exists>ds1. Dispatch cr equalFold fstat fh d hdr body frame ds
        = map_option (\<lambda>(go_on, ds'). (go_on, ds'\<lparr>ds_held := NoLock\<rparr>)) (fh (h_Command hdr) hdr body' r ds1)
    \<and> ds_sv ds1 = ds_sv ds
    \<and> ds_held ds1 = (if h_Command hdr \<in> {CommandRead, CommandWrite} \<and> \<not> o_IsDir (hs_opens (sv_handles (ds_sv ds)) h)
                        \<and> \<not> o_IsPipe (hs_opens (sv_handles (ds_sv ds)) h) \<and> \<not> o_IsStream (hs_opens (sv_handles (ds_sv ds)) h)
                     then SharedLock h else ExclusiveLock h)"
proof -
  let ?heap = "hs_opens (sv_handles (ds_sv ds))"
  let ?ds1 = "ds\<lparr>ds_chain := ch', ds_held := lockOpenForMessage ?heap (ds_session ds r) (h_Command hdr) body'\<rparr>"
  have held: "ds_held ?ds1 = (if h_Command hdr \<in> {CommandRead, CommandWrite} \<and> \<not> o_IsDir (?heap h)
      \<and> \<not> o_IsPipe (?heap h) \<and> \<not> o_IsStream (?heap h) then SharedLock h else ExclusiveLock h)"
    using lockOpenForMessage_fid [OF request_fileID_body [OF fid], of ?heap "ds_session ds r"] openh
    by (simp add: lock_for_def)
  have "route equalFold fstat fh d hdr body' r ?ds1 = fh (h_Command hdr) hdr body' r ?ds1"
    using request_fileID_commands [OF fid] by (auto simp: route_def)
  then have "Dispatch cr equalFold fstat fh d hdr body frame ds
        = map_option (\<lambda>(go_on, ds'). (go_on, ds'\<lparr>ds_held := NoLock\<rparr>)) (fh (h_Command hdr) hdr body' r ?ds1)"
    unfolding Dispatch_admitted [OF adm] serve_message_def step by simp
  then show ?thesis using held by (intro exI [of _ ?ds1]) simp
qed

section \<open>Witnesses\<close>

abbreviation wfh :: "u16 \<Rightarrow> unit handler" where
  "wfh \<equiv> (\<lambda>cmd hdr body r ds. Some (True, ds))"

abbreviation wchain :: chain where
  "wchain \<equiv> \<lparr>ch_LastCreatedFileID = replicate 16 7, ch_HasLastCreated = True, ch_lastChainStatus = StatusAccessDenied,
     ch_encryptChain = True, ch_pending = []\<rparr>"

abbreviation wchain_state :: "unit dstate" where
  "wchain_state \<equiv> \<lparr>ds_sv = wserver\<lparr>sv_sess := (\<lambda>_. wsession\<lparr>s_opens := [(replicate 16 7, 3)]\<rparr>)\<rparr>, ds_chain = wchain, ds_held = NoLock, ds_k = ()\<rparr>"

abbreviation wclose :: header where
  "wclose \<equiv> (wrequest 6)\<lparr>h_Flags := 4\<rparr>"

abbreviation wclose_body :: bytes where
  "wclose_body \<equiv> [24, 0, 0, 0, 0, 0, 0, 0] @ replicate 16 0xFF"

lemma wchain_admitted: "admitted wcrypto wdispatcher wclose [] wchain_state 0"
  by (simp add: admitted_def policy_met_def st_Get_def wserver_def wsession_def)

lemma wchain_step:
  "related_step wclose wclose_body wchain =
     Inr ([24, 0, 0, 0, 0, 0, 0, 0] @ replicate 16 7, wchain\<lparr>ch_HasLastCreated := False\<rparr>)"
  by code_simp

theorem policy_is_enforced_witness:
  "\<exists>status sess ds'. Dispatch wcrypto (=) (\<lambda>_. Inl 0) wfh (wdispatcher\<lparr>d_RequireEncryption := True\<rparr>) (wrequest 9) [] [] wdstate
       = Some (True, ds') \<and> answered (wrequest 9) status sess errBody wdstate ds'"
proof -
  let ?d = "wdispatcher\<lparr>d_RequireEncryption := True\<rparr>"
  have no: "\<forall>r. \<not> admitted wcrypto ?d (wrequest 9) [] wdstate r"
    by (simp add: admitted_def policy_met_def st_Get_def wserver_def wsession_def encryptionExempt_def forFrame_def)
  obtain ds' where run: "Dispatch wcrypto (=) (\<lambda>_. Inl 0) wfh ?d (wrequest 9) [] [] wdstate = Some (True, ds')"
    using refusal_answers [of ?d "wrequest 9" StatusAccessDenied 0 wdstate]
    by (auto simp: Dispatch_def policy_check_def st_Get_def wserver_def wsession_def encryptionExempt_def forFrame_def)
  from policy_is_enforced [OF run] no run show ?thesis by blast
qed

theorem chain_closes_its_handle_witness:
  "\<exists>body' ds1. Dispatch wcrypto (=) (\<lambda>_. Inl 0) wfh wdispatcher wclose wclose_body [] wchain_state
       = map_option (\<lambda>(go_on, ds'). (go_on, ds'\<lparr>ds_held := NoLock\<rparr>)) (wfh CommandClose wclose body' 0 ds1)
     \<and> body_fileID CommandClose body' = Some (replicate 16 7)"
proof -
  have "body_fileID (h_Command wclose) wclose_body = Some previousHandleFileID" by code_simp
  from chain_closes_its_handle [OF wchain_admitted _ this, of "(=)" "\<lambda>_. Inl 0" wfh] show ?thesis
    by (auto simp del: map_option_eq_Some)
qed

end
