(* ===== verification/Compound.thy ===== *)
theory Compound
  imports Tree_Connect Nbss
begin

text \<open>
  Sending what one inbound frame produced (\<^verbatim>\<open>internal/parent/compound.go\<close>): grouping of the
  pending responses, the compounded frame with its \<^verbatim>\<open>NextCommand\<close> links and padding, signing per
  member, one transform header around an encrypted frame. The connection's writer receives the list
  of finished frames; an error while sending drops that frame, as the code ignores it.
\<close>

definition padTo8 :: "nat \<Rightarrow> nat" where
  "padTo8 n = (let r = n mod 8 in if r \<noteq> 0 then n + 8 - r else n)"

definition compoundMemberLen :: "bytes \<Rightarrow> bool \<Rightarrow> nat" where
  "compoundMemberLen buf is_last = (let n = length buf - FrameHeaderSize in if is_last then n else padTo8 n)"

text \<open>What the writer has been handed, and the state of the nonce counter.\<close>

record sender =
  sn_out :: "bytes list"
  sn_smb3 :: smb3_state

definition sendPreframed :: "bytes \<Rightarrow> sender \<Rightarrow> sender" where
  "sendPreframed buf sn = (case PutFrameHeader buf of Inl _ \<Rightarrow> sn | Inr b \<Rightarrow> sn\<lparr>sn_out := sn_out sn @ [b]\<rparr>)"

definition signResponse :: "crypto \<Rightarrow> dispatcher \<Rightarrow> (sess_ref \<Rightarrow> Session) \<Rightarrow> sess_ref option \<Rightarrow> bytes \<Rightarrow> bytes option" where
  "signResponse cr d sess r msg =
     (case r of
        None \<Rightarrow> Some msg
      | Some r \<Rightarrow> if length (s_SigningKey (sess r)) = 0 then Some msg
                  else SignMessage cr (d_SigningAlgo d) (s_SigningKey (sess r)) msg)"

text \<open>\<open>None\<close>: encryption with no session is a nil dereference.\<close>

definition sendEncrypted :: "crypto \<Rightarrow> dispatcher \<Rightarrow> (sess_ref \<Rightarrow> Session) \<Rightarrow> sess_ref option \<Rightarrow> bytes \<Rightarrow> sender \<Rightarrow> sender option" where
  "sendEncrypted cr d sess r msg sn =
     (case r of
        None \<Rightarrow> None
      | Some r \<Rightarrow>
          (case EncryptTransform cr (d_Cipher d) (s_S2CCipherKey (sess r)) (s_ID (sess r)) msg (sn_smb3 sn) of
             None \<Rightarrow> None
           | Some (Inl _, st') \<Rightarrow> Some (sn\<lparr>sn_smb3 := st'\<rparr>)
           | Some (Inr enc, st') \<Rightarrow> Some (sendPreframed (zeros FrameHeaderSize @ enc) (sn\<lparr>sn_smb3 := st'\<rparr>))))"

definition sealAndSend :: "crypto \<Rightarrow> dispatcher \<Rightarrow> (sess_ref \<Rightarrow> Session) \<Rightarrow> pendingMsg \<Rightarrow> sender \<Rightarrow> sender option" where
  "sealAndSend cr d sess m sn =
     (let msg = drop FrameHeaderSize (pm_buf m) in
      if pm_encrypt m then sendEncrypted cr d sess (pm_sess m) msg sn
      else map_option (\<lambda>msg'. sendPreframed (take FrameHeaderSize (pm_buf m) @ msg') sn)
             (signResponse cr d sess (pm_sess m) msg))"

text \<open>The bytes of one member: the response padded with zeros, its link written, then signed.\<close>

definition link_member :: "pendingMsg \<Rightarrow> bool \<Rightarrow> bytes" where
  "link_member m is_last =
     (let n = compoundMemberLen (pm_buf m) is_last;
          src = drop FrameHeaderSize (pm_buf m);
          msg = src @ zeros (n - length src)
      in patch NextCommandOffset (le32 (if is_last then 0 else word_of_nat n)) msg)"

fun link_members :: "crypto \<Rightarrow> dispatcher \<Rightarrow> (sess_ref \<Rightarrow> Session) \<Rightarrow> sess_ref option \<Rightarrow> bool \<Rightarrow> pendingMsg list \<Rightarrow> bytes option" where
  "link_members cr d sess r encrypt [] = Some []"
| "link_members cr d sess r encrypt (m # ms) =
     (let msg = link_member m (ms = []) in
      case (if encrypt then Some msg else signResponse cr d sess r msg) of
        None \<Rightarrow> None
      | Some msg' \<Rightarrow> map_option ((@) msg') (link_members cr d sess r encrypt ms))"

definition sendCompound :: "crypto \<Rightarrow> dispatcher \<Rightarrow> (sess_ref \<Rightarrow> Session) \<Rightarrow> pendingMsg list \<Rightarrow> sender \<Rightarrow> sender option" where
  "sendCompound cr d sess msgs sn =
     (case msgs of
        [] \<Rightarrow> None
      | [m] \<Rightarrow> sealAndSend cr d sess m sn
      | m # _ \<Rightarrow>
          (case link_members cr d sess (pm_sess m) (pm_encrypt m) msgs of
             None \<Rightarrow> None
           | Some payload \<Rightarrow>
               if pm_encrypt m then sendEncrypted cr d sess (pm_sess m) payload sn
               else Some (sendPreframed (zeros FrameHeaderSize @ payload) sn)))"

definition travels_with :: "pendingMsg \<Rightarrow> pendingMsg \<Rightarrow> bool" where
  "travels_with m m' \<longleftrightarrow> pm_sess m' = pm_sess m \<and> pm_encrypt m' = pm_encrypt m"

function flush_groups :: "pendingMsg list \<Rightarrow> pendingMsg list list" where
  "flush_groups [] = []"
| "flush_groups (m # ms) = (m # takeWhile (travels_with m) ms) # flush_groups (dropWhile (travels_with m) ms)"
  by pat_completeness auto
termination by (relation "measure length") (auto simp: length_dropWhile_le le_imp_less_Suc)

fun send_groups :: "crypto \<Rightarrow> dispatcher \<Rightarrow> (sess_ref \<Rightarrow> Session) \<Rightarrow> pendingMsg list list \<Rightarrow> sender \<Rightarrow> sender option" where
  "send_groups cr d sess [] sn = Some sn"
| "send_groups cr d sess (g # gs) sn = Option.bind (sendCompound cr d sess g sn) (send_groups cr d sess gs)"

definition flush :: "crypto \<Rightarrow> dispatcher \<Rightarrow> 'k dstate \<Rightarrow> sender \<Rightarrow> ('k dstate \<times> sender) option" where
  "flush cr d ds sn =
     map_option (Pair (ds\<lparr>ds_chain := (ds_chain ds)\<lparr>ch_pending := []\<rparr>\<rparr>))
       (send_groups cr d (sv_sess (ds_sv ds)) (flush_groups (ch_pending (ds_chain ds))) sn)"

section \<open>Grouping\<close>

lemma concat_flush_groups: "concat (flush_groups ms) = ms"
  by (induction ms rule: flush_groups.induct) simp_all

lemma flush_groups_uniform:
  "g \<in> set (flush_groups ms) \<Longrightarrow> g \<noteq> [] \<and> (\<forall>m \<in> set g. travels_with (hd g) m)"
proof (induction ms rule: flush_groups.induct)
  case (2 m ms)
  then consider "g = m # takeWhile (travels_with m) ms" | "g \<in> set (flush_groups (dropWhile (travels_with m) ms))"
    by auto
  then show ?case
  proof cases
    case 1
    then show ?thesis by (auto simp: travels_with_def dest: set_takeWhileD)
  qed (rule 2(1))
qed simp

lemma flush_groups_maximal:
  "flush_groups ms = gs1 @ g # g' # gs2 \<Longrightarrow> \<not> travels_with (hd g) (hd g')"
proof (induction ms arbitrary: gs1 rule: flush_groups.induct)
  case (2 m ms)
  show ?case
  proof (cases gs1)
    case Nil
    with 2(2) obtain m' ms' where "dropWhile (travels_with m) ms = m' # ms'" "hd g = m" "hd g' = m'"
      by (cases "dropWhile (travels_with m) ms") auto
    then show ?thesis by (metis dropWhile_eq_Cons_conv)
  next
    case (Cons g0 gs1')
    with 2 show ?thesis by simp
  qed
qed simp

section \<open>A compounded frame splits back into its members\<close>

lemma padTo8_spec: "n \<le> padTo8 n" "padTo8 n < n + 8" "padTo8 n mod 8 = 0"
proof -
  define q r where "q = n div 8" and "r = n mod 8"
  have n: "n = 8 * q + r" "r < 8" by (simp_all add: q_def r_def)
  then show "n \<le> padTo8 n" "padTo8 n < n + 8" by (simp_all add: padTo8_def r_def [symmetric] Let_def)
  show "padTo8 n mod 8 = 0"
  proof (cases "r = 0")
    case False
    then have "padTo8 n = 8 * Suc q" using n by (simp add: padTo8_def r_def [symmetric])
    then show ?thesis by simp
  qed (simp add: padTo8_def r_def)
qed

text \<open>How the receiver takes a compounded message apart: each header says where the next one starts.\<close>

function split_chain :: "bytes \<Rightarrow> bytes list option" where
  "split_chain frame =
     (case DecodeHeader frame of
        Some (Inr h) \<Rightarrow>
          if h_NextCommand h = 0 then Some [frame]
          else if h_NextCommand h < 64 \<or> unat (h_NextCommand h) \<ge> length frame then None
          else map_option ((#) (take (unat (h_NextCommand h)) frame)) (split_chain (drop (unat (h_NextCommand h)) frame))
      | _ \<Rightarrow> None)"
  by pat_completeness auto
termination by (relation "measure length") (auto simp: word_less_nat_alt)

declare split_chain.simps [simp del]

lemma DecodeHeader_relink:
  assumes "DecodeHeader b = Some (Inr h)"
  shows "DecodeHeader (patch 20 (le32 v) b) = Some (Inr (h\<lparr>h_NextCommand := v\<rparr>))"
  using assms DecodeHeader_wf [OF assms]
  by (auto simp: DecodeHeader_def go_panic byte_layout split: if_splits)

lemma update_slice [byte_layout]:
  "i < off \<or> off + n \<le> i \<Longrightarrow> take n (drop off (xs[i := v])) = take n (drop off xs)"
  by (rule nth_equalityI) auto

lemma flagged_slice:
  "off + n \<le> 16 \<or> 16 < off \<and> off + n \<le> 48 \<or> 64 \<le> off \<Longrightarrow> take n (drop off (flagged b)) = take n (drop off b)"
  by (auto simp: flagged_def byte_layout)

lemma DecodeHeader_signed:
  assumes "DecodeHeader b = Some (Inr h)" and "SignMessage cr algo key b = Some m"
  shows "\<exists>fl sg. DecodeHeader m = Some (Inr (h\<lparr>h_Flags := fl, h_Signature := sg\<rparr>))"
proof -
  have len: "64 \<le> length b" using DecodeHeader_wf [OF assms(1)] by simp
  obtain sig where m: "m = patch 48 sig (flagged b)" "length sig = 16"
    by (rule SignMessage_cases [OF len assms(2)])
  show ?thesis
    using assms(1) len m
    by (auto simp: DecodeHeader_def go_panic byte_layout flagged_nth flagged_slice flagged_slice [of 0, simplified] split: if_splits)
qed

text \<open>One member of a compounded frame, seen from the receiver: the header of the response with its link
  (and signature), the body of the response, zero padding up to the link; and, when the session signs,
  a signature over exactly these bytes.\<close>

definition member_of :: "crypto \<Rightarrow> u16 \<Rightarrow> bytes option \<Rightarrow> pendingMsg \<Rightarrow> bool \<Rightarrow> bytes \<Rightarrow> bool" where
  "member_of cr algo key m is_last part \<longleftrightarrow>
     length part = compoundMemberLen (pm_buf m) is_last
     \<and> (\<exists>h fl sg. DecodeHeader (drop 4 (pm_buf m)) = Some (Inr h)
          \<and> DecodeHeader part = Some (Inr (h\<lparr>h_NextCommand := (if is_last then 0 else word_of_nat (length part)),
                h_Flags := fl, h_Signature := sg\<rparr>)))
     \<and> take (length (pm_buf m) - 68) (drop 64 part) = drop 68 (pm_buf m)
     \<and> (\<forall>k. key = Some k \<longrightarrow> VerifyMessage cr algo k part = Some (True, part))"

fun members_of :: "crypto \<Rightarrow> u16 \<Rightarrow> bytes option \<Rightarrow> pendingMsg list \<Rightarrow> bytes list \<Rightarrow> bool" where
  "members_of cr algo key [] [] = True"
| "members_of cr algo key (m # ms) (p # ps) = (member_of cr algo key m (ms = []) p \<and> members_of cr algo key ms ps)"
| "members_of cr algo key _ _ = False"

text \<open>A response the dispatcher built: it has a header, and it is far from the size of a link.\<close>

definition built :: "pendingMsg \<Rightarrow> bool" where
  "built m \<longleftrightarrow> (\<exists>h. DecodeHeader (drop 4 (pm_buf m)) = Some (Inr h)) \<and> length (pm_buf m) < 2 ^ 31"

definition signing_key :: "(sess_ref \<Rightarrow> Session) \<Rightarrow> sess_ref option \<Rightarrow> bool \<Rightarrow> bytes option" where
  "signing_key sess r encrypt =
     (case r of None \<Rightarrow> None | Some r \<Rightarrow> if encrypt \<or> s_SigningKey (sess r) = [] then None else Some (s_SigningKey (sess r)))"

lemma built_length: "built m \<Longrightarrow> 68 \<le> length (pm_buf m) \<and> length (pm_buf m) < 2 ^ 31"
  using DecodeHeader_wf by (fastforce simp: built_def)

lemma link_member_parts:
  assumes "built m"
  shows "length (link_member m l) = compoundMemberLen (pm_buf m) l"
    and "64 \<le> compoundMemberLen (pm_buf m) l" and "compoundMemberLen (pm_buf m) l < 2 ^ 32"
    and "take (length (pm_buf m) - 68) (drop 64 (link_member m l)) = drop 68 (pm_buf m)"
    and "\<exists>h. DecodeHeader (drop 4 (pm_buf m)) = Some (Inr h)
      \<and> DecodeHeader (link_member m l) = Some (Inr (h\<lparr>h_NextCommand := (if l then 0 else word_of_nat (compoundMemberLen (pm_buf m) l))\<rparr>))"
proof -
  let ?n = "compoundMemberLen (pm_buf m) l"
  let ?src = "drop 4 (pm_buf m)"
  have len: "68 \<le> length (pm_buf m)" "length (pm_buf m) < 2 ^ 31" using built_length [OF assms] by simp_all
  have n: "length ?src \<le> ?n" "?n < length ?src + 8"
    using padTo8_spec [of "length ?src"] by (auto simp: compoundMemberLen_def Let_def)
  define msg where "msg = ?src @ zeros (?n - length ?src)"
  have link: "link_member m l = patch 20 (le32 (if l then 0 else word_of_nat ?n)) msg"
    by (simp add: link_member_def msg_def Let_def)
  have ml: "length msg = ?n" using n by (simp add: msg_def)
  then show "length (link_member m l) = ?n" by (simp add: link)
  show "64 \<le> ?n" "?n < 2 ^ 32" using n len by simp_all
  have "drop 64 (link_member m l) = drop 64 msg"
    unfolding link by (rule drop_patch) simp
  then show "take (length (pm_buf m) - 68) (drop 64 (link_member m l)) = drop 68 (pm_buf m)"
    using len by (simp add: msg_def)
  obtain h where h: "DecodeHeader ?src = Some (Inr h)" using assms by (auto simp: built_def)
  then have "DecodeHeader msg = Some (Inr h)"
    using len by (simp add: msg_def DecodeHeader_append)
  from DecodeHeader_relink [OF this] h
  show "\<exists>h. DecodeHeader ?src = Some (Inr h)
      \<and> DecodeHeader (link_member m l) = Some (Inr (h\<lparr>h_NextCommand := (if l then 0 else word_of_nat ?n)\<rparr>))"
    unfolding link by blast
qed

lemma member_ofI:
  assumes "length part = compoundMemberLen (pm_buf m) l" and "DecodeHeader (drop 4 (pm_buf m)) = Some (Inr h)"
    and "DecodeHeader part = Some (Inr (h\<lparr>h_NextCommand := (if l then 0 else word_of_nat (length part)),
                h_Flags := fl, h_Signature := sg\<rparr>))"
    and "take (length (pm_buf m) - 68) (drop 64 part) = drop 68 (pm_buf m)"
    and "\<And>k. key = Some k \<Longrightarrow> VerifyMessage cr algo k part = Some (True, part)"
  shows "member_of cr algo key m l part"
  unfolding member_of_def using assms by blast

lemma member_of_link:
  assumes "built m" and "(if encrypt then Some (link_member m l) else signResponse cr d sess r (link_member m l)) = Some part"
  shows "member_of cr (d_SigningAlgo d) (signing_key sess r encrypt) m l part"
proof (cases "signing_key sess r encrypt")
  case None
  then have part: "part = link_member m l"
    using assms(2) by (auto simp: signing_key_def signResponse_def split: option.splits if_splits)
  from link_member_parts(5) [OF assms(1), of l] obtain h where
    h: "DecodeHeader (drop 4 (pm_buf m)) = Some (Inr h)"
      "DecodeHeader part = Some (Inr (h\<lparr>h_NextCommand := (if l then 0 else word_of_nat (compoundMemberLen (pm_buf m) l))\<rparr>))"
    unfolding part by blast
  show ?thesis
    by (rule member_ofI [where h = h and fl = "h_Flags h" and sg = "h_Signature h"])
      (use h None link_member_parts(4) [OF assms(1), of l] in \<open>simp_all add: part link_member_parts(1) [OF assms(1)]\<close>)
next
  case (Some k)
  then have sign: "SignMessage cr (d_SigningAlgo d) k (link_member m l) = Some part"
    using assms(2) by (auto simp: signing_key_def signResponse_def split: option.splits if_splits)
  have len: "64 \<le> length (link_member m l)" using link_member_parts(1,2) [OF assms(1)] by simp
  obtain sig where sig: "part = patch 48 sig (flagged (link_member m l))" "length sig = 16"
    by (rule SignMessage_cases [OF len sign])
  obtain h where h: "DecodeHeader (drop 4 (pm_buf m)) = Some (Inr h)"
    "DecodeHeader (link_member m l) = Some (Inr (h\<lparr>h_NextCommand := (if l then 0 else word_of_nat (compoundMemberLen (pm_buf m) l))\<rparr>))"
    using link_member_parts(5) [OF assms(1), of l] by blast
  have "drop 64 part = drop 64 (link_member m l)"
    unfolding sig(1) flagged_def using sig(2) by (simp add: drop_patch drop_update_swap)
  moreover have pl: "length part = compoundMemberLen (pm_buf m) l"
    using link_member_parts(1) [OF assms(1)] by (simp add: sig(1))
  moreover obtain fl sg where "DecodeHeader part = Some (Inr (h\<lparr>h_NextCommand := (if l then 0 else word_of_nat (length part)),
                h_Flags := fl, h_Signature := sg\<rparr>))"
    using DecodeHeader_signed [OF h(2) sign] unfolding pl by blast
  ultimately show ?thesis
    by (intro member_ofI [where h = h and fl = fl and sg = sg])
      (use h(1) link_member_parts(4) [OF assms(1), of l] Some SignMessage_verifies [OF len sign] in simp_all)
qed

lemma link_members_split:
  assumes "list_all built ms" and "ms \<noteq> []" and "link_members cr d sess r encrypt ms = Some payload"
  shows "64 \<le> length payload \<and> (\<exists>parts. split_chain payload = Some parts \<and> concat parts = payload
    \<and> members_of cr (d_SigningAlgo d) (signing_key sess r encrypt) ms parts)"
  using assms
proof (induction ms arbitrary: payload)
  case (Cons m ms)
  from Cons(4) obtain part rest where
    part: "(if encrypt then Some (link_member m (ms = [])) else signResponse cr d sess r (link_member m (ms = []))) = Some part"
    and rest: "link_members cr d sess r encrypt ms = Some rest" and payload: "payload = part @ rest"
    by (auto simp: Let_def split: option.splits)
  have bm: "built m" using Cons(2) by simp
  from member_of_link [OF bm part] have mem: "member_of cr (d_SigningAlgo d) (signing_key sess r encrypt) m (ms = []) part" .
  then obtain h fl sg where len: "length part = compoundMemberLen (pm_buf m) (ms = [])"
    and dec: "DecodeHeader part = Some (Inr (h\<lparr>h_NextCommand := (if ms = [] then 0 else word_of_nat (length part)),
                h_Flags := fl, h_Signature := sg\<rparr>))"
    unfolding member_of_def by blast
  have size: "64 \<le> length part" "length part < 2 ^ 32"
    using link_member_parts(2,3) [OF bm, of "ms = []"] by (simp_all add: len)
  have decp: "DecodeHeader payload = DecodeHeader part"
    unfolding payload by (rule DecodeHeader_append [OF size(1)])
  show ?case
  proof (cases "ms = []")
    case True
    then have "payload = part" using rest payload by simp
    moreover have "split_chain payload = Some [payload]"
      using True by (subst split_chain.simps) (simp add: decp dec)
    ultimately show ?thesis using True mem size by simp
  next
    case False
    from Cons(1) [OF _ False rest] Cons(2) obtain parts where parts: "64 \<le> length rest" "split_chain rest = Some parts"
      "concat parts = rest" "members_of cr (d_SigningAlgo d) (signing_key sess r encrypt) ms parts" by auto
    have u: "unat (word_of_nat (length part) :: u32) = length part"
      using size(2) by (simp add: unat_of_nat take_bit_nat_eq_self_iff)
    have nz: "word_of_nat (length part) \<noteq> (0 :: u32)" "\<not> word_of_nat (length part) < (64 :: u32)"
      using u size(1) by (auto simp: word_less_nat_alt unat_eq_0 [symmetric] simp del: unat_eq_0)
    have "rest \<noteq> []" using parts(1) by auto
    then have "split_chain payload = Some (part # parts)"
      using False nz parts(1,2) unfolding payload by (subst split_chain.simps) (simp add: decp [unfolded payload] dec u)
    then show ?thesis using size parts mem by (auto simp: payload)
  qed
qed simp

section \<open>What goes on the wire\<close>

lemma sendPreframed_framed:
  "length p \<le> 0xFFFFFF \<Longrightarrow> length pre = 4 \<Longrightarrow> sendPreframed (pre @ p) sn = sn\<lparr>sn_out := sn_out sn @ [frame_enc p]\<rparr>"
proof -
  assume p: "length p \<le> 0xFFFFFF" and pre: "length pre = 4"
  from pre obtain a b c e where "pre = [a, b, c, e]" by (auto simp: length_Suc_conv numeral_eq_Suc)
  with p show ?thesis
    by (simp add: sendPreframed_def PutFrameHeader_def frame_enc_def frame_header_def Let_def numeral_2_eq_2 numeral_3_eq_3)
qed

text \<open>Compounded replies arrive as they were produced. The responses collected for one inbound frame
  are sent in order, each exactly once, in groups that share a session and an encryption decision and
  are as long as possible. A group of several unencrypted responses that fits a frame goes out as one
  frame, and the receiver, following the \<^verbatim>\<open>NextCommand\<close> links, gets back one message per response:
  its header, its body, zero padding, and, if the session signs, a signature that verifies over
  exactly those bytes.\<close>

theorem compound_reply_splits:
  assumes group: "g \<in> set (flush_groups ms)" "length g \<ge> 2" and plain: "\<not> pm_encrypt (hd g)"
    and built: "list_all built g"
    and fits: "link_members cr d sess (pm_sess (hd g)) False g = Some payload" "length payload \<le> 0xFFFFFF"
  shows "concat (flush_groups ms) = ms \<and> (\<forall>m \<in> set g. pm_sess m = pm_sess (hd g) \<and> \<not> pm_encrypt m)
    \<and> sendCompound cr d sess g sn = Some (sn\<lparr>sn_out := sn_out sn @ [frame_enc payload]\<rparr>)
    \<and> (\<exists>parts. split_chain payload = Some parts \<and> concat parts = payload
         \<and> members_of cr (d_SigningAlgo d) (signing_key sess (pm_sess (hd g)) False) g parts)"
proof (intro conjI)
  obtain m m' g' where g: "g = m # m' # g'" using group(2) by (cases g; cases "tl g") auto
  have uni: "\<forall>m \<in> set g. travels_with (hd g) m" using flush_groups_uniform [OF group(1)] by blast
  show "concat (flush_groups ms) = ms" by (rule concat_flush_groups)
  show "\<forall>m \<in> set g. pm_sess m = pm_sess (hd g) \<and> \<not> pm_encrypt m"
    using uni plain by (simp add: travels_with_def)
  show "sendCompound cr d sess g sn = Some (sn\<lparr>sn_out := sn_out sn @ [frame_enc payload]\<rparr>)"
    using fits plain sendPreframed_framed [OF fits(2), of "zeros 4" sn]
    by (simp add: sendCompound_def g del: link_members.simps)
  show "\<exists>parts. split_chain payload = Some parts \<and> concat parts = payload
         \<and> members_of cr (d_SigningAlgo d) (signing_key sess (pm_sess (hd g)) False) g parts"
    using link_members_split [OF built _ fits(1)] g by blast
qed

lemma sendPreframed_out:
  obtains "sendPreframed (zeros 4 @ p) sn = sn" | "sendPreframed (zeros 4 @ p) sn = sn\<lparr>sn_out := sn_out sn @ [frame_enc p]\<rparr>"
proof (cases "length p \<le> 0xFFFFFF")
  case True
  then show ?thesis using that(2) sendPreframed_framed [of p "zeros 4" sn] by simp
next
  case False
  then show ?thesis using that(1) by (simp add: sendPreframed_def PutFrameHeader_def Let_def)
qed

definition sealed_frame :: "bytes \<Rightarrow> bool" where
  "sealed_frame f \<longleftrightarrow> (\<exists>p. f = frame_enc p \<and> IsTransform p)"

definition only_sealed :: "sender \<Rightarrow> sender \<Rightarrow> bool" where
  "only_sealed sn sn' \<longleftrightarrow> cache_ok (sn_smb3 sn') \<and> (\<exists>fs. sn_out sn' = sn_out sn @ fs \<and> list_all sealed_frame fs)"

lemma sendEncrypted_sealed:
  assumes "cache_ok (sn_smb3 sn)" and "gcm_ok cr" and "sendEncrypted cr d sess r msg sn = Some sn'"
  shows "only_sealed sn sn'"
proof -
  obtain q where r: "r = Some q" using assms(3) by (cases r) (simp_all add: sendEncrypted_def)
  from EncryptTransform_cases [OF assms(1,2), of "d_Cipher d" "s_S2CCipherKey (sess q)" "s_ID (sess q)" msg]
  show ?thesis
  proof (elim disjE exE conjE)
    fix err st' assume "EncryptTransform cr (d_Cipher d) (s_S2CCipherKey (sess q)) (s_ID (sess q)) msg (sn_smb3 sn) = Some (Inl err, st')"
      "cache_ok st'"
    with assms(3) show ?thesis by (auto simp: sendEncrypted_def r only_sealed_def)
  next
    fix enc st' assume enc: "EncryptTransform cr (d_Cipher d) (s_S2CCipherKey (sess q)) (s_ID (sess q)) msg (sn_smb3 sn) = Some (Inr enc, st')"
      "cache_ok st'" "IsTransform enc"
    then have "sn' = sendPreframed (zeros 4 @ enc) (sn\<lparr>sn_smb3 := st'\<rparr>)"
      using assms(3) by (simp add: sendEncrypted_def r)
    with enc show ?thesis
      by (cases rule: sendPreframed_out [of enc "sn\<lparr>sn_smb3 := st'\<rparr>"]) (auto simp: only_sealed_def sealed_frame_def)
  qed
qed

lemma sendCompound_sealed:
  assumes "cache_ok (sn_smb3 sn)" and "gcm_ok cr" and "g \<noteq> []" "pm_encrypt (hd g)" and "sendCompound cr d sess g sn = Some sn'"
  shows "only_sealed sn sn'"
proof -
  obtain r msg where "sendEncrypted cr d sess r msg sn = Some sn'"
    using assms(3-5) by (auto simp: sendCompound_def sealAndSend_def Let_def split: list.splits option.splits)
  then show ?thesis by (rule sendEncrypted_sealed [OF assms(1,2)])
qed

text \<open>What one group hands to the writer: sealed frames only, when it is marked for encryption.\<close>

lemma sendCompound_out:
  assumes "cache_ok (sn_smb3 sn)" and "gcm_ok cr" and "g \<noteq> []" and "sendCompound cr d sess g sn = Some sn'"
  shows "cache_ok (sn_smb3 sn') \<and> (\<exists>fs. sn_out sn' = sn_out sn @ fs \<and> (pm_encrypt (hd g) \<longrightarrow> list_all sealed_frame fs))"
proof (cases "pm_encrypt (hd g)")
  case True
  then show ?thesis using sendCompound_sealed [OF assms(1-3) True assms(4)] by (simp add: only_sealed_def)
next
  case False
  then obtain buf where "sn' = sendPreframed buf sn"
    using assms(3,4) by (auto simp: sendCompound_def sealAndSend_def Let_def split: list.splits option.splits)
  then show ?thesis using False assms(1) by (auto simp: sendPreframed_def split: sum.split)
qed

definition group_sealed :: "pendingMsg list \<Rightarrow> bytes list \<Rightarrow> bool" where
  "group_sealed g fs \<longleftrightarrow> (list_ex pm_encrypt g \<longrightarrow> list_all sealed_frame fs)"

lemma send_groups_sealed:
  assumes "gcm_ok cr" and "\<forall>g \<in> set gs. g \<noteq> [] \<and> (\<forall>m \<in> set g. travels_with (hd g) m)" and "cache_ok (sn_smb3 sn)"
    and "send_groups cr d sess gs sn = Some sn'"
  shows "\<exists>fss. sn_out sn' = sn_out sn @ concat fss \<and> list_all2 group_sealed gs fss"
  using assms(2-)
proof (induction gs arbitrary: sn)
  case (Cons g gs)
  from Cons.prems(3) obtain sn1 where step: "sendCompound cr d sess g sn = Some sn1" "send_groups cr d sess gs sn1 = Some sn'"
    by (auto simp: Option.bind_eq_Some_conv)
  have g: "g \<noteq> []" "\<forall>m \<in> set g. travels_with (hd g) m" using Cons.prems(1) by simp_all
  from sendCompound_out [OF Cons.prems(2) assms(1) g(1) step(1)] obtain fs where
    fs: "cache_ok (sn_smb3 sn1)" "sn_out sn1 = sn_out sn @ fs" "pm_encrypt (hd g) \<longrightarrow> list_all sealed_frame fs" by blast
  from Cons.IH [OF _ fs(1) step(2)] Cons.prems(1) obtain fss where
    fss: "sn_out sn' = sn_out sn1 @ concat fss" "list_all2 group_sealed gs fss" by auto
  have "group_sealed g fs" using g(2) fs(3) by (auto simp: group_sealed_def travels_with_def list_ex_iff)
  with fs(2) fss show ?case by (intro exI [of _ "fs # fss"]) simp
qed simp

text \<open>The run of one frame, as far as its responses go: any responses, and anything else that leaves them and the frame's
  own flag alone. The list says of each response whether it went to a session that had its key then.\<close>

definition can_seal :: "dispatcher \<Rightarrow> sess_ref option \<Rightarrow> 'k dstate \<Rightarrow> bool" where
  "can_seal d sess ds \<longleftrightarrow> (\<exists>r. sess = Some r \<and> s_S2CCipherKey (ds_session ds r) \<noteq> []) \<and> d_Cipher d \<noteq> 0"

inductive frame_replies :: "dispatcher \<Rightarrow> 'k dstate \<Rightarrow> bool list \<Rightarrow> 'k dstate \<Rightarrow> bool" for d ds0 where
  start: "frame_replies d ds0 [] ds0"
| reply: "frame_replies d ds0 ks ds \<Longrightarrow> respond d hdr sess status body ds = Some ds' \<Longrightarrow> frame_replies d ds0 (ks @ [can_seal d sess ds]) ds'"
| other: "frame_replies d ds0 ks ds \<Longrightarrow> ch_pending (ds_chain ds') = ch_pending (ds_chain ds)
    \<Longrightarrow> ch_encryptChain (ds_chain ds') = ch_encryptChain (ds_chain ds) \<Longrightarrow> frame_replies d ds0 ks ds'"

lemma respond_marks:
  assumes "respond d hdr sess status body ds = Some ds'" and "ch_encryptChain (ds_chain ds)"
  shows "ch_encryptChain (ds_chain ds')
    \<and> map pm_encrypt (ch_pending (ds_chain ds')) = map pm_encrypt (ch_pending (ds_chain ds)) @ [can_seal d sess ds]"
  using assms
  by (auto simp: respond_def emit_def set_status_def willEncryptResponse_def can_seal_def split: option.splits)

lemma frame_replies_marked:
  assumes "frame_replies d ds0 ks ds" and "ds_chain ds0 = forFrame True"
  shows "ch_encryptChain (ds_chain ds) \<and> map pm_encrypt (ch_pending (ds_chain ds)) = ks"
  using assms(1)
proof induction
  case start
  then show ?case using assms(2) by (simp add: forFrame_def)
next
  case (reply ks ds hdr sess status body ds')
  then show ?case using respond_marks [OF reply.hyps(2)] by simp
qed simp

text \<open>C28: What is to be encrypted never leaves in the clear. While a frame that came in encrypted is served, a response is
  marked for encryption exactly when it goes to a session that has its key (an error that names no session of the
  connection has no key to be sealed with, and is sent in the clear). The flush splits the responses, in order, into
  groups, and all that it hands to the writer for a group with a marked response are transform frames; a response that
  cannot be encrypted is dropped, not sent.\<close>

theorem encrypted_replies_stay_sealed:
  assumes "gcm_ok cr" and "cache_ok (sn_smb3 sn)" and "ds_chain ds0 = forFrame True" and "frame_replies d ds0 ks ds"
    and "flush cr d ds sn = Some (ds', sn')"
  shows "map pm_encrypt (ch_pending (ds_chain ds)) = ks
    \<and> concat (flush_groups (ch_pending (ds_chain ds))) = ch_pending (ds_chain ds) \<and> [] \<notin> set (flush_groups (ch_pending (ds_chain ds)))
    \<and> (\<exists>fss. sn_out sn' = sn_out sn @ concat fss \<and> list_all2 group_sealed (flush_groups (ch_pending (ds_chain ds))) fss)"
proof -
  let ?gs = "flush_groups (ch_pending (ds_chain ds))"
  have uniform: "\<forall>g \<in> set ?gs. g \<noteq> [] \<and> (\<forall>m \<in> set g. travels_with (hd g) m)" using flush_groups_uniform by blast
  moreover have "send_groups cr d (sv_sess (ds_sv ds)) ?gs sn = Some sn'" using assms(5) by (auto simp: flush_def)
  ultimately obtain fss where "sn_out sn' = sn_out sn @ concat fss" "list_all2 group_sealed ?gs fss"
    using send_groups_sealed [OF assms(1) _ assms(2)] by blast
  moreover have "concat ?gs = ch_pending (ds_chain ds)" by (rule concat_flush_groups)
  moreover have "[] \<notin> set ?gs" using uniform by blast
  ultimately show ?thesis using frame_replies_marked [OF assms(4,3)] by blast
qed

section \<open>Witnesses\<close>

abbreviation wsealing :: dispatcher where
  "wsealing \<equiv> wdispatcher\<lparr>d_Cipher := 2\<rparr>"

abbreviation wsealed_state :: "unit dstate" where
  "wsealed_state \<equiv> wdstate\<lparr>ds_sv := wserver\<lparr>sv_sess := (\<lambda>_. wsession\<lparr>s_S2CCipherKey := zeros 16\<rparr>)\<rparr>, ds_chain := forFrame True\<rparr>"

text \<open>A frame that came in encrypted, answered with one error to a session with its key.\<close>

theorem encrypted_replies_stay_sealed_witness:
  "\<exists>ds ds' sn' fss. respondError wsealing (wrequest 5) StatusAccessDenied (Some 0) wsealed_state = Some ds
     \<and> flush wcrypto wsealing ds \<lparr>sn_out = [], sn_smb3 = wstate\<rparr> = Some (ds', sn')
     \<and> map pm_encrypt (ch_pending (ds_chain ds)) = [True]
     \<and> sn_out sn' = concat fss \<and> list_all2 group_sealed (flush_groups (ch_pending (ds_chain ds))) fss"
proof -
  let ?sn = "\<lparr>sn_out = [], sn_smb3 = wstate\<rparr>"
  obtain buf where buf: "buildResponse (wrequest 5) StatusAccessDenied errBody = Some buf"
    using buildResponse_decodes [of "wrequest 5" StatusAccessDenied errBody] by blast
  then obtain ds where res: "respond wsealing (wrequest 5) (Some 0) StatusAccessDenied errBody wsealed_state = Some ds"
    by (simp add: respond_def)
  have cs: "can_seal wsealing (Some 0) wsealed_state" by (simp add: can_seal_def)
  have run: "frame_replies wsealing wsealed_state ([] @ [can_seal wsealing (Some 0) wsealed_state]) ds"
    by (rule frame_replies.reply [OF frame_replies.start res])
  have "flush wcrypto wsealing ds ?sn \<noteq> None"
    using EncryptTransform_cases [OF wstate_ok wcrypto_ok, of 2 "zeros 16" "s_ID wsession" "drop 4 buf"] res buf
    by (auto simp: flush_def sendCompound_def sealAndSend_def sendEncrypted_def respond_def emit_def set_status_def
        willEncryptResponse_def forFrame_def)
  then obtain ds' sn' where fl: "flush wcrypto wsealing ds ?sn = Some (ds', sn')" by auto
  have "cache_ok (sn_smb3 ?sn)" using wstate_ok by simp
  from encrypted_replies_stay_sealed [OF wcrypto_ok this _ run fl] cs res fl show ?thesis
    by (auto simp: respondError_def)
qed

end
