(* ===== verification/Frames.thy ===== *)
theory Frames
  imports Dispatch Compound
begin

text \<open>
  The frame level of a connection (\<^verbatim>\<open>internal/parent/conn.go\<close>): the size of the worker pool, which
  frames must run alone, unwrapping of transform frames, and \<^verbatim>\<open>serveFrame\<close>, the walk over the members
  of a compound chain. A frame runs to its end in one step; the order of steps is the interleaving
  of the pool. \<open>setup\<close> stands for \<^verbatim>\<open>HandleSessionSetup\<close> with the post-authentication hook and answers
  whether the connection goes on.
\<close>

definition minConnWorkers :: nat where "minConnWorkers = 8"
definition maxConnWorkers :: nat where "maxConnWorkers = 64"

definition connWorkers :: "nat \<Rightarrow> nat" where
  "connWorkers numCPU =
     (let n = numCPU * 2;
          n = (if n < minConnWorkers then minConnWorkers else n);
          n = (if n > maxConnWorkers then maxConnWorkers else n)
      in if n > unat creditWindow then unat creditWindow else n)"

section \<open>The walk over a chain\<close>

function serial_from :: "bytes \<Rightarrow> nat \<Rightarrow> bool option" where
  "serial_from frame off =
     (if off < length frame then
        if length frame - off < HeaderSize then Some True
        else case DecodeHeader (take HeaderSize (drop off frame)) of
          None \<Rightarrow> None
        | Some (Inl _) \<Rightarrow> Some True
        | Some (Inr hdr) \<Rightarrow>
            if h_Command hdr = CommandSessionSetup then Some True
            else if h_NextCommand hdr = 0 then Some False
            else if h_NextCommand hdr < 64 then Some True
            else let next = off + unat (h_NextCommand hdr) in
              if next > length frame then Some True else serial_from frame next
      else Some True)"
  by pat_completeness auto
termination
  by (relation "measure (\<lambda>(frame, off). length frame - off)") (auto simp: word_less_nat_alt)

declare serial_from.simps [simp del]

definition frameNeedsSerialExecution :: "bytes \<Rightarrow> bool option" where
  "frameNeedsSerialExecution frame = serial_from frame 0"

text \<open>What is done with one member: its header, its body and its bytes.\<close>

type_synonym 's member_step = "header \<Rightarrow> bytes \<Rightarrow> bytes \<Rightarrow> 's \<Rightarrow> (bool \<times> 's) option"

function serve_chain :: "'s member_step \<Rightarrow> bytes \<Rightarrow> nat \<Rightarrow> 's \<Rightarrow> (bool \<times> 's) option" where
  "serve_chain step frame off s =
     (if off < length frame then
        if length frame - off < HeaderSize then Some (False, s)
        else case DecodeHeader (take HeaderSize (drop off frame)) of
          None \<Rightarrow> None
        | Some (Inl _) \<Rightarrow> Some (False, s)
        | Some (Inr hdr) \<Rightarrow>
            if h_NextCommand hdr \<noteq> 0 \<and> h_NextCommand hdr < 64 then Some (False, s)
            else let end = (if h_NextCommand hdr = 0 then length frame else off + unat (h_NextCommand hdr)) in
              if end > length frame then Some (False, s)
              else let msgBytes = take (end - off) (drop off frame); body = drop HeaderSize msgBytes in
                case step hdr body msgBytes s of
                  None \<Rightarrow> None
                | Some (False, s') \<Rightarrow> Some (False, s')
                | Some (True, s') \<Rightarrow>
                    if h_NextCommand hdr = 0 then Some (True, s') else serve_chain step frame end s'
      else Some (True, s))"
  by pat_completeness auto
termination
  by (relation "measure (\<lambda>(step, frame, off, s). length frame - off)") (auto simp: word_less_nat_alt)

declare serve_chain.simps [simp del]

definition member_step :: "(header \<Rightarrow> bytes \<Rightarrow> bytes \<Rightarrow> 's \<Rightarrow> (bool \<times> 's) option)
    \<Rightarrow> (header \<Rightarrow> bytes \<Rightarrow> bytes \<Rightarrow> 's \<Rightarrow> (bool \<times> 's) option) \<Rightarrow> 's member_step" where
  "member_step setup disp hdr body msg s =
     (if h_Command hdr = CommandSessionSetup then setup hdr body msg s else disp hdr body msg s)"

section \<open>One inbound frame\<close>

record 'k conn_state =
  cn_sv :: server
  cn_k :: 'k
  cn_sender :: sender

datatype unwrapped = Abort | Clear bytes | Sealed bytes sess_ref

text \<open>The transform stage of the read loop; \<open>Sealed\<close> names the session whose key opened the frame.\<close>

definition unwrap_frame :: "crypto \<Rightarrow> dispatcher \<Rightarrow> bytes \<Rightarrow> 'k conn_state \<Rightarrow> (unwrapped \<times> 'k conn_state) option" where
  "unwrap_frame cr d frame cn =
     (if \<not> IsTransform frame then Some (Clear frame, cn)
      else if d_Cipher d = 0 then Some (Abort, cn)
      else if length frame < TransformHeaderSize then Some (Abort, cn)
      else case u64_at frame 44 of
        None \<Rightarrow> None
      | Some sessID \<Rightarrow>
          (case st_Get sessID (sv_tables (cn_sv cn) (d_host d)) of
             None \<Rightarrow> Some (Abort, cn)
           | Some r \<Rightarrow>
               let s = sv_sess (cn_sv cn) r in
               if length (s_C2SCipherKey s) = 0 then Some (Abort, cn)
               else case DecryptTransform cr (d_Cipher d) (s_C2SCipherKey s) frame (sn_smb3 (cn_sender cn)) of
                 None \<Rightarrow> None
               | Some (Inl _, st') \<Rightarrow> Some (Abort, cn\<lparr>cn_sender := (cn_sender cn)\<lparr>sn_smb3 := st'\<rparr>\<rparr>)
               | Some (Inr (plain, _), st') \<Rightarrow>
                   Some (Sealed plain r, cn\<lparr>cn_sender := (cn_sender cn)\<lparr>sn_smb3 := st'\<rparr>,
                     cn_sv := (cn_sv cn)\<lparr>sv_sess := (sv_sess (cn_sv cn))(r := s\<lparr>s_gotEncrypted := True\<rparr>)\<rparr>\<rparr>)))"

definition serveFrame :: "crypto \<Rightarrow> dispatcher \<Rightarrow> 'k dstate member_step \<Rightarrow> bytes \<Rightarrow> bool \<Rightarrow> 'k conn_state \<Rightarrow> (bool \<times> 'k conn_state) option" where
  "serveFrame cr d step frame encrypted cn =
     (case serve_chain step frame 0 \<lparr>ds_sv = cn_sv cn, ds_chain = forFrame encrypted, ds_held = NoLock, ds_k = cn_k cn\<rparr> of
        None \<Rightarrow> None
      | Some (go_on, ds) \<Rightarrow>
          map_option (\<lambda>(ds', sn'). (go_on, \<lparr>cn_sv = ds_sv ds', cn_k = ds_k ds', cn_sender = sn'\<rparr>)) (flush cr d ds (cn_sender cn)))"

definition serve_inbound :: "crypto \<Rightarrow> dispatcher \<Rightarrow> 'k dstate member_step \<Rightarrow> bytes \<Rightarrow> 'k conn_state \<Rightarrow> (bool \<times> 'k conn_state) option" where
  "serve_inbound cr d step frame cn =
     (case unwrap_frame cr d frame cn of
        None \<Rightarrow> None
      | Some (Abort, cn') \<Rightarrow> Some (False, cn')
      | Some (Clear plain, cn') \<Rightarrow> serveFrame cr d step plain False cn'
      | Some (Sealed plain _, cn') \<Rightarrow> serveFrame cr d step plain True cn')"

section \<open>The walk is total and exact\<close>

lemma serve_chain_member:
  assumes "off < length frame" "\<not> length frame - off < 64"
    and "DecodeHeader (take 64 (drop off frame)) = Some (Inr hdr)"
  defines "fin \<equiv> (if h_NextCommand hdr = 0 then length frame else off + unat (h_NextCommand hdr))"
  defines "msg \<equiv> take (fin - off) (drop off frame)"
  shows "serve_chain step frame off s =
    (if h_NextCommand hdr \<noteq> 0 \<and> h_NextCommand hdr < 64 then Some (False, s)
     else if fin > length frame then Some (False, s)
     else case step hdr (drop 64 msg) msg s of
       None \<Rightarrow> None
     | Some (go_on, s') \<Rightarrow>
         if \<not> go_on then Some (False, s')
         else if h_NextCommand hdr = 0 then Some (True, s') else serve_chain step frame fin s')"
proof -
  have "serve_chain step frame off s =
    (if h_NextCommand hdr \<noteq> 0 \<and> h_NextCommand hdr < 64 then Some (False, s)
     else if fin > length frame then Some (False, s)
     else case step hdr (drop 64 msg) msg s of
       None \<Rightarrow> None
     | Some (False, s') \<Rightarrow> Some (False, s')
     | Some (True, s') \<Rightarrow> if h_NextCommand hdr = 0 then Some (True, s') else serve_chain step frame fin s')"
    by (subst serve_chain.simps)
      (simp only: assms(1-3) if_True if_False Let_def fin_def [symmetric] msg_def [symmetric] option.case sum.case HeaderSize_def)
  then show ?thesis by (simp split: option.split bool.split)
qed

lemma serve_chain_total:
  assumes "\<And>hdr body msg s. step hdr body msg s \<noteq> None"
  shows "serve_chain step frame off s \<noteq> None"
proof (induction "length frame - off" arbitrary: off s rule: less_induct)
  case less
  show ?case
  proof (cases "off < length frame \<and> \<not> length frame - off < 64")
    case False
    then show ?thesis by (subst serve_chain.simps) auto
  next
    case True
    obtain r where r: "DecodeHeader (take 64 (drop off frame)) = Some r"
      using DecodeHeader_no_panic [of "take 64 (drop off frame)"] by auto
    show ?thesis
    proof (cases r)
      case (Inl e)
      with True r show ?thesis by (subst serve_chain.simps) simp
    next
      case (Inr hdr)
      have IH: "serve_chain step frame (off + unat (h_NextCommand hdr)) s' \<noteq> None"
        if "\<not> h_NextCommand hdr < 64" for s'
        using that True by (intro less) (auto simp: word_less_nat_alt)
      have hdr: "off < length frame" "\<not> length frame - off < 64" "DecodeHeader (take 64 (drop off frame)) = Some (Inr hdr)"
        using True r Inr by simp_all
      define fin where "fin = (if h_NextCommand hdr = 0 then length frame else off + unat (h_NextCommand hdr))"
      define msg where "msg = take (fin - off) (drop off frame)"
      obtain go_on s' where run: "step hdr (drop 64 msg) msg s = Some (go_on, s')"
        using assms [of hdr "drop 64 msg" msg s] by auto
      have "serve_chain step frame fin s' \<noteq> None" if "h_NextCommand hdr \<noteq> 0" "\<not> h_NextCommand hdr < 64"
        using IH [OF that(2)] that(1) by (simp add: fin_def)
      then show ?thesis
        unfolding serve_chain_member [OF hdr] fin_def [symmetric] msg_def [symmetric] run by auto
    qed
  qed
qed

fun run_parts :: "'s member_step \<Rightarrow> bytes list \<Rightarrow> 's \<Rightarrow> (bool \<times> 's) option" where
  "run_parts step [] s = Some (True, s)"
| "run_parts step (p # ps) s =
     (case DecodeHeader p of
        Some (Inr hdr) \<Rightarrow>
          (case step hdr (drop 64 p) p s of
             None \<Rightarrow> None
           | Some (False, s') \<Rightarrow> Some (False, s')
           | Some (True, s') \<Rightarrow> run_parts step ps s')
      | _ \<Rightarrow> None)"

lemma DecodeHeader_take: "64 \<le> length b \<Longrightarrow> DecodeHeader (take 64 b) = DecodeHeader b"
  using DecodeHeader_append [of "take 64 b" "drop 64 b"] by simp

lemma serve_chain_parts:
  "split_chain payload = Some parts \<Longrightarrow> serve_chain step (pre @ payload) (length pre) s = run_parts step parts s"
proof (induction "length payload" arbitrary: payload parts pre s rule: less_induct)
  case less
  from less(2) obtain h where dec: "DecodeHeader payload = Some (Inr h)"
    by (subst (asm) split_chain.simps) (auto split: option.splits sum.splits)
  have len: "64 \<le> length payload" using DecodeHeader_wf [OF dec] by simp
  note hd = DecodeHeader_take [OF len, unfolded dec]
  show ?case
  proof (cases "h_NextCommand h = 0")
    case True
    then have "parts = [payload]" using less(2) by (subst (asm) split_chain.simps) (simp add: dec)
    moreover have "payload \<noteq> []" using len by auto
    ultimately show ?thesis
      using True len by (subst serve_chain_member [of _ _ h]) (simp_all add: hd dec split: option.split bool.split)
  next
    case False
    let ?n = "unat (h_NextCommand h)"
    from less(2) False obtain rest where rest: "\<not> h_NextCommand h < 64" "?n < length payload"
      "split_chain (drop ?n payload) = Some rest" "parts = take ?n payload # rest"
      by (subst (asm) split_chain.simps) (auto simp: dec split: if_splits)
    have n: "64 \<le> ?n" using rest(1) by (simp add: word_less_nat_alt)
    have IH: "serve_chain step (pre @ payload) (length pre + ?n) s' = run_parts step rest s'" for s'
    proof -
      have "length (drop ?n payload) < length payload" using n rest(2) by simp
      from less(1) [OF this rest(3), of "pre @ take ?n payload" s'] show ?thesis using rest(2) by simp
    qed
    have "DecodeHeader (take ?n payload) = Some (Inr h)"
      using DecodeHeader_append [of "take ?n payload" "drop ?n payload"] n rest(2) dec by simp
    moreover have "payload \<noteq> []" using len by auto
    ultimately show ?thesis
      using False rest len n by (subst serve_chain_member [of _ _ h]) (simp_all add: hd IH split: option.split bool.split)
  qed
qed

text \<open>C36: A frame is served exactly as the chain it encodes. Whatever bytes arrive, the walk ends with a
  verdict and never panics as long as the handlers do not; and when the frame is a chain as a sender
  links it, its members are handed to the handlers one by one, each with its own bytes, in order,
  until one of them ends the connection.\<close>

theorem chain_served_member_by_member:
  "((\<forall>hdr body msg s. step hdr body msg s \<noteq> None) \<longrightarrow> serve_chain step frame 0 s \<noteq> None)
   \<and> (\<forall>parts. split_chain frame = Some parts \<longrightarrow> serve_chain step frame 0 s = run_parts step parts s)"
  using serve_chain_total [of step frame 0 s] serve_chain_parts [of frame _ step "[]" s] by auto

section \<open>SESSION\_SETUP runs alone\<close>

lemma serial_from_total: "serial_from frame off \<noteq> None"
proof (induction "length frame - off" arbitrary: off rule: less_induct)
  case less
  obtain r where r: "DecodeHeader (take 64 (drop off frame)) = Some r"
    using DecodeHeader_no_panic [of "take 64 (drop off frame)"] by auto
  have IH: "serial_from frame (off + unat (h_NextCommand hdr)) \<noteq> None"
    if "off < length frame" "\<not> h_NextCommand hdr < 64" for hdr
    using that by (intro less) (auto simp: word_less_nat_alt)
  show ?case
    using IH by (subst serial_from.simps) (auto simp: r Let_def split: sum.split)
qed

lemma serial_from_setup_free:
  assumes "serial_from frame off = Some False"
  shows "serve_chain (member_step setup disp) frame off s = serve_chain (member_step setup' disp) frame off s"
  using assms
proof (induction "length frame - off" arbitrary: off s rule: less_induct)
  case less
  from less(2) obtain hdr where hdr: "off < length frame" "\<not> length frame - off < 64"
    "DecodeHeader (take 64 (drop off frame)) = Some (Inr hdr)" "h_Command hdr \<noteq> CommandSessionSetup"
    "h_NextCommand hdr = 0 \<or> \<not> h_NextCommand hdr < 64 \<and> serial_from frame (off + unat (h_NextCommand hdr)) = Some False"
    by (subst (asm) serial_from.simps) (auto simp: Let_def split: if_splits option.splits sum.splits)
  have IH: "serve_chain (member_step setup disp) frame (off + unat (h_NextCommand hdr)) s'
      = serve_chain (member_step setup' disp) frame (off + unat (h_NextCommand hdr)) s'" if "h_NextCommand hdr \<noteq> 0" for s'
    using that hdr by (intro less) (auto simp: word_less_nat_alt)
  show ?case
    using hdr(4) IH unfolding serve_chain_member [OF hdr(1-3)]
    by (auto simp: member_step_def split: option.split)
qed

text \<open>Session setup never runs beside another request. A frame the classifier hands to the worker
  pool is served without ever reaching the session-setup handler, whatever that handler does and
  however the members of the chain fare; every frame with a SESSION_SETUP in the part of the chain
  that is executed is classified as serial. The classifier itself never panics.\<close>

theorem session_setup_runs_alone:
  "frameNeedsSerialExecution frame \<noteq> None
   \<and> (frameNeedsSerialExecution frame = Some False \<longrightarrow>
        serve_chain (member_step setup disp) frame 0 s = serve_chain (member_step setup' disp) frame 0 s)"
  using serial_from_total serial_from_setup_free unfolding frameNeedsSerialExecution_def by metis

text \<open>Waiting for a share mode can never take the last worker: there is always one left to run the
  CLOSE that ends the wait.\<close>

lemma workers_outnumber_waits: "maxSharingWaits < int (connWorkers numCPU) \<and> connWorkers numCPU \<le> 64"
  by (simp add: connWorkers_def minConnWorkers_def maxConnWorkers_def maxSharingWaits_def creditWindow_def Let_def)

section \<open>Witnesses\<close>

abbreviation wecho_frame :: bytes where
  "wecho_frame \<equiv> [0xFE, 0x53, 0x4D, 0x42, 64, 0, 1, 0, 0, 0, 0, 0, 13, 0, 1, 0] @ zeros 48"

lemma wecho_header: "DecodeHeader wecho_frame = Some (Inr \<lparr>h_CreditCharge = 1, h_Status = 0, h_Command = 13,
    h_CreditResponse = 1, h_Flags = 0, h_NextCommand = 0, h_MessageID = 0, h_TreeID = 0, h_SessionID = 0, h_Signature = zeros 16\<rparr>)"
  by code_simp

theorem chain_served_member_by_member_witness:
  "serve_chain (\<lambda>hdr body msg n. Some (True, Suc n)) wecho_frame 0 0 = Some (True, 1)"
proof -
  have "split_chain wecho_frame = Some [wecho_frame]"
    by (subst split_chain.simps) (simp only: wecho_header option.case sum.case header.select_convs if_True simp_thms)
  then have "serve_chain (\<lambda>hdr body msg n. Some (True, Suc n)) wecho_frame 0 0
      = run_parts (\<lambda>hdr body msg n. Some (True, Suc n)) [wecho_frame] 0"
    using chain_served_member_by_member [of "\<lambda>hdr body msg n. Some (True, Suc n)" wecho_frame 0] by blast
  then show ?thesis by (simp only: run_parts.simps wecho_header option.case sum.case) simp
qed

end
