(* ===== verification/Go_Files.thy ===== *)
theory Go_Files
  imports Lock_Ranges Smb2_Status
begin

text \<open>
  Files as the handlers see them: the errors of the \<^verbatim>\<open>os\<close> and \<^verbatim>\<open>io\<close> packages and their
  translation to NT statuses (\<^verbatim>\<open>statusFromErr\<close> of \<^verbatim>\<open>internal/parent/dispatch.go\<close>), Go's
  \<^verbatim>\<open>File.ReadAt\<close> and \<^verbatim>\<open>File.WriteAt\<close>, and the server-side copy of one range
  (\<^verbatim>\<open>copyRange\<close> of \<^verbatim>\<open>copychunk.go\<close>, \<^verbatim>\<open>copyFileRange\<close> of \<^verbatim>\<open>copychunk_linux.go\<close> and
  \<^verbatim>\<open>copychunk_other.go\<close>).

  The system calls are the record \<open>kernel\<close> over a state \<open>'k\<close> of the machine, an argument of every
  definition. A descriptor is named by its handle. A call interrupted by a signal is repeated inside
  Go's \<^verbatim>\<open>os\<close> package, so a call here is one that was not interrupted. What POSIX promises of them
  is the locale \<open>posix_files\<close>: calls may transfer less than asked or fail at any point.
\<close>

section \<open>Errors\<close>

datatype errno =
    ENOSPC | EDQUOT | EFBIG | ENOTEMPTY | EISDIR | ENOTDIR | EMFILE | ENFILE | EROFS | ENAMETOOLONG
  | EXDEV | ELOOP | EMLINK | ENOMEM | ENOBUFS | EIO | EBADF | EINVAL | ENOSYS | ENOTSUP
  | ENOENT | EACCES | EPERM | EEXIST | ETXTBSY | EINTR | Errno_other nat

datatype go_err =
    Errno errno
  | ErrEOF
  | ErrUnexpectedEOF
  | ErrShortWrite
  | ErrNegativeOffset
  | ErrNotExist
  | ErrPermission
  | ErrExist
  | ErrCopyRangeUnsupported
  | ErrOther

definition os_IsNotExist :: "go_err \<Rightarrow> bool" where
  "os_IsNotExist e \<longleftrightarrow> e \<in> {ErrNotExist, Errno ENOENT}"

definition os_IsPermission :: "go_err \<Rightarrow> bool" where
  "os_IsPermission e \<longleftrightarrow> e \<in> {ErrPermission, Errno EACCES, Errno EPERM}"

definition os_IsExist :: "go_err \<Rightarrow> bool" where
  "os_IsExist e \<longleftrightarrow> e \<in> {ErrExist, Errno EEXIST, Errno ENOTEMPTY}"

definition statusFromErr :: "go_err option \<Rightarrow> Status" where
  "statusFromErr err =
     (case err of None \<Rightarrow> StatusSuccess
      | Some e \<Rightarrow>
          if e \<in> {Errno ENOSPC, Errno EDQUOT, Errno EFBIG} then StatusDiskFull
          else if e = Errno ENOTEMPTY then StatusDirectoryNotEmpty
          else if e = Errno EISDIR then StatusFileIsADirectory
          else if e = Errno ENOTDIR then StatusNotADirectory
          else if e \<in> {Errno EMFILE, Errno ENFILE} then StatusTooManyOpenedFiles
          else if e = Errno EROFS then StatusAccessDenied
          else if e = Errno ENAMETOOLONG then StatusObjectNameInvalid
          else if e = Errno EXDEV then StatusNotSameDevice
          else if e = Errno ELOOP then StatusObjectPathNotFound
          else if e = Errno EMLINK then StatusTooManyLinks
          else if e \<in> {Errno ENOMEM, Errno ENOBUFS} then StatusInsufficientResources
          else if e = Errno EIO then StatusIODeviceError
          else if e = Errno EBADF then StatusInvalidHandle
          else if e = Errno EINVAL then StatusInvalidParameter
          else if e \<in> {Errno ENOSYS, Errno ENOTSUP} then StatusNotSupported
          else if os_IsNotExist e then StatusObjectNameNotFound
          else if os_IsPermission e then StatusAccessDenied
          else if os_IsExist e then StatusObjectNameCollision
          else StatusInternalError)"

lemma statusFromErr_Success [simp]: "statusFromErr err = StatusSuccess \<longleftrightarrow> err = None"
  by (simp add: statusFromErr_def split: option.split)

lemma statusFromErr_not_EOF [simp]: "statusFromErr err \<noteq> StatusEndOfFile"
  by (simp add: statusFromErr_def split: option.split)

section \<open>System calls\<close>

record file_stat =
  st_regular :: bool
  st_size :: int
  st_key :: fileKey

record 'k kernel =
  k_pread :: "'k \<Rightarrow> open_ref \<Rightarrow> nat \<Rightarrow> int \<Rightarrow> errno + bytes"
  k_pwrite :: "'k \<Rightarrow> open_ref \<Rightarrow> bytes \<Rightarrow> int \<Rightarrow> 'k \<times> (errno + nat)"
  k_copy_file_range :: "'k \<Rightarrow> open_ref \<Rightarrow> open_ref \<Rightarrow> int \<Rightarrow> int \<Rightarrow> nat \<Rightarrow> 'k \<times> (errno + nat)"
  k_fstat :: "'k \<Rightarrow> open_ref \<Rightarrow> errno + file_stat"
  k_fsync :: "'k \<Rightarrow> open_ref \<Rightarrow> 'k"

text \<open>\<^verbatim>\<open>File.ReadAt\<close>: the loop that asks until the buffer is full, an error, or the end of the file.\<close>

function read_loop :: "'k kernel \<Rightarrow> 'k \<Rightarrow> open_ref \<Rightarrow> nat \<Rightarrow> int \<Rightarrow> bytes \<Rightarrow> bytes \<times> go_err option" where
  "read_loop K k h n off acc =
     (if n = 0 then (acc, None)
      else case k_pread K k h n off of
             Inl e \<Rightarrow> (acc, Some (Errno e))
           | Inr bs \<Rightarrow>
               if bs = [] then (acc, Some ErrEOF)
               else read_loop K k h (n - length bs) (off + int (length bs)) (acc @ bs))"
  by auto
termination
  by (relation "measure (\<lambda>(K, k, h, n, off, acc). n)") (auto simp: length_greater_0_conv [symmetric] simp del: length_greater_0_conv)

declare read_loop.simps [simp del]

definition ReadAt :: "'k kernel \<Rightarrow> 'k \<Rightarrow> open_ref \<Rightarrow> nat \<Rightarrow> int \<Rightarrow> bytes \<times> go_err option" where
  "ReadAt K k h n off =
     (if off < 0 then ([], Some ErrNegativeOffset) else read_loop K k h n off [])"

text \<open>\<^verbatim>\<open>File.WriteAt\<close>: the bytes of a write that failed half-way are not counted.\<close>

function write_loop :: "'k kernel \<Rightarrow> 'k \<Rightarrow> open_ref \<Rightarrow> bytes \<Rightarrow> int \<Rightarrow> 'k \<times> go_err option" where
  "write_loop K k h data off =
     (if data = [] then (k, None)
      else case k_pwrite K k h data off of
             (k', Inl e) \<Rightarrow> (k', Some (Errno e))
           | (k', Inr n) \<Rightarrow>
               if n = 0 then (k', Some ErrUnexpectedEOF)
               else write_loop K k' h (drop n data) (off + int n))"
  by auto
termination
  by (relation "measure (\<lambda>(K, k, h, data, off). length data)") auto

declare write_loop.simps [simp del]

definition WriteAt :: "'k kernel \<Rightarrow> 'k \<Rightarrow> open_ref \<Rightarrow> bytes \<Rightarrow> int \<Rightarrow> 'k \<times> nat \<times> go_err option" where
  "WriteAt K k h data off =
     (if off < 0 then (k, 0, Some ErrNegativeOffset)
      else case write_loop K k h data off of
             (k', None) \<Rightarrow> (k', length data, None)
           | (k', Some e) \<Rightarrow> (k', 0, Some e))"

section \<open>Copying a range\<close>

type_synonym 'k copy_call = "'k \<Rightarrow> open_ref \<Rightarrow> open_ref \<Rightarrow> int \<Rightarrow> int \<Rightarrow> nat \<Rightarrow> 'k \<times> (go_err + nat)"

definition copyFileRange_linux :: "'k kernel \<Rightarrow> 'k copy_call" where
  "copyFileRange_linux K k dst src srcOff dstOff len =
     (if len = 0 then (k, Inr 0)
      else case k_copy_file_range K k dst src srcOff dstOff (min len (2 ^ 63 - 1)) of
             (k', Inr n) \<Rightarrow> (k', Inr n)
           | (k', Inl e) \<Rightarrow>
               (k', Inl (if e \<in> {ENOSYS, EXDEV, EINVAL, ENOTSUP, EPERM, ETXTBSY, EBADF, EINTR}
                         then ErrCopyRangeUnsupported else Errno e)))"

definition copyFileRange_other :: "'k copy_call" where
  "copyFileRange_other k dst src srcOff dstOff len = (k, Inl ErrCopyRangeUnsupported)"

definition copyBufSize :: nat where
  "copyBufSize = 256 * 1024"

text \<open>The two loops of \<^verbatim>\<open>copyRange\<close>: the in-kernel copy, then reading and writing what it left.\<close>

function kernel_copy :: "'k copy_call \<Rightarrow> 'k \<Rightarrow> open_ref \<Rightarrow> open_ref \<Rightarrow> int \<Rightarrow> int \<Rightarrow> nat \<Rightarrow> nat \<Rightarrow> 'k \<times> nat \<times> go_err option" where
  "kernel_copy copy k dst src srcOff dstOff len finished =
     (if finished < len then
        (case copy k dst src (srcOff + int finished) (dstOff + int finished) (len - finished) of
           (k', Inl e) \<Rightarrow> (k', finished, if e = ErrCopyRangeUnsupported then None else Some e)
         | (k', Inr n) \<Rightarrow>
             if n = 0 then (k', finished, None)
             else kernel_copy copy k' dst src srcOff dstOff len (finished + n))
      else (k, finished, None))"
  by auto
termination
  by (relation "measure (\<lambda>(copy, k, dst, src, so, to, len, finished). len - finished)") auto

declare kernel_copy.simps [simp del]

lemma read_loop_progress: "snd (read_loop K k h n off acc) = None \<Longrightarrow> n \<le> length (fst (read_loop K k h n off acc)) - length acc
    \<and> length acc \<le> length (fst (read_loop K k h n off acc))"
proof (induction K k h n off acc rule: read_loop.induct)
  case (1 K k h n off acc)
  show ?case
  proof (cases "n = 0")
    case False
    with "1.prems" obtain bs where bs: "k_pread K k h n off = Inr bs" "bs \<noteq> []"
      by (subst (asm) read_loop.simps) (auto split: sum.splits if_splits)
    from False bs have eq: "read_loop K k h n off acc = read_loop K k h (n - length bs) (off + int (length bs)) (acc @ bs)"
      by (subst read_loop.simps) simp
    from "1.IH" [OF False bs] "1.prems" show ?thesis unfolding eq by auto
  qed (simp add: read_loop.simps)
qed

lemma ReadAt_progress: "(bs, None) = ReadAt K k h n off \<Longrightarrow> n \<le> length bs"
  using read_loop_progress [of K k h n off "[]"] by (auto simp: ReadAt_def dest: sym split: if_splits)

function staged_copy :: "'k kernel \<Rightarrow> 'k \<Rightarrow> open_ref \<Rightarrow> open_ref \<Rightarrow> int \<Rightarrow> int \<Rightarrow> nat \<Rightarrow> nat \<Rightarrow> 'k \<times> nat \<times> go_err option" where
  "staged_copy K k dst src srcOff dstOff len finished =
     (if finished < len then
        (case ReadAt K k src (min (len - finished) copyBufSize) (srcOff + int finished) of
           (bs, rerr) \<Rightarrow>
             (case (if bs \<noteq> [] then WriteAt K k dst bs (dstOff + int finished) else (k, 0, None)) of
                (k', w, Some werr) \<Rightarrow> (k', finished + w, Some werr)
              | (k', w, None) \<Rightarrow>
                  if w \<noteq> length bs then (k', finished + w, Some ErrShortWrite)
                  else (case rerr of
                          Some ErrEOF \<Rightarrow> (k', finished + w, Some ErrUnexpectedEOF)
                        | Some e \<Rightarrow> (k', finished + w, Some e)
                        | None \<Rightarrow> staged_copy K k' dst src srcOff dstOff len (finished + w))))
      else (k, finished, None))"
  by auto
termination
  by (relation "measure (\<lambda>(K, k, dst, src, so, to, len, finished). len - finished)")
    (auto dest!: ReadAt_progress simp: copyBufSize_def not_less_eq_eq [symmetric] Suc_le_eq)

declare staged_copy.simps [simp del]

definition copyRange :: "'k copy_call \<Rightarrow> 'k kernel \<Rightarrow> 'k \<Rightarrow> open_ref \<Rightarrow> open_ref \<Rightarrow> int \<Rightarrow> int \<Rightarrow> nat \<Rightarrow> 'k \<times> nat \<times> go_err option" where
  "copyRange copy K k dst src srcOff dstOff len =
     (case kernel_copy copy k dst src srcOff dstOff len 0 of
        (k', finished, Some e) \<Rightarrow> (k', finished, Some e)
      | (k', finished, None) \<Rightarrow>
          if finished \<ge> len then (k', finished, None)
          else staged_copy K k' dst src srcOff dstOff len finished)"

section \<open>What POSIX promises\<close>

text \<open>Writing a run of bytes into a file: a gap before it reads as zeros, nothing else moves.\<close>

definition splice :: "nat \<Rightarrow> bytes \<Rightarrow> bytes \<Rightarrow> bytes" where
  "splice off data c =
     (if data = [] then c
      else take off (c @ zeros (off - length c)) @ data @ drop (off + length data) c)"

definition file_range :: "nat \<Rightarrow> nat \<Rightarrow> bytes \<Rightarrow> bytes" where
  "file_range off n c = take n (drop off c)"

lemma splice_Nil [simp]: "splice off [] c = c"
  by (simp add: splice_def)

lemma length_splice: "data \<noteq> [] \<Longrightarrow> length (splice off data c) = max (length c) (off + length data)"
  by (simp add: splice_def)

lemma length_splice_le: "length c \<le> length (splice off data c)"
  by (cases "data = []") (simp_all add: length_splice)

lemma nth_splice:
  "i < length (splice off data c) \<Longrightarrow> splice off data c ! i =
     (if off \<le> i \<and> i < off + length data then data ! (i - off)
      else if i < length c then c ! i else 0)"
  by (auto simp: splice_def nth_append min_def split: if_splits)

lemma splice_append: "splice (off + length a) b (splice off a c) = splice off (a @ b) c"
proof (cases "a = [] \<or> b = []")
  case False
  then show ?thesis
    by (intro nth_equalityI) (auto simp: length_splice nth_splice nth_append max_def split: if_splits)
qed auto

lemma range_splice_same: "file_range off (length data) (splice off data c) = data"
proof (cases "data = []")
  case False
  then show ?thesis
    by (intro nth_equalityI) (auto simp: file_range_def length_splice nth_splice)
qed (simp add: file_range_def)

lemma range_splice_other:
  assumes "so + n \<le> length c" and "so + n \<le> off \<or> off + length data \<le> so"
  shows "file_range so n (splice off data c) = file_range so n c"
proof (rule nth_equalityI)
  show len: "length (file_range so n (splice off data c)) = length (file_range so n c)"
    using assms(1) length_splice_le [of c off data] by (simp add: file_range_def)
  fix i assume "i < length (file_range so n (splice off data c))"
  then have "i < n" "so + i < length c" unfolding len using assms(1) by (auto simp: file_range_def)
  with assms length_splice_le [of c off data]
  show "file_range so n (splice off data c) ! i = file_range so n c ! i"
    by (auto simp: file_range_def nth_splice)
qed

lemma range_append: "file_range off m c @ file_range (off + m) n c = file_range off (m + n) c"
  by (simp add: file_range_def take_add add.commute)

text \<open>The effect of having written \<open>data\<close> at \<open>off\<close> through \<open>h\<close>.\<close>

definition written :: "('k \<Rightarrow> open_ref \<Rightarrow> bytes) \<Rightarrow> (open_ref \<Rightarrow> open_ref \<Rightarrow> bool) \<Rightarrow> open_ref \<Rightarrow> nat \<Rightarrow> bytes \<Rightarrow> 'k \<Rightarrow> 'k \<Rightarrow> bool" where
  "written contents same h off data k k' \<longleftrightarrow>
     (\<forall>h'. contents k' h' = (if same h h' then splice off data (contents k h') else contents k h'))"

text \<open>
  \<open>contents k h\<close> are the bytes of the file behind \<open>h\<close>, \<open>same h h'\<close> says that two descriptors are open
  on one file. A transfer may be short; a transfer that fails transfers nothing; \<open>fstat\<close> tells the
  size of a regular file and which descriptors share a file.
\<close>

locale posix_files =
  fixes K :: "'k kernel"
    and contents :: "'k \<Rightarrow> open_ref \<Rightarrow> bytes"
    and same :: "open_ref \<Rightarrow> open_ref \<Rightarrow> bool"
  assumes same_refl: "same h h"
    and same_contents: "same h h' \<Longrightarrow> contents k h = contents k h'"
    and pread_ok: "0 \<le> off \<Longrightarrow> k_pread K k h n off = Inr bs \<Longrightarrow>
      length bs \<le> n \<and> bs = file_range (nat off) (length bs) (contents k h)
      \<and> (bs = [] \<longrightarrow> n = 0 \<or> length (contents k h) \<le> nat off)"
    and pwrite_ok: "0 \<le> off \<Longrightarrow> k_pwrite K k h data off = (k', Inr n) \<Longrightarrow>
      n \<le> length data \<and>
      contents k' h' = (if same h h' then splice (nat off) (take n data) (contents k h') else contents k h')"
    and pwrite_err: "k_pwrite K k h data off = (k', Inl e) \<Longrightarrow> contents k' h' = contents k h'"
    and copy_ok: "0 \<le> so \<Longrightarrow> 0 \<le> to \<Longrightarrow> k_copy_file_range K k dst src so to len = (k', Inr n) \<Longrightarrow>
      n \<le> len \<and> nat so + n \<le> max (nat so) (length (contents k src)) \<and>
      contents k' h' = (if same dst h' then splice (nat to) (file_range (nat so) n (contents k src)) (contents k h')
                        else contents k h')"
    and copy_err: "k_copy_file_range K k dst src so to len = (k', Inl e) \<Longrightarrow> contents k' h' = contents k h'"
    and fstat_size: "k_fstat K k h = Inr st \<Longrightarrow> st_regular st \<Longrightarrow> st_size st = int (length (contents k h))"
    and fstat_key: "k_fstat K k h = Inr st \<Longrightarrow> k_fstat K k h' = Inr st' \<Longrightarrow> st_key st = st_key st' \<longleftrightarrow> same h h'"
begin

abbreviation wrote :: "open_ref \<Rightarrow> nat \<Rightarrow> bytes \<Rightarrow> 'k \<Rightarrow> 'k \<Rightarrow> bool" where
  "wrote \<equiv> written contents same"

lemma wrote_Nil: "wrote h off [] k k' \<longleftrightarrow> (\<forall>h'. contents k' h' = contents k h')"
  by (simp add: written_def)

lemma wrote_append:
  "wrote h off a k k1 \<Longrightarrow> wrote h (off + length a) b k1 k2 \<Longrightarrow> wrote h off (a @ b) k k2"
  by (simp add: written_def splice_append)

lemma wrote_step:
  assumes "wrote h off (take n data) k k1" and "wrote h (off + n) (take m (drop n data)) k1 k2" and "n \<le> length data"
  shows "wrote h off (take (n + m) data) k k2"
  using wrote_append [OF assms(1)] assms(2,3) by (simp add: take_add)

text \<open>Reading returns a run of the file: all that was asked, or up to the end of the file, or a part
  and an error.\<close>

lemma read_loop_exact:
  assumes "0 \<le> off" and "read_loop K k h n off acc = (bs, err)"
  shows "\<exists>more. bs = acc @ more \<and> length more \<le> n \<and> more = file_range (nat off) (length more) (contents k h)
    \<and> (err = None \<longrightarrow> length more = n) \<and> (err = Some ErrEOF \<longrightarrow> more = drop (nat off) (contents k h))"
  using assms
proof (induction n arbitrary: off acc rule: less_induct)
  case (less n)
  note rl = read_loop.simps [of K k h n off acc]
  show ?case
  proof (cases "n = 0 \<or> (\<exists>e. k_pread K k h n off = Inl e) \<or> k_pread K k h n off = Inr []")
    case True
    then show ?thesis
      using less.prems pread_ok [OF less.prems(1), of k h n "[]"] unfolding rl
      by (auto simp: file_range_def split: if_splits)
  next
    case False
    then obtain cs where cs: "k_pread K k h n off = Inr cs" "cs \<noteq> []" "n \<noteq> 0"
      by (cases "k_pread K k h n off") auto
    from pread_ok [OF less.prems(1) cs(1)] have len: "length cs \<le> n"
      and cs_range: "cs = file_range (nat off) (length cs) (contents k h)" by auto
    from cs less.prems(2) have run: "read_loop K k h (n - length cs) (off + int (length cs)) (acc @ cs) = (bs, err)"
      unfolding rl by simp
    have "n - length cs < n" using cs by (cases cs) auto
    from less.IH [OF this _ run] less.prems(1) obtain more where more: "bs = acc @ cs @ more"
      "length more \<le> n - length cs" "more = file_range (nat off + length cs) (length more) (contents k h)"
      "err = None \<longrightarrow> length more = n - length cs"
      "err = Some ErrEOF \<longrightarrow> more = drop (nat off + length cs) (contents k h)"
      by (auto simp: nat_add_distrib)
    have "cs @ more = file_range (nat off) (length (cs @ more)) (contents k h)"
      using range_append [of "nat off" "length cs" "contents k h" "length more"] cs_range more(3)
      unfolding length_append by argo
    moreover have "err = Some ErrEOF \<longrightarrow> cs @ more = drop (nat off) (contents k h)"
      using cs_range more(5) by (metis add.commute append_take_drop_id drop_drop file_range_def)
    moreover have "length (cs @ more) \<le> n" and "err = None \<longrightarrow> length (cs @ more) = n"
      using more(2,4) len by auto
    ultimately show ?thesis using more(1) by blast
  qed
qed

lemma ReadAt_exact:
  assumes "0 \<le> off" and "ReadAt K k h n off = (bs, err)"
  shows "length bs \<le> n" and "bs = file_range (nat off) (length bs) (contents k h)"
    and "err = None \<Longrightarrow> length bs = n" and "err = Some ErrEOF \<Longrightarrow> bs = drop (nat off) (contents k h)"
  using read_loop_exact [of off k h n "[]" bs err] assms by (auto simp: ReadAt_def)

text \<open>Writing writes a prefix of the data, and all of it when it reports success.\<close>

lemma write_loop_exact:
  assumes "0 \<le> off" and "write_loop K k h data off = (k', err)"
  shows "\<exists>m \<le> length data. wrote h (nat off) (take m data) k k' \<and> (err = None \<longrightarrow> m = length data)"
  using assms
proof (induction "length data" arbitrary: data off k rule: less_induct)
  case less
  note wl = write_loop.simps [of K k h data off]
  obtain k1 r where call: "k_pwrite K k h data off = (k1, r)" by fastforce
  show ?case
  proof (cases "data = [] \<or> (\<exists>e. r = Inl e) \<or> r = Inr 0")
    case True
    then have "wrote h (nat off) [] k k'"
      using less.prems call pwrite_err [of k h data off k1] pwrite_ok [OF less.prems(1), of k h data k1 0]
      unfolding wl by (auto simp: wrote_Nil split: if_splits)
    moreover have "data = [] \<or> err \<noteq> None" using True less.prems call unfolding wl by (auto split: if_splits)
    ultimately show ?thesis by (auto intro!: exI [of _ 0])
  next
    case False
    then obtain n where n: "r = Inr n" "n \<noteq> 0" "data \<noteq> []" by (cases r) auto
    from pwrite_ok [OF less.prems(1) call [unfolded n(1)]] have le: "n \<le> length data"
      and w1: "wrote h (nat off) (take n data) k k1" by (auto simp: written_def)
    have run: "write_loop K k1 h (drop n data) (off + int n) = (k', err)"
      using less.prems(2) call n unfolding wl by simp
    have "length (drop n data) < length data" using n by simp
    from less.hyps [OF this _ run] less.prems(1) obtain m where m: "m \<le> length data - n"
      "wrote h (nat off + n) (take m (drop n data)) k1 k'" "err = None \<longrightarrow> m = length data - n"
      by (auto simp: nat_add_distrib)
    from wrote_step [OF w1 m(2) le] m le show ?thesis by (intro exI [of _ "n + m"]) auto
  qed
qed

lemma WriteAt_exact:
  assumes "0 \<le> off" and "WriteAt K k h data off = (k', w, err)"
  shows "\<exists>m \<le> length data. wrote h (nat off) (take m data) k k' \<and> w \<le> m \<and> (err = None \<longrightarrow> m = length data \<and> w = length data)"
  using write_loop_exact [of off k h data] assms by (fastforce simp: WriteAt_def split: prod.splits option.splits)

text \<open>Copying: the ranges do not meet when source and target are one file.\<close>

definition apart :: "'k \<Rightarrow> open_ref \<Rightarrow> open_ref \<Rightarrow> nat \<Rightarrow> nat \<Rightarrow> nat \<Rightarrow> bool" where
  "apart k dst src so to len \<longleftrightarrow> (same dst src \<longrightarrow>
     so + len \<le> length (contents k src) \<and> (so + len \<le> to \<or> to + len \<le> so))"

text \<open>The first \<open>m\<close> bytes of the range have been copied.\<close>

definition copied :: "open_ref \<Rightarrow> open_ref \<Rightarrow> nat \<Rightarrow> nat \<Rightarrow> nat \<Rightarrow> 'k \<Rightarrow> 'k \<Rightarrow> bool" where
  "copied dst src so to m k k' \<longleftrightarrow>
     so + m \<le> max so (length (contents k src)) \<and> wrote dst to (file_range so m (contents k src)) k k'"

lemma source_stays:
  assumes "apart k dst src so to len" and "copied dst src so to m k k'" and "m + n \<le> len"
  shows "file_range (so + m) n (contents k' src) = file_range (so + m) n (contents k src)"
proof (cases "same dst src")
  case True
  then have "so + len \<le> length (contents k src)" "so + len \<le> to \<or> to + len \<le> so"
    and "contents k' src = splice to (file_range so m (contents k src)) (contents k src)"
    using assms(1,2) by (auto simp: apart_def copied_def written_def)
  moreover have "length (file_range so m (contents k src)) \<le> m" by (simp add: file_range_def)
  ultimately show ?thesis
    using assms(3) by (auto intro!: range_splice_other)
next
  case False
  then show ?thesis using assms(2) by (simp add: copied_def written_def)
qed

lemma length_file_range: "so + m \<le> max so (length c) \<Longrightarrow> length (file_range so m c) = m"
  by (auto simp: file_range_def)

lemma copied_step:
  assumes ap: "apart k dst src so to len" and c: "copied dst src so to m k k1" and len: "m + n \<le> len"
    and more: "copied dst src (so + m) (to + m) n k1 k2"
  shows "copied dst src so to (m + n) k k2"
proof -
  have stays: "file_range (so + m) n (contents k1 src) = file_range (so + m) n (contents k src)"
    by (rule source_stays [OF ap c len])
  have m: "length (file_range so m (contents k src)) = m"
    using c by (intro length_file_range) (simp add: copied_def)
  have "length (file_range (so + m) n (contents k src)) = n"
    unfolding stays [symmetric] using more by (intro length_file_range) (simp add: copied_def)
  with m have "so + (m + n) \<le> max so (length (contents k src))" by (auto simp: file_range_def)
  moreover have "wrote dst to (file_range so m (contents k src) @ file_range (so + m) n (contents k src)) k k2"
    using c more stays m by (intro wrote_append) (auto simp: copied_def)
  ultimately show ?thesis by (simp add: copied_def range_append)
qed

lemma copied_0: "copied dst src so to 0 k k' \<longleftrightarrow> (\<forall>h. contents k' h = contents k h)"
  by (simp add: copied_def file_range_def wrote_Nil)

lemma copied_same:
  "copied dst src so to m k k1 \<Longrightarrow> (\<And>h. contents k2 h = contents k1 h) \<Longrightarrow> copied dst src so to m k k2"
  by (simp add: copied_def written_def)

text \<open>One round of the staging loop copies what it read.\<close>

lemma staged_round:
  assumes "0 \<le> so" "0 \<le> to" and r: "ReadAt K k src n so = (bs, rerr)"
    and w: "(if bs \<noteq> [] then WriteAt K k dst bs to else (k, 0, None)) = (k', cnt, werr)"
  shows "\<exists>m \<le> length bs. copied dst src (nat so) (nat to) m k k' \<and> cnt \<le> m \<and> (werr = None \<longrightarrow> m = length bs \<and> cnt = length bs)"
proof -
  note rd = ReadAt_exact [OF assms(1) r]
  have "\<exists>m \<le> length bs. wrote dst (nat to) (take m bs) k k' \<and> cnt \<le> m \<and> (werr = None \<longrightarrow> m = length bs \<and> cnt = length bs)"
    using w WriteAt_exact [OF assms(2), of k dst bs k' cnt werr] by (auto simp: wrote_Nil split: if_splits)
  then obtain m where m: "m \<le> length bs" "wrote dst (nat to) (take m bs) k k'"
    "cnt \<le> m \<and> (werr = None \<longrightarrow> m = length bs \<and> cnt = length bs)" by blast
  have "take m bs = file_range (nat so) m (contents k src)"
    using rd(2) m(1) by (metis file_range_def min_def take_take)
  moreover have "length bs \<le> length (contents k src) - nat so"
    using arg_cong [OF rd(2), of length] by (simp add: file_range_def)
  ultimately show ?thesis using m by (intro exI [of _ m]) (auto simp: copied_def)
qed

lemma staged_copy_exact:
  assumes "0 \<le> so" "0 \<le> to" and ap: "apart k0 dst src (nat so) (nat to) len"
    and "copied dst src (nat so) (nat to) fin k0 k" "fin \<le> len"
    and "staged_copy K k dst src so to len fin = (k', n, err)"
  shows "\<exists>m \<le> len. copied dst src (nat so) (nat to) m k0 k' \<and> n \<le> m \<and> (err = None \<longrightarrow> m = len \<and> n = len)"
  using assms(4-6)
proof (induction "len - fin" arbitrary: fin k rule: less_induct)
  case less
  note sc = staged_copy.simps [of K k dst src so to len "fin"]
  show ?case
  proof (cases "fin < len")
    case False
    then show ?thesis using less.prems unfolding sc by auto
  next
    case True
    let ?n = "min (len - fin) copyBufSize"
    obtain bs rerr where r: "ReadAt K k src ?n (so + int fin) = (bs, rerr)" by fastforce
    obtain k1 cnt werr where w: "(if bs \<noteq> [] then WriteAt K k dst bs (to + int fin) else (k, 0, None)) = (k1, cnt, werr)"
      by (metis prod_cases3)
    have bs: "length bs \<le> len - fin" "rerr = None \<longrightarrow> 0 < length bs"
      using ReadAt_exact(1,3) [OF _ r] assms(1) True by (auto simp: copyBufSize_def)
    from staged_round [OF _ _ r w] assms(1,2) obtain m where m: "m \<le> length bs"
      "copied dst src (nat so + fin) (nat to + fin) m k k1" "cnt \<le> m" "werr = None \<longrightarrow> m = length bs \<and> cnt = length bs"
      by (auto simp: nat_add_distrib)
    have sofar: "copied dst src (nat so) (nat to) (fin + m) k0 k1"
      using m(1) bs(1) by (intro copied_step [OF ap less.prems(1) _ m(2)]) (use True in simp)
    consider (stop) "k' = k1" "n = fin + cnt" "err \<noteq> None"
      | (go_on) "werr = None" "rerr = None" "staged_copy K k1 dst src so to len (fin + cnt) = (k', n, err)"
      using less.prems(3) True r w unfolding sc by (auto split: option.splits if_splits go_err.splits)
    then show ?thesis
    proof cases
      case stop
      then show ?thesis using sofar m bs True by (intro exI [of _ "fin + m"]) auto
    next
      case go_on
      with m bs have "cnt = m" "0 < m" "m \<le> len - fin" by auto
      with go_on sofar True show ?thesis by (intro less.hyps [of "fin + cnt" k1]) auto
    qed
  qed
qed

end

text \<open>What either platform's \<^verbatim>\<open>copyFileRange\<close> promises.\<close>

locale range_copier = posix_files K contents same
  for K :: "'k kernel" and contents same +
  fixes copy :: "'k copy_call"
  assumes copy_some: "0 \<le> so \<Longrightarrow> 0 \<le> to \<Longrightarrow> copy k dst src so to len = (k', Inr n) \<Longrightarrow>
      n \<le> len \<and> copied dst src (nat so) (nat to) n k k'"
    and copy_none: "copy k dst src so to len = (k', Inl e) \<Longrightarrow> contents k' h = contents k h"
begin

lemma kernel_copy_exact:
  assumes "0 \<le> so" "0 \<le> to" and ap: "apart k0 dst src (nat so) (nat to) len"
    and "copied dst src (nat so) (nat to) fin k0 k" "fin \<le> len"
    and "kernel_copy copy k dst src so to len fin = (k', n, err)"
  shows "copied dst src (nat so) (nat to) n k0 k' \<and> n \<le> len"
  using assms(4-6)
proof (induction "len - fin" arbitrary: fin k rule: less_induct)
  case less
  note kc = kernel_copy.simps [of copy k dst src so to len "fin"]
  obtain k1 r where call: "copy k dst src (so + int fin) (to + int fin) (len - fin) = (k1, r)" by fastforce
  show ?case
  proof (cases "fin < len \<and> (\<exists>m. r = Inr m \<and> m \<noteq> 0)")
    case True
    then obtain m where m: "r = Inr m" "m \<noteq> 0" "fin < len" by blast
    from copy_some [OF _ _ call [unfolded m(1)]] assms(1,2)
    have le: "m \<le> len - fin" and c: "copied dst src (nat so + fin) (nat to + fin) m k k1"
      by (auto simp: nat_add_distrib)
    have "copied dst src (nat so) (nat to) (fin + m) k0 k1"
      using le m by (intro copied_step [OF ap less.prems(1) _ c]) simp
    moreover have "kernel_copy copy k1 dst src so to len (fin + m) = (k', n, err)"
      using less.prems(3) call m unfolding kc by simp
    ultimately show ?thesis using less.hyps [of "fin + m" k1] le m by auto
  next
    case False
    then have "n = fin" and "k' = k \<or> k' = k1 \<and> (\<forall>h. contents k1 h = contents k h)"
      using less.prems(3) call copy_none [of k dst src] copy_some [of "so + int fin" "to + int fin" k dst src _ k1 0] assms(1,2)
      unfolding kc by (auto simp: copied_0 split: if_splits sum.splits)
    then show ?thesis using less.prems copied_same by auto
  qed
qed

lemma copyRange_exact:
  assumes "0 \<le> so" "0 \<le> to" and ap: "apart k dst src (nat so) (nat to) len"
    and run: "copyRange copy K k dst src so to len = (k', n, err)"
  shows "\<exists>m \<le> len. copied dst src (nat so) (nat to) m k k' \<and> n \<le> m \<and> (err = None \<longrightarrow> m = len \<and> n = len)"
proof -
  obtain k1 n1 err1 where kc: "kernel_copy copy k dst src so to len 0 = (k1, n1, err1)" by (metis prod_cases3)
  have c: "copied dst src (nat so) (nat to) n1 k k1" "n1 \<le> len"
    using kernel_copy_exact [OF assms(1-3) _ _ kc] by (auto simp: copied_0)
  show ?thesis
  proof (cases "err1 = None \<and> n1 < len")
    case True
    then have "staged_copy K k1 dst src so to len n1 = (k', n, err)" using run kc by (simp add: copyRange_def)
    then show ?thesis by (rule staged_copy_exact [OF assms(1-3) c])
  next
    case False
    then have "k' = k1" "n = n1" "err = None \<longrightarrow> n1 = len"
      using run kc c(2) by (auto simp: copyRange_def split: option.splits if_splits)
    then show ?thesis using c by blast
  qed
qed

end

sublocale posix_files \<subseteq> linux: range_copier K contents same "copyFileRange_linux K"
proof
  fix so to :: int and k dst src len k' n
  assume pos: "0 \<le> so" "0 \<le> to" and call: "copyFileRange_linux K k dst src so to len = (k', Inr n)"
  show "n \<le> len \<and> copied dst src (nat so) (nat to) n k k'"
  proof (cases "len = 0")
    case True
    then show ?thesis using call by (auto simp: copyFileRange_linux_def copied_0)
  next
    case False
    then have "k_copy_file_range K k dst src so to (min len (2 ^ 63 - 1)) = (k', Inr n)"
      using call by (auto simp: copyFileRange_linux_def split: sum.splits prod.splits)
    from copy_ok [OF pos this] show ?thesis by (auto simp: copied_def written_def)
  qed
next
  fix so to :: int and k dst src len k' e h
  assume "copyFileRange_linux K k dst src so to len = (k', Inl e)"
  then show "contents k' h = contents k h"
    by (auto simp: copyFileRange_linux_def dest: copy_err split: sum.splits prod.splits if_splits)
qed

sublocale posix_files \<subseteq> other: range_copier K contents same copyFileRange_other
  by unfold_locales (simp_all add: copyFileRange_other_def)

section \<open>A disk\<close>

text \<open>A machine that keeps the promises: files by inode, at most \<open>Suc cap\<close> bytes per call.\<close>

type_synonym disk = "u64 \<Rightarrow> bytes"

definition disk_kernel :: "(open_ref \<Rightarrow> u64) \<Rightarrow> nat \<Rightarrow> disk kernel" where
  "disk_kernel ino cap =
     \<lparr>k_pread = (\<lambda>d h n off. Inr (file_range (nat off) (min n (Suc cap)) (d (ino h)))),
      k_pwrite = (\<lambda>d h data off.
        (d(ino h := splice (nat off) (take (Suc cap) data) (d (ino h))), Inr (length (take (Suc cap) data)))),
      k_copy_file_range = (\<lambda>d dst src so to len.
        let bs = file_range (nat so) (min len (Suc cap)) (d (ino src))
        in (d(ino dst := splice (nat to) bs (d (ino dst))), Inr (length bs))),
      k_fstat = (\<lambda>d h. Inr \<lparr>st_regular = True, st_size = int (length (d (ino h))), st_key = \<lparr>fk_dev = 0, fk_ino = ino h\<rparr>\<rparr>),
      k_fsync = (\<lambda>d h. d)\<rparr>"

interpretation disk: posix_files "disk_kernel ino cap" "\<lambda>d h. d (ino h)" "\<lambda>h h'. ino h = ino h'" for ino cap
proof
  show "length bs \<le> n \<and> bs = file_range (nat off) (length bs) (k (ino h)) \<and> (bs = [] \<longrightarrow> n = 0 \<or> length (k (ino h)) \<le> nat off)"
    if "k_pread (disk_kernel ino cap) k h n off = Inr bs" for k h n off bs
    using that by (auto simp: disk_kernel_def file_range_def min_def split: if_splits)
  show "n \<le> length data \<and> k' (ino h') = (if ino h = ino h' then splice (nat off) (take n data) (k (ino h')) else k (ino h'))"
    if "k_pwrite (disk_kernel ino cap) k h data off = (k', Inr n)" for k h data off k' n h'
    using that by (auto simp: disk_kernel_def min_def)
  show "n \<le> len \<and> nat so + n \<le> max (nat so) (length (k (ino src))) \<and>
      k' (ino h') = (if ino dst = ino h' then splice (nat to) (file_range (nat so) n (k (ino src))) (k (ino h')) else k (ino h'))"
    if "k_copy_file_range (disk_kernel ino cap) k dst src so to len = (k', Inr n)" for k dst src so to len k' n h'
  proof -
    let ?bs = "file_range (nat so) (min len (Suc cap)) (k (ino src))"
    from that have n: "n = length ?bs" and k': "k' = k(ino dst := splice (nat to) ?bs (k (ino dst)))"
      by (auto simp: disk_kernel_def Let_def)
    have "?bs = file_range (nat so) n (k (ino src))" unfolding n by (auto simp: file_range_def min_def)
    moreover have "n \<le> len" "nat so + n \<le> max (nat so) (length (k (ino src)))" unfolding n by (auto simp: file_range_def)
    ultimately show ?thesis unfolding k' by simp
  qed
qed (auto simp: disk_kernel_def Let_def)

end
