(* ===== verification/Copy_Chunk.thy ===== *)
theory Copy_Chunk
  imports Tree_Connect Go_Files
begin

text \<open>
  Server-side copy (\<^verbatim>\<open>internal/parent/copychunk.go\<close>): the two IOCTL handlers
  \<^verbatim>\<open>handleResumeKey\<close> and \<^verbatim>\<open>handleCopyChunk\<close>, the validation of a chunk list and the copying
  itself, over the resume keys of \<open>Resume_Keys\<close> and the files of \<open>Go_Files\<close>.
\<close>

definition maxCopyChunkCount :: u32 where "maxCopyChunkCount = 256"
definition maxCopyChunkSize :: u32 where "maxCopyChunkSize = 0x100000"
definition maxCopyChunkTotal :: u32 where "maxCopyChunkTotal = 0x1000000"

definition copyChunkReadAccess :: u32 where
  "copyChunkReadAccess = accFileReadData OR AccessGenericRead OR AccessGenericAll"

definition copyChunkWriteAccess :: u32 where
  "copyChunkWriteAccess = accFileWriteData OR accFileAppendData OR AccessGenericWrite OR AccessGenericAll"

abbreviation (input) FsctlSrvCopyChunk :: u32 where "FsctlSrvCopyChunk \<equiv> 0x001440F2"
abbreviation (input) FsctlSrvCopyChunkWrite :: u32 where "FsctlSrvCopyChunkWrite \<equiv> 0x001480F2"

definition copyChunkLimits :: "bytes option" where
  "copyChunkLimits = EncodeSrvCopyChunkResponse maxCopyChunkCount maxCopyChunkSize maxCopyChunkTotal"

section \<open>Answers\<close>

definition respondWithStatus :: "dispatcher \<Rightarrow> header \<Rightarrow> sess_ref option \<Rightarrow> Status \<Rightarrow> bytes \<Rightarrow> 'k dstate \<Rightarrow> 'k dstate option" where
  "respondWithStatus d hdr sess status body ds = respond d hdr sess status body ds"

text \<open>An IOCTL response around an output buffer.\<close>

definition ioctl_reply :: "ioctl_request \<Rightarrow> bytes option \<Rightarrow> bytes option" where
  "ioctl_reply req out =
     Option.bind out (\<lambda>buf. EncodeIoctlResponse
       \<lparr>iop_CtlCode = io_CtlCode req, iop_FileID = io_FileID req, iop_OutputBuffer = buf, iop_Flags = 0\<rparr>)"

definition respondCopyChunkRefusal :: "dispatcher \<Rightarrow> header \<Rightarrow> sess_ref \<Rightarrow> ioctl_request \<Rightarrow> 'k dstate \<Rightarrow> 'k dstate option" where
  "respondCopyChunkRefusal d hdr r req ds =
     Option.bind (ioctl_reply req copyChunkLimits)
       (\<lambda>body. respondWithStatus d hdr (Some r) StatusInvalidParameter body ds)"

section \<open>Resume keys\<close>

definition handleResumeKey :: "resume_key option \<Rightarrow> dispatcher \<Rightarrow> header \<Rightarrow> ioctl_request \<Rightarrow> sess_ref \<Rightarrow> 'k dstate \<Rightarrow> (bool \<times> 'k dstate) option" where
  "handleResumeKey rand d hdr req r ds =
     (case GetOpen (io_FileID req) (ds_session ds r) of
        None \<Rightarrow> keep (respondError d hdr StatusInvalidParameter (Some r) ds)
      | Some h \<Rightarrow>
          let op = hs_opens (sv_handles (ds_sv ds)) h in
          if o_IsPipe op \<or> o_IsStream op then keep (respondError d hdr StatusNotSupported (Some r) ds)
          else case issue rand r h (sv_resume (ds_sv ds) (d_host d)) of (key, rk') \<Rightarrow>
            let ds' = ds\<lparr>ds_sv := (ds_sv ds)\<lparr>sv_resume := (sv_resume (ds_sv ds))(d_host d := rk')\<rparr>\<rparr> in
            (case key of
               None \<Rightarrow> keep (respondError d hdr StatusInsufficientResources (Some r) ds')
             | Some k \<Rightarrow>
                 Option.bind (ioctl_reply req (EncodeResumeKeyResponse k))
                   (\<lambda>body. keep (respondSuccess d hdr (Some r) body ds'))))"

section \<open>Validation\<close>

definition maxFileOffset :: u64 where
  "maxFileOffset = 0x7FFFFFFFFFFFFFFF"

text \<open>The first pass measures the request, the second looks at each chunk.\<close>

fun sizes_within :: "srv_copy_chunk list \<Rightarrow> u64 \<Rightarrow> bool" where
  "sizes_within [] sofar = True"
| "sizes_within (ch # chs) sofar =
     (if cc_Length ch = 0 \<or> cc_Length ch > maxCopyChunkSize then False
      else let sum' = sofar + ucast (cc_Length ch) in
           if sum' > ucast maxCopyChunkTotal then False else sizes_within chs sum')"

fun ranges_status :: "srv_copy_chunk list \<Rightarrow> u64 \<Rightarrow> Status" where
  "ranges_status [] srcSize = StatusSuccess"
| "ranges_status (ch # chs) srcSize =
     (if cc_SourceOffset ch > maxFileOffset \<or> cc_TargetOffset ch > maxFileOffset then StatusInvalidParameter
      else let srcEnd = cc_SourceOffset ch + ucast (cc_Length ch) in
           if srcEnd > maxFileOffset \<or> cc_TargetOffset ch + ucast (cc_Length ch) > maxFileOffset then StatusInvalidParameter
           else if srcEnd > srcSize then StatusInvalidViewSize
           else ranges_status chs srcSize)"

definition validateCopyChunks :: "srv_copy_chunk list \<Rightarrow> u64 \<Rightarrow> Status \<times> bool" where
  "validateCopyChunks chunks srcSize =
     (if \<not> sizes_within chunks 0 then (StatusInvalidParameter, False)
      else let status = ranges_status chunks srcSize in (status, status = StatusSuccess))"

definition sameUnderlyingFile :: "'k kernel \<Rightarrow> 'k \<Rightarrow> open_ref \<Rightarrow> open_ref \<Rightarrow> bool" where
  "sameUnderlyingFile K k a b =
     (case k_fstat K k a of Inl _ \<Rightarrow> False
      | Inr ai \<Rightarrow> (case k_fstat K k b of Inl _ \<Rightarrow> False | Inr bi \<Rightarrow> st_key ai = st_key bi))"

fun chunksOverlap :: "srv_copy_chunk list \<Rightarrow> bool" where
  "chunksOverlap [] = False"
| "chunksOverlap (ch # chs) =
     (let n = ucast (cc_Length ch) :: u64 in
      if cc_SourceOffset ch < cc_TargetOffset ch + n \<and> cc_TargetOffset ch < cc_SourceOffset ch + n then True
      else chunksOverlap chs)"

section \<open>The copy\<close>

text \<open>Chunks written, bytes written, and where it stopped: the bytes of the failed chunk and the error.\<close>

fun copy_chunks :: "'k copy_call \<Rightarrow> 'k kernel \<Rightarrow> open_ref \<Rightarrow> open_ref \<Rightarrow> srv_copy_chunk list \<Rightarrow> u32 \<Rightarrow> u32 \<Rightarrow> 'k
    \<Rightarrow> 'k \<times> u32 \<times> u32 \<times> (nat \<times> go_err) option" where
  "copy_chunks copy K dst src [] chunksWritten totalWritten k = (k, chunksWritten, totalWritten, None)"
| "copy_chunks copy K dst src (ch # chs) chunksWritten totalWritten k =
     (case copyRange copy K k dst src (sint (cc_SourceOffset ch)) (sint (cc_TargetOffset ch)) (unat (cc_Length ch)) of
        (k', n, err) \<Rightarrow>
          let sum' = totalWritten + word_of_nat n in
          if err \<noteq> None \<or> n \<noteq> unat (cc_Length ch)
          then (k', chunksWritten, sum', Some (n, case err of None \<Rightarrow> ErrUnexpectedEOF | Some e \<Rightarrow> e))
          else copy_chunks copy K dst src chs (chunksWritten + 1) sum' k')"

definition plain_file :: "Open \<Rightarrow> bool" where
  "plain_file op \<longleftrightarrow> \<not> (\<not> o_HasFile op \<or> o_IsDir op \<or> o_IsPipe op \<or> o_IsStream op)"

definition read_only_tree :: "Open \<Rightarrow> bool" where
  "read_only_tree op = (case o_Tree op of None \<Rightarrow> False | Some t \<Rightarrow> sc_ReadOnly (t_Share t))"

definition perform_copy :: "'k copy_call \<Rightarrow> 'k kernel \<Rightarrow> dispatcher \<Rightarrow> header \<Rightarrow> ioctl_request \<Rightarrow> sess_ref
    \<Rightarrow> open_ref \<Rightarrow> open_ref \<Rightarrow> srv_copy_chunk list \<Rightarrow> 'k dstate \<Rightarrow> (bool \<times> 'k dstate) option" where
  "perform_copy copy K d hdr req r target source chunks ds =
     (case copy_chunks copy K target source chunks 0 0 (ds_k ds) of
        (k', chunksWritten, totalWritten, stop) \<Rightarrow>
          let ds' = ds\<lparr>ds_k := k'\<rparr> in
          (case stop of
             Some (n, e) \<Rightarrow>
               Option.bind (ioctl_reply req (EncodeSrvCopyChunkResponse chunksWritten (word_of_nat n) totalWritten))
                 (\<lambda>body. keep (respondWithStatus d hdr (Some r) (statusFromErr (Some e)) body ds'))
           | None \<Rightarrow>
               Option.bind (ioctl_reply req (EncodeSrvCopyChunkResponse chunksWritten 0 totalWritten))
                 (\<lambda>body. keep (respondSuccess d hdr (Some r) body ds'))))"

definition handleCopyChunk :: "'k copy_call \<Rightarrow> 'k kernel \<Rightarrow> dispatcher \<Rightarrow> header \<Rightarrow> ioctl_request \<Rightarrow> sess_ref \<Rightarrow> 'k dstate \<Rightarrow> (bool \<times> 'k dstate) option" where
  "handleCopyChunk copy K d hdr req r ds =
     (let heap = hs_opens (sv_handles (ds_sv ds));
          fail = (\<lambda>status. keep (respondError d hdr status (Some r) ds));
          refuse = keep (respondCopyChunkRefusal d hdr r req ds) in
      case GetOpen (io_FileID req) (ds_session ds r) of
        None \<Rightarrow> fail StatusInvalidParameter
      | Some target \<Rightarrow>
          if \<not> plain_file (heap target) then fail StatusInvalidParameter
          else if read_only_tree (heap target) then fail StatusAccessDenied
          else if o_GrantedAccess (heap target) AND copyChunkWriteAccess = 0 then fail StatusAccessDenied
          else if io_CtlCode req = FsctlSrvCopyChunk \<and> o_GrantedAccess (heap target) AND copyChunkReadAccess = 0
            then fail StatusAccessDenied
          else case DecodeSrvCopyChunkCopy (io_InputBuffer req) maxCopyChunkCount of
            None \<Rightarrow> None
          | Some (Inl _) \<Rightarrow> refuse
          | Some (Inr cc) \<Rightarrow>
              (case resolve (ccc_SourceKey cc) r (sv_resume (ds_sv ds) (d_host d)) of
                 None \<Rightarrow> fail StatusObjectNameNotFound
               | Some source \<Rightarrow>
                   if \<not> plain_file (heap source) then fail StatusInvalidParameter
                   else if o_GrantedAccess (heap source) AND copyChunkReadAccess = 0 then fail StatusAccessDenied
                   else case k_fstat K (ds_k ds) source of
                     Inl e \<Rightarrow> fail (statusFromErr (Some (Errno e)))
                   | Inr st \<Rightarrow>
                       (case validateCopyChunks (ccc_Chunks cc) (word_of_int (st_size st)) of
                          (status, False) \<Rightarrow> if status = StatusInvalidParameter then refuse else fail status
                        | (_, True) \<Rightarrow>
                            if sameUnderlyingFile K (ds_k ds) source target \<and> chunksOverlap (ccc_Chunks cc) then refuse
                            else perform_copy copy K d hdr req r target source (ccc_Chunks cc) ds)))"

section \<open>What passes validation\<close>

definition chunk_fits :: "nat \<Rightarrow> srv_copy_chunk \<Rightarrow> bool" where
  "chunk_fits sz ch \<longleftrightarrow>
     0 < unat (cc_Length ch) \<and> unat (cc_Length ch) \<le> 2 ^ 20
     \<and> unat (cc_SourceOffset ch) + unat (cc_Length ch) \<le> sz
     \<and> unat (cc_SourceOffset ch) + unat (cc_Length ch) < 2 ^ 63
     \<and> unat (cc_TargetOffset ch) + unat (cc_Length ch) < 2 ^ 63"

definition copy_size :: "srv_copy_chunk list \<Rightarrow> nat" where
  "copy_size chs = (\<Sum>ch\<leftarrow>chs. unat (cc_Length ch))"

lemma copy_size_simps [simp]:
  "copy_size [] = 0" "copy_size (ch # chs) = unat (cc_Length ch) + copy_size chs"
  by (simp_all add: copy_size_def)

lemma unat_ucast_up: "unat (ucast (x :: u32) :: u64) = unat x"
  by (simp add: unsigned_ucast_eq take_bit_nat_eq_self_iff unsigned_less [THEN less_le_trans])

lemma unat_add_small:
  fixes a :: u64 and b :: u32
  assumes "unat a < 2 ^ 63"
  shows "unat (a + ucast b) = unat a + unat b"
proof -
  have "unat b < 2 ^ 32" using unsigned_less [of b] by simp
  with assms show ?thesis by (simp add: unat_word_ariths unat_ucast_up)
qed

lemma sizes_within_iff:
  "unat sofar \<le> 2 ^ 24 \<Longrightarrow> sizes_within chs sofar \<longleftrightarrow>
     (\<forall>ch \<in> set chs. 0 < unat (cc_Length ch) \<and> unat (cc_Length ch) \<le> 2 ^ 20) \<and> unat sofar + copy_size chs \<le> 2 ^ 24"
proof (induction chs arbitrary: sofar)
  case (Cons ch chs)
  have un: "unat (sofar + ucast (cc_Length ch)) = unat sofar + unat (cc_Length ch)"
    using Cons.prems by (intro unat_add_small) simp
  have lim: "sofar + ucast (cc_Length ch) > (ucast maxCopyChunkTotal :: u64) \<longleftrightarrow> unat sofar + unat (cc_Length ch) > 2 ^ 24"
    unfolding word_less_nat_alt un by (simp add: maxCopyChunkTotal_def)
  have len: "cc_Length ch = 0 \<longleftrightarrow> unat (cc_Length ch) = 0"
    "cc_Length ch > maxCopyChunkSize \<longleftrightarrow> unat (cc_Length ch) > 2 ^ 20"
    by (simp_all add: unat_eq_0 word_less_nat_alt maxCopyChunkSize_def)
  show ?case
  proof (cases "unat sofar + unat (cc_Length ch) \<le> 2 ^ 24")
    case True
    with Cons.IH [of "sofar + ucast (cc_Length ch)"] show ?thesis
      unfolding sizes_within.simps Let_def lim len un by auto
  next
    case False
    then show ?thesis unfolding sizes_within.simps Let_def lim len by auto
  qed
qed simp

lemma ranges_status_iff:
  "ranges_status chs sz = StatusSuccess \<longleftrightarrow>
     (\<forall>ch \<in> set chs. unat (cc_SourceOffset ch) + unat (cc_Length ch) \<le> unat sz
        \<and> unat (cc_SourceOffset ch) + unat (cc_Length ch) < 2 ^ 63
        \<and> unat (cc_TargetOffset ch) + unat (cc_Length ch) < 2 ^ 63)"
proof (induction chs)
  case (Cons ch chs)
  have off: "x > maxFileOffset \<longleftrightarrow> unat x \<ge> 2 ^ 63" for x :: u64
    unfolding word_less_nat_alt maxFileOffset_def by simp linarith
  show ?case
  proof (cases "unat (cc_SourceOffset ch) < 2 ^ 63 \<and> unat (cc_TargetOffset ch) < 2 ^ 63")
    case True
    then show ?thesis
      using Cons.IH unfolding ranges_status.simps Let_def off
      by (auto simp: unat_add_small word_less_nat_alt not_less)
  next
    case False
    then show ?thesis unfolding ranges_status.simps off by auto
  qed
qed simp

lemma validateCopyChunks_iff:
  "snd (validateCopyChunks chs sz) \<longleftrightarrow> (\<forall>ch \<in> set chs. chunk_fits (unat sz) ch) \<and> copy_size chs \<le> 2 ^ 24"
  by (auto simp: validateCopyChunks_def Let_def sizes_within_iff ranges_status_iff chunk_fits_def)

lemma validateCopyChunks_status:
  "\<not> snd (validateCopyChunks chs sz) \<Longrightarrow> fst (validateCopyChunks chs sz) \<noteq> StatusSuccess"
  by (auto simp: validateCopyChunks_def Let_def)

text \<open>A chunk that fits overlaps itself exactly when its ranges meet.\<close>

lemma chunksOverlap_iff:
  "\<forall>ch \<in> set chs. chunk_fits sz ch \<Longrightarrow> chunksOverlap chs \<longleftrightarrow>
     (\<exists>ch \<in> set chs. unat (cc_SourceOffset ch) < unat (cc_TargetOffset ch) + unat (cc_Length ch)
        \<and> unat (cc_TargetOffset ch) < unat (cc_SourceOffset ch) + unat (cc_Length ch))"
proof (induction chs)
  case (Cons ch chs)
  then have "unat (cc_SourceOffset ch) < 2 ^ 63" "unat (cc_TargetOffset ch) < 2 ^ 63"
    by (auto simp: chunk_fits_def)
  with Cons show ?case by (auto simp: Let_def word_less_nat_alt unat_add_small)
qed simp

section \<open>What a copy leaves in the files\<close>

text \<open>The chunks one after the other; when source and target are one file, each chunk reads what the
  ones before it left.\<close>

fun copy_spec :: "bool \<Rightarrow> srv_copy_chunk list \<Rightarrow> bytes \<Rightarrow> bytes \<Rightarrow> bytes" where
  "copy_spec one [] src dst = dst"
| "copy_spec one (ch # chs) src dst =
     (let dst' = splice (unat (cc_TargetOffset ch)) (file_range (unat (cc_SourceOffset ch)) (unat (cc_Length ch)) src) dst
      in copy_spec one chs (if one then dst' else src) dst')"

lemma sint_small:
  assumes "unat (x :: u64) < 2 ^ 63"
  shows "sint x = int (unat x)"
proof -
  have "uint x < 2 ^ 63" using assms by (metis of_nat_less_iff of_nat_numeral of_nat_power uint_nat)
  moreover have "0 \<le> uint x" by simp
  ultimately have "signed_take_bit 63 (uint x) = uint x" by (intro signed_take_bit_int_eq_self) linarith+
  then show ?thesis by (simp add: sint_uint)
qed

context range_copier
begin

lemma chunk_copied:
  assumes fits: "chunk_fits (length (contents k src)) ch"
    and ap: "same dst src \<longrightarrow> \<not> (unat (cc_SourceOffset ch) < unat (cc_TargetOffset ch) + unat (cc_Length ch)
        \<and> unat (cc_TargetOffset ch) < unat (cc_SourceOffset ch) + unat (cc_Length ch))"
    and run: "copyRange copy K k dst src (sint (cc_SourceOffset ch)) (sint (cc_TargetOffset ch)) (unat (cc_Length ch)) = (k', n, err)"
  shows "\<exists>m \<le> unat (cc_Length ch).
    wrote dst (unat (cc_TargetOffset ch)) (file_range (unat (cc_SourceOffset ch)) m (contents k src)) k k'
    \<and> n \<le> m \<and> (err = None \<longrightarrow> m = unat (cc_Length ch) \<and> n = unat (cc_Length ch))"
proof -
  have off: "sint (cc_SourceOffset ch) = int (unat (cc_SourceOffset ch))" "sint (cc_TargetOffset ch) = int (unat (cc_TargetOffset ch))"
    using fits by (intro sint_small; simp add: chunk_fits_def)+
  have "apart k dst src (unat (cc_SourceOffset ch)) (unat (cc_TargetOffset ch)) (unat (cc_Length ch))"
    using fits ap by (auto simp: apart_def chunk_fits_def)
  then show ?thesis
    using copyRange_exact [OF _ _ _ run] unfolding off by (auto simp: copied_def)
qed

lemma copy_chunks_exact:
  assumes "\<forall>ch \<in> set chs. chunk_fits (length (contents k src)) ch"
    and "same dst src \<longrightarrow> (\<forall>ch \<in> set chs. \<not> (unat (cc_SourceOffset ch) < unat (cc_TargetOffset ch) + unat (cc_Length ch)
        \<and> unat (cc_TargetOffset ch) < unat (cc_SourceOffset ch) + unat (cc_Length ch)))"
    and "copy_chunks copy K dst src chs cw tw k = (k', cw', tw', stop)"
  shows "(\<forall>h. \<not> same dst h \<longrightarrow> contents k' h = contents k h)
    \<and> (stop = None \<longrightarrow> (\<forall>h. same dst h \<longrightarrow> contents k' h = copy_spec (same dst src) chs (contents k src) (contents k h))
         \<and> cw' = cw + word_of_nat (length chs) \<and> tw' = tw + word_of_nat (copy_size chs))"
  using assms
proof (induction chs arbitrary: k cw tw)
  case (Cons ch chs)
  obtain k1 n err where run: "copyRange copy K k dst src (sint (cc_SourceOffset ch)) (sint (cc_TargetOffset ch)) (unat (cc_Length ch)) = (k1, n, err)"
    by (metis prod_cases3)
  from chunk_copied [OF _ _ run] Cons.prems(1,2) obtain m where m: "m \<le> unat (cc_Length ch)"
    "wrote dst (unat (cc_TargetOffset ch)) (file_range (unat (cc_SourceOffset ch)) m (contents k src)) k k1"
    "err = None \<longrightarrow> m = unat (cc_Length ch) \<and> n = unat (cc_Length ch)" by auto
  show ?case
  proof (cases "err = None")
    case False
    then show ?thesis using Cons.prems(3) run m(2) by (auto simp: Let_def written_def split: option.splits)
  next
    case True
    with m run have eff: "wrote dst (unat (cc_TargetOffset ch)) (file_range (unat (cc_SourceOffset ch)) (unat (cc_Length ch)) (contents k src)) k k1"
      and n: "n = unat (cc_Length ch)" by auto
    have go: "copy_chunks copy K dst src chs (cw + 1) (tw + word_of_nat n) k1 = (k', cw', tw', stop)"
      using Cons.prems(3) run True n by (simp add: Let_def)
    have src: "contents k1 src = (if same dst src then splice (unat (cc_TargetOffset ch)) (file_range (unat (cc_SourceOffset ch))
        (unat (cc_Length ch)) (contents k src)) (contents k src) else contents k src)"
      using eff by (simp add: written_def)
    then have "length (contents k src) \<le> length (contents k1 src)" by (simp add: length_splice_le)
    then have "\<forall>ch \<in> set chs. chunk_fits (length (contents k1 src)) ch"
      using Cons.prems(1) by (auto simp: chunk_fits_def)
    note IH = Cons.IH [OF this _ go]
    have "copy_spec (same dst src) (ch # chs) (contents k src) (contents k h) = copy_spec (same dst src) chs (contents k1 src) (contents k1 h)"
      if "same dst h" for h
    proof -
      have "same dst src \<Longrightarrow> contents k src = contents k h" using same_contents that by metis
      with that src eff show ?thesis by (auto simp: Let_def written_def)
    qed
    with IH Cons.prems(2) n eff show ?thesis by (auto simp: written_def)
  qed
qed simp

end

section \<open>The handler\<close>

definition turned_down :: "header \<Rightarrow> sess_ref \<Rightarrow> 'k dstate \<Rightarrow> (bool \<times> 'k dstate) option \<Rightarrow> bool" where
  "turned_down hdr r ds res \<longleftrightarrow>
     (\<exists>status body ds'. res = Some (True, ds') \<and> answered hdr status (Some r) body ds ds' \<and> status \<noteq> StatusSuccess)"

lemma respond_keep:
  "\<exists>ds'. keep (respond d hdr sess status body ds) = Some (True, ds') \<and> answered hdr status sess body ds ds'"
  using respond_answered [of d hdr sess status body ds] by auto

lemma turned_down_error:
  "status \<noteq> StatusSuccess \<Longrightarrow> turned_down hdr r ds (keep (respondError d hdr status (Some r) ds))"
  unfolding turned_down_def respondError_def using respond_keep by blast

lemma EncodeSrvCopyChunkResponse_Some: "\<exists>b. EncodeSrvCopyChunkResponse x y z = Some b \<and> length b = 12"
  by (simp add: EncodeSrvCopyChunkResponse_def go_panic)

lemma ioctl_reply_Some:
  "length (io_FileID req) = 16 \<Longrightarrow> \<exists>b. ioctl_reply req (Some out) = Some b"
  by (simp add: ioctl_reply_def EncodeIoctlResponse_def go_panic)

lemma copy_reply_Some:
  "length (io_FileID req) = 16 \<Longrightarrow> \<exists>b. ioctl_reply req (EncodeSrvCopyChunkResponse x y z) = Some b"
  using EncodeSrvCopyChunkResponse_Some [of x y z] ioctl_reply_Some by metis

lemma turned_down_refusal:
  assumes "length (io_FileID req) = 16"
  shows "turned_down hdr r ds (keep (respondCopyChunkRefusal d hdr r req ds))"
proof -
  obtain b where "ioctl_reply req copyChunkLimits = Some b"
    using copy_reply_Some [OF assms] unfolding copyChunkLimits_def by blast
  then have "respondCopyChunkRefusal d hdr r req ds = respond d hdr (Some r) StatusInvalidParameter b ds"
    by (simp add: respondCopyChunkRefusal_def respondWithStatus_def)
  then show ?thesis unfolding turned_down_def using respond_keep by (metis Status.distinct(3))
qed

text \<open>What must hold before a byte moves.\<close>

definition copy_permitted :: "'k kernel \<Rightarrow> dispatcher \<Rightarrow> ioctl_request \<Rightarrow> sess_ref \<Rightarrow> 'k dstate \<Rightarrow> open_ref \<Rightarrow> open_ref \<Rightarrow> srv_copy_chunk list \<Rightarrow> bool" where
  "copy_permitted K d req r ds target source chunks \<longleftrightarrow>
     (let heap = hs_opens (sv_handles (ds_sv ds)) in
      GetOpen (io_FileID req) (ds_session ds r) = Some target \<and> plain_file (heap target) \<and> \<not> read_only_tree (heap target)
      \<and> o_GrantedAccess (heap target) AND copyChunkWriteAccess \<noteq> 0
      \<and> (io_CtlCode req = FsctlSrvCopyChunk \<longrightarrow> o_GrantedAccess (heap target) AND copyChunkReadAccess \<noteq> 0)
      \<and> (\<exists>key. DecodeSrvCopyChunkCopy (io_InputBuffer req) maxCopyChunkCount = Some (Inr \<lparr>ccc_SourceKey = key, ccc_Chunks = chunks\<rparr>)
           \<and> (key, r, source) \<in> capabilities (sv_resume (ds_sv ds) (d_host d)))
      \<and> plain_file (heap source) \<and> o_GrantedAccess (heap source) AND copyChunkReadAccess \<noteq> 0
      \<and> (\<exists>st. k_fstat K (ds_k ds) source = Inr st \<and> (\<forall>ch \<in> set chunks. chunk_fits (unat (word_of_int (st_size st) :: u64)) ch))
      \<and> copy_size chunks \<le> 2 ^ 24
      \<and> \<not> (sameUnderlyingFile K (ds_k ds) source target \<and> chunksOverlap chunks))"

lemma handleCopyChunk_cases:
  assumes fid: "length (io_FileID req) = 16"
  shows "turned_down hdr r ds (handleCopyChunk copy K d hdr req r ds) \<or>
    (\<exists>target source chunks. copy_permitted K d req r ds target source chunks
       \<and> handleCopyChunk copy K d hdr req r ds = perform_copy copy K d hdr req r target source chunks ds)"
proof -
  note down = turned_down_error turned_down_refusal [OF fid]
  let ?heap = "hs_opens (sv_handles (ds_sv ds))" and ?run = "handleCopyChunk copy K d hdr req r ds"
  have dec: "DecodeSrvCopyChunkCopy (io_InputBuffer req) maxCopyChunkCount \<noteq> None" by (rule DecodeSrvCopyChunkCopy_no_panic)
  note hc = handleCopyChunk_def [of copy K d hdr req r ds, unfolded Let_def]
  show ?thesis
  proof (cases "turned_down hdr r ds ?run")
    case False
    obtain target where t: "GetOpen (io_FileID req) (ds_session ds r) = Some target"
      using False by (cases "GetOpen (io_FileID req) (ds_session ds r)") (auto simp: hc down)
    let ?reads = "\<not> (io_CtlCode req = FsctlSrvCopyChunk \<and> o_GrantedAccess (?heap target) AND copyChunkReadAccess = 0)"
    have tok: "plain_file (?heap target)" "\<not> read_only_tree (?heap target)" "o_GrantedAccess (?heap target) AND copyChunkWriteAccess \<noteq> 0" ?reads
      using False t unfolding hc by (simp_all add: down split: if_splits)
    obtain cc where cc: "DecodeSrvCopyChunkCopy (io_InputBuffer req) maxCopyChunkCount = Some (Inr cc)"
      using False dec t unfolding hc by (auto simp: tok down split: sum.splits option.splits)
    obtain source where s: "resolve (ccc_SourceKey cc) r (sv_resume (ds_sv ds) (d_host d)) = Some source"
      using False t cc unfolding hc by (auto simp: tok down split: option.splits)
    have sok: "plain_file (?heap source)" "o_GrantedAccess (?heap source) AND copyChunkReadAccess \<noteq> 0"
      using False t cc s unfolding hc by (simp_all add: tok down split: if_splits)
    obtain st where st: "k_fstat K (ds_k ds) source = Inr st"
      using False t cc s unfolding hc by (auto simp: tok sok down split: sum.splits)
    obtain status ok where v: "validateCopyChunks (ccc_Chunks cc) (word_of_int (st_size st)) = (status, ok)" by fastforce
    have ok: "ok"
      using False t cc s st v validateCopyChunks_status [of "ccc_Chunks cc" "word_of_int (st_size st)"]
      unfolding hc by (cases ok) (simp_all add: tok sok down split: if_splits)
    have no: "\<not> (sameUnderlyingFile K (ds_k ds) source target \<and> chunksOverlap (ccc_Chunks cc))"
      using False t cc s st v ok unfolding hc by (simp add: tok sok down split: if_splits)
    have run: "?run = perform_copy copy K d hdr req r target source (ccc_Chunks cc) ds"
      using t cc s st v ok no unfolding hc by (auto simp: tok sok)
    have "copy_permitted K d req r ds target source (ccc_Chunks cc)"
      using t tok cc s sok st v ok no validateCopyChunks_iff [of "ccc_Chunks cc" "word_of_int (st_size st)"]
      unfolding copy_permitted_def Let_def capabilities_def
      by (auto intro!: exI [of _ "ccc_SourceKey cc"])
    with run show ?thesis by blast
  qed blast
qed

lemma handleCopyChunk_permitted:
  assumes "copy_permitted K d req r ds target source chunks"
  shows "handleCopyChunk copy K d hdr req r ds = perform_copy copy K d hdr req r target source chunks ds"
proof -
  from assms obtain key st where *: "GetOpen (io_FileID req) (ds_session ds r) = Some target"
    "DecodeSrvCopyChunkCopy (io_InputBuffer req) maxCopyChunkCount = Some (Inr \<lparr>ccc_SourceKey = key, ccc_Chunks = chunks\<rparr>)"
    "resolve key r (sv_resume (ds_sv ds) (d_host d)) = Some source" "k_fstat K (ds_k ds) source = Inr st"
    and v: "snd (validateCopyChunks chunks (word_of_int (st_size st)))"
    and no: "\<not> (sameUnderlyingFile K (ds_k ds) source target \<and> chunksOverlap chunks)"
    unfolding copy_permitted_def Let_def validateCopyChunks_iff capabilities_def by auto
  from v obtain status where "validateCopyChunks chunks (word_of_int (st_size st)) = (status, True)" by (metis prod.collapse)
  with * no assms show ?thesis by (auto simp: handleCopyChunk_def copy_permitted_def Let_def)
qed

lemma perform_copy_answers:
  assumes fid: "length (io_FileID req) = 16"
    and run: "copy_chunks copy K target source chunks 0 0 (ds_k ds) = (k', cw, tw, stop)"
  shows "\<exists>ds' status body. perform_copy copy K d hdr req r target source chunks ds = Some (True, ds')
    \<and> answered hdr status (Some r) body (ds\<lparr>ds_k := k'\<rparr>) ds' \<and> (status = StatusSuccess \<longleftrightarrow> stop = None)
    \<and> (stop = None \<longrightarrow> ioctl_reply req (EncodeSrvCopyChunkResponse cw 0 tw) = Some body)"
proof (cases stop)
  case None
  obtain b where b: "ioctl_reply req (EncodeSrvCopyChunkResponse cw 0 tw) = Some b" using copy_reply_Some [OF fid] by blast
  with run None respond_keep [of d hdr "Some r" StatusSuccess b "ds\<lparr>ds_k := k'\<rparr>"] show ?thesis
    by (fastforce simp: perform_copy_def Let_def respondSuccess_def)
next
  case (Some ne)
  then obtain n e where ne: "stop = Some (n, e)" by (cases ne) auto
  obtain b where b: "ioctl_reply req (EncodeSrvCopyChunkResponse cw (word_of_nat n) tw) = Some b" using copy_reply_Some [OF fid] by blast
  have "statusFromErr (Some e) \<noteq> StatusSuccess" by simp
  with run ne b respond_keep [of d hdr "Some r" "statusFromErr (Some e)" b "ds\<lparr>ds_k := k'\<rparr>"] show ?thesis
    by (fastforce simp: perform_copy_def Let_def respondWithStatus_def)
qed

text \<open>\<open>fstat\<close> succeeds on the descriptors of the two handles of a request, and they are open on regular files.\<close>

definition regular_handle :: "'k kernel \<Rightarrow> 'k \<Rightarrow> open_ref \<Rightarrow> bool" where
  "regular_handle K k h \<longleftrightarrow> (\<exists>st. k_fstat K k h = Inr st \<and> st_regular st)"

definition copies_regular :: "'k kernel \<Rightarrow> dispatcher \<Rightarrow> ioctl_request \<Rightarrow> sess_ref \<Rightarrow> 'k dstate \<Rightarrow> bool" where
  "copies_regular K d req r ds \<longleftrightarrow>
     (\<forall>target source chunks. copy_permitted K d req r ds target source chunks \<longrightarrow>
        regular_handle K (ds_k ds) target \<and> regular_handle K (ds_k ds) source)"

context range_copier
begin

lemma permitted_copy:
  assumes reg: "copies_regular K d req r ds" and perm: "copy_permitted K d req r ds target source chunks"
    and run: "copy_chunks copy K target source chunks 0 0 (ds_k ds) = (k', cw, tw, stop)"
  shows "(\<forall>h. \<not> same target h \<longrightarrow> contents k' h = contents (ds_k ds) h)
    \<and> (stop = None \<longrightarrow> (\<forall>h. same target h \<longrightarrow>
          contents k' h = copy_spec (same target source) chunks (contents (ds_k ds) source) (contents (ds_k ds) h))
        \<and> cw = word_of_nat (length chunks) \<and> tw = word_of_nat (copy_size chunks))"
proof -
  from perm obtain st where st: "k_fstat K (ds_k ds) source = Inr st"
    and fits: "\<forall>ch \<in> set chunks. chunk_fits (unat (word_of_int (st_size st) :: u64)) ch"
    and no: "\<not> (sameUnderlyingFile K (ds_k ds) source target \<and> chunksOverlap chunks)"
    unfolding copy_permitted_def Let_def by blast
  have reg': "regular_handle K (ds_k ds) target" "regular_handle K (ds_k ds) source"
    using reg perm unfolding copies_regular_def by blast+
  obtain tt where tt: "k_fstat K (ds_k ds) target = Inr tt" using reg'(1) unfolding regular_handle_def by blast
  have "st_size st = int (length (contents (ds_k ds) source))"
    using reg'(2) st fstat_size unfolding regular_handle_def by (metis Inr_inject)
  then have "unat (word_of_int (st_size st) :: u64) \<le> length (contents (ds_k ds) source)"
    by (simp add: unat_of_nat)
  then have fits': "\<forall>ch \<in> set chunks. chunk_fits (length (contents (ds_k ds) source)) ch"
    using fits by (auto simp: chunk_fits_def)
  have "sameUnderlyingFile K (ds_k ds) source target \<longleftrightarrow> same target source"
    using fstat_key [OF tt st] by (auto simp: sameUnderlyingFile_def st tt)
  with no chunksOverlap_iff [OF fits'] copy_chunks_exact [OF fits' _ run] show ?thesis by auto
qed

end

context posix_files
begin

lemma permitted_copy_either:
  assumes "copy = copyFileRange_linux K \<or> copy = copyFileRange_other"
    and "copies_regular K d req r ds" and "copy_permitted K d req r ds target source chunks"
    and "copy_chunks copy K target source chunks 0 0 (ds_k ds) = (k', cw, tw, stop)"
  shows "(\<forall>h. \<not> same target h \<longrightarrow> contents k' h = contents (ds_k ds) h)
    \<and> (stop = None \<longrightarrow> (\<forall>h. same target h \<longrightarrow>
          contents k' h = copy_spec (same target source) chunks (contents (ds_k ds) source) (contents (ds_k ds) h))
        \<and> cw = word_of_nat (length chunks) \<and> tw = word_of_nat (copy_size chunks))"
  using assms(1)
proof
  assume "copy = copyFileRange_linux K"
  then show ?thesis using linux.permitted_copy [OF assms(2,3)] assms(4) by simp
next
  assume "copy = copyFileRange_other"
  then show ?thesis using other.permitted_copy [OF assms(2,3)] assms(4) by simp
qed

end

text \<open>C23: Server-side copy is guarded. The handler answers every request with exactly one response and never panics. If
  the machine changes at all, the target is an open plain file of this session on a share that is not read-only, whose
  granted access (the rights CREATE found the user to have on the object) includes writing, and reading for the
  control code that demands it; the resume key was issued to this session and names a plain file whose granted
  access includes reading; every chunk lies within the source, the request is within the announced limits
  and no chunk overlaps itself; and no file but the target's changes. The two handles are taken to be on regular
  files. Byte-range locks are not part of these guards: the handler does not consult them.\<close>

theorem copychunk_is_guarded:
  assumes posix: "posix_files K contents same" and copier: "copy = copyFileRange_linux K \<or> copy = copyFileRange_other"
    and reg: "copies_regular K d req r ds" and fid: "length (io_FileID req) = 16"
  shows "\<exists>ds'. handleCopyChunk copy K d hdr req r ds = Some (True, ds')
    \<and> (\<exists>status body. answered hdr status (Some r) body (ds\<lparr>ds_k := ds_k ds'\<rparr>) ds')
    \<and> (ds_k ds' = ds_k ds \<or> (\<exists>target source chunks. copy_permitted K d req r ds target source chunks
         \<and> (\<forall>h. \<not> same target h \<longrightarrow> contents (ds_k ds') h = contents (ds_k ds) h)))"
proof (cases "turned_down hdr r ds (handleCopyChunk copy K d hdr req r ds)")
  case True
  then obtain status body ds' where "handleCopyChunk copy K d hdr req r ds = Some (True, ds')"
    "answered hdr status (Some r) body ds ds'" unfolding turned_down_def by blast
  moreover from this(2) have "ds_k ds' = ds_k ds" by (simp add: answered_def)
  moreover from this have "ds\<lparr>ds_k := ds_k ds'\<rparr> = ds" by simp
  ultimately show ?thesis by metis
next
  case False
  then obtain target source chunks where perm: "copy_permitted K d req r ds target source chunks"
    and run: "handleCopyChunk copy K d hdr req r ds = perform_copy copy K d hdr req r target source chunks ds"
    using handleCopyChunk_cases [OF fid] by blast
  obtain k' cw tw stop where c: "copy_chunks copy K target source chunks 0 0 (ds_k ds) = (k', cw, tw, stop)"
    by (metis prod_cases4)
  from perform_copy_answers [OF fid c, of d hdr r] obtain ds' status body where
    ds': "perform_copy copy K d hdr req r target source chunks ds = Some (True, ds')"
    "answered hdr status (Some r) body (ds\<lparr>ds_k := k'\<rparr>) ds'" by blast
  then have k: "ds_k ds' = k'" by (simp add: answered_def)
  have "\<exists>target source chunks. copy_permitted K d req r ds target source chunks
      \<and> (\<forall>h. \<not> same target h \<longrightarrow> contents (ds_k ds') h = contents (ds_k ds) h)"
    using perm posix_files.permitted_copy_either [OF posix copier reg perm c] unfolding k by blast
  moreover have "\<exists>status body. answered hdr status (Some r) body (ds\<lparr>ds_k := ds_k ds'\<rparr>) ds'"
    unfolding k using ds'(2) by blast
  moreover have "handleCopyChunk copy K d hdr req r ds = Some (True, ds')" using ds'(1) run by simp
  ultimately show ?thesis by blast
qed

text \<open>C22: A server-side copy between regular files that reports success did what it says: the target holds, chunk by chunk in
  request order, exactly the bytes the source holds in the chunks' ranges, whether the kernel copied
  them, copied part of them or none (the loop through a buffer finishes the rest), and however short
  the single transfers were; nothing else in any file changed, and the reply states the number of
  chunks and of bytes. When source and target are one file, each chunk sees what the ones before it
  wrote.\<close>

theorem copychunk_copies_exactly:
  assumes posix: "posix_files K contents same" and copier: "copy = copyFileRange_linux K \<or> copy = copyFileRange_other"
    and reg: "copies_regular K d req r ds" and fid: "length (io_FileID req) = 16"
    and run: "handleCopyChunk copy K d hdr req r ds = Some (go_on, ds')"
    and ok: "ch_lastChainStatus (ds_chain ds') = StatusSuccess"
  shows "\<exists>target source chunks body. copy_permitted K d req r ds target source chunks
    \<and> (\<forall>h. contents (ds_k ds') h =
          (if same target h then copy_spec (same target source) chunks (contents (ds_k ds) source) (contents (ds_k ds) h)
           else contents (ds_k ds) h))
    \<and> ioctl_reply req (EncodeSrvCopyChunkResponse (word_of_nat (length chunks)) 0 (word_of_nat (copy_size chunks))) = Some body
    \<and> answered hdr StatusSuccess (Some r) body (ds\<lparr>ds_k := ds_k ds'\<rparr>) ds'"
proof -
  have "\<not> turned_down hdr r ds (handleCopyChunk copy K d hdr req r ds)"
    using ok run by (auto simp: turned_down_def answered_def)
  then obtain target source chunks where perm: "copy_permitted K d req r ds target source chunks"
    and pc: "handleCopyChunk copy K d hdr req r ds = perform_copy copy K d hdr req r target source chunks ds"
    using handleCopyChunk_cases [OF fid] by blast
  obtain k' cw tw stop where c: "copy_chunks copy K target source chunks 0 0 (ds_k ds) = (k', cw, tw, stop)"
    by (metis prod_cases4)
  from perform_copy_answers [OF fid c, of d hdr r] run [unfolded pc] obtain status body where
    a: "answered hdr status (Some r) body (ds\<lparr>ds_k := k'\<rparr>) ds'" "status = StatusSuccess \<longleftrightarrow> stop = None"
      "stop = None \<longrightarrow> ioctl_reply req (EncodeSrvCopyChunkResponse cw 0 tw) = Some body" by auto
  then have "status = StatusSuccess" "ds_k ds' = k'" using ok by (auto simp: answered_def)
  with a perm posix_files.permitted_copy_either [OF posix copier reg perm c] show ?thesis
    by (intro exI [of _ target] exI [of _ source] exI [of _ chunks] exI [of _ body]) auto
qed

section \<open>Witnesses\<close>

abbreviation wfile :: "u64 \<Rightarrow> Open" where
  "wfile i \<equiv> \<lparr>o_FileID = replicate 16 (ucast i), o_Path = [47], o_LinkPath = [], o_IsDir = False, o_IsPipe = False, o_IsStream = False,
     o_HasFile = True, o_Tree = None, o_DeleteOnClose = False, o_GrantedAccess = 3, o_IsDurable = False,
     o_DurableClientGuid = [], o_DurableCreateGuid = [],
     o_PipeName = [], o_pipeOut = [], o_StreamName = [], o_streamBuf = [], o_streamWritten = False, o_streamSynthetic = False\<rparr>"

text \<open>Handle 1 is the target, handle 2 the source, named by the key of 24 nines; each inode is its handle.\<close>

definition wcopy_server :: server where
  "wcopy_server = wserver\<lparr>sv_sess := (\<lambda>_. wsession\<lparr>s_opens := [(replicate 16 1, 1), (replicate 16 2, 2)]\<rparr>),
     sv_handles := \<lparr>hs_opens = (\<lambda>h. wfile (word_of_nat h)), hs_locks = newLockTable, hs_shares = newShareModeTable, hs_closed = []\<rparr>,
     sv_resume := (\<lambda>_. \<lparr>rk_byKey = [(replicate 24 9, \<lparr>rk_open = 2, rk_sess = 0\<rparr>)], rk_byOpen = [(2, replicate 24 9)]\<rparr>)\<rparr>"

definition wdisk :: disk where
  "wdisk i = (if i = 1 then [1, 1] else if i = 2 then [10, 11, 12, 13] else [])"

definition wcopy_state :: "disk dstate" where
  "wcopy_state = \<lparr>ds_sv = wcopy_server, ds_chain = forFrame False, ds_held = NoLock, ds_k = wdisk\<rparr>"

text \<open>Three bytes from offset 1 of the source to offset 4 of the target.\<close>

definition wcopy_request :: ioctl_request where
  "wcopy_request = \<lparr>io_CtlCode = FsctlSrvCopyChunkWrite, io_FileID = replicate 16 1,
     io_InputBuffer = replicate 24 9 @ [1, 0, 0, 0, 0, 0, 0, 0] @ [1, 0, 0, 0, 0, 0, 0, 0, 4, 0, 0, 0, 0, 0, 0, 0, 3, 0, 0, 0, 0, 0, 0, 0],
     io_Flags = 1\<rparr>"

abbreviation wK :: "disk kernel" where
  "wK \<equiv> disk_kernel word_of_nat 1"

abbreviation wcontents :: "disk \<Rightarrow> open_ref \<Rightarrow> bytes" where
  "wcontents \<equiv> \<lambda>d h. d (word_of_nat h)"

abbreviation wsame :: "open_ref \<Rightarrow> open_ref \<Rightarrow> bool" where
  "wsame \<equiv> \<lambda>h h'. (word_of_nat h :: u64) = word_of_nat h'"

lemma wposix: "posix_files wK wcontents wsame"
  by unfold_locales

lemma wregular: "copies_regular (disk_kernel ino cap) d req r ds"
  by (simp add: copies_regular_def regular_handle_def disk_kernel_def)

abbreviation wchunk :: srv_copy_chunk where
  "wchunk \<equiv> \<lparr>cc_SourceOffset = 1, cc_TargetOffset = 4, cc_Length = 3\<rparr>"

lemma wcopy_run:
  "copy_chunks copyFileRange_other wK 1 2 [wchunk] 0 0 wdisk = (wdisk(1 := [1, 1, 0, 0, 11, 12, 13]), 1, 3, None)"
proof -
  have rd: "ReadAt wK wdisk 2 3 1 = ([11, 12, 13], None)" by code_simp
  have wr: "WriteAt wK wdisk 1 [11, 12, 13] 4 = (wdisk(1 := [1, 1, 0, 0, 11, 12, 13]), 3, None)"
    by (simp add: WriteAt_def write_loop.simps disk_kernel_def wdisk_def splice_def numeral_2_eq_2)
  have "staged_copy wK wdisk 1 2 1 4 3 0 = (wdisk(1 := [1, 1, 0, 0, 11, 12, 13]), 3, None)"
    using rd wr by (subst staged_copy.simps) (simp add: copyBufSize_def staged_copy.simps)
  then show ?thesis by (simp add: copyRange_def kernel_copy.simps copyFileRange_other_def Let_def)
qed

lemma wcopy_permitted:
  "copy_permitted wK wdispatcher wcopy_request 0 wcopy_state 1 2 [wchunk]"
  unfolding copy_permitted_def Let_def
proof (intro conjI)
  show "\<exists>key. DecodeSrvCopyChunkCopy (io_InputBuffer wcopy_request) maxCopyChunkCount = Some (Inr \<lparr>ccc_SourceKey = key, ccc_Chunks = [wchunk]\<rparr>)
      \<and> (key, 0, 2) \<in> capabilities (sv_resume (ds_sv wcopy_state) (d_host wdispatcher))"
  proof (intro exI conjI)
    show "DecodeSrvCopyChunkCopy (io_InputBuffer wcopy_request) maxCopyChunkCount
        = Some (Inr \<lparr>ccc_SourceKey = replicate 24 9, ccc_Chunks = [wchunk]\<rparr>)" by code_simp
    show "(replicate 24 9, 0, 2) \<in> capabilities (sv_resume (ds_sv wcopy_state) (d_host wdispatcher))"
      by (simp add: capability_iff wcopy_state_def wcopy_server_def)
  qed
  show "\<exists>st. k_fstat wK (ds_k wcopy_state) 2 = Inr st \<and> (\<forall>ch \<in> set [wchunk]. chunk_fits (unat (word_of_int (st_size st) :: u64)) ch)"
    by (simp add: disk_kernel_def wcopy_state_def wdisk_def chunk_fits_def)
  show "copy_size [wchunk] \<le> 2 ^ 24" by simp
  show "\<not> (sameUnderlyingFile wK (ds_k wcopy_state) 2 1 \<and> chunksOverlap [wchunk])" by (simp add: Let_def)
qed (simp_all add: GetOpen_def wcopy_state_def wcopy_server_def wcopy_request_def plain_file_def read_only_tree_def
    copyChunkWriteAccess_def copyChunkReadAccess_def)

lemma wcopy_answers:
  obtains ds' where "handleCopyChunk copyFileRange_other wK wdispatcher (wrequest 11) wcopy_request 0 wcopy_state = Some (True, ds')"
    "ch_lastChainStatus (ds_chain ds') = StatusSuccess" "ds_k ds' = wdisk(1 := [1, 1, 0, 0, 11, 12, 13])"
proof -
  have fid: "length (io_FileID wcopy_request) = 16" by (simp add: wcopy_request_def)
  have run: "copy_chunks copyFileRange_other wK 1 2 [wchunk] 0 0 (ds_k wcopy_state) = (wdisk(1 := [1, 1, 0, 0, 11, 12, 13]), 1, 3, None)"
    using wcopy_run by (simp add: wcopy_state_def)
  show thesis
    using perform_copy_answers [OF fid run, of wdispatcher "wrequest 11" 0] handleCopyChunk_permitted [OF wcopy_permitted]
    by (auto simp: answered_def intro: that)
qed

text \<open>The copy moves bytes, so the guards held.\<close>

theorem copychunk_is_guarded_witness:
  "\<exists>ds'. handleCopyChunk copyFileRange_other wK wdispatcher (wrequest 11) wcopy_request 0 wcopy_state = Some (True, ds')
     \<and> ds_k ds' = wdisk(1 := [1, 1, 0, 0, 11, 12, 13])
     \<and> (\<exists>target source chunks. copy_permitted wK wdispatcher wcopy_request 0 wcopy_state target source chunks)"
proof -
  have fid: "length (io_FileID wcopy_request) = 16" by (simp add: wcopy_request_def)
  obtain ds' where run: "handleCopyChunk copyFileRange_other wK wdispatcher (wrequest 11) wcopy_request 0 wcopy_state = Some (True, ds')"
    and k: "ds_k ds' = wdisk(1 := [1, 1, 0, 0, 11, 12, 13])" by (rule wcopy_answers)
  have "ds_k ds' 1 \<noteq> ds_k wcopy_state 1" unfolding k by (simp add: wcopy_state_def wdisk_def)
  then have "ds_k ds' \<noteq> ds_k wcopy_state" by auto
  with copychunk_is_guarded [OF wposix _ wregular fid, where copy = copyFileRange_other and d = wdispatcher and r = 0
      and ds = wcopy_state and hdr = "wrequest 11"] run k
  show ?thesis by auto
qed

theorem copychunk_copies_exactly_witness:
  "\<exists>ds' target source chunks. handleCopyChunk copyFileRange_other wK wdispatcher (wrequest 11) wcopy_request 0 wcopy_state = Some (True, ds')
     \<and> ds_k ds' 1 = copy_spec (wsame target source) chunks (wdisk (word_of_nat source)) (wdisk 1)"
proof -
  have fid: "length (io_FileID wcopy_request) = 16" by (simp add: wcopy_request_def)
  obtain ds' where ds': "handleCopyChunk copyFileRange_other wK wdispatcher (wrequest 11) wcopy_request 0 wcopy_state = Some (True, ds')"
    "ch_lastChainStatus (ds_chain ds') = StatusSuccess" "ds_k ds' = wdisk(1 := [1, 1, 0, 0, 11, 12, 13])" by (rule wcopy_answers)
  from copychunk_copies_exactly [OF wposix _ wregular fid ds'(1,2)] obtain target source chunks where
    eff: "\<forall>h. wcontents (ds_k ds') h = (if wsame target h then copy_spec (wsame target source) chunks
         (wcontents (ds_k wcopy_state) source) (wcontents (ds_k wcopy_state) h) else wcontents (ds_k wcopy_state) h)"
    by blast
  have "wsame target 1" using spec [OF eff, of 1] ds'(3) by (auto simp: wcopy_state_def wdisk_def split: if_splits)
  then have "ds_k ds' 1 = copy_spec (wsame target source) chunks (wdisk (word_of_nat source)) (wdisk 1)"
    using spec [OF eff, of 1] by (simp add: wcopy_state_def)
  with ds'(1) show ?thesis by blast
qed

end
