(* ===== verification/Srvsvc.thy ===== *)
theory Srvsvc
  imports Go_Text Handles
begin

text \<open>
  The share-enumeration pipe (\<^verbatim>\<open>internal/parent/srvsvc.go\<close>): DCE/RPC framing, BIND with its
  presentation contexts, and NetShareEnumAll with its NDR encoding. Accesses Go checks at run time are
  checked here too, \<open>None\<close> is a panic; the nil slice a malformed PDU yields is \<open>Some None\<close>.
\<close>

abbreviation (input) dcerpcPTypeRequest :: byte where "dcerpcPTypeRequest \<equiv> 0x00"
abbreviation (input) dcerpcPTypeResponse :: byte where "dcerpcPTypeResponse \<equiv> 0x02"
abbreviation (input) dcerpcPTypeFault :: byte where "dcerpcPTypeFault \<equiv> 0x03"
abbreviation (input) dcerpcPTypeBind :: byte where "dcerpcPTypeBind \<equiv> 0x0B"
abbreviation (input) dcerpcPTypeBindAck :: byte where "dcerpcPTypeBindAck \<equiv> 0x0C"
abbreviation (input) dcerpcPTypeBindNak :: byte where "dcerpcPTypeBindNak \<equiv> 0x0D"
abbreviation (input) dcerpcPTypeAlterContext :: byte where "dcerpcPTypeAlterContext \<equiv> 0x0E"
abbreviation (input) dcerpcPTypeAlterCtxResp :: byte where "dcerpcPTypeAlterCtxResp \<equiv> 0x0F"
abbreviation (input) srvsvcOpNetShareEnumAll :: u16 where "srvsvcOpNetShareEnumAll \<equiv> 15"

section \<open>Framing\<close>

definition dcerpcWrap :: "byte \<Rightarrow> u32 \<Rightarrow> bytes \<Rightarrow> bytes" where
  "dcerpcWrap ptype callID body =
     [0x05, 0x00, ptype, 0x03, 0x10, 0, 0, 0] @ le16 (word_of_nat (16 + length body)) @ le16 0 @ le32 callID @ body"

definition dcerpcBindNakBytes :: "u32 \<Rightarrow> bytes" where
  "dcerpcBindNakBytes callID = dcerpcWrap dcerpcPTypeBindNak callID [0, 0, 0]"

definition dcerpcFault :: "u32 \<Rightarrow> u32 \<Rightarrow> bytes" where
  "dcerpcFault callID status = dcerpcWrap dcerpcPTypeFault callID (le32 0 @ le16 0 @ [0, 0] @ le32 status @ zeros 4)"

section \<open>BIND\<close>

definition ndrTransferSyntax :: bytes where
  "ndrTransferSyntax = [0x04, 0x5D, 0x88, 0x8A, 0xEB, 0x1C, 0xC9, 0x11, 0x9F, 0xE8, 0x08, 0x00, 0x2B, 0x10, 0x48, 0x60]"

fun offers_ndr :: "bytes \<Rightarrow> nat \<Rightarrow> nat \<Rightarrow> bool option" where
  "offers_ndr input tsOff 0 = Some False"
| "offers_ndr input tsOff (Suc n) =
     (if length input < tsOff + 20 then Some False
      else do {
        ts \<leftarrow> go_slice input tsOff (tsOff + 16);
        if ts = ndrTransferSyntax then Some True else offers_ndr input (tsOff + 20) n
      })"

fun bind_contexts :: "bytes \<Rightarrow> nat \<Rightarrow> nat \<Rightarrow> bool list option" where
  "bind_contexts input off 0 = Some []"
| "bind_contexts input off (Suc n) =
     (if length input < off + 24 then Some (replicate (Suc n) False)
      else do {
        nTransfer \<leftarrow> u8_at input (off + 2);
        a \<leftarrow> offers_ndr input (off + 24) (unat nTransfer);
        rest \<leftarrow> bind_contexts input (off + 24 + unat nTransfer * 20) n;
        Some (a # rest)
      })"

text \<open>Zero bytes up to the next multiple of four.\<close>

definition pad4 :: "bytes \<Rightarrow> bytes" where
  "pad4 b = b @ zeros ((4 - length b mod 4) mod 4)"

definition secAddr :: bytes where
  "secAddr = [0x5C, 0x70, 0x69, 0x70, 0x65, 0x5C, 0x73, 0x72, 0x76, 0x73, 0x76, 0x63, 0]"

definition context_result :: "bool \<Rightarrow> bytes" where
  "context_result ok = (if ok then [0, 0, 0, 0] @ ndrTransferSyntax @ le32 2 else [2, 0, 2, 0] @ zeros 16 @ zeros 4)"

definition dcerpcBindAck :: "u32 \<Rightarrow> bytes \<Rightarrow> bytes option" where
  "dcerpcBindAck callID input =
     (if length input < 16 + 12 then Some (dcerpcBindNakBytes callID)
      else do {
        maxXmit \<leftarrow> u16_at input 16;
        maxRecv \<leftarrow> u16_at input 18;
        nCtx \<leftarrow> u8_at input 24;
        accepts \<leftarrow> bind_contexts input 28 (unat nCtx);
        ptype \<leftarrow> u8_at input 2;
        Some (dcerpcWrap (if ptype = dcerpcPTypeAlterContext then dcerpcPTypeAlterCtxResp else dcerpcPTypeBindAck) callID
          (pad4 (le16 (if maxXmit = 0 then 4280 else maxXmit) @ le16 (if maxRecv = 0 then 4280 else maxRecv) @ le32 0x12345678
             @ le16 (word_of_nat (length secAddr)) @ secAddr)
           @ [nCtx, 0, 0, 0] @ concat (map context_result accepts)))
      })"

section \<open>NetShareEnumAll\<close>

record shareEntry =
  se_name :: gostring
  se_shType :: u32
  se_comment :: gostring

definition ipc_entry :: shareEntry where
  "ipc_entry = \<lparr>se_name = [0x49, 0x50, 0x43, 0x24], se_shType = 0x80000003,
     se_comment = [0x49, 0x50, 0x43, 0x20, 0x53, 0x65, 0x72, 0x76, 0x69, 0x63, 0x65]\<rparr>"

definition enum_entries :: "ShareConfig list \<Rightarrow> shareEntry list" where
  "enum_entries shares = map (\<lambda>s. \<lparr>se_name = sc_Name s, se_shType = 0, se_comment = []\<rparr>) shares @ [ipc_entry]"

text \<open>The marshaller: the buffer and the next referent identifier.\<close>

record ndr =
  nd_buf :: bytes
  nd_next :: u32

definition w32 :: "u32 \<Rightarrow> ndr \<Rightarrow> ndr" where
  "w32 v st = st\<lparr>nd_buf := nd_buf st @ le32 v\<rparr>"

definition w32_ref :: "ndr \<Rightarrow> ndr" where
  "w32_ref st = (w32 (nd_next st) st)\<lparr>nd_next := nd_next st + 4\<rparr>"

definition conf_units :: "gostring \<Rightarrow> u16 list" where
  "conf_units s = map (\<lambda>r. word_of_int (if r > 0xFFFF then 0xFFFD else r)) (range_runes s) @ [0]"

definition writeConfStr :: "gostring \<Rightarrow> ndr \<Rightarrow> ndr" where
  "writeConfStr s st =
     (let units = conf_units s; count = word_of_nat (length units);
          st1 = w32 count (w32 0 (w32 count st))
      in st1\<lparr>nd_buf := pad4 (nd_buf st1 @ concat (map le16 units))\<rparr>)"

text \<open>The comments are constants without surrounding blanks, so \<^verbatim>\<open>strings.TrimSpace\<close> keeps them.\<close>

definition buildNetShareEnumAllResponse :: "ShareConfig list \<Rightarrow> bytes" where
  "buildNetShareEnumAllResponse shares =
     (let entries = enum_entries shares; n = word_of_nat (length entries);
          st = w32 1 \<lparr>nd_buf = [], nd_next = 0x00020000\<rparr>;
          st = w32 1 st;
          st = w32_ref st;
          st = w32 n st;
          st = w32_ref st;
          st = w32 n st;
          st = fold (\<lambda>e st. w32_ref (w32 (se_shType e) (w32_ref st))) entries st;
          st = fold (\<lambda>e st. writeConfStr (se_comment e) (writeConfStr (se_name e) st)) entries st;
          st = w32 n st;
          st = w32_ref st;
          st = w32 0 st;
          st = w32 0 st
      in nd_buf st)"

definition dcerpcRequest :: "u32 \<Rightarrow> bytes \<Rightarrow> ShareConfig list \<Rightarrow> bytes option" where
  "dcerpcRequest callID input shares =
     (if length input < 16 + 8 then Some (dcerpcFault callID 0x1C010002)
      else do {
        opnum \<leftarrow> u16_at input 22;
        if opnum \<noteq> srvsvcOpNetShareEnumAll then Some (dcerpcFault callID 0x1C010003)
        else let stub = buildNetShareEnumAllResponse shares in
          Some (dcerpcWrap dcerpcPTypeResponse callID (le32 (word_of_nat (length stub)) @ le16 0 @ [0, 0] @ stub))
      })"

definition dcerpcHandle :: "bytes \<Rightarrow> ShareConfig list \<Rightarrow> bytes option option" where
  "dcerpcHandle input shares =
     (if length input < 16 then Some None
      else do {
        ptype \<leftarrow> u8_at input 2;
        callID \<leftarrow> u32_at input 12;
        if ptype = dcerpcPTypeBind \<or> ptype = dcerpcPTypeAlterContext then map_option Some (dcerpcBindAck callID input)
        else if ptype = dcerpcPTypeRequest then map_option Some (dcerpcRequest callID input shares)
        else Some (Some (dcerpcFault callID 0x1C010003))
      })"

section \<open>No PDU makes it panic\<close>

lemma offers_ndr_total: "offers_ndr input off n \<noteq> None"
  by (induction n arbitrary: off) (auto simp: go_panic)

lemma bind_contexts_total: "\<exists>as. bind_contexts input off n = Some as \<and> length as = n"
proof (induction n arbitrary: off)
  case (Suc n)
  show ?case
  proof (cases "length input < off + 24")
    case False
    then obtain b where b: "u8_at input (off + 2) = Some b" by (simp add: go_panic)
    obtain a where "offers_ndr input (off + 24) (unat b) = Some a" using offers_ndr_total by blast
    with b False Suc.IH [of "off + 24 + unat b * 20"] show ?thesis by auto
  qed simp
qed simp

lemma dcerpcHandle_total: "\<exists>out. dcerpcHandle input shares = Some out"
proof (cases "length input < 16")
  case False
  have "dcerpcBindAck c input \<noteq> None" for c
  proof (cases "length input < 28")
    case False
    obtain as where "bind_contexts input 28 (unat (input ! 24)) = Some as" using bind_contexts_total by blast
    with False show ?thesis by (simp add: dcerpcBindAck_def go_panic)
  qed (simp add: dcerpcBindAck_def)
  moreover have "dcerpcRequest c input shares \<noteq> None" for c
    by (simp add: dcerpcRequest_def go_panic Let_def)
  ultimately show ?thesis using False by (simp add: dcerpcHandle_def go_panic)
qed (simp add: dcerpcHandle_def)

section \<open>A client reads back the list\<close>

text \<open>How NDR is read: 32-bit integers, the three words of a share, a conformant varying string.\<close>

definition dec_u32 :: "bytes \<Rightarrow> (u32 \<times> bytes) option" where
  "dec_u32 b = (if 4 \<le> length b then Some (le_word (take 4 b), drop 4 b) else None)"

definition enc_info :: "u32 \<times> u32 \<times> u32 \<Rightarrow> bytes" where
  "enc_info t = (case t of (name_ref, ty, remark_ref) \<Rightarrow> le32 name_ref @ le32 ty @ le32 remark_ref)"

definition dec_info :: "bytes \<Rightarrow> ((u32 \<times> u32 \<times> u32) \<times> bytes) option" where
  "dec_info b = do {
     (x, b) \<leftarrow> dec_u32 b;
     (y, b) \<leftarrow> dec_u32 b;
     (z, b) \<leftarrow> dec_u32 b;
     Some ((x, y, z), b)
   }"

definition enc_conf :: "u16 list \<Rightarrow> bytes" where
  "enc_conf units = le32 (word_of_nat (length units)) @ le32 0 @ le32 (word_of_nat (length units)) @ pad4 (concat (map le16 units))"

definition dec_conf :: "bytes \<Rightarrow> (u16 list \<times> bytes) option" where
  "dec_conf b = do {
     (m, b) \<leftarrow> dec_u32 b;
     (off, b) \<leftarrow> dec_u32 b;
     (n, b) \<leftarrow> dec_u32 b;
     let len = 2 * unat n;
     let pad = (4 - len mod 4) mod 4;
     if m = n \<and> off = 0 \<and> len + pad \<le> length b then Some (u16_units (take len b), drop (len + pad) b) else None
   }"

lemma dec_u32_le32 [simp]: "dec_u32 (le32 v @ rest) = Some (v, rest)"
  by (simp add: dec_u32_def)

lemma length_pad4: "length (pad4 b) mod 4 = 0"
proof -
  have "(n + (4 - n mod 4) mod 4) mod 4 = 0" for n :: nat
  proof -
    consider "n mod 4 = 0" | "n mod 4 = 1" | "n mod 4 = 2" | "n mod 4 = 3" by linarith
    then show ?thesis by cases (simp_all, presburger+)
  qed
  then show ?thesis by (simp add: pad4_def)
qed

lemma u16_units_le16: "u16_units (concat (map le16 us)) = us"
proof (induction us)
  case (Cons u us)
  with le_word_le16 [of u] show ?case by (simp add: numeral_2_eq_2)
qed simp

interpretation infos: prefix_codec enc_info dec_info "\<lambda>_. True"
  by unfold_locales (auto simp: enc_info_def dec_info_def)

interpretation strings: prefix_codec enc_conf dec_conf "\<lambda>us. length us < 2 ^ 32"
proof
  fix us :: "u16 list" and rest assume "length us < 2 ^ 32"
  then have n: "unat (word_of_nat (length us) :: u32) = length us" by (simp add: unat_of_nat)
  have len: "length (concat (map le16 us)) = 2 * length us" by (induction us) simp_all
  show "dec_conf (enc_conf us @ rest) = Some (us, rest)"
    by (simp add: dec_conf_def enc_conf_def Let_def n pad4_def len u16_units_le16)
qed

fun pairs :: "'a list \<Rightarrow> ('a \<times> 'a) list" where
  "pairs (a # b # xs) = (a, b) # pairs xs"
| "pairs _ = []"

text \<open>The characters of a zero-terminated string.\<close>

definition string_chars :: "u16 list \<Rightarrow> int list option" where
  "string_chars us = (if us \<noteq> [] \<and> last us = 0 then Some (utf16_Decode (butlast us)) else None)"

text \<open>The shares a NetShareEnumAll response lists: type, name and remark. The referents of all pointers are non-null and
  different, the counts agree, and nothing is left over.\<close>

definition ndr_shares :: "bytes \<Rightarrow> (u32 \<times> int list option \<times> int list option) list option" where
  "ndr_shares b = do {
     (level, b) \<leftarrow> dec_u32 b;
     (arm, b) \<leftarrow> dec_u32 b;
     (ctr, b) \<leftarrow> dec_u32 b;
     (n, b) \<leftarrow> dec_u32 b;
     (arr, b) \<leftarrow> dec_u32 b;
     (m, b) \<leftarrow> dec_u32 b;
     (ts, b) \<leftarrow> parse_n dec_info (unat n) b;
     (strs, b) \<leftarrow> parse_n dec_conf (2 * unat n) b;
     (entries, b) \<leftarrow> dec_u32 b;
     (res, b) \<leftarrow> dec_u32 b;
     (handle, b) \<leftarrow> dec_u32 b;
     (ret, b) \<leftarrow> dec_u32 b;
     let refs = [ctr, arr] @ concat (map (\<lambda>(name_ref, _, remark_ref). [name_ref, remark_ref]) ts) @ [res];
     if level = 1 \<and> arm = 1 \<and> m = n \<and> entries = n \<and> handle = 0 \<and> ret = 0 \<and> b = [] \<and> 0 \<notin> set refs \<and> distinct refs
     then Some (zip (map (\<lambda>(_, ty, _). ty) ts) (map (map_prod string_chars string_chars) (pairs strs))) else None
   }"

text \<open>A response PDU: version 5.0, the first and last fragment, little-endian, its own length, no authentication; the call
  it answers, and the stub data with their length in front.\<close>

definition read_response :: "bytes \<Rightarrow> (u32 \<times> bytes) option" where
  "read_response pdu =
     (if length pdu < 24 \<or> take 8 pdu \<noteq> [5, 0, dcerpcPTypeResponse, 3, 0x10, 0, 0, 0]
         \<or> unat (le_word (take 2 (drop 8 pdu)) :: u16) \<noteq> length pdu \<or> take 2 (drop 10 pdu) \<noteq> [0, 0]
         \<or> unat (le_word (take 4 (drop 16 pdu)) :: u32) \<noteq> length pdu - 24 \<or> take 4 (drop 20 pdu) \<noteq> zeros 4 then None
      else Some (le_word (take 4 (drop 12 pdu)), drop 24 pdu))"

lemma read_response_wrap:
  assumes "24 + length stub < 2 ^ 16"
  shows "read_response (dcerpcWrap dcerpcPTypeResponse callID (le32 (word_of_nat (length stub)) @ zeros 4 @ stub)) = Some (callID, stub)"
proof -
  have z: "zeros 4 = [0, 0, 0, 0 :: byte]" "le16 0 = [0, 0]" by (simp_all add: numeral_eq_Suc)
  have "unat (word_of_nat (24 + length stub) :: u16) = 24 + length stub" "unat (word_of_nat (length stub) :: u32) = length stub"
    using assms by (simp_all add: unat_of_nat del: of_nat_add)
  moreover have "le_word (take 2 (le16 w @ x)) = w" "le_word (take 4 (le32 v @ x)) = v" for w :: u16 and v :: u32 and x by simp_all
  ultimately show ?thesis by (simp add: read_response_def dcerpcWrap_def z numeral_eq_Suc)
qed

fun info_words :: "u32 \<Rightarrow> shareEntry list \<Rightarrow> (u32 \<times> u32 \<times> u32) list" where
  "info_words next [] = []"
| "info_words next (e # es) = (next, se_shType e, next + 4) # info_words (next + 8) es"

lemma fold_infos:
  "nd_buf (fold (\<lambda>e st. w32_ref (w32 (se_shType e) (w32_ref st))) es st)
     = nd_buf st @ concat (map enc_info (info_words (nd_next st) es))"
  by (induction es arbitrary: st) (simp_all add: w32_ref_def w32_def enc_info_def add.assoc)

lemma length_info_words [simp]: "length (info_words next es) = length es"
  by (induction es arbitrary: "next") simp_all

lemma info_words_types: "map (\<lambda>(_, ty, _). ty) (info_words next es) = map se_shType es"
  by (induction es arbitrary: "next") simp_all

lemma length_infos: "length (concat (map enc_info ts)) = 12 * length ts"
  by (induction ts) (simp_all add: enc_info_def split: prod.split)

lemma writeConfStr_aligned:
  assumes "length (nd_buf st) mod 4 = 0"
  shows "nd_buf (writeConfStr s st) = nd_buf st @ enc_conf (conf_units s)" "length (nd_buf (writeConfStr s st)) mod 4 = 0"
proof -
  obtain q where q: "length (nd_buf st) = 4 * q" using assms by (metis mod_0_imp_dvd dvdE)
  have "(4 * q + 12 + n) mod 4 = n mod 4" for n
  proof -
    have "4 * q + 12 + n = n + 4 * (q + 3)" by simp
    then show ?thesis by (simp only: mod_mult_self2)
  qed
  with q show "nd_buf (writeConfStr s st) = nd_buf st @ enc_conf (conf_units s)"
    by (simp add: writeConfStr_def w32_def enc_conf_def pad4_def Let_def add.assoc)
  show "length (nd_buf (writeConfStr s st)) mod 4 = 0"
    unfolding writeConfStr_def Let_def by (simp add: length_pad4)
qed

definition entry_strings :: "shareEntry list \<Rightarrow> u16 list list" where
  "entry_strings es = concat (map (\<lambda>e. [conf_units (se_name e), conf_units (se_comment e)]) es)"

lemma fold_strings:
  "length (nd_buf st) mod 4 = 0 \<Longrightarrow>
   nd_buf (fold (\<lambda>e st. writeConfStr (se_comment e) (writeConfStr (se_name e) st)) es st)
     = nd_buf st @ concat (map enc_conf (entry_strings es))"
proof (induction es arbitrary: st)
  case (Cons e es)
  note one = writeConfStr_aligned [OF Cons.prems, of "se_name e"]
  note two = writeConfStr_aligned [OF one(2), of "se_comment e"]
  from Cons.IH [OF two(2)] show ?case unfolding entry_strings_def by (simp add: one(1) two(1))
qed (simp add: entry_strings_def)

lemma length_entry_strings: "length (entry_strings es) = 2 * length es"
  by (induction es) (simp_all add: entry_strings_def)

lemma fold_infos_next:
  "nd_next (fold (\<lambda>e st. w32_ref (w32 (se_shType e) (w32_ref st))) es st) = nd_next st + 8 * word_of_nat (length es)"
  by (induction es arbitrary: st) (simp_all add: w32_ref_def w32_def algebra_simps)

lemma fold_strings_next:
  "nd_next (fold (\<lambda>e st. writeConfStr (se_comment e) (writeConfStr (se_name e) st)) es st) = nd_next st"
  by (induction es arbitrary: st) (simp_all add: writeConfStr_def w32_def Let_def)

lemma build_layout:
  "buildNetShareEnumAllResponse shares =
     (let es = enum_entries shares; n = le32 (word_of_nat (length es)) in
      le32 1 @ le32 1 @ le32 0x20000 @ n @ le32 0x20004 @ n @ concat (map enc_info (info_words 0x20008 es))
      @ concat (map enc_conf (entry_strings es)) @ n @ le32 (0x20008 + 8 * word_of_nat (length es)) @ le32 0 @ le32 0)"
proof -
  let ?es = "enum_entries shares" and ?n = "word_of_nat (length (enum_entries shares)) :: u32"
  define st where "st = w32 ?n (w32_ref (w32 ?n (w32_ref (w32 1 (w32 1 \<lparr>nd_buf = [], nd_next = 0x00020000\<rparr>)))))"
  define st1 where "st1 = fold (\<lambda>e st. w32_ref (w32 (se_shType e) (w32_ref st))) ?es st"
  define st2 where "st2 = fold (\<lambda>e st. writeConfStr (se_comment e) (writeConfStr (se_name e) st)) ?es st1"
  have st: "nd_buf st = le32 1 @ le32 1 @ le32 0x20000 @ le32 ?n @ le32 0x20004 @ le32 ?n" "nd_next st = 0x20008"
    by (simp_all add: st_def w32_def w32_ref_def)
  have st1: "nd_buf st1 = nd_buf st @ concat (map enc_info (info_words (nd_next st) ?es))" "nd_next st1 = 0x20008 + 8 * ?n"
    unfolding st1_def using fold_infos [of ?es st] fold_infos_next [of ?es st] by (simp_all add: st(2))
  then have "length (nd_buf st1) mod 4 = 0" by (simp add: st length_infos)
  then have st2: "nd_buf st2 = nd_buf st1 @ concat (map enc_conf (entry_strings ?es))" "nd_next st2 = 0x20008 + 8 * ?n"
    unfolding st2_def using fold_strings [of st1 ?es] fold_strings_next [of ?es st1] by (simp_all add: st1(2))
  have "buildNetShareEnumAllResponse shares = nd_buf (w32 0 (w32 0 (w32_ref (w32 ?n st2))))"
    by (simp add: buildNetShareEnumAllResponse_def Let_def st_def st1_def st2_def)
  then have "buildNetShareEnumAllResponse shares = nd_buf st2 @ le32 ?n @ le32 (nd_next st2) @ le32 0 @ le32 0"
    by (simp add: w32_def w32_ref_def)
  then show ?thesis unfolding Let_def st2 st1 st by simp
qed

text \<open>The referents are the numbers handed out, one after the other.\<close>

abbreviation nth_ref :: "nat \<Rightarrow> u32" where
  "nth_ref i \<equiv> 0x20000 + 4 * word_of_nat i"

lemma info_refs:
  "concat (map (\<lambda>(name_ref, _, remark_ref). [name_ref, remark_ref]) (info_words (nth_ref k) es))
     = map nth_ref [k..<k + 2 * length es]"
proof (induction es arbitrary: k)
  case (Cons e es)
  have "nth_ref k + 4 = nth_ref (Suc k)" "nth_ref k + 8 = nth_ref (Suc (Suc k))" by (simp_all add: algebra_simps)
  with Cons [of "Suc (Suc k)"] show ?case by (simp add: upt_conv_Cons del: upt_Suc)
qed simp

lemma nth_ref_distinct:
  assumes "m < 2 ^ 20"
  shows "0 \<notin> set (map nth_ref [0..<m])" "distinct (map nth_ref [0..<m])"
proof -
  have u: "unat (nth_ref i) = 0x20000 + 4 * i" if "i < m" for i
  proof -
    have "nth_ref i = word_of_nat (0x20000 + 4 * i)" by simp
    then show ?thesis using that assms by (simp add: unat_of_nat del: of_nat_add of_nat_mult)
  qed
  show "0 \<notin> set (map nth_ref [0..<m])"
  proof
    assume "0 \<in> set (map nth_ref [0..<m])"
    then obtain i where "i < m" "nth_ref i = 0" by auto
    with u [of i] show False by simp
  qed
  show "distinct (map nth_ref [0..<m])"
    unfolding distinct_map by (auto intro!: inj_onI dest!: arg_cong [where f = unat] simp: u)
qed

section \<open>Names\<close>

lemma DecodeRune_valid: "valid_rune (fst (DecodeRune s))"
  by (cases s) (auto simp: DecodeRune_def Let_def valid_rune_def cont_def split: list.split)

lemma range_runes_valid: "list_all valid_rune (range_runes s)"
proof (induction s rule: range_runes.induct)
  case (1 s)
  show ?case
  proof (cases "s = []")
    case False
    obtain r n where rn: "DecodeRune s = (r, n)" by fastforce
    with False have "range_runes s = r # range_runes (drop n s)" by (subst range_runes.simps) simp
    with 1 [OF False rn [symmetric] refl] DecodeRune_valid [of s] rn show ?thesis by simp
  qed (simp add: range_runes.simps)
qed

text \<open>What a client sees of a name: its characters, those beyond the basic plane replaced.\<close>

definition shown_chars :: "gostring \<Rightarrow> int list" where
  "shown_chars name = map (\<lambda>r. if r > 0xFFFF then 0xFFFD else r) (range_runes name)"

lemma decode_units:
  "list_all valid_rune rs \<Longrightarrow> utf16_Decode (map (\<lambda>r. word_of_int (if r > 0xFFFF then 0xFFFD else r)) rs)
     = map (\<lambda>r. if r > 0xFFFF then 0xFFFD else r) rs"
proof (induction rs)
  case (Cons r rs)
  let ?r = "if r > 0xFFFF then 0xFFFD else r"
  have "0 \<le> ?r \<and> ?r < 0xD800 \<or> 0xE000 \<le> ?r \<and> ?r < 65536" using Cons.prems by (auto simp: valid_rune_def)
  moreover from this have "uint (word_of_int ?r :: u16) = ?r" by (intro uint_u16) auto
  ultimately have "utf16_Decode ((word_of_int ?r :: u16) # us) = ?r # utf16_Decode us" for us
    by (auto simp: word_less_def word_le_def)
  with Cons show ?case by simp
qed simp

lemma string_chars_conf: "string_chars (conf_units s) = Some (shown_chars s)"
  using decode_units [OF range_runes_valid, of s] by (simp add: string_chars_def conf_units_def shown_chars_def)

section \<open>The list\<close>

lemma enc_conf_within:
  assumes "us \<in> set uss"
  shows "length us \<le> length (concat (map enc_conf uss))"
proof -
  have "length us \<le> length (enc_conf us)"
  proof -
    have "length (concat (map le16 us)) = 2 * length us" by (induction us) simp_all
    then show ?thesis by (simp add: enc_conf_def pad4_def)
  qed
  moreover have "length (enc_conf us) \<le> length (concat (map enc_conf uss))"
    using assms by (induction uss) auto
  ultimately show ?thesis by simp
qed

lemma build_reads_back:
  assumes "length (buildNetShareEnumAllResponse shares) < 2 ^ 16"
  shows "ndr_shares (buildNetShareEnumAllResponse shares)
    = Some (map (\<lambda>e. (se_shType e, Some (shown_chars (se_name e)), Some (shown_chars (se_comment e)))) (enum_entries shares))"
proof -
  let ?es = "enum_entries shares"
  have layout: "buildNetShareEnumAllResponse shares =
      le32 1 @ le32 1 @ le32 0x20000 @ le32 (word_of_nat (length ?es)) @ le32 0x20004 @ le32 (word_of_nat (length ?es))
      @ concat (map enc_info (info_words 0x20008 ?es))
      @ concat (map enc_conf (entry_strings ?es)) @ le32 (word_of_nat (length ?es)) @ le32 (0x20008 + 8 * word_of_nat (length ?es))
      @ le32 0 @ le32 0 @ []"
    using build_layout [of shares] by (simp add: Let_def)
  have small: "12 * length ?es + length (concat (map enc_conf (entry_strings ?es))) < 2 ^ 16"
    using assms unfolding layout by (simp add: length_infos)
  have n: "unat (word_of_nat (length ?es) :: u32) = length ?es"
    using small by (simp add: unat_of_nat)
  have "length us < 2 ^ 32" if "us \<in> set (entry_strings ?es)" for us
    using enc_conf_within [OF that] small by simp
  then have bounded: "list_all (\<lambda>us. length us < 2 ^ 32) (entry_strings ?es)" by (simp add: list_all_iff)
  have infos: "parse_n dec_info (length ?es) (concat (map enc_info (info_words 0x20008 ?es)) @ rest) = Some (info_words 0x20008 ?es, rest)" for rest
    using infos.parse_n_enc [of "info_words 0x20008 ?es" rest] by (simp add: list_all_iff)
  have strs: "parse_n dec_conf (2 * length ?es) (concat (map enc_conf (entry_strings ?es)) @ rest) = Some (entry_strings ?es, rest)" for rest
    using strings.parse_n_enc [OF bounded, of rest] by (simp add: length_entry_strings)
  define refs where "refs = [0x20000, 0x20004] @ concat (map (\<lambda>(name_ref, _, remark_ref). [name_ref, remark_ref]) (info_words 0x20008 ?es))
      @ [0x20008 + 8 * word_of_nat (length ?es)]"
  have "refs = map nth_ref [0..<2 * length ?es + 3]"
  proof -
    have "[0..<m + 3] = [0, 1] @ [2..<2 + m] @ [2 + m]" for m
      by (induction m) (simp_all add: numeral_3_eq_3 numeral_2_eq_2)
    then have "[0..<2 * length ?es + 3] = [0, 1] @ [2..<2 + 2 * length ?es] @ [2 + 2 * length ?es]" .
    moreover have "0x20008 = nth_ref 2" by simp
    ultimately show ?thesis unfolding refs_def using info_refs [of 2 ?es] by (simp add: algebra_simps)
  qed
  then have refs: "0 \<notin> set refs" "distinct refs" using nth_ref_distinct [of "2 * length ?es + 3"] small by simp_all
  have zip: "zip (map se_shType es) (map (map_prod string_chars string_chars) (pairs (entry_strings es)))
      = map (\<lambda>e. (se_shType e, Some (shown_chars (se_name e)), Some (shown_chars (se_comment e)))) es" for es
    by (induction es) (simp_all add: entry_strings_def string_chars_conf)
  show ?thesis unfolding ndr_shares_def layout
    using refs [unfolded refs_def] by (simp add: n infos strs info_words_types zip Let_def del: append_Nil2)
qed

text \<open>\<^verbatim>\<open>IPC$\<close> and \<^verbatim>\<open>IPC Service\<close>, as characters.\<close>

definition ipc_chars :: "int list" where
  "ipc_chars = [73, 80, 67, 36]"

definition ipc_remark :: "int list" where
  "ipc_remark = [73, 80, 67, 32, 83, 101, 114, 118, 105, 99, 101]"

text \<open>C40: The share list a client reads is exactly the list the pipe was given. No PDU, however malformed,
  makes the pipe panic. A NetShareEnumAll request whose answer is shorter than 64 KiB is answered with one response PDU for the
  same call, of exactly the announced length; its stub data, read by the
  NDR rules (every pointer non-null and with a referent of its own, conformant strings, alignment, the discriminant and
  the counts), are the shares handed to it, in configuration order with the characters of their names as UTF-16
  gives them back, followed by the IPC$ entry of special type; nothing is left over behind it. A character beyond the basic
  plane is shown as the replacement character. (A longer list is outside: its length field would wrap.)\<close>

theorem share_list_is_exact:
  assumes "length input \<ge> 24" and "input ! 2 = 0" and "u16_at input 22 = Some 15"
    and "24 + length (buildNetShareEnumAllResponse shares) < 2 ^ 16"
  shows "\<exists>pdu callID stub. dcerpcHandle input shares = Some (Some pdu)
    \<and> u32_at input 12 = Some callID \<and> read_response pdu = Some (callID, stub)
    \<and> ndr_shares stub = Some (map (\<lambda>s. (0, Some (shown_chars (sc_Name s)), Some [])) shares
        @ [(0x80000003, Some ipc_chars, Some ipc_remark)])
    \<and> (\<forall>input'. dcerpcHandle input' shares \<noteq> None)"
proof -
  let ?stub = "buildNetShareEnumAllResponse shares"
  have z: "le16 0 @ 0 # 0 # ?stub = zeros 4 @ ?stub" by (simp add: numeral_eq_Suc)
  have "dcerpcHandle input shares = Some (Some (dcerpcWrap dcerpcPTypeResponse (le_word (take 4 (drop 12 input)))
      (le32 (word_of_nat (length ?stub)) @ zeros 4 @ ?stub)))"
    using assms(1-3) by (simp add: dcerpcHandle_def dcerpcRequest_def go_panic Let_def z)
  moreover have "u32_at input 12 = Some (le_word (take 4 (drop 12 input)))" using assms(1) by (simp add: go_panic)
  moreover have "shown_chars [] = []" by (simp add: shown_chars_def range_runes.simps)
  moreover have "shown_chars (se_name ipc_entry) = ipc_chars" "shown_chars (se_comment ipc_entry) = ipc_remark" by code_simp+
  moreover have "se_shType ipc_entry = 0x80000003" by (simp add: ipc_entry_def)
  ultimately show ?thesis
    using build_reads_back [of shares] assms(4) dcerpcHandle_total [of _ shares] read_response_wrap [OF assms(4)]
    by (auto simp: enum_entries_def comp_def)
qed

text \<open>One share with the name \<^verbatim>\<open>d\<close>.\<close>

theorem share_list_is_exact_witness:
  "\<exists>pdu stub. dcerpcHandle (zeros 22 @ [15, 0]) [\<lparr>sc_Name = [0x64], sc_Path = [], sc_ReadOnly = False, sc_GuestOK = False\<rparr>] = Some (Some pdu)
    \<and> read_response pdu = Some (0, stub)
    \<and> ndr_shares stub = Some [(0, Some (shown_chars [0x64]), Some []), (0x80000003, Some ipc_chars, Some ipc_remark)]"
proof -
  let ?s = "[\<lparr>sc_Name = [0x64], sc_Path = [], sc_ReadOnly = False, sc_GuestOK = False\<rparr>]" and ?in = "zeros 22 @ [15, 0]"
  have pdu: "24 \<le> length ?in" "?in ! 2 = (0 :: byte)" "u16_at ?in 22 = Some 15" by code_simp+
  have call: "u32_at ?in 12 = Some 0" by code_simp
  have units: "length (conf_units [0x64]) = 2" "length (conf_units []) = 1" "length (conf_units (se_name ipc_entry)) = 5"
    "length (conf_units (se_comment ipc_entry)) = 12" by code_simp+
  have "length (concat (map le16 us)) = 2 * length us" for us by (induction us) simp_all
  with units have "length (buildNetShareEnumAllResponse ?s) < 1000"
    by (simp add: build_layout Let_def enum_entries_def entry_strings_def enc_conf_def pad4_def enc_info_def)
  then have "24 + length (buildNetShareEnumAllResponse ?s) < 2 ^ 16" by simp
  from share_list_is_exact [OF pdu this] call show ?thesis by auto
qed

end
