(* ===== verification/File_Io.thy ===== *)
theory File_Io
  imports Copy_Chunk Srvsvc Nbss
begin

text \<open>
  READ, WRITE, FLUSH and IOCTL (\<^verbatim>\<open>internal/parent/dispatch.go\<close>): what a handle is decides where the
  data goes: a pipe to the RPC service, a named stream to the buffer of the handle, anything else to the
  descriptor. The lock manager is always set on a served connection, so the nil tests on it are left out.
\<close>

definition maxStreamSize :: nat where
  "maxStreamSize = 64 * 1024 * 1024"

definition set_open :: "open_ref \<Rightarrow> Open \<Rightarrow> 'k dstate \<Rightarrow> 'k dstate" where
  "set_open h op ds =
     ds\<lparr>ds_sv := (ds_sv ds)\<lparr>sv_handles := (sv_handles (ds_sv ds))\<lparr>hs_opens := (hs_opens (sv_handles (ds_sv ds)))(h := op)\<rparr>\<rparr>\<rparr>"

text \<open>A success response whose body may fail to encode.\<close>

definition reply_body :: "dispatcher \<Rightarrow> header \<Rightarrow> sess_ref \<Rightarrow> bytes option \<Rightarrow> 'k dstate \<Rightarrow> (bool \<times> 'k dstate) option" where
  "reply_body d hdr r body ds = Option.bind body (\<lambda>b. keep (respondSuccess d hdr (Some r) b ds))"

section \<open>READ\<close>

definition readLengthForOpen :: "'k kernel \<Rightarrow> 'k \<Rightarrow> open_ref \<Rightarrow> u64 \<Rightarrow> u32 \<Rightarrow> u32 \<times> bool" where
  "readLengthForOpen K k h offset want =
     (case k_fstat K k h of
        Inl _ \<Rightarrow> (want, False)
      | Inr st \<Rightarrow>
          if \<not> st_regular st \<or> st_size st < 0 then (want, False)
          else let sz = word_of_int (st_size st) :: u64 in
               if offset \<ge> sz then (0, True)
               else let avail = sz - offset in
                    if ucast want > avail then (ucast avail, False) else (want, False))"

definition readResponseFixed :: nat where
  "readResponseFixed = 16"

text \<open>One buffer for the frame header, the message header, the fixed part and the data; the file is
  read into its tail.\<close>

definition newReadResponseFrame :: "nat \<Rightarrow> bytes \<times> nat" where
  "newReadResponseFrame n = (zeros (FrameHeaderSize + HeaderSize + readResponseFixed + n), FrameHeaderSize)"

definition sendReadResponseFrame :: "dispatcher \<Rightarrow> header \<Rightarrow> sess_ref \<Rightarrow> bytes \<Rightarrow> nat \<Rightarrow> nat \<Rightarrow> 'k dstate \<Rightarrow> 'k dstate option" where
  "sendReadResponseFrame d reqHdr r buf pfx n ds = do {
     buf \<leftarrow> go_slice buf 0 (pfx + HeaderSize + readResponseFixed + n);
     msg \<leftarrow> go_slice buf pfx (pfx + HeaderSize);
     enc \<leftarrow> EncodeHeader msg (response_header reqHdr StatusSuccess);
     buf \<leftarrow> (case enc of Inl _ \<Rightarrow> Some buf | Inr h \<Rightarrow> put_at pfx h buf);
     buf \<leftarrow> put_at (pfx + HeaderSize) (le16 17) buf;
     buf \<leftarrow> put_at (pfx + HeaderSize + 2) [word_of_nat (HeaderSize + readResponseFixed)] buf;
     buf \<leftarrow> put_at (pfx + HeaderSize + 4) (le32 (word_of_nat n)) buf;
     Some (emit d (Some r) buf (set_status StatusSuccess ds))
   }"

definition read_file :: "'k kernel \<Rightarrow> dispatcher \<Rightarrow> header \<Rightarrow> sess_ref \<Rightarrow> open_ref \<Rightarrow> read_request \<Rightarrow> 'k dstate \<Rightarrow> (bool \<times> 'k dstate) option" where
  "read_file K d hdr r h req ds =
     (case readLengthForOpen K (ds_k ds) h (rd_Offset req) (rd_Length req) of (len, eof) \<Rightarrow>
        if eof then keep (respondError d hdr StatusEndOfFile (Some r) ds)
        else case newReadResponseFrame (unat len) of (buf, pfx) \<Rightarrow>
          (case ReadAt K (ds_k ds) h (unat len) (sint (rd_Offset req)) of (bs, err) \<Rightarrow>
             if err \<noteq> None \<and> err \<noteq> Some ErrEOF then keep (respondError d hdr (statusFromErr err) (Some r) ds)
             else if bs = [] then keep (respondError d hdr StatusEndOfFile (Some r) ds)
             else Option.bind (put_at (pfx + HeaderSize + readResponseFixed) bs buf) (\<lambda>buf.
               keep (sendReadResponseFrame d hdr r buf pfx (length bs) ds))))"

definition handleRead :: "'k kernel \<Rightarrow> key_for \<Rightarrow> dispatcher \<Rightarrow> 'k handler" where
  "handleRead K fstat d hdr body r ds =
     (case DecodeReadRequest body of
        None \<Rightarrow> None
      | Some (Inl _) \<Rightarrow> keep (respondError d hdr StatusInvalidParameter (Some r) ds)
      | Some (Inr req) \<Rightarrow>
          (case GetOpen (rd_FileID req) (ds_session ds r) of
             None \<Rightarrow> keep (respondError d hdr StatusInvalidParameter (Some r) ds)
           | Some h \<Rightarrow>
               let op = hs_opens (sv_handles (ds_sv ds)) h in
               if o_IsPipe op then
                 (if o_pipeOut op = [] then keep (respondError d hdr StatusEndOfFile (Some r) ds)
                  else let n = min (unat (rd_Length req)) (length (o_pipeOut op)) in
                       reply_body d hdr r (EncodeReadResponse (take n (o_pipeOut op)))
                         (set_open h (op\<lparr>o_pipeOut := drop n (o_pipeOut op)\<rparr>) ds))
               else if o_IsStream op then
                 (if unat (rd_Offset req) \<ge> length (o_streamBuf op) then keep (respondError d hdr StatusEndOfFile (Some r) ds)
                  else let off = unat (rd_Offset req); e = off + unat (rd_Length req);
                           e' = (if e > length (o_streamBuf op) \<or> e < off then length (o_streamBuf op) else e) in
                       Option.bind (go_slice (o_streamBuf op) off e') (\<lambda>data.
                         reply_body d hdr r (EncodeReadResponse data) ds))
               else if \<not> o_HasFile op then keep (respondError d hdr StatusInvalidParameter (Some r) ds)
               else if d_MaxIOSize d \<noteq> 0 \<and> rd_Length req > d_MaxIOSize d
                 then keep (respondError d hdr StatusInvalidParameter (Some r) ds)
               else if conflictsWith fstat (hs_locks (sv_handles (ds_sv ds))) h (rd_Offset req) (ucast (rd_Length req)) False
                 then keep (respondError d hdr StatusFileLockConflict (Some r) ds)
               else read_file K d hdr r h req ds))"

section \<open>WRITE\<close>

text \<open>Writing into a stream's buffer, which grows to hold the data.\<close>

definition stream_write :: "bytes \<Rightarrow> nat \<Rightarrow> bytes \<Rightarrow> bytes option" where
  "stream_write buf off data =
     (let e = off + length data;
          buf' = (if e > length buf then patch 0 buf (zeros e) else buf)
      in put_at off data buf')"

definition write_file :: "'k kernel \<Rightarrow> dispatcher \<Rightarrow> header \<Rightarrow> sess_ref \<Rightarrow> open_ref \<Rightarrow> write_request \<Rightarrow> 'k dstate \<Rightarrow> (bool \<times> 'k dstate) option" where
  "write_file K d hdr r h req ds =
     (case WriteAt K (ds_k ds) h (wr_Data req) (sint (wr_Offset req)) of (k', n, err) \<Rightarrow>
        let ds' = ds\<lparr>ds_k := k'\<rparr> in
        if err \<noteq> None then keep (respondError d hdr (statusFromErr err) (Some r) ds')
        else reply_body d hdr r (EncodeWriteResponse (word_of_nat n)) ds')"

definition srvsvc_name :: gostring where
  "srvsvc_name = [0x73, 0x72, 0x76, 0x73, 0x76, 0x63]"

definition write_pipe :: "(gostring \<Rightarrow> gostring \<Rightarrow> bool) \<Rightarrow> dispatcher \<Rightarrow> header \<Rightarrow> sess_ref \<Rightarrow> open_ref \<Rightarrow> write_request \<Rightarrow> 'k dstate \<Rightarrow> (bool \<times> 'k dstate) option" where
  "write_pipe equalFold d hdr r h req ds =
     (let op = hs_opens (sv_handles (ds_sv ds)) h;
          out = (if o_PipeName op = srvsvc_name
                 then dcerpcHandle (wr_Data req) (visibleShares equalFold (d_Shares d) (Some (ds_session ds r)))
                 else Some None)
      in Option.bind out (\<lambda>out.
           reply_body d hdr r (EncodeWriteResponse (word_of_nat (length (wr_Data req))))
             (case out of None \<Rightarrow> ds | Some o' \<Rightarrow> set_open h (op\<lparr>o_pipeOut := o_pipeOut op @ o'\<rparr>) ds)))"

definition write_stream :: "dispatcher \<Rightarrow> header \<Rightarrow> sess_ref \<Rightarrow> open_ref \<Rightarrow> write_request \<Rightarrow> 'k dstate \<Rightarrow> (bool \<times> 'k dstate) option" where
  "write_stream d hdr r h req ds =
     (let op = hs_opens (sv_handles (ds_sv ds)) h in
      if unat (wr_Offset req) > maxStreamSize \<or> length (wr_Data req) > maxStreamSize
         \<or> unat (wr_Offset req + word_of_nat (length (wr_Data req))) > maxStreamSize
      then keep (respondError d hdr StatusDiskFull (Some r) ds)
      else Option.bind (stream_write (o_streamBuf op) (unat (wr_Offset req)) (wr_Data req)) (\<lambda>buf.
        reply_body d hdr r (EncodeWriteResponse (word_of_nat (length (wr_Data req))))
          (set_open h (op\<lparr>o_streamBuf := buf, o_streamWritten := True\<rparr>) ds)))"

definition handleWrite :: "'k kernel \<Rightarrow> (gostring \<Rightarrow> gostring \<Rightarrow> bool) \<Rightarrow> key_for \<Rightarrow> dispatcher \<Rightarrow> 'k handler" where
  "handleWrite K equalFold fstat d hdr body r ds =
     (case DecodeWriteRequest body of
        None \<Rightarrow> None
      | Some (Inl _) \<Rightarrow> keep (respondError d hdr StatusInvalidParameter (Some r) ds)
      | Some (Inr req) \<Rightarrow>
          (case GetOpen (wr_FileID req) (ds_session ds r) of
             None \<Rightarrow> keep (respondError d hdr StatusInvalidParameter (Some r) ds)
           | Some h \<Rightarrow>
               let op = hs_opens (sv_handles (ds_sv ds)) h in
               if read_only_tree op \<and> \<not> o_IsPipe op then keep (respondError d hdr StatusAccessDenied (Some r) ds)
               else if o_IsPipe op then write_pipe equalFold d hdr r h req ds
               else if o_IsStream op then write_stream d hdr r h req ds
               else if \<not> o_HasFile op then keep (respondError d hdr StatusInvalidParameter (Some r) ds)
               else if d_MaxIOSize d \<noteq> 0 \<and> wr_Length req > d_MaxIOSize d
                 then keep (respondError d hdr StatusInvalidParameter (Some r) ds)
               else if conflictsWith fstat (hs_locks (sv_handles (ds_sv ds))) h (wr_Offset req) (word_of_nat (length (wr_Data req))) True
                 then keep (respondError d hdr StatusFileLockConflict (Some r) ds)
               else write_file K d hdr r h req ds))"

section \<open>FLUSH\<close>

definition handleFlush :: "'k kernel \<Rightarrow> dispatcher \<Rightarrow> 'k handler" where
  "handleFlush K d hdr body r ds =
     (case DecodeFlushRequest body of
        None \<Rightarrow> None
      | Some (Inl _) \<Rightarrow> keep (respondError d hdr StatusInvalidParameter (Some r) ds)
      | Some (Inr fid) \<Rightarrow>
          (case GetOpen fid (ds_session ds r) of
             None \<Rightarrow> keep (respondError d hdr StatusInvalidParameter (Some r) ds)
           | Some h \<Rightarrow>
               reply_body d hdr r EncodeFlushResponse
                 (if o_HasFile (hs_opens (sv_handles (ds_sv ds)) h) then ds\<lparr>ds_k := k_fsync K (ds_k ds) h\<rparr> else ds)))"

section \<open>IOCTL\<close>

abbreviation (input) FsctlValidateNegotiateInfo :: u32 where "FsctlValidateNegotiateInfo \<equiv> 0x00140204"
abbreviation (input) FsctlPipeTransceive :: u32 where "FsctlPipeTransceive \<equiv> 0x0011C017"
abbreviation (input) FsctlPipeWait :: u32 where "FsctlPipeWait \<equiv> 0x00110018"
abbreviation (input) FsctlDfsGetReferrals :: u32 where "FsctlDfsGetReferrals \<equiv> 0x00060194"
abbreviation (input) FsctlSrvRequestResumeKey :: u32 where "FsctlSrvRequestResumeKey \<equiv> 0x00140078"

definition pipe_transceive :: "(gostring \<Rightarrow> gostring \<Rightarrow> bool) \<Rightarrow> dispatcher \<Rightarrow> header \<Rightarrow> ioctl_request \<Rightarrow> sess_ref \<Rightarrow> 'k dstate \<Rightarrow> (bool \<times> 'k dstate) option" where
  "pipe_transceive equalFold d hdr req r ds =
     (let srvsvc = (case GetOpen (io_FileID req) (ds_session ds r) of
                      None \<Rightarrow> False
                    | Some h \<Rightarrow> let op = hs_opens (sv_handles (ds_sv ds)) h in o_IsPipe op \<and> o_PipeName op = srvsvc_name) in
      if \<not> srvsvc then
        Option.bind (if length (io_InputBuffer req) \<ge> 16 then u32_at (io_InputBuffer req) 12 else Some 0) (\<lambda>callID.
          reply_body d hdr r (ioctl_reply req (Some (dcerpcBindNakBytes callID))) ds)
      else case dcerpcHandle (io_InputBuffer req) (visibleShares equalFold (d_Shares d) (Some (ds_session ds r))) of
        None \<Rightarrow> None
      | Some None \<Rightarrow> keep (respondError d hdr StatusInvalidParameter (Some r) ds)
      | Some (Some out) \<Rightarrow> reply_body d hdr r (ioctl_reply req (Some out)) ds)"

definition handleIoctl :: "'k copy_call \<Rightarrow> 'k kernel \<Rightarrow> resume_key option \<Rightarrow> (gostring \<Rightarrow> gostring \<Rightarrow> bool) \<Rightarrow> dispatcher \<Rightarrow> 'k handler" where
  "handleIoctl copy K rand equalFold d hdr body r ds =
     (case DecodeIoctlRequest body of
        None \<Rightarrow> None
      | Some (Inl _) \<Rightarrow> keep (respondError d hdr StatusInvalidParameter (Some r) ds)
      | Some (Inr req) \<Rightarrow>
          let ctl = io_CtlCode req in
          if ctl = FsctlPipeTransceive then pipe_transceive equalFold d hdr req r ds
          else if ctl = FsctlDfsGetReferrals then keep (respondError d hdr StatusFsDriverRequired (Some r) ds)
          else if ctl = FsctlPipeWait then keep (respondError d hdr StatusNotSupported (Some r) ds)
          else if ctl = FsctlSrvRequestResumeKey then handleResumeKey rand d hdr req r ds
          else if ctl = FsctlSrvCopyChunk \<or> ctl = FsctlSrvCopyChunkWrite then handleCopyChunk copy K d hdr req r ds
          else if ctl = FsctlValidateNegotiateInfo then
            reply_body d hdr r (ioctl_reply req (EncodeValidateNegotiateInfoResponse
              \<lparr>vn_Capabilities = d_NegotiatedCapabilities d, vn_Guid = d_ServerGuid d,
               vn_SecurityMode = d_NegotiatedSecurityMode d, vn_Dialect = d_Dialect d\<rparr>)) ds
          else keep (respondError d hdr StatusNotSupported (Some r) ds))"

section \<open>The zero-copy response\<close>

lemma patch_append_right: "off = length a + k \<Longrightarrow> patch off xs (a @ b) = a @ patch k xs b"
  by (rule nth_equalityI) (auto simp: nth_patch nth_append)

lemma patch_tail: "off = length a \<Longrightarrow> length xs = length b \<Longrightarrow> patch off xs (a @ b) = a @ xs"
  by (rule nth_equalityI) (auto simp: nth_patch nth_append)

definition read_fixed_part :: "nat \<Rightarrow> bytes" where
  "read_fixed_part n = patch 4 (le32 (word_of_nat n)) (patch 2 [80] (patch 0 (le16 17) (zeros 16)))"

lemma length_read_fixed_part [simp]: "length (read_fixed_part n) = 16"
  by (simp add: read_fixed_part_def)

lemma EncodeReadResponse_eq: "EncodeReadResponse data = Some (read_fixed_part (length data) @ data)"
proof -
  have "EncodeReadResponse data = Some (patch 16 data (patch 4 (le32 (word_of_nat (length data)))
      (patch 2 [80] (patch 0 (le16 17) (zeros 16 @ zeros (length data))))))"
    by (simp add: EncodeReadResponse_def go_panic flip: replicate_add)
  then show ?thesis
    by (simp add: patch_append_left patch_tail read_fixed_part_def)
qed

text \<open>The response assembled in place is the one the encoder would build.\<close>

lemma read_frame_equiv:
  assumes "length data \<le> n"
  shows "sendReadResponseFrame d hdr r (patch 84 data (zeros (84 + n))) 4 (length data) ds
    = respondSuccess d hdr (Some r) (read_fixed_part (length data) @ data) ds"
proof -
  let ?buf = "patch 84 data (zeros (84 + n))"
  have buf: "take (84 + length data) ?buf = zeros 4 @ zeros 64 @ zeros 16 @ data"
  proof -
    have "?buf = patch 84 data (zeros (84 + length data) @ zeros (n - length data))"
      using assms by (simp flip: replicate_add)
    also have "\<dots> = patch 84 data (zeros (84 + length data)) @ zeros (n - length data)"
      by (rule patch_append_left) simp
    also have "patch 84 data (zeros (84 + length data)) = zeros 84 @ data"
      unfolding replicate_add by (rule patch_tail) simp_all
    finally show ?thesis by (simp flip: replicate_add)
  qed
  obtain h where h: "EncodeHeader (zeros 64) (response_header hdr StatusSuccess) = Some (Inr h)" "length h = 64"
    by (rule EncodeHeader_roundtrip [of "zeros 64" "response_header hdr StatusSuccess"]) auto
  have "patch 0 h (zeros 64) = h" using patch_tail [of 0 "[]" h "zeros 64"] h(2) by simp
  then have "sendReadResponseFrame d hdr r ?buf 4 (length data) ds
      = Some (emit d (Some r) (zeros 4 @ h @ read_fixed_part (length data) @ data) (set_status StatusSuccess ds))"
    using assms h by (simp add: sendReadResponseFrame_def go_panic readResponseFixed_def HeaderSize_def buf
        patch_append_right patch_append_left read_fixed_part_def)
  then show ?thesis using h by (simp add: respondSuccess_def respond_def buildResponse_def HeaderSize_def)
qed

section \<open>What READ returns\<close>

lemma readLengthForOpen_le: "unat (fst (readLengthForOpen K k h offset want)) \<le> unat want"
proof -
  have "unat (ucast avail :: u32) \<le> unat want" if "ucast want > avail" for avail :: u64
  proof -
    have "unat (ucast avail :: u32) \<le> unat avail" by (simp add: unsigned_ucast_eq take_bit_eq_mod)
    also have "\<dots> \<le> unat want" using that by (simp add: word_less_nat_alt unat_ucast_up)
    finally show ?thesis .
  qed
  then show ?thesis by (simp add: readLengthForOpen_def Let_def split: sum.split)
qed

lemma readLengthForOpen_regular:
  assumes "k_fstat K k h = Inr st" "st_regular st" "st_size st = int n" "n < 2 ^ 63"
  shows "readLengthForOpen K k h offset want =
    (if n \<le> unat offset then (0, True) else (word_of_nat (min (unat want) (n - unat offset)), False))"
proof -
  have sz: "unat (word_of_int (int n) :: u64) = n" using assms(4) by (simp add: unat_of_nat)
  show ?thesis
  proof (cases "n \<le> unat offset")
    case True
    then show ?thesis using assms sz by (simp add: readLengthForOpen_def Let_def word_le_nat_alt)
  next
    case False
    let ?avail = "word_of_int (int n) - offset :: u64"
    have "unat ?avail = n - unat offset" using False sz by (simp add: unat_sub_if')
    have want: "word_of_nat (unat want) = want" by simp
    have "ucast want > ?avail \<longleftrightarrow> n - unat offset < unat want"
      using \<open>unat ?avail = n - unat offset\<close> by (simp add: word_less_nat_alt unat_ucast_up)
    moreover have "ucast ?avail = (word_of_nat (n - unat offset) :: u32)"
      using \<open>unat ?avail = n - unat offset\<close> by (metis of_nat_unat)
    ultimately show ?thesis
      using False assms sz want by (auto simp: readLengthForOpen_def Let_def word_le_nat_alt min_def)
  qed
qed

definition regular_file :: "'k kernel \<Rightarrow> 'k \<Rightarrow> open_ref \<Rightarrow> bool" where
  "regular_file K k h \<longleftrightarrow> (\<exists>st. k_fstat K k h = Inr st \<and> st_regular st)"

lemma replies_intro:
  assumes "res = keep (respond d hdr (Some r) status body ds)" and "P status body"
  shows "\<exists>ds' status body. res = Some (True, ds') \<and> answered hdr status (Some r) body ds ds' \<and> P status body"
  using respond_keep [of d hdr "Some r" status body ds] assms by auto

lemma read_file_replies:
  assumes rl: "readLengthForOpen K (ds_k ds) h (rd_Offset req) (rd_Length req) = (len, eof)"
    and rd: "ReadAt K (ds_k ds) h (unat len) (sint (rd_Offset req)) = (bs, err)" and le: "length bs \<le> unat len"
  shows "\<exists>ds' status body. read_file K d hdr r h req ds = Some (True, ds') \<and> answered hdr status (Some r) body ds ds'
    \<and> (if eof then status = StatusEndOfFile
       else if err \<noteq> None \<and> err \<noteq> Some ErrEOF then status = statusFromErr err
       else if bs = [] then status = StatusEndOfFile
       else status = StatusSuccess \<and> EncodeReadResponse bs = Some body)"
proof -
  consider (at_end) "eof = True" | (failed) "\<not> eof" "err \<noteq> None" "err \<noteq> Some ErrEOF" | (none_read) "\<not> eof" "err = None \<or> err = Some ErrEOF" "bs = []"
    | (data) "\<not> eof" "err = None \<or> err = Some ErrEOF" "bs \<noteq> []" by metis
  then show ?thesis
  proof cases
    case at_end
    then have "read_file K d hdr r h req ds = keep (respondError d hdr StatusEndOfFile (Some r) ds)"
      using rl by (simp add: read_file_def)
    then show ?thesis by (intro replies_intro [of _ d hdr r StatusEndOfFile errBody]) (simp_all add: respondError_def at_end)
  next
    case failed
    then have "read_file K d hdr r h req ds = keep (respondError d hdr (statusFromErr err) (Some r) ds)"
      using rl rd by (simp add: read_file_def newReadResponseFrame_def)
    then show ?thesis by (intro replies_intro [of _ d hdr r "statusFromErr err" errBody]) (simp_all add: respondError_def failed)
  next
    case none_read
    then have "read_file K d hdr r h req ds = keep (respondError d hdr StatusEndOfFile (Some r) ds)"
      using rl rd by (auto simp: read_file_def newReadResponseFrame_def)
    then show ?thesis using none_read(2)
      by (intro replies_intro [of _ d hdr r StatusEndOfFile errBody]) (auto simp: respondError_def none_read(1,3))
  next
    case data
    then have "read_file K d hdr r h req ds
        = keep (sendReadResponseFrame d hdr r (patch 84 bs (zeros (84 + unat len))) 4 (length bs) ds)"
      using rl rd le by (auto simp: read_file_def newReadResponseFrame_def readResponseFixed_def HeaderSize_def go_panic)
    then have "read_file K d hdr r h req ds = keep (respond d hdr (Some r) StatusSuccess (read_fixed_part (length bs) @ bs) ds)"
      unfolding read_frame_equiv [OF le] respondSuccess_def .
    then show ?thesis using data(2)
      by (intro replies_intro [of _ d hdr r StatusSuccess "read_fixed_part (length bs) @ bs"])
        (auto simp: EncodeReadResponse_eq data(1,3))
  qed
qed

text \<open>The outcome a READ of a file should have.\<close>

definition read_outcome :: "'k kernel \<Rightarrow> ('k \<Rightarrow> open_ref \<Rightarrow> bytes) \<Rightarrow> 'k \<Rightarrow> open_ref \<Rightarrow> read_request \<Rightarrow> Status \<Rightarrow> bytes \<Rightarrow> bool" where
  "read_outcome K contents k h req status body \<longleftrightarrow>
     (let c = contents k h; off = unat (rd_Offset req); want = unat (rd_Length req) in
      (status = StatusSuccess \<longrightarrow>
         (\<exists>data. EncodeReadResponse data = Some body \<and> data \<noteq> [] \<and> length data \<le> want \<and> data = file_range off (length data) c
            \<and> (regular_file K k h \<longrightarrow> length data = min want (length c - off))))
      \<and> (regular_file K k h \<and> (\<forall>n o' e. k_pread K k h n o' \<noteq> Inl e) \<longrightarrow>
           status = (if want = 0 \<or> length c \<le> off then StatusEndOfFile else StatusSuccess)))"

lemma read_loop_no_errno:
  assumes "\<forall>n o' e. k_pread K k h n o' \<noteq> Inl e"
  shows "snd (read_loop K k h n off acc) \<in> {None, Some ErrEOF}"
  using assms
proof (induction K k h n off acc rule: read_loop.induct)
  case (1 K k h n off acc)
  show ?case
  proof (cases "n = 0 \<or> k_pread K k h n off = Inr []")
    case False
    then obtain bs where bs: "k_pread K k h n off = Inr bs" "bs \<noteq> []" "n \<noteq> 0" using "1.prems" by (cases "k_pread K k h n off") auto
    from "1.IH" [OF bs(3,1,2) "1.prems"] bs show ?thesis by (subst read_loop.simps) simp
  qed (auto simp: read_loop.simps)
qed

lemma nat_sint_unat:
  fixes x :: u64
  assumes "\<not> sint x < 0"
  shows "nat (sint x) = unat x"
proof -
  have "sint x < 2 ^ 63" unfolding sint_uint by (rule order.strict_trans2 [OF signed_take_bit_int_less_exp]) simp
  with assms have "take_bit 64 (sint x) = sint x" by (simp add: take_bit_int_eq_self_iff)
  then have "uint x = sint x" unfolding uint_sint by simp
  then show ?thesis by (simp add: unat_eq_nat_uint)
qed

lemma sint_below: "sint (x :: u64) < 2 ^ 63"
  unfolding sint_uint by (rule order.strict_trans2 [OF signed_take_bit_int_less_exp]) simp

lemma sint_negative:
  fixes x :: u64
  assumes "2 ^ 63 \<le> unat x"
  shows "sint x < 0"
proof (rule ccontr)
  assume "\<not> sint x < 0"
  then have eq: "nat (sint x) = unat x" by (rule nat_sint_unat)
  have "nat (sint x) < nat (2 ^ 63)" by (rule nat_less_eq_zless [THEN iffD2, rotated]) (use sint_below [of x] \<open>\<not> sint x < 0\<close> in simp_all)
  with assms eq show False by simp
qed

context posix_files
begin

lemma read_file_outcome:
  assumes small: "length (contents (ds_k ds) h) < 2 ^ 63"
  shows "\<exists>ds' status body. read_file K d hdr r h req ds = Some (True, ds') \<and> answered hdr status (Some r) body ds ds'
    \<and> read_outcome K contents (ds_k ds) h req status body"
proof -
  let ?k = "ds_k ds" and ?off = "unat (rd_Offset req)" and ?want = "unat (rd_Length req)"
  let ?c = "contents ?k h"
  obtain len eof where rl: "readLengthForOpen K ?k h (rd_Offset req) (rd_Length req) = (len, eof)" by fastforce
  obtain bs err where rd: "ReadAt K ?k h (unat len) (sint (rd_Offset req)) = (bs, err)" by fastforce
  have want: "unat len \<le> ?want" using readLengthForOpen_le [of K ?k h "rd_Offset req" "rd_Length req"] rl by simp
  have range: "length bs \<le> unat len \<and> (bs \<noteq> [] \<longrightarrow> bs = file_range ?off (length bs) ?c)
    \<and> (err = None \<longrightarrow> length bs = unat len) \<and> (err = Some ErrEOF \<longrightarrow> bs = drop ?off ?c)"
  proof (cases "sint (rd_Offset req) < 0")
    case True
    then show ?thesis using rd by (auto simp: ReadAt_def)
  next
    case False
    then have "nat (sint (rd_Offset req)) = ?off" by (rule nat_sint_unat)
    with ReadAt_exact [OF _ rd] False show ?thesis by auto
  qed
  have reg: "if length ?c \<le> ?off then eof else \<not> eof \<and> unat len = min ?want (length ?c - ?off)" if "regular_file K ?k h"
  proof -
    from that obtain st where st: "k_fstat K ?k h = Inr st" "st_regular st" by (auto simp: regular_file_def)
    have "unat (word_of_nat (min ?want (length ?c - ?off)) :: u32) = min ?want (length ?c - ?off)"
    proof -
      have "min ?want (length ?c - ?off) < 2 ^ 32" using unsigned_less [of "rd_Length req", where ?'a = nat] by (simp add: min.strict_coboundedI1)
      then show ?thesis by (simp add: unat_of_nat)
    qed
    with rl readLengthForOpen_regular [OF st fstat_size [OF st] small, of "rd_Offset req" "rd_Length req"] show ?thesis
      by auto
  qed
  from read_file_replies [OF rl rd conjunct1 [OF range], of d hdr r] obtain ds' status body where
    out: "read_file K d hdr r h req ds = Some (True, ds')" "answered hdr status (Some r) body ds ds'"
    and st: "if eof then status = StatusEndOfFile
       else if err \<noteq> None \<and> err \<noteq> Some ErrEOF then status = statusFromErr err
       else if bs = [] then status = StatusEndOfFile
       else status = StatusSuccess \<and> EncodeReadResponse bs = Some body" by blast
  have sizes: "length bs = min ?want (length ?c - ?off)" if "regular_file K ?k h" "\<not> eof" "err = None \<or> err = Some ErrEOF"
    using that(3)
  proof
    assume "err = None"
    then show ?thesis using range reg [OF that(1)] that(2) by (auto split: if_splits)
  next
    assume "err = Some ErrEOF"
    then have "length bs = length ?c - ?off" using range by simp
    then show ?thesis using range reg [OF that(1)] that(2) by (auto split: if_splits)
  qed
  have "\<exists>data. EncodeReadResponse data = Some body \<and> data \<noteq> [] \<and> length data \<le> ?want \<and> data = file_range ?off (length data) ?c
      \<and> (regular_file K ?k h \<longrightarrow> length data = min ?want (length ?c - ?off))" if "status = StatusSuccess"
    using st that range sizes want by (intro exI [of _ bs]) (auto split: if_splits)
  moreover have "status = (if ?want = 0 \<or> length ?c \<le> ?off then StatusEndOfFile else StatusSuccess)"
    if rg: "regular_file K ?k h" and kern: "\<forall>n o' e. k_pread K ?k h n o' \<noteq> Inl e"
  proof (cases "length ?c \<le> ?off")
    case True
    then show ?thesis using reg [OF rg] st by auto
  next
    case False
    then have "\<not> sint (rd_Offset req) < 0" using small sint_small [of "rd_Offset req"] by simp
    then have "err = None \<or> err = Some ErrEOF"
      using rd read_loop_no_errno [OF kern, of "unat len" "sint (rd_Offset req)" "[]"] by (auto simp: ReadAt_def)
    then have "length bs = min ?want (length ?c - ?off)" using False reg [OF rg] sizes [OF rg] by auto
    then have "bs = [] \<longleftrightarrow> ?want = 0" using False by (auto simp flip: length_0_conv)
    with False st reg [OF rg] \<open>err = None \<or> err = Some ErrEOF\<close> show ?thesis by (auto split: if_splits)
  qed
  ultimately show ?thesis using out unfolding read_outcome_def Let_def by blast
qed

end

text \<open>A handle on a file: neither a pipe nor a stream, and with a descriptor.\<close>

definition file_handle :: "Open \<Rightarrow> bool" where
  "file_handle op \<longleftrightarrow> \<not> o_IsPipe op \<and> \<not> o_IsStream op \<and> o_HasFile op"

abbreviation opens_of :: "'k dstate \<Rightarrow> open_ref \<Rightarrow> Open" where
  "opens_of ds \<equiv> hs_opens (sv_handles (ds_sv ds))"

abbreviation locks_of :: "'k dstate \<Rightarrow> lockTable" where
  "locks_of ds \<equiv> hs_locks (sv_handles (ds_sv ds))"

text \<open>C15: READ returns the bytes of the file and nothing else. A READ through an open file handle always gets
  exactly one response and leaves the server and the files as they were. A length above the negotiated
  maximum is refused, a range that touches another handle's exclusive lock is refused even past the end
  of the file, and otherwise a response that reports success carries exactly the bytes the file has at
  the offset (all that were asked for, or up to the end of a regular file), in the layout the encoder
  produces although the frame is assembled in place. On a regular file whose reads do not fail the
  answer is success exactly when there is a byte to return.\<close>

theorem read_returns_the_file:
  assumes posix: "posix_files K contents same" and dec: "DecodeReadRequest body = Some (Inr req)"
    and h: "GetOpen (rd_FileID req) (ds_session ds r) = Some h" and fh: "file_handle (opens_of ds h)"
    and small: "length (contents (ds_k ds) h) < 2 ^ 63"
  shows "\<exists>ds' status reply. handleRead K fstat d hdr body r ds = Some (True, ds') \<and> answered hdr status (Some r) reply ds ds'
    \<and> (if d_MaxIOSize d \<noteq> 0 \<and> rd_Length req > d_MaxIOSize d then status = StatusInvalidParameter
       else if conflictsWith fstat (locks_of ds) h (rd_Offset req) (ucast (rd_Length req)) False then status = StatusFileLockConflict
       else read_outcome K contents (ds_k ds) h req status reply)"
proof -
  let ?P = "\<lambda>status reply. if d_MaxIOSize d \<noteq> 0 \<and> rd_Length req > d_MaxIOSize d then status = StatusInvalidParameter
       else if conflictsWith fstat (locks_of ds) h (rd_Offset req) (ucast (rd_Length req)) False then status = StatusFileLockConflict
       else read_outcome K contents (ds_k ds) h req status reply"
  note hr = handleRead_def [of K fstat d hdr body r ds]
  consider (long) "d_MaxIOSize d \<noteq> 0 \<and> rd_Length req > d_MaxIOSize d"
    | (locked) "\<not> (d_MaxIOSize d \<noteq> 0 \<and> rd_Length req > d_MaxIOSize d)"
        "conflictsWith fstat (locks_of ds) h (rd_Offset req) (ucast (rd_Length req)) False"
    | (reads) "\<not> (d_MaxIOSize d \<noteq> 0 \<and> rd_Length req > d_MaxIOSize d)"
        "\<not> conflictsWith fstat (locks_of ds) h (rd_Offset req) (ucast (rd_Length req)) False" by blast
  then show ?thesis
  proof cases
    case long
    then have "handleRead K fstat d hdr body r ds = keep (respond d hdr (Some r) StatusInvalidParameter errBody ds)"
      using dec h fh by (simp add: hr Let_def file_handle_def respondError_def)
    then show ?thesis by (rule replies_intro [where P = ?P]) (simp add: long)
  next
    case locked
    then have "handleRead K fstat d hdr body r ds = keep (respond d hdr (Some r) StatusFileLockConflict errBody ds)"
      using dec h fh by (auto simp: hr Let_def file_handle_def respondError_def)
    then show ?thesis by (rule replies_intro [where P = ?P]) (use locked in auto)
  next
    case reads
    then have "handleRead K fstat d hdr body r ds = read_file K d hdr r h req ds"
      using dec h fh by (auto simp: hr Let_def file_handle_def)
    with reads posix_files.read_file_outcome [OF posix small, of d hdr r req] show ?thesis by auto
  qed
qed

section \<open>What WRITE stores\<close>

lemma EncodeWriteResponse_Some: "\<exists>b. EncodeWriteResponse n = Some b"
  by (simp add: EncodeWriteResponse_def go_panic)

text \<open>A kernel that takes at least one byte of every write.\<close>

definition writes_progress :: "'k kernel \<Rightarrow> open_ref \<Rightarrow> bool" where
  "writes_progress K h \<longleftrightarrow> (\<forall>k data off. data \<noteq> [] \<longrightarrow> (\<exists>k' n. k_pwrite K k h data off = (k', Inr n) \<and> n \<noteq> 0))"

lemma write_loop_progress: "writes_progress K h \<Longrightarrow> snd (write_loop K k h data off) = None"
proof (induction K k h data off rule: write_loop.induct)
  case (1 K k h data off)
  show ?case
  proof (cases "data = []")
    case False
    with "1.prems" obtain k' n where w: "k_pwrite K k h data off = (k', Inr n)" "n \<noteq> 0"
      unfolding writes_progress_def by blast
    from "1.IH" [OF False w(1) [symmetric] refl w(2)] "1.prems" False w show ?thesis by (subst write_loop.simps) simp
  qed (simp add: write_loop.simps)
qed

text \<open>The outcome a WRITE to a file should have: a prefix of the data is stored, all of it on success.\<close>

definition write_outcome :: "'k kernel \<Rightarrow> ('k \<Rightarrow> open_ref \<Rightarrow> bytes) \<Rightarrow> (open_ref \<Rightarrow> open_ref \<Rightarrow> bool) \<Rightarrow> open_ref \<Rightarrow> write_request
    \<Rightarrow> 'k \<Rightarrow> 'k \<Rightarrow> Status \<Rightarrow> bytes \<Rightarrow> bool" where
  "write_outcome K contents same h req k k' status reply \<longleftrightarrow>
     (\<exists>m \<le> length (wr_Data req). written contents same h (unat (wr_Offset req)) (take m (wr_Data req)) k k'
        \<and> (status = StatusSuccess \<longrightarrow> m = length (wr_Data req)
             \<and> EncodeWriteResponse (word_of_nat (length (wr_Data req))) = Some reply))
     \<and> (writes_progress K h \<longrightarrow> status = StatusSuccess)"

context posix_files
begin

lemma write_file_outcome:
  assumes off: "unat (wr_Offset req) < 2 ^ 63"
  shows "\<exists>ds' status reply. write_file K d hdr r h req ds = Some (True, ds')
    \<and> answered hdr status (Some r) reply (ds\<lparr>ds_k := ds_k ds'\<rparr>) ds'
    \<and> write_outcome K contents same h req (ds_k ds) (ds_k ds') status reply"
proof -
  let ?data = "wr_Data req" and ?off = "unat (wr_Offset req)"
  have nat: "nat (sint (wr_Offset req)) = ?off" and pos: "0 \<le> sint (wr_Offset req)"
    using sint_small [OF off] by simp_all
  obtain k' w err where run: "WriteAt K (ds_k ds) h ?data (sint (wr_Offset req)) = (k', w, err)" by (metis prod_cases3)
  from WriteAt_exact [OF pos run] obtain m where m: "m \<le> length ?data" "wrote h ?off (take m ?data) (ds_k ds) k'"
    "err = None \<longrightarrow> m = length ?data \<and> w = length ?data" unfolding nat by blast
  have prog: "writes_progress K h \<longrightarrow> err = None"
    using run pos write_loop_progress [of K h "ds_k ds" ?data "sint (wr_Offset req)"]
    by (auto simp: WriteAt_def split: prod.splits option.splits)
  obtain b where b: "EncodeWriteResponse (word_of_nat w) = Some b" using EncodeWriteResponse_Some by blast
  let ?st = "if err = None then StatusSuccess else statusFromErr err" and ?rb = "if err = None then b else errBody"
  have "write_file K d hdr r h req ds = keep (respond d hdr (Some r) ?st ?rb (ds\<lparr>ds_k := k'\<rparr>))"
    using run b by (simp add: write_file_def Let_def reply_body_def respondSuccess_def respondError_def)
  moreover have "write_outcome K contents same h req (ds_k ds) k' ?st ?rb"
    using m prog b unfolding write_outcome_def by (auto intro!: exI [of _ m])
  ultimately obtain ds' status reply where out: "write_file K d hdr r h req ds = Some (True, ds')"
    "answered hdr status (Some r) reply (ds\<lparr>ds_k := k'\<rparr>) ds'" "write_outcome K contents same h req (ds_k ds) k' status reply"
    using replies_intro [where P = "write_outcome K contents same h req (ds_k ds) k'"] by blast
  then have "ds_k ds' = k'" by (simp add: answered_def)
  with out show ?thesis by blast
qed

end

text \<open>C14: WRITE stores exactly what it was given, and only where it may. A WRITE through an open file handle
  always gets exactly one response. On a read-only share, above the negotiated maximum, into a range any
  other handle has locked, or at an offset no file can have, nothing is written. Otherwise the file
  holds afterwards a prefix of the data at the offset (a gap before it reads as zeros) and is unchanged
  elsewhere, as is every other file; success is reported only when all of the data is there, with its
  length, and always when the kernel takes the bytes, however few at a time.\<close>

theorem write_stores_the_data:
  assumes posix: "posix_files K contents same" and dec: "DecodeWriteRequest body = Some (Inr req)"
    and h: "GetOpen (wr_FileID req) (ds_session ds r) = Some h" and fh: "file_handle (opens_of ds h)"
  shows "\<exists>ds' status reply. handleWrite K equalFold fstat d hdr body r ds = Some (True, ds')
    \<and> answered hdr status (Some r) reply (ds\<lparr>ds_k := ds_k ds'\<rparr>) ds'
    \<and> (if read_only_tree (opens_of ds h) then status = StatusAccessDenied \<and> ds_k ds' = ds_k ds
       else if d_MaxIOSize d \<noteq> 0 \<and> wr_Length req > d_MaxIOSize d then status = StatusInvalidParameter \<and> ds_k ds' = ds_k ds
       else if conflictsWith fstat (locks_of ds) h (wr_Offset req) (word_of_nat (length (wr_Data req))) True
         then status = StatusFileLockConflict \<and> ds_k ds' = ds_k ds
       else if unat (wr_Offset req) \<ge> 2 ^ 63 then status = StatusInternalError \<and> ds_k ds' = ds_k ds
       else write_outcome K contents same h req (ds_k ds) (ds_k ds') status reply)"
proof -
  let ?ro = "read_only_tree (opens_of ds h)" and ?long = "d_MaxIOSize d \<noteq> 0 \<and> wr_Length req > d_MaxIOSize d"
    and ?lk = "conflictsWith fstat (locks_of ds) h (wr_Offset req) (word_of_nat (length (wr_Data req))) True"
    and ?far = "unat (wr_Offset req) \<ge> 2 ^ 63"
  have refuse: ?thesis if run: "handleWrite K equalFold fstat d hdr body r ds = keep (respond d hdr (Some r) status errBody ds)"
    and st: "if ?ro then status = StatusAccessDenied else if ?long then status = StatusInvalidParameter
       else if ?lk then status = StatusFileLockConflict else if ?far then status = StatusInternalError else False" for status
  proof -
    from respond_keep [of d hdr "Some r" status errBody ds] run obtain ds' where
      ds': "handleWrite K equalFold fstat d hdr body r ds = Some (True, ds')" "answered hdr status (Some r) errBody ds ds'" by auto
    then have "ds_k ds' = ds_k ds" by (simp add: answered_def)
    moreover from this have "ds\<lparr>ds_k := ds_k ds'\<rparr> = ds" by simp
    ultimately show ?thesis using ds' st by (intro exI [of _ ds'] exI [of _ status] exI [of _ errBody]) (auto split: if_splits)
  qed
  have hw: "handleWrite K equalFold fstat d hdr body r ds =
      (if ?ro then keep (respondError d hdr StatusAccessDenied (Some r) ds)
       else if ?long then keep (respondError d hdr StatusInvalidParameter (Some r) ds)
       else if ?lk then keep (respondError d hdr StatusFileLockConflict (Some r) ds) else write_file K d hdr r h req ds)"
    using dec h fh by (simp add: handleWrite_def Let_def file_handle_def)
  have far: "write_file K d hdr r h req ds = keep (respond d hdr (Some r) StatusInternalError errBody ds)" if ?far
  proof -
    have "sint (wr_Offset req) < 0" using that by (rule sint_negative)
    then show ?thesis
      by (simp add: write_file_def WriteAt_def Let_def respondError_def statusFromErr_def os_IsNotExist_def os_IsPermission_def os_IsExist_def)
  qed
  consider (ro) ?ro | (long) "\<not> ?ro" ?long | (lk) "\<not> ?ro" "\<not> ?long" ?lk | (far) "\<not> ?ro" "\<not> ?long" "\<not> ?lk" ?far
    | (ok) "\<not> ?ro" "\<not> ?long" "\<not> ?lk" "\<not> ?far" by blast
  then show ?thesis
  proof cases
    case ok
    then have "handleWrite K equalFold fstat d hdr body r ds = write_file K d hdr r h req ds" unfolding hw by auto
    with ok posix_files.write_file_outcome [OF posix, of req d hdr r h ds] show ?thesis by (auto simp: not_le)
  qed (use refuse hw far in \<open>auto simp: respondError_def\<close>)
qed

section \<open>Streams\<close>

lemma stream_write_splice: "data \<noteq> [] \<Longrightarrow> stream_write buf off data = Some (splice off data buf)"
proof -
  assume "data \<noteq> []"
  then have "patch off data (if off + length data > length buf then patch 0 buf (zeros (off + length data)) else buf) = splice off data buf"
    by (intro nth_equalityI) (auto simp: nth_patch length_splice nth_splice max_def)
  then show ?thesis by (simp add: stream_write_def Let_def go_panic)
qed

lemma stream_write_total: "\<exists>buf'. stream_write buf off data = Some buf' \<and> length buf' = max (length buf) (off + length data)"
  by (auto simp: stream_write_def Let_def go_panic max_def)

section \<open>Every request is answered\<close>

definition answers :: "header \<Rightarrow> sess_ref \<Rightarrow> 'k dstate \<Rightarrow> (bool \<times> 'k dstate) option \<Rightarrow> bool" where
  "answers hdr r ds res \<longleftrightarrow>
     (\<exists>ds' status reply ds1. res = Some (True, ds') \<and> answered hdr status (Some r) reply ds1 ds'
        \<and> ds_chain ds1 = ds_chain ds \<and> ds_held ds1 = ds_held ds)"

lemma answers_respond:
  "ds_chain ds1 = ds_chain ds \<Longrightarrow> ds_held ds1 = ds_held ds \<Longrightarrow> answers hdr r ds (keep (respond d hdr (Some r) status body ds1))"
  using respond_keep [of d hdr "Some r" status body ds1] unfolding answers_def by blast

lemma answers_error [simp]: "answers hdr r ds (keep (respondError d hdr status (Some r) ds))"
  unfolding respondError_def by (rule answers_respond) simp_all

lemma answers_reply:
  "body \<noteq> None \<Longrightarrow> ds_chain ds1 = ds_chain ds \<Longrightarrow> ds_held ds1 = ds_held ds \<Longrightarrow> answers hdr r ds (reply_body d hdr r body ds1)"
  unfolding reply_body_def respondSuccess_def by (cases body) (simp_all add: answers_respond)

lemma set_open_chain [simp]: "ds_chain (set_open h op ds) = ds_chain ds" "ds_held (set_open h op ds) = ds_held ds"
  by (simp_all add: set_open_def)

lemma read_write_bodies: "EncodeReadResponse x \<noteq> None" "EncodeWriteResponse n \<noteq> None" "EncodeFlushResponse \<noteq> None"
  by (simp_all add: EncodeReadResponse_eq EncodeWriteResponse_def EncodeFlushResponse_def go_panic)

lemma DecodeIoctlRequest_fid: "DecodeIoctlRequest body = Some (Inr req) \<Longrightarrow> length (io_FileID req) = 16"
  by (auto simp: DecodeIoctlRequest_def go_panic split: if_splits bind_splits)

lemma ReadAt_within: "posix_files K contents same \<Longrightarrow> ReadAt K k h n off = (bs, err) \<Longrightarrow> length bs \<le> n"
  using posix_files.ReadAt_exact(1) [of K contents same off k h n bs err] by (cases "off < 0") (auto simp: ReadAt_def)

lemma read_file_answers:
  assumes "posix_files K contents same"
  shows "answers hdr r ds (read_file K d hdr r h req ds)"
proof -
  obtain len eof where rl: "readLengthForOpen K (ds_k ds) h (rd_Offset req) (rd_Length req) = (len, eof)" by fastforce
  obtain bs err where rd: "ReadAt K (ds_k ds) h (unat len) (sint (rd_Offset req)) = (bs, err)" by fastforce
  from read_file_replies [OF rl rd ReadAt_within [OF assms rd], of d hdr r] show ?thesis
    unfolding answers_def by blast
qed

lemma write_file_answers: "answers hdr r ds (write_file K d hdr r h req ds)"
proof -
  obtain k' w err where "WriteAt K (ds_k ds) h (wr_Data req) (sint (wr_Offset req)) = (k', w, err)" by (metis prod_cases3)
  then show ?thesis
    by (simp add: write_file_def Let_def respondError_def answers_respond answers_reply read_write_bodies)
qed

lemma handleRead_answers:
  assumes "posix_files K contents same"
  shows "answers hdr r ds (handleRead K fstat d hdr body r ds)"
proof -
  have "DecodeReadRequest body \<noteq> None" by (simp add: fixed_decoders_no_panic)
  then show ?thesis
    by (auto simp: handleRead_def Let_def answers_reply read_write_bodies read_file_answers [OF assms] go_panic
        split: option.split sum.split)
qed

lemma handleWrite_answers: "answers hdr r ds (handleWrite K equalFold fstat d hdr body r ds)"
proof -
  have "DecodeWriteRequest body \<noteq> None" by (simp add: fixed_decoders_no_panic)
  moreover have "answers hdr r ds (write_pipe equalFold d hdr r h req ds)" for h req
    using dcerpcHandle_total [of "wr_Data req" "visibleShares equalFold (d_Shares d) (Some (ds_session ds r))"]
    by (auto simp: write_pipe_def Let_def answers_reply read_write_bodies split: option.split)
  moreover have "answers hdr r ds (write_stream d hdr r h req ds)" for h req
    using stream_write_total [of "o_streamBuf (opens_of ds h)" "unat (wr_Offset req)" "wr_Data req"]
    by (auto simp: write_stream_def Let_def answers_reply read_write_bodies)
  ultimately show ?thesis
    by (auto simp: handleWrite_def Let_def write_file_answers split: option.split sum.split)
qed

lemma handleFlush_answers: "answers hdr r ds (handleFlush K d hdr body r ds)"
proof -
  have "DecodeFlushRequest body \<noteq> None" by (simp add: fixed_decoders_no_panic)
  then show ?thesis
    by (auto simp: handleFlush_def answers_reply read_write_bodies split: option.split sum.split)
qed

lemma handleCopyChunk_answers:
  assumes "length (io_FileID req) = 16"
  shows "answers hdr r ds (handleCopyChunk copy K d hdr req r ds)"
proof (cases "turned_down hdr r ds (handleCopyChunk copy K d hdr req r ds)")
  case True
  then show ?thesis unfolding turned_down_def answers_def by blast
next
  case False
  then obtain target source chunks where run: "handleCopyChunk copy K d hdr req r ds = perform_copy copy K d hdr req r target source chunks ds"
    using handleCopyChunk_cases [OF assms] by blast
  obtain k' cw tw stop where "copy_chunks copy K target source chunks 0 0 (ds_k ds) = (k', cw, tw, stop)"
    by (metis prod_cases4)
  from perform_copy_answers [OF assms this, of d hdr r] show ?thesis unfolding run answers_def by fastforce
qed

text \<open>Resume keys are 24 bytes long.\<close>

definition keys_24 :: "resume_key option \<Rightarrow> resumeKeyTable \<Rightarrow> bool" where
  "keys_24 rand t \<longleftrightarrow> (\<forall>k. rand = Some k \<longrightarrow> length k = 24) \<and> (\<forall>op k. map_of (rk_byOpen t) op = Some k \<longrightarrow> length k = 24)"

lemma issue_24: "keys_24 rand t \<Longrightarrow> fst (issue rand r h t) = Some k \<Longrightarrow> length k = 24"
  by (auto simp: issue_def rk_mint_def keys_24_def split: option.splits if_splits)

lemma handleResumeKey_answers:
  assumes fid: "length (io_FileID req) = 16" and keys: "keys_24 rand (sv_resume (ds_sv ds) (d_host d))"
  shows "answers hdr r ds (handleResumeKey rand d hdr req r ds)"
proof -
  have reply: "\<exists>b. ioctl_reply req (EncodeResumeKeyResponse k) = Some b" if "length k = 24" for k
    using that ioctl_reply_Some [OF fid] by (simp add: EncodeResumeKeyResponse_def go_panic)
  show ?thesis
  proof (cases "GetOpen (io_FileID req) (ds_session ds r)")
    case (Some h)
    obtain key rk where i: "issue rand r h (sv_resume (ds_sv ds) (d_host d)) = (key, rk)" by fastforce
    show ?thesis
    proof (cases key)
      case None
      with Some i show ?thesis by (auto simp: handleResumeKey_def Let_def respondError_def answers_respond)
    next
      case key: (Some k)
      then obtain b where "ioctl_reply req (EncodeResumeKeyResponse k) = Some b" using reply issue_24 [OF keys, of r h] i by auto
      with Some i key show ?thesis
        by (auto simp: handleResumeKey_def Let_def respondError_def respondSuccess_def answers_respond)
    qed
  qed (simp add: handleResumeKey_def)
qed

lemma handleIoctl_answers:
  assumes guid: "length (d_ServerGuid d) = 16" and keys: "keys_24 rand (sv_resume (ds_sv ds) (d_host d))"
  shows "answers hdr r ds (handleIoctl copy K rand equalFold d hdr body r ds)"
proof (cases "DecodeIoctlRequest body")
  case None
  then show ?thesis by (simp add: fixed_decoders_no_panic)
next
  case (Some q)
  show ?thesis
  proof (cases q)
    case (Inl e)
    with Some show ?thesis by (simp add: handleIoctl_def)
  next
    case (Inr req)
    note fid = DecodeIoctlRequest_fid [OF Some [unfolded Inr]]
    have reply: "ioctl_reply req (Some out) \<noteq> None" for out using ioctl_reply_Some [OF fid] by blast
    obtain vn where vn: "EncodeValidateNegotiateInfoResponse \<lparr>vn_Capabilities = d_NegotiatedCapabilities d, vn_Guid = d_ServerGuid d,
        vn_SecurityMode = d_NegotiatedSecurityMode d, vn_Dialect = d_Dialect d\<rparr> = Some vn"
      using guid by (auto simp: EncodeValidateNegotiateInfoResponse_def go_panic)
    have "answers hdr r ds (pipe_transceive equalFold d hdr req r ds)"
      using dcerpcHandle_total [of "io_InputBuffer req" "visibleShares equalFold (d_Shares d) (Some (ds_session ds r))"]
      by (auto simp: pipe_transceive_def Let_def answers_reply reply go_panic split: option.split)
    then show ?thesis
      using Some Inr reply
      by (simp add: handleIoctl_def Let_def answers_reply vn handleResumeKey_answers [OF fid keys] handleCopyChunk_answers [OF fid])
  qed
qed

text \<open>No READ, WRITE, FLUSH or IOCTL brings the connection down. Whatever bytes the client sends as the body,
  and whatever the handle it names is (a file, a stream, a pipe, or nothing), the handler does not panic,
  queues exactly one response and keeps the connection.\<close>

theorem io_requests_are_answered:
  assumes "posix_files K contents same" and "length (d_ServerGuid d) = 16"
    and "keys_24 rand (sv_resume (ds_sv ds) (d_host d))"
  shows "answers hdr r ds (handleRead K fstat d hdr body r ds)
    \<and> answers hdr r ds (handleWrite K equalFold fstat d hdr body r ds)
    \<and> answers hdr r ds (handleFlush K d hdr body r ds)
    \<and> answers hdr r ds (handleIoctl copy K rand equalFold d hdr body r ds)"
  by (intro conjI handleRead_answers [OF assms(1)] handleWrite_answers handleFlush_answers handleIoctl_answers [OF assms(2,3)])

section \<open>Witnesses\<close>

abbreviation wread_body :: bytes where
  "wread_body \<equiv> [49, 0, 0, 0, 9, 0, 0, 0, 1, 0, 0, 0, 0, 0, 0, 0] @ replicate 16 2 @ zeros 16"

abbreviation wwrite_body :: bytes where
  "wwrite_body \<equiv> [49, 0, 112, 0, 2, 0, 0, 0, 3, 0, 0, 0, 0, 0, 0, 0] @ replicate 16 2 @ zeros 16 @ [7, 8]"

theorem read_returns_the_file_witness:
  "\<exists>ds' reply. handleRead wK (\<lambda>_. Inl 0) wdispatcher (wrequest 8) wread_body 0 wcopy_state = Some (True, ds')
     \<and> answered (wrequest 8) StatusSuccess (Some 0) reply wcopy_state ds' \<and> EncodeReadResponse [11, 12, 13] = Some reply"
proof -
  have dec: "DecodeReadRequest wread_body = Some (Inr \<lparr>rd_Length = 9, rd_Offset = 1, rd_FileID = replicate 16 2, rd_MinimumCount = 0\<rparr>)"
    by code_simp
  have h: "GetOpen (rd_FileID \<lparr>rd_Length = 9, rd_Offset = 1, rd_FileID = replicate 16 2, rd_MinimumCount = 0\<rparr>) (ds_session wcopy_state 0) = Some 2"
    by (simp add: GetOpen_def wcopy_state_def wcopy_server_def)
  have fh: "file_handle (opens_of wcopy_state 2)" by (simp add: file_handle_def wcopy_state_def wcopy_server_def)
  have c: "wcontents (ds_k wcopy_state) 2 = [10, 11, 12, 13]" by (simp add: wcopy_state_def wdisk_def)
  have reg: "regular_file wK (ds_k wcopy_state) 2" by (simp add: regular_file_def disk_kernel_def)
  have kern: "k_pread wK (ds_k wcopy_state) 2 n o' \<noteq> Inl e" for n o' e by (simp add: disk_kernel_def)
  have nolock: "\<not> conflictsWith (\<lambda>_. Inl 0) (locks_of wcopy_state) 2 1 9 False"
    by (simp add: conflictsWith_def)
  from read_returns_the_file [OF wposix dec h fh, of "\<lambda>_. Inl 0" wdispatcher "wrequest 8"] obtain ds' status reply where
    out: "handleRead wK (\<lambda>_. Inl 0) wdispatcher (wrequest 8) wread_body 0 wcopy_state = Some (True, ds')"
      "answered (wrequest 8) status (Some 0) reply wcopy_state ds'"
    and oc: "read_outcome wK wcontents (ds_k wcopy_state) 2 \<lparr>rd_Length = 9, rd_Offset = 1, rd_FileID = replicate 16 2, rd_MinimumCount = 0\<rparr> status reply"
    using nolock c by (auto simp: unat_ucast_up)
  have st: "status = StatusSuccess" using oc reg kern unfolding read_outcome_def Let_def c by simp
  with oc reg obtain data where data: "EncodeReadResponse data = Some reply"
    "data = file_range (unat (1 :: u64)) (length data) [10, 11, 12, 13]"
    "length data = min (unat (9 :: u32)) (length [10, 11, 12, 13 :: byte] - unat (1 :: u64))"
    unfolding read_outcome_def Let_def c read_request.simps by blast
  then have "length data = 3" by simp
  with data(2) have "data = [11, 12, 13]" by (simp add: file_range_def numeral_3_eq_3)
  with data(1) have "EncodeReadResponse [11, 12, 13] = Some reply" by simp
  with out st show ?thesis by blast
qed

theorem write_stores_the_data_witness:
  "\<exists>ds'. handleWrite wK (=) (\<lambda>_. Inl 0) wdispatcher (wrequest 9) wwrite_body 0 wcopy_state = Some (True, ds')
     \<and> ds_k ds' 2 = [10, 11, 12, 7, 8]"
proof -
  let ?req = "\<lparr>wr_Length = 2, wr_Offset = 3, wr_FileID = replicate 16 2, wr_Flags = 0, wr_Data = [7, 8]\<rparr>"
  have dec: "DecodeWriteRequest wwrite_body = Some (Inr ?req)" by code_simp
  have h: "GetOpen (wr_FileID ?req) (ds_session wcopy_state 0) = Some 2"
    by (simp add: GetOpen_def wcopy_state_def wcopy_server_def)
  have fh: "file_handle (opens_of wcopy_state 2)" and rw: "\<not> read_only_tree (opens_of wcopy_state 2)"
    by (simp_all add: file_handle_def read_only_tree_def wcopy_state_def wcopy_server_def)
  have prog: "writes_progress wK 2" by (auto simp: writes_progress_def disk_kernel_def neq_Nil_conv)
  have nolock: "\<not> conflictsWith (\<lambda>_. Inl 0) l 2 off n True" for l off n by (simp add: conflictsWith_def)
  from write_stores_the_data [OF wposix dec h fh, of "(=)" "\<lambda>_. Inl 0" wdispatcher "wrequest 9"] rw nolock obtain ds' status reply where
    out: "handleWrite wK (=) (\<lambda>_. Inl 0) wdispatcher (wrequest 9) wwrite_body 0 wcopy_state = Some (True, ds')"
    and oc: "write_outcome wK wcontents wsame 2 ?req (ds_k wcopy_state) (ds_k ds') status reply" by auto
  from oc prog have "written wcontents wsame 2 3 [7, 8] (ds_k wcopy_state) (ds_k ds')"
    unfolding write_outcome_def by fastforce
  then have "wcontents (ds_k ds') 2 = splice 3 [7, 8] (wcontents (ds_k wcopy_state) 2)"
    unfolding written_def by (auto dest: spec [of _ 2])
  then have "ds_k ds' 2 = [10, 11, 12, 7, 8]"
    by (simp add: wcopy_state_def wdisk_def splice_def numeral_3_eq_3)
  with out show ?thesis by blast
qed

end
