(* ===== verification/Conn_Writer.thy ===== *)
theory Conn_Writer
  imports Access_Mask "HOL-Library.Sublist"
begin

text \<open>
  The outbound queue of a connection (\<^verbatim>\<open>parent/writer.go\<close>). Request handlers hand complete
  frames to \<^verbatim>\<open>send\<close>, which never waits; one goroutine, \<^verbatim>\<open>run\<close>, writes them to the socket;
  \<^verbatim>\<open>Close\<close> ends it. None of them holds a lock, so the model is fine-grained: every atomic
  operation of the code (a load or store of a flag, an \<^verbatim>\<open>atomic.Int64.Add\<close>, one \<^verbatim>\<open>select\<close>, one
  write to the socket) is a step of its goroutine, the position of a goroutine between two of them
  is a value of a datatype, and the steps of all goroutines interleave freely. A \<^verbatim>\<open>select\<close> with
  several ready cases may take any of them, so a step function returns the list of its outcomes.
\<close>

section \<open>State\<close>

definition writeQueueDepth :: nat where
  "writeQueueDepth = 2 * unat creditWindow"

definition writeQueueBytes :: int where
  "writeQueueBytes = 64 * 2 ^ 20"

datatype send_err = ErrWriterClosed | ErrWriteQueueFull

text \<open>The fields of \<^verbatim>\<open>connWriter\<close>. A closed channel is a flag; \<open>cw_kill\<close> says whether a
  \<^verbatim>\<open>kill\<close> function was given and \<open>cw_killed\<close> whether it has been called.\<close>

record connWriter =
  cw_q :: "bytes list"
  cw_closed :: bool
  cw_done :: bool
  cw_queued :: int
  cw_discard :: bool
  cw_kill :: bool
  cw_killed :: bool

text \<open>Positions in the code. \<open>flag_op\<close> names the three stores that \<^verbatim>\<open>stall\<close>, the failing path of
  \<^verbatim>\<open>writeOne\<close> and the timeout of \<^verbatim>\<open>Close\<close> consist of.\<close>

datatype flag_op = Discard | SignalClose | Kill

datatype send_pc =
    Check bytes
  | Reserve bytes
  | Offer bytes
  | Refund bytes send_err
  | Stall bytes "flag_op list"
  | Return bytes "send_err option"

datatype run_pc =
    Select
  | Took bytes bool
  | Writing bytes bool
  | Failing bytes "flag_op list"
  | Flush
  | FlushRecv
  | Finished

datatype close_pc = CloseEntry | CloseWait | CloseTimeout "flag_op list" | CloseAwait | Closed

datatype goroutine = Sending send_pc | Closing close_pc

text \<open>A connection's writer with every goroutine that uses it. The last three fields are history:
  the frames that entered the queue, those the socket took, and the frames that had entered the
  queue when it was closed.\<close>

record writer_world =
  ww_cw :: connWriter
  ww_run :: run_pc
  ww_threads :: "goroutine list"
  ww_accepted :: "bytes list"
  ww_written :: "bytes list"
  ww_sealed :: "bytes list option"

definition newConnWriter :: "bool \<Rightarrow> writer_world" where
  "newConnWriter kill =
     \<lparr> ww_cw = \<lparr> cw_q = [], cw_closed = False, cw_done = False, cw_queued = 0, cw_discard = False,
                 cw_kill = kill, cw_killed = False \<rparr>,
       ww_run = Select, ww_threads = [], ww_accepted = [], ww_written = [], ww_sealed = None \<rparr>"

section \<open>The atomic operations\<close>

fun flag_do :: "flag_op \<Rightarrow> writer_world \<Rightarrow> writer_world" where
  "flag_do Discard w = w\<lparr> ww_cw := (ww_cw w)\<lparr> cw_discard := True \<rparr> \<rparr>"
| "flag_do SignalClose w =
     (if cw_closed (ww_cw w) then w
      else w\<lparr> ww_cw := (ww_cw w)\<lparr> cw_closed := True \<rparr>, ww_sealed := Some (ww_accepted w) \<rparr>)"
| "flag_do Kill w =
     w\<lparr> ww_cw := (ww_cw w)\<lparr> cw_killed := cw_killed (ww_cw w) \<or> cw_kill (ww_cw w) \<rparr> \<rparr>"

definition add_queued :: "int \<Rightarrow> writer_world \<Rightarrow> writer_world" where
  "add_queued n w = w\<lparr> ww_cw := (ww_cw w)\<lparr> cw_queued := cw_queued (ww_cw w) + n \<rparr> \<rparr>"

definition set_q :: "bytes list \<Rightarrow> writer_world \<Rightarrow> writer_world" where
  "set_q q w = w\<lparr> ww_cw := (ww_cw w)\<lparr> cw_q := q \<rparr> \<rparr>"

definition stall :: "flag_op list" where
  "stall = [Discard, SignalClose, Kill]"

fun send_step :: "writer_world \<Rightarrow> send_pc \<Rightarrow> (writer_world \<times> send_pc) list" where
  "send_step w (Check buf) =
     (if buf = [] then [(w, Return buf None)]
      else if cw_closed (ww_cw w) then [(w, Return buf (Some ErrWriterClosed))]
      else [(w, Reserve buf)])"
| "send_step w (Reserve buf) =
     (let w' = add_queued (int (length buf)) w in
      if cw_queued (ww_cw w') > writeQueueBytes then [(w', Refund buf ErrWriteQueueFull)]
      else [(w', Offer buf)])"
| "send_step w (Offer buf) =
     (let room = length (cw_q (ww_cw w)) < writeQueueDepth;
          enq = (if room then [((set_q (cw_q (ww_cw w) @ [buf]) w)\<lparr> ww_accepted := ww_accepted w @ [buf] \<rparr>,
                                Return buf None)] else []);
          gone = (if cw_closed (ww_cw w) then [(w, Refund buf ErrWriterClosed)] else [])
      in if enq @ gone = [] then [(w, Refund buf ErrWriteQueueFull)] else enq @ gone)"
| "send_step w (Refund buf e) =
     (let w' = add_queued (- int (length buf)) w in
      case e of
        ErrWriterClosed \<Rightarrow> [(w', Return buf (Some ErrWriterClosed))]
      | ErrWriteQueueFull \<Rightarrow> [(w', Stall buf stall)])"
| "send_step w (Stall buf []) = [(w, Return buf (Some ErrWriteQueueFull))]"
| "send_step w (Stall buf (op # ops)) = [(flag_do op w, Stall buf ops)]"
| "send_step w (Return buf r) = []"

definition finish :: "writer_world \<Rightarrow> writer_world" where
  "finish w = w\<lparr> ww_run := Finished, ww_cw := (ww_cw w)\<lparr> cw_done := True \<rparr> \<rparr>"

definition take_frame :: "bool \<Rightarrow> writer_world \<Rightarrow> writer_world list" where
  "take_frame flushing w =
     (case cw_q (ww_cw w) of
        [] \<Rightarrow> []
      | buf # q \<Rightarrow> [(set_q q w)\<lparr> ww_run := Took buf flushing \<rparr>])"

fun run_step :: "writer_world \<Rightarrow> run_pc \<Rightarrow> writer_world list" where
  "run_step w Select =
     take_frame False w @ (if cw_closed (ww_cw w) then [w\<lparr> ww_run := Flush \<rparr>] else [])"
| "run_step w (Took buf flushing) = [(add_queued (- int (length buf)) w)\<lparr> ww_run := Writing buf flushing \<rparr>]"
| "run_step w (Writing buf flushing) =
     [w\<lparr> ww_written := ww_written w @ [buf], ww_run := (if flushing then Flush else Select) \<rparr>,
      w\<lparr> ww_run := Failing buf stall \<rparr>]"
| "run_step w (Failing buf []) = [finish w]"
| "run_step w (Failing buf (op # ops)) = [(flag_do op w)\<lparr> ww_run := Failing buf ops \<rparr>]"
| "run_step w Flush = (if cw_discard (ww_cw w) then [finish w] else [w\<lparr> ww_run := FlushRecv \<rparr>])"
| "run_step w FlushRecv = (if cw_q (ww_cw w) = [] then [finish w] else take_frame True w)"
| "run_step w Finished = []"

fun close_step :: "writer_world \<Rightarrow> close_pc \<Rightarrow> (writer_world \<times> close_pc) list" where
  "close_step w CloseEntry = [(flag_do SignalClose w, CloseWait)]"
| "close_step w CloseWait =
     (if cw_done (ww_cw w) then [(w, Closed)] else []) @ [(w, CloseTimeout [Discard, Kill])]"
| "close_step w (CloseTimeout []) = [(w, CloseAwait)]"
| "close_step w (CloseTimeout (op # ops)) = [(flag_do op w, CloseTimeout ops)]"
| "close_step w CloseAwait = (if cw_done (ww_cw w) then [(w, Closed)] else [])"
| "close_step w Closed = []"

fun goroutine_step :: "writer_world \<Rightarrow> goroutine \<Rightarrow> (writer_world \<times> goroutine) list" where
  "goroutine_step w (Sending pc) = map (\<lambda>(w', pc'). (w', Sending pc')) (send_step w pc)"
| "goroutine_step w (Closing pc) = map (\<lambda>(w', pc'). (w', Closing pc')) (close_step w pc)"

inductive writer_step :: "writer_world \<Rightarrow> writer_world \<Rightarrow> bool" where
  spawn: "g = Sending (Check buf) \<or> g = Closing CloseEntry \<Longrightarrow>
     writer_step w (w\<lparr> ww_threads := ww_threads w @ [g] \<rparr>)"
| user: "i < length (ww_threads w) \<Longrightarrow> (w', g) \<in> set (goroutine_step w (ww_threads w ! i)) \<Longrightarrow>
     writer_step w (w'\<lparr> ww_threads := (ww_threads w)[i := g] \<rparr>)"
| writer: "w' \<in> set (run_step w (ww_run w)) \<Longrightarrow> writer_step w w'"

inductive_cases writer_stepE: "writer_step w w'"

lemmas writer_defs = add_queued_def set_q_def finish_def take_frame_def stall_def

section \<open>The invariant\<close>

text \<open>Bytes a goroutine has added to \<^verbatim>\<open>queued\<close> without a frame of its own in the queue, and the
  part of them that was within the budget when it was added.\<close>

fun reserved :: "goroutine \<Rightarrow> int" where
  "reserved (Sending (Offer b)) = int (length b)"
| "reserved (Sending (Refund b e)) = int (length b)"
| "reserved g = 0"

fun admitted :: "goroutine \<Rightarrow> int" where
  "admitted (Sending (Offer b)) = int (length b)"
| "admitted g = 0"

fun taken :: "run_pc \<Rightarrow> int" where
  "taken (Took b f) = int (length b)"
| "taken pc = 0"

abbreviation frame_bytes :: "bytes list \<Rightarrow> int" where
  "frame_bytes q \<equiv> sum_list (map (\<lambda>b. int (length b)) q)"

fun flag_set :: "writer_world \<Rightarrow> flag_op \<Rightarrow> bool" where
  "flag_set w Discard = cw_discard (ww_cw w)"
| "flag_set w SignalClose = cw_closed (ww_cw w)"
| "flag_set w Kill = (cw_kill (ww_cw w) \<longrightarrow> cw_killed (ww_cw w))"

definition flags_after :: "writer_world \<Rightarrow> flag_op list \<Rightarrow> bool" where
  "flags_after w ops = (\<forall>op \<in> {Discard, SignalClose, Kill}. op \<in> set ops \<or> flag_set w op)"

fun thread_ok :: "writer_world \<Rightarrow> goroutine \<Rightarrow> bool" where
  "thread_ok w (Sending (Stall b ops)) = flags_after w ops"
| "thread_ok w (Sending (Return b None)) = (b = [] \<or> b \<in> set (ww_accepted w))"
| "thread_ok w (Sending (Return b (Some ErrWriteQueueFull))) = flags_after w []"
| "thread_ok w (Sending (Return b (Some ErrWriterClosed))) = cw_closed (ww_cw w)"
| "thread_ok w (Sending (Refund b ErrWriterClosed)) = cw_closed (ww_cw w)"
| "thread_ok w g = True"

text \<open>How the history fits the position of \<^verbatim>\<open>run\<close>: what was accepted is what was written, the
  frame in hand, and the queue, in this order.\<close>

fun run_ok :: "writer_world \<Rightarrow> run_pc \<Rightarrow> bool" where
  "run_ok w Select = (ww_accepted w = ww_written w @ cw_q (ww_cw w))"
| "run_ok w (Took b f) = ((f \<longrightarrow> cw_closed (ww_cw w)) \<and> ww_accepted w = ww_written w @ b # cw_q (ww_cw w))"
| "run_ok w (Writing b f) = ((f \<longrightarrow> cw_closed (ww_cw w)) \<and> ww_accepted w = ww_written w @ b # cw_q (ww_cw w))"
| "run_ok w (Failing b ops) = (flags_after w ops \<and> ww_accepted w = ww_written w @ b # cw_q (ww_cw w))"
| "run_ok w Flush = (cw_closed (ww_cw w) \<and> ww_accepted w = ww_written w @ cw_q (ww_cw w))"
| "run_ok w FlushRecv = (cw_closed (ww_cw w) \<and> ww_accepted w = ww_written w @ cw_q (ww_cw w))"
| "run_ok w Finished =
     (cw_closed (ww_cw w) \<and> (\<exists>r. ww_accepted w = ww_written w @ r @ cw_q (ww_cw w)) \<and>
      (cw_discard (ww_cw w) \<or> prefix (the (ww_sealed w)) (ww_written w)))"

definition books_ok :: "writer_world \<Rightarrow> bool" where
  "books_ok w \<longleftrightarrow>
     cw_queued (ww_cw w) =
       frame_bytes (cw_q (ww_cw w)) + sum_list (map reserved (ww_threads w)) + taken (ww_run w) \<and>
     frame_bytes (cw_q (ww_cw w)) + sum_list (map admitted (ww_threads w)) + taken (ww_run w) \<le> writeQueueBytes \<and>
     length (cw_q (ww_cw w)) \<le> writeQueueDepth"

definition seal_ok :: "writer_world \<Rightarrow> bool" where
  "seal_ok w \<longleftrightarrow>
     (cw_closed (ww_cw w) \<longleftrightarrow> ww_sealed w \<noteq> None) \<and>
     (\<forall>s. ww_sealed w = Some s \<longrightarrow> prefix s (ww_accepted w)) \<and>
     (cw_done (ww_cw w) \<longleftrightarrow> ww_run w = Finished)"

definition writer_inv :: "writer_world \<Rightarrow> bool" where
  "writer_inv w \<longleftrightarrow>
     books_ok w \<and> seal_ok w \<and> run_ok w (ww_run w) \<and> list_all (thread_ok w) (ww_threads w)"


section \<open>Every step keeps it\<close>

text \<open>Later states only gain: flags are never cleared, accepted frames are never forgotten.\<close>

definition grows :: "writer_world \<Rightarrow> writer_world \<Rightarrow> bool" where
  "grows w w' \<longleftrightarrow> (\<forall>op. flag_set w op \<longrightarrow> flag_set w' op) \<and> set (ww_accepted w) \<subseteq> set (ww_accepted w')"

lemma grows_closed: "grows w w' \<Longrightarrow> cw_closed (ww_cw w) \<Longrightarrow> cw_closed (ww_cw w')"
  by (metis flag_set.simps(2) grows_def)

lemma flags_after_mono: "flags_after w ops \<Longrightarrow> grows w w' \<Longrightarrow> flags_after w' ops"
  unfolding flags_after_def grows_def by blast

lemma thread_ok_mono: "thread_ok w g \<Longrightarrow> grows w w' \<Longrightarrow> thread_ok w' g"
proof (induction w g rule: thread_ok.induct)
  case (2 w b)
  then show ?case by (auto simp: grows_def)
qed (auto dest: grows_closed intro: flags_after_mono)

lemma grows_refl [simp]: "grows w w"
  by (simp add: grows_def)

lemma flag_set_ww [simp]:
  "flag_set (w\<lparr> ww_threads := ts \<rparr>) op = flag_set w op"
  "flag_set (w\<lparr> ww_run := pc \<rparr>) op = flag_set w op"
  "flag_set (w\<lparr> ww_accepted := a \<rparr>) op = flag_set w op"
  "flag_set (w\<lparr> ww_written := a \<rparr>) op = flag_set w op"
  "flag_set (add_queued n w) op = flag_set w op"
  "flag_set (set_q q w) op = flag_set w op"
  "flag_set (finish w) op = flag_set w op"
  by (cases op; simp add: writer_defs)+

lemma flags_after_ww [simp]:
  "flags_after (w\<lparr> ww_threads := ts \<rparr>) ops = flags_after w ops"
  "flags_after (w\<lparr> ww_run := pc \<rparr>) ops = flags_after w ops"
  "flags_after (add_queued n w) ops = flags_after w ops"
  "flags_after (w\<lparr> ww_accepted := a \<rparr>) ops = flags_after w ops"
  "flags_after (set_q q w) ops = flags_after w ops"
  by (simp_all add: flags_after_def)

lemma flags_after_stall: "flags_after w stall"
  by (simp add: flags_after_def stall_def)

lemma grows_flag_do: "grows w (flag_do op w)"
proof -
  have "flag_set w op' \<Longrightarrow> flag_set (flag_do op w) op'" for op' by (cases op; cases op') auto
  moreover have "ww_accepted (flag_do op w) = ww_accepted w" by (cases op) auto
  ultimately show ?thesis by (simp add: grows_def)
qed

lemma flags_after_flag_do: "flags_after w (op # ops) \<Longrightarrow> flags_after (flag_do op w) ops"
proof -
  assume "flags_after w (op # ops)"
  moreover have "flag_set (flag_do op w) op" by (cases op) auto
  moreover have "flag_set w op' \<Longrightarrow> flag_set (flag_do op w) op'" for op'
    using grows_flag_do [of w op] by (simp add: grows_def)
  ultimately show ?thesis unfolding flags_after_def by (metis set_ConsD)
qed

lemma flag_do_frame [simp]:
  "ww_run (flag_do op w) = ww_run w" "ww_threads (flag_do op w) = ww_threads w"
  "ww_accepted (flag_do op w) = ww_accepted w" "ww_written (flag_do op w) = ww_written w"
  "cw_q (ww_cw (flag_do op w)) = cw_q (ww_cw w)" "cw_queued (ww_cw (flag_do op w)) = cw_queued (ww_cw w)"
  "cw_done (ww_cw (flag_do op w)) = cw_done (ww_cw w)"
  by (cases op; simp)+

lemma books_ok_flag_do [simp]: "books_ok (flag_do op w) = books_ok w"
  by (simp add: books_ok_def)

lemma seal_ok_flag_do: "seal_ok w \<Longrightarrow> seal_ok (flag_do op w)"
  by (cases op) (auto simp: seal_ok_def)

lemma sealed_flag_do: "seal_ok w \<Longrightarrow> cw_closed (ww_cw w) \<Longrightarrow> ww_sealed (flag_do op w) = ww_sealed w"
  by (cases op) auto

lemma run_ok_flag_do: "seal_ok w \<Longrightarrow> run_ok w pc \<Longrightarrow> run_ok (flag_do op w) pc"
proof (cases pc)
  assume "seal_ok w" "run_ok w pc" "pc = Finished"
  moreover have "cw_discard (ww_cw w) \<Longrightarrow> cw_discard (ww_cw (flag_do op w))" by (cases op) auto
  ultimately show ?thesis
    using grows_closed [OF grows_flag_do, of w op] by (auto simp: sealed_flag_do)
qed (auto intro: grows_closed [OF grows_flag_do] flags_after_mono [OF _ grows_flag_do])

subsection \<open>A goroutine that sends or closes\<close>

text \<open>What one step of a user goroutine, at position \<open>g\<close>, may do to the shared state.\<close>

definition user_effect :: "writer_world \<Rightarrow> goroutine \<Rightarrow> writer_world \<Rightarrow> goroutine \<Rightarrow> bool" where
  "user_effect w g w' g' \<longleftrightarrow>
     ww_run w' = ww_run w \<and> ww_threads w' = ww_threads w \<and> grows w w' \<and> thread_ok w' g' \<and>
     seal_ok w' \<and> run_ok w' (ww_run w) \<and>
     length (cw_q (ww_cw w')) \<le> writeQueueDepth \<and>
     cw_queued (ww_cw w') - frame_bytes (cw_q (ww_cw w')) - reserved g' =
       cw_queued (ww_cw w) - frame_bytes (cw_q (ww_cw w)) - reserved g \<and>
     (frame_bytes (cw_q (ww_cw w')) + admitted g' \<le> frame_bytes (cw_q (ww_cw w)) + admitted g \<or>
      cw_q (ww_cw w') = cw_q (ww_cw w) \<and> admitted g = 0 \<and> admitted g' = reserved g' \<and>
      cw_queued (ww_cw w') \<le> writeQueueBytes)"

lemma user_effect_flag:
  assumes "seal_ok w" "run_ok w (ww_run w)" "length (cw_q (ww_cw w)) \<le> writeQueueDepth"
    "reserved g = 0" "reserved g' = 0" "admitted g = 0" "admitted g' = 0" "thread_ok (flag_do op w) g'"
  shows "user_effect w g (flag_do op w) g'"
  using assms by (simp add: user_effect_def grows_flag_do seal_ok_flag_do run_ok_flag_do)

lemma run_ok_ww [simp]:
  "run_ok (w\<lparr> ww_threads := ts \<rparr>) pc = run_ok w pc" "run_ok (w\<lparr> ww_run := pc' \<rparr>) pc = run_ok w pc"
  by (cases pc; simp)+

lemma run_ok_queued [simp]: "run_ok (add_queued n w) pc = run_ok w pc"
  by (cases pc) (simp_all add: add_queued_def flags_after_def)

lemma seal_ok_queued [simp]: "seal_ok (add_queued n w) = seal_ok w"
  by (simp add: seal_ok_def add_queued_def)

lemma grows_queued [simp]: "grows w (add_queued n w)"
  by (simp add: grows_def) (simp add: add_queued_def)

lemma add_queued_frame [simp]:
  "ww_run (add_queued n w) = ww_run w" "ww_threads (add_queued n w) = ww_threads w"
  "cw_q (ww_cw (add_queued n w)) = cw_q (ww_cw w)" "cw_queued (ww_cw (add_queued n w)) = cw_queued (ww_cw w) + n"
  "cw_closed (ww_cw (add_queued n w)) = cw_closed (ww_cw w)" "ww_accepted (add_queued n w) = ww_accepted w"
  "ww_written (add_queued n w) = ww_written w" "ww_sealed (add_queued n w) = ww_sealed w"
  "cw_done (ww_cw (add_queued n w)) = cw_done (ww_cw w)"
  by (simp_all add: add_queued_def)

definition enqueue :: "bytes \<Rightarrow> writer_world \<Rightarrow> writer_world" where
  "enqueue buf w = (set_q (cw_q (ww_cw w) @ [buf]) w)\<lparr> ww_accepted := ww_accepted w @ [buf] \<rparr>"

lemma enqueue_frame [simp]:
  "ww_run (enqueue b w) = ww_run w" "ww_threads (enqueue b w) = ww_threads w"
  "cw_q (ww_cw (enqueue b w)) = cw_q (ww_cw w) @ [b]" "cw_queued (ww_cw (enqueue b w)) = cw_queued (ww_cw w)"
  "ww_accepted (enqueue b w) = ww_accepted w @ [b]" "grows w (enqueue b w)"
  by (auto simp: enqueue_def grows_def) (simp_all add: set_q_def)

lemma run_ok_enqueue: "run_ok w pc \<Longrightarrow> run_ok (enqueue b w) pc"
  by (cases pc) (auto simp: enqueue_def set_q_def flags_after_def)

lemma seal_ok_enqueue: "seal_ok w \<Longrightarrow> seal_ok (enqueue b w)"
  by (auto simp: enqueue_def set_q_def seal_ok_def)

lemma send_step_effect:
  assumes "seal_ok w" "run_ok w (ww_run w)" "length (cw_q (ww_cw w)) \<le> writeQueueDepth"
    "thread_ok w (Sending pc)" "(w', pc') \<in> set (send_step w pc)"
  shows "user_effect w (Sending pc) w' (Sending pc')"
proof (cases pc)
  case (Check buf)
  with assms show ?thesis by (auto simp: user_effect_def split: if_splits)
next
  case (Reserve buf)
  with assms show ?thesis by (auto simp: user_effect_def Let_def split: if_splits)
next
  case (Offer buf)
  with assms show ?thesis
    by (auto simp: user_effect_def Let_def run_ok_enqueue seal_ok_enqueue simp flip: enqueue_def split: if_splits)
next
  case (Refund buf e)
  with assms show ?thesis
    by (cases e) (auto simp: user_effect_def Let_def flags_after_stall)
next
  case (Stall buf ops)
  show ?thesis
  proof (cases ops)
    case Nil
    with Stall assms show ?thesis by (auto simp: user_effect_def)
  next
    case (Cons op ops')
    with Stall assms show ?thesis by (auto intro!: user_effect_flag flags_after_flag_do)
  qed
next
  case (Return buf r)
  with assms show ?thesis by simp
qed

lemma close_step_effect:
  assumes "seal_ok w" "run_ok w (ww_run w)" "length (cw_q (ww_cw w)) \<le> writeQueueDepth"
    "(w', pc') \<in> set (close_step w pc)"
  shows "user_effect w (Closing pc) w' (Closing pc')"
proof -
  have stay: "user_effect w (Closing pc) w (Closing pc'')" for pc''
    using assms by (simp add: user_effect_def)
  have flag: "user_effect w (Closing pc) (flag_do op w) (Closing pc'')" for op pc''
    using assms by (intro user_effect_flag) auto
  have "w' = w \<or> (\<exists>op. w' = flag_do op w)"
    using assms(4) by (cases "(w, pc)" rule: close_step.cases) (auto simp del: flag_do.simps split: if_splits)
  with stay flag show ?thesis by blast
qed

lemma sum_list_put: "i < length xs \<Longrightarrow> sum_list (xs[i := v]) = sum_list xs + v - xs ! i" for v :: int
  by (induction xs arbitrary: i) (auto split: nat.splits)

lemma user_step_inv:
  assumes inv: "writer_inv w" and i: "i < length (ww_threads w)"
    and step: "(w', g) \<in> set (goroutine_step w (ww_threads w ! i))"
  shows "writer_inv (w'\<lparr> ww_threads := (ww_threads w)[i := g] \<rparr>)"
proof -
  let ?g = "ww_threads w ! i" and ?w = "w'\<lparr> ww_threads := (ww_threads w)[i := g] \<rparr>"
  have ok: "thread_ok w ?g" using inv i by (simp add: writer_inv_def list_all_length)
  have eff: "user_effect w ?g w' g"
    using inv step ok by (cases ?g) (auto simp: writer_inv_def books_ok_def intro: send_step_effect close_step_effect)
  have upd: "sum_list (map f ((ww_threads w)[i := g])) = sum_list (map f (ww_threads w)) + f g - f ?g"
    for f :: "goroutine \<Rightarrow> int"
    using i by (simp add: map_update sum_list_put)
  have le: "sum_list (map admitted ts) \<le> sum_list (map reserved ts)" for ts
  proof (rule sum_list_mono)
    show "admitted g \<le> reserved g" for g by (cases g rule: admitted.cases) simp_all
  qed
  have "books_ok ?w"
    using inv eff le [of "(ww_threads w)[i := g]"]
    by (auto simp: writer_inv_def books_ok_def user_effect_def upd)
  moreover have "seal_ok ?w" "run_ok ?w (ww_run ?w)"
    using eff by (auto simp: user_effect_def seal_ok_def)
  moreover have "list_all (thread_ok ?w) (ww_threads ?w)"
  proof -
    have gr: "grows w ?w" "grows w' ?w" using eff by (simp_all add: user_effect_def grows_def)
    have "list_all (thread_ok ?w) (ww_threads w)"
      using inv gr(1) by (auto simp: writer_inv_def list_all_iff intro: thread_ok_mono)
    moreover have "thread_ok ?w g" using eff gr(2) by (auto simp: user_effect_def intro: thread_ok_mono)
    ultimately show ?thesis using i by (auto simp: list_all_length nth_list_update)
  qed
  ultimately show ?thesis by (simp add: writer_inv_def)
qed

subsection \<open>The goroutine that writes\<close>

lemma writer_inv_run:
  assumes "writer_inv w" "grows w w'" "ww_threads w' = ww_threads w" "seal_ok w'" "run_ok w' (ww_run w')"
    "length (cw_q (ww_cw w')) \<le> length (cw_q (ww_cw w))"
    "cw_queued (ww_cw w') - frame_bytes (cw_q (ww_cw w')) - taken (ww_run w') =
     cw_queued (ww_cw w) - frame_bytes (cw_q (ww_cw w)) - taken (ww_run w)"
    "frame_bytes (cw_q (ww_cw w')) + taken (ww_run w') \<le> frame_bytes (cw_q (ww_cw w)) + taken (ww_run w)"
  shows "writer_inv w'"
  using assms by (auto simp: writer_inv_def books_ok_def list_all_iff intro: thread_ok_mono)

lemma take_frame_inv:
  assumes inv: "writer_inv w" and w': "w' \<in> set (take_frame f w)" and f: "f \<longrightarrow> cw_closed (ww_cw w)"
    and fifo: "ww_accepted w = ww_written w @ cw_q (ww_cw w)" and run: "ww_run w = Select \<or> ww_run w = FlushRecv"
  shows "writer_inv w'"
proof -
  obtain buf q where q: "cw_q (ww_cw w) = buf # q" and w'': "w' = (set_q q w)\<lparr> ww_run := Took buf f \<rparr>"
    using w' by (cases "cw_q (ww_cw w)") (auto simp: take_frame_def)
  show ?thesis
    by (rule writer_inv_run [OF inv])
      (use inv f fifo run q in \<open>auto simp: w'' set_q_def grows_def flags_after_def writer_inv_def seal_ok_def flag_set_ww [unfolded set_q_def]\<close>)
qed

lemma finish_inv:
  assumes inv: "writer_inv w" and pc: "taken (ww_run w) = 0" "cw_closed (ww_cw w)"
    "\<exists>r. ww_accepted w = ww_written w @ r @ cw_q (ww_cw w)"
    "cw_discard (ww_cw w) \<or> ww_accepted w = ww_written w"
  shows "writer_inv (finish w)"
proof (rule writer_inv_run [OF inv])
  show "run_ok (finish w) (ww_run (finish w))"
    using inv pc by (auto simp: finish_def writer_inv_def seal_ok_def)
qed (use inv pc in \<open>auto simp: finish_def grows_def writer_inv_def seal_ok_def flag_set_ww [unfolded finish_def]\<close>)

lemma goto_inv:
  assumes inv: "writer_inv w" and pc: "run_ok w pc" "taken (ww_run w) = 0" "taken pc = 0"
    and live: "ww_run w \<noteq> Finished" "pc \<noteq> Finished"
  shows "writer_inv (w\<lparr> ww_run := pc \<rparr>)"
  by (rule writer_inv_run [OF inv]) (use inv pc live in \<open>auto simp: grows_def writer_inv_def seal_ok_def\<close>)

lemma flag_do_inv: "writer_inv w \<Longrightarrow> writer_inv (flag_do op w)"
  by (rule writer_inv_run [where w = w])
    (simp_all add: writer_inv_def grows_flag_do seal_ok_flag_do run_ok_flag_do)

lemma run_step_inv:
  assumes inv: "writer_inv w" and step: "w' \<in> set (run_step w (ww_run w))"
  shows "writer_inv w'"
proof -
  have parts: "seal_ok w" "run_ok w (ww_run w)" using inv by (simp_all add: writer_inv_def)
  show ?thesis
  proof (cases "ww_run w")
    case Select
    then show ?thesis
      using parts step by (auto split: if_splits intro: take_frame_inv [OF inv] goto_inv [OF inv])
  next
    case (Took buf f)
    show ?thesis
      by (rule writer_inv_run [OF inv])
        (use Took parts step in \<open>auto simp: grows_def seal_ok_def\<close>)
  next
    case (Writing buf f)
    show ?thesis
      by (rule writer_inv_run [OF inv])
        (use Writing parts step in \<open>auto simp: seal_ok_def grows_def flags_after_stall split: if_splits\<close>)
  next
    case (Failing buf ops)
    show ?thesis
    proof (cases ops)
      case Nil
      with Failing parts step show ?thesis
        by (auto intro!: finish_inv [OF inv] simp: flags_after_def)
    next
      case (Cons op ops')
      with Failing parts step show ?thesis
        by (auto intro!: goto_inv [OF flag_do_inv [OF inv]] flags_after_flag_do)
    qed
  next
    case Flush
    then show ?thesis
      using parts step by (auto split: if_splits intro!: finish_inv [OF inv] goto_inv [OF inv])
  next
    case FlushRecv
    then show ?thesis
      using parts step by (auto split: if_splits intro!: finish_inv [OF inv] intro: take_frame_inv [OF inv])
  next
    case Finished
    then show ?thesis using step by simp
  qed
qed

interpretation conn_writers: invariant_system "\<lambda>w. \<exists>kill. w = newConnWriter kill" writer_step writer_inv
proof
  fix s assume "\<exists>kill. s = newConnWriter kill"
  then show "writer_inv s"
    by (auto simp: newConnWriter_def writer_inv_def books_ok_def seal_ok_def writeQueueBytes_def)
next
  fix s t assume inv: "writer_inv s" and "writer_step s t"
  from this(2) show "writer_inv t"
  proof (cases rule: writer_step.cases)
    case (spawn g buf)
    have "grows s t" by (simp add: spawn grows_def)
    with inv spawn show ?thesis
      by (auto simp: writer_inv_def books_ok_def seal_ok_def list_all_iff intro: thread_ok_mono)
  next
    case (user i w' g)
    with inv show ?thesis by (simp add: user_step_inv)
  next
    case writer
    with inv show ?thesis by (rule run_step_inv)
  qed
qed

section \<open>Executing the step relation\<close>

text \<open>A schedule: which goroutine moves next and which of its outcomes it takes.\<close>

datatype writer_move = Spawn goroutine | User nat nat | Writer nat

definition pick :: "nat \<Rightarrow> 'a list \<Rightarrow> 'a option" where
  "pick k xs = (if k < length xs then Some (xs ! k) else None)"

fun writer_do :: "writer_world \<Rightarrow> writer_move \<Rightarrow> writer_world option" where
  "writer_do w (Spawn g) =
     (case g of
        Sending (Check buf) \<Rightarrow> Some (w\<lparr> ww_threads := ww_threads w @ [g] \<rparr>)
      | Closing CloseEntry \<Rightarrow> Some (w\<lparr> ww_threads := ww_threads w @ [g] \<rparr>)
      | _ \<Rightarrow> None)"
| "writer_do w (User i k) =
     do { g \<leftarrow> pick i (ww_threads w);
          (w', g') \<leftarrow> pick k (goroutine_step w g);
          Some (w'\<lparr> ww_threads := (ww_threads w)[i := g'] \<rparr>) }"
| "writer_do w (Writer k) = pick k (run_step w (ww_run w))"

fun writer_schedule :: "writer_world \<Rightarrow> writer_move list \<Rightarrow> writer_world option" where
  "writer_schedule w [] = Some w"
| "writer_schedule w (m # ms) = Option.bind (writer_do w m) (\<lambda>w'. writer_schedule w' ms)"

lemma pick_mem: "pick k xs = Some x \<Longrightarrow> x \<in> set xs"
  by (auto simp: pick_def split: if_splits)

lemma writer_do_step: "writer_do w m = Some w' \<Longrightarrow> writer_step w w'"
proof (cases m)
  case (Spawn g)
  then show "writer_do w m = Some w' \<Longrightarrow> writer_step w w'"
    by (cases g) (auto intro: writer_step.spawn split: send_pc.splits close_pc.splits)
next
  case (User i k)
  then show "writer_do w m = Some w' \<Longrightarrow> writer_step w w'"
    by (auto simp: bind_eq_Some_conv pick_def intro!: writer_step.user split: if_splits)
      (metis nth_mem)
next
  case (Writer k)
  then show "writer_do w m = Some w' \<Longrightarrow> writer_step w w'"
    by (auto dest: pick_mem intro: writer_step.writer)
qed

lemma writer_schedule_steps: "writer_schedule w ms = Some w' \<Longrightarrow> writer_step\<^sup>*\<^sup>* w w'"
  by (induction ms arbitrary: w) (auto simp: bind_eq_Some_conv intro: converse_rtranclp_into_rtranclp writer_do_step)

section \<open>What the writer guarantees\<close>

lemma frame_bytes_length: "frame_bytes q \<le> 64 * 2 ^ 20 \<longleftrightarrow> sum_list (map length q) \<le> 64 * 2 ^ 20"
proof -
  have "frame_bytes q = int (sum_list (map length q))" by (induction q) simp_all
  then show ?thesis by simp
qed

text \<open>C12: Whatever the interleaving of senders, closers and the writing goroutine: the queue never
  holds more than \<^verbatim>\<open>writeQueueDepth\<close> frames or \<^verbatim>\<open>writeQueueBytes\<close> bytes; the socket receives the
  accepted frames in the order they were accepted, none twice, none skipped; a sender that was told
  its frame is queued did get it queued; a sender that was told the queue is full has closed the
  queue, dropped the backlog and killed the socket; and a writer that has ended without
  dropping its backlog has written every frame that was accepted before the queue was closed.\<close>

theorem writer_is_bounded_and_in_order:
  assumes reach: "writer_step\<^sup>*\<^sup>* (newConnWriter kill) w"
  shows "length (cw_q (ww_cw w)) \<le> 1024 \<and> sum_list (map length (cw_q (ww_cw w))) \<le> 64 * 2 ^ 20
    \<and> prefix (ww_written w) (ww_accepted w)
    \<and> (\<forall>buf. Sending (Return buf None) \<in> set (ww_threads w) \<longrightarrow> buf = [] \<or> buf \<in> set (ww_accepted w))
    \<and> (\<forall>buf. Sending (Return buf (Some ErrWriteQueueFull)) \<in> set (ww_threads w) \<longrightarrow>
         cw_closed (ww_cw w) \<and> cw_discard (ww_cw w) \<and> (cw_kill (ww_cw w) \<longrightarrow> cw_killed (ww_cw w)))
    \<and> (cw_done (ww_cw w) \<and> \<not> cw_discard (ww_cw w) \<longrightarrow>
         (\<exists>s. ww_sealed w = Some s \<and> prefix s (ww_written w)))"
proof (intro conjI allI impI)
  have inv: "writer_inv w" using conn_writers.Inv_reachable [OF _ reach] by blast
  have "0 \<le> admitted g" for g by (cases g rule: admitted.cases) simp_all
  then have "0 \<le> sum_list (map admitted ts)" for ts by (induction ts) (simp_all add: add_nonneg_nonneg)
  moreover have "0 \<le> taken (ww_run w)" by (cases "ww_run w") simp_all
  ultimately have "frame_bytes (cw_q (ww_cw w)) \<le> 64 * 2 ^ 20"
    using inv by (simp add: writer_inv_def books_ok_def writeQueueBytes_def) (smt (verit))
  then show "sum_list (map length (cw_q (ww_cw w))) \<le> 64 * 2 ^ 20"
    by (simp only: frame_bytes_length)
  show "length (cw_q (ww_cw w)) \<le> 1024"
    using inv by (simp add: writer_inv_def books_ok_def writeQueueDepth_def creditWindow_def)
  show "prefix (ww_written w) (ww_accepted w)"
    using inv by (cases "ww_run w") (auto simp: writer_inv_def)
  show "buf = [] \<or> buf \<in> set (ww_accepted w)" if "Sending (Return buf None) \<in> set (ww_threads w)" for buf
    using inv that by (auto simp: writer_inv_def list_all_iff dest!: bspec)
  show "\<exists>s. ww_sealed w = Some s \<and> prefix s (ww_written w)" if "cw_done (ww_cw w) \<and> \<not> cw_discard (ww_cw w)"
    using inv that by (auto simp: writer_inv_def seal_ok_def)
  fix buf assume "Sending (Return buf (Some ErrWriteQueueFull)) \<in> set (ww_threads w)"
  then have "flags_after w []" using inv by (auto simp: writer_inv_def list_all_iff dest!: bspec)
  then show "cw_closed (ww_cw w)" "cw_discard (ww_cw w)" "cw_kill (ww_cw w) \<Longrightarrow> cw_killed (ww_cw w)"
    by (auto simp: flags_after_def)
qed

subsection \<open>Teardown ends\<close>

text \<open>A run of the system, with the number of steps its writing goroutine takes.\<close>

inductive writer_trace :: "writer_world \<Rightarrow> nat \<Rightarrow> writer_world \<Rightarrow> bool" where
  start: "writer_trace w 0 w"
| other: "writer_trace w n w' \<Longrightarrow> writer_step w' w'' \<Longrightarrow> ww_run w'' = ww_run w' \<Longrightarrow> writer_trace w n w''"
| writes: "writer_trace w n w' \<Longrightarrow> w'' \<in> set (run_step w' (ww_run w')) \<Longrightarrow> writer_trace w (Suc n) w''"

text \<open>A sender past its first check may still enqueue a frame after the queue is closed.\<close>

fun late :: "goroutine \<Rightarrow> bool" where
  "late (Sending (Reserve b)) = True"
| "late (Sending (Offer b)) = True"
| "late g = False"

fun run_rank :: "run_pc \<Rightarrow> nat" where
  "run_rank Select = 3"
| "run_rank (Took b f) = 7"
| "run_rank (Writing b f) = 6"
| "run_rank (Failing b ops) = 1 + length ops"
| "run_rank Flush = 2"
| "run_rank FlushRecv = 1"
| "run_rank Finished = 0"

definition drain_bound :: "writer_world \<Rightarrow> nat" where
  "drain_bound w = 8 * (length (cw_q (ww_cw w)) + length (filter late (ww_threads w))) + run_rank (ww_run w)"

fun send_rank :: "send_pc \<Rightarrow> nat" where
  "send_rank (Check b) = 8"
| "send_rank (Reserve b) = 7"
| "send_rank (Offer b) = 6"
| "send_rank (Refund b e) = 5"
| "send_rank (Stall b ops) = Suc (length ops)"
| "send_rank (Return b r) = 0"

lemma flag_do_closed: "cw_closed (ww_cw w) \<Longrightarrow> cw_closed (ww_cw (flag_do op w))"
  by (rule grows_closed [OF grows_flag_do])

lemma send_step_drains:
  assumes "cw_closed (ww_cw w)" "(w', pc') \<in> set (send_step w pc)"
  shows "cw_closed (ww_cw w') \<and> ww_run w' = ww_run w \<and>
    length (cw_q (ww_cw w')) + of_bool (late (Sending pc')) \<le> length (cw_q (ww_cw w)) + of_bool (late (Sending pc))"
  using assms
  by (cases "(w, pc)" rule: send_step.cases)
    (auto simp: Let_def set_q_def flag_do_closed simp del: flag_do.simps split: if_splits send_err.splits)

lemma close_step_drains:
  assumes "cw_closed (ww_cw w)" "(w', pc') \<in> set (close_step w pc)"
  shows "cw_closed (ww_cw w') \<and> ww_run w' = ww_run w \<and> length (cw_q (ww_cw w')) \<le> length (cw_q (ww_cw w))"
  using assms
  by (cases "(w, pc)" rule: close_step.cases)
    (auto simp: flag_do_closed simp del: flag_do.simps split: if_splits)

lemma user_step_drains:
  assumes "cw_closed (ww_cw w)" "(w', g') \<in> set (goroutine_step w g)"
  shows "cw_closed (ww_cw w') \<and> ww_run w' = ww_run w \<and>
    length (cw_q (ww_cw w')) + of_bool (late g') \<le> length (cw_q (ww_cw w)) + of_bool (late g)"
  using assms by (cases g) (auto dest: send_step_drains close_step_drains)

lemma run_step_drains:
  assumes "cw_closed (ww_cw w)" "w' \<in> set (run_step w (ww_run w))"
  shows "cw_closed (ww_cw w') \<and> drain_bound w' < drain_bound w"
  using assms
  by (cases "(w, ww_run w)" rule: run_step.cases; cases "cw_q (ww_cw w)")
    (auto simp: drain_bound_def take_frame_def set_q_def finish_def stall_def flag_do_closed
      simp del: flag_do.simps split: if_splits)

lemma length_filter_put:
  "i < length xs \<Longrightarrow>
    length (filter P (xs[i := x])) + of_bool (P (xs ! i)) = length (filter P xs) + of_bool (P x)"
proof (induction xs arbitrary: i)
  case (Cons y ys)
  show ?case
  proof (cases i)
    case (Suc k)
    with Cons.prems Cons.IH [of k] show ?thesis by auto
  qed auto
qed simp

lemma writer_step_drains:
  assumes closed: "cw_closed (ww_cw w)" and step: "writer_step w w'"
  shows "cw_closed (ww_cw w') \<and> drain_bound w' \<le> drain_bound w"
  using step
proof (cases rule: writer_step.cases)
  case (spawn g buf)
  with closed show ?thesis by (auto simp: drain_bound_def)
next
  case (user i v g)
  then show ?thesis
    using user_step_drains [OF closed user(3)] length_filter_put [OF user(2), of late g]
    by (auto simp: drain_bound_def)
next
  case writer
  with closed show ?thesis by (auto dest: run_step_drains)
qed

lemma writer_trace_drains:
  "writer_trace w n w' \<Longrightarrow> cw_closed (ww_cw w) \<Longrightarrow> cw_closed (ww_cw w') \<and> n + drain_bound w' \<le> drain_bound w"
  by (induction rule: writer_trace.induct) (fastforce dest: writer_step_drains run_step_drains)+

text \<open>\<^verbatim>\<open>send\<close> never waits: wherever it is, it has a next step, and it returns after at most eight
  of them, whatever the other goroutines do in between. Once the queue is closed the writing
  goroutine ends: in every continuation it takes at most \<open>drain_bound\<close> steps, eight for each frame
  that is queued or that a sender already past its check can still queue, and as long as it has not
  ended it is never blocked on the queue, so that the wait of \<^verbatim>\<open>Close\<close> is over after the socket
  has taken or failed these writes.\<close>

theorem writer_teardown_ends:
  shows "((\<forall>b r. pc \<noteq> Return b r) \<longrightarrow> send_step v pc \<noteq> [])
    \<and> send_rank (Check buf) = 8
    \<and> (\<forall>(v', pc') \<in> set (send_step v pc). send_rank pc' < send_rank pc)
    \<and> (cw_closed (ww_cw w) \<and> writer_trace w n w' \<longrightarrow>
         n \<le> drain_bound w \<and> (ww_run w' \<noteq> Finished \<longrightarrow> run_step w' (ww_run w') \<noteq> []))"
proof (intro conjI impI)
  show "(\<forall>b r. pc \<noteq> Return b r) \<Longrightarrow> send_step v pc \<noteq> []"
    by (cases "(v, pc)" rule: send_step.cases) (auto simp: Let_def split: send_err.splits)
  show "\<forall>(v', pc') \<in> set (send_step v pc). send_rank pc' < send_rank pc"
    by (cases "(v, pc)" rule: send_step.cases) (auto simp: Let_def stall_def split: send_err.splits)
  assume "cw_closed (ww_cw w) \<and> writer_trace w n w'"
  then have drains: "cw_closed (ww_cw w')" "n + drain_bound w' \<le> drain_bound w"
    using writer_trace_drains by blast+
  then show "n \<le> drain_bound w" by simp
  assume "ww_run w' \<noteq> Finished"
  with drains(1) show "run_step w' (ww_run w') \<noteq> []"
    by (cases "(w', ww_run w')" rule: run_step.cases) (auto simp: take_frame_def split: list.splits)
qed simp

section \<open>Witnesses\<close>

definition wwriter_moves :: "writer_move list" where
  "wwriter_moves =
     [Spawn (Sending (Check [1, 2])), User 0 0, User 0 0, User 0 0,
      Spawn (Sending (Check [3])), User 1 0, User 1 0, Writer 0, User 1 0, Writer 0, Writer 0,
      Spawn (Closing CloseEntry), User 2 0, Writer 1, Writer 0, Writer 0, Writer 0, Writer 0,
      Writer 0, Writer 0, User 2 0]"

definition wwriter :: writer_world where
  "wwriter = the (writer_schedule (newConnWriter True) wwriter_moves)"


lemma wwriter_run: "writer_schedule (newConnWriter True) wwriter_moves = Some wwriter"
  by code_simp

theorem writer_is_bounded_and_in_order_witness:
  "cw_done (ww_cw wwriter) \<and> \<not> cw_discard (ww_cw wwriter) \<and>
   ww_accepted wwriter = [[1, 2], [3]] \<and> ww_written wwriter = [[1, 2], [3]] \<and>
   (\<exists>s. ww_sealed wwriter = Some s \<and> prefix s (ww_written wwriter)) \<and>
   [1, 2] \<in> set (ww_accepted wwriter)"
proof -
  have reach: "writer_step\<^sup>*\<^sup>* (newConnWriter True) wwriter"
    by (rule writer_schedule_steps [OF wwriter_run])
  have facts: "cw_done (ww_cw wwriter)" "\<not> cw_discard (ww_cw wwriter)"
    "ww_accepted wwriter = [[1, 2], [3]]" "ww_written wwriter = [[1, 2], [3]]"
    "Sending (Return [1, 2] None) \<in> set (ww_threads wwriter)"
    by code_simp+
  from facts writer_is_bounded_and_in_order [OF reach] show ?thesis by simp
qed

lemma goroutine_step_run: "(w', g') \<in> set (goroutine_step w g) \<Longrightarrow> ww_run w' = ww_run w"
proof (cases g)
  case (Sending pc)
  then show "(w', g') \<in> set (goroutine_step w g) \<Longrightarrow> ww_run w' = ww_run w"
    by (cases "(w, pc)" rule: send_step.cases)
      (auto simp: Let_def set_q_def simp del: flag_do.simps split: if_splits send_err.splits)
next
  case (Closing pc)
  then show "(w', g') \<in> set (goroutine_step w g) \<Longrightarrow> ww_run w' = ww_run w"
    by (cases "(w, pc)" rule: close_step.cases) (auto simp del: flag_do.simps split: if_splits)
qed

fun writer_moves :: "writer_move list \<Rightarrow> nat" where
  "writer_moves [] = 0"
| "writer_moves (Writer k # ms) = Suc (writer_moves ms)"
| "writer_moves (m # ms) = writer_moves ms"

lemma writer_schedule_trace:
  "writer_schedule w ms = Some w' \<Longrightarrow> writer_trace v n w \<Longrightarrow> writer_trace v (n + writer_moves ms) w'"
proof (induction ms arbitrary: w n)
  case (Cons m ms)
  from Cons.prems(1) obtain u where u: "writer_do w m = Some u" "writer_schedule u ms = Some w'"
    by (auto simp: bind_eq_Some_conv)
  show ?case
  proof (cases m)
    case (Writer k)
    with u(1) Cons.prems(2) have "writer_trace v (Suc n) u"
      by (auto dest: pick_mem intro: writer_trace.writes)
    from Cons.IH [OF u(2) this] Writer show ?thesis by simp
  next
    case (Spawn g)
    with u(1) have "ww_run u = ww_run w" by (auto split: goroutine.splits send_pc.splits close_pc.splits)
    from Cons.IH [OF u(2) writer_trace.other [OF Cons.prems(2) writer_do_step [OF u(1)] this]] Spawn
    show ?thesis by simp
  next
    case (User i k)
    with u(1) have "ww_run u = ww_run w"
      by (auto simp: bind_eq_Some_conv dest!: pick_mem dest: goroutine_step_run)
    from Cons.IH [OF u(2) writer_trace.other [OF Cons.prems(2) writer_do_step [OF u(1)] this]] User
    show ?thesis by simp
  qed
qed simp

end
