(* ===== verification/Smb2_Negotiate.thy ===== *)
theory Smb2_Negotiate
  imports Create_Contexts
begin

text \<open>
  NEGOTIATE on the wire and the choice of algorithms: \<^verbatim>\<open>smb2/negotiate.go\<close>, \<^verbatim>\<open>selection.go\<close> and
  \<^verbatim>\<open>preauth.go\<close>. A request carries the dialects a client speaks and, for 3.1.1, a list of
  negotiate contexts that are walked by offset; the response carries the server's choice in the
  same form. SHA-512 is an argument of \<open>Update\<close>.
\<close>

abbreviation (input) Dialect202 :: u16 where "Dialect202 \<equiv> 0x0202"
abbreviation (input) Dialect210 :: u16 where "Dialect210 \<equiv> 0x0210"
abbreviation (input) Dialect300 :: u16 where "Dialect300 \<equiv> 0x0300"
abbreviation (input) Dialect302 :: u16 where "Dialect302 \<equiv> 0x0302"
abbreviation (input) Dialect311 :: u16 where "Dialect311 \<equiv> 0x0311"

abbreviation (input) NegotiateSigningEnabled :: u16 where "NegotiateSigningEnabled \<equiv> 0x0001"
abbreviation (input) NegotiateSigningRequired :: u16 where "NegotiateSigningRequired \<equiv> 0x0002"

abbreviation (input) CapLargeMTU :: u32 where "CapLargeMTU \<equiv> 0x00000004"
abbreviation (input) CapEncryption :: u32 where "CapEncryption \<equiv> 0x00000040"

abbreviation (input) CtxPreauthIntegrityCaps :: u16 where "CtxPreauthIntegrityCaps \<equiv> 0x0001"
abbreviation (input) CtxEncryptionCaps :: u16 where "CtxEncryptionCaps \<equiv> 0x0002"
abbreviation (input) CtxSigningCaps :: u16 where "CtxSigningCaps \<equiv> 0x0008"

abbreviation (input) HashSHA512 :: u16 where "HashSHA512 \<equiv> 0x0001"

abbreviation (input) SigningHMACSHA256 :: u16 where "SigningHMACSHA256 \<equiv> 0x0000"
abbreviation (input) SigningAESCMAC :: u16 where "SigningAESCMAC \<equiv> 0x0001"
abbreviation (input) SigningAESGMAC :: u16 where "SigningAESGMAC \<equiv> 0x0002"

section \<open>The request\<close>

record preauth_integrity =
  pi_HashAlgorithms :: "u16 list"
  pi_Salt :: bytes

text \<open>\<^verbatim>\<open>EncryptionContext\<close> and \<^verbatim>\<open>SigningCapsContext\<close> hold one list each and may be absent.\<close>

record negotiate_request =
  nq_SecurityMode :: u16
  nq_Capabilities :: u32
  nq_ClientGuid :: bytes
  nq_Dialects :: "u16 list"
  nq_PreauthIntegrity :: preauth_integrity
  nq_Encryption :: "u16 list option"
  nq_SigningCaps :: "u16 list option"

fun u16s_at :: "bytes \<Rightarrow> nat \<Rightarrow> nat \<Rightarrow> u16 list option" where
  "u16s_at b off 0 = Some []"
| "u16s_at b off (Suc n) = do { w \<leftarrow> u16_at b off; ws \<leftarrow> u16s_at b (off + 2) n; Some (w # ws) }"

definition decodePreauth :: "bytes \<Rightarrow> (smb_err, preauth_integrity) decoded" where
  "decodePreauth d =
     (if length d < 4 then Some (Inl ErrShortBuffer)
      else do {
        hashCount \<leftarrow> u16_at d 0;
        saltLen \<leftarrow> u16_at d 2;
        let need = 4 + unat hashCount * 2 + unat saltLen;
        if length d < need then Some (Inl ErrShortBuffer)
        else do {
          salt \<leftarrow> go_slice d (4 + unat hashCount * 2) (4 + unat hashCount * 2 + unat saltLen);
          hashes \<leftarrow> u16s_at d 4 (unat hashCount);
          Some (Inr \<lparr>pi_HashAlgorithms = hashes, pi_Salt = salt\<rparr>)
        }
      })"

definition decode_id_list :: "bytes \<Rightarrow> (smb_err, u16 list) decoded" where
  "decode_id_list d =
     (if length d < 2 then Some (Inl ErrShortBuffer)
      else do {
        n \<leftarrow> u16_at d 0;
        if length d < 2 + unat n * 2 then Some (Inl ErrShortBuffer)
        else map_option Inr (u16s_at d 2 (unat n))
      })"

definition decodeEncryption :: "bytes \<Rightarrow> (smb_err, u16 list) decoded" where
  "decodeEncryption = decode_id_list"

definition decodeSigningCaps :: "bytes \<Rightarrow> (smb_err, u16 list) decoded" where
  "decodeSigningCaps = decode_id_list"

definition take_context :: "u16 \<Rightarrow> bytes \<Rightarrow> negotiate_request \<Rightarrow> (smb_err, negotiate_request) decoded" where
  "take_context ctype data req =
     (if ctype = CtxPreauthIntegrityCaps then
        ok_then (decodePreauth data) (\<lambda>pic. Some (Inr (req\<lparr>nq_PreauthIntegrity := pic\<rparr>)))
      else if ctype = CtxEncryptionCaps then
        ok_then (decodeEncryption data) (\<lambda>ec. Some (Inr (req\<lparr>nq_Encryption := Some ec\<rparr>)))
      else if ctype = CtxSigningCaps then
        ok_then (decodeSigningCaps data) (\<lambda>sc. Some (Inr (req\<lparr>nq_SigningCaps := Some sc\<rparr>)))
      else Some (Inr req))"

definition align8 :: "nat \<Rightarrow> nat" where
  "align8 off = (let pad = off mod 8 in if pad \<noteq> 0 then off + (8 - pad) else off)"

fun decode_contexts :: "bytes \<Rightarrow> nat \<Rightarrow> nat \<Rightarrow> negotiate_request \<Rightarrow> (smb_err, negotiate_request) decoded" where
  "decode_contexts body off 0 req = Some (Inr req)"
| "decode_contexts body off (Suc n) req =
     (if off + 8 > length body then Some (Inl ErrShortBuffer)
      else do {
        ctype \<leftarrow> u16_at body off;
        dlen \<leftarrow> u16_at body (off + 2);
        let dend = off + 8 + unat dlen;
        if dend > length body then Some (Inl ErrShortBuffer)
        else do {
          data \<leftarrow> go_slice body (off + 8) dend;
          ok_then (take_context ctype data req) (\<lambda>req'. decode_contexts body (align8 dend) n req')
        }
      })"

definition DecodeNegotiateRequest :: "bytes \<Rightarrow> (smb_err, negotiate_request) decoded" where
  "DecodeNegotiateRequest body =
     (if length body < 36 then Some (Inl ErrShortBuffer)
      else do {
        ss \<leftarrow> u16_at body 0;
        if ss \<noteq> 36 then Some (Inl ErrBadStructureSize)
        else do {
          dialectCount \<leftarrow> u16_at body 2;
          secMode \<leftarrow> u16_at body 4;
          caps \<leftarrow> u32_at body 8;
          guid \<leftarrow> go_slice body 12 28;
          ctxOffsetAbs \<leftarrow> u32_at body 28;
          ctxCount \<leftarrow> u16_at body 32;
          if 36 + unat dialectCount * 2 > length body then Some (Inl ErrShortBuffer)
          else do {
            dialects \<leftarrow> u16s_at body 36 (unat dialectCount);
            let req = \<lparr>nq_SecurityMode = secMode, nq_Capabilities = caps, nq_ClientGuid = guid,
                       nq_Dialects = dialects,
                       nq_PreauthIntegrity = \<lparr>pi_HashAlgorithms = [], pi_Salt = []\<rparr>,
                       nq_Encryption = None, nq_SigningCaps = None\<rparr>;
            if \<not> (\<exists>d \<in> set dialects. d = Dialect311) then Some (Inr req)
            else if ctxCount = 0 then Some (Inr req)
            else if unat ctxOffsetAbs < 64 then Some (Inl ErrContextOffset)
            else decode_contexts body (unat ctxOffsetAbs - 64) (unat ctxCount) req
          }
        }
      })"

section \<open>The response\<close>

record negotiate_response =
  np_SecurityMode :: u16
  np_Dialect :: u16
  np_ServerGuid :: bytes
  np_Capabilities :: u32
  np_MaxTransactSize :: u32
  np_MaxReadSize :: u32
  np_MaxWriteSize :: u32
  np_SystemTime :: u64
  np_ServerStartTime :: u64
  np_SecurityBuffer :: bytes
  np_PreauthIntegrity :: "preauth_integrity option"
  np_Encryption :: "u16 list option"
  np_SigningCaps :: "u16 list option"

definition u16s_bytes :: "u16 list \<Rightarrow> bytes" where
  "u16s_bytes ws = concat (map (\<lambda>w. le16 w) ws)"

definition encodePreauth :: "preauth_integrity \<Rightarrow> bytes" where
  "encodePreauth p =
     le16 (word_of_nat (length (pi_HashAlgorithms p))) @ le16 (word_of_nat (length (pi_Salt p))) @
     u16s_bytes (pi_HashAlgorithms p) @ pi_Salt p"

definition encode_id_list :: "u16 list \<Rightarrow> bytes" where
  "encode_id_list ws = le16 (word_of_nat (length ws)) @ u16s_bytes ws"

definition encodeEncryption :: "u16 list \<Rightarrow> bytes" where
  "encodeEncryption = encode_id_list"

definition encodeSigningCaps :: "u16 list \<Rightarrow> bytes" where
  "encodeSigningCaps = encode_id_list"

definition appendCtx :: "bytes \<Rightarrow> u16 \<Rightarrow> bytes \<Rightarrow> bool \<Rightarrow> bytes" where
  "appendCtx body t data padAfter =
     (let hdr = le16 t @ le16 (word_of_nat (length data)) @ zeros 4;
          body = body @ hdr @ data
      in if padAfter then pad8 body else body)"

definition negotiate_fixed_part :: "negotiate_response \<Rightarrow> nat \<Rightarrow> bytes option" where
  "negotiate_fixed_part r ctxCount = do {
     body \<leftarrow> put_at 0 [65, 0] (zeros 64);
     body \<leftarrow> put_at 2 (le16 (np_SecurityMode r)) body;
     body \<leftarrow> put_at 4 (le16 (np_Dialect r)) body;
     body \<leftarrow> put_at 6 (le16 (word_of_nat ctxCount)) body;
     body \<leftarrow> put_at 8 (np_ServerGuid r) body;
     body \<leftarrow> put_at 24 (le32 (np_Capabilities r)) body;
     body \<leftarrow> put_at 28 (le32 (np_MaxTransactSize r)) body;
     body \<leftarrow> put_at 32 (le32 (np_MaxReadSize r)) body;
     body \<leftarrow> put_at 36 (le32 (np_MaxWriteSize r)) body;
     body \<leftarrow> put_at 40 (le64 (np_SystemTime r)) body;
     body \<leftarrow> put_at 48 (le64 (np_ServerStartTime r)) body;
     body \<leftarrow> put_at 56 (le16 128) body;
     put_at 58 (le16 (word_of_nat (length (np_SecurityBuffer r)))) body
   }"

definition EncodeNegotiateResponse :: "negotiate_response \<Rightarrow> (smb_err, bytes) decoded" where
  "EncodeNegotiateResponse r =
     (let is311 = (np_Dialect r = Dialect311) in
      if is311 \<and> np_PreauthIntegrity r = None then Some (Inl ErrMissingPreauth)
      else do {
        let ctxCount = (if is311 then 1 + (if np_Encryption r \<noteq> None then 1 else 0)
                                       + (if np_SigningCaps r \<noteq> None then 1 else 0) else 0 :: nat);
        body \<leftarrow> negotiate_fixed_part r ctxCount;
        let body = body @ np_SecurityBuffer r;
        if \<not> is311 then Some (Inr body)
        else do {
          let body = pad8 body;
          body \<leftarrow> put_at 60 (le32 (word_of_nat (length body + 64))) body;
          let body = appendCtx body CtxPreauthIntegrityCaps (encodePreauth (the (np_PreauthIntegrity r))) True;
          let body = (case np_Encryption r of None \<Rightarrow> body
                      | Some e \<Rightarrow> appendCtx body CtxEncryptionCaps (encodeEncryption e) True);
          let body = (case np_SigningCaps r of None \<Rightarrow> body
                      | Some s \<Rightarrow> appendCtx body CtxSigningCaps (encodeSigningCaps s) False);
          Some (Inr body)
        }
      })"

section \<open>Selection\<close>

datatype select_err = ErrNoCommonDialect | ErrNoCommonCipher | ErrNoPreauthSHA512 | ErrNoCommonSigningAlgo

record Selection =
  sel_Dialect :: u16
  sel_Cipher :: u16
  sel_Hash :: u16
  sel_SigningAlgo :: u16

definition SupportedDialects :: "u16 list" where
  "SupportedDialects = [Dialect311, Dialect302, Dialect300, Dialect210, Dialect202]"

definition SupportedCiphers :: "u16 list" where
  "SupportedCiphers = [0x0004, 0x0002, 0x0003, 0x0001]"

definition SupportedSigningAlgos :: "u16 list" where
  "SupportedSigningAlgos = [SigningAESCMAC, SigningAESGMAC]"

text \<open>The dialect loop stops at the first match. The cipher and signing loops keep their choice in
  a field that is 0 as long as nothing matched, and stop when it is not 0.\<close>

fun dialect_loop :: "u16 list \<Rightarrow> u16 list \<Rightarrow> u16 option" where
  "dialect_loop [] offered = None"
| "dialect_loop (d # ds) offered = (if d \<in> set offered then Some d else dialect_loop ds offered)"

fun choice_loop :: "u16 list \<Rightarrow> u16 list \<Rightarrow> u16 \<Rightarrow> u16" where
  "choice_loop [] offered cur = cur"
| "choice_loop (s # ss) offered cur =
     (let cur = (if s \<in> set offered then s else cur) in
      if cur \<noteq> 0 then cur else choice_loop ss offered cur)"

definition Select :: "negotiate_request \<Rightarrow> bool \<Rightarrow> select_err + Selection" where
  "Select req requireEncryption =
     (case dialect_loop SupportedDialects (nq_Dialects req) of
        None \<Rightarrow> Inl ErrNoCommonDialect
      | Some d \<Rightarrow>
          if d = Dialect311 \<and> HashSHA512 \<notin> set (pi_HashAlgorithms (nq_PreauthIntegrity req))
          then Inl ErrNoPreauthSHA512
          else
            let hash = (if d = Dialect311 then HashSHA512 else 0);
                cipher = (if d = Dialect311 then
                            (case nq_Encryption req of None \<Rightarrow> 0 | Some cs \<Rightarrow> choice_loop SupportedCiphers cs 0)
                          else if d = Dialect300 \<or> d = Dialect302 then
                            (if nq_Capabilities req AND CapEncryption \<noteq> 0 then 0x0001 else 0)
                          else 0)
            in if requireEncryption \<and> cipher = 0 then Inl ErrNoCommonCipher
               else if d = Dialect311 then
                 (case nq_SigningCaps req of
                    Some (a # as) \<Rightarrow>
                      let algo = choice_loop SupportedSigningAlgos (a # as) 0 in
                      if algo = 0 then Inl ErrNoCommonSigningAlgo
                      else Inr \<lparr>sel_Dialect = d, sel_Cipher = cipher, sel_Hash = hash, sel_SigningAlgo = algo\<rparr>
                  | _ \<Rightarrow> Inr \<lparr>sel_Dialect = d, sel_Cipher = cipher, sel_Hash = hash, sel_SigningAlgo = SigningAESCMAC\<rparr>)
               else if d = Dialect300 \<or> d = Dialect302 then
                 Inr \<lparr>sel_Dialect = d, sel_Cipher = cipher, sel_Hash = hash, sel_SigningAlgo = SigningAESCMAC\<rparr>
               else Inr \<lparr>sel_Dialect = d, sel_Cipher = cipher, sel_Hash = hash, sel_SigningAlgo = SigningHMACSHA256\<rparr>)"

section \<open>The preauthentication hash\<close>

definition NewPreauthHash :: bytes where
  "NewPreauthHash = zeros 64"

definition Update :: "(bytes \<Rightarrow> bytes) \<Rightarrow> bytes \<Rightarrow> bytes \<Rightarrow> bytes" where
  "Update sha512 p msg = take 64 (sha512 (p @ msg) @ drop (length (sha512 (p @ msg))) p)"

section \<open>No panic\<close>

lemma u16s_at_total: "off + n * 2 \<le> length b \<Longrightarrow> u16s_at b off n \<noteq> None"
  by (induction n arbitrary: off) (auto simp: go_panic bind_eq_None_conv simp del: not_None_eq)

lemma decodePreauth_no_panic: "decodePreauth d \<noteq> None"
  using u16s_at_total [of 4 _ d]
  by (auto simp: decodePreauth_def go_panic Let_def bind_eq_None_conv simp del: not_None_eq)

lemma decode_id_list_no_panic: "decode_id_list d \<noteq> None"
  using u16s_at_total [of 2 _ d] by (auto simp: decode_id_list_def go_panic)

lemma take_context_no_panic: "take_context t data req \<noteq> None"
  by (simp add: take_context_def decodeEncryption_def decodeSigningCaps_def ok_then_no_panic
      decodePreauth_no_panic decode_id_list_no_panic del: not_None_eq)

lemma decode_contexts_no_panic: "decode_contexts body off n req \<noteq> None"
proof (induction n arbitrary: off req)
  case (Suc n)
  then show ?case
    by (simp add: go_panic Let_def ok_then_no_panic take_context_no_panic del: not_None_eq)
qed simp

lemma DecodeNegotiateRequest_no_panic: "DecodeNegotiateRequest body \<noteq> None"
  using u16s_at_total [of 36 _ body] decode_contexts_no_panic
  by (auto simp: DecodeNegotiateRequest_def go_panic Let_def bind_eq_None_conv simp del: not_None_eq)

section \<open>Contexts on the wire\<close>

lemma length_u16s_bytes [simp]: "length (u16s_bytes ws) = 2 * length ws"
  by (induction ws) (simp_all add: u16s_bytes_def)

lemma u16s_at_wire:
  "length pre = off \<Longrightarrow> u16s_at (pre @ u16s_bytes ws @ rest) off (length ws) = Some ws"
proof (induction ws arbitrary: off pre)
  case (Cons w ws)
  from Cons.IH [of "pre @ le16 w" "off + 2"] Cons.prems show ?case
    by (simp add: go_panic u16s_bytes_def)
qed simp

lemma unat_count: "n < 2 ^ 16 \<Longrightarrow> unat (word_of_nat n :: u16) = n"
  by (simp add: unat_of_nat take_bit_nat_eq_self)

lemma decode_id_list_wire:
  assumes "length ws < 2 ^ 16"
  shows "decode_id_list (encode_id_list ws) = Some (Inr ws)"
  using u16s_at_wire [of "le16 (word_of_nat (length ws))" 2 ws "[]"] unat_count [OF assms]
  by (simp add: decode_id_list_def encode_id_list_def go_panic)

lemma decodePreauth_wire:
  assumes "length (pi_HashAlgorithms p) < 2 ^ 16" and "length (pi_Salt p) < 2 ^ 16"
  shows "decodePreauth (encodePreauth p) = Some (Inr p)"
  using u16s_at_wire [of "le16 (word_of_nat (length (pi_HashAlgorithms p))) @ le16 (word_of_nat (length (pi_Salt p)))"
      4 "pi_HashAlgorithms p" "pi_Salt p"] unat_count [OF assms(1)] unat_count [OF assms(2)]
  by (simp add: decodePreauth_def encodePreauth_def go_panic Let_def)

definition context_wire :: "u16 \<Rightarrow> bytes \<Rightarrow> bytes" where
  "context_wire t data = le16 t @ le16 (word_of_nat (length data)) @ zeros 4 @ data"

lemma decode_contexts_wire:
  assumes "length pre = off" and "length data < 2 ^ 16"
  shows "decode_contexts (pre @ context_wire t data @ rest) off (Suc n) req =
    ok_then (take_context t data req)
      (\<lambda>req'. decode_contexts (pre @ context_wire t data @ rest) (align8 (off + 8 + length data)) n req')"
  using assms unat_count [OF assms(2)]
  by (simp add: context_wire_def go_panic Let_def)

lemma align8_mod: "align8 off mod 8 = 0" "off \<le> align8 off" "align8 off < off + 8"
proof -
  have "(off + (8 - off mod 8)) mod 8 = 0" by presburger
  then show "align8 off mod 8 = 0" "off \<le> align8 off" "align8 off < off + 8"
    by (auto simp: align8_def Let_def)
qed

lemma length_pad8_align: "length (pad8 b) = align8 (length b)"
proof (cases "length b mod 8 = 0")
  case False
  then have "(8 - length b mod 8) mod 8 = 8 - length b mod 8" by (intro mod_less) simp
  with False show ?thesis by (simp add: pad8_def align8_def Let_def)
qed (simp add: pad8_def align8_def)

section \<open>Selection is the first common choice\<close>

text \<open>The reference: the first entry of the server's list that the client offers.\<close>

definition first_common :: "u16 list \<Rightarrow> u16 list \<Rightarrow> u16 option" where
  "first_common pref offered = find (\<lambda>x. x \<in> set offered) pref"

lemma dialect_loop_first: "dialect_loop pref offered = first_common pref offered"
  by (induction pref) (simp_all add: first_common_def)

lemma choice_loop_first:
  "0 \<notin> set pref \<Longrightarrow> choice_loop pref offered 0 = (case first_common pref offered of None \<Rightarrow> 0 | Some x \<Rightarrow> x)"
  by (induction pref) (auto simp: first_common_def)

lemma first_common_Some: "first_common pref offered = Some x \<Longrightarrow> x \<in> set pref \<and> x \<in> set offered"
  by (auto simp: first_common_def find_Some_iff)

lemma first_common_None: "first_common pref offered = None \<longleftrightarrow> set pref \<inter> set offered = {}"
  by (auto simp: first_common_def find_None_iff)

lemma best_dialect:
  assumes "dialect_loop SupportedDialects offered = Some d"
  shows "d \<in> set offered" "d \<in> set SupportedDialects" "\<forall>d' \<in> set offered \<inter> set SupportedDialects. d' \<le> d"
  using assms by (auto simp: SupportedDialects_def split: if_splits)

lemma cipher_choice: "choice_loop SupportedCiphers cs 0 = (case first_common SupportedCiphers cs of None \<Rightarrow> 0 | Some c \<Rightarrow> c)"
  by (rule choice_loop_first) (simp add: SupportedCiphers_def)

lemma signing_choice:
  "choice_loop SupportedSigningAlgos as 0 = (case first_common SupportedSigningAlgos as of None \<Rightarrow> 0 | Some a \<Rightarrow> a)"
  by (rule choice_loop_first) (simp add: SupportedSigningAlgos_def)

text \<open>The cipher a request leads to: for 3.1.1 the first of the server's list among those offered,
  for 3.0 and 3.0.2 AES-128-CCM if the client has the capability, none below.\<close>

definition cipher_for :: "negotiate_request \<Rightarrow> u16 \<Rightarrow> u16 option" where
  "cipher_for req d =
     (if d = Dialect311 then Option.bind (nq_Encryption req) (first_common SupportedCiphers)
      else if (d = Dialect300 \<or> d = Dialect302) \<and> nq_Capabilities req AND CapEncryption \<noteq> 0 then Some 0x0001
      else None)"

definition signing_for :: "negotiate_request \<Rightarrow> u16 \<Rightarrow> u16 option" where
  "signing_for req d =
     (if d = Dialect311 then
        (case nq_SigningCaps req of
           Some (a # as) \<Rightarrow> first_common SupportedSigningAlgos (a # as)
         | _ \<Rightarrow> Some SigningAESCMAC)
      else if d = Dialect300 \<or> d = Dialect302 then Some SigningAESCMAC
      else Some SigningHMACSHA256)"

lemma cipher_for_nonzero: "cipher_for req d = Some c \<Longrightarrow> c \<noteq> 0"
  by (auto simp: cipher_for_def bind_eq_Some_conv SupportedCiphers_def dest!: first_common_Some split: if_splits)

lemma Select_eq:
  "Select req enc =
    (case dialect_loop SupportedDialects (nq_Dialects req) of
       None \<Rightarrow> Inl ErrNoCommonDialect
     | Some d \<Rightarrow>
         if d = Dialect311 \<and> HashSHA512 \<notin> set (pi_HashAlgorithms (nq_PreauthIntegrity req)) then Inl ErrNoPreauthSHA512
         else if enc \<and> cipher_for req d = None then Inl ErrNoCommonCipher
         else (case signing_for req d of
                 None \<Rightarrow> Inl ErrNoCommonSigningAlgo
               | Some a \<Rightarrow> Inr \<lparr>sel_Dialect = d,
                   sel_Cipher = (case cipher_for req d of None \<Rightarrow> 0 | Some c \<Rightarrow> c),
                   sel_Hash = (if d = Dialect311 then HashSHA512 else 0), sel_SigningAlgo = a\<rparr>))"
proof -
  have c: "(case first_common SupportedCiphers cs of None \<Rightarrow> 0 | Some c \<Rightarrow> c) = 0 \<longleftrightarrow> first_common SupportedCiphers cs = None" for cs
    by (auto dest!: first_common_Some simp: SupportedCiphers_def split: option.splits)
  have g: "(case first_common SupportedSigningAlgos as of None \<Rightarrow> 0 | Some c \<Rightarrow> c) = 0 \<longleftrightarrow> first_common SupportedSigningAlgos as = None" for as
    by (auto dest!: first_common_Some simp: SupportedSigningAlgos_def split: option.splits)
  show ?thesis
    by (auto simp: Select_def Let_def cipher_choice signing_choice cipher_for_def signing_for_def c g
        split: option.splits list.splits)
qed

text \<open>The negotiated dialect is the highest one both sides speak; no request can make the server
  settle for less. A cipher is chosen exactly when there is a common one, the server's first choice
  among those offered, and always when encryption is required; so is the signing algorithm of 3.1.1.
  Each refusal has its stated cause.\<close>

theorem selection_is_best_common:
  "case Select req enc of
     Inl ErrNoCommonDialect \<Rightarrow> set (nq_Dialects req) \<inter> set SupportedDialects = {}
   | Inl ErrNoPreauthSHA512 \<Rightarrow>
       Dialect311 \<in> set (nq_Dialects req) \<and> HashSHA512 \<notin> set (pi_HashAlgorithms (nq_PreauthIntegrity req))
   | Inl ErrNoCommonCipher \<Rightarrow>
       enc \<and> (Dialect311 \<in> set (nq_Dialects req) \<longrightarrow>
                (\<forall>cs. nq_Encryption req = Some cs \<longrightarrow> set SupportedCiphers \<inter> set cs = {}))
   | Inl ErrNoCommonSigningAlgo \<Rightarrow>
       (\<exists>as. nq_SigningCaps req = Some as \<and> as \<noteq> [] \<and> set SupportedSigningAlgos \<inter> set as = {})
   | Inr sel \<Rightarrow>
       sel_Dialect sel \<in> set (nq_Dialects req) \<and>
       (\<forall>d \<in> set (nq_Dialects req) \<inter> set SupportedDialects. d \<le> sel_Dialect sel) \<and>
       sel_Cipher sel = (case cipher_for req (sel_Dialect sel) of None \<Rightarrow> 0 | Some c \<Rightarrow> c) \<and>
       (enc \<longrightarrow> sel_Cipher sel \<noteq> 0) \<and> signing_for req (sel_Dialect sel) = Some (sel_SigningAlgo sel)"
proof (cases "dialect_loop SupportedDialects (nq_Dialects req)")
  case None
  then have "set (nq_Dialects req) \<inter> set SupportedDialects = {}"
    by (auto simp: dialect_loop_first first_common_None)
  with None show ?thesis by (simp add: Select_eq)
next
  case (Some d)
  note best = best_dialect [OF Some]
  have "Dialect311 \<in> set (nq_Dialects req) \<longrightarrow> d = Dialect311"
    using best(2,3) by (auto simp: SupportedDialects_def)
  moreover have "cipher_for req d \<noteq> Some 0" using cipher_for_nonzero by blast
  moreover have "cipher_for req Dialect311 = None \<Longrightarrow> nq_Encryption req = Some cs \<Longrightarrow> set SupportedCiphers \<inter> set cs = {}" for cs
    by (simp add: cipher_for_def first_common_None)
  moreover have "signing_for req d = None \<Longrightarrow>
      \<exists>as. nq_SigningCaps req = Some as \<and> as \<noteq> [] \<and> set SupportedSigningAlgos \<inter> set as = {}"
    by (auto simp: signing_for_def first_common_None split: if_splits option.splits list.splits)
  ultimately show ?thesis
    using Some best(1,3) by (cases "cipher_for req d") (auto simp: Select_eq split: option.split)
qed

definition wnegotiate_request :: negotiate_request where
  "wnegotiate_request = \<lparr>nq_SecurityMode = 1, nq_Capabilities = 0x40, nq_ClientGuid = zeros 16,
     nq_Dialects = [Dialect210, Dialect302, Dialect311], nq_PreauthIntegrity = \<lparr>pi_HashAlgorithms = [1], pi_Salt = zeros 32\<rparr>,
     nq_Encryption = Some [1, 2], nq_SigningCaps = Some [2, 1]\<rparr>"

section \<open>Every decoder of the package\<close>

text \<open>C9: Whatever bytes a peer sends, no decoder of \<^verbatim>\<open>internal/smb2\<close> indexes or slices out of range: the decoder of the
  header, those of the fifteen request bodies (NEGOTIATE with its list of contexts included) and that of a list
  of copy chunks each return either an error or a value.\<close>

theorem request_decoders_never_panic:
  "DecodeHeader body \<noteq> None \<and> DecodeNegotiateRequest body \<noteq> None \<and>
   DecodeSessionSetupRequest body \<noteq> None \<and> DecodeTreeConnectRequest body \<noteq> None \<and>
   DecodeTreeDisconnectRequest body \<noteq> None \<and> DecodeCreateRequest body \<noteq> None \<and>
   DecodeLockRequest body \<noteq> None \<and> DecodeReadRequest body \<noteq> None \<and>
   DecodeWriteRequest body \<noteq> None \<and> DecodeCloseRequest body \<noteq> None \<and>
   DecodeFlushRequest body \<noteq> None \<and> DecodeSetInfoRequest body \<noteq> None \<and>
   DecodeQueryDirectoryRequest body \<noteq> None \<and> DecodeQueryInfoRequest body \<noteq> None \<and>
   DecodeChangeNotifyRequest body \<noteq> None \<and> DecodeIoctlRequest body \<noteq> None \<and>
   DecodeSrvCopyChunkCopy body maxChunks \<noteq> None"
  by (intro conjI fixed_decoders_no_panic DecodeHeader_no_panic DecodeNegotiateRequest_no_panic DecodeLockRequest_no_panic
      DecodeSrvCopyChunkCopy_no_panic)

end
