(* ===== verification/Spnego.thy ===== *)
theory Spnego
  imports Smb2_Header "HOL-Library.Sublist"
begin

text \<open>
  The SPNEGO wrapping of \<^verbatim>\<open>smb2/spnego.go\<close>: the DER reader that finds the NTLMSSP message in a
  security buffer, and the writer of the server's tokens. A slice the code would take out of range
  is \<open>None\<close>; the reader reports malformed input by its own flag, modelled as \<open>None\<close> of an inner
  \<open>option\<close> type where it is the code's \<^verbatim>\<open>ok = false\<close>.
\<close>

definition NegotiateSecurityBlob :: bytes where
  "NegotiateSecurityBlob =
     [0x60, 0x1c, 0x06, 0x06, 0x2b, 0x06, 0x01, 0x05, 0x05, 0x02, 0xa0, 0x12, 0x30, 0x10, 0xa0, 0x0e,
      0x30, 0x0c, 0x06, 0x0a, 0x2b, 0x06, 0x01, 0x04, 0x01, 0x82, 0x37, 0x02, 0x02, 0x0a]"

definition ntlmsspMagic :: bytes where
  "ntlmsspMagic = [0x4E, 0x54, 0x4C, 0x4D, 0x53, 0x53, 0x50, 0x00]"

definition ntlmsspOID :: bytes where
  "ntlmsspOID = [0x06, 0x0a, 0x2b, 0x06, 0x01, 0x04, 0x01, 0x82, 0x37, 0x02, 0x02, 0x0a]"

section \<open>Reading\<close>

text \<open>The length loop: \<^verbatim>\<open>length<<8 | b\<close>, where the shifted value has no bit below the eighth.\<close>

definition der_length :: "bytes \<Rightarrow> nat" where
  "der_length bs = fold (\<lambda>b len. len * 256 + unat b) bs 0"

definition derTLV :: "bytes \<Rightarrow> (byte \<times> bytes \<times> bytes) option" where
  "derTLV b =
     (if length b < 2 then None
      else
        let tag = b ! 0; l0 = b ! 1 in
        if tag AND 0x1f = 0x1f then None
        else if l0 AND 0x80 \<noteq> 0 then
          (let n = unat (l0 AND 0x7f) in
           if n = 0 \<or> n > 3 \<or> length b < 2 + n then None
           else
             let len = der_length (take n (drop 2 b)); i = 2 + n in
             if len > length b - i then None
             else Some (tag, take len (drop i b), drop (i + len) b))
        else
          (let len = unat l0; i = 2 in
           if len > length b - i then None
           else Some (tag, take len (drop i b), drop (i + len) b)))"

lemma derTLV_shorter: "derTLV b = Some (t, c, rest) \<Longrightarrow> length rest < length b"
  by (auto simp: derTLV_def Let_def split: if_splits)

function find_token :: "bytes \<Rightarrow> bytes option" where
  "find_token seq =
     (if seq = [] then None
      else (case derTLV seq of
         None \<Rightarrow> None
       | Some (t, c, rest) \<Rightarrow>
           if t = 0xa2 then
             (case derTLV c of
                None \<Rightarrow> None
              | Some (it, token, _) \<Rightarrow> if it \<noteq> 0x04 then None else Some token)
           else find_token rest))"
  by pat_completeness auto
termination
  by (relation "measure length") (auto dest: derTLV_shorter)

declare find_token.simps [simp del]

definition expect_tag :: "byte \<Rightarrow> bytes \<Rightarrow> (bytes \<times> bytes) option" where
  "expect_tag tag b =
     (case derTLV b of None \<Rightarrow> None | Some (t, c, rest) \<Rightarrow> if t \<noteq> tag then None else Some (c, rest))"

definition spnegoInnerToken :: "bytes \<Rightarrow> bytes option" where
  "spnegoInnerToken blob =
     (case derTLV blob of
        None \<Rightarrow> None
      | Some (tag, content, _) \<Rightarrow>
          if tag = 0x60 then do {
            (_, rest) \<leftarrow> expect_tag 0x06 content;
            (negTokenInit, _) \<leftarrow> expect_tag 0xa0 rest;
            (inner, _) \<leftarrow> expect_tag 0x30 negTokenInit;
            find_token inner
          }
          else if tag = 0xa1 then do {
            (inner, _) \<leftarrow> expect_tag 0x30 content;
            find_token inner
          }
          else None)"

text \<open>\<^verbatim>\<open>bytes.Index\<close>: the first position of the signature.\<close>

fun bytes_Index :: "bytes \<Rightarrow> bytes \<Rightarrow> nat option" where
  "bytes_Index [] sep = (if sep = [] then Some 0 else None)"
| "bytes_Index (b # bs) sep = (if prefix sep (b # bs) then Some 0 else map_option Suc (bytes_Index bs sep))"

definition UnwrapNTLM :: "bytes \<Rightarrow> smb_err + bytes" where
  "UnwrapNTLM blob =
     (let fallback = (case bytes_Index blob ntlmsspMagic of
                        None \<Rightarrow> Inl ErrNoNtlmssp
                      | Some idx \<Rightarrow> Inr (drop idx blob))
      in case spnegoInnerToken blob of
           Some tok \<Rightarrow> if prefix ntlmsspMagic tok then Inr tok else fallback
         | None \<Rightarrow> fallback)"

section \<open>Writing\<close>

definition wrapTLV :: "byte \<Rightarrow> bytes \<Rightarrow> bytes" where
  "wrapTLV tag content =
     (let n = length content in
      [tag] @
      (if n < 0x80 then [word_of_nat n]
       else if n < 0x100 then [0x81, word_of_nat n]
       else if n < 0x10000 then [0x82, word_of_nat (drop_bit 8 n), word_of_nat n]
       else [0x83, word_of_nat (drop_bit 16 n), word_of_nat (drop_bit 8 n), word_of_nat n]) @
      content)"

datatype SPNEGOState = SPNEGOAcceptCompleted | SPNEGOAcceptIncomplete

fun spnego_state :: "SPNEGOState \<Rightarrow> byte" where
  "spnego_state SPNEGOAcceptCompleted = 0x00"
| "spnego_state SPNEGOAcceptIncomplete = 0x01"

definition WrapNTLMResp :: "SPNEGOState \<Rightarrow> bytes \<Rightarrow> bytes" where
  "WrapNTLMResp state ntlm =
     (let includeSupportedMech = (state = SPNEGOAcceptIncomplete);
          negStateBytes = wrapTLV 0x0a [spnego_state state];
          seqContents = wrapTLV 0xa0 negStateBytes;
          seqContents = (if includeSupportedMech then seqContents @ wrapTLV 0xa1 ntlmsspOID else seqContents);
          seqContents = (if length ntlm > 0 then seqContents @ wrapTLV 0xa2 (wrapTLV 0x04 ntlm) else seqContents);
          seq = wrapTLV 0x30 seqContents
      in wrapTLV 0xa1 seq)"

section \<open>What is written is read back\<close>

lemma der_length_simps [simp]: "der_length [] = 0"
  by (simp add: der_length_def)

lemma unat_byte: "unat (word_of_nat n :: byte) = n mod 256"
  by (simp add: unat_of_nat take_bit_eq_mod)

lemma der_length_1: "n < 0x100 \<Longrightarrow> der_length [word_of_nat n] = n"
  by (simp add: der_length_def unat_byte)

lemma der_length_2: "n < 0x10000 \<Longrightarrow> der_length [word_of_nat (drop_bit 8 n), word_of_nat n] = n"
  by (simp add: der_length_def unat_byte drop_bit_eq_div)

lemma der_length_3:
  assumes "n < 0x1000000"
  shows "der_length [word_of_nat (drop_bit 16 n), word_of_nat (drop_bit 8 n), word_of_nat n] = n"
proof -
  have "n div 65536 = n div 256 div 256" by (simp flip: div_mult2_eq)
  moreover have "n div 256 div 256 mod 256 = n div 256 div 256" using assms by (simp flip: div_mult2_eq)
  ultimately show ?thesis
    by (simp add: der_length_def unat_byte drop_bit_eq_div)
qed

lemma short_length_byte:
  assumes "n < 0x80"
  shows "(word_of_nat n :: byte) AND 0x80 = 0" "unat (word_of_nat n :: byte) = n"
proof -
  show n: "unat (word_of_nat n :: byte) = n" using assms by (simp add: unat_byte)
  have "bit (word_of_nat n :: byte) 7 \<longleftrightarrow> bit (unat (word_of_nat n :: byte)) 7" by (simp add: bit_unsigned_iff)
  also have "\<dots> \<longleftrightarrow> False" using assms by (simp add: n bit_iff_odd)
  finally have "\<not> bit (word_of_nat n :: byte) 7" by simp
  then show "(word_of_nat n :: byte) AND 0x80 = 0"
    using and_exp_eq_0_iff_not_bit [of "word_of_nat n :: byte" 7] by simp
qed

lemma derTLV_long:
  assumes "t AND 0x1f \<noteq> 0x1f" "l AND 0x80 \<noteq> 0" "unat (l AND 0x7f) = length ls" "ls \<noteq> []" "length ls \<le> 3"
    "der_length ls = length c"
  shows "derTLV ([t, l] @ ls @ c @ rest) = Some (t, c, rest)"
  using assms by (simp add: derTLV_def Let_def)

definition der_ok :: "byte \<times> bytes \<Rightarrow> bool" where
  "der_ok e \<longleftrightarrow> fst e AND 0x1f \<noteq> 0x1f \<and> length (snd e) < 2 ^ 24"

lemma derTLV_wrapTLV:
  assumes tag: "t AND 0x1f \<noteq> 0x1f" and len: "length c < 2 ^ 24"
  shows "derTLV (wrapTLV t c @ rest) = Some (t, c, rest)"
proof -
  let ?n = "length c"
  consider "?n < 0x80" | "0x80 \<le> ?n" "?n < 0x100" | "0x100 \<le> ?n" "?n < 0x10000" | "0x10000 \<le> ?n" "?n < 0x1000000"
    using len by (simp add: not_less) linarith
  then show ?thesis
  proof cases
    case 1
    with tag short_length_byte [OF 1] show ?thesis by (simp add: derTLV_def wrapTLV_def Let_def)
  next
    case 2
    then show ?thesis
      using derTLV_long [OF tag, where l = "0x81" and ls = "[word_of_nat ?n]" and c = c and rest = rest] der_length_1 [of ?n] by (simp add: wrapTLV_def Let_def)
  next
    case 3
    then show ?thesis
      using derTLV_long [OF tag, where l = "0x82" and ls = "[word_of_nat (drop_bit 8 ?n), word_of_nat ?n]" and c = c and rest = rest] der_length_2 [of ?n]
      by (simp add: wrapTLV_def Let_def)
  next
    case 4
    then show ?thesis
      using derTLV_long [OF tag, where l = "0x83" and ls = "[word_of_nat (drop_bit 16 ?n), word_of_nat (drop_bit 8 ?n), word_of_nat ?n]" and c = c and rest = rest]
        der_length_3 [of ?n] by (simp add: wrapTLV_def Let_def)
  qed
qed

text \<open>A DER element, as the prefix code the sequences of a token are made of.\<close>

definition der_enc :: "byte \<times> bytes \<Rightarrow> bytes" where
  "der_enc e = wrapTLV (fst e) (snd e)"

definition der_dec :: "bytes \<Rightarrow> ((byte \<times> bytes) \<times> bytes) option" where
  "der_dec b = map_option (\<lambda>(t, c, rest). ((t, c), rest)) (derTLV b)"

interpretation der: prefix_codec der_enc der_dec der_ok
  by unfold_locales (auto simp: der_enc_def der_dec_def der_ok_def derTLV_wrapTLV)

lemma wrapTLV_nonempty [simp]: "wrapTLV t c \<noteq> []"
  by (simp add: wrapTLV_def Let_def)

lemma expect_tag_wrap:
  "t AND 0x1f \<noteq> 0x1f \<Longrightarrow> length c < 2 ^ 24 \<Longrightarrow> expect_tag t (wrapTLV t c @ rest) = Some (c, rest)"
  by (simp add: expect_tag_def derTLV_wrapTLV)

lemma find_token_skip:
  assumes "t AND 0x1f \<noteq> 0x1f" "length c < 2 ^ 24" "t \<noteq> 0xa2"
  shows "find_token (wrapTLV t c @ rest) = find_token rest"
  using assms by (simp add: find_token.simps [of "wrapTLV t c @ rest"] derTLV_wrapTLV)

lemma find_token_fields:
  "list_all (\<lambda>e. der_ok e \<and> fst e \<noteq> 0xa2) es \<Longrightarrow> find_token (concat (map der_enc es) @ rest) = find_token rest"
  by (induction es) (auto simp: der_ok_def der_enc_def find_token_skip)

lemma find_token_here:
  assumes "length token < 2 ^ 24" "length (wrapTLV 0x04 token @ junk) < 2 ^ 24"
  shows "find_token (wrapTLV 0xa2 (wrapTLV 0x04 token @ junk) @ rest) = Some token"
  using assms by (simp add: find_token.simps [of "wrapTLV 0xa2 (wrapTLV 0x04 token @ junk) @ rest"] derTLV_wrapTLV)

lemma length_wrapTLV: "length (wrapTLV t c) \<le> length c + 5"
  by (simp add: wrapTLV_def Let_def)

section \<open>The reader only cuts\<close>

lemma derTLV_split: "derTLV b = Some (t, c, rest) \<Longrightarrow> \<exists>h. b = h @ c @ rest"
proof -
  assume "derTLV b = Some (t, c, rest)"
  then obtain i where "c = take (length c) (drop i b)" "rest = drop (i + length c) b"
    by (auto simp: derTLV_def Let_def split: if_splits)
  then have "b = take i b @ c @ rest"
    by (metis append_take_drop_id add.commute drop_drop)
  then show ?thesis by blast
qed

lemma derTLV_sublist: "derTLV b = Some (t, c, rest) \<Longrightarrow> sublist c b \<and> sublist rest b"
  by (drule derTLV_split) (auto simp: sublist_append)

lemma expect_tag_sublist: "expect_tag t b = Some (c, rest) \<Longrightarrow> sublist c b \<and> sublist rest b"
  by (auto simp: expect_tag_def dest: derTLV_sublist split: option.splits if_splits)

lemma find_token_sublist: "find_token b = Some tok \<Longrightarrow> sublist tok b"
proof (induction b rule: find_token.induct)
  case (1 b)
  obtain t c rest where b: "derTLV b = Some (t, c, rest)" and "b \<noteq> []"
    using 1(2) by (auto simp: find_token.simps [of b] split: if_splits option.splits)
  show ?case
  proof (cases "t = 0xa2")
    case True
    then obtain it rest' where "derTLV c = Some (it, tok, rest')"
      using 1(2) b \<open>b \<noteq> []\<close> by (auto simp: find_token.simps [of b] split: option.splits if_splits)
    then show ?thesis using derTLV_sublist [OF b] by (meson derTLV_sublist sublist_order.order_trans)
  next
    case False
    then have "find_token rest = Some tok" using 1(2) b \<open>b \<noteq> []\<close> by (simp add: find_token.simps [of b])
    from 1(1) [OF \<open>b \<noteq> []\<close> b refl refl False this] show ?thesis
      using derTLV_sublist [OF b] by (meson sublist_order.order_trans)
  qed
qed

lemma spnegoInnerToken_sublist: "spnegoInnerToken b = Some tok \<Longrightarrow> sublist tok b"
proof -
  assume *: "spnegoInnerToken b = Some tok"
  then obtain inner where "sublist inner b" and "find_token inner = Some tok"
    by (auto simp: spnegoInnerToken_def bind_eq_Some_conv split: option.splits if_splits
        dest!: derTLV_sublist expect_tag_sublist) (meson sublist_order.order_trans)+
  then show ?thesis by (meson find_token_sublist sublist_order.order_trans)
qed

lemma bytes_Index_SomeD: "bytes_Index b sep = Some i \<Longrightarrow> prefix sep (drop i b)"
  by (induction b arbitrary: i) (auto split: if_splits)

lemma bytes_Index_None: "sep \<noteq> [] \<Longrightarrow> bytes_Index b sep = None \<longleftrightarrow> \<not> sublist sep b"
  by (induction b) (auto simp: sublist_Cons_right)

lemma UnwrapNTLM_token: "spnegoInnerToken blob = Some tok \<Longrightarrow> prefix ntlmsspMagic tok \<Longrightarrow> UnwrapNTLM blob = Inr tok"
  by (simp add: UnwrapNTLM_def Let_def)

text \<open>The two tokens a client sends, with any other fields before and after the NTLMSSP message.\<close>

definition neg_token_init :: "bytes \<Rightarrow> (byte \<times> bytes) list \<Rightarrow> bytes \<Rightarrow> bytes \<Rightarrow> bytes" where
  "neg_token_init oid before token after =
     wrapTLV 0x60 (wrapTLV 0x06 oid @
       wrapTLV 0xa0 (wrapTLV 0x30 (concat (map der_enc before) @ wrapTLV 0xa2 (wrapTLV 0x04 token) @ after)))"

definition neg_token_resp :: "(byte \<times> bytes) list \<Rightarrow> bytes \<Rightarrow> bytes \<Rightarrow> bytes" where
  "neg_token_resp before token after =
     wrapTLV 0xa1 (wrapTLV 0x30 (concat (map der_enc before) @ wrapTLV 0xa2 (wrapTLV 0x04 token) @ after))"

definition fields_fit :: "nat \<Rightarrow> (byte \<times> bytes) list \<Rightarrow> bytes \<Rightarrow> bytes \<Rightarrow> bytes \<Rightarrow> bool" where
  "fields_fit slack before token after oid \<longleftrightarrow>
     list_all (\<lambda>e. der_ok e \<and> fst e \<noteq> 0xa2) before \<and>
     length (concat (map der_enc before)) + length token + length after + length oid + slack < 2 ^ 24"

lemma wrapTLV_fits: "length c + 5 < n \<Longrightarrow> length (wrapTLV t c) < n"
  using length_wrapTLV [of t c] by simp

lemma length_wrapTLV_add: "length c + 5 + k \<le> n \<Longrightarrow> length (wrapTLV t c) + k \<le> n"
  using length_wrapTLV [of t c] by simp

lemma token_found:
  assumes "fields_fit 40 before token after oid"
  shows "find_token (concat (map der_enc before) @ wrapTLV 0xa2 (wrapTLV 0x04 token) @ after) = Some token"
proof -
  have "length token < 2 ^ 24" "length (wrapTLV 0x04 token) < 2 ^ 24"
    using assms wrapTLV_fits [of token "2 ^ 24" "0x04"] by (simp_all add: fields_fit_def)
  then show ?thesis
    using assms find_token_here [of token "[]" after] by (simp add: fields_fit_def find_token_fields)
qed

lemma token_length:
  assumes "fields_fit 40 before token after oid"
  shows "length (concat (map der_enc before) @ wrapTLV 0xa2 (wrapTLV 0x04 token) @ after) + length oid + 30 < 2 ^ 24"
  using assms length_wrapTLV [of "0xa2" "wrapTLV 0x04 token"] length_wrapTLV [of "0x04" token]
  by (simp add: fields_fit_def)

lemma neg_token_init_read:
  assumes "fields_fit 40 before token after oid"
  shows "spnegoInnerToken (neg_token_init oid before token after @ rest) = Some token"
proof -
  let ?inner = "concat (map der_enc before) @ wrapTLV 0xa2 (wrapTLV 0x04 token) @ after"
  let ?seq = "wrapTLV 0x30 ?inner" and ?oid = "wrapTLV 0x06 oid"
  have inner: "length ?inner + length oid + 30 < 2 ^ 24" by (rule token_length [OF assms])
  have seq: "length ?seq \<le> length ?inner + 5" by (rule length_wrapTLV)
  have a0: "length (wrapTLV 0xa0 ?seq) \<le> length ?seq + 5" by (rule length_wrapTLV)
  have whole: "length (?oid @ wrapTLV 0xa0 ?seq) < 2 ^ 24"
    using inner seq a0 length_wrapTLV [of "0x06" oid] by (simp only: length_append)
  have fits: "length oid < 2 ^ 24" "length ?seq < 2 ^ 24" "length ?inner < 2 ^ 24"
    using inner seq by linarith+
  have "derTLV (wrapTLV 0x60 (?oid @ wrapTLV 0xa0 ?seq) @ rest) = Some (0x60, ?oid @ wrapTLV 0xa0 ?seq, rest)"
    by (rule derTLV_wrapTLV [OF _ whole]) simp
  moreover have "expect_tag 0x06 (?oid @ wrapTLV 0xa0 ?seq) = Some (oid, wrapTLV 0xa0 ?seq)"
    by (rule expect_tag_wrap [OF _ fits(1)]) simp
  moreover have "expect_tag 0xa0 (wrapTLV 0xa0 ?seq) = Some (?seq, [])"
    using expect_tag_wrap [OF _ fits(2), of "0xa0" "[]"] by simp
  moreover have "expect_tag 0x30 ?seq = Some (?inner, [])"
    using expect_tag_wrap [OF _ fits(3), of "0x30" "[]"] by simp
  ultimately show ?thesis
    using token_found [OF assms] by (simp add: spnegoInnerToken_def neg_token_init_def)
qed

lemma neg_token_resp_read:
  assumes "fields_fit 40 before token after []"
  shows "spnegoInnerToken (neg_token_resp before token after @ rest) = Some token"
proof -
  let ?inner = "concat (map der_enc before) @ wrapTLV 0xa2 (wrapTLV 0x04 token) @ after"
  let ?seq = "wrapTLV 0x30 ?inner"
  have inner: "length ?inner + 30 < 2 ^ 24" using token_length [OF assms] by simp
  have seq: "length ?seq \<le> length ?inner + 5" by (rule length_wrapTLV)
  have fits: "length ?seq < 2 ^ 24" "length ?inner < 2 ^ 24" using inner seq by linarith+
  have "derTLV (wrapTLV 0xa1 ?seq @ rest) = Some (0xa1, ?seq, rest)"
    by (rule derTLV_wrapTLV [OF _ fits(1)]) simp
  moreover have "expect_tag 0x30 ?seq = Some (?inner, [])"
    using expect_tag_wrap [OF _ fits(2), of "0x30" "[]"] by simp
  ultimately show ?thesis
    using token_found [OF assms] by (simp add: spnegoInnerToken_def neg_token_resp_def)
qed

lemma WrapNTLMResp_is_resp:
  assumes "ntlm \<noteq> []"
  shows "WrapNTLMResp state ntlm =
    neg_token_resp ((0xa0, wrapTLV 0x0a [spnego_state state]) #
      (if state = SPNEGOAcceptIncomplete then [(0xa1, ntlmsspOID)] else [])) ntlm []"
  using assms by (simp add: WrapNTLMResp_def neg_token_resp_def der_enc_def Let_def)

text \<open>A client's NegTokenInit or NegTokenResp, whatever optional fields precede or follow the
  token and whatever follows the blob, yields exactly the NTLMSSP message it carries; so does a token
  the server itself wraps. For any input at all the result is either an error, and then the
  NTLMSSP signature occurs nowhere in it, or a contiguous part of it that starts with the signature.\<close>

theorem spnego_yields_the_ntlm_message:
  assumes magic: "prefix ntlmsspMagic token" and fit: "fields_fit 100 before token after oid"
  shows "UnwrapNTLM (neg_token_init oid before token after @ rest) = Inr token
    \<and> UnwrapNTLM (neg_token_resp before token after @ rest) = Inr token
    \<and> UnwrapNTLM (WrapNTLMResp state token) = Inr token
    \<and> (case UnwrapNTLM blob of Inl _ \<Rightarrow> \<not> sublist ntlmsspMagic blob
        | Inr m \<Rightarrow> sublist m blob \<and> prefix ntlmsspMagic m)"
proof (intro conjI)
  have "fields_fit 40 before token after oid" using fit by (simp add: fields_fit_def)
  from UnwrapNTLM_token [OF neg_token_init_read [OF this] magic]
  show "UnwrapNTLM (neg_token_init oid before token after @ rest) = Inr token" .
  have "fields_fit 40 before token after []" using fit by (simp add: fields_fit_def)
  from UnwrapNTLM_token [OF neg_token_resp_read [OF this] magic]
  show "UnwrapNTLM (neg_token_resp before token after @ rest) = Inr token" .
  let ?fs = "(0xa0, wrapTLV 0x0a [spnego_state state]) # (if state = SPNEGOAcceptIncomplete then [(0xa1, ntlmsspOID)] else [])"
  have "fields_fit 40 ?fs token [] []"
    using fit by (auto simp: fields_fit_def der_ok_def der_enc_def wrapTLV_def ntlmsspOID_def)
  moreover have "token \<noteq> []" using magic by (auto simp: ntlmsspMagic_def)
  ultimately show "UnwrapNTLM (WrapNTLMResp state token) = Inr token"
    using UnwrapNTLM_token [OF neg_token_resp_read [of ?fs token "[]" "[]"] magic] by (simp add: WrapNTLMResp_is_resp)
  show "case UnwrapNTLM blob of Inl _ \<Rightarrow> \<not> sublist ntlmsspMagic blob
        | Inr m \<Rightarrow> sublist m blob \<and> prefix ntlmsspMagic m"
    using bytes_Index_None [of ntlmsspMagic blob] spnegoInnerToken_sublist [of blob]
    by (auto simp: UnwrapNTLM_def Let_def ntlmsspMagic_def [THEN arg_cong, of "\<lambda>x. x = []"]
        dest: bytes_Index_SomeD split: option.splits)
qed

definition wtoken :: bytes where
  "wtoken = ntlmsspMagic @ [1, 0, 0, 0]"

end
