(* ===== verification/Negotiator.thy ===== *)
theory Negotiator
  imports Smb2_Negotiate Spnego Nbss Access_Mask File_Io
begin

text \<open>
  The first exchange on a connection (\<^verbatim>\<open>parent/negotiator.go\<close>): read NEGOTIATE, after the SMB1
  upgrade if the client starts with one, choose the algorithms and answer. What the client may
  later ask the server to confirm is recorded on the way; \<^verbatim>\<open>FSCTL_VALIDATE_NEGOTIATE_INFO\<close> (in
  \<open>File_Io\<close>) echoes it. Input and output are byte streams; random bytes, the clock and SHA-512 are
  arguments.
\<close>

record Connection =
  nc_ClientGuid :: bytes
  nc_ServerGuid :: bytes
  nc_Selection :: Selection
  nc_Preauth :: bytes
  nc_NegotiateRequestMsg :: bytes
  nc_NegotiateResponseMsg :: bytes
  nc_MaxIOSize :: u32
  nc_NegotiatedCapabilities :: u32
  nc_NegotiatedSecurityMode :: u16

record NegotiatorOptions =
  ng_RequireEncryption :: bool
  ng_RequireSigning :: bool
  ng_MaxIOSize :: u32
  ng_ServerStartTime :: u64

text \<open>The environment of one negotiation: three draws from \<^verbatim>\<open>crypto/rand\<close> (\<open>None\<close> when it fails),
  the clock at the two responses (seconds since 1970 and nanoseconds) and SHA-512.\<close>

record negotiation_env =
  ev_upgradeGuid :: "bytes option"
  ev_serverGuid :: "bytes option"
  ev_salt :: "bytes option"
  ev_upgradeTime :: "int \<times> nat"
  ev_time :: "int \<times> nat"
  ev_sha512 :: "bytes \<Rightarrow> bytes"

datatype negotiate_err =
    ReadNegotiate nbss_err
  | UpgradeFailed
  | NegotiateTooShort nat
  | BadHeader smb_err
  | NotNegotiate u16
  | BadNegotiateBody smb_err
  | SelectFailed select_err
  | RandFailed
  | EncodeFailed smb_err
  | WriteNegotiate nbss_err

definition filetimeNow :: "int \<times> nat \<Rightarrow> u64" where
  "filetimeNow now =
     (let secs = word_of_int (fst now + 11644473600) :: u64
      in secs * 10000000 + word_of_nat (snd now) div 100)"

definition upgrade_body :: "bytes \<Rightarrow> u64 \<Rightarrow> bytes" where
  "upgrade_body guid t =
     [65, 0, 1, 0, 0xFF, 0x02, 0, 0] @ guid @ zeros 4 @
     [0, 0, 0x10, 0] @ [0, 0, 0x10, 0] @ [0, 0, 0x10, 0] @ le64 t @ zeros 16"

definition negotiate_header :: "u16 \<Rightarrow> u64 \<Rightarrow> header" where
  "negotiate_header credits messageID =
     \<lparr>h_CreditCharge = 1, h_Status = 0, h_Command = CommandNegotiate, h_CreditResponse = credits,
      h_Flags = FlagServerToRedir, h_NextCommand = 0, h_MessageID = messageID, h_TreeID = 0,
      h_SessionID = 0, h_Signature = zeros 16\<rparr>"

definition full_message :: "header \<Rightarrow> bytes \<Rightarrow> (smb_err, bytes) decoded" where
  "full_message hdr body =
     ok_then (EncodeHeader (zeros HeaderSize) hdr) (\<lambda>h. Some (Inr (h @ body)))"

definition writeMultiProtocolUpgradeResponse :: "negotiation_env \<Rightarrow> bytes \<Rightarrow> bytes option" where
  "writeMultiProtocolUpgradeResponse ev out =
     (case ev_upgradeGuid ev of
        None \<Rightarrow> None
      | Some guid \<Rightarrow>
          (case full_message (negotiate_header (grantCredits 1 1) 0)
                  (upgrade_body guid (filetimeNow (ev_upgradeTime ev))) of
             Some (Inr full) \<Rightarrow> (case WriteFrame out full of Inl _ \<Rightarrow> None | Inr out' \<Rightarrow> Some out')
           | _ \<Rightarrow> None))"

definition is_smb1 :: "bytes \<Rightarrow> bool" where
  "is_smb1 frame \<longleftrightarrow>
     length frame \<ge> 4 \<and> frame ! 0 = 0xFF \<and> frame ! 1 = 0x53 \<and> frame ! 2 = 0x4D \<and> frame ! 3 = 0x42"

definition negotiated_response ::
  "NegotiatorOptions \<Rightarrow> negotiation_env \<Rightarrow> negotiate_request \<Rightarrow> Connection \<Rightarrow> bytes \<Rightarrow> negotiate_response" where
  "negotiated_response opts ev req conn salt =
     (let sel = nc_Selection conn; is311 = (sel_Dialect sel = Dialect311) in
      \<lparr>np_SecurityMode = nc_NegotiatedSecurityMode conn, np_Dialect = sel_Dialect sel,
       np_ServerGuid = nc_ServerGuid conn, np_Capabilities = nc_NegotiatedCapabilities conn,
       np_MaxTransactSize = nc_MaxIOSize conn, np_MaxReadSize = nc_MaxIOSize conn, np_MaxWriteSize = nc_MaxIOSize conn,
       np_SystemTime = filetimeNow (ev_time ev), np_ServerStartTime = ng_ServerStartTime opts,
       np_SecurityBuffer = NegotiateSecurityBlob,
       np_PreauthIntegrity =
         (if is311 then Some \<lparr>pi_HashAlgorithms = [sel_Hash sel], pi_Salt = salt\<rparr> else None),
       np_Encryption = (if is311 \<and> sel_Cipher sel \<noteq> 0 then Some [sel_Cipher sel] else None),
       np_SigningCaps = (if is311 \<and> nq_SigningCaps req \<noteq> None then Some [sel_SigningAlgo sel] else None)\<rparr>)"

definition new_connection ::
  "NegotiatorOptions \<Rightarrow> (bytes \<Rightarrow> bytes) \<Rightarrow> bytes \<Rightarrow> negotiate_request \<Rightarrow> Selection \<Rightarrow> bytes \<Rightarrow> Connection" where
  "new_connection opts sha512 frame req sel guid =
     (let maxIO = (if ng_MaxIOSize opts = 0 then 8388608 else ng_MaxIOSize opts);
          secMode = (if ng_RequireSigning opts then NegotiateSigningEnabled OR NegotiateSigningRequired
                     else NegotiateSigningEnabled);
          caps = (if sel_Cipher sel \<noteq> 0 \<and> sel_Dialect sel \<ge> Dialect300 then CapLargeMTU OR CapEncryption
                  else CapLargeMTU)
      in \<lparr>nc_ClientGuid = nq_ClientGuid req, nc_ServerGuid = guid, nc_Selection = sel,
          nc_Preauth = (if sel_Dialect sel = Dialect311 then Update sha512 NewPreauthHash frame else NewPreauthHash),
          nc_NegotiateRequestMsg = frame, nc_NegotiateResponseMsg = [], nc_MaxIOSize = maxIO,
          nc_NegotiatedCapabilities = caps, nc_NegotiatedSecurityMode = secMode\<rparr>)"

text \<open>The result of \<open>Negotiate\<close>: the connection or an error, and the output stream so far.\<close>

type_synonym negotiation = "(negotiate_err + Connection) \<times> bytes"

definition answer_negotiate ::
  "NegotiatorOptions \<Rightarrow> negotiation_env \<Rightarrow> bytes \<Rightarrow> header \<Rightarrow> negotiate_request \<Rightarrow> Selection \<Rightarrow> bytes \<Rightarrow> negotiation option" where
  "answer_negotiate opts ev frame hdr req sel out =
     (case (ev_serverGuid ev, ev_salt ev) of
        (Some guid, Some salt) \<Rightarrow>
          (let conn = new_connection opts (ev_sha512 ev) frame req sel guid in
           case EncodeNegotiateResponse (negotiated_response opts ev req conn salt) of
             None \<Rightarrow> None
           | Some (Inl e) \<Rightarrow> Some (Inl (EncodeFailed e), out)
           | Some (Inr body) \<Rightarrow>
               (case full_message (negotiate_header (grantCredits (h_CreditCharge hdr) (h_CreditResponse hdr)) (h_MessageID hdr)) body of
                  None \<Rightarrow> None
                | Some (Inl e) \<Rightarrow> Some (Inl (EncodeFailed e), out)
                | Some (Inr full) \<Rightarrow>
                    (let conn = conn\<lparr>nc_NegotiateResponseMsg := full,
                          nc_Preauth := (if sel_Dialect sel = Dialect311 then Update (ev_sha512 ev) (nc_Preauth conn) full
                                         else nc_Preauth conn)\<rparr>
                     in case WriteFrame out full of
                          Inl e \<Rightarrow> Some (Inl (WriteNegotiate e), out)
                        | Inr out' \<Rightarrow> Some (Inr conn, out'))))
      | _ \<Rightarrow> Some (Inl RandFailed, out))"

definition negotiate_frame :: "NegotiatorOptions \<Rightarrow> negotiation_env \<Rightarrow> bytes \<Rightarrow> bytes \<Rightarrow> negotiation option" where
  "negotiate_frame opts ev frame out =
     (if length frame < HeaderSize then Some (Inl (NegotiateTooShort (length frame)), out)
      else (case DecodeHeader (take HeaderSize frame) of
         None \<Rightarrow> None
       | Some (Inl e) \<Rightarrow> Some (Inl (BadHeader e), out)
       | Some (Inr hdr) \<Rightarrow>
           if h_Command hdr \<noteq> CommandNegotiate then Some (Inl (NotNegotiate (h_Command hdr)), out)
           else (case DecodeNegotiateRequest (drop HeaderSize frame) of
              None \<Rightarrow> None
            | Some (Inl e) \<Rightarrow> Some (Inl (BadNegotiateBody e), out)
            | Some (Inr req) \<Rightarrow>
                (case Select req (ng_RequireEncryption opts) of
                   Inl e \<Rightarrow> Some (Inl (SelectFailed e), out)
                 | Inr sel \<Rightarrow> answer_negotiate opts ev frame hdr req sel out))))"

definition Negotiate :: "NegotiatorOptions \<Rightarrow> negotiation_env \<Rightarrow> bytes \<Rightarrow> bytes \<Rightarrow> (negotiation \<times> bytes) option" where
  "Negotiate opts ev rd out =
     (case ReadFrame rd MaxFrameSize of
        Inl e \<Rightarrow> Some ((Inl (ReadNegotiate e), out), rd)
      | Inr (frame, rd') \<Rightarrow>
          if is_smb1 frame then
            (case writeMultiProtocolUpgradeResponse ev out of
               None \<Rightarrow> Some ((Inl UpgradeFailed, out), rd')
             | Some out' \<Rightarrow>
                 (case ReadFrame rd' MaxFrameSize of
                    Inl e \<Rightarrow> Some ((Inl (ReadNegotiate e), out'), rd')
                  | Inr (frame', rd'') \<Rightarrow> map_option (\<lambda>n. (n, rd'')) (negotiate_frame opts ev frame' out')))
          else map_option (\<lambda>n. (n, rd')) (negotiate_frame opts ev frame out))"

text \<open>The part of a dispatcher that \<^verbatim>\<open>ServeConn\<close> takes from the negotiated connection: its code reads
  these values through \<^verbatim>\<open>Dispatcher.Conn\<close>.\<close>

definition negotiated_dispatcher :: "Connection \<Rightarrow> dispatcher \<Rightarrow> dispatcher" where
  "negotiated_dispatcher conn d =
     d\<lparr>d_SigningAlgo := sel_SigningAlgo (nc_Selection conn), d_Cipher := sel_Cipher (nc_Selection conn),
       d_MaxIOSize := nc_MaxIOSize conn, d_Dialect := sel_Dialect (nc_Selection conn),
       d_ServerGuid := nc_ServerGuid conn, d_NegotiatedCapabilities := nc_NegotiatedCapabilities conn,
       d_NegotiatedSecurityMode := nc_NegotiatedSecurityMode conn\<rparr>"

section \<open>The bytes of the response\<close>

definition fixed_fields :: "negotiate_response \<Rightarrow> nat \<Rightarrow> bytes" where
  "fixed_fields r ctxCount =
     patch 58 (le16 (word_of_nat (length (np_SecurityBuffer r)))) (patch 56 (le16 128)
     (patch 48 (le64 (np_ServerStartTime r)) (patch 40 (le64 (np_SystemTime r))
     (patch 36 (le32 (np_MaxWriteSize r)) (patch 32 (le32 (np_MaxReadSize r)) (patch 28 (le32 (np_MaxTransactSize r))
     (patch 24 (le32 (np_Capabilities r)) (patch 8 (np_ServerGuid r) (patch 6 (le16 (word_of_nat ctxCount))
     (patch 4 (le16 (np_Dialect r)) (patch 2 (le16 (np_SecurityMode r)) (patch 0 [65, 0] (zeros 64)))))))))))))"

lemma length_fixed_fields [simp]: "length (fixed_fields r n) = 64"
  by (simp add: fixed_fields_def)

lemma negotiate_fixed_part_eq:
  "length (np_ServerGuid r) = 16 \<Longrightarrow> negotiate_fixed_part r n = Some (fixed_fields r n)"
  by (simp add: negotiate_fixed_part_def go_panic fixed_fields_def)

text \<open>Where a client looks: the fields of a response that every dialect has.\<close>

definition announces :: "bytes \<Rightarrow> negotiate_response \<Rightarrow> bool" where
  "announces body r \<longleftrightarrow>
     u16_at body 0 = Some 65 \<and> u16_at body 2 = Some (np_SecurityMode r) \<and> u16_at body 4 = Some (np_Dialect r) \<and>
     take 16 (drop 8 body) = np_ServerGuid r \<and> u32_at body 24 = Some (np_Capabilities r) \<and>
     u32_at body 28 = Some (np_MaxTransactSize r) \<and> u32_at body 32 = Some (np_MaxReadSize r) \<and>
     u32_at body 36 = Some (np_MaxWriteSize r) \<and> u64_at body 40 = Some (np_SystemTime r) \<and>
     body_slice body 128 (length (np_SecurityBuffer r)) = Some (Inr (np_SecurityBuffer r))"

lemma fixed_fields_read:
  assumes "length (np_ServerGuid r) = 16" and "P = fixed_fields r n \<or> P = patch 60 x (fixed_fields r n)" and "length x = 4"
  shows "length P = 64" "take 2 P = [65, 0]" "take 2 (drop 2 P) = le16 (np_SecurityMode r)" "take 2 (drop 4 P) = le16 (np_Dialect r)"
    "take 2 (drop 6 P) = le16 (word_of_nat n)"
    "take 16 (drop 8 P) = np_ServerGuid r" "take 4 (drop 24 P) = le32 (np_Capabilities r)"
    "take 4 (drop 28 P) = le32 (np_MaxTransactSize r)" "take 4 (drop 32 P) = le32 (np_MaxReadSize r)"
    "take 4 (drop 36 P) = le32 (np_MaxWriteSize r)" "take 8 (drop 40 P) = le64 (np_SystemTime r)"
proof -
  have "take 2 (patch 0 [65, 0] (zeros 64)) = ([65, 0] :: bytes)"
    using patch_same [of 0 "[65, 0]" "zeros 64" 2] by simp
  then show "take 2 P = [65, 0]" using assms by (auto simp: fixed_fields_def take_drop_0_patch)
qed (use assms in \<open>auto simp: fixed_fields_def byte_layout\<close>)

lemma announcesI:
  assumes "length (np_ServerGuid r) = 16" "P = fixed_fields r n \<or> P = patch 60 x (fixed_fields r n)" "length x = 4"
  shows "announces (P @ np_SecurityBuffer r @ rest) r"
proof -
  note fields = fixed_fields_read [OF assms]
  have "le_word ([65, 0] :: bytes) = (65 :: u16)" by simp
  with fields show ?thesis by (simp add: announces_def go_panic body_slice_Inr)
qed

text \<open>The negotiate contexts of a response, read with the walk of the request decoder.\<close>

definition no_contexts :: negotiate_request where
  "no_contexts = \<lparr>nq_SecurityMode = 0, nq_Capabilities = 0, nq_ClientGuid = [], nq_Dialects = [],
     nq_PreauthIntegrity = \<lparr>pi_HashAlgorithms = [], pi_Salt = []\<rparr>, nq_Encryption = None, nq_SigningCaps = None\<rparr>"

definition response_contexts :: "bytes \<Rightarrow> (smb_err, negotiate_request) decoded" where
  "response_contexts body = do {
     off \<leftarrow> u32_at body 60;
     count \<leftarrow> u16_at body 6;
     decode_contexts body (unat off - 64) (unat count) no_contexts
   }"

lemma EncodeNegotiateResponse_plain:
  assumes "np_Dialect r \<noteq> Dialect311" "length (np_ServerGuid r) = 16"
  shows "EncodeNegotiateResponse r = Some (Inr (fixed_fields r 0 @ np_SecurityBuffer r))"
  using assms by (simp add: EncodeNegotiateResponse_def Let_def negotiate_fixed_part_eq)

definition context_tail :: "preauth_integrity \<Rightarrow> u16 list option \<Rightarrow> u16 list option \<Rightarrow> bytes" where
  "context_tail p e s =
     context_wire 1 (encodePreauth p) @ zeros 2 @
     (case e of None \<Rightarrow> [] | Some cs \<Rightarrow> context_wire 2 (encodeEncryption cs) @ zeros 4) @
     (case s of None \<Rightarrow> [] | Some as \<Rightarrow> context_wire 8 (encodeSigningCaps as))"

definition context_count :: "negotiate_response \<Rightarrow> nat" where
  "context_count r = 1 + of_bool (np_Encryption r \<noteq> None) + of_bool (np_SigningCaps r \<noteq> None)"

lemma appendCtx_eq:
  "appendCtx body t data padAfter =
    (if padAfter then body @ context_wire t data @ zeros ((8 - (length body + 8 + length data) mod 8) mod 8)
     else body @ context_wire t data)"
  by (simp add: appendCtx_def context_wire_def pad8_def Let_def ac_simps)

lemma EncodeNegotiateResponse_311:
  assumes "np_Dialect r = Dialect311" "length (np_ServerGuid r) = 16" "length (np_SecurityBuffer r) = 30"
    "np_PreauthIntegrity r = Some p" "length (pi_HashAlgorithms p) = 1" "length (pi_Salt p) = 32"
    "\<forall>e. np_Encryption r = Some e \<longrightarrow> length e = 1"
  shows "EncodeNegotiateResponse r =
    Some (Inr (patch 60 (le32 160) (fixed_fields r (context_count r)) @ np_SecurityBuffer r @ zeros 2 @
      context_tail p (np_Encryption r) (np_SigningCaps r)))"
proof -
  have pre: "length (encodePreauth p) = 38" using assms by (simp add: encodePreauth_def)
  have enc: "length (encodeEncryption e) = 4" if "np_Encryption r = Some e" for e
    using assms that by (simp add: encodeEncryption_def encode_id_list_def)
  have pad: "pad8 (fixed_fields r (context_count r) @ np_SecurityBuffer r) =
      fixed_fields r (context_count r) @ np_SecurityBuffer r @ zeros 2"
    using assms by (simp add: pad8_def)
  let ?b0 = "patch 60 (le32 160) (fixed_fields r (context_count r) @ np_SecurityBuffer r @ zeros 2)"
  have b0: "?b0 = patch 60 (le32 160) (fixed_fields r (context_count r)) @ np_SecurityBuffer r @ zeros 2"
    by (rule patch_append_left) simp
  have "EncodeNegotiateResponse r =
    (let body = appendCtx ?b0 1 (encodePreauth p) True;
         body = (case np_Encryption r of None \<Rightarrow> body | Some e \<Rightarrow> appendCtx body 2 (encodeEncryption e) True)
     in Some (Inr (case np_SigningCaps r of None \<Rightarrow> body | Some s \<Rightarrow> appendCtx body 8 (encodeSigningCaps s) False)))"
    using assms(1-4) pad
    by (simp add: EncodeNegotiateResponse_def Let_def negotiate_fixed_part_eq context_count_def put_at_def of_bool_def
        split: if_splits)
  then show ?thesis
    using assms(3) pre enc unfolding b0
    by (simp add: appendCtx_eq context_tail_def Let_def context_wire_def split: option.splits)
qed

lemma align8_simps [simp]: "align8 142 = 144" "align8 156 = 160"
  by (simp_all add: align8_def)

lemma take_context_ids:
  "length ws < 2 ^ 16 \<Longrightarrow> take_context 2 (encodeEncryption ws) req = Some (Inr (req\<lparr>nq_Encryption := Some ws\<rparr>))"
  "length ws < 2 ^ 16 \<Longrightarrow> take_context 8 (encodeSigningCaps ws) req = Some (Inr (req\<lparr>nq_SigningCaps := Some ws\<rparr>))"
  by (simp_all add: take_context_def encodeEncryption_def decodeEncryption_def encodeSigningCaps_def decodeSigningCaps_def
      decode_id_list_wire ok_then_def)

lemma take_context_preauth:
  "length (pi_HashAlgorithms p) < 2 ^ 16 \<Longrightarrow> length (pi_Salt p) < 2 ^ 16 \<Longrightarrow>
    take_context 1 (encodePreauth p) req = Some (Inr (req\<lparr>nq_PreauthIntegrity := p\<rparr>))"
  by (simp add: take_context_def decodePreauth_wire ok_then_def)

lemma decode_signing_context:
  assumes "length pre = off" "length s = 1"
  shows "decode_contexts (pre @ context_wire 8 (encodeSigningCaps s)) off 1 req =
    Some (Inr (req\<lparr>nq_SigningCaps := Some s\<rparr>))"
  using decode_contexts_wire [of pre off "encodeSigningCaps s" 8 "[]" 0 req] assms take_context_ids(2) [of s req]
  by (simp add: encodeSigningCaps_def encode_id_list_def ok_then_def)

lemma decode_tail:
  assumes pre: "length pre = 96" and p: "length (pi_HashAlgorithms p) = 1" "length (pi_Salt p) = 32"
    and e: "\<forall>cs. e = Some cs \<longrightarrow> length cs = 1" and s: "\<forall>as. s = Some as \<longrightarrow> length as = 1"
  shows "decode_contexts (pre @ context_tail p e s) 96 (1 + of_bool (e \<noteq> None) + of_bool (s \<noteq> None)) req =
    Some (Inr (req\<lparr>nq_PreauthIntegrity := p,
      nq_Encryption := (case e of None \<Rightarrow> nq_Encryption req | Some cs \<Rightarrow> Some cs),
      nq_SigningCaps := (case s of None \<Rightarrow> nq_SigningCaps req | Some as \<Rightarrow> Some as)\<rparr>))"
proof -
  define t where "t = (case e of None \<Rightarrow> [] | Some cs \<Rightarrow> context_wire 2 (encodeEncryption cs) @ zeros 4) @
     (case s of None \<Rightarrow> [] | Some as \<Rightarrow> context_wire 8 (encodeSigningCaps as))"
  define c1 where "c1 = context_wire 1 (encodePreauth p) @ zeros 2"
  define req1 where "req1 = req\<lparr>nq_PreauthIntegrity := p\<rparr>"
  have l1: "length (encodePreauth p) = 38" "length c1 = 48"
    using p by (simp_all add: encodePreauth_def c1_def context_wire_def)
  have tail: "pre @ context_tail p e s = pre @ c1 @ t" by (simp add: context_tail_def t_def c1_def)
  have first: "decode_contexts (pre @ c1 @ t) 96 (Suc n) req = decode_contexts (pre @ c1 @ t) 144 n req1" for n
    using decode_contexts_wire [OF pre, of "encodePreauth p" 1 "zeros 2 @ t" n req] l1(1) p
    by (simp add: c1_def take_context_preauth ok_then_def req1_def)
  have signing: "decode_contexts (q @ (case s of None \<Rightarrow> [] | Some as \<Rightarrow> context_wire 8 (encodeSigningCaps as)))
      (length q) (of_bool (s \<noteq> None)) r =
      Some (Inr (r\<lparr>nq_SigningCaps := (case s of None \<Rightarrow> nq_SigningCaps r | Some as \<Rightarrow> Some as)\<rparr>))" for q r
    using s decode_signing_context [of q "length q"] by (cases s) simp_all
  have "decode_contexts (pre @ c1 @ t) 96 (1 + of_bool (e \<noteq> None) + of_bool (s \<noteq> None)) req =
    Some (Inr (req\<lparr>nq_PreauthIntegrity := p,
      nq_Encryption := (case e of None \<Rightarrow> nq_Encryption req | Some cs \<Rightarrow> Some cs),
      nq_SigningCaps := (case s of None \<Rightarrow> nq_SigningCaps req | Some as \<Rightarrow> Some as)\<rparr>))"
  proof (cases e)
    case None
    with signing [of "pre @ c1" req1] pre l1(2)
    show ?thesis
      using first [of "of_bool (s \<noteq> None)"]
      by (simp add: t_def req1_def del: decode_contexts.simps(2) cong: option.case_cong)
  next
    case (Some cs)
    have le: "length (encodeEncryption cs) = 4" using e Some by (simp add: encodeEncryption_def encode_id_list_def)
    define c2 where "c2 = context_wire 2 (encodeEncryption cs) @ zeros 4"
    have l2: "length c2 = 16" using le by (simp add: c2_def context_wire_def)
    let ?sg = "case s of None \<Rightarrow> [] | Some as \<Rightarrow> context_wire 8 (encodeSigningCaps as)"
    have "decode_contexts (pre @ c1 @ t) 144 (Suc n) req1 =
        decode_contexts ((pre @ c1 @ c2) @ ?sg) 160 n (req1\<lparr>nq_Encryption := Some cs\<rparr>)" for n
      using decode_contexts_wire [of "pre @ c1" 144 "encodeEncryption cs" 2 "zeros 4 @ ?sg" n req1] pre l1(2) le e Some
      by (simp add: t_def c2_def take_context_ids ok_then_def)
    with signing [of "pre @ c1 @ c2" "req1\<lparr>nq_Encryption := Some cs\<rparr>"] pre l1(2) l2 Some
    show ?thesis
      using first [of "Suc (of_bool (s \<noteq> None))"]
      by (simp add: req1_def del: decode_contexts.simps(2) cong: option.case_cong)
  qed
  with tail show ?thesis by simp
qed

section \<open>What the client learns is what the server uses\<close>

text \<open>A client that reads the body of the response, its negotiate contexts with the walk of
  \<^verbatim>\<open>negotiate.go\<close>, finds the values the connection holds.\<close>

definition announced :: "negotiate_request \<Rightarrow> Connection \<Rightarrow> bytes \<Rightarrow> bool" where
  "announced req conn body \<longleftrightarrow>
     (let sel = nc_Selection conn in
      u16_at body 4 = Some (sel_Dialect sel) \<and> u16_at body 2 = Some (nc_NegotiatedSecurityMode conn) \<and>
      take 16 (drop 8 body) = nc_ServerGuid conn \<and> u32_at body 24 = Some (nc_NegotiatedCapabilities conn) \<and>
      u32_at body 28 = Some (nc_MaxIOSize conn) \<and> u32_at body 32 = Some (nc_MaxIOSize conn) \<and>
      u32_at body 36 = Some (nc_MaxIOSize conn) \<and>
      (sel_Dialect sel = Dialect311 \<longrightarrow>
         (\<exists>ctxs salt. response_contexts body = Some (Inr ctxs) \<and>
            nq_PreauthIntegrity ctxs = \<lparr>pi_HashAlgorithms = [sel_Hash sel], pi_Salt = salt\<rparr> \<and>
            nq_Encryption ctxs = (if sel_Cipher sel = 0 then None else Some [sel_Cipher sel]) \<and>
            nq_SigningCaps ctxs = (if nq_SigningCaps req = None then None else Some [sel_SigningAlgo sel]))))"

lemma announced_response:
  assumes "EncodeNegotiateResponse (negotiated_response opts ev req conn salt) = Some (Inr body)"
    "length (nc_ServerGuid conn) = 16" "length salt = 32"
  shows "announced req conn body"
proof -
  let ?r = "negotiated_response opts ev req conn salt" and ?sel = "nc_Selection conn"
  have guid: "length (np_ServerGuid ?r) = 16" using assms(2) by (simp add: negotiated_response_def Let_def)
  have blob: "length (np_SecurityBuffer ?r) = 30" by (simp add: negotiated_response_def Let_def NegotiateSecurityBlob_def)
  have fields: "announced req conn body" if "announces body ?r" "sel_Dialect ?sel \<noteq> Dialect311"
    using that by (simp add: announced_def announces_def negotiated_response_def Let_def)
  show ?thesis
  proof (cases "sel_Dialect ?sel = Dialect311")
    case False
    then have "np_Dialect ?r \<noteq> Dialect311" by (simp add: negotiated_response_def Let_def)
    from EncodeNegotiateResponse_plain [OF this guid] assms(1)
    have "body = fixed_fields ?r 0 @ np_SecurityBuffer ?r" by simp
    then have "announces body ?r" using announcesI [OF guid, of "fixed_fields ?r 0" 0 "zeros 4" "[]"] by simp
    with False show ?thesis by (intro fields)
  next
    case True
    let ?p = "\<lparr>pi_HashAlgorithms = [sel_Hash ?sel], pi_Salt = salt\<rparr>"
    let ?P = "patch 60 (le32 160) (fixed_fields ?r (context_count ?r))"
    let ?t = "context_tail ?p (np_Encryption ?r) (np_SigningCaps ?r)"
    have np: "np_Dialect ?r = Dialect311" "np_PreauthIntegrity ?r = Some ?p"
      "np_Encryption ?r = (if sel_Cipher ?sel = 0 then None else Some [sel_Cipher ?sel])"
      "np_SigningCaps ?r = (if nq_SigningCaps req = None then None else Some [sel_SigningAlgo ?sel])"
      using True by (simp_all add: negotiated_response_def Let_def)
    from EncodeNegotiateResponse_311 [OF np(1) guid blob np(2)] assms np(3)
    have body: "body = ?P @ np_SecurityBuffer ?r @ zeros 2 @ ?t" by simp
    have ann: "announces body ?r"
      unfolding body by (rule announcesI [OF guid, of _ "context_count ?r" "le32 160"]) simp_all
    note rd = fixed_fields_read [OF guid, of ?P "context_count ?r" "le32 160", simplified]
    have "u32_at body 60 = Some 160" "u16_at body 6 = Some (word_of_nat (context_count ?r))"
      using rd(1,5) by (simp_all add: body go_panic byte_layout drop_patch_same del: le_bytes.simps)
    moreover have "unat (word_of_nat (context_count ?r) :: u16) = context_count ?r"
      by (rule unat_count) (simp add: context_count_def of_bool_def)
    ultimately have "response_contexts body = decode_contexts body 96 (context_count ?r) no_contexts"
      by (simp add: response_contexts_def)
    moreover have "decode_contexts ((?P @ np_SecurityBuffer ?r @ zeros 2) @ ?t) 96 (context_count ?r) no_contexts =
      Some (Inr (no_contexts\<lparr>nq_PreauthIntegrity := ?p, nq_Encryption := np_Encryption ?r, nq_SigningCaps := np_SigningCaps ?r\<rparr>))"
      unfolding context_count_def
      using decode_tail [of "?P @ np_SecurityBuffer ?r @ zeros 2" ?p "np_Encryption ?r" "np_SigningCaps ?r" no_contexts]
        blob assms(3) np(3,4) by (auto simp: no_contexts_def context_count_def split: option.splits if_splits)
    ultimately have "response_contexts body =
      Some (Inr (no_contexts\<lparr>nq_PreauthIntegrity := ?p, nq_Encryption := np_Encryption ?r, nq_SigningCaps := np_SigningCaps ?r\<rparr>))"
      by (simp add: body)
    with ann np show ?thesis
      by (simp add: announced_def announces_def) (simp add: negotiated_response_def Let_def)
  qed
qed

lemma full_message_decodes:
  assumes "full_message (negotiate_header credits mid) body = Some (Inr full)"
  shows "drop 64 full = body" "DecodeHeader (take 64 full) = Some (Inr (negotiate_header credits mid))"
proof -
  have wf: "wf_header (negotiate_header credits mid)" by (simp add: wf_header_def negotiate_header_def)
  obtain h where "EncodeHeader (zeros 64) (negotiate_header credits mid) = Some (Inr h)"
    "DecodeHeader h = Some (Inr (negotiate_header credits mid))" "length h = 64"
    using EncodeHeader_roundtrip [OF _ wf, of "zeros 64"] by auto
  with assms show "drop 64 full = body" "DecodeHeader (take 64 full) = Some (Inr (negotiate_header credits mid))"
    by (auto simp: full_message_def ok_then_def)
qed

text \<open>One negotiation, from the request it decoded to the response it framed.\<close>

definition agreed :: "NegotiatorOptions \<Rightarrow> negotiation_env \<Rightarrow> Connection \<Rightarrow> bytes \<Rightarrow> bool" where
  "agreed opts ev conn sent \<longleftrightarrow>
     (let reqMsg = nc_NegotiateRequestMsg conn; respMsg = nc_NegotiateResponseMsg conn; sel = nc_Selection conn in
      sent = frame_header (length respMsg) @ respMsg \<and> length (nc_ServerGuid conn) = 16 \<and>
      (\<exists>hdr req. DecodeHeader (take 64 reqMsg) = Some (Inr hdr) \<and> h_Command hdr = CommandNegotiate \<and>
         DecodeNegotiateRequest (drop 64 reqMsg) = Some (Inr req) \<and>
         Select req (ng_RequireEncryption opts) = Inr sel \<and>
         DecodeHeader (take 64 respMsg) = Some (Inr (negotiate_header (grantCredits (h_CreditCharge hdr) (h_CreditResponse hdr)) (h_MessageID hdr))) \<and>
         announced req conn (drop 64 respMsg)) \<and>
      nc_Preauth conn =
        (if sel_Dialect sel = Dialect311 then Update (ev_sha512 ev) (Update (ev_sha512 ev) (zeros 64) reqMsg) respMsg
         else zeros 64))"

lemma WriteFrame_Inr: "WriteFrame out p = Inr out' \<Longrightarrow> out' = out @ frame_header (length p) @ p"
proof (cases "length p \<le> 0xFFFFFF")
  case True
  assume "WriteFrame out p = Inr out'"
  then show ?thesis using WriteFrame_eq [OF True, of out] by simp
qed (simp add: WriteFrame_def)

lemma answer_negotiate_agreed:
  assumes hdr: "DecodeHeader (take 64 frame) = Some (Inr hdr)" "h_Command hdr = CommandNegotiate"
    and req: "DecodeNegotiateRequest (drop 64 frame) = Some (Inr req)"
    and sel: "Select req (ng_RequireEncryption opts) = Inr sel"
    and rnd: "\<forall>g. ev_serverGuid ev = Some g \<longrightarrow> length g = 16" "\<forall>s. ev_salt ev = Some s \<longrightarrow> length s = 32"
    and run: "answer_negotiate opts ev frame hdr req sel out = Some (Inr conn, out')"
  shows "\<exists>sent. out' = out @ sent \<and> agreed opts ev conn sent"
proof -
  obtain guid salt where env: "ev_serverGuid ev = Some guid" "ev_salt ev = Some salt"
    using run by (auto simp: answer_negotiate_def split: option.splits)
  define conn0 where "conn0 = new_connection opts (ev_sha512 ev) frame req sel guid"
  have conn0: "nc_ServerGuid conn0 = guid" "nc_Selection conn0 = sel" "nc_NegotiateRequestMsg conn0 = frame"
    "nc_Preauth conn0 = (if sel_Dialect sel = Dialect311 then Update (ev_sha512 ev) (zeros 64) frame else zeros 64)"
    by (simp_all add: conn0_def new_connection_def Let_def NewPreauthHash_def)
  obtain body full where enc: "EncodeNegotiateResponse (negotiated_response opts ev req conn0 salt) = Some (Inr body)"
    and full: "full_message (negotiate_header (grantCredits (h_CreditCharge hdr) (h_CreditResponse hdr)) (h_MessageID hdr)) body = Some (Inr full)"
    and out': "WriteFrame out full = Inr out'"
    and conn: "conn = conn0\<lparr>nc_NegotiateResponseMsg := full,
      nc_Preauth := (if sel_Dialect sel = Dialect311 then Update (ev_sha512 ev) (nc_Preauth conn0) full else nc_Preauth conn0)\<rparr>"
    using run env by (auto simp: answer_negotiate_def conn0_def Let_def split: option.splits sum.splits)
  have "announced req conn0 body"
    using announced_response [OF enc] conn0 env rnd by simp
  then have "announced req conn (drop 64 full)"
    using full_message_decodes(1) [OF full] by (simp add: announced_def conn)
  with full_message_decodes(2) [OF full] WriteFrame_Inr [OF out'] hdr req sel conn0 env rnd show ?thesis
    by (auto simp: agreed_def Let_def conn)
qed

lemma negotiate_frame_agreed:
  assumes "\<forall>g. ev_serverGuid ev = Some g \<longrightarrow> length g = 16" "\<forall>s. ev_salt ev = Some s \<longrightarrow> length s = 32"
    and "negotiate_frame opts ev frame out = Some (Inr conn, out')"
  shows "\<exists>sent. out' = out @ sent \<and> agreed opts ev conn sent"
  using assms
  by (auto simp: negotiate_frame_def split: if_splits option.splits sum.splits intro: answer_negotiate_agreed)

text \<open>With random bytes at hand, a request the selection accepts is always answered.\<close>

lemma response_encodes:
  assumes "length (nc_ServerGuid conn) = 16" "length salt = 32"
  shows "\<exists>body. EncodeNegotiateResponse (negotiated_response opts ev req conn salt) = Some (Inr body) \<and> length body \<le> 200"
proof -
  let ?r = "negotiated_response opts ev req conn salt" and ?sel = "nc_Selection conn"
  have guid: "length (np_ServerGuid ?r) = 16" using assms(1) by (simp add: negotiated_response_def Let_def)
  have blob: "length (np_SecurityBuffer ?r) = 30" by (simp add: negotiated_response_def Let_def NegotiateSecurityBlob_def)
  show ?thesis
  proof (cases "sel_Dialect ?sel = Dialect311")
    case False
    then have "np_Dialect ?r \<noteq> Dialect311" by (simp add: negotiated_response_def Let_def)
    from EncodeNegotiateResponse_plain [OF this guid] blob show ?thesis by simp
  next
    case True
    let ?p = "\<lparr>pi_HashAlgorithms = [sel_Hash ?sel], pi_Salt = salt\<rparr>"
    have np: "np_Dialect ?r = Dialect311" "np_PreauthIntegrity ?r = Some ?p"
      "\<forall>e. np_Encryption ?r = Some e \<longrightarrow> length e = 1" "\<forall>e. np_SigningCaps ?r = Some e \<longrightarrow> length e = 1"
      using True by (auto simp: negotiated_response_def Let_def split: if_splits)
    have "length (context_tail ?p (np_Encryption ?r) (np_SigningCaps ?r)) \<le> 100"
      using np(3,4) assms(2)
      by (auto simp: context_tail_def context_wire_def encodePreauth_def encodeEncryption_def encodeSigningCaps_def
          encode_id_list_def split: option.splits)
    with EncodeNegotiateResponse_311 [OF np(1) guid blob np(2) _ _ np(3)] assms(2) blob show ?thesis by simp
  qed
qed

lemma answer_negotiate_total:
  assumes "ev_serverGuid ev = Some guid" "ev_salt ev = Some salt" "length guid = 16" "length salt = 32"
  shows "\<exists>conn out'. answer_negotiate opts ev frame hdr req sel out = Some (Inr conn, out') \<and> nc_Selection conn = sel"
proof -
  define conn0 where "conn0 = new_connection opts (ev_sha512 ev) frame req sel guid"
  have conn0: "nc_ServerGuid conn0 = guid" "nc_Selection conn0 = sel" by (simp_all add: conn0_def new_connection_def Let_def)
  obtain body where body: "EncodeNegotiateResponse (negotiated_response opts ev req conn0 salt) = Some (Inr body)" "length body \<le> 200"
    using response_encodes [of conn0 salt] assms conn0 by blast
  let ?h = "negotiate_header (grantCredits (h_CreditCharge hdr) (h_CreditResponse hdr)) (h_MessageID hdr)"
  obtain h where "EncodeHeader (zeros 64) ?h = Some (Inr h)" "length h = 64"
    using EncodeHeader_roundtrip [of "zeros 64" ?h] by (auto simp: wf_header_def negotiate_header_def)
  then have "full_message ?h body = Some (Inr (h @ body))" "length (h @ body) \<le> 0xFFFFFF"
    using body(2) by (simp_all add: full_message_def ok_then_def)
  with assms(1,2) body(1) conn0 show ?thesis
    by (simp add: answer_negotiate_def Let_def WriteFrame_eq flip: conn0_def)
qed

text \<open>C11: When NEGOTIATE succeeds, the last frame the server has sent is its response, and the
  client and the server agree: the dialect, capabilities, security mode, identity and size limits in
  it, and for 3.1.1 the hash, cipher and signing algorithm in its contexts, are those the
  connection goes on to use; they are what \<^verbatim>\<open>Select\<close> chose for the request the client sent; and the
  preauthentication hash covers exactly the two messages, in this order. This holds with and without
  the SMB1 upgrade before it.\<close>

theorem negotiation_agrees:
  assumes "\<forall>g. ev_serverGuid ev = Some g \<longrightarrow> length g = 16" and "\<forall>s. ev_salt ev = Some s \<longrightarrow> length s = 32"
    and run: "Negotiate opts ev rd out = Some ((Inr conn, out'), rd')"
  shows "\<exists>before sent. out' = before @ sent \<and> agreed opts ev conn sent
    \<and> (before = out \<or> writeMultiProtocolUpgradeResponse ev out = Some before)"
proof -
  obtain frame before where "negotiate_frame opts ev frame before = Some (Inr conn, out')"
    and "before = out \<or> writeMultiProtocolUpgradeResponse ev out = Some before"
    using run by (auto simp: Negotiate_def split: sum.splits if_splits option.splits)
  with negotiate_frame_agreed [OF assms(1,2)] show ?thesis by blast
qed

lemma at_bytes:
  "u16_at b i = Some v \<Longrightarrow> take 2 (drop i b) = le16 v" "u32_at b i = Some w \<Longrightarrow> take 4 (drop i b) = le32 w"
  by (auto simp: go_panic le_bytes_le_word split: if_splits)

lemma validate_bytes:
  assumes "length (vn_Guid v) = 16"
  shows "EncodeValidateNegotiateInfoResponse v =
    Some (le32 (vn_Capabilities v) @ vn_Guid v @ le16 (vn_SecurityMode v) @ le16 (vn_Dialect v))"
proof -
  have "EncodeValidateNegotiateInfoResponse v =
      Some (patch 22 (le16 (vn_Dialect v)) (patch 20 (le16 (vn_SecurityMode v)) (patch 4 (vn_Guid v) (patch 0 (le32 (vn_Capabilities v)) (zeros 24)))))"
    (is "_ = Some ?b")
    using assms by (simp add: EncodeValidateNegotiateInfoResponse_def go_panic)
  moreover have "?b = take 4 (drop 0 ?b) @ take 16 (drop 4 ?b) @ take 2 (drop 20 ?b) @ take 2 (drop 22 ?b)"
    by (rule nth_equalityI) (auto simp: nth_append)
  moreover have "take 4 (drop 0 ?b) = le32 (vn_Capabilities v)"
    using assms patch_same [of 0 "le32 (vn_Capabilities v)" "zeros 24" 4] by (simp add: take_drop_0_patch)
  moreover have "take 16 (drop 4 ?b) = vn_Guid v" "take 2 (drop 20 ?b) = le16 (vn_SecurityMode v)"
    "take 2 (drop 22 ?b) = le16 (vn_Dialect v)"
    using assms by (simp_all add: byte_layout drop_patch_same)
  ultimately show ?thesis by simp
qed

text \<open>\<^verbatim>\<open>FSCTL_VALIDATE_NEGOTIATE_INFO\<close> on a negotiated connection is answered with the very bytes
  of the NEGOTIATE response: capabilities, server identity, security mode and dialect. A client that
  compares them with what it received, as the protocol asks, never sees a difference unless the
  response was altered on the way.\<close>

theorem validate_negotiate_echoes:
  assumes "agreed opts ev conn sent"
    and "DecodeIoctlRequest body = Some (Inr req)" and "io_CtlCode req = FsctlValidateNegotiateInfo"
  shows "let resp = drop 64 (nc_NegotiateResponseMsg conn);
             echo = take 4 (drop 24 resp) @ take 16 (drop 8 resp) @ take 2 (drop 2 resp) @ take 2 (drop 4 resp);
             d' = negotiated_dispatcher conn d
         in handleIoctl copy K rand equalFold d' hdr body r ds = reply_body d' hdr r (ioctl_reply req (Some echo)) ds"
proof -
  let ?resp = "drop 64 (nc_NegotiateResponseMsg conn)"
  obtain nreq where ann: "announced nreq conn ?resp" and guid: "length (nc_ServerGuid conn) = 16"
    using assms(1) by (auto simp: agreed_def Let_def)
  have "take 4 (drop 24 ?resp) = le32 (nc_NegotiatedCapabilities conn)"
    "take 16 (drop 8 ?resp) = nc_ServerGuid conn"
    "take 2 (drop 2 ?resp) = le16 (nc_NegotiatedSecurityMode conn)"
    "take 2 (drop 4 ?resp) = le16 (sel_Dialect (nc_Selection conn))"
    using ann by (simp_all only: announced_def Let_def at_bytes)
  then show ?thesis
    using assms guid by (simp add: handleIoctl_def Let_def negotiated_dispatcher_def validate_bytes)
qed

section \<open>Witnesses\<close>

definition wnegotiate :: bytes where
  "wnegotiate =
     [0xFE, 0x53, 0x4D, 0x42, 64, 0, 1, 0] @ zeros 56 @
     le16 36 @ le16 1 @ le16 1 @ le16 0 @ le32 0 @ zeros 16 @ le32 104 @ le16 1 @ le16 0 @
     le16 0x0311 @ zeros 2 @ context_wire 1 (encodePreauth \<lparr>pi_HashAlgorithms = [1], pi_Salt = [5, 6]\<rparr>)"

definition wnegotiate_env :: negotiation_env where
  "wnegotiate_env =
     \<lparr>ev_upgradeGuid = None, ev_serverGuid = Some (replicate 16 7), ev_salt = Some (replicate 32 9),
      ev_upgradeTime = (0, 0), ev_time = (1700000000, 100), ev_sha512 = (\<lambda>b. replicate 64 (word_of_nat (length b)))\<rparr>"

definition wnegotiate_opts :: NegotiatorOptions where
  "wnegotiate_opts =
     \<lparr>ng_RequireEncryption = False, ng_RequireSigning = True, ng_MaxIOSize = 0, ng_ServerStartTime = 0\<rparr>"

lemma wnegotiate_accepted:
  "case DecodeHeader (take 64 wnegotiate) of Some (Inr hdr) \<Rightarrow> h_Command hdr = 0 | _ \<Rightarrow> False"
  "case DecodeNegotiateRequest (drop 64 wnegotiate) of
     Some (Inr req) \<Rightarrow> Select req False = Inr \<lparr>sel_Dialect = 0x0311, sel_Cipher = 0, sel_Hash = 1, sel_SigningAlgo = 1\<rparr>
   | _ \<Rightarrow> False"
  by code_simp+

definition wnegotiated :: "(negotiation \<times> bytes) option" where
  "wnegotiated = Negotiate wnegotiate_opts wnegotiate_env (frame_header (length wnegotiate) @ wnegotiate) []"

definition wconn :: Connection where
  "wconn = (case wnegotiated of Some ((Inr conn, _), _) \<Rightarrow> conn)"

lemma wnegotiated_eq: "\<exists>out. wnegotiated = Some ((Inr wconn, out), []) \<and> sel_Dialect (nc_Selection wconn) = 0x0311"
proof -
  let ?sel = "\<lparr>sel_Dialect = 0x0311, sel_Cipher = 0, sel_Hash = 1, sel_SigningAlgo = 1\<rparr>"
  have len: "length wnegotiate = 120" by (simp add: wnegotiate_def context_wire_def encodePreauth_def)
  have smb2: "\<not> is_smb1 wnegotiate" by (simp add: is_smb1_def wnegotiate_def)
  obtain hdr where hdr: "DecodeHeader (take 64 wnegotiate) = Some (Inr hdr)" "h_Command hdr = 0"
    using wnegotiate_accepted(1) by (auto split: option.splits sum.splits)
  obtain req where req: "DecodeNegotiateRequest (drop 64 wnegotiate) = Some (Inr req)" "Select req False = Inr ?sel"
    using wnegotiate_accepted(2) by (auto split: option.splits sum.splits)
  obtain conn out where "answer_negotiate wnegotiate_opts wnegotiate_env wnegotiate hdr req ?sel [] = Some (Inr conn, out)"
    "nc_Selection conn = ?sel"
    using answer_negotiate_total [of wnegotiate_env "replicate 16 7" "replicate 32 9" wnegotiate_opts wnegotiate hdr req ?sel "[]"]
    by (auto simp: wnegotiate_env_def)
  moreover have "ReadFrame (frame_header 120 @ wnegotiate) MaxFrameSize = Inr (wnegotiate, [])"
    using ReadFrame_frame [of wnegotiate MaxFrameSize "[]"] len by (simp add: MaxFrameSize_def)
  ultimately have run: "wnegotiated = Some ((Inr conn, out), [])" "nc_Selection conn = ?sel"
    using hdr req len smb2 by (simp_all add: wnegotiated_def Negotiate_def negotiate_frame_def wnegotiate_opts_def)
  have "wconn = conn" by (simp add: wconn_def run(1))
  with run have "wnegotiated = Some ((Inr wconn, out), [])" "sel_Dialect (nc_Selection wconn) = 0x0311" by simp_all
  then show ?thesis by blast
qed

lemma wenv_lengths:
  "\<forall>g. ev_serverGuid wnegotiate_env = Some g \<longrightarrow> length g = 16"
  "\<forall>s. ev_salt wnegotiate_env = Some s \<longrightarrow> length s = 32"
  by (simp_all add: wnegotiate_env_def)

theorem negotiation_agrees_witness:
  "\<exists>out. wnegotiated = Some ((Inr wconn, out), [])
   \<and> sel_Dialect (nc_Selection wconn) = 0x0311 \<and> agreed wnegotiate_opts wnegotiate_env wconn out"
proof -
  obtain out where run: "wnegotiated = Some ((Inr wconn, out), [])" and d: "sel_Dialect (nc_Selection wconn) = 0x0311"
    using wnegotiated_eq by blast
  from negotiation_agrees [OF wenv_lengths run [unfolded wnegotiated_def]] run d show ?thesis
    by (auto simp: writeMultiProtocolUpgradeResponse_def wnegotiate_env_def)
qed

definition wvalidate :: bytes where
  "wvalidate = le16 57 @ zeros 2 @ le32 FsctlValidateNegotiateInfo @ zeros 48"

lemma wvalidate_decodes:
  "case DecodeIoctlRequest wvalidate of Some (Inr req) \<Rightarrow> io_CtlCode req = FsctlValidateNegotiateInfo | _ \<Rightarrow> False"
  by code_simp

end
