(* ===== verification/Ntlm.thy ===== *)
theory Ntlm
  imports Spnego Go_Text Smb3_Cipher
begin

text \<open>
  NTLMSSP as \<^verbatim>\<open>internal/ntlm\<close> implements it: the three messages (\<^verbatim>\<open>messages.go\<close>), AV pair lists
  (\<^verbatim>\<open>avpairs.go\<close>), the NTLMv2 proof (\<^verbatim>\<open>ntlmv2.go\<close>), the message integrity code (\<^verbatim>\<open>mic.go\<close>), and the
  RC4 step of \<^verbatim>\<open>parent/session.go\<close>. HMAC-MD5 and \<^verbatim>\<open>strings.ToUpper\<close> are arguments.
\<close>

datatype ntlm_err = ErrShortMessage | ErrBadSignature | ErrWrongType | ErrAVTruncated | ErrAuthFailure

definition Signature :: bytes where
  "Signature = [0x4E, 0x54, 0x4C, 0x4D, 0x53, 0x53, 0x50, 0x00]"

abbreviation (input) MessageTypeNegotiate :: u32 where "MessageTypeNegotiate \<equiv> 1"
abbreviation (input) MessageTypeChallenge :: u32 where "MessageTypeChallenge \<equiv> 2"
abbreviation (input) MessageTypeAuthenticate :: u32 where "MessageTypeAuthenticate \<equiv> 3"

abbreviation (input) NegotiateUnicode :: u32 where "NegotiateUnicode \<equiv> 0x00000001"
abbreviation (input) NegotiateKeyExch :: u32 where "NegotiateKeyExch \<equiv> 0x40000000"

abbreviation (input) AVEOL :: u16 where "AVEOL \<equiv> 0"
abbreviation (input) AVNbComputerName :: u16 where "AVNbComputerName \<equiv> 1"
abbreviation (input) AVNbDomainName :: u16 where "AVNbDomainName \<equiv> 2"
abbreviation (input) AVDnsComputerName :: u16 where "AVDnsComputerName \<equiv> 3"
abbreviation (input) AVDnsDomainName :: u16 where "AVDnsDomainName \<equiv> 4"
abbreviation (input) AVFlags :: u16 where "AVFlags \<equiv> 6"
abbreviation (input) AVTimestamp :: u16 where "AVTimestamp \<equiv> 7"

section \<open>AV pairs\<close>

record AVPair =
  av_ID :: u16
  av_Value :: bytes

definition EncodeAVList :: "AVPair list \<Rightarrow> bytes" where
  "EncodeAVList pairs =
     fold (\<lambda>p out. out @ le16 (av_ID p) @ le16 (word_of_nat (length (av_Value p))) @ av_Value p) pairs [] @ zeros 4"

function av_loop :: "bytes \<Rightarrow> AVPair list \<Rightarrow> (ntlm_err, AVPair list) decoded" where
  "av_loop b out =
     (if length b < 4 then Some (Inl ErrAVTruncated)
      else (case (u16_at b 0, u16_at b 2) of
         (Some i, Some l) \<Rightarrow>
           if i = AVEOL then Some (Inr out)
           else if 4 + unat l > length b then Some (Inl ErrAVTruncated)
           else (case go_slice b 4 (4 + unat l) of
              None \<Rightarrow> None
            | Some v \<Rightarrow> av_loop (drop (4 + unat l) b) (out @ [\<lparr>av_ID = i, av_Value = v\<rparr>]))
       | _ \<Rightarrow> None))"
  by pat_completeness auto
termination
  by (relation "measure (\<lambda>(b, out). length b)") auto

declare av_loop.simps [simp del]

definition DecodeAVList :: "bytes \<Rightarrow> (ntlm_err, AVPair list) decoded" where
  "DecodeAVList b = av_loop b []"

definition utf16le_rune :: "int \<Rightarrow> bytes" where
  "utf16le_rune r =
     (if r > 0xFFFF then
        (let r' = r - 0x10000; hi = 0xD800 + word_of_int (drop_bit 10 r') :: u16; lo = 0xDC00 + word_of_int (r' AND 0x3FF) :: u16
         in [ucast hi, ucast (drop_bit 8 hi), ucast lo, ucast (drop_bit 8 lo)])
      else [word_of_int r, word_of_int (drop_bit 8 r)])"

definition UTF16LE :: "gostring \<Rightarrow> bytes" where
  "UTF16LE s = concat (map utf16le_rune (range_runes s))"

section \<open>Messages\<close>

definition DecodeNegotiate :: "bytes \<Rightarrow> (ntlm_err, u32) decoded" where
  "DecodeNegotiate b =
     (if length b < 32 then Some (Inl ErrShortMessage)
      else if take 8 b \<noteq> Signature then Some (Inl ErrBadSignature)
      else do {
        t \<leftarrow> u32_at b 8;
        if t \<noteq> MessageTypeNegotiate then Some (Inl ErrWrongType)
        else do { fl \<leftarrow> u32_at b 12; Some (Inr fl) }
      })"

record ChallengeMessage =
  ch_TargetName :: gostring
  ch_Flags :: u32
  ch_Challenge :: bytes
  ch_TargetInfo :: "AVPair list"

definition EncodeChallenge :: "ChallengeMessage \<Rightarrow> bytes option" where
  "EncodeChallenge m =
     (let targetName = UTF16LE (ch_TargetName m); avBytes = EncodeAVList (ch_TargetInfo m) in do {
        out \<leftarrow> put_at 0 Signature (zeros (56 + length targetName + length avBytes));
        out \<leftarrow> put_at 8 (le32 MessageTypeChallenge) out;
        out \<leftarrow> put_at 12 (le16 (word_of_nat (length targetName))) out;
        out \<leftarrow> put_at 14 (le16 (word_of_nat (length targetName))) out;
        out \<leftarrow> put_at 16 (le32 56) out;
        out \<leftarrow> put_at 20 (le32 (ch_Flags m)) out;
        out \<leftarrow> put_at 24 (ch_Challenge m) out;
        out \<leftarrow> put_at 40 (le16 (word_of_nat (length avBytes))) out;
        out \<leftarrow> put_at 42 (le16 (word_of_nat (length avBytes))) out;
        out \<leftarrow> put_at 44 (le32 (word_of_nat (56 + length targetName))) out;
        out \<leftarrow> put_at 48 [10, 0] out;
        out \<leftarrow> put_at 50 (le16 22000) out;
        out \<leftarrow> put_at 55 [15] out;
        out \<leftarrow> put_at 56 targetName out;
        put_at (56 + length targetName) avBytes out
      })"

record AuthenticateMessage =
  am_LmResponse :: bytes
  am_NtResponse :: bytes
  am_DomainName :: gostring
  am_UserName :: gostring
  am_Workstation :: gostring
  am_EncryptedRandomSessionKey :: bytes
  am_Flags :: u32
  am_MIC :: bytes
  am_HasMIC :: bool

definition read_field :: "bytes \<Rightarrow> nat \<Rightarrow> (ntlm_err, bytes) decoded" where
  "read_field b off = do {
     l \<leftarrow> u16_at b off;
     o' \<leftarrow> u32_at b (off + 4);
     if l = 0 then Some (Inr [])
     else if unat o' + unat l > length b then Some (Inl ErrShortMessage)
     else map_option Inr (go_slice b (unat o') (unat o' + unat l))
   }"

definition payload_fields :: "nat list" where
  "payload_fields = [12, 20, 28, 36, 44, 52]"

fun smallest_loop :: "bytes \<Rightarrow> nat list \<Rightarrow> nat \<Rightarrow> nat option" where
  "smallest_loop b [] m = Some m"
| "smallest_loop b (off # offs) m =
     (if length b < off + 8 then Some m
      else do {
        l \<leftarrow> u16_at b off;
        o' \<leftarrow> u32_at b (off + 4);
        smallest_loop b offs (if unat l > 0 \<and> unat o' < m then unat o' else m)
      })"

definition smallestPayloadOffset :: "bytes \<Rightarrow> nat option" where
  "smallestPayloadOffset b = smallest_loop b payload_fields (2 ^ 63 - 1)"

definition ntlm_decodeUTF16LE :: "bytes \<Rightarrow> gostring" where
  "ntlm_decodeUTF16LE b = runes_to_string (map uint (u16_units b))"

definition ntlm_then :: "(ntlm_err, 'a) decoded \<Rightarrow> ('a \<Rightarrow> (ntlm_err, 'b) decoded) \<Rightarrow> (ntlm_err, 'b) decoded" where
  "ntlm_then m f = Option.bind m (\<lambda>r. case r of Inl e \<Rightarrow> Some (Inl e) | Inr a \<Rightarrow> f a)"

definition decode_mic :: "bytes \<Rightarrow> (bytes \<times> bool) option" where
  "decode_mic b =
     (if length b \<ge> 88 then do {
        minPayload \<leftarrow> smallestPayloadOffset b;
        if minPayload \<ge> 88 then do { mic \<leftarrow> go_slice b 72 88; Some (mic, True) } else Some (zeros 16, False)
      } else Some (zeros 16, False))"

definition DecodeAuthenticate :: "bytes \<Rightarrow> (ntlm_err, AuthenticateMessage) decoded" where
  "DecodeAuthenticate b =
     (if length b < 64 then Some (Inl ErrShortMessage)
      else if take 8 b \<noteq> Signature then Some (Inl ErrBadSignature)
      else do {
        t \<leftarrow> u32_at b 8;
        if t \<noteq> MessageTypeAuthenticate then Some (Inl ErrWrongType)
        else
          ntlm_then (read_field b 12) (\<lambda>lm.
          ntlm_then (read_field b 20) (\<lambda>nt.
          ntlm_then (read_field b 28) (\<lambda>dom.
          ntlm_then (read_field b 36) (\<lambda>usr.
          ntlm_then (read_field b 44) (\<lambda>wks.
          ntlm_then (read_field b 52) (\<lambda>key. do {
            fl \<leftarrow> u32_at b 60;
            let str = (if fl AND NegotiateUnicode \<noteq> 0 then ntlm_decodeUTF16LE else (\<lambda>s. s));
            (mic, hasMIC) \<leftarrow> decode_mic b;
            Some (Inr \<lparr>am_LmResponse = lm, am_NtResponse = nt, am_DomainName = str dom, am_UserName = str usr,
                       am_Workstation = str wks, am_EncryptedRandomSessionKey = key, am_Flags = fl,
                       am_MIC = mic, am_HasMIC = hasMIC\<rparr>)
          }))))))
      })"

section \<open>The NTLMv2 proof\<close>

definition utf16_Encode_rune :: "int \<Rightarrow> u16 list" where
  "utf16_Encode_rune r =
     (if 0 \<le> r \<and> r < 0xD800 \<or> 0xE000 \<le> r \<and> r < 0x10000 then [word_of_int r]
      else if 0x10000 \<le> r \<and> r \<le> 0x10FFFF then
        [0xD800 + word_of_int (drop_bit 10 (r - 0x10000)), 0xDC00 + word_of_int ((r - 0x10000) AND 0x3FF)]
      else [word_of_int RuneError])"

definition utf16leDomain :: "gostring \<Rightarrow> bytes" where
  "utf16leDomain s = concat (map (\<lambda>c. le16 c) (concat (map utf16_Encode_rune (range_runes s))))"

definition utf16leUpper :: "(gostring \<Rightarrow> gostring) \<Rightarrow> gostring \<Rightarrow> bytes" where
  "utf16leUpper toUpper s = utf16leDomain (toUpper s)"

record ntlm_env =
  nt_hmac_md5 :: "bytes \<Rightarrow> bytes \<Rightarrow> bytes"
  nt_toUpper :: "gostring \<Rightarrow> gostring"

definition NTOWFv2 :: "ntlm_env \<Rightarrow> bytes \<Rightarrow> gostring \<Rightarrow> gostring \<Rightarrow> bytes" where
  "NTOWFv2 ne ntHash username domain =
     fixed 16 (nt_hmac_md5 ne ntHash (utf16leUpper (nt_toUpper ne) username @ utf16leDomain domain))"

definition VerifyNTLMv2 :: "ntlm_env \<Rightarrow> bytes \<Rightarrow> gostring \<Rightarrow> gostring \<Rightarrow> bytes \<Rightarrow> bytes \<Rightarrow> ntlm_err + bytes" where
  "VerifyNTLMv2 ne ntHash username domain serverChallenge ntResponse =
     (if length ntResponse < 24 then Inl ErrAuthFailure
      else
        let clientNTProofStr = take 16 ntResponse; temp = drop 16 ntResponse;
            ntowfv2 = NTOWFv2 ne ntHash username domain;
            expectedNTProofStr = nt_hmac_md5 ne ntowfv2 (serverChallenge @ temp)
        in if clientNTProofStr \<noteq> expectedNTProofStr then Inl ErrAuthFailure
           else Inr (fixed 16 (nt_hmac_md5 ne ntowfv2 expectedNTProofStr)))"

section \<open>The message integrity code\<close>

definition MICFieldOffset :: nat where
  [simp]: "MICFieldOffset = 72"

definition AVFlagMICPresent :: u32 where
  "AVFlagMICPresent = 0x00000002"

definition msvAvFlags :: "bytes \<Rightarrow> u32 option option" where
  "msvAvFlags ntResponse =
     (if length ntResponse < 44 then Some None
      else (case DecodeAVList (drop 44 ntResponse) of
         None \<Rightarrow> None
       | Some (Inl _) \<Rightarrow> Some None
       | Some (Inr pairs) \<Rightarrow>
           (case find (\<lambda>p. av_ID p = AVFlags \<and> length (av_Value p) \<ge> 4) pairs of
              None \<Rightarrow> Some None
            | Some p \<Rightarrow> map_option Some (u32_at (av_Value p) 0))))"

definition MICRequired :: "bytes \<Rightarrow> bool option" where
  "MICRequired ntResponse =
     map_option (\<lambda>fl. case fl of None \<Rightarrow> False | Some w \<Rightarrow> w AND AVFlagMICPresent \<noteq> 0) (msvAvFlags ntResponse)"

definition ComputeMIC :: "ntlm_env \<Rightarrow> bytes \<Rightarrow> bytes \<Rightarrow> bytes \<Rightarrow> bytes \<Rightarrow> bytes" where
  "ComputeMIC ne exportedSessionKey negotiate challenge authenticate =
     (let zeroed = (if length authenticate \<ge> MICFieldOffset + 16 then patch MICFieldOffset (zeros 16) authenticate
                    else authenticate)
      in fixed 16 (nt_hmac_md5 ne exportedSessionKey (negotiate @ challenge @ zeroed)))"

definition VerifyMIC :: "ntlm_env \<Rightarrow> bytes \<Rightarrow> bytes \<Rightarrow> bytes \<Rightarrow> bytes \<Rightarrow> bytes \<Rightarrow> bool" where
  "VerifyMIC ne exportedSessionKey negotiate challenge authenticate mic =
     (ComputeMIC ne exportedSessionKey negotiate challenge authenticate = mic)"

fun authlen_loop :: "bytes \<Rightarrow> nat list \<Rightarrow> nat \<Rightarrow> nat option" where
  "authlen_loop b [] end' = Some (if end' = 0 \<or> end' > length b then length b else end')"
| "authlen_loop b (off # offs) end' =
     (if length b < off + 8 then Some (length b)
      else do {
        l \<leftarrow> u16_at b off;
        o' \<leftarrow> u32_at b (off + 4);
        authlen_loop b offs (if l \<noteq> 0 \<and> unat o' + unat l > end' then unat o' + unat l else end')
      })"

definition AuthenticateLen :: "bytes \<Rightarrow> nat option" where
  "AuthenticateLen b = authlen_loop b payload_fields 0"

section \<open>RC4\<close>

definition swap :: "nat \<Rightarrow> nat \<Rightarrow> 'a list \<Rightarrow> 'a list" where
  "swap i j s = s[i := s ! j, j := s ! i]"

fun rc4_init :: "bytes \<Rightarrow> nat list \<Rightarrow> nat \<Rightarrow> bytes \<Rightarrow> bytes" where
  "rc4_init key [] j s = s"
| "rc4_init key (i # is) j s =
     (let j' = (j + unat (s ! i) + unat (key ! (i mod length key))) mod 256
      in rc4_init key is j' (swap i j' s))"

fun rc4_stream :: "nat \<Rightarrow> nat \<Rightarrow> nat \<Rightarrow> bytes \<Rightarrow> bytes" where
  "rc4_stream 0 i jj s = []"
| "rc4_stream (Suc n) i jj s =
     (let i' = (i + 1) mod 256;
          jj' = (jj + unat (s ! i')) mod 256;
          s' = swap i' jj' s
      in s' ! ((unat (s' ! i') + unat (s' ! jj')) mod 256) # rc4_stream n i' jj' s')"

definition rc4xor :: "bytes \<Rightarrow> bytes \<Rightarrow> bytes" where
  "rc4xor key inp =
     XORBytes inp (rc4_stream (length inp) 0 0 (rc4_init key [0..<256] 0 (map word_of_nat [0..<256])))"

section \<open>No panic\<close>

lemma av_loop_total: "av_loop b out \<noteq> None"
proof (induction b out rule: av_loop.induct)
  case (1 b out)
  show ?case
  proof (cases "length b < 4")
    case False
    then obtain i l where il: "u16_at b 0 = Some i" "u16_at b 2 = Some l" by (simp add: go_panic)
    show ?thesis
    proof (cases "i = AVEOL \<or> 4 + unat l > length b")
      case False
      then obtain v where "go_slice b 4 (4 + unat l) = Some v" by (simp add: go_panic)
      with 1 [OF \<open>\<not> length b < 4\<close> refl il _ _ this] False \<open>\<not> length b < 4\<close> il show ?thesis
        by (simp add: av_loop.simps [of b])
    qed (use il \<open>\<not> length b < 4\<close> in \<open>auto simp: av_loop.simps [of b]\<close>)
  qed (simp add: av_loop.simps)
qed

lemma find_SomeD: "find P xs = Some x \<Longrightarrow> P x"
  by (auto simp: find_Some_iff)

lemma msvAvFlags_total: "msvAvFlags b \<noteq> None"
proof (cases "length b < 44")
  case False
  obtain r where "DecodeAVList (drop 44 b) = Some r" using av_loop_total [of "drop 44 b" "[]"] by (auto simp: DecodeAVList_def)
  then show ?thesis
    using False by (cases r) (auto simp: msvAvFlags_def u32_at_def dest: find_SomeD split: option.splits)
qed (simp add: msvAvFlags_def)

lemma MICRequired_total: "MICRequired b \<noteq> None"
  using msvAvFlags_total [of b] by (simp add: MICRequired_def)

lemma read_field_total: "off + 8 \<le> length b \<Longrightarrow> read_field b off \<noteq> None"
  by (simp add: read_field_def go_panic)

lemma smallest_loop_total: "smallest_loop b offs m \<noteq> None"
  by (induction offs arbitrary: m) (simp_all add: go_panic)

lemma ntlm_then_total: "m \<noteq> None \<Longrightarrow> (\<And>a. f a \<noteq> None) \<Longrightarrow> ntlm_then m f \<noteq> None"
  by (cases m) (auto simp: ntlm_then_def split: sum.splits)

lemma decode_mic_total: "decode_mic b \<noteq> None"
proof -
  obtain m where "smallestPayloadOffset b = Some m"
    using smallest_loop_total [of b] by (auto simp: smallestPayloadOffset_def)
  then show ?thesis by (auto simp: decode_mic_def go_slice_def)
qed

lemma DecodeAuthenticate_total: "DecodeAuthenticate b \<noteq> None"
  using decode_mic_total [of b]
  by (simp add: DecodeAuthenticate_def go_panic(4) ntlm_then_total read_field_total bind_eq_None_conv split_def
      u32_at_def Let_def del: not_None_eq)

lemma authlen_loop_total: "\<exists>n. authlen_loop b offs e = Some n \<and> n \<le> length b"
  by (induction offs arbitrary: e) (auto simp: go_panic)

section \<open>AV pairs round trip\<close>

definition av_wire :: "AVPair \<Rightarrow> bytes" where
  "av_wire p = le16 (av_ID p) @ le16 (word_of_nat (length (av_Value p))) @ av_Value p"

definition av_ok :: "AVPair \<Rightarrow> bool" where
  "av_ok p \<longleftrightarrow> av_ID p \<noteq> AVEOL \<and> length (av_Value p) < 2 ^ 16"

lemma EncodeAVList_eq: "EncodeAVList ps = concat (map av_wire ps) @ zeros 4"
proof -
  have "fold (\<lambda>p out. out @ le16 (av_ID p) @ le16 (word_of_nat (length (av_Value p))) @ av_Value p) ps acc =
      acc @ concat (map av_wire ps)" for acc
    by (induction ps arbitrary: acc) (simp_all add: av_wire_def)
  then show ?thesis by (simp add: EncodeAVList_def)
qed

lemma av_loop_wire:
  assumes "av_ok p"
  shows "av_loop (av_wire p @ rest) out = av_loop rest (out @ [p])"
proof -
  have "unat (word_of_nat (length (av_Value p)) :: u16) = length (av_Value p)"
    using assms by (simp add: av_ok_def unat_of_nat take_bit_nat_eq_self)
  with assms show ?thesis
    by (simp add: av_loop.simps [of "av_wire p @ rest"]) (cases p, simp add: av_wire_def go_panic av_ok_def)
qed

lemma av_loop_end: "av_loop (zeros 4 @ rest) out = Some (Inr out)"
  by (simp add: av_loop.simps [of "zeros 4 @ rest"] go_panic numeral_2_eq_2)

lemma DecodeAVList_EncodeAVList:
  assumes "list_all av_ok ps"
  shows "DecodeAVList (EncodeAVList ps @ rest) = Some (Inr ps)"
proof -
  have "av_loop (concat (map av_wire ps) @ zeros 4 @ rest) out = Some (Inr (out @ ps))" for out
    using assms
  proof (induction ps arbitrary: out)
    case Nil
    then show ?case by (simp add: av_loop_end)
  next
    case (Cons p ps)
    then show ?case by (simp add: av_loop_wire)
  qed
  then show ?thesis by (simp add: DecodeAVList_def EncodeAVList_eq)
qed

section \<open>The proof of identity\<close>

lemma VerifyNTLMv2_iff:
  "VerifyNTLMv2 ne h user domain chal resp = Inr key \<longleftrightarrow>
    (\<exists>proof temp. resp = proof @ temp \<and> length proof = 16 \<and> 8 \<le> length temp \<and>
       proof = nt_hmac_md5 ne (NTOWFv2 ne h user domain) (chal @ temp) \<and>
       key = fixed 16 (nt_hmac_md5 ne (NTOWFv2 ne h user domain) proof))"
proof
  define pr temp where "pr = take 16 resp" and "temp = drop 16 resp"
  assume "VerifyNTLMv2 ne h user domain chal resp = Inr key"
  then have "24 \<le> length resp" "pr = nt_hmac_md5 ne (NTOWFv2 ne h user domain) (chal @ temp)"
    "key = fixed 16 (nt_hmac_md5 ne (NTOWFv2 ne h user domain) pr)"
    by (auto simp: VerifyNTLMv2_def pr_def temp_def Let_def split: if_splits)
  moreover from this(1) have "resp = pr @ temp" "length pr = 16" "8 \<le> length temp"
    by (simp_all add: pr_def temp_def)
  ultimately show "\<exists>proof temp. resp = proof @ temp \<and> length proof = 16 \<and> 8 \<le> length temp \<and>
       proof = nt_hmac_md5 ne (NTOWFv2 ne h user domain) (chal @ temp) \<and>
       key = fixed 16 (nt_hmac_md5 ne (NTOWFv2 ne h user domain) proof)" by blast
qed (auto simp: VerifyNTLMv2_def Let_def)

lemma VerifyNTLMv2_key: "VerifyNTLMv2 ne h user domain chal resp = Inr key \<Longrightarrow> length key = 16"
  by (auto simp: VerifyNTLMv2_iff)

lemma length_rc4_stream [simp]: "length (rc4_stream n i j s) = n"
  by (induction n arbitrary: i j s) (simp_all add: Let_def)

lemma length_rc4xor [simp]: "length (rc4xor key x) = length x"
  by (simp add: rc4xor_def)

lemma rc4xor_inverse: "rc4xor key (rc4xor key x) = x"
  by (simp add: rc4xor_def XORBytes_cancel)

end
