(* ===== verification/Session_Setup.thy ===== *)
theory Session_Setup
  imports Ntlm Negotiator Session_Properties
begin

text \<open>
  SESSION_SETUP (\<^verbatim>\<open>parent/session.go\<close> from \<^verbatim>\<open>SessionSetupHandler\<close> on): the two legs of the NTLM
  exchange, the guest fallback, the message integrity code, the key derivation of the three dialect
  families, registration in the session index and the close of the previous session.

  A session's fields are split in two: \<open>Session\<close> (in \<open>Sessions\<close>) holds what the rest of the
  server reads, \<open>handshake\<close> what only this exchange does. Both live at the same reference. The random
  challenge, the clock, the account of the guest user, the crypto primitives and whether the
  connection's outbound queue takes a frame are arguments.
\<close>

record UserConfig =
  u_Name :: gostring
  u_NTHash :: bytes
  u_SystemUser :: gostring
  u_SystemUID :: int
  u_SystemGID :: int
  u_AllowShares :: "gostring list"

record handshake =
  hk_pendingChallenge :: bytes
  hk_ntlmNegotiate :: bytes
  hk_ntlmChallenge :: bytes
  hk_preauth :: "bytes option"
  hk_ApplicationKey :: bytes
  hk_User :: UserConfig

record SessionSetupHandler =
  sh_Conn :: Connection
  sh_Host :: host_ref
  sh_Users :: "UserConfig list"
  sh_Shares :: "ShareConfig list"
  sh_RequireEncryption :: bool

record setup_state =
  su_sv :: server
  su_hand :: "sess_ref \<Rightarrow> handshake"
  su_ctr :: u64
  su_fresh :: sess_ref
  su_out :: bytes

record setup_env =
  se_ntlm :: ntlm_env
  se_crypto :: crypto
  se_sha512 :: "bytes \<Rightarrow> bytes"
  se_rand :: "bytes option"
  se_now :: "int \<times> nat"
  se_nobody :: "(int \<times> int) option"
  se_equalFold :: "gostring \<Rightarrow> gostring \<Rightarrow> bool"
  se_fstat :: key_for
  se_writable :: bool

datatype setup_err =
    BadSetupBody smb_err
  | NoNtlmMessage smb_err
  | NtlmTooShort
  | UnexpectedNtlmType u32
  | TooManyHalfOpenSessions
  | SetupRandFailed
  | SetupEncodeFailed
  | SetupWriteFailed
  | UnknownSession u64
  | BadAuthenticate ntlm_err
  | UnknownUser
  | ProofRejected ntlm_err
  | MICMissing
  | MICHandshakeMissing
  | MICMismatch

text \<open>What a handler returns: an error or the session it authenticated, if any, and the state;
  \<open>None\<close> is a panic.\<close>

type_synonym setup_result = "((setup_err + sess_ref option) \<times> setup_state) option"

section \<open>Small parts\<close>

definition hasGuestShare :: "SessionSetupHandler \<Rightarrow> bool" where
  "hasGuestShare h = (\<exists>s \<in> set (sh_Shares h). sc_GuestOK s)"

definition guest_name :: gostring where
  "guest_name = [0x67, 0x75, 0x65, 0x73, 0x74]"

definition guestSystemUser :: "(int \<times> int) option \<Rightarrow> UserConfig" where
  "guestSystemUser nobody =
     (let (uid, gid) = (case nobody of None \<Rightarrow> (65534, 65534) | Some p \<Rightarrow> p) in
      \<lparr>u_Name = guest_name, u_NTHash = zeros 16, u_SystemUser = [0x6E, 0x6F, 0x62, 0x6F, 0x64, 0x79],
       u_SystemUID = uid, u_SystemGID = gid, u_AllowShares = [[0x2A]]\<rparr>)"

definition forkPreauth :: "bytes option \<Rightarrow> bytes" where
  "forkPreauth base = (case base of None \<Rightarrow> NewPreauthHash | Some p \<Rightarrow> p)"

definition filetimeBytes :: "int \<times> nat \<Rightarrow> bytes" where
  "filetimeBytes now = le64 (filetimeNow now)"

text \<open>\<^verbatim>\<open>transport.WriteFrame\<close> onto the connection's outbound queue, which may refuse the frame.\<close>

definition write_frame :: "setup_env \<Rightarrow> bytes \<Rightarrow> setup_state \<Rightarrow> setup_state option" where
  "write_frame ev full st =
     (if \<not> se_writable ev then None
      else case WriteFrame (su_out st) full of Inl _ \<Rightarrow> None | Inr out \<Rightarrow> Some (st\<lparr>su_out := out\<rparr>))"

definition setup_header :: "header \<Rightarrow> Status \<Rightarrow> u32 \<Rightarrow> u64 \<Rightarrow> header" where
  "setup_header hdr status flags sid =
     \<lparr>h_CreditCharge = h_CreditCharge hdr, h_Status = status_code status, h_Command = CommandSessionSetup,
      h_CreditResponse = grantCredits (h_CreditCharge hdr) (h_CreditResponse hdr), h_Flags = flags,
      h_NextCommand = 0, h_MessageID = h_MessageID hdr, h_TreeID = 0, h_SessionID = sid, h_Signature = zeros 16\<rparr>"

definition set_hand :: "sess_ref \<Rightarrow> (handshake \<Rightarrow> handshake) \<Rightarrow> setup_state \<Rightarrow> setup_state" where
  "set_hand r f st = st\<lparr>su_hand := (su_hand st)(r := f (su_hand st r))\<rparr>"

definition set_session :: "sess_ref \<Rightarrow> (Session \<Rightarrow> Session) \<Rightarrow> setup_state \<Rightarrow> setup_state" where
  "set_session r f st = st\<lparr>su_sv := (su_sv st)\<lparr>sv_sess := (sv_sess (su_sv st))(r := f (sv_sess (su_sv st) r))\<rparr>\<rparr>"

section \<open>The first leg\<close>

definition new_session :: "u64 \<Rightarrow> Session" where
  "new_session i =
     \<lparr>s_ID = i, s_UserName = [], s_AllowShares = [], s_IsGuest = False, s_SigningKey = [], s_S2CCipherKey = [],
      s_C2SCipherKey = [], s_Authenticated = False, s_gotEncrypted = False, s_trees = [], s_opens = [],
      s_dead = False, s_nextTreeID = 0\<rparr>"

definition no_user :: UserConfig where
  "no_user = \<lparr>u_Name = [], u_NTHash = zeros 16, u_SystemUser = [], u_SystemUID = 0, u_SystemGID = 0, u_AllowShares = []\<rparr>"

definition new_handshake :: handshake where
  "new_handshake =
     \<lparr>hk_pendingChallenge = zeros 8, hk_ntlmNegotiate = [], hk_ntlmChallenge = [], hk_preauth = None,
      hk_ApplicationKey = [], hk_User = no_user\<rparr>"

definition ascii :: "string \<Rightarrow> gostring" where
  "ascii s = map (\<lambda>c. word_of_nat (of_char c)) s"

definition challenge_pairs :: "int \<times> nat \<Rightarrow> AVPair list" where
  "challenge_pairs now =
     [\<lparr>av_ID = AVNbComputerName, av_Value = UTF16LE (ascii ''GOSAMBA'')\<rparr>,
      \<lparr>av_ID = AVNbDomainName, av_Value = UTF16LE (ascii ''WORKGROUP'')\<rparr>,
      \<lparr>av_ID = AVDnsComputerName, av_Value = UTF16LE (ascii ''gosamba'')\<rparr>,
      \<lparr>av_ID = AVDnsDomainName, av_Value = UTF16LE (ascii ''workgroup'')\<rparr>,
      \<lparr>av_ID = AVTimestamp, av_Value = filetimeBytes now\<rparr>]"

definition challenge_flags :: u32 where
  "challenge_flags =
     0x00000001 OR 0x00000200 OR 0x00080000 OR 0x00800000 OR 0x00008000 OR 0x00000004 OR
     0x00020000 OR 0x20000000 OR 0x80000000 OR 0x40000000 OR 0x02000000 OR 0x00000010"

definition challenge_message :: "bytes \<Rightarrow> int \<times> nat \<Rightarrow> ChallengeMessage" where
  "challenge_message chal now =
     \<lparr>ch_TargetName = ascii ''GOSAMBA'', ch_Flags = challenge_flags, ch_Challenge = chal, ch_TargetInfo = challenge_pairs now\<rparr>"

text \<open>The fresh session in its table, under the identifier it was given.\<close>

definition open_half :: "SessionSetupHandler \<Rightarrow> u64 \<Rightarrow> u64 \<Rightarrow> SessionTable \<Rightarrow> setup_state \<Rightarrow> setup_state" where
  "open_half h i ctr' t' st =
     (let r = su_fresh st in
      st\<lparr>su_fresh := Suc r, su_ctr := ctr',
         su_sv := (su_sv st)\<lparr>sv_tables := (sv_tables (su_sv st))(sh_Host h := t'),
                             sv_sess := (sv_sess (su_sv st))(r := new_session i)\<rparr>,
         su_hand := (su_hand st)(r := new_handshake)\<rparr>)"

definition send_challenge ::
  "SessionSetupHandler \<Rightarrow> setup_env \<Rightarrow> header \<Rightarrow> bytes \<Rightarrow> bytes \<Rightarrow> sess_ref \<Rightarrow> u64 \<Rightarrow> bytes \<Rightarrow> setup_state \<Rightarrow> setup_result" where
  "send_challenge h ev hdr type1 requestFrame r i chal st = do {
     type2 \<leftarrow> EncodeChallenge (challenge_message chal (se_now ev));
     let st2 = set_hand r (\<lambda>k. k\<lparr>hk_pendingChallenge := chal, hk_ntlmNegotiate := type1, hk_ntlmChallenge := type2\<rparr>) st;
     respBody \<leftarrow> EncodeSessionSetupResponse 0 (WrapNTLMResp SPNEGOAcceptIncomplete type2);
     full \<leftarrow> full_message (setup_header hdr StatusMoreProcessingReq FlagServerToRedir i) respBody;
     (case full of
        Inl _ \<Rightarrow> Some (Inl SetupEncodeFailed, st2)
      | Inr msg \<Rightarrow>
          let pre = Update (se_sha512 ev) (Update (se_sha512 ev) (forkPreauth (Some (nc_Preauth (sh_Conn h)))) requestFrame) msg;
              st3 = set_hand r (\<lambda>k. k\<lparr>hk_preauth := Some pre\<rparr>) st2
          in (case write_frame ev msg st3 of
                None \<Rightarrow> Some (Inl SetupWriteFailed, st3)
              | Some st4 \<Rightarrow> Some (Inr None, st4)))
   }"

definition handleType1 :: "SessionSetupHandler \<Rightarrow> setup_env \<Rightarrow> header \<Rightarrow> bytes \<Rightarrow> bytes \<Rightarrow> setup_state \<Rightarrow> setup_result" where
  "handleType1 h ev hdr type1 requestFrame st =
     (case NewHalfOpen (su_fresh st) (su_ctr st) (sv_tables (su_sv st) (sh_Host h)) of
        (None, _, _) \<Rightarrow> Some (Inl TooManyHalfOpenSessions, st)
      | (Some i, ctr', t') \<Rightarrow>
          let st1 = open_half h i ctr' t' st in
          (case se_rand ev of
             None \<Rightarrow> Some (Inl SetupRandFailed, st1)
           | Some chal \<Rightarrow> send_challenge h ev hdr type1 requestFrame (su_fresh st) i chal st1))"

section \<open>The second leg\<close>

definition failAuth :: "setup_env \<Rightarrow> header \<Rightarrow> setup_err \<Rightarrow> setup_state \<Rightarrow> setup_result" where
  "failAuth ev hdr cause st =
     (case full_message (setup_header hdr StatusLogonFailure FlagServerToRedir (h_SessionID hdr)) [9, 0, 0, 0, 0, 0, 0, 0, 0] of
        Some (Inr msg) \<Rightarrow>
          Some (Inl cause, (case write_frame ev msg st of None \<Rightarrow> st | Some st' \<Rightarrow> st'))
      | _ \<Rightarrow> None)"

definition find_user :: "SessionSetupHandler \<Rightarrow> setup_env \<Rightarrow> gostring \<Rightarrow> UserConfig option" where
  "find_user h ev name = find (\<lambda>u. se_equalFold ev (u_Name u) name) (sh_Users h)"

definition verifyMIC :: "setup_env \<Rightarrow> handshake \<Rightarrow> AuthenticateMessage \<Rightarrow> bytes \<Rightarrow> bytes \<Rightarrow> setup_err option option" where
  "verifyMIC ev hk auth type3 exportedSessionKey =
     (case MICRequired (am_NtResponse auth) of
        None \<Rightarrow> None
      | Some required \<Rightarrow>
          if \<not> required then Some None
          else if \<not> am_HasMIC auth then Some (Some MICMissing)
          else if length (hk_ntlmNegotiate hk) = 0 \<or> length (hk_ntlmChallenge hk) = 0 then Some (Some MICHandshakeMissing)
          else do {
            n \<leftarrow> AuthenticateLen type3;
            authMsg \<leftarrow> go_slice type3 0 n;
            Some (if VerifyMIC (se_ntlm ev) exportedSessionKey (hk_ntlmNegotiate hk) (hk_ntlmChallenge hk) authMsg (am_MIC auth)
                  then None else Some MICMismatch)
          })"

text \<open>The key the client exported: the base key of the proof, or the key it sent encrypted under it.\<close>

definition exported_key :: "AuthenticateMessage \<Rightarrow> bytes \<Rightarrow> bytes" where
  "exported_key auth sbk =
     (if am_Flags auth AND NegotiateKeyExch \<noteq> 0 \<and> length (am_EncryptedRandomSessionKey auth) = 16
      then rc4xor sbk (am_EncryptedRandomSessionKey auth) else sbk)"

record session_keys =
  ky_Signing :: bytes
  ky_S2C :: bytes
  ky_C2S :: bytes
  ky_App :: bytes

definition label :: "string \<Rightarrow> bytes" where
  "label s = ascii s @ [0]"

definition derive_keys :: "crypto \<Rightarrow> Selection \<Rightarrow> bytes \<Rightarrow> bytes \<Rightarrow> session_keys \<Rightarrow> session_keys option" where
  "derive_keys cr sel preauth sessionKey old =
     (if sel_Dialect sel = Dialect311 then do {
        let bits = CipherKeyBits (sel_Cipher sel);
        sk \<leftarrow> KDF cr sessionKey (label ''SMBSigningKey'') preauth 128;
        s2c \<leftarrow> KDF cr sessionKey (label ''SMBS2CCipherKey'') preauth bits;
        c2s \<leftarrow> KDF cr sessionKey (label ''SMBC2SCipherKey'') preauth bits;
        app \<leftarrow> KDF cr sessionKey (label ''SMBAppKey'') preauth 128;
        Some \<lparr>ky_Signing = sk, ky_S2C = s2c, ky_C2S = c2s, ky_App = app\<rparr>
      }
      else if sel_Dialect sel = Dialect300 \<or> sel_Dialect sel = Dialect302 then do {
        sk \<leftarrow> KDF cr sessionKey (label ''SMB2AESCMAC'') (label ''SmbSign'') 128;
        s2c \<leftarrow> KDF cr sessionKey (label ''SMB2AESCCM'') (label ''ServerOut'') 128;
        c2s \<leftarrow> KDF cr sessionKey (label ''SMB2AESCCM'') (label ''ServerIn '') 128;
        app \<leftarrow> KDF cr sessionKey (label ''SMB2APP'') (label ''SmbRpc'') 128;
        Some \<lparr>ky_Signing = sk, ky_S2C = s2c, ky_C2S = c2s, ky_App = app\<rparr>
      }
      else Some (old\<lparr>ky_Signing := sessionKey\<rparr>))"

definition session_flags :: "SessionSetupHandler \<Rightarrow> bool \<Rightarrow> u16" where
  "session_flags h isGuest =
     (if isGuest then 0x0001
      else if sh_RequireEncryption h \<and> sel_Cipher (nc_Selection (sh_Conn h)) \<noteq> 0 then 0x0004
      else 0)"

text \<open>From the point where the identity is settled: the session becomes usable, the previous one is
  closed, and only then is the client told.\<close>

definition admit_session ::
  "SessionSetupHandler \<Rightarrow> setup_env \<Rightarrow> sess_ref \<Rightarrow> UserConfig \<Rightarrow> bool \<Rightarrow> session_keys \<Rightarrow> u64 \<Rightarrow> setup_state \<Rightarrow> setup_state" where
  "admit_session h ev r user isGuest keys prevID st =
     (let host = sh_Host h;
          st1 = set_session r (\<lambda>s. s\<lparr>s_SigningKey := ky_Signing keys, s_S2CCipherKey := ky_S2C keys,
                  s_C2SCipherKey := ky_C2S keys, s_UserName := u_Name user, s_AllowShares := u_AllowShares user,
                  s_IsGuest := isGuest, s_Authenticated := True\<rparr>) st;
          st2 = set_hand r (\<lambda>k. k\<lparr>hk_ApplicationKey := ky_App keys, hk_User := user, hk_ntlmNegotiate := [], hk_ntlmChallenge := []\<rparr>) st1;
          sv = su_sv st2;
          sv1 = sv\<lparr>sv_tables := (sv_tables sv)(host := MarkAuthenticated (s_ID (sv_sess sv r)) (sv_tables sv host))\<rparr>;
          sv2 = idx_register r host sv1;
          sv3 = snd (supersede (se_equalFold ev) (se_fstat ev) prevID r (nc_ClientGuid (sh_Conn h)) sv2)
      in st2\<lparr>su_sv := sv3\<rparr>)"

definition complete_setup ::
  "SessionSetupHandler \<Rightarrow> setup_env \<Rightarrow> header \<Rightarrow> sess_ref \<Rightarrow> UserConfig \<Rightarrow> bool \<Rightarrow> session_keys \<Rightarrow> u64 \<Rightarrow> setup_state \<Rightarrow> setup_result" where
  "complete_setup h ev hdr r user isGuest keys prevID st =
     (let st' = admit_session h ev r user isGuest keys prevID st;
          sid = s_ID (sv_sess (su_sv st) r)
      in do {
        respBody \<leftarrow> EncodeSessionSetupResponse (session_flags h isGuest) (WrapNTLMResp SPNEGOAcceptCompleted []);
        full \<leftarrow> full_message (setup_header hdr StatusSuccess (if isGuest then FlagServerToRedir else FlagServerToRedir OR FlagSigned) sid) respBody;
        msg \<leftarrow> (case full of
                  Inl _ \<Rightarrow> Some (zeros HeaderSize @ respBody)
                | Inr m \<Rightarrow> Some m);
        msg \<leftarrow> (if isGuest then Some msg
               else SignMessage (se_crypto ev) (sel_SigningAlgo (nc_Selection (sh_Conn h))) (ky_Signing keys) msg);
        (case write_frame ev msg st' of
           None \<Rightarrow> Some (Inl SetupWriteFailed, st')
         | Some st'' \<Rightarrow> Some (Inr (Some r), st''))
      })"

definition current_keys :: "setup_state \<Rightarrow> sess_ref \<Rightarrow> session_keys" where
  "current_keys st r =
     (let s = sv_sess (su_sv st) r in
      \<lparr>ky_Signing = s_SigningKey s, ky_S2C = s_S2CCipherKey s, ky_C2S = s_C2SCipherKey s,
       ky_App = hk_ApplicationKey (su_hand st r)\<rparr>)"

definition authenticate_user ::
  "SessionSetupHandler \<Rightarrow> setup_env \<Rightarrow> header \<Rightarrow> bytes \<Rightarrow> sess_ref \<Rightarrow> UserConfig \<Rightarrow> AuthenticateMessage \<Rightarrow> u64 \<Rightarrow> setup_state \<Rightarrow> setup_result" where
  "authenticate_user h ev hdr type3 r user auth prevID st =
     (case VerifyNTLMv2 (se_ntlm ev) (u_NTHash user) (am_UserName auth) (am_DomainName auth)
             (hk_pendingChallenge (su_hand st r)) (am_NtResponse auth) of
        Inl e \<Rightarrow> failAuth ev hdr (ProofRejected e) st
      | Inr sbk \<Rightarrow>
          let sessionKey = exported_key auth sbk in
          (case verifyMIC ev (su_hand st r) auth type3 sessionKey of
             None \<Rightarrow> None
           | Some (Some e) \<Rightarrow> failAuth ev hdr e st
           | Some None \<Rightarrow>
               (case derive_keys (se_crypto ev) (nc_Selection (sh_Conn h)) (forkPreauth (hk_preauth (su_hand st r))) sessionKey
                       (current_keys st r) of
                  None \<Rightarrow> None
                | Some keys \<Rightarrow> complete_setup h ev hdr r user False keys prevID st)))"

text \<open>Folding the request into the session's preauthentication hash.\<close>

definition fold_request :: "SessionSetupHandler \<Rightarrow> setup_env \<Rightarrow> bytes \<Rightarrow> sess_ref \<Rightarrow> setup_state \<Rightarrow> setup_state" where
  "fold_request h ev requestFrame r st =
     (let p = (case hk_preauth (su_hand st r) of None \<Rightarrow> forkPreauth (Some (nc_Preauth (sh_Conn h))) | Some p \<Rightarrow> p);
          p' = (if sel_Dialect (nc_Selection (sh_Conn h)) = Dialect311 then Update (se_sha512 ev) p requestFrame else p)
      in set_hand r (\<lambda>k. k\<lparr>hk_preauth := Some p'\<rparr>) st)"

definition handleType3 :: "SessionSetupHandler \<Rightarrow> setup_env \<Rightarrow> header \<Rightarrow> bytes \<Rightarrow> bytes \<Rightarrow> u64 \<Rightarrow> setup_state \<Rightarrow> setup_result" where
  "handleType3 h ev hdr type3 requestFrame prevID st =
     (case st_Get (h_SessionID hdr) (sv_tables (su_sv st) (sh_Host h)) of
        None \<Rightarrow> Some (Inl (UnknownSession (h_SessionID hdr)), st)
      | Some r \<Rightarrow>
          (case DecodeAuthenticate type3 of
             None \<Rightarrow> None
           | Some (Inl e) \<Rightarrow> Some (Inl (BadAuthenticate e), st)
           | Some (Inr auth) \<Rightarrow>
               (case find_user h ev (am_UserName auth) of
                  Some user \<Rightarrow> authenticate_user h ev hdr type3 r user auth prevID (fold_request h ev requestFrame r st)
                | None \<Rightarrow>
                    if (am_UserName auth = [] \<or> se_equalFold ev (am_UserName auth) [0x47, 0x55, 0x45, 0x53, 0x54]) \<and> hasGuestShare h
                    then complete_setup h ev hdr r (guestSystemUser (se_nobody ev)) True (current_keys st r) prevID
                           (fold_request h ev requestFrame r st)
                    else failAuth ev hdr UnknownUser st)))"

definition HandleSessionSetup :: "SessionSetupHandler \<Rightarrow> setup_env \<Rightarrow> header \<Rightarrow> bytes \<Rightarrow> bytes \<Rightarrow> setup_state \<Rightarrow> setup_result" where
  "HandleSessionSetup h ev hdr body fullRequestFrame st =
     (case DecodeSessionSetupRequest body of
        None \<Rightarrow> None
      | Some (Inl e) \<Rightarrow> Some (Inl (BadSetupBody e), st)
      | Some (Inr req) \<Rightarrow>
          (case UnwrapNTLM (ssr_SecurityBuffer req) of
             Inl e \<Rightarrow> Some (Inl (NoNtlmMessage e), st)
           | Inr ntlmMsg \<Rightarrow>
               if length ntlmMsg < 12 then Some (Inl NtlmTooShort, st)
               else (case u32_at ntlmMsg 8 of
                  None \<Rightarrow> None
                | Some msgType \<Rightarrow>
                    if msgType = MessageTypeNegotiate then handleType1 h ev hdr ntlmMsg fullRequestFrame st
                    else if msgType = MessageTypeAuthenticate
                    then handleType3 h ev hdr ntlmMsg fullRequestFrame (ssr_PreviousSessionID req) st
                    else Some (Inl (UnexpectedNtlmType msgType), st))))"

section \<open>Who a session speaks for\<close>

text \<open>What the rest of the server trusts about a session: whether it is authenticated, as whom, and
  under which keys.\<close>

definition identity :: "Session \<Rightarrow> bool \<times> gostring \<times> gostring list \<times> bool \<times> bytes \<times> bytes \<times> bytes" where
  "identity s = (s_Authenticated s, s_UserName s, s_AllowShares s, s_IsGuest s, s_SigningKey s, s_S2CCipherKey s, s_C2SCipherKey s)"

abbreviation session_of :: "setup_state \<Rightarrow> sess_ref \<Rightarrow> Session" where
  "session_of st q \<equiv> sv_sess (su_sv st) q"

lemma release_on_sess [simp]: "sv_sess (release_on fstat host os sv) = sv_sess sv"
  by (simp add: release_on_def split: prod.splits)

lemma closeSession_identity [simp]: "identity (sv_sess (closeSession fstat host r sv) q) = identity (sv_sess sv q)"
  by (simp add: closeSession_def TakeAllOpens_def Let_def identity_def)

lemma supersede_identity [simp]:
  "identity (sv_sess (snd (supersede eq fstat prev r guid sv)) q) = identity (sv_sess sv q)"
  by (auto simp: supersede_def split: option.splits)

lemma idx_register_sess [simp]: "sv_sess (idx_register r host sv) = sv_sess sv"
  by (simp add: idx_register_def)

lemma write_frame_sv: "write_frame ev msg st = Some st' \<Longrightarrow> su_sv st' = su_sv st \<and> su_hand st' = su_hand st"
  by (auto simp: write_frame_def split: if_splits sum.splits)

lemma failAuth_result:
  "failAuth ev hdr cause st = Some (res, st') \<Longrightarrow> res = Inl cause \<and> su_sv st' = su_sv st \<and> su_hand st' = su_hand st"
  by (auto simp: failAuth_def dest: write_frame_sv split: option.splits sum.splits)

definition granted_identity :: "UserConfig \<Rightarrow> bool \<Rightarrow> session_keys \<Rightarrow> bool \<times> gostring \<times> gostring list \<times> bool \<times> bytes \<times> bytes \<times> bytes" where
  "granted_identity user isGuest keys =
     (True, u_Name user, u_AllowShares user, isGuest, ky_Signing keys, ky_S2C keys, ky_C2S keys)"

lemma admit_session_identity:
  "identity (session_of (admit_session h ev r user isGuest keys prevID st) q) =
    (if q = r then granted_identity user isGuest keys else identity (session_of st q))"
  by (simp add: admit_session_def Let_def set_session_def set_hand_def)
    (simp add: identity_def granted_identity_def)

lemma complete_setup_result:
  assumes "complete_setup h ev hdr r user isGuest keys prevID st = Some (res, st')"
  shows "su_sv st' = su_sv (admit_session h ev r user isGuest keys prevID st)"
    and "res = Inr (Some r) \<or> res = Inl SetupWriteFailed"
proof -
  let ?st = "admit_session h ev r user isGuest keys prevID st"
  obtain msg where msg: "(case write_frame ev msg ?st of None \<Rightarrow> Some (Inl SetupWriteFailed, ?st)
      | Some st'' \<Rightarrow> Some (Inr (Some r), st'')) = Some (res, st')"
    using assms unfolding complete_setup_def Let_def bind_eq_Some_conv by blast
  show "su_sv st' = su_sv ?st" "res = Inr (Some r) \<or> res = Inl SetupWriteFailed"
    using msg by (cases "write_frame ev msg ?st"; auto dest: write_frame_sv)+
qed

lemma fold_request_sv [simp]: "su_sv (fold_request h ev frame r st) = su_sv st"
  by (simp add: fold_request_def Let_def set_hand_def)

lemma fold_request_hand [simp]:
  "hk_pendingChallenge (su_hand (fold_request h ev frame r st) q) = hk_pendingChallenge (su_hand st q)"
  "hk_ntlmNegotiate (su_hand (fold_request h ev frame r st) q) = hk_ntlmNegotiate (su_hand st q)"
  "hk_ntlmChallenge (su_hand (fold_request h ev frame r st) q) = hk_ntlmChallenge (su_hand st q)"
  by (simp_all add: fold_request_def Let_def set_hand_def)

text \<open>The response to the server's challenge shows knowledge of the user's password hash, and if it
  asserts a message integrity code, that code covers the handshake as the server saw it.\<close>

definition proves_password :: "setup_env \<Rightarrow> UserConfig \<Rightarrow> AuthenticateMessage \<Rightarrow> bytes \<Rightarrow> bytes \<Rightarrow> bool" where
  "proves_password ev u auth chal sbk \<longleftrightarrow>
     (let owf = NTOWFv2 (se_ntlm ev) (u_NTHash u) (am_UserName auth) (am_DomainName auth) in
      \<exists>pr temp. am_NtResponse auth = pr @ temp \<and> length pr = 16 \<and> 8 \<le> length temp \<and>
        pr = nt_hmac_md5 (se_ntlm ev) owf (chal @ temp) \<and> sbk = fixed 16 (nt_hmac_md5 (se_ntlm ev) owf pr))"

definition mic_covers :: "setup_env \<Rightarrow> handshake \<Rightarrow> AuthenticateMessage \<Rightarrow> bytes \<Rightarrow> bytes \<Rightarrow> bool" where
  "mic_covers ev hk auth type3 key \<longleftrightarrow>
     (MICRequired (am_NtResponse auth) = Some False \<or>
      (\<exists>n. am_HasMIC auth \<and> AuthenticateLen type3 = Some n \<and> hk_ntlmNegotiate hk \<noteq> [] \<and> hk_ntlmChallenge hk \<noteq> [] \<and>
           am_MIC auth = ComputeMIC (se_ntlm ev) key (hk_ntlmNegotiate hk) (hk_ntlmChallenge hk) (take n type3)))"

lemma verifyMIC_ok: "verifyMIC ev hk auth type3 key = Some None \<longleftrightarrow> mic_covers ev hk auth type3 key"
proof -
  obtain req where req: "MICRequired (am_NtResponse auth) = Some req" using MICRequired_total by blast
  obtain n where n: "AuthenticateLen type3 = Some n" "n \<le> length type3"
    using authlen_loop_total [of type3 payload_fields 0] by (auto simp: AuthenticateLen_def)
  then show ?thesis
    by (auto simp: verifyMIC_def mic_covers_def req n go_slice_def VerifyMIC_def)
qed


lemma authenticate_user_cases:
  assumes "authenticate_user h ev hdr type3 r user auth prevID st = Some (res, st')"
  shows "(\<exists>sbk keys. proves_password ev user auth (hk_pendingChallenge (su_hand st r)) sbk \<and>
            mic_covers ev (su_hand st r) auth type3 (exported_key auth sbk) \<and>
            derive_keys (se_crypto ev) (nc_Selection (sh_Conn h)) (forkPreauth (hk_preauth (su_hand st r)))
              (exported_key auth sbk) (current_keys st r) = Some keys \<and>
            complete_setup h ev hdr r user False keys prevID st = Some (res, st'))
    \<or> (\<exists>e. res = Inl e \<and> e \<noteq> SetupWriteFailed \<and> su_sv st' = su_sv st)"
proof (cases "VerifyNTLMv2 (se_ntlm ev) (u_NTHash user) (am_UserName auth) (am_DomainName auth)
    (hk_pendingChallenge (su_hand st r)) (am_NtResponse auth)")
  case (Inl e)
  with assms show ?thesis by (auto simp: authenticate_user_def dest: failAuth_result)
next
  case (Inr sbk)
  then have proves: "proves_password ev user auth (hk_pendingChallenge (su_hand st r)) sbk"
    by (simp add: proves_password_def VerifyNTLMv2_iff)
  have causes: "e \<noteq> SetupWriteFailed" if "verifyMIC ev (su_hand st r) auth type3 k = Some (Some e)" for e k
    using that by (auto simp: verifyMIC_def bind_eq_Some_conv split: option.splits if_splits)
  from assms Inr proves show ?thesis
    by (auto simp: authenticate_user_def Let_def verifyMIC_ok dest: failAuth_result causes split: option.splits)
qed

section \<open>The first leg delivers the challenge\<close>

text \<open>How a client reads a SESSION\_SETUP response: the security buffer its header names.\<close>

definition response_token :: "bytes \<Rightarrow> (smb_err, bytes) decoded" where
  "response_token body = do {
     off \<leftarrow> u16_at body 4;
     len \<leftarrow> u16_at body 6;
     ok_then (body_slice body (unat off) (unat len)) (\<lambda>buf. Some (UnwrapNTLM buf))
   }"

lemma EncodeSessionSetupResponse_layout:
  assumes "buf \<noteq> []" "length buf < 2 ^ 16"
  obtains b where "EncodeSessionSetupResponse flags buf = Some b"
    and "response_token b = Some (UnwrapNTLM buf)" and "u16_at b 2 = Some flags" and "length b = 8 + length buf"
proof
  let ?b = "patch 8 buf (patch 6 (le16 (word_of_nat (length buf))) (patch 4 (le16 72) (patch 2 (le16 flags) (patch 0 [9] (zeros (8 + length buf))))))"
  show "EncodeSessionSetupResponse flags buf = Some ?b"
    using assms by (simp add: EncodeSessionSetupResponse_def go_panic)
  have len: "unat (word_of_nat (length buf) :: u16) = length buf"
    using assms(2) by (simp add: unat_of_nat take_bit_nat_eq_self)
  have "u16_at ?b 4 = Some 72" "u16_at ?b 6 = Some (word_of_nat (length buf))"
    by (simp_all add: go_panic byte_layout del: le_bytes.simps)
  moreover have "body_slice ?b 72 (length buf) = Some (Inr buf)"
    by (simp add: body_slice_Inr drop_patch_same)
  ultimately show "response_token ?b = Some (UnwrapNTLM buf)"
    by (simp add: response_token_def ok_then_def len)
  show "u16_at ?b 2 = Some flags" by (simp add: go_panic byte_layout)
  show "length ?b = 8 + length buf" by simp
qed

lemma ntlm_names: "length (UTF16LE (ascii ''GOSAMBA'')) = 14" "length (UTF16LE (ascii ''WORKGROUP'')) = 18"
  "length (UTF16LE (ascii ''gosamba'')) = 14" "length (UTF16LE (ascii ''workgroup'')) = 18"
  by code_simp+

lemma length_challenge_av: "length (EncodeAVList (challenge_pairs now)) = 96"
  by (simp add: EncodeAVList_eq challenge_pairs_def av_wire_def ntlm_names filetimeBytes_def)

lemma EncodeChallenge_layout:
  assumes "length chal = 8"
  obtains m where "EncodeChallenge (challenge_message chal now) = Some m"
    and "take 8 (drop 24 m) = chal" and "length m = 166" and "prefix ntlmsspMagic m"
proof
  let ?av = "EncodeAVList (challenge_pairs now)" and ?name = "UTF16LE (ascii ''GOSAMBA'')"
  let ?m = "patch 70 ?av (patch 56 ?name (patch 55 [15] (patch 50 (le16 22000) (patch 48 [10, 0] (patch 44 (le32 70)
    (patch 42 (le16 96) (patch 40 (le16 96) (patch 24 chal (patch 20 (le32 challenge_flags) (patch 16 (le32 56)
    (patch 14 (le16 14) (patch 12 (le16 14) (patch 8 (le32 2) (patch 0 Signature (zeros 166)))))))))))))))"
  have sig: "length Signature = 8" by (simp add: Signature_def)
  show "EncodeChallenge (challenge_message chal now) = Some ?m"
    using assms by (simp add: EncodeChallenge_def challenge_message_def put_at_def Let_def ntlm_names length_challenge_av sig)
  show "take 8 (drop 24 ?m) = chal"
    using assms by (simp add: byte_layout ntlm_names length_challenge_av)
  show "length ?m = 166" by simp
  have "take 8 ?m = take 8 (patch 0 Signature (zeros 166))"
    using assms by (simp add: take_drop_0_patch ntlm_names length_challenge_av)
  also have "\<dots> = Signature"
    by (rule patch_same [of 0 Signature "zeros 166" 8, unfolded drop_0]) (simp_all add: sig)
  finally show "prefix ntlmsspMagic ?m"
    by (metis Signature_def ntlmsspMagic_def take_is_prefix)
qed

lemma challenge_token:
  assumes "prefix ntlmsspMagic m" "length m = 166"
  shows "UnwrapNTLM (WrapNTLMResp SPNEGOAcceptIncomplete m) = Inr m"
    "length (WrapNTLMResp SPNEGOAcceptIncomplete m) < 2 ^ 16" "WrapNTLMResp SPNEGOAcceptIncomplete m \<noteq> []"
proof -
  have m: "m \<noteq> []" using assms(2) by auto
  let ?fs = "[(0xa0, wrapTLV 0x0a [spnego_state SPNEGOAcceptIncomplete]), (0xa1, ntlmsspOID)]"
  have resp: "WrapNTLMResp SPNEGOAcceptIncomplete m = neg_token_resp ?fs m []"
    using WrapNTLMResp_is_resp [OF m, of SPNEGOAcceptIncomplete] by simp
  have "fields_fit 40 ?fs m [] []"
    using assms(2) by (simp add: fields_fit_def der_ok_def der_enc_def wrapTLV_def ntlmsspOID_def)
  from UnwrapNTLM_token [OF neg_token_resp_read [OF this, of "[]"] assms(1)] resp
  show "UnwrapNTLM (WrapNTLMResp SPNEGOAcceptIncomplete m) = Inr m" by simp
  show "length (WrapNTLMResp SPNEGOAcceptIncomplete m) < 2 ^ 16" "WrapNTLMResp SPNEGOAcceptIncomplete m \<noteq> []"
    using assms(2) m by (simp_all add: WrapNTLMResp_def wrapTLV_def ntlmsspOID_def Let_def)
qed

section \<open>No panics\<close>

lemma full_message_ok:
  assumes "wf_header hh"
  obtains hb where "\<And>body. full_message hh body = Some (Inr (hb @ body))" "length hb = 64" "DecodeHeader hb = Some (Inr hh)"
proof -
  obtain hb where "EncodeHeader (zeros 64) hh = Some (Inr hb)" "DecodeHeader hb = Some (Inr hh)" "length hb = 64"
    using EncodeHeader_roundtrip [OF _ assms, of "zeros 64"] by auto
  then show ?thesis by (intro that [of hb]) (simp_all add: full_message_def ok_then_def)
qed

lemma wf_setup_header [simp]: "wf_header (setup_header hdr status flags sid)"
  by (simp add: wf_header_def setup_header_def)

lemma EncodeSessionSetupResponse_total: "\<exists>b. EncodeSessionSetupResponse flags buf = Some b \<and> length b = 8 + length buf"
  by (simp add: EncodeSessionSetupResponse_def go_panic)


lemma length_exported_key: "length sbk = 16 \<Longrightarrow> length (exported_key auth sbk) = 16"
  by (simp add: exported_key_def)

lemma derive_keys_total:
  assumes "length sessionKey = 16"
  obtains keys where "derive_keys cr sel preauth sessionKey old = Some keys" "length (ky_Signing keys) = 16"
proof -
  have "\<exists>keys. derive_keys cr sel preauth sessionKey old = Some keys \<and> length (ky_Signing keys) = 16"
    using assms by (simp add: derive_keys_def CipherKeyBits_def KDF_128 KDF_256 kdf_block_def)
  then show thesis using that by blast
qed

lemma complete_setup_ok:
  assumes "isGuest \<or> length (ky_Signing keys) = 16"
  obtains msg where "complete_setup h ev hdr r user isGuest keys prevID st =
      (case write_frame ev msg (admit_session h ev r user isGuest keys prevID st) of
         None \<Rightarrow> Some (Inl SetupWriteFailed, admit_session h ev r user isGuest keys prevID st)
       | Some st' \<Rightarrow> Some (Inr (Some r), st'))"
    and "length msg < 2 ^ 10"
    and "\<not> isGuest \<Longrightarrow> VerifyMessage (se_crypto ev) (sel_SigningAlgo (nc_Selection (sh_Conn h))) (ky_Signing keys) msg = Some (True, msg)"
proof -
  let ?algo = "sel_SigningAlgo (nc_Selection (sh_Conn h))"
  let ?hd = "setup_header hdr StatusSuccess (if isGuest then FlagServerToRedir else FlagServerToRedir OR FlagSigned) (s_ID (sv_sess (su_sv st) r))"
  obtain b where b: "EncodeSessionSetupResponse (session_flags h isGuest) (WrapNTLMResp SPNEGOAcceptCompleted []) = Some b"
    and lb: "length b = 8 + length (WrapNTLMResp SPNEGOAcceptCompleted [])"
    using EncodeSessionSetupResponse_total by blast
  obtain hb where hb: "\<And>body. full_message ?hd body = Some (Inr (hb @ body))" "length hb = 64"
    using full_message_ok [OF wf_setup_header] by blast
  have small: "length (hb @ b) < 2 ^ 10" "64 \<le> length (hb @ b)"
    using hb(2) lb by (simp_all add: WrapNTLMResp_def wrapTLV_def ntlmsspOID_def Let_def)
  show thesis
  proof (cases isGuest)
    case True
    then show thesis using b hb small by (intro that [of "hb @ b"]) (simp_all add: complete_setup_def Let_def split: option.split)
  next
    case False
    then obtain m where m: "SignMessage (se_crypto ev) ?algo (ky_Signing keys) (hb @ b) = Some m"
      using assms small(2) computeMAC_total [of "flagged (hb @ b)" ?algo "ky_Signing keys" "se_crypto ev"]
      by (auto simp: SignMessage_eq)
    have "length m < 2 ^ 10" using SignMessage_cases [OF small(2) m] small by fastforce
    with False m b hb SignMessage_verifies [OF small(2) m] show thesis
      by (intro that [of m]) (simp_all add: complete_setup_def Let_def split: option.split)
  qed
qed

lemma write_frame_ok:
  assumes "se_writable ev" "length msg < 2 ^ 10"
  shows "write_frame ev msg st = Some (st\<lparr>su_out := su_out st @ frame_header (length msg) @ msg\<rparr>)"
  using assms by (simp add: write_frame_def WriteFrame_eq)

section \<open>What a handler's answer means\<close>

text \<open>The request reaches the second leg with this NTLM message.\<close>

definition presents :: "bytes \<Rightarrow> bytes \<Rightarrow> session_setup_request \<Rightarrow> AuthenticateMessage \<Rightarrow> bool" where
  "presents body type3 req auth \<longleftrightarrow>
     DecodeSessionSetupRequest body = Some (Inr req) \<and> UnwrapNTLM (ssr_SecurityBuffer req) = Inr type3 \<and>
     DecodeAuthenticate type3 = Some (Inr auth)"

lemma DecodeAuthenticate_type:
  assumes "DecodeAuthenticate b = Some (Inr auth)"
  shows "12 \<le> length b" "u32_at b 8 = Some MessageTypeAuthenticate"
  using assms by (auto simp: DecodeAuthenticate_def bind_eq_Some_conv split: if_splits)

lemma presents_second_leg:
  assumes "presents body type3 req auth"
  shows "HandleSessionSetup h ev hdr body frame st = handleType3 h ev hdr type3 frame (ssr_PreviousSessionID req) st"
  using assms DecodeAuthenticate_type [of type3 auth]
  by (simp add: presents_def HandleSessionSetup_def)

lemma handleType3_entry:
  assumes "handleType3 h ev hdr m frame prevID st = Some (res, st')"
  obtains r auth where "st_Get (h_SessionID hdr) (sv_tables (su_sv st) (sh_Host h)) = Some r" "DecodeAuthenticate m = Some (Inr auth)"
    | e where "res = Inl e" "e \<noteq> SetupWriteFailed" "st' = st"
proof (cases "st_Get (h_SessionID hdr) (sv_tables (su_sv st) (sh_Host h))")
  case None
  with assms show thesis by (intro that(2) [of "UnknownSession (h_SessionID hdr)"]) (simp_all add: handleType3_def)
next
  case (Some r)
  with assms that show thesis
    by (cases "DecodeAuthenticate m"; cases "the (DecodeAuthenticate m)") (auto simp: handleType3_def)
qed

text \<open>Every outcome of a request: a first leg, a second leg, or a rejection that changes nothing.\<close>

lemma HandleSessionSetup_cases:
  assumes "HandleSessionSetup h ev hdr body frame st = Some (res, st')"
  obtains (refused) e where "res = Inl e" "e \<noteq> SetupWriteFailed" "su_sv st' = su_sv st"
    | (first) type1 where "handleType1 h ev hdr type1 frame st = Some (res, st')"
    | (second) type3 req auth r where "presents body type3 req auth"
        "st_Get (h_SessionID hdr) (sv_tables (su_sv st) (sh_Host h)) = Some r"
        "handleType3 h ev hdr type3 frame (ssr_PreviousSessionID req) st = Some (res, st')"
proof -
  consider (ok) req where "DecodeSessionSetupRequest body = Some (Inr req)" | (bad) e where "res = Inl (BadSetupBody e)" "st' = st"
    using assms by (auto simp: HandleSessionSetup_def split: option.splits sum.splits)
  then show thesis
  proof cases
    case (ok req)
    show thesis
    proof (cases "UnwrapNTLM (ssr_SecurityBuffer req)")
      case (Inl e)
      with assms ok show thesis by (intro refused [of "NoNtlmMessage e"]) (simp_all add: HandleSessionSetup_def)
    next
      case (Inr m)
      have step: "(if length m < 12 then Some (Inl NtlmTooShort, st)
          else case u32_at m 8 of None \<Rightarrow> None
          | Some t \<Rightarrow> if t = MessageTypeNegotiate then handleType1 h ev hdr m frame st
              else if t = MessageTypeAuthenticate then handleType3 h ev hdr m frame (ssr_PreviousSessionID req) st
              else Some (Inl (UnexpectedNtlmType t), st)) = Some (res, st')"
        using assms ok Inr by (simp only: HandleSessionSetup_def option.case sum.case)
      show thesis
      proof (cases "length m < 12")
        case True
        with step show thesis by (intro refused [of NtlmTooShort]) simp_all
      next
        case False
        with step obtain t where t: "u32_at m 8 = Some t" by (auto split: option.splits)
        consider "t = MessageTypeNegotiate" | "t = MessageTypeAuthenticate" | "t \<noteq> MessageTypeNegotiate" "t \<noteq> MessageTypeAuthenticate"
          by blast
        then show thesis
        proof cases
          case 1
          with step False t show thesis by (intro first) simp
        next
          case 2
          with step False t have run: "handleType3 h ev hdr m frame (ssr_PreviousSessionID req) st = Some (res, st')" by simp
          then show thesis
            by (rule handleType3_entry) (use that(1) that(3) [of m req] ok Inr run in \<open>auto simp: presents_def\<close>)
        next
          case 3
          with step False t show thesis by (intro refused [of "UnexpectedNtlmType t"]) simp_all
        qed
      qed
    qed
  qed (use refused in auto)
qed

lemma send_challenge_sv:
  assumes "send_challenge h ev hdr type1 frame r i chal st = Some (res, st')"
  shows "su_sv st' = su_sv st"
proof -
  define st2 where "st2 type2 = set_hand r (\<lambda>k. k\<lparr>hk_pendingChallenge := chal, hk_ntlmNegotiate := type1, hk_ntlmChallenge := type2\<rparr>) st"
    for type2
  have sv: "su_sv (set_hand r f (st2 t)) = su_sv st" "su_sv (st2 t) = su_sv st" for f t
    by (simp_all add: st2_def set_hand_def)
  from assms show ?thesis
    unfolding send_challenge_def bind_eq_Some_conv Let_def st2_def [symmetric]
    by (elim exE conjE, split sum.split_asm) (auto simp: sv dest!: write_frame_sv split: option.split_asm)
qed

lemma handleType1_unauthenticated:
  assumes "handleType1 h ev hdr type1 frame st = Some (res, st')"
  shows "sv_sess (su_sv st') q = sv_sess (su_sv st) q \<or> \<not> s_Authenticated (session_of st' q)"
proof -
  obtain o1 ctr' t' where new: "NewHalfOpen (su_fresh st) (su_ctr st) (sv_tables (su_sv st) (sh_Host h)) = (o1, ctr', t')"
    by (metis prod_cases3)
  show ?thesis
  proof (cases o1)
    case None
    with assms new show ?thesis by (simp add: handleType1_def)
  next
    case (Some i)
    with assms new have "su_sv st' = su_sv (open_half h i ctr' t' st)"
      by (auto simp: handleType1_def Let_def dest: send_challenge_sv split: option.splits)
    then show ?thesis by (auto simp: open_half_def new_session_def Let_def)
  qed
qed

lemma current_keys_fold_request [simp]: "current_keys (fold_request h ev frame r st) q = current_keys st q"
  by (simp add: current_keys_def Let_def) (simp add: fold_request_def Let_def set_hand_def)

text \<open>The hash of the handshake so far, with the request folded in where the dialect hashes it.\<close>

definition preauth_after :: "SessionSetupHandler \<Rightarrow> setup_env \<Rightarrow> bytes \<Rightarrow> handshake \<Rightarrow> bytes" where
  "preauth_after h ev frame hk =
     (let p = (case hk_preauth hk of None \<Rightarrow> nc_Preauth (sh_Conn h) | Some p \<Rightarrow> p) in
      if sel_Dialect (nc_Selection (sh_Conn h)) = Dialect311 then Update (se_sha512 ev) p frame else p)"

lemma fold_request_preauth:
  "forkPreauth (hk_preauth (su_hand (fold_request h ev frame r st) r)) = preauth_after h ev frame (su_hand st r)"
  by (simp add: fold_request_def preauth_after_def Let_def set_hand_def forkPreauth_def split: option.split)

text \<open>The keys a session gets once its user has answered the challenge.\<close>

definition keys_for :: "SessionSetupHandler \<Rightarrow> setup_env \<Rightarrow> bytes \<Rightarrow> setup_state \<Rightarrow> sess_ref \<Rightarrow> AuthenticateMessage \<Rightarrow> bytes \<Rightarrow> session_keys \<Rightarrow> bool" where
  "keys_for h ev frame st r auth sbk keys \<longleftrightarrow>
     derive_keys (se_crypto ev) (nc_Selection (sh_Conn h)) (preauth_after h ev frame (su_hand st r))
       (exported_key auth sbk) (current_keys st r) = Some keys"

definition earns :: "SessionSetupHandler \<Rightarrow> setup_env \<Rightarrow> bytes \<Rightarrow> setup_state \<Rightarrow> sess_ref \<Rightarrow> bytes \<Rightarrow> AuthenticateMessage \<Rightarrow> UserConfig \<Rightarrow> bytes \<Rightarrow> bool" where
  "earns h ev frame st r type3 auth u sbk \<longleftrightarrow>
     find_user h ev (am_UserName auth) = Some u \<and>
     proves_password ev u auth (hk_pendingChallenge (su_hand st r)) sbk \<and>
     mic_covers ev (su_hand st r) auth type3 (exported_key auth sbk)"

definition asks_for_guest :: "SessionSetupHandler \<Rightarrow> setup_env \<Rightarrow> AuthenticateMessage \<Rightarrow> bool" where
  "asks_for_guest h ev auth \<longleftrightarrow>
     find_user h ev (am_UserName auth) = None \<and> hasGuestShare h \<and>
     (am_UserName auth = [] \<or> se_equalFold ev (am_UserName auth) [0x47, 0x55, 0x45, 0x53, 0x54])"

lemma handleType3_cases:
  assumes run: "handleType3 h ev hdr type3 frame prevID st = Some (res, st')"
    and r: "st_Get (h_SessionID hdr) (sv_tables (su_sv st) (sh_Host h)) = Some r"
    and auth: "DecodeAuthenticate type3 = Some (Inr auth)"
  obtains (user) u sbk keys where "earns h ev frame st r type3 auth u sbk" "keys_for h ev frame st r auth sbk keys"
      "complete_setup h ev hdr r u False keys prevID (fold_request h ev frame r st) = Some (res, st')"
    | (guest) "asks_for_guest h ev auth"
      "complete_setup h ev hdr r (guestSystemUser (se_nobody ev)) True (current_keys st r) prevID (fold_request h ev frame r st) = Some (res, st')"
    | (refused) e where "res = Inl e" "e \<noteq> SetupWriteFailed" "su_sv st' = su_sv st"
proof (cases "find_user h ev (am_UserName auth)")
  case None
  with run r auth that(2,3) show thesis
    by (auto simp: handleType3_def asks_for_guest_def dest!: failAuth_result split: if_splits)
next
  case (Some u)
  with run r auth have "authenticate_user h ev hdr type3 r u auth prevID (fold_request h ev frame r st) = Some (res, st')"
    by (simp add: handleType3_def)
  from authenticate_user_cases [OF this] show thesis
    using Some that(1,3)
    by (auto simp: earns_def keys_for_def fold_request_preauth mic_covers_def)
qed

section \<open>The properties\<close>

text \<open>C2: A session's identity is earned. Whenever a SESSION\_SETUP request leaves a session
  authenticated with another identity (name, share list, guest flag or keys) than it had, that session
  is the one the request names, and either the request answered the challenge this server issued for
  it with the password hash of a configured user - and carried a valid message integrity code if it
  claimed one - and the session now speaks for that user under the keys derived from that proof, or
  no such user is configured, the client asked for the anonymous or guest account, a share admits
  guests, and the session is a guest.\<close>

theorem identity_is_earned:
  assumes "HandleSessionSetup h ev hdr body frame st = Some (res, st')"
    and "identity (session_of st' q) \<noteq> identity (session_of st q)" and "s_Authenticated (session_of st' q)"
  shows "st_Get (h_SessionID hdr) (sv_tables (su_sv st) (sh_Host h)) = Some q \<and>
    (\<exists>type3 req auth. presents body type3 req auth \<and>
      ((\<exists>u sbk keys. earns h ev frame st q type3 auth u sbk \<and> keys_for h ev frame st q auth sbk keys \<and>
          identity (session_of st' q) = granted_identity u False keys) \<or>
       (asks_for_guest h ev auth \<and>
          identity (session_of st' q) = granted_identity (guestSystemUser (se_nobody ev)) True (current_keys st q))))"
  using assms(1)
proof (cases rule: HandleSessionSetup_cases)
  case refused
  with assms(2) show ?thesis by simp
next
  case first
  with assms(2,3) handleType1_unauthenticated [of h ev hdr _ frame st res st' q] show ?thesis by auto
next
  case (second type3 req auth r)
  then have auth: "DecodeAuthenticate type3 = Some (Inr auth)" by (simp add: presents_def)
  from second(3,2) auth show ?thesis
  proof (cases rule: handleType3_cases)
    case (user u sbk keys)
    have st': "identity (session_of st' q) = (if q = r then granted_identity u False keys else identity (session_of st q))"
      by (simp add: complete_setup_result(1) [OF user(3)] admit_session_identity)
    with assms(2) have "q = r" by (metis (full_types))
    moreover have "identity (session_of st' r) = granted_identity u False keys" using st' \<open>q = r\<close> by simp
    ultimately show ?thesis using user(1,2) second(1,2) by (simp only:) blast
  next
    case guest
    have st': "identity (session_of st' q) = (if q = r then granted_identity (guestSystemUser (se_nobody ev)) True (current_keys st r)
        else identity (session_of st q))"
      by (simp add: complete_setup_result(1) [OF guest(2)] admit_session_identity)
    with assms(2) have "q = r" by (metis (full_types))
    moreover have "identity (session_of st' r) = granted_identity (guestSystemUser (se_nobody ev)) True (current_keys st r)"
      using st' \<open>q = r\<close> by simp
    ultimately show ?thesis using guest(1) second(1,2) by (simp only:) blast
  next
    case refused
    with assms(2) show ?thesis by simp
  qed
qed

lemma proves_password_iff:
  "VerifyNTLMv2 (se_ntlm ev) (u_NTHash u) (am_UserName auth) (am_DomainName auth) chal (am_NtResponse auth) = Inr sbk
    \<longleftrightarrow> proves_password ev u auth chal sbk"
  by (simp add: proves_password_def VerifyNTLMv2_iff Let_def)

lemma mic_covers_fold_request [simp]:
  "mic_covers ev (su_hand (fold_request h ev frame r st) q) auth type3 key = mic_covers ev (su_hand st q) auth type3 key"
  by (simp add: mic_covers_def)


lemma proves_password_length: "proves_password ev u auth chal sbk \<Longrightarrow> length sbk = 16"
  by (auto simp: proves_password_def Let_def)

lemma second_leg_run:
  assumes "presents body type3 req auth" "st_Get (h_SessionID hdr) (sv_tables (su_sv st) (sh_Host h)) = Some r"
    and "find_user h ev (am_UserName auth) = Some u"
  shows "HandleSessionSetup h ev hdr body frame st =
    authenticate_user h ev hdr type3 r u auth (ssr_PreviousSessionID req) (fold_request h ev frame r st)"
  using assms by (simp add: presents_second_leg [OF assms(1)]) (simp add: handleType3_def presents_def)

text \<open>What the client is told once its session is admitted, and what the session has become.\<close>

definition accepted_as :: "SessionSetupHandler \<Rightarrow> setup_env \<Rightarrow> sess_ref \<Rightarrow> UserConfig \<Rightarrow> session_keys \<Rightarrow> setup_state \<Rightarrow> setup_state \<Rightarrow> bool" where
  "accepted_as h ev r u keys st st' \<longleftrightarrow>
     identity (session_of st' r) = granted_identity u False keys \<and>
     (\<exists>msg. su_out st' = su_out st @ frame_header (length msg) @ msg \<and>
       VerifyMessage (se_crypto ev) (sel_SigningAlgo (nc_Selection (sh_Conn h))) (ky_Signing keys) msg = Some (True, msg))"

lemma second_leg_accepts:
  assumes req: "presents body type3 req auth"
    and r: "st_Get (h_SessionID hdr) (sv_tables (su_sv st) (sh_Host h)) = Some r"
    and w: "se_writable ev" and e: "earns h ev frame st r type3 auth u sbk"
  shows "\<exists>keys st'. keys_for h ev frame st r auth sbk keys \<and>
      HandleSessionSetup h ev hdr body frame st = Some (Inr (Some r), st') \<and> accepted_as h ev r u keys st st'"
proof -
  let ?f = "fold_request h ev frame r st"
  have p: "proves_password ev u auth (hk_pendingChallenge (su_hand ?f r)) sbk"
    and m: "mic_covers ev (su_hand ?f r) auth type3 (exported_key auth sbk)"
    and u: "find_user h ev (am_UserName auth) = Some u"
    using e by (simp_all add: earns_def)
  obtain keys where k: "derive_keys (se_crypto ev) (nc_Selection (sh_Conn h)) (forkPreauth (hk_preauth (su_hand ?f r)))
      (exported_key auth sbk) (current_keys ?f r) = Some keys" "length (ky_Signing keys) = 16"
    using derive_keys_total [OF length_exported_key [OF proves_password_length [OF p]]] by blast
  let ?a = "admit_session h ev r u False keys (ssr_PreviousSessionID req) ?f"
  have run: "HandleSessionSetup h ev hdr body frame st = complete_setup h ev hdr r u False keys (ssr_PreviousSessionID req) ?f"
    using second_leg_run [OF req r u] p [folded proves_password_iff] m k(1)
    by (simp add: authenticate_user_def verifyMIC_ok [symmetric])
  obtain msg where msg: "complete_setup h ev hdr r u False keys (ssr_PreviousSessionID req) ?f =
      (case write_frame ev msg ?a of None \<Rightarrow> Some (Inl SetupWriteFailed, ?a) | Some st' \<Rightarrow> Some (Inr (Some r), st'))"
    "length msg < 2 ^ 10"
    "VerifyMessage (se_crypto ev) (sel_SigningAlgo (nc_Selection (sh_Conn h))) (ky_Signing keys) msg = Some (True, msg)"
    using complete_setup_ok [of False keys h ev hdr r u "ssr_PreviousSessionID req" ?f] k(2) by auto
  have out: "su_out ?a = su_out st"
    by (simp add: admit_session_def Let_def set_session_def set_hand_def fold_request_def)
  show ?thesis
    using k(1) run msg write_frame_ok [OF w msg(2)]
    by (auto simp: keys_for_def accepted_as_def fold_request_preauth admit_session_identity out)
qed


text \<open>The first leg issues the challenge it will hold the client to. A well-formed opening request
  on a connection with room for another half-open session succeeds: the reply framed for the client
  names a session identifier under which the table finds the fresh, unauthenticated session, and
  carries an NTLM challenge message whose challenge is the eight random bytes the session remembers,
  beside the two handshake messages the integrity code will cover.\<close>

theorem first_leg_issues_challenge:
  assumes req: "DecodeSessionSetupRequest body = Some (Inr req)" "UnwrapNTLM (ssr_SecurityBuffer req) = Inr type1"
    and ty: "12 \<le> length type1" "u32_at type1 8 = Some MessageTypeNegotiate"
    and room: "length (st_halfOpen (sv_tables (su_sv st) (sh_Host h))) < maxHalfOpenSessions"
    and chal: "se_rand ev = Some chal" "length chal = 8" and w: "se_writable ev"
  shows "\<exists>i hb rbody type2 st'. HandleSessionSetup h ev hdr body frame st = Some (Inr None, st') \<and>
    su_out st' = su_out st @ frame_header (length (hb @ rbody)) @ hb @ rbody \<and>
    DecodeHeader hb = Some (Inr (setup_header hdr StatusMoreProcessingReq FlagServerToRedir i)) \<and>
    response_token rbody = Some (Inr type2) \<and> take 8 (drop 24 type2) = chal \<and>
    st_Get i (sv_tables (su_sv st') (sh_Host h)) = Some (su_fresh st) \<and>
    \<not> s_Authenticated (session_of st' (su_fresh st)) \<and>
    hk_pendingChallenge (su_hand st' (su_fresh st)) = chal \<and>
    hk_ntlmNegotiate (su_hand st' (su_fresh st)) = type1 \<and> hk_ntlmChallenge (su_hand st' (su_fresh st)) = type2"
proof -
  obtain i ctr' t' where new: "NewHalfOpen (su_fresh st) (su_ctr st) (sv_tables (su_sv st) (sh_Host h)) = (Some i, ctr', t')"
    and get: "st_Get i t' = Some (su_fresh st)"
    using room by (cases "allocSessionID (su_ctr st)") (auto simp: NewHalfOpen_def st_Get_def map_of_put)
  obtain type2 where t2: "EncodeChallenge (challenge_message chal (se_now ev)) = Some type2" "take 8 (drop 24 type2) = chal"
    "length type2 = 166" "prefix ntlmsspMagic type2"
    by (rule EncodeChallenge_layout [OF chal(2)])
  note tok = challenge_token [OF t2(4,3)]
  obtain b where b: "EncodeSessionSetupResponse 0 (WrapNTLMResp SPNEGOAcceptIncomplete type2) = Some b"
    "response_token b = Some (Inr type2)" "length b = 8 + length (WrapNTLMResp SPNEGOAcceptIncomplete type2)"
    using EncodeSessionSetupResponse_layout [OF tok(3,2), of 0] tok(1) by metis
  obtain hb where hb: "\<And>body. full_message (setup_header hdr StatusMoreProcessingReq FlagServerToRedir i) body = Some (Inr (hb @ body))"
    "length hb = 64" "DecodeHeader hb = Some (Inr (setup_header hdr StatusMoreProcessingReq FlagServerToRedir i))"
    using full_message_ok [OF wf_setup_header] by blast
  have small: "length (hb @ b) < 2 ^ 10"
    using hb(2) b(3) t2(3) by (simp add: WrapNTLMResp_def wrapTLV_def ntlmsspOID_def Let_def)
  have run: "HandleSessionSetup h ev hdr body frame st = send_challenge h ev hdr type1 frame (su_fresh st) i chal (open_half h i ctr' t' st)"
    using req ty new chal(1) by (simp add: HandleSessionSetup_def handleType1_def Let_def)
  show ?thesis
    unfolding run send_challenge_def
    by (simp only: t2(1) b(1) hb(1) Option.bind.bind_lunit Let_def sum.case write_frame_ok [OF w small] option.case)
      (use get t2(2) b(2) hb(3) in \<open>auto simp: set_hand_def open_half_def Let_def new_session_def\<close>)
qed

section \<open>A run\<close>

definition wuser :: UserConfig where
  "wuser = \<lparr>u_Name = [0x4E], u_NTHash = zeros 16, u_SystemUser = [0x75], u_SystemUID = 1000, u_SystemGID = 1000, u_AllowShares = [[0x2A]]\<rparr>"

definition whandler :: SessionSetupHandler where
  "whandler = \<lparr>sh_Conn = \<lparr>nc_ClientGuid = zeros 16, nc_ServerGuid = zeros 16,
      nc_Selection = \<lparr>sel_Dialect = Dialect311, sel_Cipher = 2, sel_Hash = 1, sel_SigningAlgo = 1\<rparr>, nc_Preauth = zeros 64,
      nc_NegotiateRequestMsg = [], nc_NegotiateResponseMsg = [], nc_MaxIOSize = 0x800000, nc_NegotiatedCapabilities = 0,
      nc_NegotiatedSecurityMode = 1\<rparr>,
     sh_Host = 0, sh_Users = [wuser], sh_Shares = [], sh_RequireEncryption = False\<rparr>"

definition wsetup_env :: setup_env where
  "wsetup_env = \<lparr>se_ntlm = \<lparr>nt_hmac_md5 = (\<lambda>k m. fixed 16 m), nt_toUpper = (\<lambda>s. s)\<rparr>,
     se_crypto = \<lparr>cr_aes = (\<lambda>k b. fixed 16 b), cr_hmac = (\<lambda>k m. fixed 32 m), cr_gcm_seal = (\<lambda>k n p a. p @ zeros 16), cr_gcm_open = (\<lambda>k n c a. None)\<rparr>,
     se_sha512 = (\<lambda>m. fixed 64 m), se_rand = Some [0, 0, 0, 0, 1, 2, 3, 4], se_now = (0, 0), se_nobody = None,
     se_equalFold = (=), se_fstat = (\<lambda>_. Inl 0), se_writable = True\<rparr>"

definition wsetup_state :: setup_state where
  "wsetup_state = \<lparr>su_sv = \<lparr>sv_sess = (\<lambda>_. new_session 7), sv_tables = (\<lambda>_. \<lparr>st_byID = [(7, 0)], st_halfOpen = [7]\<rparr>), sv_guid = (\<lambda>_. []),
       sv_index = [], sv_handles = \<lparr>hs_opens = (\<lambda>_. undefined), hs_locks = newLockTable, hs_shares = newShareModeTable, hs_closed = []\<rparr>,
       sv_durable = None, sv_resume = (\<lambda>_. newResumeKeyTable), sv_async = (\<lambda>_. newAsyncTable)\<rparr>,
     su_hand = (\<lambda>_. new_handshake\<lparr>hk_pendingChallenge := [0, 0, 0, 0, 1, 2, 3, 4]\<rparr>), su_ctr = 7, su_fresh = 1, su_out = []\<rparr>"

text \<open>The client's messages: the opening one, and the answer to the challenge above.\<close>

definition wtype1 :: bytes where
  "wtype1 = Signature @ [1, 0, 0, 0]"

definition wproof :: bytes where
  "wproof = [0, 0, 0, 0, 1, 2, 3, 4, 0, 0, 0, 0, 0, 0, 0, 0]"

definition wtype3 :: bytes where
  "wtype3 = [0x4E, 0x54, 0x4C, 0x4D, 0x53, 0x53, 0x50, 0, 3, 0, 0, 0, 0, 0, 0, 0, 64, 0, 0, 0, 24, 0, 24, 0, 60, 0, 0, 0,
     0, 0, 0, 0, 64, 0, 0, 0, 1, 0, 1, 0, 0, 0, 0, 0, 0, 0, 0, 0, 64, 0, 0, 0, 0, 0, 0, 0, 64, 0, 0, 0,
     0, 0, 0, 0, 1, 2, 3, 4, 0, 0, 0, 0, 0, 0, 0, 0, 0, 0, 0, 0, 0, 0, 0, 0]"

definition wauth :: AuthenticateMessage where
  "wauth = \<lparr>am_LmResponse = [], am_NtResponse = wproof @ zeros 8, am_DomainName = [], am_UserName = [0x4E], am_Workstation = [],
     am_EncryptedRandomSessionKey = [], am_Flags = 0, am_MIC = zeros 16, am_HasMIC = False\<rparr>"

definition wsetup_request :: "bytes \<Rightarrow> session_setup_request" where
  "wsetup_request token = \<lparr>ssr_Flags = 0, ssr_SecurityMode = 1, ssr_Capabilities = 0, ssr_Channel = 0,
     ssr_PreviousSessionID = 0, ssr_SecurityBuffer = token\<rparr>"

definition wsetup_body :: "bytes \<Rightarrow> bytes" where
  "wsetup_body token = [25, 0, 0, 1, 0, 0, 0, 0, 0, 0, 0, 0, 88, 0, word_of_nat (length token), 0, 0, 0, 0, 0, 0, 0, 0, 0] @ token"

definition wsetup_header :: header where
  "wsetup_header = \<lparr>h_CreditCharge = 1, h_Status = 0, h_Command = CommandSessionSetup, h_CreditResponse = 1, h_Flags = 0,
     h_NextCommand = 0, h_MessageID = 2, h_TreeID = 0, h_SessionID = 7, h_Signature = zeros 16\<rparr>"

lemma UnwrapNTLM_raw: "UnwrapNTLM (Signature @ rest) = Inr (Signature @ rest)"
proof -
  have "spnegoInnerToken (Signature @ rest) = None"
    by (auto simp: spnegoInnerToken_def derTLV_def Signature_def Let_def split: option.splits if_splits)
  then show ?thesis by (simp add: UnwrapNTLM_def Let_def Signature_def ntlmsspMagic_def)
qed

lemma wpresents: "presents (wsetup_body wtype3) wtype3 (wsetup_request wtype3) wauth"
proof -
  have "wtype3 = Signature @ drop 8 wtype3" by (simp add: wtype3_def Signature_def)
  then have "UnwrapNTLM wtype3 = Inr wtype3" by (metis UnwrapNTLM_raw)
  moreover have "DecodeSessionSetupRequest (wsetup_body wtype3) = Some (Inr (wsetup_request wtype3))" by code_simp
  moreover have "DecodeAuthenticate wtype3 = Some (Inr wauth)" by code_simp
  ultimately show ?thesis by (simp add: presents_def wsetup_request_def)
qed

lemma wst_Get: "st_Get (h_SessionID wsetup_header) (sv_tables (su_sv wsetup_state) (sh_Host whandler)) = Some 0"
  by (simp add: st_Get_def wsetup_header_def wsetup_state_def)

lemma wfind_user: "find_user whandler wsetup_env (am_UserName wauth) = Some wuser"
  by (simp add: find_user_def whandler_def wsetup_env_def wuser_def wauth_def)

lemma wMICRequired: "MICRequired (am_NtResponse wauth) = Some False"
  by code_simp

lemma wearns: "earns whandler wsetup_env [] wsetup_state 0 wtype3 wauth wuser wproof"
proof -
  have hmac: "wproof = nt_hmac_md5 (se_ntlm wsetup_env) owf ([0, 0, 0, 0, 1, 2, 3, 4] @ zeros 8)"
    "wproof = fixed 16 (nt_hmac_md5 (se_ntlm wsetup_env) owf wproof)" for owf
    by (simp_all add: wsetup_env_def wproof_def fixed_def numeral_eq_Suc)
  have len: "length wproof = 16" by (simp add: wproof_def)
  have "proves_password wsetup_env wuser wauth [0, 0, 0, 0, 1, 2, 3, 4] wproof"
    unfolding proves_password_def Let_def
    by (rule exI [of _ wproof], rule exI [of _ "zeros 8"]) (use len hmac in \<open>auto simp: wauth_def\<close>)
  then show ?thesis
    by (simp add: earns_def wfind_user mic_covers_def wMICRequired) (simp add: wsetup_state_def)
qed

lemma wrun:
  obtains keys st' where "HandleSessionSetup whandler wsetup_env wsetup_header (wsetup_body wtype3) [] wsetup_state = Some (Inr (Some 0), st')"
    and "accepted_as whandler wsetup_env 0 wuser keys wsetup_state st'"
proof -
  have "se_writable wsetup_env" by (simp add: wsetup_env_def)
  from second_leg_accepts [OF wpresents wst_Get this wearns] that show thesis by blast
qed

theorem identity_is_earned_witness:
  "\<exists>st' type3 req auth. HandleSessionSetup whandler wsetup_env wsetup_header (wsetup_body wtype3) [] wsetup_state = Some (Inr (Some 0), st') \<and>
     identity (session_of st' 0) \<noteq> identity (session_of wsetup_state 0) \<and> s_Authenticated (session_of st' 0) \<and>
     presents (wsetup_body wtype3) type3 req auth \<and>
     (\<exists>u sbk. earns whandler wsetup_env [] wsetup_state 0 type3 auth u sbk)"
proof -
  obtain keys st' where run: "HandleSessionSetup whandler wsetup_env wsetup_header (wsetup_body wtype3) [] wsetup_state = Some (Inr (Some 0), st')"
    and acc: "accepted_as whandler wsetup_env 0 wuser keys wsetup_state st'" by (rule wrun)
  from acc have st': "identity (session_of st' 0) = granted_identity wuser False keys" by (simp add: accepted_as_def)
  then have auth: "s_Authenticated (session_of st' 0)" by (simp add: identity_def granted_identity_def)
  then have changed: "identity (session_of st' 0) \<noteq> identity (session_of wsetup_state 0)"
    by (simp add: identity_def wsetup_state_def new_session_def)
  have "\<not> asks_for_guest whandler wsetup_env a" for a by (simp add: asks_for_guest_def hasGuestShare_def whandler_def)
  with identity_is_earned [OF run changed auth] run changed auth show ?thesis by blast
qed


end
