(* ===== verification/Dir_Records.thy ===== *)
theory Dir_Records
  imports Compound Access_Mask Vfs_Path File_Io
begin

text \<open>
  Directory records (\<^verbatim>\<open>encodeDirEntriesLimited\<close> and its helpers in \<^verbatim>\<open>internal/parent/dispatch.go\<close>):
  one record per entry in the six information classes, with the Apple overlay of the id-both class, and
  the packing of as many records as a response can hold into one linked buffer.

  An \<^verbatim>\<open>os.FileInfo\<close> is the record \<open>file_info\<close>. What the file system answers while a batch is packed -
  the stat of an entry, the size of its resource fork and its Finder Info - and the credentials of the
  process are the record \<open>dir_env\<close>, an argument.
\<close>

section \<open>What is known of an entry\<close>

record sys_stat =
  ss_Mode :: u32
  ss_Uid :: u32
  ss_Gid :: u32
  ss_Ino :: u64

record file_info =
  fi_ModTime :: "int \<times> nat"
  fi_Size :: int
  fi_IsDir :: bool
  fi_Perm :: u32
  fi_Sys :: "sys_stat option"

record posixIdentity =
  pid_uid :: u32
  pid_gid :: u32
  pid_groups :: "u32 list"
  pid_root :: bool

text \<open>An entry of the scan; a synthetic one carries its stat.\<close>

datatype DirEntry =
    Scanned (ent_Name: gostring)
  | Synthetic (ent_Name: gostring) file_info

record dir_env =
  dv_stat :: "gostring \<Rightarrow> file_info option"
  dv_rforkSize :: "gostring \<Rightarrow> nat option"
  dv_finderInfo :: "gostring \<Rightarrow> bytes option"
  dv_identity :: posixIdentity

fun Info :: "dir_env \<Rightarrow> gostring \<Rightarrow> DirEntry \<Rightarrow> file_info option" where
  "Info ev path (Scanned name) = dv_stat ev (Join2 path name)"
| "Info ev path (Synthetic _ info) = Some info"

section \<open>Access hints\<close>

definition inGroup :: "posixIdentity \<Rightarrow> u32 \<Rightarrow> bool" where
  "inGroup pid gid \<longleftrightarrow> pid_gid pid = gid \<or> gid \<in> set (pid_groups pid)"

definition permits :: "posixIdentity \<Rightarrow> u32 \<Rightarrow> u32 \<Rightarrow> u32 \<Rightarrow> bool \<times> bool \<times> bool" where
  "permits pid perm uid gid =
     (if pid_root pid then (True, True, perm AND 0x49 \<noteq> 0)
      else let bits = (if pid_uid pid = uid then drop_bit 6 perm AND 7
                       else if inGroup pid gid then drop_bit 3 perm AND 7
                       else perm AND 7)
           in (bits AND 4 \<noteq> 0, bits AND 2 \<noteq> 0, bits AND 1 \<noteq> 0))"

definition dirEntryAccessMask :: "file_info option \<Rightarrow> posixIdentity \<Rightarrow> bool \<Rightarrow> u32" where
  "dirEntryAccessMask info pid shareReadOnly =
     (let ceiling = shareAccessCeiling shareReadOnly in
      case info of None \<Rightarrow> ceiling
      | Some fi \<Rightarrow>
          (case fi_Sys fi of None \<Rightarrow> ceiling
           | Some st \<Rightarrow>
               (case permits pid (fi_Perm fi) (ss_Uid st) (ss_Gid st) of (r, w, x) \<Rightarrow> narrowAccessMask ceiling r w x)))"

definition compressedFinderInfo :: "bytes \<Rightarrow> bytes" where
  "compressedFinderInfo fi = take 8 fi @ take 2 (drop 8 fi) @ take 2 (drop 24 fi) @ take 4 (drop 20 fi)"

definition unixModeAndInode :: "file_info option \<Rightarrow> u16 \<times> u64" where
  "unixModeAndInode info =
     (case info of None \<Rightarrow> (0, 0)
      | Some fi \<Rightarrow> (case fi_Sys fi of None \<Rightarrow> (0, 0) | Some st \<Rightarrow> (ucast (ss_Mode st AND 0xFFFF), ss_Ino st)))"

section \<open>Names and times on the wire\<close>

abbreviation (input) filetimeEpochDelta :: int where "filetimeEpochDelta \<equiv> 11644473600"

text \<open>Seconds since 1970 before which the year is below 1601 are those below minus the delta.\<close>

definition filetimeFromTime :: "int \<times> nat \<Rightarrow> u64" where
  "filetimeFromTime t =
     (if fst t < - filetimeEpochDelta then 0
      else word_of_int (fst t + filetimeEpochDelta) * 10000000 + word_of_nat (snd t) div 100)"

definition utf16le_name_rune :: "int \<Rightarrow> bytes" where
  "utf16le_name_rune r =
     (if r \<le> 0xFFFF then [word_of_int r, word_of_int (drop_bit 8 r)]
      else
        let r' = r - 0x10000;
            hi = 0xD800 + (word_of_int (drop_bit 10 r') :: u16);
            lo = 0xDC00 + (word_of_int (r' AND 0x3FF) :: u16)
        in [ucast hi, ucast (drop_bit 8 hi), ucast lo, ucast (drop_bit 8 lo)])"

definition utf16leName :: "gostring \<Rightarrow> bytes" where
  "utf16leName s = concat (map utf16le_name_rune (range_runes s))"

definition utf16leLen :: "gostring \<Rightarrow> nat" where
  "utf16leLen s = fold (\<lambda>r n. if r \<le> 0xFFFF then n + 2 else n + 4) (range_runes s) 0"

section \<open>Records\<close>

abbreviation (input) InfoFileDirectoryInformation :: byte where "InfoFileDirectoryInformation \<equiv> 0x01"
abbreviation (input) InfoFileFullDirectoryInformation :: byte where "InfoFileFullDirectoryInformation \<equiv> 0x02"
abbreviation (input) InfoFileBothDirectoryInformation :: byte where "InfoFileBothDirectoryInformation \<equiv> 0x03"
abbreviation (input) InfoFileNamesInformation :: byte where "InfoFileNamesInformation \<equiv> 0x0C"
abbreviation (input) InfoFileIdBothDirectoryInformation :: byte where "InfoFileIdBothDirectoryInformation \<equiv> 0x25"
abbreviation (input) InfoFileIdFullDirectoryInformation :: byte where "InfoFileIdFullDirectoryInformation \<equiv> 0x26"

definition supportedDirInfoClass :: "byte \<Rightarrow> bool" where
  "supportedDirInfoClass c \<longleftrightarrow>
     c \<in> {InfoFileDirectoryInformation, InfoFileFullDirectoryInformation, InfoFileBothDirectoryInformation,
          InfoFileNamesInformation, InfoFileIdBothDirectoryInformation, InfoFileIdFullDirectoryInformation}"

definition dirRecordFixedSize :: "byte \<Rightarrow> nat option" where
  "dirRecordFixedSize c =
     (if c = InfoFileDirectoryInformation then Some 64
      else if c = InfoFileFullDirectoryInformation then Some 68
      else if c = InfoFileNamesInformation then Some 12
      else if c = InfoFileBothDirectoryInformation then Some 94
      else if c = InfoFileIdFullDirectoryInformation then Some 80
      else if c = InfoFileIdBothDirectoryInformation then Some 104
      else None)"

text \<open>The fields every class but the names-only one has: the four times, the two sizes, the
  attributes and the length of the name. The buffer has the fixed size and the name, so every write is
  in range.\<close>

definition stat_fields :: "nat \<Rightarrow> bytes \<Rightarrow> file_info \<Rightarrow> bytes" where
  "stat_fields fsz nameU16 info =
     (let out = zeros (fsz + length nameU16);
          ft = le64 (filetimeFromTime (fi_ModTime info));
          out = patch 8 ft out; out = patch 16 ft out; out = patch 24 ft out; out = patch 32 ft out;
          sz = (if fi_IsDir info then 0 else word_of_int (fi_Size info) :: u64);
          out = patch 40 (le64 sz) out; out = patch 48 (le64 sz) out;
          attrs = (if fi_IsDir info then 0x10 else 0x80 :: u32);
          out = patch 56 (le32 attrs) out
      in patch 60 (le32 (word_of_nat (length nameU16))) out)"

text \<open>The Apple overlay of the id-both record.\<close>

definition aapl_overlay :: "u32 \<Rightarrow> u64 \<Rightarrow> bytes \<Rightarrow> u16 \<Rightarrow> u64 \<Rightarrow> bytes \<Rightarrow> bytes" where
  "aapl_overlay maxAccess rforkSize finderInfo unixMode inode out =
     (let out = patch 64 (le32 maxAccess) out; out = patch 68 [24, 0] out;
          out = patch 70 (le64 rforkSize) out; out = patch 78 (take 16 finderInfo) out;
          out = patch 94 (le16 unixMode) out
      in patch 96 (le64 inode) out)"

text \<open>\<open>None\<close> is the panic on a missing stat, \<open>Some None\<close> the nil of an unknown class.\<close>

definition encodeDirRecordFinderInfo ::
  "gostring \<Rightarrow> file_info option \<Rightarrow> byte \<Rightarrow> bool \<Rightarrow> u32 \<Rightarrow> u64 \<Rightarrow> bytes \<Rightarrow> bytes option option" where
  "encodeDirRecordFinderInfo name info c useAAPL maxAccess rforkSize finderInfo =
     (let n = utf16leName name; (unixMode, inode) = unixModeAndInode info in
      if c = InfoFileDirectoryInformation then map_option (\<lambda>fi. Some (patch 64 n (stat_fields 64 n fi))) info
      else if c = InfoFileFullDirectoryInformation then map_option (\<lambda>fi. Some (patch 68 n (stat_fields 68 n fi))) info
      else if c = InfoFileNamesInformation then
        Some (Some (patch 12 n (patch 8 (le32 (word_of_nat (length n))) (zeros (12 + length n)))))
      else if c = InfoFileIdBothDirectoryInformation then
        map_option (\<lambda>fi.
          let out = stat_fields 104 n fi;
              out = (if useAAPL then aapl_overlay maxAccess rforkSize finderInfo unixMode inode out
                     else if inode \<noteq> 0 then patch 96 (le64 inode) out else out)
          in Some (patch 104 n out)) info
      else if c = InfoFileIdFullDirectoryInformation then
        map_option (\<lambda>fi.
          let out = stat_fields 80 n fi; out = (if inode \<noteq> 0 then patch 72 (le64 inode) out else out)
          in Some (patch 80 n out)) info
      else if c = InfoFileBothDirectoryInformation then map_option (\<lambda>fi. Some (patch 94 n (stat_fields 94 n fi))) info
      else Some None)"

definition encodeDirRecord :: "gostring \<Rightarrow> file_info option \<Rightarrow> byte \<Rightarrow> bool \<Rightarrow> u32 \<Rightarrow> u64 \<Rightarrow> bytes option option" where
  "encodeDirRecord name info c useAAPL maxAccess rforkSize =
     encodeDirRecordFinderInfo name info c useAAPL maxAccess rforkSize (zeros 16)"

section \<open>Packing\<close>

datatype dir_err = ErrUnsupportedDirInfoClass

text \<open>The record of one entry, with what the overlay needs to know about the file.\<close>

definition entry_record :: "dir_env \<Rightarrow> gostring \<Rightarrow> bool \<Rightarrow> byte \<Rightarrow> bool \<Rightarrow> gostring \<Rightarrow> file_info option \<Rightarrow> bytes option option" where
  "entry_record ev path readOnlyShare c useAAPL name info =
     (let shareAccess = shareAccessCeiling readOnlyShare;
          entryPath = Join2 path name;
          overlay = useAAPL \<and> info \<noteq> None;
          granted = dirEntryAccessMask info (dv_identity ev) readOnlyShare;
          maxAccess = (if overlay \<and> granted \<noteq> 0 then granted else shareAccess);
          rforkSize = (if overlay \<and> \<not> fi_IsDir (the info)
                       then (case dv_rforkSize ev entryPath of None \<Rightarrow> 0 | Some n \<Rightarrow> word_of_nat n) else 0);
          finderInfo = (if overlay
                        then (case dv_finderInfo ev entryPath of None \<Rightarrow> zeros 16 | Some raw \<Rightarrow> compressedFinderInfo raw)
                        else zeros 16)
      in encodeDirRecordFinderInfo name info c useAAPL maxAccess rforkSize finderInfo)"

fun encode_entries ::
  "dir_env \<Rightarrow> gostring \<Rightarrow> bool \<Rightarrow> nat \<Rightarrow> byte \<Rightarrow> nat \<Rightarrow> nat \<Rightarrow> bool \<Rightarrow>
   DirEntry list \<Rightarrow> nat \<Rightarrow> bytes \<Rightarrow> nat \<Rightarrow> nat \<Rightarrow> nat \<Rightarrow> (dir_err + bytes \<times> nat \<times> nat) option" where
  "encode_entries ev path ro maxBytes c fsz limit useAAPL [] i out consumed encoded prevStart =
     Some (Inr (out, consumed, encoded))"
| "encode_entries ev path ro maxBytes c fsz limit useAAPL (ent # ents) i out consumed encoded prevStart =
     (if \<not> encoded < limit then Some (Inr (out, consumed, encoded))
      else if length out + padTo8 (fsz + utf16leLen (ent_Name ent)) > maxBytes then Some (Inr (out, consumed, encoded))
      else
        let needStat = (c \<noteq> InfoFileNamesInformation);
            info = (if needStat then Info ev path ent else None)
        in if needStat \<and> info = None
           then encode_entries ev path ro maxBytes c fsz limit useAAPL ents (Suc i) out (Suc i) encoded prevStart
           else
             (case entry_record ev path ro c useAAPL (ent_Name ent) info of
                None \<Rightarrow> None
              | Some None \<Rightarrow> Some (Inl ErrUnsupportedDirInfoClass)
              | Some (Some rec) \<Rightarrow>
                  let padded = padTo8 (length rec) in
                  if length out + padded > maxBytes then Some (Inr (out, consumed, encoded))
                  else
                    let out1 = (if encoded > 0 then patch prevStart (le32 (word_of_nat (length out - prevStart))) out else out)
                    in encode_entries ev path ro maxBytes c fsz limit useAAPL ents (Suc i)
                         (out1 @ rec @ zeros (padded - length rec)) (Suc i) (Suc encoded) (length out)))"

text \<open>The entries are those from the cursor on; consumed counts from the cursor.\<close>

definition encodeDirEntriesLimited ::
  "dir_env \<Rightarrow> gostring \<Rightarrow> bool \<Rightarrow> DirEntry list \<Rightarrow> nat \<Rightarrow> nat \<Rightarrow> byte \<Rightarrow> nat \<Rightarrow> bool \<Rightarrow> (dir_err + bytes \<times> nat \<times> nat) option" where
  "encodeDirEntriesLimited ev path ro dirEntries dirSent maxBytes c limit useAAPL =
     (case dirRecordFixedSize c of
        None \<Rightarrow> Some (Inl ErrUnsupportedDirInfoClass)
      | Some fsz \<Rightarrow> encode_entries ev path ro maxBytes c fsz limit useAAPL (drop dirSent dirEntries) 0 [] 0 0 0)"

section \<open>Record sizes and names\<close>

lemma length_utf16le_name_rune: "length (utf16le_name_rune r) = (if r \<le> 0xFFFF then 2 else 4)"
  by (simp add: utf16le_name_rune_def Let_def)

lemma utf16leLen_eq: "utf16leLen s = length (utf16leName s)"
proof -
  have "fold (\<lambda>r n. if r \<le> 0xFFFF then n + 2 else n + 4) rs n = n + length (concat (map utf16le_name_rune rs))" for rs n
    by (induction rs arbitrary: n) (simp_all add: length_utf16le_name_rune)
  then show ?thesis by (simp add: utf16leLen_def utf16leName_def)
qed

lemma utf16leName_notify: "utf16leName s = utf16leNotify s"
proof -
  have "utf16le_name_rune = utf16leNotify_rune"
    by (rule ext) (simp add: utf16le_name_rune_def utf16leNotify_rune_def)
  then show ?thesis by (simp add: utf16leName_def utf16leNotify_def)
qed

lemma length_stat_fields [simp]: "length (stat_fields fsz n info) = fsz + length n"
  by (simp add: stat_fields_def Let_def)

lemma length_aapl_overlay [simp]: "length (aapl_overlay a r f m i out) = length out"
  by (simp add: aapl_overlay_def Let_def)

text \<open>Where a record keeps its name.\<close>

definition name_len_offset :: "byte \<Rightarrow> nat" where
  "name_len_offset c = (if c = InfoFileNamesInformation then 8 else 60)"

definition record_name :: "byte \<Rightarrow> bytes \<Rightarrow> bytes option" where
  "record_name c rec =
     (case dirRecordFixedSize c of None \<Rightarrow> None
      | Some fsz \<Rightarrow> Option.bind (u32_at rec (name_len_offset c)) (\<lambda>n. go_slice rec fsz (fsz + unat n)))"

lemma stat_fields_layout:
  assumes "64 \<le> fsz"
  shows "take 4 (drop 60 (stat_fields fsz n info)) = le32 (word_of_nat (length n))"
    and "take 4 (stat_fields fsz n info) = zeros 4"
proof -
  show "take 4 (drop 60 (stat_fields fsz n info)) = le32 (word_of_nat (length n))"
    unfolding stat_fields_def Let_def using assms by (intro patch_same) simp_all
  show "take 4 (stat_fields fsz n info) = zeros 4"
    unfolding stat_fields_def Let_def using assms by (simp add: take_drop_0_patch min_def)
qed

lemma aapl_overlay_layout:
  assumes "104 \<le> length out"
  shows "take 4 (drop 60 (aapl_overlay a r f m i out)) = take 4 (drop 60 out)"
    and "take 4 (aapl_overlay a r f m i out) = take 4 out"
proof -
  have f: "length (take 16 f) \<le> 16" by simp
  show "take 4 (drop 60 (aapl_overlay a r f m i out)) = take 4 (drop 60 out)"
    unfolding aapl_overlay_def Let_def by (simp add: patch_other)
  show "take 4 (aapl_overlay a r f m i out) = take 4 out"
    using f assms by (simp add: aapl_overlay_def Let_def take_drop_0_patch)
qed

text \<open>A record: its length, its name, and the zero it starts with until it is linked.\<close>

definition is_record :: "byte \<Rightarrow> gostring \<Rightarrow> bytes \<Rightarrow> bool" where
  "is_record c name rec \<longleftrightarrow>
     (\<exists>fsz. dirRecordFixedSize c = Some fsz \<and> length rec = fsz + utf16leLen name \<and> 8 \<le> name_len_offset c \<and>
       name_len_offset c + 4 \<le> fsz \<and> drop fsz rec = utf16leName name \<and>
       take 4 (drop (name_len_offset c) rec) = le32 (word_of_nat (utf16leLen name)) \<and> take 4 rec = zeros 4)"

lemma is_recordI:
  assumes "dirRecordFixedSize c = Some fsz" "length out = fsz + length (utf16leName name)"
    "8 \<le> name_len_offset c" "name_len_offset c + 4 \<le> fsz" "take 4 out = zeros 4"
    "take 4 (drop (name_len_offset c) out) = le32 (word_of_nat (length (utf16leName name)))"
  shows "is_record c name (patch fsz (utf16leName name) out)"
  unfolding is_record_def
proof (intro exI conjI)
  show "drop fsz (patch fsz (utf16leName name) out) = utf16leName name"
    using assms(2) by (simp add: drop_patch_same)
  show "take 4 (drop (name_len_offset c) (patch fsz (utf16leName name) out)) = le32 (word_of_nat (utf16leLen name))"
    using assms by (simp add: patch_other utf16leLen_eq)
  show "take 4 (patch fsz (utf16leName name) out) = zeros 4"
    using assms by (simp add: take_drop_0_patch)
qed (use assms in \<open>simp_all add: utf16leLen_eq\<close>)

lemma encodeDirRecord_is_record:
  assumes "encodeDirRecordFinderInfo name info c useAAPL acc rf finf = Some (Some rec)"
  shows "is_record c name rec"
proof -
  let ?n = "utf16leName name"
  obtain mode ino where ui: "unixModeAndInode info = (mode, ino)" by fastforce
  have stat: "is_record c name (patch fsz ?n (stat_fields fsz ?n fi))"
    if "dirRecordFixedSize c = Some fsz" "name_len_offset c = 60" "64 \<le> fsz" for fsz fi
    using that by (intro is_recordI) (simp_all add: stat_fields_layout)
  have pre: "is_record c name (patch fsz ?n (patch off x (stat_fields fsz ?n fi)))"
    if "dirRecordFixedSize c = Some fsz" "name_len_offset c = 60" "64 \<le> off" "off + length x \<le> fsz" for fsz fi off x
    using that by (intro is_recordI) (simp_all add: stat_fields_layout patch_other take_drop_0_patch)
  have apple: "is_record c name (patch 104 ?n (aapl_overlay a r f m i (stat_fields 104 ?n fi)))"
    if "dirRecordFixedSize c = Some 104" "name_len_offset c = 60" for fi a r f m i
    using that by (intro is_recordI) (simp_all add: stat_fields_layout aapl_overlay_layout)
  have names: "is_record c name (patch 12 ?n (patch 8 (le32 (word_of_nat (length ?n))) (zeros (12 + length ?n))))"
    if "dirRecordFixedSize c = Some 12" "name_len_offset c = 8"
    using that by (intro is_recordI) (simp_all add: patch_same take_drop_0_patch min_def)
  show ?thesis
    using assms ui stat pre apple names
    by (auto simp: encodeDirRecordFinderInfo_def dirRecordFixedSize_def name_len_offset_def Let_def split: if_splits)
qed

lemma record_name_read:
  assumes "is_record c name rec" "utf16leLen name < 2 ^ 32" "take (length rec - 4) (drop 4 rec') = drop 4 rec" "length rec \<le> length rec'"
  shows "record_name c rec' = Some (utf16leName name)"
proof -
  from assms(1) obtain fsz where fsz: "dirRecordFixedSize c = Some fsz" "length rec = fsz + utf16leLen name"
    "8 \<le> name_len_offset c" "name_len_offset c + 4 \<le> fsz" "drop fsz rec = utf16leName name"
    "take 4 (drop (name_len_offset c) rec) = le32 (word_of_nat (utf16leLen name))"
    unfolding is_record_def by blast
  have same: "take k (drop o' rec') = take k (drop o' rec)" if "4 \<le> o'" "o' + k \<le> length rec" for o' k
  proof -
    have "take k (drop o' rec) = take k (drop (o' - 4) (drop 4 rec))" using that by simp
    also have "\<dots> = take k (drop (o' - 4) (take (length rec - 4) (drop 4 rec')))" by (simp only: assms(3))
    also have "\<dots> = take k (drop o' rec')" using that by (simp add: drop_take min_def)
    finally show ?thesis by simp
  qed
  have "u32_at rec' (name_len_offset c) = Some (word_of_nat (utf16leLen name))"
    using fsz assms(4) same [of "name_len_offset c" 4] by (simp add: u32_at_def)
  moreover have "take (utf16leLen name) (drop fsz rec') = utf16leName name"
    using fsz same [of fsz "utf16leLen name"] by (simp add: utf16leLen_eq)
  ultimately show ?thesis
    using fsz assms(2,4) by (simp add: record_name_def go_slice_def unat_of_nat take_bit_nat_eq_self)
qed

section \<open>The chain of records\<close>

definition pad_record :: "bytes \<Rightarrow> bytes" where
  "pad_record rec = rec @ zeros (padTo8 (length rec) - length rec)"

text \<open>Records linked by their first field, the last one ending the chain.\<close>

fun linked :: "bytes list \<Rightarrow> bytes" where
  "linked [] = []"
| "linked [rec] = pad_record rec"
| "linked (rec # recs) = patch 0 (le32 (word_of_nat (length (pad_record rec)))) (pad_record rec) @ linked recs"

lemma length_pad_record: "length (pad_record rec) = padTo8 (length rec)"
  by (simp add: pad_record_def padTo8_def Let_def)

lemma linked_snoc:
  assumes "\<And>x. x \<in> set (rec # recs) \<Longrightarrow> 4 \<le> length x"
  shows "linked (rec # recs @ [rec']) =
    patch (length (linked (butlast (rec # recs))))
      (le32 (word_of_nat (length (linked (rec # recs)) - length (linked (butlast (rec # recs)))))) (linked (rec # recs)) @ pad_record rec'"
  using assms
proof (induction recs arbitrary: rec)
  case Nil
  then show ?case by simp
next
  case (Cons a recs)
  let ?p = "patch 0 (le32 (word_of_nat (length (pad_record rec)))) (pad_record rec)"
  have hdr: "linked (rec # a # bs) = ?p @ linked (a # bs)" for bs by simp
  have bl: "linked (butlast (rec # a # recs)) = (if recs = [] then pad_record rec else ?p @ linked (butlast (a # recs)))"
    by (cases recs) simp_all
  have len: "length (linked (butlast (rec # a # recs))) = length ?p + length (linked (butlast (a # recs)))"
    unfolding bl by simp
  have "linked (rec # (a # recs) @ [rec']) = ?p @ linked (a # recs @ [rec'])" by simp
  also have "\<dots> = ?p @ patch (length (linked (butlast (a # recs))))
      (le32 (word_of_nat (length (linked (a # recs)) - length (linked (butlast (a # recs)))))) (linked (a # recs)) @ pad_record rec'"
    using Cons by simp
  finally show ?case
    unfolding len by (simp add: patch_append_right)
qed

text \<open>How a client walks the chain.\<close>

function walk_records :: "bytes \<Rightarrow> bytes list" where
  "walk_records b =
     (case u32_at b 0 of
        None \<Rightarrow> []
      | Some n \<Rightarrow> if n = 0 \<or> length b < unat n then [b] else take (unat n) b # walk_records (drop (unat n) b))"
  by auto
termination
  by (relation "measure length") (auto simp: u32_at_def unat_gt_0 intro!: diff_less split: if_splits)

declare walk_records.simps [simp del]

lemma walk_linked:
  assumes "recs \<noteq> []" "\<And>x. x \<in> set recs \<Longrightarrow> 4 \<le> length x \<and> take 4 x = zeros 4" "length (linked recs) < 2 ^ 32"
  shows "length (walk_records (linked recs)) = length recs \<and>
    (\<forall>i < length recs. length (recs ! i) \<le> length (walk_records (linked recs) ! i) \<and>
      take (length (recs ! i) - 4) (drop 4 (walk_records (linked recs) ! i)) = drop 4 (recs ! i))"
  using assms
proof (induction recs rule: linked.induct)
  case 1
  then show ?case by simp
next
  case (2 rec)
  then have rec: "4 \<le> length rec" "take 4 rec = zeros 4" by auto
  then have "u32_at (pad_record rec) 0 = Some 0" by (simp add: u32_at_def pad_record_def numeral_eq_Suc)
  then have "walk_records (linked [rec]) = [pad_record rec]" by (simp add: walk_records.simps)
  then show ?case using rec by (simp add: pad_record_def)
next
  case (3 rec rec2 recs)
  let ?n = "length (pad_record rec)"
  let ?p = "patch 0 (le32 (word_of_nat ?n)) (pad_record rec)" and ?rest = "linked (rec2 # recs)"
  have rec: "4 \<le> length rec" using 3 by auto
  then have n4: "4 \<le> ?n" by (simp add: pad_record_def)
  have n: "?n < 2 ^ 32" "length ?rest < 2 ^ 32" using "3.prems"(3) by simp_all
  have "take 4 (?p @ ?rest) = le32 (word_of_nat ?n)"
    using n4 patch_same [of 0 "le32 (word_of_nat ?n)" "pad_record rec" 4] by simp
  then have u: "u32_at (?p @ ?rest) 0 = Some (word_of_nat ?n)" using n4 by (simp add: u32_at_def)
  have un: "unat (word_of_nat ?n :: u32) = ?n" using n(1) by (simp add: unat_of_nat take_bit_nat_eq_self)
  then have nz: "(word_of_nat ?n :: u32) \<noteq> 0" using n4 by auto
  have w: "walk_records (?p @ ?rest) = ?p # walk_records ?rest"
    by (subst walk_records.simps) (simp add: u un nz)
  have rest: "length (walk_records ?rest) = length (rec2 # recs)"
    "\<And>i. i < length (rec2 # recs) \<Longrightarrow> length ((rec2 # recs) ! i) \<le> length (walk_records ?rest ! i) \<and>
      take (length ((rec2 # recs) ! i) - 4) (drop 4 (walk_records ?rest ! i)) = drop 4 ((rec2 # recs) ! i)"
    using "3.IH" "3.prems" n(2) by auto
  have first: "length rec \<le> length ?p" "take (length rec - 4) (drop 4 ?p) = drop 4 rec"
    using rec patch_other [of 4 "length rec - 4" 0 "le32 (word_of_nat ?n)" "pad_record rec"]
    by (simp_all add: pad_record_def)
  show ?case
    using rest first by (auto simp: w nth_Cons split: nat.split)
qed

section \<open>What one batch holds\<close>

definition info_for :: "dir_env \<Rightarrow> gostring \<Rightarrow> byte \<Rightarrow> DirEntry \<Rightarrow> file_info option" where
  "info_for ev path c ent = (if c \<noteq> InfoFileNamesInformation then Info ev path ent else None)"

text \<open>An entry is offered to the client unless its stat is needed and fails.\<close>

definition present :: "dir_env \<Rightarrow> gostring \<Rightarrow> byte \<Rightarrow> DirEntry \<Rightarrow> bool" where
  "present ev path c ent \<longleftrightarrow> c = InfoFileNamesInformation \<or> Info ev path ent \<noteq> None"

definition record_for :: "dir_env \<Rightarrow> gostring \<Rightarrow> bool \<Rightarrow> byte \<Rightarrow> bool \<Rightarrow> DirEntry \<Rightarrow> bytes \<Rightarrow> bool" where
  "record_for ev path ro c useAAPL ent rec \<longleftrightarrow>
     entry_record ev path ro c useAAPL (ent_Name ent) (info_for ev path c ent) = Some (Some rec)"

lemma record_for_is_record: "record_for ev path ro c useAAPL ent rec \<Longrightarrow> is_record c (ent_Name ent) rec"
  by (auto simp: record_for_def entry_record_def Let_def intro: encodeDirRecord_is_record)

lemma record_for_total:
  assumes "dirRecordFixedSize c = Some fsz" "present ev path c ent"
  obtains rec where "record_for ev path ro c useAAPL ent rec"
proof -
  obtain mode ino where ui: "unixModeAndInode (info_for ev path c ent) = (mode, ino)" by fastforce
  have "\<exists>rec. record_for ev path ro c useAAPL ent rec"
    using assms ui
    by (auto simp: record_for_def entry_record_def encodeDirRecordFinderInfo_def dirRecordFixedSize_def present_def
        info_for_def Let_def split: if_splits)
  then show thesis using that by blast
qed

lemma is_record_length:
  "is_record c name rec \<Longrightarrow> dirRecordFixedSize c = Some fsz \<Longrightarrow> length rec = fsz + utf16leLen name"
  "is_record c name rec \<Longrightarrow> 4 \<le> length rec \<and> take 4 rec = zeros 4"
  by (auto simp: is_record_def)

lemma length_linked: "length (linked recs) = sum_list (map (\<lambda>r. padTo8 (length r)) recs)"
  by (induction recs rule: linked.induct) (simp_all add: length_pad_record)

text \<open>One turn of the loop, in the state it is in when \<open>recs\<close> have been packed.\<close>

lemma encode_entries_step:
  assumes fsz: "dirRecordFixedSize c = Some fsz"
    and recs: "\<And>x. x \<in> set recs \<Longrightarrow> 4 \<le> length x" "recs \<noteq> [] \<Longrightarrow> prev = length (linked (butlast recs))"
    and room: "length recs < limit" "length (linked recs) + padTo8 (fsz + utf16leLen (ent_Name ent)) \<le> maxBytes"
    and rec: "record_for ev path ro c useAAPL ent rec" and present: "present ev path c ent"
  shows "encode_entries ev path ro maxBytes c fsz limit useAAPL (ent # ents) i (linked recs) cons (length recs) prev =
    encode_entries ev path ro maxBytes c fsz limit useAAPL ents (Suc i) (linked (recs @ [rec])) (Suc i)
      (length (recs @ [rec])) (length (linked recs))"
proof -
  have "linked (recs @ [rec]) =
      (if recs \<noteq> [] then patch prev (le32 (word_of_nat (length (linked recs) - prev))) (linked recs) else linked recs) @ pad_record rec"
    using recs linked_snoc [of "hd recs" "tl recs" rec] by (cases recs) auto
  then show ?thesis
    using rec present room is_record_length(1) [OF record_for_is_record [OF rec] fsz]
    by (auto simp: record_for_def info_for_def present_def pad_record_def Let_def)
qed

lemma encode_entries_spec:
  assumes fsz: "dirRecordFixedSize c = Some fsz"
    and recs: "\<And>x. x \<in> set recs \<Longrightarrow> 4 \<le> length x" "recs \<noteq> [] \<Longrightarrow> prev = length (linked (butlast recs))"
  shows "\<exists>k recs'. encode_entries ev path ro maxBytes c fsz limit useAAPL ents i (linked recs) i (length recs) prev =
      Some (Inr (linked (recs @ recs'), i + k, length (recs @ recs'))) \<and> k \<le> length ents \<and>
    list_all2 (record_for ev path ro c useAAPL) (filter (present ev path c) (take k ents)) recs' \<and>
    (recs' \<noteq> [] \<longrightarrow> length (linked (recs @ recs')) \<le> maxBytes \<and> length (recs @ recs') \<le> limit) \<and>
    (k < length ents \<longrightarrow> limit \<le> length (recs @ recs') \<or>
       maxBytes < length (linked (recs @ recs')) + padTo8 (fsz + utf16leLen (ent_Name (ents ! k))))"
  using recs
proof (induction ents arbitrary: i recs prev)
  case Nil
  show ?case by (rule exI [of _ 0], rule exI [of _ "[]"]) simp
next
  case (Cons ent ents)
  consider (stop) "limit \<le> length recs \<or> maxBytes < length (linked recs) + padTo8 (fsz + utf16leLen (ent_Name ent))"
    | (skip) "length recs < limit" "length (linked recs) + padTo8 (fsz + utf16leLen (ent_Name ent)) \<le> maxBytes" "\<not> present ev path c ent"
    | (take) "length recs < limit" "length (linked recs) + padTo8 (fsz + utf16leLen (ent_Name ent)) \<le> maxBytes" "present ev path c ent"
    by linarith
  then show ?case
  proof cases
    case stop
    then show ?thesis by (intro exI [of _ 0] exI [of _ "[]"]) auto
  next
    case skip
    then have eq: "encode_entries ev path ro maxBytes c fsz limit useAAPL (ent # ents) i (linked recs) i (length recs) prev =
        encode_entries ev path ro maxBytes c fsz limit useAAPL ents (Suc i) (linked recs) (Suc i) (length recs) prev"
      by (auto simp: present_def)
    obtain k recs' where IH: "encode_entries ev path ro maxBytes c fsz limit useAAPL ents (Suc i) (linked recs) (Suc i) (length recs) prev =
        Some (Inr (linked (recs @ recs'), Suc i + k, length (recs @ recs')))" "k \<le> length ents"
      "list_all2 (record_for ev path ro c useAAPL) (filter (present ev path c) (take k ents)) recs'"
      "recs' \<noteq> [] \<longrightarrow> length (linked (recs @ recs')) \<le> maxBytes \<and> length (recs @ recs') \<le> limit"
      "k < length ents \<longrightarrow> limit \<le> length (recs @ recs') \<or>
         maxBytes < length (linked (recs @ recs')) + padTo8 (fsz + utf16leLen (ent_Name (ents ! k)))"
      using Cons.IH [of recs prev "Suc i"] Cons.prems by blast
    show ?thesis
      unfolding eq IH(1) using IH(2-) skip(3)
      by (intro exI [of _ "Suc k"] exI [of _ recs']) simp
  next
    case take
    obtain rec where rec: "record_for ev path ro c useAAPL ent rec" using record_for_total [OF fsz take(3)] by blast
    note len = is_record_length [OF record_for_is_record [OF rec]]
    have eq: "encode_entries ev path ro maxBytes c fsz limit useAAPL (ent # ents) i (linked recs) i (length recs) prev =
        encode_entries ev path ro maxBytes c fsz limit useAAPL ents (Suc i) (linked (recs @ [rec])) (Suc i)
          (length (recs @ [rec])) (length (linked recs))"
      by (rule encode_entries_step [OF fsz Cons.prems take(1,2) rec take(3)])
    have "4 \<le> length x" if "x \<in> set (recs @ [rec])" for x using that Cons.prems(1) len(2) by auto
    moreover have "length (linked recs) = length (linked (butlast (recs @ [rec])))" by simp
    ultimately obtain k recs' where IH:
      "encode_entries ev path ro maxBytes c fsz limit useAAPL ents (Suc i) (linked (recs @ [rec])) (Suc i) (length (recs @ [rec])) (length (linked recs)) =
        Some (Inr (linked ((recs @ [rec]) @ recs'), Suc i + k, length ((recs @ [rec]) @ recs')))" "k \<le> length ents"
      "list_all2 (record_for ev path ro c useAAPL) (filter (present ev path c) (take k ents)) recs'"
      "recs' \<noteq> [] \<longrightarrow> length (linked ((recs @ [rec]) @ recs')) \<le> maxBytes \<and> length ((recs @ [rec]) @ recs') \<le> limit"
      "k < length ents \<longrightarrow> limit \<le> length ((recs @ [rec]) @ recs') \<or>
         maxBytes < length (linked ((recs @ [rec]) @ recs')) + padTo8 (fsz + utf16leLen (ent_Name (ents ! k)))"
      using Cons.IH [of "recs @ [rec]" "length (linked recs)" "Suc i"] by blast
    have fits: "length (linked (recs @ [rec])) \<le> maxBytes" "length (recs @ [rec]) \<le> limit"
      using take len(1) [OF fsz] by (simp_all add: length_linked)
    show ?thesis
      unfolding eq IH(1) using IH(2-) take(3) rec fits
      by (intro exI [of _ "Suc k"] exI [of _ "rec # recs'"]) auto
  qed
qed

lemma supported_fixed_size: "supportedDirInfoClass c \<longleftrightarrow> (\<exists>fsz. dirRecordFixedSize c = Some fsz)"
  by (simp add: supportedDirInfoClass_def dirRecordFixedSize_def)

text \<open>The names a client reads out of a response, in order.\<close>

definition listed_names :: "byte \<Rightarrow> bytes \<Rightarrow> bytes option list" where
  "listed_names c buf = (if buf = [] then [] else map (record_name c) (walk_records buf))"

lemma length_le_linked: "rec \<in> set recs \<Longrightarrow> length rec \<le> length (linked recs)"
  unfolding length_linked
  by (induction recs) (use padTo8_spec(1) le_trans in \<open>auto simp: trans_le_add1 trans_le_add2\<close>)

lemma listed_names_linked:
  assumes recs: "list_all2 (record_for ev path ro c useAAPL) ents recs" and len: "length (linked recs) < 2 ^ 32"
  shows "listed_names c (linked recs) = map (\<lambda>e. Some (utf16leName (ent_Name e))) ents"
proof (cases "recs = []")
  case True
  with recs show ?thesis by (simp add: listed_names_def)
next
  case False
  have isr: "is_record c (ent_Name (ents ! i)) (recs ! i)" if "i < length recs" for i
    using recs that record_for_is_record by (metis list_all2_conv_all_nth)
  have "4 \<le> length x \<and> take 4 x = zeros 4" if "x \<in> set recs" for x
    using that isr is_record_length(2) by (metis in_set_conv_nth)
  note w = walk_linked [OF False this len]
  have "linked recs \<noteq> []" using w False by (auto simp: walk_records.simps [of "[]"] u32_at_def)
  moreover have "record_name c (walk_records (linked recs) ! i) = Some (utf16leName (ent_Name (ents ! i)))"
    if "i < length recs" for i
  proof (rule record_name_read [OF isr [OF that]])
    have "utf16leLen (ent_Name (ents ! i)) \<le> length (recs ! i)" using isr [OF that] by (auto simp: is_record_def)
    also have "\<dots> \<le> length (linked recs)" using that by (intro length_le_linked) simp
    finally show "utf16leLen (ent_Name (ents ! i)) < 2 ^ 32" using len by simp
  qed (use w that in auto)
  moreover have "length (walk_records (linked recs)) = length recs" using w by blast
  ultimately have "map (record_name c) (walk_records (linked recs)) = map (\<lambda>e. Some (utf16leName (ent_Name e))) ents"
    using list_all2_lengthD [OF recs] by (intro nth_equalityI) simp_all
  then show ?thesis using \<open>linked recs \<noteq> []\<close> by (simp only: listed_names_def if_False)
qed

text \<open>One batch from the cursor: as many records as the limit and the buffer allow, each for the next
  entry that is still there.\<close>

definition batch :: "dir_env \<Rightarrow> gostring \<Rightarrow> byte \<Rightarrow> nat \<Rightarrow> nat \<Rightarrow> DirEntry list \<Rightarrow> bytes \<Rightarrow> nat \<Rightarrow> nat \<Rightarrow> bool" where
  "batch ev path c maxBytes limit ents buf k encoded \<longleftrightarrow>
     k \<le> length ents \<and> length buf \<le> maxBytes \<and> encoded \<le> limit \<and>
     encoded = length (filter (present ev path c) (take k ents)) \<and>
     listed_names c buf = map (\<lambda>e. Some (utf16leName (ent_Name e))) (filter (present ev path c) (take k ents)) \<and>
     (k < length ents \<longrightarrow> encoded = limit \<or>
        maxBytes < length buf + padTo8 (the (dirRecordFixedSize c) + utf16leLen (ent_Name (ents ! k))))"

lemma encodeDirEntriesLimited_batch:
  assumes "supportedDirInfoClass c" "maxBytes < 2 ^ 32"
  shows "\<exists>buf k encoded. encodeDirEntriesLimited ev path ro ents sent maxBytes c limit useAAPL = Some (Inr (buf, k, encoded)) \<and>
    batch ev path c maxBytes limit (drop sent ents) buf k encoded \<and> (encoded = 0 \<longrightarrow> buf = [])"
proof -
  obtain fsz where fsz: "dirRecordFixedSize c = Some fsz" using assms(1) by (auto simp: supported_fixed_size)
  obtain k recs where run: "encode_entries ev path ro maxBytes c fsz limit useAAPL (drop sent ents) 0 (linked []) 0 (length ([] :: bytes list)) 0 =
      Some (Inr (linked ([] @ recs), 0 + k, length ([] @ recs)))" "k \<le> length (drop sent ents)"
    "list_all2 (record_for ev path ro c useAAPL) (filter (present ev path c) (take k (drop sent ents))) recs"
    "recs \<noteq> [] \<longrightarrow> length (linked ([] @ recs)) \<le> maxBytes \<and> length ([] @ recs) \<le> limit"
    "k < length (drop sent ents) \<longrightarrow> limit \<le> length ([] @ recs) \<or>
       maxBytes < length (linked ([] @ recs)) + padTo8 (fsz + utf16leLen (ent_Name (drop sent ents ! k)))"
    using encode_entries_spec [OF fsz, of "[]" 0 ev path ro maxBytes limit useAAPL "drop sent ents" 0] by fastforce
  have small: "length (linked recs) \<le> maxBytes" "length recs \<le> limit" using run(4) by (cases recs; simp)+
  then have names: "listed_names c (linked recs) = map (\<lambda>e. Some (utf16leName (ent_Name e))) (filter (present ev path c) (take k (drop sent ents)))"
    using assms(2) by (intro listed_names_linked [OF run(3)]) simp
  have "encodeDirEntriesLimited ev path ro ents sent maxBytes c limit useAAPL = Some (Inr (linked recs, k, length recs))"
    using run(1) by (simp add: encodeDirEntriesLimited_def fsz)
  moreover have "batch ev path c maxBytes limit (drop sent ents) (linked recs) k (length recs)"
    using run(2,5) small names list_all2_lengthD [OF run(3)] fsz by (auto simp: batch_def)
  ultimately show ?thesis by auto
qed

end
