(* ===== verification/Query_Directory.thy ===== *)
theory Query_Directory
  imports Dir_Records Wildcard
begin

text \<open>
  QUERY\_DIRECTORY (\<^verbatim>\<open>handleQueryDirectory\<close> of \<^verbatim>\<open>internal/parent/dispatch.go\<close>): the scan of a
  directory, its filtering by the client's pattern, and the cursor that hands the result out one response
  at a time.

  The listing state of a handle - the entries of its scan, absent until there was one, and the cursor -
  is the record \<open>dir_world\<close>, a part of what the dispatcher threads. What the file system answers is the
  record \<open>query_env\<close>; it may be another one for every request.
\<close>

record dir_world =
  dw_dirs :: "open_ref \<Rightarrow> (DirEntry list \<times> nat) option"

record query_env =
  qv_dir :: dir_env
  qv_ReadDir :: "gostring \<Rightarrow> go_err + gostring list"
  qv_Lstat :: "gostring \<Rightarrow> file_info option"
  qv_caseSensitive :: "Tree option \<Rightarrow> bool"
  qv_simpleFold :: "int \<Rightarrow> int"
  qv_readDirAttr :: bool

abbreviation (input) QueryDirRestartScans :: byte where "QueryDirRestartScans \<equiv> 0x01"
abbreviation (input) QueryDirReturnSingleEntry :: byte where "QueryDirReturnSingleEntry \<equiv> 0x02"

section \<open>The scan\<close>

text \<open>The two synthetic entries, as far as they can be stat'ed.\<close>

definition dot_entries :: "query_env \<Rightarrow> gostring \<Rightarrow> DirEntry list" where
  "dot_entries ev path =
     (let dirInfo = qv_Lstat ev path;
          parentInfo = (case qv_Lstat ev (Dir path) of None \<Rightarrow> dirInfo | Some i \<Rightarrow> Some i)
      in (case dirInfo of None \<Rightarrow> [] | Some i \<Rightarrow> [Synthetic [0x2E] i]) @
         (case parentInfo of None \<Rightarrow> [] | Some i \<Rightarrow> [Synthetic [0x2E, 0x2E] i]))"

fun filter_entries :: "query_env \<Rightarrow> gostring \<Rightarrow> bool \<Rightarrow> DirEntry list \<Rightarrow> DirEntry list option" where
  "filter_entries ev pattern caseSensitive [] = Some []"
| "filter_entries ev pattern caseSensitive (e # es) =
     (if 0x3A \<in> set (ent_Name e) then filter_entries ev pattern caseSensitive es
      else do {
        m \<leftarrow> matchSMBPattern (qv_simpleFold ev) pattern (ent_Name e) caseSensitive;
        es' \<leftarrow> filter_entries ev pattern caseSensitive es;
        Some (if m then e # es' else es')
      })"

definition scan_directory :: "query_env \<Rightarrow> Open \<Rightarrow> gostring \<Rightarrow> (go_err + DirEntry list) option" where
  "scan_directory ev op pattern =
     (case qv_ReadDir ev (o_Path op) of
        Inl e \<Rightarrow> Some (Inl e)
      | Inr names \<Rightarrow>
          map_option Inr (filter_entries ev (if pattern = [] then [0x2A] else pattern) (qv_caseSensitive ev (o_Tree op))
            (dot_entries ev (o_Path op) @ map Scanned names)))"

section \<open>One response\<close>

datatype query_reply = Listed bytes | QueryFailed Status

definition query_next ::
  "dir_env \<Rightarrow> gostring \<Rightarrow> bool \<Rightarrow> bool \<Rightarrow> query_directory_request \<Rightarrow> DirEntry list \<Rightarrow> nat \<Rightarrow> (query_reply \<times> nat) option" where
  "query_next ev path ro useAAPL req ents sent =
     (if length ents = 0 then Some (QueryFailed StatusNoSuchFile, sent)
      else if sent \<ge> length ents then Some (QueryFailed StatusNoMoreFiles, sent)
      else
        let limit = (if qd_Flags req AND QueryDirReturnSingleEntry \<noteq> 0 then 1 else length ents - sent) in
        (case encodeDirEntriesLimited ev path ro ents sent (unat (qd_OutputBufferLength req)) (qd_FileInformationClass req) limit useAAPL of
           None \<Rightarrow> None
         | Some (Inl ErrUnsupportedDirInfoClass) \<Rightarrow> Some (QueryFailed StatusInvalidInfoClass, sent)
         | Some (Inr (buf, consumed, encoded)) \<Rightarrow>
             let sent' = sent + consumed in
             Some (if encoded = 0
                   then QueryFailed (if sent' \<ge> length ents then StatusNoMoreFiles else StatusInfoLengthMismatch)
                   else Listed buf, sent')))"

definition set_dir :: "open_ref \<Rightarrow> DirEntry list \<times> nat \<Rightarrow> 'm dir_world_scheme dstate \<Rightarrow> 'm dir_world_scheme dstate" where
  "set_dir h v ds = ds\<lparr>ds_k := (ds_k ds)\<lparr>dw_dirs := (dw_dirs (ds_k ds))(h := Some v)\<rparr>\<rparr>"

definition answer_query ::
  "query_env \<Rightarrow> dispatcher \<Rightarrow> header \<Rightarrow> sess_ref \<Rightarrow> open_ref \<Rightarrow> query_directory_request \<Rightarrow> DirEntry list \<Rightarrow> nat \<Rightarrow>
   'm dir_world_scheme dstate \<Rightarrow> (bool \<times> 'm dir_world_scheme dstate) option" where
  "answer_query ev d hdr r h req ents sent ds =
     (let op = hs_opens (sv_handles (ds_sv ds)) h;
          useAAPL = (qv_readDirAttr ev \<and> (case o_Tree op of None \<Rightarrow> False | Some t \<Rightarrow> sc_Path (t_Share t) \<noteq> [])
                     \<and> qd_FileInformationClass req = InfoFileIdBothDirectoryInformation);
          ro = (case o_Tree op of None \<Rightarrow> False | Some t \<Rightarrow> sc_ReadOnly (t_Share t))
      in case query_next (qv_dir ev) (o_Path op) ro useAAPL req ents sent of
           None \<Rightarrow> None
         | Some (QueryFailed status, sent') \<Rightarrow> keep (respondError d hdr status (Some r) (set_dir h (ents, sent') ds))
         | Some (Listed buf, sent') \<Rightarrow> reply_body d hdr r (EncodeQueryDirectoryResponse buf) (set_dir h (ents, sent') ds))"

definition handleQueryDirectory :: "query_env \<Rightarrow> dispatcher \<Rightarrow> 'm dir_world_scheme handler" where
  "handleQueryDirectory ev d hdr body r ds =
     (case DecodeQueryDirectoryRequest body of
        None \<Rightarrow> None
      | Some (Inl _) \<Rightarrow> keep (respondError d hdr StatusInvalidParameter (Some r) ds)
      | Some (Inr req) \<Rightarrow>
          (case GetOpen (qd_FileID req) (ds_session ds r) of
             None \<Rightarrow> keep (respondError d hdr StatusInvalidParameter (Some r) ds)
           | Some h \<Rightarrow>
               let op = hs_opens (sv_handles (ds_sv ds)) h in
               if \<not> o_IsDir op then keep (respondError d hdr StatusInvalidParameter (Some r) ds)
               else if d_MaxIOSize d \<noteq> 0 \<and> qd_OutputBufferLength req > d_MaxIOSize d
                 then keep (respondError d hdr StatusInvalidParameter (Some r) ds)
               else if \<not> supportedDirInfoClass (qd_FileInformationClass req)
                 then keep (respondError d hdr StatusInvalidInfoClass (Some r) ds)
               else (case (if qd_Flags req AND QueryDirRestartScans \<noteq> 0 then None else dw_dirs (ds_k ds) h) of
                   Some (ents, sent) \<Rightarrow> answer_query ev d hdr r h req ents sent ds
                 | None \<Rightarrow>
                     (case scan_directory ev op (qd_FileName req) of
                         None \<Rightarrow> None
                       | Some (Inl e) \<Rightarrow> keep (respondError d hdr (statusFromErr (Some e)) (Some r) ds)
                       | Some (Inr ents) \<Rightarrow> answer_query ev d hdr r h req ents 0 (set_dir h (ents, 0) ds)))))"

section \<open>The scan keeps what matches\<close>

definition shown :: "query_env \<Rightarrow> gostring \<Rightarrow> bool \<Rightarrow> DirEntry \<Rightarrow> bool" where
  "shown ev pattern caseSensitive e \<longleftrightarrow>
     0x3A \<notin> set (ent_Name e) \<and>
     glob (smb_eq (qv_simpleFold ev) caseSensitive) (smb_runes pattern) (smb_runes (ent_Name e))"

lemma filter_entries_eq:
  assumes "cyclic_fold (qv_simpleFold ev)" "pattern \<noteq> []"
  shows "filter_entries ev pattern caseSensitive es = Some (filter (shown ev pattern caseSensitive) es)"
  using assms by (induction es) (simp_all add: matchSMBPattern_glob shown_def)

lemma scan_directory_eq:
  assumes "cyclic_fold (qv_simpleFold ev)"
  shows "scan_directory ev op pattern =
    Some (map_sum id (\<lambda>names. filter (shown ev (if pattern = [] then [0x2A] else pattern) (qv_caseSensitive ev (o_Tree op)))
      (dot_entries ev (o_Path op) @ map Scanned names)) (qv_ReadDir ev (o_Path op)))"
  by (cases "pattern = []") (simp_all add: scan_directory_def filter_entries_eq [OF assms] split: sum.split)

section \<open>Handing it out\<close>

definition reply_names :: "byte \<Rightarrow> query_reply \<Rightarrow> bytes option list" where
  "reply_names c reply = (case reply of Listed buf \<Rightarrow> listed_names c buf | QueryFailed _ \<Rightarrow> [])"

text \<open>What a request gets when the cursor stands at \<open>sent\<close>: the entries up to the new cursor that are
  still there; fewer than asked only when the next one does not fit.\<close>

definition hands_out :: "dir_env \<Rightarrow> gostring \<Rightarrow> query_directory_request \<Rightarrow> DirEntry list \<Rightarrow> nat \<Rightarrow> query_reply \<Rightarrow> nat \<Rightarrow> bool" where
  "hands_out ev path req ents sent reply sent' \<longleftrightarrow>
     (let c = qd_FileInformationClass req; seg = filter (present ev path c) (take (sent' - sent) (drop sent ents)) in
      sent \<le> sent' \<and> sent' \<le> length ents \<and>
      reply_names c reply = map (\<lambda>e. Some (utf16leName (ent_Name e))) seg \<and>
      (case reply of
         Listed buf \<Rightarrow> seg \<noteq> [] \<and> length buf \<le> unat (qd_OutputBufferLength req)
       | QueryFailed status \<Rightarrow> seg = [] \<and>
           (if ents = [] then status = StatusNoSuchFile
            else if sent' = length ents then status = StatusNoMoreFiles
            else status = StatusInfoLengthMismatch \<and>
              unat (qd_OutputBufferLength req) < padTo8 (the (dirRecordFixedSize c) + utf16leLen (ent_Name (ents ! sent'))))))"

lemma query_next_hands_out:
  assumes c: "supportedDirInfoClass (qd_FileInformationClass req)" and sent: "sent \<le> length ents"
  obtains reply sent' where "query_next ev path ro useAAPL req ents sent = Some (reply, sent')"
    "hands_out ev path req ents sent reply sent'"
proof (cases "sent = length ents")
  case True
  then have q: "query_next ev path ro useAAPL req ents sent =
      Some (QueryFailed (if ents = [] then StatusNoSuchFile else StatusNoMoreFiles), sent)"
    by (simp add: query_next_def)
  show thesis by (rule that [OF q]) (simp add: True hands_out_def reply_names_def Let_def)
next
  case False
  define limit where "limit = (if qd_Flags req AND QueryDirReturnSingleEntry \<noteq> 0 then 1 else length ents - sent)"
  let ?c = "qd_FileInformationClass req" and ?n = "unat (qd_OutputBufferLength req)"
  have lim: "0 < limit" using False sent by (simp add: limit_def)
  have "?n < 2 ^ 32" using unsigned_less [of "qd_OutputBufferLength req"] by simp
  from encodeDirEntriesLimited_batch [OF c this]
  obtain buf k encoded where run: "encodeDirEntriesLimited ev path ro ents sent ?n ?c limit useAAPL = Some (Inr (buf, k, encoded))"
    and b: "batch ev path ?c ?n limit (drop sent ents) buf k encoded" "encoded = 0 \<longrightarrow> buf = []" by blast
  have q: "query_next ev path ro useAAPL req ents sent =
      Some (if encoded = 0 then QueryFailed (if sent + k \<ge> length ents then StatusNoMoreFiles else StatusInfoLengthMismatch)
            else Listed buf, sent + k)"
    using run False sent by (auto simp: query_next_def limit_def)
  show thesis
    using b lim False sent
    by (intro that [OF q]) (auto simp: batch_def hands_out_def reply_names_def Let_def)
qed

section \<open>A whole listing\<close>

text \<open>A client asking again and again: every request with the environment it meets.\<close>

record listing_step =
  ls_env :: dir_env
  ls_AAPL :: bool
  ls_req :: query_directory_request

fun run_listing :: "gostring \<Rightarrow> bool \<Rightarrow> listing_step list \<Rightarrow> DirEntry list \<Rightarrow> nat \<Rightarrow> (query_reply list \<times> nat) option" where
  "run_listing path ro [] ents sent = Some ([], sent)"
| "run_listing path ro (q # qs) ents sent = do {
     (reply, sent') \<leftarrow> query_next (ls_env q) path ro (ls_AAPL q) (ls_req q) ents sent;
     (replies, sent'') \<leftarrow> run_listing path ro qs ents sent';
     Some (reply # replies, sent'')
   }"

abbreviation ls_class :: "listing_step \<Rightarrow> byte" where
  "ls_class q \<equiv> qd_FileInformationClass (ls_req q)"

fun names_of_run :: "listing_step list \<Rightarrow> query_reply list \<Rightarrow> bytes option list" where
  "names_of_run (q # qs) (reply # replies) = reply_names (ls_class q) reply @ names_of_run qs replies"
| "names_of_run _ _ = []"

text \<open>The request names a class the server encodes, has room for the record of any entry, and finds every
  entry of the scan still there.\<close>

definition roomy :: "gostring \<Rightarrow> DirEntry list \<Rightarrow> listing_step \<Rightarrow> bool" where
  "roomy path ents q \<longleftrightarrow>
     supportedDirInfoClass (ls_class q) \<and>
     list_all (\<lambda>e. present (ls_env q) path (ls_class q) e \<and>
       padTo8 (the (dirRecordFixedSize (ls_class q)) + utf16leLen (ent_Name e)) \<le> unat (qd_OutputBufferLength (ls_req q))) ents"

lemma roomy_step:
  assumes q: "roomy path ents q" and sent: "sent \<le> length ents" and ne: "ents \<noteq> []"
  obtains reply sent' where "query_next (ls_env q) path ro (ls_AAPL q) (ls_req q) ents sent = Some (reply, sent')"
    "sent' \<le> length ents" "sent < length ents \<Longrightarrow> sent < sent' \<and> (\<exists>buf. reply = Listed buf)"
    "sent = length ents \<Longrightarrow> sent' = sent \<and> reply = QueryFailed StatusNoMoreFiles"
    "reply_names (ls_class q) reply = map (\<lambda>e. Some (utf16leName (ent_Name e))) (take (sent' - sent) (drop sent ents))"
    "sent \<le> sent'"
proof -
  have c: "supportedDirInfoClass (ls_class q)" using q by (simp add: roomy_def)
  have here: "present (ls_env q) path (ls_class q) e"
    "padTo8 (the (dirRecordFixedSize (ls_class q)) + utf16leLen (ent_Name e)) \<le> unat (qd_OutputBufferLength (ls_req q))"
    if "e \<in> set ents" for e using q that by (simp_all add: roomy_def list_all_iff)
  obtain reply sent' where run: "query_next (ls_env q) path ro (ls_AAPL q) (ls_req q) ents sent = Some (reply, sent')"
    and h: "hands_out (ls_env q) path (ls_req q) ents sent reply sent'"
    by (rule query_next_hands_out [OF c sent])
  have seg: "filter (present (ls_env q) path (ls_class q)) (take n (drop sent ents)) = take n (drop sent ents)" for n
    using here(1) by (intro filter_True) (auto dest: in_set_takeD in_set_dropD)
  have more: "sent < sent'" if "sent < length ents"
  proof (rule ccontr)
    assume "\<not> sent < sent'"
    then have "sent' = sent" using h by (simp add: hands_out_def Let_def)
    with h that ne here(2) [of "ents ! sent"] show False
      by (auto simp: hands_out_def Let_def split: query_reply.splits)
  qed
  moreover have "\<exists>buf. reply = Listed buf" if "sent < length ents"
    using h seg [of "sent' - sent"] more [OF that] that by (cases reply) (auto simp: hands_out_def Let_def)
  moreover have "sent' = sent \<and> reply = QueryFailed StatusNoMoreFiles" if "sent = length ents"
    using h that ne by (auto simp: hands_out_def Let_def split: query_reply.splits)
  ultimately show thesis
    using h seg by (intro that [OF run]) (simp_all add: hands_out_def Let_def)
qed

abbreviation no_more :: "nat \<Rightarrow> query_reply list" where
  "no_more m \<equiv> replicate m (QueryFailed StatusNoMoreFiles)"

lemma run_listing_roomy:
  assumes "list_all (roomy path ents) qs" "sent \<le> length ents" "ents \<noteq> []"
  shows "\<exists>bufs m sent'. run_listing path ro qs ents sent = Some (map Listed bufs @ no_more m, sent') \<and>
    sent' \<le> length ents \<and> sent \<le> sent' \<and> length bufs + m = length qs \<and> length bufs \<le> sent' - sent \<and>
    names_of_run qs (map Listed bufs @ no_more m) = map (\<lambda>e. Some (utf16leName (ent_Name e))) (take (sent' - sent) (drop sent ents)) \<and>
    (length ents - sent \<le> length qs \<longrightarrow> sent' = length ents)"
  using assms
proof (induction qs arbitrary: sent)
  case Nil
  then show ?case by simp
next
  case (Cons q qs)
  then have q: "roomy path ents q" by simp
  obtain reply s1 where step: "query_next (ls_env q) path ro (ls_AAPL q) (ls_req q) ents sent = Some (reply, s1)"
    "s1 \<le> length ents" "sent < length ents \<Longrightarrow> sent < s1 \<and> (\<exists>buf. reply = Listed buf)"
    "sent = length ents \<Longrightarrow> s1 = sent \<and> reply = QueryFailed StatusNoMoreFiles"
    "reply_names (ls_class q) reply = map (\<lambda>e. Some (utf16leName (ent_Name e))) (take (s1 - sent) (drop sent ents))" "sent \<le> s1"
    using roomy_step [OF q Cons.prems(2,3), of ro] by blast
  obtain bufs m s2 where rest: "run_listing path ro qs ents s1 = Some (map Listed bufs @ no_more m, s2)" "s2 \<le> length ents" "s1 \<le> s2"
    "length bufs + m = length qs" "length bufs \<le> s2 - s1"
    "names_of_run qs (map Listed bufs @ no_more m) = map (\<lambda>e. Some (utf16leName (ent_Name e))) (take (s2 - s1) (drop s1 ents))"
    "length ents - s1 \<le> length qs \<longrightarrow> s2 = length ents"
    using Cons.IH [of s1] Cons.prems step(2) by auto
  have join: "take (s1 - sent) (drop sent ents) @ take (s2 - s1) (drop s1 ents) = take (s2 - sent) (drop sent ents)"
    using step(6) rest(3) take_add [of "s1 - sent" "s2 - s1" "drop sent ents"] by simp
  have "sent = length ents \<or> sent < s1" using step(3) Cons.prems(2) by (auto simp: le_eq_less_or_eq)
  then have s2: "s2 = length ents" if "length ents - sent \<le> Suc (length qs)"
    using that rest(2,3,7) step(2,6) by auto
  show ?case
  proof (cases "sent = length ents")
    case True
    with rest step(4) have "bufs = []" by simp
    then show ?thesis
      using step rest join s2 True
      by (intro exI [of _ "[]"] exI [of _ "Suc m"] exI [of _ s2]) (simp flip: map_append)
  next
    case False
    then obtain buf where buf: "reply = Listed buf" "sent < s1" using step(3) Cons.prems(2) by auto
    then show ?thesis
      using step(1,5,6) rest join s2
      by (intro exI [of _ "buf # bufs"] exI [of _ m] exI [of _ s2]) (simp flip: map_append)
  qed
qed

lemma run_listing_empty: "run_listing path ro qs [] 0 = Some (replicate (length qs) (QueryFailed StatusNoSuchFile), 0)"
  by (induction qs) (simp_all add: query_next_def)

section \<open>The properties\<close>

text \<open>C20: A listing hands out every name once, in order, and ends. A client that keeps asking, with buffers
  that hold at least one record, for the entries of a scan that is not empty and stays in place gets, over the whole run
  and whatever mixture of record classes, limits and buffer sizes it asks with, exactly the names of the
  scan in the order of the scan: first replies with records, at most as many as there are entries, and from then
  on only NO\_MORE\_FILES; no other error occurs. Each name is read back by following the chain of
  record offsets through the reply. A scan that found nothing is answered NO\_SUCH\_FILE every time.\<close>

theorem listing_is_complete:
  assumes "list_all (roomy path ents) qs" "length ents < length qs"
  shows "if ents = [] then run_listing path ro qs ents 0 = Some (replicate (length qs) (QueryFailed StatusNoSuchFile), 0)
    else \<exists>bufs replies. run_listing path ro qs ents 0 = Some (replies, length ents)
      \<and> replies = map Listed bufs @ replicate (length qs - length bufs) (QueryFailed StatusNoMoreFiles)
      \<and> length bufs \<le> length ents \<and> names_of_run qs replies = map (\<lambda>e. Some (utf16leName (ent_Name e))) ents"
proof (cases "ents = []")
  case True
  then show ?thesis by (simp add: run_listing_empty)
next
  case False
  obtain bufs m where run: "run_listing path ro qs ents 0 = Some (map Listed bufs @ no_more m, length ents)"
    "length bufs + m = length qs" "length bufs \<le> length ents"
    "names_of_run qs (map Listed bufs @ no_more m) = map (\<lambda>e. Some (utf16leName (ent_Name e))) ents"
    using run_listing_roomy [OF assms(1) le0 False, of ro] assms(2) by auto
  moreover have "length qs - length bufs = m" using run(2) by simp
  ultimately show ?thesis using False by auto
qed

text \<open>What the handler does with a request it accepts.\<close>

lemma answer_query_spec:
  assumes "supportedDirInfoClass (qd_FileInformationClass req)" "sent \<le> length ents"
  obtains reply sent' status rbody ds' where "answer_query ev d hdr r h req ents sent ds = Some (True, ds')"
    "hands_out (qv_dir ev) (o_Path (hs_opens (sv_handles (ds_sv ds)) h)) req ents sent reply sent'"
    "answered hdr status (Some r) rbody (set_dir h (ents, sent') ds) ds'"
    "case reply of QueryFailed s \<Rightarrow> status = s \<and> rbody = errBody
     | Listed buf \<Rightarrow> status = StatusSuccess \<and> EncodeQueryDirectoryResponse buf = Some rbody"
proof -
  let ?op = "hs_opens (sv_handles (ds_sv ds)) h"
  obtain reply sent' where q: "query_next (qv_dir ev) (o_Path ?op) (case o_Tree ?op of None \<Rightarrow> False | Some t \<Rightarrow> sc_ReadOnly (t_Share t))
      (qv_readDirAttr ev \<and> (case o_Tree ?op of None \<Rightarrow> False | Some t \<Rightarrow> sc_Path (t_Share t) \<noteq> [])
        \<and> qd_FileInformationClass req = InfoFileIdBothDirectoryInformation) req ents sent = Some (reply, sent')"
    "hands_out (qv_dir ev) (o_Path ?op) req ents sent reply sent'"
    by (rule query_next_hands_out [OF assms])
  show thesis
  proof (cases reply)
    case (QueryFailed s)
    obtain ds' where "respondError d hdr s (Some r) (set_dir h (ents, sent') ds) = Some ds'"
      "answered hdr s (Some r) errBody (set_dir h (ents, sent') ds) ds'"
      using respond_answered [of d hdr "Some r" s errBody] by (auto simp: respondError_def)
    with QueryFailed q show thesis by (intro that [of ds' reply sent' s errBody]) (simp_all add: answer_query_def Let_def)
  next
    case (Listed buf)
    have "EncodeQueryDirectoryResponse buf \<noteq> None"
      by (simp add: EncodeQueryDirectoryResponse_def encode_buffer_response_def go_panic)
    then obtain rbody where b: "EncodeQueryDirectoryResponse buf = Some rbody" by blast
    obtain ds' where "respondSuccess d hdr (Some r) rbody (set_dir h (ents, sent') ds) = Some ds'"
      "answered hdr StatusSuccess (Some r) rbody (set_dir h (ents, sent') ds) ds'"
      using respond_answered [of d hdr "Some r" StatusSuccess rbody] by (auto simp: respondSuccess_def)
    with Listed q b show thesis
      by (intro that [of ds' reply sent' StatusSuccess rbody]) (simp_all add: answer_query_def reply_body_def Let_def)
  qed
qed

text \<open>The handler's answer for the entries \<open>ents\<close> with the cursor at \<open>sent\<close>.\<close>

definition delivers ::
  "query_env \<Rightarrow> header \<Rightarrow> sess_ref \<Rightarrow> open_ref \<Rightarrow> query_directory_request \<Rightarrow> 'm dir_world_scheme dstate \<Rightarrow>
   (bool \<times> 'm dir_world_scheme dstate) option \<Rightarrow> DirEntry list \<Rightarrow> nat \<Rightarrow> bool" where
  "delivers ev hdr r h req ds res ents sent \<longleftrightarrow>
     (\<exists>reply sent' status rbody ds'. res = Some (True, ds') \<and>
        hands_out (qv_dir ev) (o_Path (hs_opens (sv_handles (ds_sv ds)) h)) req ents sent reply sent' \<and>
        answered hdr status (Some r) rbody (set_dir h (ents, sent') ds) ds' \<and>
        (case reply of QueryFailed s \<Rightarrow> status = s \<and> rbody = errBody
         | Listed buf \<Rightarrow> status = StatusSuccess \<and> EncodeQueryDirectoryResponse buf = Some rbody))"

lemma set_dir_set_dir [simp]: "set_dir h v (set_dir h w ds) = set_dir h v ds"
  by (simp add: set_dir_def)

lemma set_dir_sv [simp]: "ds_sv (set_dir h v ds) = ds_sv ds"
  by (simp add: set_dir_def)

lemma answer_query_delivers:
  assumes "supportedDirInfoClass (qd_FileInformationClass req)" "sent \<le> length ents"
  shows "delivers ev hdr r h req ds (answer_query ev d hdr r h req ents sent ds) ents sent"
  using answer_query_spec [OF assms, of ev d hdr r h ds] unfolding delivers_def by metis

lemma delivers_set_dir [simp]:
  "delivers ev hdr r h req (set_dir h v ds) res ents sent = delivers ev hdr r h req ds res ents sent"
  by (simp add: delivers_def)

text \<open>C21: QUERY\_DIRECTORY answers for the directory the handle names. For an accepted request the handler
  never panics and keeps the connection. A first or restarted scan is over what the directory holds now:
  the dot entries and the entries whose name contains no colon and matches the pattern; a continuation is
  over the scan of the handle, from its cursor. The reply holds the next of these entries that can still
  be stat'ed, never exceeds the buffer the client offered, and moves the cursor of this handle and nothing
  else past what it holds; a failure of the scan is reported and leaves everything as it was.\<close>

theorem query_directory_answers:
  fixes ds :: "'m dir_world_scheme dstate"
  assumes req: "DecodeQueryDirectoryRequest body = Some (Inr req)" "GetOpen (qd_FileID req) (ds_session ds r) = Some h"
    and op: "o_IsDir (hs_opens (sv_handles (ds_sv ds)) h)" and io: "qd_OutputBufferLength req \<le> d_MaxIOSize d"
    and c: "supportedDirInfoClass (qd_FileInformationClass req)" and fold: "cyclic_fold (qv_simpleFold ev)"
    and cursor: "pred_option (\<lambda>(ents, sent). sent \<le> length ents) (dw_dirs (ds_k ds) h)"
  shows "let op = hs_opens (sv_handles (ds_sv ds)) h; res = handleQueryDirectory ev d hdr body r ds in
    case (if qd_Flags req AND QueryDirRestartScans \<noteq> 0 then None else dw_dirs (ds_k ds) h) of
      Some (ents, sent) \<Rightarrow> delivers ev hdr r h req ds res ents sent
    | None \<Rightarrow>
        (case qv_ReadDir ev (o_Path op) of
           Inl e \<Rightarrow> \<exists>ds'. res = Some (True, ds') \<and> answered hdr (statusFromErr (Some e)) (Some r) errBody ds ds'
         | Inr names \<Rightarrow>
             delivers ev hdr r h req ds res
               (filter (shown ev (if qd_FileName req = [] then [0x2A] else qd_FileName req) (qv_caseSensitive ev (o_Tree op)))
                 (dot_entries ev (o_Path op) @ map Scanned names)) 0)"
proof -
  let ?op = "hs_opens (sv_handles (ds_sv ds)) h"
  have run: "handleQueryDirectory ev d hdr body r ds =
      (case (if qd_Flags req AND QueryDirRestartScans \<noteq> 0 then None else dw_dirs (ds_k ds) h) of
         Some (ents, sent) \<Rightarrow> answer_query ev d hdr r h req ents sent ds
       | None \<Rightarrow>
           (case scan_directory ev ?op (qd_FileName req) of
               None \<Rightarrow> None
             | Some (Inl e) \<Rightarrow> keep (respondError d hdr (statusFromErr (Some e)) (Some r) ds)
             | Some (Inr ents) \<Rightarrow> answer_query ev d hdr r h req ents 0 (set_dir h (ents, 0) ds)))"
    using req op c leD [OF io] by (simp add: handleQueryDirectory_def Let_def)
  show ?thesis
  proof (cases "if qd_Flags req AND QueryDirRestartScans \<noteq> 0 then None else dw_dirs (ds_k ds) h")
    case (Some p)
    then have "snd p \<le> length (fst p)" using cursor by (auto split: if_splits)
    with Some answer_query_delivers [OF c this, of ev hdr r h ds d] show ?thesis
      by (simp only: run Let_def option.case case_prod_beta)
  next
    case None
    show ?thesis
    proof (cases "qv_ReadDir ev (o_Path ?op)")
      case (Inl e)
      with None show ?thesis
        using respond_answered [of d hdr "Some r" "statusFromErr (Some e)" errBody ds]
        by (auto simp: run scan_directory_eq [OF fold] respondError_def simp del: if_image_distrib)
    next
      case (Inr names)
      let ?ents = "filter (shown ev (if qd_FileName req = [] then [0x2A] else qd_FileName req) (qv_caseSensitive ev (o_Tree ?op)))
        (dot_entries ev (o_Path ?op) @ map Scanned names)"
      have "handleQueryDirectory ev d hdr body r ds = answer_query ev d hdr r h req ?ents 0 (set_dir h (?ents, 0) ds)"
        unfolding run None by (simp only: option.case scan_directory_eq [OF fold] Inr map_sum.simps sum.case)
      with None Inr answer_query_delivers [OF c le0, of ev hdr r h "set_dir h (?ents, 0) ds" d ?ents] show ?thesis
        by (simp only: Let_def option.case sum.case delivers_set_dir)
    qed
  qed
qed

section \<open>Witnesses\<close>

definition wdir_env :: dir_env where
  "wdir_env = \<lparr>dv_stat = (\<lambda>_. None), dv_rforkSize = (\<lambda>_. None), dv_finderInfo = (\<lambda>_. None),
     dv_identity = \<lparr>pid_uid = 0, pid_gid = 0, pid_groups = [], pid_root = True\<rparr>\<rparr>"

definition wquery_env :: query_env where
  "wquery_env = \<lparr>qv_dir = wdir_env, qv_ReadDir = (\<lambda>_. Inr [[0x61], [0x62, 0x3A]]), qv_Lstat = (\<lambda>_. None),
     qv_caseSensitive = (\<lambda>_. True), qv_simpleFold = (\<lambda>r. r), qv_readDirAttr = False\<rparr>"

definition wquery :: query_directory_request where
  "wquery = \<lparr>qd_FileInformationClass = InfoFileNamesInformation, qd_Flags = 0, qd_FileIndex = 0, qd_FileID = replicate 16 2,
     qd_OutputBufferLength = 64, qd_FileName = []\<rparr>"

definition wquery_body :: bytes where
  "wquery_body = [33, 0, 12, 0, 0, 0, 0, 0] @ replicate 16 2 @ [96, 0, 0, 0, 64, 0, 0, 0]"

definition wdir_state :: "dir_world dstate" where
  "wdir_state = \<lparr>ds_sv = wserver\<lparr>sv_sess := (\<lambda>_. wsession\<lparr>s_opens := [(replicate 16 2, 2)]\<rparr>),
       sv_handles := \<lparr>hs_opens = (\<lambda>_. (wfile 2)\<lparr>o_IsDir := True\<rparr>), hs_locks = newLockTable, hs_shares = newShareModeTable, hs_closed = []\<rparr>\<rparr>,
     ds_chain = forFrame False, ds_held = NoLock, ds_k = \<lparr>dw_dirs = Map.empty\<rparr>\<rparr>"

definition wstep :: listing_step where
  "wstep = \<lparr>ls_env = wdir_env, ls_AAPL = False, ls_req = wquery\<rparr>"

lemma range_runes_ascii: "b < 0x80 \<Longrightarrow> range_runes [b] = [uint b]"
  by (subst range_runes.simps) (simp add: DecodeRune_def Let_def word_less_def range_runes.simps)

lemma wnames: "utf16leName [0x61] = [0x61, 0]" "utf16leName [0x62] = [0x62, 0]"
  by (simp_all add: utf16leName_def utf16le_name_rune_def range_runes_ascii)

theorem listing_is_complete_witness:
  "list_all (roomy [] [Scanned [0x61], Scanned [0x62]]) (replicate 3 wstep) \<and>
   (\<exists>bufs replies. run_listing [] False (replicate 3 wstep) [Scanned [0x61], Scanned [0x62]] 0 = Some (replies, 2) \<and>
      replies = map Listed bufs @ replicate (3 - length bufs) (QueryFailed StatusNoMoreFiles) \<and> length bufs \<le> 2 \<and>
      names_of_run (replicate 3 wstep) replies = [Some [0x61, 0], Some [0x62, 0]])"
proof -
  have "roomy [] [Scanned [0x61], Scanned [0x62]] wstep"
    by (simp add: roomy_def wstep_def wquery_def present_def supportedDirInfoClass_def dirRecordFixedSize_def
        utf16leLen_eq wnames padTo8_def)
  then have r: "list_all (roomy [] [Scanned [0x61], Scanned [0x62]]) (replicate 3 wstep)" by (simp add: list_all_iff)
  from listing_is_complete [OF r, of False] r show ?thesis by (simp add: wnames numeral_2_eq_2)
qed

theorem query_directory_answers_witness:
  "delivers wquery_env (wrequest 14) 0 2 wquery wdir_state
     (handleQueryDirectory wquery_env wdispatcher (wrequest 14) wquery_body 0 wdir_state) [Scanned [0x61]] 0"
proof -
  have dec: "DecodeQueryDirectoryRequest wquery_body = Some (Inr wquery)" by code_simp
  have h: "GetOpen (qd_FileID wquery) (ds_session wdir_state 0) = Some 2" by (simp add: GetOpen_def wdir_state_def wquery_def)
  have op: "o_IsDir (hs_opens (sv_handles (ds_sv wdir_state)) 2)" by (simp add: wdir_state_def)
  have io: "qd_OutputBufferLength wquery \<le> d_MaxIOSize wdispatcher" by (simp add: wquery_def)
  have c: "supportedDirInfoClass (qd_FileInformationClass wquery)" by (simp add: wquery_def supportedDirInfoClass_def)
  have fold: "cyclic_fold (qv_simpleFold wquery_env)"
    by (auto simp: cyclic_fold_def wquery_env_def intro!: exI [of _ 1])
  have nodir: "dw_dirs (ds_k wdir_state) 2 = None" by (simp add: wdir_state_def)
  have star: "smb_runes [0x2A] = [star_rune]"
    by (subst smb_runes.simps) (simp add: decodeRune_def DecodeRune_def smb_runes.simps)
  have sh: "filter (shown wquery_env [0x2A] b) (dot_entries wquery_env p @ map Scanned [[0x61], [0x62, 0x3A]]) = [Scanned [0x61]]" for b p
    using glob_star [of _ "[]"] by (simp add: shown_def dot_entries_def wquery_env_def star)
  from query_directory_answers [OF dec h op io c fold, of "wrequest 14"] nodir sh show ?thesis
    by (simp add: Let_def wquery_env_def wquery_def)
qed

end
