(* ===== verification/Xattr.thy ===== *)
theory Xattr
  imports Dir_Records
begin

text \<open>
  Extended attributes and named streams (\<^verbatim>\<open>internal/parent/xattr.go\<close>, the small helpers of
  \<^verbatim>\<open>stream.go\<close>, \<^verbatim>\<open>xattr_errno_linux.go\<close> and \<^verbatim>\<open>xattr_errno_darwin.go\<close>): a stream of a file is
  kept in the attribute \<^verbatim>\<open>user.gosamba.ads.<name>\<close>, an extended attribute of a client in
  \<^verbatim>\<open>user.<name>\<close>.

  The calls a handler makes on names rather than descriptors are the record \<open>fs_calls\<close> over the state
  \<open>'k\<close> of the machine. An attribute is read by one call that asks for its size and one that reads it;
  between the two nothing else happens here. \<^verbatim>\<open>strings.ToUpper\<close> and \<^verbatim>\<open>strings.ToLower\<close> are arguments.
\<close>

section \<open>Calls\<close>

text \<open>What a set call is addressed to: a name (following links), a name opened without following a link
  at its end, or the descriptor of a handle.\<close>

datatype xattr_target = AtPath gostring | AtNoFollow gostring | AtHandle open_ref

record 'k fs_calls =
  f_Lstat :: "'k \<Rightarrow> gostring \<Rightarrow> errno + file_info"
  f_birthTime :: "'k \<Rightarrow> gostring \<Rightarrow> (int \<times> nat) option"
  f_openNoFollow :: "'k \<Rightarrow> gostring \<Rightarrow> errno option"
  f_Remove :: "'k \<Rightarrow> gostring \<Rightarrow> 'k \<times> errno option"
  f_Rename :: "'k \<Rightarrow> gostring \<Rightarrow> gostring \<Rightarrow> 'k \<times> errno option"
  f_Ftruncate :: "'k \<Rightarrow> open_ref \<Rightarrow> int \<Rightarrow> 'k \<times> errno option"
  f_Truncate :: "'k \<Rightarrow> gostring \<Rightarrow> int \<Rightarrow> 'k \<times> errno option"
  f_UtimesNanoAt :: "'k \<Rightarrow> gostring \<Rightarrow> int \<Rightarrow> int \<Rightarrow> 'k \<times> errno option"
  x_get :: "'k \<Rightarrow> gostring \<Rightarrow> gostring \<Rightarrow> errno + bytes"
  x_list :: "'k \<Rightarrow> gostring \<Rightarrow> errno + bytes"
  x_set :: "'k \<Rightarrow> xattr_target \<Rightarrow> gostring \<Rightarrow> bytes \<Rightarrow> 'k \<times> errno option"
  x_remove :: "'k \<Rightarrow> gostring \<Rightarrow> gostring \<Rightarrow> 'k \<times> errno option"
  x_notFound :: "errno \<Rightarrow> bool"

abbreviation (input) E2BIG :: errno where "E2BIG \<equiv> Errno_other 7"
abbreviation (input) ERANGE :: errno where "ERANGE \<equiv> Errno_other 34"

definition isXattrNotFound_linux :: "errno \<Rightarrow> bool" where
  "isXattrNotFound_linux e \<longleftrightarrow> e = Errno_other 61"

definition isXattrNotFound_darwin :: "errno \<Rightarrow> bool" where
  "isXattrNotFound_darwin e \<longleftrightarrow> e = Errno_other 93"

datatype xattr_err = ErrXattrUnsupported | XattrErrno errno

definition xattr_go_err :: "xattr_err \<Rightarrow> go_err" where
  "xattr_go_err e = (case e of ErrXattrUnsupported \<Rightarrow> ErrOther | XattrErrno n \<Rightarrow> Errno n)"

section \<open>Names\<close>

definition lit :: "string \<Rightarrow> gostring" where
  "lit s = map (\<lambda>c. word_of_nat (of_char c)) s"

definition adsXattrPrefix :: gostring where
  "adsXattrPrefix = lit ''user.gosamba.ads.''"

definition eaXattrPrefix :: gostring where
  "eaXattrPrefix = lit ''user.''"

definition streamXattrName :: "gostring \<Rightarrow> gostring" where
  "streamXattrName stream = adsXattrPrefix @ stream"

definition eaXattrName :: "(gostring \<Rightarrow> gostring) \<Rightarrow> gostring \<Rightarrow> gostring" where
  "eaXattrName toLower name =
     eaXattrPrefix @ runes_to_string (filter (\<lambda>r. r \<noteq> 0 \<and> r \<noteq> 0x2F) (range_runes (toLower name)))"

section \<open>Reading\<close>

definition classifyXattrErr :: "'k fs_calls \<Rightarrow> errno \<Rightarrow> xattr_err option" where
  "classifyXattrErr F e =
     (if x_notFound F e then None else if e = ENOTSUP then Some ErrXattrUnsupported else Some (XattrErrno e))"

definition classifySetxattrErr :: "errno option \<Rightarrow> xattr_err option" where
  "classifySetxattrErr err =
     (case err of None \<Rightarrow> None | Some e \<Rightarrow> Some (if e = ENOTSUP then ErrXattrUnsupported else XattrErrno e))"

text \<open>\<open>Inr None\<close> is the nil of an attribute that is not there.\<close>

definition getxattr :: "'k fs_calls \<Rightarrow> 'k \<Rightarrow> gostring \<Rightarrow> gostring \<Rightarrow> xattr_err + bytes option" where
  "getxattr F k path name =
     (case x_get F k path name of
        Inl e \<Rightarrow> (case classifyXattrErr F e of None \<Rightarrow> Inr None | Some e' \<Rightarrow> Inl e')
      | Inr v \<Rightarrow> Inr (Some v))"

definition getxattrSize :: "'k fs_calls \<Rightarrow> 'k \<Rightarrow> gostring \<Rightarrow> gostring \<Rightarrow> xattr_err + nat" where
  "getxattrSize F k path name =
     (case x_get F k path name of
        Inl e \<Rightarrow> (case classifyXattrErr F e of None \<Rightarrow> Inr 0 | Some e' \<Rightarrow> Inl e')
      | Inr v \<Rightarrow> Inr (length v))"

definition streamXattrSize :: "'k fs_calls \<Rightarrow> 'k \<Rightarrow> gostring \<Rightarrow> gostring \<Rightarrow> xattr_err + nat" where
  "streamXattrSize F k path stream = getxattrSize F k path (streamXattrName stream)"

definition afpInfoStreamName :: gostring where
  "afpInfoStreamName = lit ''AFP_AfpInfo''"

definition afpInfoSize :: nat where
  "afpInfoSize = 60"

text \<open>The call with a buffer of \<open>n\<close> bytes.\<close>

definition Getxattr_buf :: "'k fs_calls \<Rightarrow> 'k \<Rightarrow> gostring \<Rightarrow> gostring \<Rightarrow> nat \<Rightarrow> errno + bytes" where
  "Getxattr_buf F k path name n =
     (case x_get F k path name of Inl e \<Rightarrow> Inl e | Inr v \<Rightarrow> if length v > n then Inl ERANGE else Inr v)"

definition finder_info_of :: "bytes \<Rightarrow> bytes option" where
  "finder_info_of blob = (if length blob < 16 + 32 then None else Some (take 32 (drop 16 blob)))"

definition readAFPFinderInfo :: "'k fs_calls \<Rightarrow> 'k \<Rightarrow> gostring \<Rightarrow> bytes option" where
  "readAFPFinderInfo F k path =
     (case Getxattr_buf F k path (streamXattrName afpInfoStreamName) afpInfoSize of
        Inr v \<Rightarrow> finder_info_of v
      | Inl e \<Rightarrow>
          if e \<noteq> ERANGE then None
          else (case getxattr F k path (streamXattrName afpInfoStreamName) of
                  Inr (Some blob) \<Rightarrow> finder_info_of blob
                | _ \<Rightarrow> None))"

function split_nul :: "bytes \<Rightarrow> bytes list" where
  "split_nul b = (case dropWhile (\<lambda>c. c \<noteq> 0) b of [] \<Rightarrow> [b] | _ # rest \<Rightarrow> takeWhile (\<lambda>c. c \<noteq> 0) b # split_nul rest)"
  by auto
termination
proof (relation "measure length", simp)
  fix b x and rest :: bytes
  assume "dropWhile (\<lambda>c. c \<noteq> 0) b = x # rest"
  then have "Suc (length rest) \<le> length b" by (metis length_Cons length_dropWhile_le)
  then show "(rest, b) \<in> measure length" by simp
qed

declare split_nul.simps [simp del]

definition listXattrNames :: "'k fs_calls \<Rightarrow> 'k \<Rightarrow> gostring \<Rightarrow> xattr_err + gostring list" where
  "listXattrNames F k path =
     (case x_list F k path of
        Inl e \<Rightarrow> (case classifyXattrErr F e of None \<Rightarrow> Inr [] | Some e' \<Rightarrow> Inl e')
      | Inr buf \<Rightarrow> Inr (filter (\<lambda>n. n \<noteq> []) (if buf = [] then [] else split_nul buf)))"

definition readStreamXattr :: "'k fs_calls \<Rightarrow> 'k \<Rightarrow> gostring \<Rightarrow> gostring \<Rightarrow> xattr_err + bytes option" where
  "readStreamXattr F k path stream = getxattr F k path (streamXattrName stream)"

definition streamExists :: "'k fs_calls \<Rightarrow> 'k \<Rightarrow> gostring \<Rightarrow> gostring \<Rightarrow> xattr_err + bool" where
  "streamExists F k path stream =
     (case x_get F k path (streamXattrName stream) of
        Inr _ \<Rightarrow> Inr True
      | Inl e \<Rightarrow> if x_notFound F e then Inr False
                  else if e = ENOTSUP then Inl ErrXattrUnsupported else Inl (XattrErrno e))"

record streamInfo =
  si_Name :: gostring
  si_Size :: nat

fun list_streams :: "'k fs_calls \<Rightarrow> 'k \<Rightarrow> gostring \<Rightarrow> gostring list \<Rightarrow> xattr_err + streamInfo list" where
  "list_streams F k path [] = Inr []"
| "list_streams F k path (n # ns) =
     (if \<not> prefix adsXattrPrefix n then list_streams F k path ns
      else
        let stream = drop (length adsXattrPrefix) n in
        if stream = [] then list_streams F k path ns
        else case getxattrSize F k path n of
               Inl e \<Rightarrow> Inl e
             | Inr sz \<Rightarrow> map_sum id (Cons \<lparr>si_Name = stream, si_Size = sz\<rparr>) (list_streams F k path ns))"

definition listStreams :: "'k fs_calls \<Rightarrow> 'k \<Rightarrow> gostring \<Rightarrow> xattr_err + streamInfo list" where
  "listStreams F k path =
     (case listXattrNames F k path of Inl e \<Rightarrow> Inl e | Inr names \<Rightarrow> list_streams F k path names)"

record eaInfo =
  ea_Name :: gostring
  ea_Value :: bytes

fun list_eas :: "'k fs_calls \<Rightarrow> 'k \<Rightarrow> gostring \<Rightarrow> gostring list \<Rightarrow> xattr_err + eaInfo list" where
  "list_eas F k path [] = Inr []"
| "list_eas F k path (n # ns) =
     (if \<not> prefix eaXattrPrefix n then list_eas F k path ns
      else if prefix adsXattrPrefix n then list_eas F k path ns
      else case getxattr F k path n of
             Inl e \<Rightarrow> Inl e
           | Inr v \<Rightarrow>
               map_sum id (Cons \<lparr>ea_Name = drop (length eaXattrPrefix) n, ea_Value = (case v of None \<Rightarrow> [] | Some x \<Rightarrow> x)\<rparr>)
                 (list_eas F k path ns))"

definition listEAs :: "'k fs_calls \<Rightarrow> 'k \<Rightarrow> gostring \<Rightarrow> xattr_err + eaInfo list" where
  "listEAs F k path =
     (case listXattrNames F k path of Inl e \<Rightarrow> Inl e | Inr names \<Rightarrow> list_eas F k path names)"

section \<open>Writing\<close>

definition writeStreamXattr :: "'k fs_calls \<Rightarrow> 'k \<Rightarrow> gostring \<Rightarrow> gostring \<Rightarrow> bytes \<Rightarrow> 'k \<times> xattr_err option" where
  "writeStreamXattr F k path stream data =
     (case f_openNoFollow F k path of
        None \<Rightarrow> map_prod id classifySetxattrErr (x_set F k (AtNoFollow path) (streamXattrName stream) data)
      | Some e \<Rightarrow>
          if e = ELOOP then (k, Some (XattrErrno ELOOP))
          else map_prod id classifySetxattrErr (x_set F k (AtPath path) (streamXattrName stream) data))"

definition removeStreamXattr :: "'k fs_calls \<Rightarrow> 'k \<Rightarrow> gostring \<Rightarrow> gostring \<Rightarrow> 'k \<times> xattr_err option" where
  "removeStreamXattr F k path stream =
     (case x_remove F k path (streamXattrName stream) of
        (k', None) \<Rightarrow> (k', None)
      | (k', Some e) \<Rightarrow> (k', classifyXattrErr F e))"

definition setEA :: "'k fs_calls \<Rightarrow> (gostring \<Rightarrow> gostring) \<Rightarrow> 'k \<Rightarrow> gostring \<Rightarrow> gostring \<Rightarrow> bytes \<Rightarrow> 'k \<times> xattr_err option" where
  "setEA F toLower k path name val =
     map_prod id classifySetxattrErr (x_set F k (AtPath path) (eaXattrName toLower name) val)"

definition setEAOnFile :: "'k fs_calls \<Rightarrow> (gostring \<Rightarrow> gostring) \<Rightarrow> 'k \<Rightarrow> open_ref option \<Rightarrow> gostring \<Rightarrow> gostring \<Rightarrow> bytes \<Rightarrow> 'k \<times> xattr_err option" where
  "setEAOnFile F toLower k f path name val =
     (case f of
        None \<Rightarrow> setEA F toLower k path name val
      | Some h \<Rightarrow> map_prod id classifySetxattrErr (x_set F k (AtHandle h) (eaXattrName toLower name) val))"

section \<open>Lists of extended attributes\<close>

text \<open>The eight bytes of an entry's header are there when its fields are read.\<close>

function parse_eas :: "bytes \<Rightarrow> nat \<Rightarrow> eaInfo list" where
  "parse_eas buf off =
     (if off + 8 \<le> length buf then
        let nxt = (le_word (take 4 (drop off buf)) :: u32);
            nameLen = unat (buf ! (off + 5));
            valLen = unat (le_word (take 2 (drop (off + 6) buf)) :: u16);
            nameStart = off + 8;
            valStart = nameStart + nameLen + 1
        in if nameStart + nameLen > length buf \<or> valStart + valLen > length buf then []
           else
             let ea = \<lparr>ea_Name = take nameLen (drop nameStart buf), ea_Value = take valLen (drop valStart buf)\<rparr>;
                 here = (if ea_Name ea \<noteq> [] then [ea] else [])
             in if nxt = 0 then here else here @ parse_eas buf (off + unat nxt)
      else [])"
  by auto
termination
  by (relation "measure (\<lambda>(buf, off). length buf - off)") (auto simp: unat_gt_0 intro!: diff_less_mono2)

declare parse_eas.simps [simp del]

definition parseFullEaList :: "bytes \<Rightarrow> eaInfo list" where
  "parseFullEaList buf = parse_eas buf 0"

definition ea_entry :: "(gostring \<Rightarrow> gostring) \<Rightarrow> eaInfo \<Rightarrow> bytes" where
  "ea_entry toUpper ea =
     (let name = toUpper (ea_Name ea);
          entry = zeros (8 + length name + 1 + length (ea_Value ea));
          entry = patch 5 [word_of_nat (length name)] entry;
          entry = patch 6 (le16 (word_of_nat (length (ea_Value ea)))) entry;
          entry = patch 8 name entry
      in patch (8 + length name + 1) (ea_Value ea) entry)"

definition pad_ea :: "bytes \<Rightarrow> bytes" where
  "pad_ea entry = entry @ zeros (if length entry mod 4 = 0 then 0 else 4 - length entry mod 4)"

fun encodeFullEaList :: "(gostring \<Rightarrow> gostring) \<Rightarrow> eaInfo list \<Rightarrow> bytes" where
  "encodeFullEaList toUpper [] = []"
| "encodeFullEaList toUpper [ea] = ea_entry toUpper ea"
| "encodeFullEaList toUpper (ea # eas) =
     (let entry = pad_ea (ea_entry toUpper ea) in
      patch 0 (le32 (word_of_nat (length entry))) entry @ encodeFullEaList toUpper eas)"

section \<open>The list of streams\<close>

definition stream_record :: "gostring \<times> u64 \<Rightarrow> bytes" where
  "stream_record e =
     (let nameU16 = utf16leName (fst e);
          rec = zeros (24 + length nameU16);
          rec = patch 4 (le32 (word_of_nat (length nameU16))) rec;
          rec = patch 8 (le64 (snd e)) rec;
          rec = patch 16 (le64 (snd e)) rec
      in patch 24 nameU16 rec)"

fun stream_records :: "(gostring \<times> u64) list \<Rightarrow> bytes" where
  "stream_records [] = []"
| "stream_records (e # es) =
     (let rec = stream_record e;
          rec = rec @ zeros (if length rec mod 8 = 0 then 0 else 8 - length rec mod 8);
          rec = (if es \<noteq> [] then patch 0 (le32 (word_of_nat (length rec))) rec else rec)
      in rec @ stream_records es)"

definition stream_entries :: "'k fs_calls \<Rightarrow> 'k \<Rightarrow> gostring \<Rightarrow> int \<Rightarrow> (gostring \<times> u64) list" where
  "stream_entries F k path fileSize =
     (case f_Lstat F k path of
        Inr st \<Rightarrow> if fi_IsDir st then [] else [(lit ''::$DATA'', word_of_int fileSize)]
      | Inl _ \<Rightarrow> [(lit ''::$DATA'', word_of_int fileSize)]) @
     (case listStreams F k path of
        Inl _ \<Rightarrow> []
      | Inr ss \<Rightarrow> map (\<lambda>s. (lit '':'' @ si_Name s @ lit '':$DATA'', word_of_nat (si_Size s))) ss)"

definition encodeStreamInfoList :: "'k fs_calls \<Rightarrow> 'k \<Rightarrow> gostring \<Rightarrow> int \<Rightarrow> bytes" where
  "encodeStreamInfoList F k path fileSize = stream_records (stream_entries F k path fileSize)"

section \<open>Stream names\<close>

definition synthAFPInfo :: bytes where
  "synthAFPInfo = patch 0 [0x41, 0x46, 0x50, 0x00, 0x00, 0x00, 0x01, 0x00] (zeros afpInfoSize)"

definition isAFPInfoStream :: "(gostring \<Rightarrow> gostring \<Rightarrow> bool) \<Rightarrow> gostring \<Rightarrow> bool" where
  "isAFPInfoStream equalFold name = equalFold name (lit ''AFP_AfpInfo'')"

text \<open>\<open>None\<close> is a stream type other than \<^verbatim>\<open>$DATA\<close>.\<close>

definition splitStreamName :: "(gostring \<Rightarrow> gostring \<Rightarrow> bool) \<Rightarrow> gostring \<Rightarrow> (gostring \<times> gostring) option" where
  "splitStreamName equalFold name =
     (case dropWhile (\<lambda>c. c \<noteq> 0x3A) name of
        [] \<Rightarrow> Some (name, [])
      | _ # rest \<Rightarrow>
          let base = takeWhile (\<lambda>c. c \<noteq> 0x3A) name in
          if 0x3A \<in> set rest then
            let suffix = rev (takeWhile (\<lambda>c. c \<noteq> 0x3A) (rev rest));
                stream = take (length rest - length suffix - 1) rest
            in if \<not> equalFold suffix (lit ''$DATA'') then None else Some (base, stream)
          else Some (base, rest))"

section \<open>Reading back a list of attributes\<close>

lemma patch_mid: "off = length a \<Longrightarrow> length x = length b \<Longrightarrow> patch off x (a @ b @ c) = a @ x @ c"
proof -
  assume "off = length a" "length x = length b"
  then have "patch off x (a @ b @ c) = a @ patch 0 x (b @ c)" using patch_append_right [of off a 0] by simp
  also have "patch 0 x (b @ c) = patch 0 x b @ c" using \<open>length x = length b\<close> by (intro patch_append_left) simp
  also have "patch 0 x b = x" using patch_tail [of 0 "[]" x b] \<open>length x = length b\<close> by simp
  finally show ?thesis .
qed

lemma ea_entry_eq:
  "ea_entry toUpper ea =
     zeros 5 @ [word_of_nat (length (toUpper (ea_Name ea)))] @ le16 (word_of_nat (length (ea_Value ea))) @
     toUpper (ea_Name ea) @ [0] @ ea_Value ea"
proof -
  let ?n = "toUpper (ea_Name ea)" and ?v = "ea_Value ea"
  have z: "zeros (8 + length ?n + 1 + length ?v) = zeros 5 @ zeros 1 @ zeros 2 @ zeros (length ?n) @ zeros 1 @ zeros (length ?v)"
  proof -
    have "8 + length ?n + 1 + length ?v = 5 + (1 + (2 + (length ?n + (1 + length ?v))))" by simp
    then show ?thesis by (simp only: replicate_add)
  qed
  have "ea_entry toUpper ea = patch (8 + length ?n + 1) ?v (patch 8 ?n (patch 6 (le16 (word_of_nat (length ?v)))
      (patch 5 [word_of_nat (length ?n)] (zeros 5 @ zeros 1 @ zeros 2 @ zeros (length ?n) @ zeros 1 @ zeros (length ?v)))))"
    by (simp only: ea_entry_def Let_def z)
  also have "patch 5 [word_of_nat (length ?n)] (zeros 5 @ zeros 1 @ zeros 2 @ zeros (length ?n) @ zeros 1 @ zeros (length ?v)) =
      (zeros 5 @ [word_of_nat (length ?n)]) @ zeros 2 @ zeros (length ?n) @ zeros 1 @ zeros (length ?v)"
    by (subst patch_mid) simp_all
  also have "patch 6 (le16 (word_of_nat (length ?v))) \<dots> =
      (zeros 5 @ [word_of_nat (length ?n)] @ le16 (word_of_nat (length ?v))) @ zeros (length ?n) @ zeros 1 @ zeros (length ?v)"
    by (subst patch_mid) simp_all
  also have "patch 8 ?n \<dots> = (zeros 5 @ [word_of_nat (length ?n)] @ le16 (word_of_nat (length ?v)) @ ?n @ [0]) @ zeros (length ?v)"
    by (subst patch_mid) simp_all
  also have "patch (8 + length ?n + 1) ?v \<dots> = zeros 5 @ [word_of_nat (length ?n)] @ le16 (word_of_nat (length ?v)) @ ?n @ [0] @ ?v"
    by (subst patch_tail) simp_all
  finally show ?thesis .
qed

lemma parse_entry:
  assumes buf: "buf = pre @ le32 nxt @ [fl, word_of_nat (length name)] @ le16 (word_of_nat (length val)) @ name @ [0] @ val @ rest"
    and len: "length name < 256" "length val < 65536"
  shows "parse_eas buf (length pre) =
    (if name \<noteq> [] then [\<lparr>ea_Name = name, ea_Value = val\<rparr>] else []) @ (if nxt = 0 then [] else parse_eas buf (length pre + unat nxt))"
proof -
  have d: "take 4 (drop (length pre) buf) = le32 nxt" "take 2 (drop (length pre + 6) buf) = le16 (word_of_nat (length val))"
    "buf ! (length pre + 5) = word_of_nat (length name)" "take (length name) (drop (length pre + 8) buf) = name"
    by (simp_all add: buf nth_append)
  have v: "take (length val) (drop (length pre + 8 + length name + 1) buf) = val"
  proof -
    let ?p = "pre @ le32 nxt @ [fl, word_of_nat (length name)] @ le16 (word_of_nat (length val)) @ name @ [0]"
    have "buf = ?p @ val @ rest" "length pre + 8 + length name + 1 = length ?p" by (simp_all add: buf)
    then show ?thesis by (simp only: append_eq_conv_conj drop_append) simp
  qed
  have u: "unat (word_of_nat (length name) :: byte) = length name" "unat (word_of_nat (length val) :: u16) = length val"
    using len by (simp_all add: unat_of_nat take_bit_nat_eq_self)
  have l: "length buf = length pre + 8 + length name + 1 + length val + length rest" by (simp add: buf)
  show ?thesis
    by (subst parse_eas.simps) (simp add: d v [simplified] u l Let_def)
qed

text \<open>The list a client gets, read by the parser for the list a client sends.\<close>

definition ea_fits :: "(gostring \<Rightarrow> gostring) \<Rightarrow> eaInfo \<Rightarrow> bool" where
  "ea_fits toUpper ea \<longleftrightarrow>
     toUpper (ea_Name ea) \<noteq> [] \<and> length (toUpper (ea_Name ea)) < 256 \<and> length (ea_Value ea) < 65536"

lemma parse_eas_encode:
  assumes "list_all (ea_fits toUpper) eas"
  shows "parse_eas (pre @ encodeFullEaList toUpper eas) (length pre) = map (\<lambda>ea. ea\<lparr>ea_Name := toUpper (ea_Name ea)\<rparr>) eas"
  using assms
proof (induction toUpper eas arbitrary: pre rule: encodeFullEaList.induct)
  case (1 toUpper)
  show ?case by (subst parse_eas.simps) simp
next
  case (2 toUpper ea)
  let ?n = "toUpper (ea_Name ea)"
  have "pre @ encodeFullEaList toUpper [ea] = pre @ le32 0 @ [0, word_of_nat (length ?n)] @ le16 (word_of_nat (length (ea_Value ea))) @ ?n @ [0] @ ea_Value ea @ []"
    by (simp add: ea_entry_eq numeral_eq_Suc)
  from parse_entry [OF this] "2.prems" show ?case by (simp add: ea_fits_def)
next
  case (3 toUpper ea ea2 eas)
  let ?n = "toUpper (ea_Name ea)" and ?e = "pad_ea (ea_entry toUpper ea)" and ?rest = "encodeFullEaList toUpper (ea2 # eas)"
  obtain pad where "?e = ea_entry toUpper ea @ pad" by (simp add: pad_ea_def)
  moreover have "zeros 5 = zeros 4 @ [0]" by (simp add: numeral_eq_Suc)
  ultimately have e: "?e = zeros 4 @ [0, word_of_nat (length ?n)] @ le16 (word_of_nat (length (ea_Value ea))) @ ?n @ [0] @ ea_Value ea @ pad"
    by (simp add: ea_entry_eq)
  define e' where "e' = le32 (word_of_nat (length ?e)) @ [0, word_of_nat (length ?n)] @ le16 (word_of_nat (length (ea_Value ea))) @ ?n @ [0] @ ea_Value ea @ pad"
  have "patch 0 x ?e = x @ drop 4 ?e" if "length x = 4" for x
    using patch_mid [of 0 "[]" x "zeros 4"] that e by simp
  moreover have "e' = le32 (word_of_nat (length ?e)) @ drop 4 ?e"
    using arg_cong [OF e, of "drop 4"] unfolding e'_def by simp
  ultimately have enc: "encodeFullEaList toUpper (ea # ea2 # eas) = e' @ ?rest" by (simp add: Let_def)
  have len: "length e' = length ?e" using arg_cong [OF e, of length] by (simp add: e'_def)
  have fits: "length ?n < 256" "length (ea_Value ea) < 65536" "?n \<noteq> []" using "3.prems" by (auto simp: ea_fits_def)
  have "length ?e < 2 ^ 32"
    using fits by (auto simp: pad_ea_def ea_entry_eq intro: le_less_trans [OF diff_le_self])
  then have un: "unat (word_of_nat (length ?e) :: u32) = length ?e" by (simp add: unat_of_nat take_bit_nat_eq_self)
  have "0 < length ?e" by (simp add: pad_ea_def ea_entry_eq)
  then have nz: "(word_of_nat (length ?e) :: u32) \<noteq> 0" using un by auto
  have "parse_eas (pre @ e' @ ?rest) (length pre) = [\<lparr>ea_Name = ?n, ea_Value = ea_Value ea\<rparr>] @ parse_eas (pre @ e' @ ?rest) (length pre + length ?e)"
    using parse_entry [of "pre @ e' @ ?rest" pre "word_of_nat (length ?e)" 0 ?n "ea_Value ea" "pad @ ?rest"] fits un nz
    by (simp add: e'_def)
  moreover have "parse_eas (pre @ e' @ ?rest) (length pre + length ?e) = map (\<lambda>ea. ea\<lparr>ea_Name := toUpper (ea_Name ea)\<rparr>) (ea2 # eas)"
    using "3.IH" [of ?e "pre @ e'"] "3.prems" len by simp
  ultimately show ?case by (simp only: enc) simp
qed

section \<open>Reading back a list of streams\<close>

lemma stream_records_linked: "stream_records es = linked (map stream_record es)"
proof -
  have pad: "r @ zeros (if length r mod 8 = 0 then 0 else 8 - length r mod 8) = pad_record r" for r :: bytes
    by (simp add: pad_record_def padTo8_def Let_def)
  show ?thesis
  proof (induction es rule: induct_list012)
    case (3 e e2 es)
    then show ?case by (simp only: stream_records.simps pad Let_def) (simp add: pad)
  qed (simp_all only: stream_records.simps pad Let_def, simp_all add: pad)
qed

lemma stream_record_layout:
  "4 \<le> length (stream_record e)" "take 4 (stream_record e) = zeros 4" "length (stream_record e) = 24 + length (utf16leName (fst e))"
  "take 4 (drop 4 (stream_record e)) = le32 (word_of_nat (length (utf16leName (fst e))))"
  "take 8 (drop 8 (stream_record e)) = le64 (snd e)" "drop 24 (stream_record e) = utf16leName (fst e)"
proof -
  show len: "length (stream_record e) = 24 + length (utf16leName (fst e))" by (simp add: stream_record_def Let_def)
  then show "4 \<le> length (stream_record e)" by simp
  show "take 4 (stream_record e) = zeros 4" by (simp add: stream_record_def Let_def take_drop_0_patch min_def)
  show "take 4 (drop 4 (stream_record e)) = le32 (word_of_nat (length (utf16leName (fst e))))"
    by (simp add: stream_record_def Let_def patch_other patch_same)
  show "take 8 (drop 8 (stream_record e)) = le64 (snd e)"
    by (simp add: stream_record_def Let_def patch_other patch_same)
  show "drop 24 (stream_record e) = utf16leName (fst e)"
    by (simp add: stream_record_def Let_def drop_patch_same)
qed

text \<open>How a client reads a record: the name and the size.\<close>

definition stream_of_record :: "bytes \<Rightarrow> (bytes \<times> u64) option" where
  "stream_of_record rec = do {
     n \<leftarrow> u32_at rec 4;
     sz \<leftarrow> u64_at rec 8;
     name \<leftarrow> go_slice rec 24 (24 + unat n);
     Some (name, sz)
   }"

lemma stream_of_record_read:
  assumes "length (utf16leName (fst e)) < 2 ^ 32" "take (length (stream_record e) - 4) (drop 4 rec') = drop 4 (stream_record e)"
    and "length (stream_record e) \<le> length rec'"
  shows "stream_of_record rec' = Some (utf16leName (fst e), snd e)"
proof -
  let ?r = "stream_record e"
  have same: "take k (drop o' rec') = take k (drop o' ?r)" if "4 \<le> o'" "o' + k \<le> length ?r" for o' k
  proof -
    have "take k (drop o' ?r) = take k (drop (o' - 4) (drop 4 ?r))" using that by simp
    also have "\<dots> = take k (drop (o' - 4) (take (length ?r - 4) (drop 4 rec')))" by (simp only: assms(2))
    also have "\<dots> = take k (drop o' rec')" using that by (simp add: drop_take min_def)
    finally show ?thesis by simp
  qed
  note lay = stream_record_layout [of e]
  have "u32_at rec' 4 = Some (word_of_nat (length (utf16leName (fst e))))" "u64_at rec' 8 = Some (snd e)"
    using same [of 4 4] same [of 8 8] lay assms(3) by (simp_all add: u32_at_def u64_at_def)
  moreover have "take (length (utf16leName (fst e))) (drop 24 rec') = utf16leName (fst e)"
    using same [of 24 "length (utf16leName (fst e))"] lay by simp
  ultimately show ?thesis
    using assms(1,3) lay(3) by (simp add: stream_of_record_def go_slice_def unat_of_nat take_bit_nat_eq_self)
qed

lemma stream_list_reads_back:
  assumes "length (stream_records es) < 2 ^ 32"
  shows "map stream_of_record (walk_records (stream_records es)) = map (\<lambda>e. Some (utf16leName (fst e), snd e)) es"
proof (cases "es = []")
  case True
  then show ?thesis by (simp add: walk_records.simps u32_at_def)
next
  case False
  let ?recs = "map stream_record es"
  have len: "length (linked ?recs) < 2 ^ 32" using assms by (simp add: stream_records_linked)
  have ne: "?recs \<noteq> []" using False by simp
  have "4 \<le> length x \<and> take 4 x = zeros 4" if "x \<in> set ?recs" for x using that stream_record_layout(1,2) by auto
  note w = walk_linked [OF ne this len]
  have small: "length (utf16leName (fst (es ! i))) < 2 ^ 32" if "i < length es" for i
    using stream_record_layout(3) [of "es ! i"] length_le_linked [of "stream_record (es ! i)" ?recs] that len by auto
  have "stream_of_record (walk_records (linked ?recs) ! i) = Some (utf16leName (fst (es ! i)), snd (es ! i))" if "i < length es" for i
    using w that by (intro stream_of_record_read small) auto
  moreover have "length (walk_records (linked ?recs)) = length es" using w by simp
  ultimately show ?thesis
    unfolding stream_records_linked by (intro nth_equalityI) simp_all
qed

text \<open>C37: The two attribute lists of the server read back as what they were built from. The list of
  extended attributes, walked by the parser the server applies to the lists of its clients, yields every
  attribute in order with its value and its name in upper case, when every name in upper case has between 1 and 255
  bytes and every value at most 65535. The list of streams, walked by its record offsets, yields every stream in order with
  its name and its size, none when there is none, as long as the list is shorter than 4 GiB.\<close>

theorem attribute_lists_read_back:
  assumes "list_all (ea_fits toUpper) eas" and "length (stream_records es) < 2 ^ 32"
  shows "parseFullEaList (encodeFullEaList toUpper eas) = map (\<lambda>ea. ea\<lparr>ea_Name := toUpper (ea_Name ea)\<rparr>) eas \<and>
    map stream_of_record (walk_records (stream_records es)) = map (\<lambda>e. Some (utf16leName (fst e), snd e)) es"
  using parse_eas_encode [OF assms(1), of "[]"] stream_list_reads_back [OF assms(2)] by (simp add: parseFullEaList_def)

theorem attribute_lists_read_back_witness:
  "parseFullEaList (encodeFullEaList id [\<lparr>ea_Name = [0x41], ea_Value = [1, 2]\<rparr>, \<lparr>ea_Name = [0x42], ea_Value = []\<rparr>])
     = [\<lparr>ea_Name = [0x41], ea_Value = [1, 2]\<rparr>, \<lparr>ea_Name = [0x42], ea_Value = []\<rparr>] \<and>
   map stream_of_record (walk_records (stream_records [([], 5)])) = [Some ([], 5)]"
proof -
  have e: "list_all (ea_fits id) [\<lparr>ea_Name = [0x41], ea_Value = [1, 2]\<rparr>, \<lparr>ea_Name = [0x42], ea_Value = []\<rparr>]"
    by (simp add: ea_fits_def)
  have u: "utf16leName [] = []" by (simp add: utf16leName_def range_runes.simps)
  have "length (stream_records [([], 5)]) < 2 ^ 32"
    by (simp add: stream_records_linked length_pad_record stream_record_layout(3) u padTo8_def)
  from attribute_lists_read_back [OF e this] u show ?thesis by simp
qed

section \<open>Names\<close>

text \<open>The syntax a client uses for a stream is taken apart as it was put together; a stream name may
  contain colons.\<close>

lemma splitStreamName_typed:
  assumes "0x3A \<notin> set base" "equalFold (lit ''$DATA'') (lit ''$DATA'')"
  shows "splitStreamName equalFold (base @ 0x3A # stream @ 0x3A # lit ''$DATA'') = Some (base, stream)"
proof -
  have d: "0x3A \<notin> set (lit ''$DATA'')" by (simp add: lit_def)
  have drop: "dropWhile (\<lambda>c. c \<noteq> 0x3A) (base @ 0x3A # rest) = 0x3A # rest"
    and take: "takeWhile (\<lambda>c. c \<noteq> 0x3A) (base @ 0x3A # rest) = base" for rest :: bytes
    using assms(1) by (auto simp: dropWhile_append takeWhile_append)
  have suffix: "rev (takeWhile (\<lambda>c. c \<noteq> 0x3A) (rev (stream @ 0x3A # lit ''$DATA''))) = lit ''$DATA''"
    using d by (simp add: takeWhile_append)
  show ?thesis
    unfolding splitStreamName_def drop take by (simp add: Let_def suffix [simplified] assms(2))
qed

text \<open>An extended attribute can bear the name of a stream's backing attribute.\<close>

lemma ea_can_alias_a_stream: "eaXattrName (\<lambda>s. s) (lit ''gosamba.ads.x'') = streamXattrName (lit ''x'')"
  by code_simp

end
