(* ===== verification/Close.thy ===== *)
theory Close
  imports Xattr Session_Properties Dispatch
begin

text \<open>
  CLOSE (\<^verbatim>\<open>handleClose\<close> and \<^verbatim>\<open>closeAttribsUsable\<close> of \<^verbatim>\<open>internal/parent/dispatch.go\<close>): the handle leaves the
  session and gives up everything it holds before any of the steps that may fail; then a stream is
  written to (or removed from) the attribute behind it and a name marked for deletion is removed.

  The state of the machine is reached through the calls \<open>fs_calls\<close>. The connection, its durable table and the lock
  manager are those of a served connection, so the nil tests on them are left out.
\<close>

section \<open>The handler\<close>

definition closeAttribsUsable :: "close_request \<Rightarrow> close_response \<Rightarrow> bool" where
  "closeAttribsUsable req resp =
     (if clq_Flags req AND CloseFlagPostQueryAttrib = 0 then False
      else clp_CreationTime resp \<noteq> 0 \<and> clp_LastAccessTime resp \<noteq> 0 \<and> clp_LastWriteTime resp \<noteq> 0 \<and> clp_ChangeTime resp \<noteq> 0)"

definition empty_close :: close_response where
  "empty_close = \<lparr>clp_Flags = 0, clp_CreationTime = 0, clp_LastAccessTime = 0, clp_LastWriteTime = 0, clp_ChangeTime = 0,
     clp_AllocationSize = 0, clp_EndOfFile = 0, clp_FileAttributes = 0\<rparr>"

definition flag_attribs :: "close_request \<Rightarrow> close_response \<Rightarrow> close_response" where
  "flag_attribs req resp = (if closeAttribsUsable req resp then resp\<lparr>clp_Flags := CloseFlagPostQueryAttrib\<rparr> else resp)"

text \<open>What the handle gives up, in the order of the code: share mode, parked notifications, resume
  key, durable entry, locks, descriptor.\<close>

definition close_release :: "key_for \<Rightarrow> host_ref \<Rightarrow> open_ref \<Rightarrow> server \<Rightarrow> server" where
  "close_release fstat host h sv =
     (let op = hs_opens (sv_handles sv) h;
          hs1 = (sv_handles sv)\<lparr>hs_shares := sm_release (hs_shares (sv_handles sv)) (Some h)\<rparr>;
          asy = cancelNotifiesForOpens [h] (sv_async sv host);
          rk = rk_release (Some h) (sv_resume sv host);
          dt = (if o_IsDurable op
                then map_option (Remove (o_DurableClientGuid op) (o_DurableCreateGuid op)) (sv_durable sv) else sv_durable sv);
          hs2 = (if o_HasFile op then close_file h (hs1\<lparr>hs_locks := releaseAll fstat (hs_locks hs1) h\<rparr>) else hs1)
      in sv\<lparr>sv_handles := hs2, sv_durable := dt, sv_resume := (sv_resume sv)(host := rk), sv_async := (sv_async sv)(host := asy)\<rparr>)"

text \<open>The flush or removal of a stream: what happened to the machine, and the status of a failure.\<close>

definition flush_stream :: "'k fs_calls \<Rightarrow> Open \<Rightarrow> 'k \<Rightarrow> 'k \<times> Status option" where
  "flush_stream F op k =
     (if o_DeleteOnClose op then
        (case removeStreamXattr F k (o_Path op) (o_StreamName op) of
           (k', None) \<Rightarrow> (k', None)
         | (k', Some ErrXattrUnsupported) \<Rightarrow> (k', None)
         | (k', Some (XattrErrno e)) \<Rightarrow> (k', Some (statusFromErr (Some (Errno e)))))
      else if o_streamSynthetic op \<and> \<not> o_streamWritten op then (k, None)
      else
        (case writeStreamXattr F k (o_Path op) (o_StreamName op) (o_streamBuf op) of
           (k', None) \<Rightarrow> (k', None)
         | (k', Some ErrXattrUnsupported) \<Rightarrow> (k', None)
         | (k', Some (XattrErrno e)) \<Rightarrow>
             (k', Some (if e = E2BIG then StatusDiskFull else statusFromErr (Some (Errno e))))))"

definition close_stream ::
  "'k fs_calls \<Rightarrow> int \<times> nat \<Rightarrow> dispatcher \<Rightarrow> header \<Rightarrow> close_request \<Rightarrow> sess_ref \<Rightarrow> Open \<Rightarrow> 'k dstate \<Rightarrow> (bool \<times> 'k dstate) option" where
  "close_stream F time_now d hdr req r op ds =
     (case flush_stream F op (ds_k ds) of
        (k', Some status) \<Rightarrow> keep (respondError d hdr status (Some r) (ds\<lparr>ds_k := k'\<rparr>))
      | (k', None) \<Rightarrow>
          let now = filetimeFromTime time_now; len = word_of_nat (length (o_streamBuf op));
              resp = \<lparr>clp_Flags = 0, clp_CreationTime = now, clp_LastAccessTime = now, clp_LastWriteTime = now,
                      clp_ChangeTime = now, clp_AllocationSize = len, clp_EndOfFile = len, clp_FileAttributes = FileAttrNormal\<rparr>
          in reply_body d hdr r (EncodeCloseResponse (flag_attribs req resp)) (ds\<lparr>ds_k := k'\<rparr>))"

definition names_share_root :: "Open \<Rightarrow> bool" where
  "names_share_root op =
     (case o_Tree op of None \<Rightarrow> False
      | Some t \<Rightarrow> sc_Path (t_Share t) \<noteq> [] \<and> Clean (namePath op) = Clean (sc_Path (t_Share t)))"

definition delete_name :: "'k fs_calls \<Rightarrow> Open \<Rightarrow> 'k \<Rightarrow> 'k \<times> Status option" where
  "delete_name F op k =
     (if names_share_root op then (k, Some StatusAccessDenied)
      else case f_Remove F k (namePath op) of
        (k', None) \<Rightarrow> (k', None)
      | (k', Some e) \<Rightarrow> (k', if os_IsNotExist (Errno e) then None else Some (statusFromErr (Some (Errno e)))))"

definition close_attributes :: "'k fs_calls \<Rightarrow> 'k \<Rightarrow> gostring \<Rightarrow> close_response" where
  "close_attributes F k path =
     (case f_Lstat F k path of
        Inl _ \<Rightarrow> empty_close
      | Inr st \<Rightarrow>
          let mt = filetimeFromTime (fi_ModTime st);
              ct = (case f_birthTime F k path of None \<Rightarrow> mt | Some bt \<Rightarrow> filetimeFromTime bt)
          in \<lparr>clp_Flags = 0, clp_CreationTime = ct, clp_LastAccessTime = mt, clp_LastWriteTime = mt, clp_ChangeTime = mt,
              clp_AllocationSize = word_of_int (fi_Size st), clp_EndOfFile = word_of_int (fi_Size st),
              clp_FileAttributes = (if fi_IsDir st then FileAttrDirectory else FileAttrNormal)\<rparr>)"

definition close_named ::
  "'k fs_calls \<Rightarrow> dispatcher \<Rightarrow> header \<Rightarrow> close_request \<Rightarrow> sess_ref \<Rightarrow> Open \<Rightarrow> 'k dstate \<Rightarrow> (bool \<times> 'k dstate) option" where
  "close_named F d hdr req r op ds =
     (case (if o_DeleteOnClose op then delete_name F op (ds_k ds) else (ds_k ds, None)) of
        (k', Some status) \<Rightarrow> keep (respondError d hdr status (Some r) (ds\<lparr>ds_k := k'\<rparr>))
      | (k', None) \<Rightarrow>
          let resp = (if o_DeleteOnClose op then empty_close else close_attributes F k' (o_Path op))
          in reply_body d hdr r (EncodeCloseResponse (flag_attribs req resp)) (ds\<lparr>ds_k := k'\<rparr>))"

definition handleClose :: "'k fs_calls \<Rightarrow> int \<times> nat \<Rightarrow> key_for \<Rightarrow> dispatcher \<Rightarrow> 'k handler" where
  "handleClose F time_now fstat d hdr body r ds =
     (case DecodeCloseRequest body of
        None \<Rightarrow> None
      | Some (Inl _) \<Rightarrow> keep (respondError d hdr StatusInvalidParameter (Some r) ds)
      | Some (Inr req) \<Rightarrow>
          (case RemoveOpen (clq_FileID req) (ds_session ds r) of (found, s') \<Rightarrow>
             let ds0 = with_sv (\<lambda>sv. sv\<lparr>sv_sess := (sv_sess sv)(r := s')\<rparr>) ds in
             (case found of
                None \<Rightarrow> keep (respondError d hdr StatusInvalidParameter (Some r) ds0)
              | Some h \<Rightarrow>
                  let op = hs_opens (sv_handles (ds_sv ds)) h;
                      ds1 = with_sv (close_release fstat (d_host d) h) ds0
                  in if o_IsPipe op then reply_body d hdr r (EncodeCloseResponse empty_close) ds1
                     else if o_IsStream op then close_stream F time_now d hdr req r op ds1
                     else close_named F d hdr req r op ds1)))"

lemma clp_Flags_empty: "clp_Flags empty_close = 0"
  by (simp add: empty_close_def)

section \<open>Everything is given up\<close>

lemma close_release_as_batch:
  "close_release fstat host h sv =
     (let sv' = release_on fstat host [h] sv in
      sv'\<lparr>sv_handles := (sv_handles sv')\<lparr>hs_opens := hs_opens (sv_handles sv)\<rparr>\<rparr>)"
  by (simp add: close_release_def release_on_def releaseOpens_def Let_def close_file_def)

lemma close_release_gone:
  assumes "conn_ok host sv"
  shows "handle_gone fstat (hs_opens (sv_handles sv) h) h host (close_release fstat host h sv)"
  using release_on_gone [OF assms, of h "[h]" fstat]
  by (simp add: close_release_as_batch handle_gone_def Let_def)

lemma close_release_sess [simp]: "sv_sess (close_release fstat host h sv) = sv_sess sv"
  by (simp add: close_release_as_batch Let_def)

lemma statusFromErr_failure: "statusFromErr (Some e) \<noteq> StatusSuccess"
  by (simp add: statusFromErr_def)

section \<open>What a CLOSE does\<close>

text \<open>The calls keep what POSIX says of unlink: a removed name is gone, and a name that could not be
  found is not there.\<close>

definition removes_names :: "'k fs_calls \<Rightarrow> bool" where
  "removes_names F \<longleftrightarrow>
     (\<forall>k p k' e. f_Remove F k p = (k', e) \<and> (e = None \<or> e = Some ENOENT) \<longrightarrow> f_Lstat F k' p = Inl ENOENT)"

definition close_outcome :: "'k fs_calls \<Rightarrow> Open \<Rightarrow> 'k \<Rightarrow> Status \<Rightarrow> 'k \<Rightarrow> bool" where
  "close_outcome F op k status k' \<longleftrightarrow>
     (if o_IsPipe op then status = StatusSuccess \<and> k' = k
      else if o_IsStream op then
        if \<not> o_DeleteOnClose op \<and> o_streamSynthetic op \<and> \<not> o_streamWritten op then status = StatusSuccess \<and> k' = k
        else (\<exists>e. (if o_DeleteOnClose op then removeStreamXattr F k (o_Path op) (o_StreamName op)
                   else writeStreamXattr F k (o_Path op) (o_StreamName op) (o_streamBuf op)) = (k', e)
               \<and> (status = StatusSuccess \<longleftrightarrow> e = None \<or> e = Some ErrXattrUnsupported))
      else if \<not> o_DeleteOnClose op then status = StatusSuccess \<and> k' = k
      else if names_share_root op then status = StatusAccessDenied \<and> k' = k
      else (\<exists>e. f_Remove F k (namePath op) = (k', e)
               \<and> (status = StatusSuccess \<longleftrightarrow> f_Lstat F k' (namePath op) = Inl ENOENT \<and> (e = None \<or> e = Some ENOENT))))"

text \<open>The attributes of a response: none of a pipe or a deleted name, and marked as usable only when
  they were asked for and there are four times.\<close>

definition close_reply :: "close_request \<Rightarrow> Open \<Rightarrow> Status \<Rightarrow> bytes \<Rightarrow> bool" where
  "close_reply req op status body \<longleftrightarrow>
     (if status \<noteq> StatusSuccess then body = errBody
      else \<exists>resp. EncodeCloseResponse resp = Some body
        \<and> (clp_Flags resp \<noteq> 0 \<longrightarrow> clq_Flags req AND CloseFlagPostQueryAttrib \<noteq> 0 \<and>
             0 \<notin> {clp_CreationTime resp, clp_LastAccessTime resp, clp_LastWriteTime resp, clp_ChangeTime resp})
        \<and> (o_IsPipe op \<or> \<not> o_IsStream op \<and> o_DeleteOnClose op \<longrightarrow> resp = empty_close))"

lemma EncodeCloseResponse_Some: "\<exists>b. EncodeCloseResponse resp = Some b"
  by (simp add: EncodeCloseResponse_def put_at_def)

lemma flag_attribs_honest:
  assumes "clp_Flags resp = 0"
  shows "clp_Flags (flag_attribs req resp) \<noteq> 0 \<longrightarrow> clq_Flags req AND CloseFlagPostQueryAttrib \<noteq> 0 \<and>
     0 \<notin> {clp_CreationTime (flag_attribs req resp), clp_LastAccessTime (flag_attribs req resp),
          clp_LastWriteTime (flag_attribs req resp), clp_ChangeTime (flag_attribs req resp)}"
  using assms by (simp add: flag_attribs_def closeAttribsUsable_def)

lemma flag_attribs_empty [simp]: "flag_attribs req empty_close = empty_close"
  by (simp add: flag_attribs_def closeAttribsUsable_def empty_close_def)

definition closed_as :: "'k fs_calls \<Rightarrow> header \<Rightarrow> close_request \<Rightarrow> sess_ref \<Rightarrow> Open \<Rightarrow> 'k dstate \<Rightarrow> (bool \<times> 'k dstate) option \<Rightarrow> bool" where
  "closed_as F hdr req r op ds res \<longleftrightarrow>
     (\<exists>status rbody ds'. res = Some (True, ds') \<and> answered hdr status (Some r) rbody (ds\<lparr>ds_k := ds_k ds'\<rparr>) ds'
        \<and> close_outcome F op (ds_k ds) status (ds_k ds') \<and> close_reply req op status rbody)"

lemma closed_as_error:
  assumes "status \<noteq> StatusSuccess" and "close_outcome F op (ds_k ds) status k'"
  shows "closed_as F hdr req r op ds (keep (respondError d hdr status (Some r) (ds\<lparr>ds_k := k'\<rparr>)))"
proof -
  obtain ds' where run: "respondError d hdr status (Some r) (ds\<lparr>ds_k := k'\<rparr>) = Some ds'"
    and ans: "answered hdr status (Some r) errBody (ds\<lparr>ds_k := k'\<rparr>) ds'"
    using respond_answered [of d hdr "Some r" status errBody "ds\<lparr>ds_k := k'\<rparr>"] by (auto simp: respondError_def)
  then have "ds_k ds' = k'" by (simp add: answered_def)
  with run ans assms show ?thesis unfolding closed_as_def by (auto simp: close_reply_def)
qed

lemma closed_as_success:
  assumes "close_outcome F op (ds_k ds) StatusSuccess k'" and "clp_Flags resp = 0"
    and "o_IsPipe op \<or> \<not> o_IsStream op \<and> o_DeleteOnClose op \<Longrightarrow> resp = empty_close"
  shows "closed_as F hdr req r op ds (reply_body d hdr r (EncodeCloseResponse (flag_attribs req resp)) (ds\<lparr>ds_k := k'\<rparr>))"
proof -
  obtain b where b: "EncodeCloseResponse (flag_attribs req resp) = Some b" using EncodeCloseResponse_Some by blast
  obtain ds' where run: "respondSuccess d hdr (Some r) b (ds\<lparr>ds_k := k'\<rparr>) = Some ds'"
    and ans: "answered hdr StatusSuccess (Some r) b (ds\<lparr>ds_k := k'\<rparr>) ds'"
    using respond_answered [of d hdr "Some r" StatusSuccess b "ds\<lparr>ds_k := k'\<rparr>"] by (auto simp: respondSuccess_def)
  have reply: "close_reply req op StatusSuccess b"
    unfolding close_reply_def using b flag_attribs_honest [OF assms(2), of req] assms(3) by auto
  have "ds_k ds' = k'" using ans by (simp add: answered_def)
  with b run ans reply assms(1) show ?thesis unfolding closed_as_def reply_body_def by auto
qed

lemma flush_stream_outcome:
  assumes "flush_stream F op k = (k', st)" and "\<not> o_IsPipe op" and "o_IsStream op"
  shows "close_outcome F op k (case st of None \<Rightarrow> StatusSuccess | Some s \<Rightarrow> s) k' \<and> st \<noteq> Some StatusSuccess"
proof (cases "\<not> o_DeleteOnClose op \<and> o_streamSynthetic op \<and> \<not> o_streamWritten op")
  case True
  with assms show ?thesis by (simp add: flush_stream_def close_outcome_def)
next
  case False
  obtain k1 e where call: "(if o_DeleteOnClose op then removeStreamXattr F k (o_Path op) (o_StreamName op)
      else writeStreamXattr F k (o_Path op) (o_StreamName op) (o_streamBuf op)) = (k1, e)" by fastforce
  then have st: "k' = k1 \<and> (st = None \<longleftrightarrow> e = None \<or> e = Some ErrXattrUnsupported) \<and> st \<noteq> Some StatusSuccess"
    using assms(1) False
    by (auto simp: flush_stream_def statusFromErr_failure split: if_splits option.splits xattr_err.splits prod.splits)
  show ?thesis
    using call st False assms(2,3) by (cases st) (auto simp: close_outcome_def)
qed

lemma delete_name_outcome:
  assumes "delete_name F op k = (k', st)" and "\<not> o_IsPipe op" and "\<not> o_IsStream op" and "o_DeleteOnClose op" and "removes_names F"
  shows "close_outcome F op k (case st of None \<Rightarrow> StatusSuccess | Some s \<Rightarrow> s) k' \<and> st \<noteq> Some StatusSuccess"
proof (cases "names_share_root op")
  case True
  with assms show ?thesis by (auto simp: delete_name_def close_outcome_def)
next
  case False
  obtain k1 e where call: "f_Remove F k (namePath op) = (k1, e)" by fastforce
  then have st: "k' = k1 \<and> (st = None \<longleftrightarrow> e = None \<or> e = Some ENOENT) \<and> st \<noteq> Some StatusSuccess"
    using assms(1) False
    by (auto simp: delete_name_def statusFromErr_failure os_IsNotExist_def split: if_splits option.splits)
  moreover have "e = None \<or> e = Some ENOENT \<Longrightarrow> f_Lstat F k1 (namePath op) = Inl ENOENT"
    using assms(5) call by (auto simp: removes_names_def)
  ultimately show ?thesis
    using call False assms(2-4) by (cases st) (auto simp: close_outcome_def)
qed

lemma close_stream_closes:
  assumes "\<not> o_IsPipe op" and "o_IsStream op"
  shows "closed_as F hdr req r op ds (close_stream F time_now d hdr req r op ds)"
proof -
  obtain k' st where fl: "flush_stream F op (ds_k ds) = (k', st)" by fastforce
  from flush_stream_outcome [OF fl assms] show ?thesis
    unfolding close_stream_def fl Let_def
    by (cases st) (auto intro!: closed_as_error closed_as_success simp: assms)
qed

lemma close_named_closes:
  assumes "\<not> o_IsPipe op" and "\<not> o_IsStream op" and "removes_names F"
  shows "closed_as F hdr req r op ds (close_named F d hdr req r op ds)"
proof (cases "o_DeleteOnClose op")
  case True
  obtain k' st where del: "delete_name F op (ds_k ds) = (k', st)" by fastforce
  from delete_name_outcome [OF del assms(1,2) True assms(3)] True show ?thesis
    unfolding close_named_def del Let_def
    by (cases st) (auto intro!: closed_as_error closed_as_success simp: empty_close_def simp del: flag_attribs_empty)
next
  case False
  have flags: "clp_Flags (close_attributes F (ds_k ds) (o_Path op)) = 0"
    by (simp add: close_attributes_def empty_close_def Let_def split: sum.split)
  have "close_outcome F op (ds_k ds) StatusSuccess (ds_k ds)" using False assms by (simp add: close_outcome_def)
  from closed_as_success [OF this flags] False assms show ?thesis
    by (simp add: close_named_def)
qed

lemma handleClose_closes:
  assumes "removes_names F" and "DecodeCloseRequest body = Some (Inr req)" and "GetOpen (clq_FileID req) (ds_session ds r) = Some h"
    and "op = hs_opens (sv_handles (ds_sv ds)) h"
    and "ds1 = with_sv (close_release fstat (d_host d) h)
      (with_sv (\<lambda>sv. sv\<lparr>sv_sess := (sv_sess sv)(r := snd (RemoveOpen (clq_FileID req) (ds_session ds r)))\<rparr>) ds)"
  shows "closed_as F hdr req r op ds1 (handleClose F time_now fstat d hdr body r ds)"
proof -
  have run: "handleClose F time_now fstat d hdr body r ds =
      (if o_IsPipe op then reply_body d hdr r (EncodeCloseResponse empty_close) ds1
       else if o_IsStream op then close_stream F time_now d hdr req r op ds1 else close_named F d hdr req r op ds1)"
    using assms(2-5) by (simp add: handleClose_def RemoveOpen_def GetOpen_def Let_def)
  show ?thesis
  proof (cases "o_IsPipe op")
    case True
    then have "close_outcome F op (ds_k ds1) StatusSuccess (ds_k ds1)" by (simp add: close_outcome_def)
    from closed_as_success [OF this clp_Flags_empty] run True show ?thesis by simp
  qed (simp add: run close_stream_closes close_named_closes assms(1))
qed

text \<open>C16: A CLOSE gives everything up, whatever else goes wrong. A request that does not decode or names no
  handle of the session is refused and changes nothing. Any other one, on every path and with every
  status, takes exactly that handle out of the session and leaves nothing of it: no share-mode
  reservation, no open descriptor, no byte-range lock on the file behind it (where its fstat does not fail), no durable
  entry, no resume key, no request waiting on it. SUCCESS is
  said only of what happened: a stream was written to (or removed from) its attribute unless the file
  system has none, a name to be deleted is no longer there, and it was the name the client opened (the
  link, not its target) and never the root of the share. The response marks its attributes as usable only when
  they were asked for and are there.\<close>

theorem close_gives_everything_up:
  assumes "removes_names F" and "conn_ok (d_host d) (ds_sv ds)"
  shows "\<exists>ds'. handleClose F time_now fstat d hdr body r ds = Some (True, ds') \<and>
    (case DecodeCloseRequest body of
       Some (Inr req) \<Rightarrow>
         (case GetOpen (clq_FileID req) (ds_session ds r) of
            None \<Rightarrow> answered hdr StatusInvalidParameter (Some r) errBody ds ds'
          | Some h \<Rightarrow>
              let op = hs_opens (sv_handles (ds_sv ds)) h in
              (\<forall>fid. GetOpen fid (ds_session ds' r) = (if fid = clq_FileID req then None else GetOpen fid (ds_session ds r)))
              \<and> handle_gone fstat op h (d_host d) (ds_sv ds')
              \<and> (\<exists>status rbody. answered hdr status (Some r) rbody (ds\<lparr>ds_sv := ds_sv ds', ds_k := ds_k ds'\<rparr>) ds'
                   \<and> close_outcome F op (ds_k ds) status (ds_k ds') \<and> close_reply req op status rbody))
     | _ \<Rightarrow> answered hdr StatusInvalidParameter (Some r) errBody ds ds')"
proof (cases "DecodeCloseRequest body")
  case None
  with fixed_decoders_no_panic [of body] show ?thesis by simp
next
  case (Some dec)
  show ?thesis
  proof (cases dec)
    case (Inl e)
    with Some respond_answered [of d hdr "Some r" StatusInvalidParameter errBody ds] show ?thesis
      by (auto simp: handleClose_def respondError_def)
  next
    case (Inr req)
    let ?s = "ds_session ds r"
    show ?thesis
    proof (cases "GetOpen (clq_FileID req) ?s")
      case None
      then have "with_sv (\<lambda>sv. sv\<lparr>sv_sess := (sv_sess sv)(r := snd (RemoveOpen (clq_FileID req) ?s))\<rparr>) ds = ds"
        by (simp add: with_sv_def RemoveOpen_def GetOpen_def delete_absent)
      with None Some Inr respond_answered [of d hdr "Some r" StatusInvalidParameter errBody ds] show ?thesis
        by (auto simp: handleClose_def respondError_def RemoveOpen_def GetOpen_def)
    next
      case h: (Some h)
      let ?op = "hs_opens (sv_handles (ds_sv ds)) h"
      let ?ds0 = "with_sv (\<lambda>sv. sv\<lparr>sv_sess := (sv_sess sv)(r := snd (RemoveOpen (clq_FileID req) ?s))\<rparr>) ds"
      let ?ds1 = "with_sv (close_release fstat (d_host d) h) ?ds0"
      let ?res = "handleClose F time_now fstat d hdr body r ds"
      have k: "ds_k ?ds1 = ds_k ds" by (simp add: with_sv_def)
      have "closed_as F hdr req r ?op ?ds1 ?res"
        by (rule handleClose_closes) (use Some Inr h assms in auto)
      then obtain status rbody ds' where res: "?res = Some (True, ds')"
        and ans: "answered hdr status (Some r) rbody (?ds1\<lparr>ds_k := ds_k ds'\<rparr>) ds'"
        and out: "close_outcome F ?op (ds_k ds) status (ds_k ds')" "close_reply req ?op status rbody"
        unfolding closed_as_def k by blast
      have sv: "ds_sv ds' = ds_sv ?ds1" using ans by (simp add: answered_def)
      have "?ds1\<lparr>ds_k := ds_k ds'\<rparr> = ds\<lparr>ds_sv := ds_sv ds', ds_k := ds_k ds'\<rparr>" unfolding sv by (simp add: with_sv_def)
      moreover have "handle_gone fstat ?op h (d_host d) (ds_sv ds')"
        unfolding sv using close_release_gone [of "d_host d" "ds_sv ?ds0" fstat h] assms(2)
        by (simp add: with_sv_def conn_ok_def)
      moreover have "GetOpen fid (ds_session ds' r) = (if fid = clq_FileID req then None else GetOpen fid ?s)" for fid
        unfolding sv by (simp add: with_sv_def RemoveOpen_def GetOpen_def map_of_delete)
      ultimately show ?thesis
        unfolding Some Inr option.case sum.case h Let_def res using ans out by (intro exI conjI) auto
    qed
  qed
qed

definition wclose_open :: Open where
  "wclose_open = \<lparr>o_FileID = zeros 16, o_Path = [0x2F, 0x73, 0x2F, 0x61], o_LinkPath = [0x2F, 0x73, 0x2F, 0x6C], o_IsDir = False,
     o_IsPipe = False, o_IsStream = False, o_HasFile = True,
     o_Tree = Some \<lparr>t_ID = 2, t_Share = \<lparr>sc_Name = [0x64], sc_Path = [0x2F, 0x73], sc_ReadOnly = False, sc_GuestOK = False\<rparr>\<rparr>,
     o_DeleteOnClose = True, o_GrantedAccess = 0, o_IsDurable = False, o_DurableClientGuid = [], o_DurableCreateGuid = [],
     o_PipeName = [], o_pipeOut = [], o_StreamName = [], o_streamBuf = [], o_streamWritten = False, o_streamSynthetic = False\<rparr>"

definition wclose_names :: "gostring list fs_calls" where
  "wclose_names =
     \<lparr>f_Lstat = (\<lambda>k p. if p \<in> set k
        then Inr \<lparr>fi_ModTime = (0, 0), fi_Size = 0, fi_IsDir = False, fi_Perm = 0, fi_Sys = None\<rparr> else Inl ENOENT),
      f_birthTime = (\<lambda>_ _. None), f_openNoFollow = (\<lambda>_ _. None),
      f_Remove = (\<lambda>k p. if p \<in> set k then (removeAll p k, None) else (k, Some ENOENT)),
      f_Rename = (\<lambda>k p q. (map (\<lambda>x. if x = p then q else x) k, None)),
      f_Ftruncate = (\<lambda>k _ _. (k, None)), f_Truncate = (\<lambda>k _ _. (k, None)), f_UtimesNanoAt = (\<lambda>k _ _ _. (k, None)),
      x_get = (\<lambda>_ _ _. Inl ENOTSUP), x_list = (\<lambda>_ _. Inl ENOTSUP), x_set = (\<lambda>k _ _ _. (k, Some ENOTSUP)),
      x_remove = (\<lambda>k _ _. (k, Some ENOTSUP)), x_notFound = isXattrNotFound_linux\<rparr>"

abbreviation wclose_server :: server where
  "wclose_server \<equiv> Tree_Connect.wserver\<lparr>sv_sess := (\<lambda>_. Tree_Connect.wsession\<lparr>s_opens := [(zeros 16, 4)]\<rparr>),
     sv_handles := \<lparr>hs_opens = (\<lambda>_. wclose_open), hs_locks = wlocks, hs_shares = newShareModeTable, hs_closed = []\<rparr>\<rparr>"

abbreviation wclose_state :: "gostring list dstate" where
  "wclose_state \<equiv> \<lparr>ds_sv = wclose_server, ds_chain = forFrame False, ds_held = NoLock,
     ds_k = [[0x2F, 0x73, 0x2F, 0x61], [0x2F, 0x73, 0x2F, 0x6C]]\<rparr>"

lemma wclose_names_ok: "removes_names wclose_names"
  by (auto simp: removes_names_def wclose_names_def split: if_splits)

text \<open>A handle opened through a link, marked for deletion and holding a lock: the link and the lock go, the target stays.\<close>

theorem close_gives_everything_up_witness:
  "\<exists>ds'. handleClose wclose_names (0, 0) (\<lambda>_. Inr wfile) wdispatcher (wrequest 6) (le16 24 @ zeros 22) 0 wclose_state = Some (True, ds')
     \<and> ds_k ds' = [[0x2F, 0x73, 0x2F, 0x61]] \<and> 4 \<in> set (hs_closed (sv_handles (ds_sv ds')))
     \<and> GetOpen (zeros 16) (ds_session ds' 0) = None
     \<and> 4 \<in> lr_owner ` set (ranges_of (lt_t (hs_locks (sv_handles (ds_sv wclose_state)))) wfile)
     \<and> 4 \<notin> lr_owner ` set (ranges_of (lt_t (hs_locks (sv_handles (ds_sv ds')))) wfile)"
proof -
  have ok: "conn_ok (d_host wdispatcher) (ds_sv wclose_state)"
    by (simp add: conn_ok_def rk_inv_new async_inv_new wserver_def)
  have dec: "DecodeCloseRequest (le16 24 @ zeros 22) = Some (Inr \<lparr>clq_Flags = 0, clq_FileID = zeros 16\<rparr>)" by code_simp
  have root: "\<not> names_share_root wclose_open" by code_simp
  have got: "GetOpen (zeros 16) (ds_session wclose_state 0) = Some 4" by (simp add: GetOpen_def)
  note inst = close_gives_everything_up [OF wclose_names_ok ok, of "(0, 0)" "\<lambda>_. Inr wfile" "wrequest 6" "le16 24 @ zeros 22" 0]
  obtain ds' where run: "handleClose wclose_names (0, 0) (\<lambda>_. Inr wfile) wdispatcher (wrequest 6) (le16 24 @ zeros 22) 0 wclose_state = Some (True, ds')"
    and fid: "GetOpen (zeros 16) (ds_session ds' 0) = None" and gone: "handle_gone (\<lambda>_. Inr wfile) wclose_open 4 0 (ds_sv ds')"
    and out: "\<exists>status. close_outcome wclose_names wclose_open (ds_k wclose_state) status (ds_k ds')"
    using inst unfolding dec option.case sum.case close_request.select_convs got Let_def
    by - (elim exE conjE, rule that, auto)
  have "ds_k ds' = [[0x2F, 0x73, 0x2F, 0x61]]"
    using out root by (auto simp: close_outcome_def wclose_open_def wclose_names_def namePath_def split: if_splits)
  with run fid gone wlocks_held show ?thesis by (auto simp: handle_gone_def wclose_open_def)
qed

end
