(* ===== verification/Set_Info.thy ===== *)
theory Set_Info
  imports Close
begin

text \<open>
  SET\_INFO (\<^verbatim>\<open>handleSetInfo\<close>, \<^verbatim>\<open>truncateOpen\<close>, \<^verbatim>\<open>setTimesOnOpen\<close> and \<^verbatim>\<open>timeFromFiletime\<close> of
  \<^verbatim>\<open>internal/parent/dispatch.go\<close>): resizing a file or a stream, marking a handle for deletion, renaming,
  extended attributes and times.

  What the name lookup of \<^verbatim>\<open>ResolveSecureNorm\<close> sees of the machine is the record \<open>name_env\<close>; its first use of a share may
  probe the case sensitivity of the file system with a file of its own, which is \<open>ne_probe\<close> (theory \<open>Aapl\<close> models that
  probe); \<^verbatim>\<open>strings.ToLower\<close> is the argument \<open>toLower\<close>. \<^verbatim>\<open>time.Now\<close> is
  reached only for the FILETIME 0, which \<^verbatim>\<open>handleSetInfo\<close> never converts; it is an argument all the same.
\<close>

section \<open>The handler\<close>

abbreviation (input) InfoTypeFile :: byte where "InfoTypeFile \<equiv> 0x01"
abbreviation (input) InfoTypeFilesystem :: byte where "InfoTypeFilesystem \<equiv> 0x02"
abbreviation (input) InfoTypeSecurity :: byte where "InfoTypeSecurity \<equiv> 0x03"
abbreviation (input) InfoTypeQuota :: byte where "InfoTypeQuota \<equiv> 0x04"
abbreviation (input) FileBasicInformationSet :: byte where "FileBasicInformationSet \<equiv> 0x04"
abbreviation (input) FileRenameInformation :: byte where "FileRenameInformation \<equiv> 0x0A"
abbreviation (input) FileDispositionInformation :: byte where "FileDispositionInformation \<equiv> 0x0D"
abbreviation (input) FileFullEaInformation :: byte where "FileFullEaInformation \<equiv> 0x0F"
abbreviation (input) FileAllocationInformation :: byte where "FileAllocationInformation \<equiv> 0x13"
abbreviation (input) FileEndOfFileInformation :: byte where "FileEndOfFileInformation \<equiv> 0x14"

record 'k name_env =
  ne_probe :: "'k \<Rightarrow> Tree \<Rightarrow> 'k"
  ne_fs :: "'k \<Rightarrow> fs_env"
  ne_resolveNorm :: "'k \<Rightarrow> Tree \<Rightarrow> bytes \<Rightarrow> bytes \<Rightarrow> bytes option"

text \<open>An instant is a number of seconds since 1970 and nanoseconds within the second.\<close>

definition timeFromFiletime :: "int \<times> nat \<Rightarrow> u64 \<Rightarrow> int \<times> nat" where
  "timeFromFiletime time_now ft =
     (if ft = 0 then time_now
      else (sint (word_of_int (sint (ft div 10000000) - filetimeEpochDelta) :: u64), unat (ft mod 10000000) * 100))"

text \<open>\<^verbatim>\<open>UnixNano\<close>, a 64-bit integer that wraps.\<close>

definition UnixNano :: "int \<times> nat \<Rightarrow> int" where
  "UnixNano t = sint (word_of_int (fst t) * 1000000000 + word_of_nat (snd t) :: u64)"

definition truncateOpen :: "'k fs_calls \<Rightarrow> open_ref \<Rightarrow> Open \<Rightarrow> int \<Rightarrow> 'k \<Rightarrow> 'k \<times> errno option" where
  "truncateOpen F h op n k = (if o_HasFile op then f_Ftruncate F k h n else f_Truncate F k (o_Path op) n)"

definition setTimesOnOpen :: "'k fs_calls \<Rightarrow> Open \<Rightarrow> int \<times> nat \<Rightarrow> int \<times> nat \<Rightarrow> 'k \<Rightarrow> 'k \<times> errno option" where
  "setTimesOnOpen F op atime mtime k = f_UtimesNanoAt F k (o_Path op) (UnixNano atime) (UnixNano mtime)"

text \<open>The new size of a stream's buffer.\<close>

definition resize_stream :: "bytes \<Rightarrow> nat \<Rightarrow> bytes" where
  "resize_stream buf n = (if n = 0 then [] else if n \<le> length buf then take n buf else patch 0 buf (zeros n))"

definition set_stream :: "Open \<Rightarrow> set_info_request \<Rightarrow> Status + Open" where
  "set_stream op req =
     (if si_InfoType req = InfoTypeFile \<and> si_FileInfoClass req = FileEndOfFileInformation \<and> length (si_Buffer req) \<ge> 8 then
        let wire = (le_word (take 8 (si_Buffer req)) :: u64) in
        if unat wire > maxStreamSize then Inl StatusDiskFull
        else Inr (op\<lparr>o_streamBuf := resize_stream (o_streamBuf op) (unat wire)\<rparr>)
      else if si_InfoType req = InfoTypeFile \<and> si_FileInfoClass req = FileDispositionInformation \<and> length (si_Buffer req) \<ge> 1
        then Inr (op\<lparr>o_DeleteOnClose := (si_Buffer req ! 0 \<noteq> 0)\<rparr>)
      else Inr op)"

text \<open>A step on a file: the status of a failure, the handle afterwards and the machine.\<close>

type_synonym 'k set_step = "Status option \<times> Open \<times> 'k"

definition errno_step :: "Open \<Rightarrow> Open \<Rightarrow> 'k \<times> errno option \<Rightarrow> 'k set_step" where
  "errno_step op op' res =
     (case res of (k', None) \<Rightarrow> (None, op', k') | (k', Some e) \<Rightarrow> (Some (statusFromErr (Some (Errno e))), op, k'))"

definition set_eof :: "'k fs_calls \<Rightarrow> open_ref \<Rightarrow> Open \<Rightarrow> bytes \<Rightarrow> 'k \<Rightarrow> 'k set_step" where
  "set_eof F h op buf k =
     (if length buf < 8 then (Some StatusInvalidParameter, op, k)
      else errno_step op op (truncateOpen F h op (sint (le_word (take 8 buf) :: u64)) k))"

definition set_disposition :: "Open \<Rightarrow> bytes \<Rightarrow> 'k \<Rightarrow> 'k set_step" where
  "set_disposition op buf k =
     (if length buf < 1 then (Some StatusInvalidParameter, op, k) else (None, op\<lparr>o_DeleteOnClose := (buf ! 0 \<noteq> 0)\<rparr>, k))"

definition set_rename :: "'k fs_calls \<Rightarrow> 'k name_env \<Rightarrow> Open \<Rightarrow> bytes \<Rightarrow> 'k \<Rightarrow> 'k set_step option" where
  "set_rename F E op buf k =
     (if length buf < 20 then Some (Some StatusInvalidParameter, op, k)
      else
        let replace = (buf ! 0 \<noteq> 0); nameLen = unat (le_word (take 4 (drop 16 buf)) :: u32) in
        if 20 + nameLen > length buf then Some (Some StatusInvalidParameter, op, k)
        else case o_Tree op of None \<Rightarrow> None
          | Some t \<Rightarrow>
              let newName = decodeUTF16LE (take nameLen (drop 20 buf)); k1 = ne_probe E k t in
              (case ResolveSecureNorm (ne_resolveNorm E k1 t) (ne_fs E k1) (sc_Path (t_Share t)) newName of
                 None \<Rightarrow> None
               | Some (Inl _) \<Rightarrow> Some (Some StatusAccessDenied, op, k1)
               | Some (Inr newPath) \<Rightarrow>
                   if \<not> replace \<and> \<not> isl (f_Lstat F k1 newPath) then Some (Some StatusObjectNameCollision, op, k1)
                   else Some (errno_step op
                     (if o_LinkPath op \<noteq> [] then op\<lparr>o_LinkPath := newPath\<rparr> else op\<lparr>o_Path := newPath\<rparr>)
                     (f_Rename F k1 (namePath op) newPath))))"

fun set_eas :: "'k fs_calls \<Rightarrow> (gostring \<Rightarrow> gostring) \<Rightarrow> open_ref \<Rightarrow> Open \<Rightarrow> eaInfo list \<Rightarrow> 'k \<Rightarrow> 'k set_step" where
  "set_eas F toLower h op [] k = (None, op, k)"
| "set_eas F toLower h op (ea # eas) k =
     (case setEAOnFile F toLower k (if o_HasFile op then Some h else None) (o_Path op) (ea_Name ea) (ea_Value ea) of
        (k', None) \<Rightarrow> set_eas F toLower h op eas k'
      | (k', Some ErrXattrUnsupported) \<Rightarrow> (None, op, k')
      | (k', Some (XattrErrno e)) \<Rightarrow> (Some (statusFromErr (Some (Errno e))), op, k'))"

definition set_basic :: "'k fs_calls \<Rightarrow> int \<times> nat \<Rightarrow> Open \<Rightarrow> bytes \<Rightarrow> 'k \<Rightarrow> 'k set_step" where
  "set_basic F time_now op buf k =
     (if length buf < 32 then (None, op, k)
      else
        let lastWrite = (le_word (take 8 (drop 16 buf)) :: u64); lastAccess = (le_word (take 8 (drop 8 buf)) :: u64) in
        if sint lastWrite > 0 then
          let wt = timeFromFiletime time_now lastWrite;
              at = (if sint lastAccess > 0 then timeFromFiletime time_now lastAccess else wt)
          in errno_step op op (setTimesOnOpen F op at wt k)
        else (None, op, k))"

definition set_file :: "'k fs_calls \<Rightarrow> 'k name_env \<Rightarrow> (gostring \<Rightarrow> gostring) \<Rightarrow> int \<times> nat \<Rightarrow> open_ref \<Rightarrow> Open
    \<Rightarrow> byte \<Rightarrow> bytes \<Rightarrow> 'k \<Rightarrow> 'k set_step option" where
  "set_file F E toLower time_now h op c buf k =
     (if c = FileEndOfFileInformation then Some (set_eof F h op buf k)
      else if c = FileAllocationInformation then Some (None, op, k)
      else if c = FileDispositionInformation then Some (set_disposition op buf k)
      else if c = FileRenameInformation then set_rename F E op buf k
      else if c = FileFullEaInformation then Some (set_eas F toLower h op (parseFullEaList buf) k)
      else if c = FileBasicInformationSet then Some (set_basic F time_now op buf k)
      else Some (Some StatusNotSupported, op, k))"

definition handleSetInfo :: "'k fs_calls \<Rightarrow> 'k name_env \<Rightarrow> (gostring \<Rightarrow> gostring) \<Rightarrow> int \<times> nat \<Rightarrow> dispatcher \<Rightarrow> 'k handler" where
  "handleSetInfo F E toLower time_now d hdr body r ds =
     (case DecodeSetInfoRequest body of
        None \<Rightarrow> None
      | Some (Inl _) \<Rightarrow> keep (respondError d hdr StatusInvalidParameter (Some r) ds)
      | Some (Inr req) \<Rightarrow>
          (case GetOpen (si_FileID req) (ds_session ds r) of
             None \<Rightarrow> keep (respondError d hdr StatusInvalidParameter (Some r) ds)
           | Some h \<Rightarrow>
               let op = hs_opens (sv_handles (ds_sv ds)) h in
               if read_only_tree op then keep (respondError d hdr StatusAccessDenied (Some r) ds)
               else if o_IsStream op then
                 (case set_stream op req of
                    Inl status \<Rightarrow> keep (respondError d hdr status (Some r) ds)
                  | Inr op' \<Rightarrow> reply_body d hdr r EncodeSetInfoResponse (set_open h op' ds))
               else if si_InfoType req \<in> {InfoTypeSecurity, InfoTypeQuota, InfoTypeFilesystem}
                 then reply_body d hdr r EncodeSetInfoResponse ds
               else if si_InfoType req \<noteq> InfoTypeFile then keep (respondError d hdr StatusNotSupported (Some r) ds)
               else (case set_file F E toLower time_now h op (si_FileInfoClass req) (si_Buffer req) (ds_k ds) of
                       None \<Rightarrow> None
                     | Some (Some status, op', k') \<Rightarrow> keep (respondError d hdr status (Some r) (set_open h op' (ds\<lparr>ds_k := k'\<rparr>)))
                     | Some (None, op', k') \<Rightarrow>
                         reply_body d hdr r EncodeSetInfoResponse (set_open h op' (ds\<lparr>ds_k := k'\<rparr>)))))"

section \<open>Times\<close>

lemma filetime_parts:
  fixes ft :: u64
  obtains q r where "uint ft div 10000000 = q" "uint ft mod 10000000 = r" "uint ft = q * 10000000 + r"
    "0 \<le> r" "r < 10000000" "0 \<le> q" "q < 2 ^ 62"
proof -
  have "uint ft < 2 ^ 64" using uint_lt2p [of ft] by simp
  then have "uint ft div 10000000 < 2 ^ 62" by (simp add: div_less_iff_less_mult)
  then show thesis by (intro that [OF refl refl]) (simp_all add: pos_imp_zdiv_nonneg_iff)
qed

lemma sint_below_half: "- (2 ^ 63) \<le> n \<Longrightarrow> n < 2 ^ 63 \<Longrightarrow> sint (word_of_int n :: u64) = n"
  by (simp add: signed_of_int signed_take_bit_int_eq_self)

lemma timeFromFiletime_eq:
  assumes "ft \<noteq> 0"
  shows "timeFromFiletime time_now ft = (uint ft div 10000000 - filetimeEpochDelta, nat (uint ft mod 10000000) * 100)"
proof -
  obtain q r where q: "uint ft div 10000000 = q" "0 \<le> q" "q < 2 ^ 62" by (rule filetime_parts)
  have "ft div 10000000 = word_of_int q" using q(1) by (simp add: word_div_def)
  then have "sint (ft div 10000000) = q" using q by (simp add: sint_below_half)
  moreover have "unat (ft mod 10000000) = nat (uint ft mod 10000000)" by (simp add: unat_eq_nat_uint uint_mod)
  moreover have "sint (word_of_int (q - filetimeEpochDelta) :: u64) = q - filetimeEpochDelta"
    using q by (intro sint_below_half) simp_all
  ultimately show ?thesis using assms q(1) by (simp add: timeFromFiletime_def)
qed

lemma filetime_roundtrip:
  assumes "ft \<noteq> 0"
  shows "filetimeFromTime (timeFromFiletime time_now ft) = ft"
proof -
  obtain q r where q: "uint ft div 10000000 = q" "uint ft mod 10000000 = r" "uint ft = q * 10000000 + r" "0 \<le> q"
    and r: "0 \<le> r" "r < 10000000" by (rule filetime_parts)
  have "nat r < 10000000" using r by simp
  then have "nat r * 100 < 2 ^ 64" by simp
  then have "uint (word_of_nat (nat r * 100) :: u64) = r * 100"
    using r unfolding unsigned_of_nat by (simp add: take_bit_nat_eq_self)
  then have "uint ((word_of_nat (nat r * 100) :: u64) div 100) = r" using r by (simp add: uint_div)
  then have nanos: "(word_of_nat (nat r * 100) :: u64) div 100 = word_of_int r" by (metis word_of_int_uint)
  have "filetimeFromTime (timeFromFiletime time_now ft) = word_of_int q * 10000000 + word_of_int r"
    unfolding timeFromFiletime_eq [OF assms] filetimeFromTime_def fst_conv snd_conv q(1,2) nanos using q(4) by simp
  also have "\<dots> = word_of_int (uint ft)" unfolding q(3) by simp
  finally show ?thesis by simp
qed

text \<open>What the nanosecond counter can hold: FILETIMEs from 1677 to 2262.\<close>

definition nanos_fit :: "u64 \<Rightarrow> bool" where
  "nanos_fit ft \<longleftrightarrow> \<bar>uint ft - 116444736000000000\<bar> \<le> 92233720368547758"

text \<open>The instant of a FILETIME, in nanoseconds since 1970.\<close>

definition filetime_nanos :: "u64 \<Rightarrow> int" where
  "filetime_nanos ft = (uint ft - 116444736000000000) * 100"

lemma UnixNano_filetime:
  assumes "ft \<noteq> 0" and "nanos_fit ft"
  shows "UnixNano (timeFromFiletime time_now ft) = filetime_nanos ft"
proof -
  obtain q r where q: "uint ft div 10000000 = q" "uint ft mod 10000000 = r" "uint ft = q * 10000000 + r"
    and r: "0 \<le> r" "r < 10000000" by (rule filetime_parts)
  let ?n = "(q - filetimeEpochDelta) * 1000000000 + r * 100"
  have n: "?n = filetime_nanos ft" unfolding filetime_nanos_def q(3) by simp
  have "\<bar>q * 10000000 + r - 116444736000000000\<bar> \<le> 92233720368547758" using assms(2) unfolding nanos_fit_def q(3) .
  then have bound: "- (2 ^ 63) \<le> ?n" "?n < 2 ^ 63" by simp_all
  have w: "(word_of_nat (nat r * 100) :: u64) = word_of_int (r * 100)" using r by simp
  have "UnixNano (timeFromFiletime time_now ft) = sint (word_of_int ?n :: u64)"
    unfolding UnixNano_def timeFromFiletime_eq [OF assms(1)] fst_conv snd_conv q(1,2) w by simp
  then show ?thesis using sint_below_half [OF bound] n by simp
qed

lemma UnixNano_fits:
  assumes "ft \<noteq> 0"
  shows "(filetime_nanos ft div 1000000000, nat (filetime_nanos ft mod 1000000000)) = timeFromFiletime time_now ft"
proof -
  obtain q r where q: "uint ft div 10000000 = q" "uint ft mod 10000000 = r" "uint ft = q * 10000000 + r"
    and r: "0 \<le> r" "r < 10000000" by (rule filetime_parts)
  let ?n = "(q - filetimeEpochDelta) * 1000000000 + r * 100"
  have n: "filetime_nanos ft = ?n" unfolding filetime_nanos_def q(3) by simp
  moreover have "?n div 1000000000 = q - filetimeEpochDelta" using r by simp
  moreover have "?n mod 1000000000 = r * 100" unfolding mod_mult_self3 using r by simp
  ultimately show ?thesis unfolding timeFromFiletime_eq [OF assms] q(1,2) using r by (simp add: nat_mult_distrib)
qed

text \<open>Beyond that the counter wraps: the first day of 2300 is stored as a day of 1715.\<close>

lemma time_past_2262_wraps: "UnixNano (timeFromFiletime time_now 220584384000000000) div 1000000000 = - 8032779274"
  by (simp add: UnixNano_def timeFromFiletime_eq)

section \<open>Answers\<close>

text \<open>The response: one message with the status, and no more change than was there before it.\<close>

definition set_answer :: "header \<Rightarrow> sess_ref \<Rightarrow> 'k dstate \<Rightarrow> open_ref \<Rightarrow> Status \<Rightarrow> Open \<Rightarrow> 'k \<Rightarrow> 'k dstate \<Rightarrow> bool" where
  "set_answer hdr r ds h status op' k' ds' \<longleftrightarrow>
     (\<exists>rbody. answered hdr status (Some r) rbody (set_open h op' (ds\<lparr>ds_k := k'\<rparr>)) ds')"

lemma set_answer_error:
  "\<exists>ds'. keep (respondError d hdr status (Some r) (set_open h op' (ds\<lparr>ds_k := k'\<rparr>))) = Some (True, ds')
     \<and> set_answer hdr r ds h status op' k' ds'"
  using respond_answered [of d hdr "Some r" status errBody "set_open h op' (ds\<lparr>ds_k := k'\<rparr>)"]
  by (auto simp: respondError_def set_answer_def)

lemma set_answer_success:
  "\<exists>ds'. reply_body d hdr r EncodeSetInfoResponse (set_open h op' (ds\<lparr>ds_k := k'\<rparr>)) = Some (True, ds')
     \<and> set_answer hdr r ds h StatusSuccess op' k' ds'"
proof -
  obtain b where b: "EncodeSetInfoResponse = Some b" by (simp add: EncodeSetInfoResponse_def put_at_def)
  show ?thesis
    using respond_answered [of d hdr "Some r" StatusSuccess b "set_open h op' (ds\<lparr>ds_k := k'\<rparr>)"]
    by (auto simp: respondSuccess_def reply_body_def set_answer_def b)
qed

lemma set_open_same: "set_open h (hs_opens (sv_handles (ds_sv ds)) h) (ds\<lparr>ds_k := ds_k ds\<rparr>) = ds"
  by (simp add: set_open_def)

lemma set_answer_same:
  assumes "op = hs_opens (sv_handles (ds_sv ds)) h"
  shows "\<exists>ds'. keep (respondError d hdr status (Some r) ds) = Some (True, ds') \<and> set_answer hdr r ds h status op (ds_k ds) ds'"
    and "\<exists>ds'. reply_body d hdr r EncodeSetInfoResponse ds = Some (True, ds') \<and> set_answer hdr r ds h StatusSuccess op (ds_k ds) ds'"
  using set_answer_error [of d hdr status r h op "ds_k ds" ds] set_answer_success [of d hdr r h op "ds_k ds" ds]
  unfolding assms set_open_same by blast+

section \<open>What a SET\_INFO may touch\<close>

definition share_rooted :: "Open \<Rightarrow> gostring \<Rightarrow> bool" where
  "share_rooted op root \<longleftrightarrow>
     (\<exists>t. o_Tree op = Some t \<and> sc_Path (t_Share t) = root) \<and> root \<noteq> [] \<and> hd root = slash \<and> root_names root \<noteq> []"

definition flags_changed :: "Open \<Rightarrow> Open \<Rightarrow> bool" where
  "flags_changed op op' \<longleftrightarrow>
     (\<exists>del buf. op' = op\<lparr>o_DeleteOnClose := del, o_streamBuf := buf\<rparr> \<and> length buf \<le> max (length (o_streamBuf op)) maxStreamSize)"

definition file_touched :: "'k fs_calls \<Rightarrow> (gostring \<Rightarrow> gostring) \<Rightarrow> open_ref \<Rightarrow> Open \<Rightarrow> 'k \<Rightarrow> 'k \<Rightarrow> bool" where
  "file_touched F toLower h op k k' \<longleftrightarrow>
     (\<exists>n e. truncateOpen F h op n k = (k', e)) \<or> (\<exists>a m e. setTimesOnOpen F op a m k = (k', e))
     \<or> (\<exists>eas st. set_eas F toLower h op eas k = (st, op, k'))"

definition name_moved :: "'k fs_calls \<Rightarrow> 'k name_env \<Rightarrow> gostring \<Rightarrow> Open \<Rightarrow> 'k \<Rightarrow> Open \<Rightarrow> 'k \<Rightarrow> bool" where
  "name_moved F E root op k op' k' \<longleftrightarrow>
     (\<exists>t k1. o_Tree op = Some t \<and> k1 = ne_probe E k t \<and>
        (k' = k1 \<and> op' = op \<or>
         (\<exists>p e. served_path (ne_fs E k1) (Clean root) p \<and> f_Rename F k1 (namePath op) p = (k', e) \<and>
            (if e = None then namePath op' = p \<and> (o_LinkPath op \<noteq> [] \<longrightarrow> o_Path op' = o_Path op)
               \<and> op' = op\<lparr>o_Path := o_Path op', o_LinkPath := o_LinkPath op'\<rparr> else op' = op))))"

definition set_effect :: "'k fs_calls \<Rightarrow> 'k name_env \<Rightarrow> (gostring \<Rightarrow> gostring) \<Rightarrow> open_ref \<Rightarrow> gostring \<Rightarrow> Open \<Rightarrow> 'k
    \<Rightarrow> Status \<Rightarrow> Open \<Rightarrow> 'k \<Rightarrow> bool" where
  "set_effect F E toLower h root op k status op' k' \<longleftrightarrow>
     (status \<noteq> StatusSuccess \<longrightarrow> op' = op) \<and>
     (k' = k \<and> flags_changed op op' \<or> op' = op \<and> file_touched F toLower h op k k' \<or> name_moved F E root op k op' k')"

lemma ResolveSecureNorm_served:
  assumes "root \<noteq> []" and "hd root = slash" and "root_names root \<noteq> []"
  shows "\<exists>r. ResolveSecureNorm resolveNorm fs root smbPath = Some r \<and> (\<forall>path. r = Inr path \<longrightarrow> served_path fs (Clean root) path)"
proof -
  note cl = served_Clean [OF assms(1,2)]
  have "\<exists>r. ResolveSecure fs (Clean root) s = Some r \<and> (\<forall>path. r = Inr path \<longrightarrow> served_path fs (Clean root) path)" for s
    by (rule ResolveSecure_served) (use cl assms in auto)
  then show ?thesis unfolding ResolveSecureNorm_def Let_def by (simp split: sum.split option.split)
qed

lemma set_eas_open: "fst (snd (set_eas F toLower h op eas k)) = op"
  by (induction eas arbitrary: k) (simp_all split: prod.split option.split xattr_err.split)

lemma set_eas_failure: "fst (set_eas F toLower h op eas k) \<noteq> Some StatusSuccess"
  by (induction eas arbitrary: k) (simp_all add: statusFromErr_failure split: prod.split option.split xattr_err.split)

abbreviation step_status :: "Status option \<Rightarrow> Status" where
  "step_status st \<equiv> (case st of None \<Rightarrow> StatusSuccess | Some s \<Rightarrow> s)"

lemma set_effect_same: "set_effect F E toLower h root op k status op k"
  unfolding set_effect_def flags_changed_def by (auto intro!: exI [of _ "o_DeleteOnClose op"] exI [of _ "o_streamBuf op"])

lemma served_names: "served_path fs root p \<Longrightarrow> p \<noteq> []"
  by (auto simp: served_path_def abs_path_def)

definition sound_step :: "'k fs_calls \<Rightarrow> 'k name_env \<Rightarrow> (gostring \<Rightarrow> gostring) \<Rightarrow> open_ref \<Rightarrow> gostring \<Rightarrow> Open \<Rightarrow> 'k
    \<Rightarrow> 'k set_step option \<Rightarrow> bool" where
  "sound_step F E toLower h root op k res \<longleftrightarrow>
     (\<exists>st op' k'. res = Some (st, op', k') \<and> st \<noteq> Some StatusSuccess \<and> set_effect F E toLower h root op k (step_status st) op' k')"

lemma sound_step_same: "st \<noteq> Some StatusSuccess \<Longrightarrow> sound_step F E toLower h root op k (Some (st, op, k))"
  by (simp add: sound_step_def set_effect_same)

lemma sound_step_errno:
  assumes "file_touched F toLower h op k (fst res)"
  shows "sound_step F E toLower h root op k (Some (errno_step op op res))"
  using assms by (cases res; cases "snd res") (auto simp: sound_step_def errno_step_def set_effect_def statusFromErr_failure)

lemma set_rename_sound:
  assumes "share_rooted op root"
  shows "sound_step F E toLower h root op k (set_rename F E op buf k)"
proof -
  obtain t where t: "o_Tree op = Some t" "sc_Path (t_Share t) = root" and rooted: "root \<noteq> []" "hd root = slash" "root_names root \<noteq> []"
    using assms by (auto simp: share_rooted_def)
  let ?len = "unat (le_word (take 4 (drop 16 buf)) :: u32)"
  let ?name = "decodeUTF16LE (take ?len (drop 20 buf))"
  define k1 where "k1 = ne_probe E k t"
  obtain res where res: "ResolveSecureNorm (ne_resolveNorm E k1 t) (ne_fs E k1) root ?name = Some res"
    and served: "\<And>p. res = Inr p \<Longrightarrow> served_path (ne_fs E k1) (Clean root) p"
    using ResolveSecureNorm_served [OF rooted] by blast
  show ?thesis
  proof (cases "20 \<le> length buf \<and> 20 + ?len \<le> length buf")
    case False
    then show ?thesis by (auto simp: set_rename_def Let_def sound_step_same)
  next
    case long: True
    show ?thesis
    proof (cases "\<exists>p. res = Inr p \<and> (buf ! 0 \<noteq> 0 \<or> isl (f_Lstat F k1 p))")
      case False
      then have "\<exists>st. st \<noteq> StatusSuccess \<and> set_rename F E op buf k = Some (Some st, op, k1)"
        using res t long unfolding set_rename_def Let_def k1_def by (auto split: sum.split)
      moreover have "name_moved F E root op k op k1" using t k1_def unfolding name_moved_def by blast
      ultimately show ?thesis by (auto simp: sound_step_def set_effect_def)
    next
      case True
      then obtain p where p: "res = Inr p" by blast
      obtain k' e where call: "f_Rename F k1 (namePath op) p = (k', e)" by fastforce
      let ?op' = "if o_LinkPath op \<noteq> [] then op\<lparr>o_LinkPath := p\<rparr> else op\<lparr>o_Path := p\<rparr>"
      have run: "set_rename F E op buf k = Some (errno_step op ?op' (k', e))"
        using True long res t p call unfolding k1_def by (auto simp: set_rename_def Let_def)
      have "namePath ?op' = p" using served_names [OF served [OF p]] by (simp add: namePath_def)
      then have "name_moved F E root op k (if e = None then ?op' else op) k'"
        using t(1) k1_def call served [OF p] unfolding name_moved_def
        by (intro exI [of _ t] exI [of _ k1]) (intro conjI disjI2 exI [of _ p] exI [of _ e]; auto)
      then show ?thesis
        unfolding run by (cases e) (auto simp: errno_step_def statusFromErr_failure set_effect_def sound_step_def)
    qed
  qed
qed

lemma flags_changed_same: "flags_changed op op"
  unfolding flags_changed_def by (intro exI [of _ "o_DeleteOnClose op"] exI [of _ "o_streamBuf op"]) simp

lemma flags_changed_delete: "flags_changed op (op\<lparr>o_DeleteOnClose := b\<rparr>)"
  unfolding flags_changed_def by (intro exI [of _ b] exI [of _ "o_streamBuf op"]) simp

lemma flags_changed_resize:
  "n \<le> maxStreamSize \<Longrightarrow> flags_changed op (op\<lparr>o_streamBuf := resize_stream (o_streamBuf op) n\<rparr>)"
  unfolding flags_changed_def
  by (intro exI [of _ "o_DeleteOnClose op"] exI [of _ "resize_stream (o_streamBuf op) n"]) (auto simp: resize_stream_def)

lemmas flags_changed_intros = flags_changed_same flags_changed_delete flags_changed_resize

lemma set_stream_effect:
  "case set_stream op req of Inl status \<Rightarrow> status \<noteq> StatusSuccess | Inr op' \<Rightarrow> flags_changed op op'"
  by (auto simp: set_stream_def Let_def flags_changed_intros)

lemma set_eas_sound: "sound_step F E toLower h root op k (Some (set_eas F toLower h op eas k))"
proof -
  obtain st k' where run: "set_eas F toLower h op eas k = (st, op, k')" by (metis prod.collapse set_eas_open)
  with set_eas_failure [of F toLower h op eas k] have "st \<noteq> Some StatusSuccess" "file_touched F toLower h op k k'"
    by (auto simp: file_touched_def)
  with run show ?thesis by (auto simp: sound_step_def set_effect_def)
qed

lemma set_eof_sound: "sound_step F E toLower h root op k (Some (set_eof F h op buf k))"
proof -
  have "file_touched F toLower h op k (fst (truncateOpen F h op n k))" for n
    unfolding file_touched_def by (metis prod.collapse)
  then show ?thesis unfolding set_eof_def by (simp add: sound_step_same sound_step_errno)
qed

lemma set_basic_sound: "sound_step F E toLower h root op k (Some (set_basic F time_now op buf k))"
proof -
  have "file_touched F toLower h op k (fst (setTimesOnOpen F op a m k))" for a m
    unfolding file_touched_def by (metis prod.collapse)
  then show ?thesis unfolding set_basic_def Let_def by (simp add: sound_step_same sound_step_errno)
qed

lemma set_disposition_sound: "sound_step F E toLower h root op k (Some (set_disposition op buf k))"
  by (auto simp: set_disposition_def flags_changed_same flags_changed_delete sound_step_def set_effect_def)

lemma set_file_sound:
  assumes "share_rooted op root"
  shows "sound_step F E toLower h root op k (set_file F E toLower time_now h op c buf k)"
  unfolding set_file_def
  by (simp add: set_eof_sound set_disposition_sound set_rename_sound [OF assms] set_eas_sound set_basic_sound sound_step_same)

text \<open>C18: SET\_INFO stays within the share and within the handle. On a handle of a share with an absolute
  root it never panics and answers once. On a read-only share it is refused and changes nothing at all.
  Otherwise only that handle changes, not even that one when the answer is an error, and the machine is changed
  by at most one of: resizing the file, through the descriptor where the handle has one; setting the times of the file
  by the path it was opened as; setting extended attributes on it, through the descriptor where the handle has
  one; or a rename of the name the client opened (the link, not its target) to a path that is served under the
  root of the share, after which the handle has that name. (Before a rename, the lookup of the new name may probe
  the case sensitivity of the share.) The buffer of a stream never grows past the cap.\<close>

theorem set_info_stays_in_the_share:
  assumes "DecodeSetInfoRequest body = Some (Inr req)" and "GetOpen (si_FileID req) (ds_session ds r) = Some h"
    and "op = hs_opens (sv_handles (ds_sv ds)) h" and "share_rooted op root"
  shows "\<exists>ds' status op' k'. handleSetInfo F E toLower time_now d hdr body r ds = Some (True, ds')
    \<and> set_answer hdr r ds h status op' k' ds' \<and> set_effect F E toLower h root op (ds_k ds) status op' k'
    \<and> (read_only_tree op \<longrightarrow> status = StatusAccessDenied \<and> op' = op \<and> k' = ds_k ds)"
proof -
  let ?res = "handleSetInfo F E toLower time_now d hdr body r ds"
  note same = set_answer_same [OF assms(3)]
  consider (ro) "read_only_tree op" | (stream) "\<not> read_only_tree op" "o_IsStream op"
    | (other) "\<not> read_only_tree op" "\<not> o_IsStream op" "si_InfoType req \<noteq> InfoTypeFile"
    | (set) "\<not> read_only_tree op" "\<not> o_IsStream op" "si_InfoType req = InfoTypeFile" by blast
  then show ?thesis
  proof cases
    case ro
    then have "?res = keep (respondError d hdr StatusAccessDenied (Some r) ds)"
      using assms by (simp add: handleSetInfo_def)
    with same(1) [of d hdr StatusAccessDenied r] set_effect_same show ?thesis by (metis ro)
  next
    case stream
    show ?thesis
    proof (cases "set_stream op req")
      case (Inl status)
      with stream assms have "?res = keep (respondError d hdr status (Some r) ds)" by (simp add: handleSetInfo_def)
      with same(1) [of d hdr status r] set_effect_same stream show ?thesis by metis
    next
      case (Inr op')
      with stream assms have "?res = reply_body d hdr r EncodeSetInfoResponse (set_open h op' (ds\<lparr>ds_k := ds_k ds\<rparr>))"
        by (simp add: handleSetInfo_def)
      moreover have "set_effect F E toLower h root op (ds_k ds) StatusSuccess op' (ds_k ds)"
        using set_stream_effect [of op req] Inr by (simp add: set_effect_def)
      ultimately show ?thesis using set_answer_success [of d hdr r h op' "ds_k ds" ds] stream by metis
    qed
  next
    case other
    then have "?res = (if si_InfoType req \<in> {InfoTypeSecurity, InfoTypeQuota, InfoTypeFilesystem}
        then reply_body d hdr r EncodeSetInfoResponse ds else keep (respondError d hdr StatusNotSupported (Some r) ds))"
      using assms by (simp add: handleSetInfo_def)
    with same(1) [of d hdr StatusNotSupported r] same(2) [of d hdr r] set_effect_same other show ?thesis by metis
  next
    case set
    obtain st op' k' where step: "set_file F E toLower time_now h op (si_FileInfoClass req) (si_Buffer req) (ds_k ds) = Some (st, op', k')"
      and eff: "set_effect F E toLower h root op (ds_k ds) (step_status st) op' k'"
      using set_file_sound [OF assms(4), of F E toLower h "ds_k ds" time_now "si_FileInfoClass req" "si_Buffer req"]
      unfolding sound_step_def by blast
    with set assms have "?res = (case st of None \<Rightarrow> reply_body d hdr r EncodeSetInfoResponse (set_open h op' (ds\<lparr>ds_k := k'\<rparr>))
        | Some status \<Rightarrow> keep (respondError d hdr status (Some r) (set_open h op' (ds\<lparr>ds_k := k'\<rparr>))))"
      by (simp add: handleSetInfo_def split: option.split)
    then obtain ds' where "?res = Some (True, ds')" "set_answer hdr r ds h (step_status st) op' k' ds'"
      using set_answer_error [of d hdr _ r h op' k' ds] set_answer_success [of d hdr r h op' k' ds] by (cases st) auto
    with eff set show ?thesis by blast
  qed
qed

section \<open>A time that was set is read back\<close>

text \<open>What utimensat promises: an instant (in nanoseconds since 1970) that the file system can represent is stored as it
  is; others are rounded or clamped.\<close>

definition keeps_times :: "'k fs_calls \<Rightarrow> (int \<Rightarrow> bool) \<Rightarrow> bool" where
  "keeps_times F representable \<longleftrightarrow>
     (\<forall>k p a m k'. f_UtimesNanoAt F k p a m = (k', None) \<and> representable m \<longrightarrow>
        (\<exists>st. f_Lstat F k' p = Inr st \<and> fi_ModTime st = (m div 1000000000, nat (m mod 1000000000))))"

text \<open>C19: A modification time that a client sets is the one it reads back, as far as the file system can represent it. When
  a SET\_INFO of a time between 1677 and 2262, at an instant the file system stores without rounding or
  clamping, is answered with SUCCESS on a file, the attributes that the server reports of the file from then on (here
  those of a CLOSE) have exactly the 64-bit FILETIME of the request, to the last 100 nanoseconds; the
  handle itself is unchanged.\<close>

theorem modification_time_reads_back:
  assumes "keeps_times F representable" and "DecodeSetInfoRequest body = Some (Inr req)"
    and "GetOpen (si_FileID req) (ds_session ds r) = Some h" and "op = hs_opens (sv_handles (ds_sv ds)) h"
    and "\<not> read_only_tree op" and "\<not> o_IsStream op"
    and "si_InfoType req = InfoTypeFile" and "si_FileInfoClass req = FileBasicInformationSet" and "32 \<le> length (si_Buffer req)"
    and "ft = le_word (take 8 (drop 16 (si_Buffer req)))" and "0 < sint ft" and "nanos_fit ft"
    and "representable (filetime_nanos ft)"
  shows "\<exists>ds' status k' a m e. handleSetInfo F E toLower time_now d hdr body r ds = Some (True, ds')
    \<and> set_answer hdr r ds h status op k' ds'
    \<and> f_UtimesNanoAt F (ds_k ds) (o_Path op) a m = (k', e) \<and> (status = StatusSuccess \<longleftrightarrow> e = None)
    \<and> (status = StatusSuccess \<longrightarrow> clp_LastWriteTime (close_attributes F k' (o_Path op)) = ft)"
proof -
  have ft: "ft \<noteq> 0" using assms(11) by auto
  let ?wt = "timeFromFiletime time_now ft"
  obtain at where at: "set_basic F time_now op (si_Buffer req) (ds_k ds) = errno_step op op (setTimesOnOpen F op at ?wt (ds_k ds))"
    using assms(9-11) by (auto simp: set_basic_def Let_def)
  obtain k' e where call: "setTimesOnOpen F op at ?wt (ds_k ds) = (k', e)" by fastforce
  let ?status = "case e of None \<Rightarrow> StatusSuccess | Some n \<Rightarrow> statusFromErr (Some (Errno n))"
  have run: "handleSetInfo F E toLower time_now d hdr body r ds =
      (case e of None \<Rightarrow> reply_body d hdr r EncodeSetInfoResponse (set_open h op (ds\<lparr>ds_k := k'\<rparr>))
       | Some _ \<Rightarrow> keep (respondError d hdr ?status (Some r) (set_open h op (ds\<lparr>ds_k := k'\<rparr>))))"
    using assms(2-8) at call by (simp add: handleSetInfo_def set_file_def errno_step_def split: option.split)
  then obtain ds' where "handleSetInfo F E toLower time_now d hdr body r ds = Some (True, ds')" "set_answer hdr r ds h ?status op k' ds'"
    using set_answer_error [of d hdr _ r h op k' ds] set_answer_success [of d hdr r h op k' ds] by (cases e) auto
  moreover have ok: "?status = StatusSuccess \<longleftrightarrow> e = None" by (cases e) (simp_all add: statusFromErr_failure)
  moreover have "clp_LastWriteTime (close_attributes F k' (o_Path op)) = ft" if "?status = StatusSuccess"
  proof -
    from that ok have "e = None" by simp
    then obtain st where "f_Lstat F k' (o_Path op) = Inr st" "fi_ModTime st = ?wt"
      using call assms(1,13) UnixNano_fits [OF ft, of time_now]
      unfolding setTimesOnOpen_def keeps_times_def UnixNano_filetime [OF ft assms(12)] by metis
    then show ?thesis using filetime_roundtrip [OF ft, of time_now] by (simp add: close_attributes_def Let_def)
  qed
  ultimately show ?thesis using call unfolding setTimesOnOpen_def by blast
qed

section \<open>Concrete requests\<close>

definition wtimes :: "int fs_calls" where
  "wtimes =
     \<lparr>f_Lstat = (\<lambda>k p. Inr \<lparr>fi_ModTime = (k div 1000000000, nat (k mod 1000000000)), fi_Size = 0, fi_IsDir = False, fi_Perm = 0, fi_Sys = None\<rparr>),
      f_birthTime = (\<lambda>_ _. None), f_openNoFollow = (\<lambda>_ _. None), f_Remove = (\<lambda>k _. (k, None)), f_Rename = (\<lambda>k _ _. (k, None)),
      f_Ftruncate = (\<lambda>k _ _. (k, None)), f_Truncate = (\<lambda>k _ _. (k, None)), f_UtimesNanoAt = (\<lambda>k _ _ m. (m - m mod 100, None)),
      x_get = (\<lambda>_ _ _. Inl ENOTSUP), x_list = (\<lambda>_ _. Inl ENOTSUP), x_set = (\<lambda>k _ _ _. (k, Some ENOTSUP)),
      x_remove = (\<lambda>k _ _. (k, Some ENOTSUP)), x_notFound = isXattrNotFound_linux\<rparr>"

abbreviation wset_state :: "'k \<Rightarrow> 'k dstate" where
  "wset_state k \<equiv> \<lparr>ds_sv = wclose_server, ds_chain = forFrame False, ds_held = NoLock, ds_k = k\<rparr>"

abbreviation wset_body :: "byte \<Rightarrow> bytes \<Rightarrow> bytes" where
  "wset_body c buf \<equiv> le16 33 @ [1, c] @ le32 (word_of_nat (length buf)) @ le16 96 @ zeros 6 @ zeros 16 @ buf"

abbreviation wset_names :: "'k name_env" where
  "wset_names \<equiv> \<lparr>ne_probe = (\<lambda>k _. k), ne_fs = (\<lambda>_. \<lparr>fs_Lstat = (\<lambda>_. NotExist), fs_EvalSymlinks = Real\<rparr>), ne_resolveNorm = (\<lambda>_ _ _ _. None)\<rparr>"

theorem modification_time_reads_back_witness:
  "\<exists>ds'. handleSetInfo wtimes wset_names id (0, 0) wdispatcher (wrequest 17)
       (wset_body FileBasicInformationSet (zeros 16 @ le64 132223104001234567 @ zeros 8)) 0 (wset_state 0) = Some (True, ds')
     \<and> ch_lastChainStatus (ds_chain ds') = StatusSuccess
     \<and> clp_LastWriteTime (close_attributes wtimes (ds_k ds') [0x2F, 0x73, 0x2F, 0x61]) = 132223104001234567"
proof -
  let ?buf = "zeros 16 @ le64 (132223104001234567 :: u64) @ zeros 8"
  have keeps: "keeps_times wtimes (\<lambda>m. m mod 100 = 0)" by (simp add: keeps_times_def wtimes_def)
  have dec: "DecodeSetInfoRequest (wset_body FileBasicInformationSet ?buf) =
      Some (Inr \<lparr>si_InfoType = 1, si_FileInfoClass = 4, si_BufferLength = 32, si_AdditionalInfo = 0, si_FileID = zeros 16, si_Buffer = ?buf\<rparr>)"
    by code_simp
  have ft: "(132223104001234567 :: u64) = le_word (take 8 (drop 16 ?buf))" by code_simp
  have op: "\<not> read_only_tree wclose_open" "\<not> o_IsStream wclose_open" "o_Path wclose_open = [0x2F, 0x73, 0x2F, 0x61]"
    by (simp_all add: wclose_open_def read_only_tree_def)
  show ?thesis
    using modification_time_reads_back [OF keeps dec, of "wset_state 0" 0 4 wclose_open 132223104001234567 wset_names id "(0, 0)" wdispatcher "wrequest 17"] op ft
    by (auto simp: GetOpen_def nanos_fit_def filetime_nanos_def set_answer_def answered_def set_open_def wtimes_def)
qed

theorem set_info_stays_in_the_share_witness:
  "\<exists>ds' status op' k'. handleSetInfo wclose_names wset_names id (0, 0) wdispatcher (wrequest 17)
       (wset_body FileRenameInformation (zeros 16 @ le32 10 @ [0x2E, 0, 0x2E, 0, 0x5C, 0, 0x62, 0, 0x63, 0])) 0
       (wset_state [[0x2F, 0x73, 0x2F, 0x6C]]) = Some (True, ds')
     \<and> set_effect wclose_names wset_names id 4 [0x2F, 0x73] wclose_open [[0x2F, 0x73, 0x2F, 0x6C]] status op' k'
     \<and> set_answer (wrequest 17) 0 (wset_state [[0x2F, 0x73, 0x2F, 0x6C]]) 4 status op' k' ds'"
proof -
  let ?buf = "zeros 16 @ le32 (10 :: u32) @ [0x2E, 0, 0x2E, 0, 0x5C, 0, 0x62, 0, 0x63, 0]"
  have dec: "DecodeSetInfoRequest (wset_body FileRenameInformation ?buf) =
      Some (Inr \<lparr>si_InfoType = 1, si_FileInfoClass = 10, si_BufferLength = 30, si_AdditionalInfo = 0, si_FileID = zeros 16, si_Buffer = ?buf\<rparr>)"
    by code_simp
  have root: "share_rooted wclose_open [0x2F, 0x73]"
    by (simp add: share_rooted_def wclose_open_def)
  show ?thesis
    using set_info_stays_in_the_share [OF dec, of "wset_state [[0x2F, 0x73, 0x2F, 0x6C]]" 0 4 wclose_open "[0x2F, 0x73]"
        wclose_names wset_names id "(0, 0)" wdispatcher "wrequest 17"] root
    by (simp add: GetOpen_def) blast
qed

end
