(* ===== verification/Aapl.thy ===== *)
theory Aapl
  imports Xattr Create_Contexts Wildcard
begin

text \<open>
  The Apple extensions of CREATE and the case sensitivity of a share (\<^verbatim>\<open>internal/parent/aapl.go\<close>): the
  response contexts, the probe that finds out whether the file system behind a share distinguishes upper
  and lower case, its cache, and what it decides - two bits on the wire, the pattern matcher and the
  folding of names in the resolver.

  The calls of the probe are the record \<open>probe_calls\<close> over the state \<open>'m\<close> of the machine; the identity of a
  file, which \<^verbatim>\<open>os.SameFile\<close> compares, is a pair of numbers. The random suffix of the probe's file and
  \<^verbatim>\<open>strings.ToUpper\<close> are arguments. The cache and the flag a connection latches are the record \<open>conn_world\<close>.
\<close>

section \<open>Response contexts\<close>

definition aaplTag :: bytes where "aaplTag = [0x41, 0x41, 0x50, 0x4C]"
definition mxAcTag :: bytes where "mxAcTag = [0x4D, 0x78, 0x41, 0x63]"
definition qFidTag :: bytes where "qFidTag = [0x51, 0x46, 0x69, 0x64]"

abbreviation (input) aaplCmdServerQuery :: u32 where "aaplCmdServerQuery \<equiv> 1"
abbreviation (input) aaplBitServerCaps :: u64 where "aaplBitServerCaps \<equiv> 1"
abbreviation (input) aaplBitVolumeCaps :: u64 where "aaplBitVolumeCaps \<equiv> 2"
abbreviation (input) aaplBitModelInfo :: u64 where "aaplBitModelInfo \<equiv> 4"
abbreviation (input) aaplCapReadDirAttr :: u64 where "aaplCapReadDirAttr \<equiv> 1"
abbreviation (input) aaplCapUnixBased :: u64 where "aaplCapUnixBased \<equiv> 4"
abbreviation (input) aaplVolCaseSensitive :: u64 where "aaplVolCaseSensitive \<equiv> 2"
abbreviation (input) aaplVolFullSync :: u64 where "aaplVolFullSync \<equiv> 4"

definition aapl_volume_caps :: "bool \<Rightarrow> u64" where
  "aapl_volume_caps caseSensitive = (if caseSensitive then aaplVolFullSync OR aaplVolCaseSensitive else aaplVolFullSync)"

definition aapl_model :: bytes where
  "aapl_model = (let model = utf16leName (lit ''MacSamba1,1'') in le32 0 @ le32 (word_of_nat (length model)) @ model)"

text \<open>The fields are read after the length check. \<open>None\<close> is the nil of a request that is not answered.\<close>

definition buildAAPLResponse :: "bytes \<Rightarrow> bool \<Rightarrow> bytes option \<times> bool" where
  "buildAAPLResponse reqData caseSensitive =
     (if length reqData < 24 then (None, False)
      else if (le_word (take 4 reqData) :: u32) \<noteq> aaplCmdServerQuery then (None, False)
      else
        let reqBitmap = (le_word (take 8 (drop 8 reqData)) :: u64);
            clientCaps = (le_word (take 8 (drop 16 reqData)) :: u64);
            readDirAttr = (reqBitmap AND aaplBitServerCaps \<noteq> 0 \<and> clientCaps AND aaplCapReadDirAttr \<noteq> 0);
            serverCaps = (if readDirAttr then aaplCapUnixBased OR aaplCapReadDirAttr else aaplCapUnixBased)
        in (Some (le32 aaplCmdServerQuery @ le32 0 @ le64 reqBitmap @
              (if reqBitmap AND aaplBitServerCaps \<noteq> 0 then le64 serverCaps else []) @
              (if reqBitmap AND aaplBitVolumeCaps \<noteq> 0 then le64 (aapl_volume_caps caseSensitive) else []) @
              (if reqBitmap AND aaplBitModelInfo \<noteq> 0 then aapl_model else [])),
            readDirAttr))"

section \<open>Case sensitivity of the file system\<close>

type_synonym file_ident = "u64 \<times> u64"

record 'm probe_calls =
  pc_createExcl :: "'m \<Rightarrow> gostring \<Rightarrow> 'm \<times> errno option"
  pc_fstat :: "'m \<Rightarrow> gostring \<Rightarrow> errno + file_ident"
  pc_lstat :: "'m \<Rightarrow> gostring \<Rightarrow> errno + file_ident"
  pc_remove :: "'m \<Rightarrow> gostring \<Rightarrow> 'm \<times> errno option"
  pc_readdirnames :: "'m \<Rightarrow> gostring \<Rightarrow> nat \<Rightarrow> errno + gostring list"

definition caseProbePrefix :: gostring where
  "caseProbePrefix = lit ''.gosamba-case-probe-''"

definition caseProbeScanLimit :: nat where
  "caseProbeScanLimit = 64"

definition hex_digit :: "nat \<Rightarrow> byte" where
  "hex_digit n = word_of_nat (if n < 10 then 0x30 + n else 0x57 + n)"

definition hex_encode :: "bytes \<Rightarrow> gostring" where
  "hex_encode bs = concat (map (\<lambda>b. [hex_digit (unat b div 16), hex_digit (unat b mod 16)]) bs)"

text \<open>\<open>None\<close> is an error of the probe. \<open>rnd\<close> is \<open>None\<close> when the random source fails.\<close>

definition probeCaseByCreate :: "'m probe_calls \<Rightarrow> (gostring \<Rightarrow> gostring) \<Rightarrow> bytes option \<Rightarrow> gostring \<Rightarrow> 'm \<Rightarrow> bool option \<times> 'm" where
  "probeCaseByCreate C toUpper rnd root k =
     (case rnd of None \<Rightarrow> (None, k)
      | Some sfx \<Rightarrow>
          let lower = caseProbePrefix @ hex_encode sfx; upper = toUpper lower; lowerPath = Join2 root lower in
          (case pc_createExcl C k lowerPath of
             (k1, Some _) \<Rightarrow> (None, k1)
           | (k1, None) \<Rightarrow>
               let answer =
                 (case pc_fstat C k1 lowerPath of
                    Inl _ \<Rightarrow> None
                  | Inr created \<Rightarrow>
                      (case pc_lstat C k1 (Join2 root upper) of
                         Inl e \<Rightarrow> if os_IsNotExist (Errno e) then Some True else None
                       | Inr flipped \<Rightarrow> Some (created \<noteq> flipped)))
               in (answer, fst (pc_remove C k1 lowerPath))))"

definition flip_byte :: "byte \<Rightarrow> byte" where
  "flip_byte c = (if 0x61 \<le> c \<and> c \<le> 0x7A then c - 0x61 + 0x41 else if 0x41 \<le> c \<and> c \<le> 0x5A then c - 0x41 + 0x61 else c)"

definition is_letter :: "byte \<Rightarrow> bool" where
  "is_letter c \<longleftrightarrow> 0x61 \<le> c \<and> c \<le> 0x7A \<or> 0x41 \<le> c \<and> c \<le> 0x5A"

definition flipASCIICase :: "gostring \<Rightarrow> gostring \<times> bool" where
  "flipASCIICase s = (if list_ex is_letter s then (map flip_byte s, True) else (s, False))"

fun probe_names :: "'m probe_calls \<Rightarrow> gostring \<Rightarrow> 'm \<Rightarrow> gostring list \<Rightarrow> bool option" where
  "probe_names C root k [] = None"
| "probe_names C root k (name # names) =
     (case flipASCIICase name of (flipped, ok) \<Rightarrow>
        if \<not> ok then probe_names C root k names
        else (case pc_lstat C k (Join2 root name) of
                Inl _ \<Rightarrow> probe_names C root k names
              | Inr orig \<Rightarrow>
                  (case pc_lstat C k (Join2 root flipped) of
                     Inl e \<Rightarrow> if os_IsNotExist (Errno e) then Some True else probe_names C root k names
                   | Inr other \<Rightarrow> Some (orig \<noteq> other))))"

text \<open>The end of the directory is not an error of \<^verbatim>\<open>Readdirnames\<close>: it is the shorter list.\<close>

definition probeCaseByExistingEntry :: "'m probe_calls \<Rightarrow> gostring \<Rightarrow> 'm \<Rightarrow> bool option" where
  "probeCaseByExistingEntry C root k =
     (case pc_readdirnames C k root caseProbeScanLimit of Inl _ \<Rightarrow> None | Inr names \<Rightarrow> probe_names C root k names)"

definition probeCaseSensitivity :: "'m probe_calls \<Rightarrow> (gostring \<Rightarrow> gostring) \<Rightarrow> bytes option \<Rightarrow> gostring \<Rightarrow> bool \<Rightarrow> 'm \<Rightarrow> bool option \<times> 'm" where
  "probeCaseSensitivity C toUpper rnd root readOnly k =
     (if readOnly then (probeCaseByExistingEntry C root k, k)
      else case probeCaseByCreate C toUpper rnd root k of
        (Some sensitive, k') \<Rightarrow> (Some sensitive, k')
      | (None, k') \<Rightarrow> (probeCaseByExistingEntry C root k', k'))"

section \<open>One probe per share\<close>

record caseProbe =
  cp_sensitive :: bool
  cp_measured :: bool

text \<open>The cache of probes, the flag the Apple extension latches, the descriptors opened so far (named by their handle,
  as \<open>hs_closed\<close> names the closed ones), and the machine.\<close>

record 'm conn_world =
  cw_probes :: "(gostring, caseProbe) gomap"
  cw_AAPLReadDirAttr :: bool
  cw_opened :: "open_ref list"
  cw_m :: 'm

definition caseSensitivityFallback :: bool where
  "caseSensitivityFallback = False"

record 'm probe_env =
  pe_calls :: "'m probe_calls"
  pe_toUpper :: "gostring \<Rightarrow> gostring"
  pe_suffix :: "bytes option"

definition shareCaseProbe :: "'m probe_env \<Rightarrow> Tree \<Rightarrow> 'm conn_world \<Rightarrow> caseProbe \<times> 'm conn_world" where
  "shareCaseProbe P tree w =
     (let root = Clean (sc_Path (t_Share tree)) in
      case map_of (cw_probes w) root of
        Some p \<Rightarrow> (p, w)
      | None \<Rightarrow>
          (case probeCaseSensitivity (pe_calls P) (pe_toUpper P) (pe_suffix P) root (sc_ReadOnly (t_Share tree)) (cw_m w) of
             (answer, m') \<Rightarrow>
               let p = (case answer of
                          None \<Rightarrow> \<lparr>cp_sensitive = caseSensitivityFallback, cp_measured = False\<rparr>
                        | Some sensitive \<Rightarrow> \<lparr>cp_sensitive = sensitive, cp_measured = True\<rparr>)
               in (p, w\<lparr>cw_probes := map_put root p (cw_probes w), cw_m := m'\<rparr>)))"

definition has_path :: "Tree option \<Rightarrow> bool" where
  "has_path tree = (case tree of None \<Rightarrow> False | Some t \<Rightarrow> sc_Path (t_Share t) \<noteq> [])"

definition shareCaseSensitive :: "'m probe_env \<Rightarrow> Tree option \<Rightarrow> 'm conn_world \<Rightarrow> bool \<times> 'm conn_world" where
  "shareCaseSensitive P tree w =
     (if \<not> has_path tree then (caseSensitivityFallback, w)
      else map_prod cp_sensitive id (shareCaseProbe P (the tree) w))"

definition shareFoldsCase :: "'m probe_env \<Rightarrow> Tree option \<Rightarrow> 'm conn_world \<Rightarrow> bool \<times> 'm conn_world" where
  "shareFoldsCase P tree w =
     (if \<not> has_path tree then (False, w)
      else map_prod (\<lambda>p. \<not> cp_sensitive p \<and> \<not> cp_measured p) id (shareCaseProbe P (the tree) w))"

abbreviation (input) fileCaseSensitiveSearch :: u32 where "fileCaseSensitiveSearch \<equiv> 0x00000001"
abbreviation (input) fsAttrsBase :: u32 where "fsAttrsBase \<equiv> 0x0084004E"

definition fsAttributes :: "'m probe_env \<Rightarrow> Tree option \<Rightarrow> 'm conn_world \<Rightarrow> u32 \<times> 'm conn_world" where
  "fsAttributes P tree w =
     map_prod (\<lambda>s. if s then fsAttrsBase OR fileCaseSensitiveSearch else fsAttrsBase) id (shareCaseSensitive P tree w)"

section \<open>The contexts of a CREATE response\<close>

definition mxac_data :: "u32 \<Rightarrow> bytes" where
  "mxac_data maxAccess = le32 0 @ le32 maxAccess"

definition qfid_data :: "u64 \<Rightarrow> u64 \<Rightarrow> bytes" where
  "qfid_data diskFileID volumeID = le64 diskFileID @ le64 volumeID @ zeros 16"

definition response_context :: "'m probe_env \<Rightarrow> Tree \<Rightarrow> u32 \<Rightarrow> u64 \<Rightarrow> u64 \<Rightarrow> create_context list \<times> 'm conn_world \<Rightarrow> create_context
    \<Rightarrow> (bool \<times> create_context list \<times> 'm conn_world) option" where
  "response_context P tree maxAccess diskFileID volumeID st c =
     (case st of (out, w) \<Rightarrow>
      Some (True,
        if cc_Name c = aaplTag then
          (case shareCaseSensitive P (Some tree) w of (caseSensitive, w') \<Rightarrow>
             (case buildAAPLResponse (cc_Data c) caseSensitive of
                (None, _) \<Rightarrow> (out, w')
              | (Some r, readDirAttr) \<Rightarrow>
                  (out @ [\<lparr>cc_Name = aaplTag, cc_Data = r\<rparr>], if readDirAttr then w'\<lparr>cw_AAPLReadDirAttr := True\<rparr> else w')))
        else if cc_Name c = mxAcTag then (out @ [\<lparr>cc_Name = mxAcTag, cc_Data = mxac_data maxAccess\<rparr>], w)
        else if cc_Name c = qFidTag \<and> diskFileID \<noteq> 0 then (out @ [\<lparr>cc_Name = qFidTag, cc_Data = qfid_data diskFileID volumeID\<rparr>], w)
        else (out, w)))"

text \<open>The raw contexts of the response, nil as the empty string; \<open>None\<close> is a panic.\<close>

definition buildCreateResponseContexts ::
  "'m probe_env \<Rightarrow> bytes \<Rightarrow> Tree \<Rightarrow> u32 \<Rightarrow> u64 \<Rightarrow> u64 \<Rightarrow> 'm conn_world \<Rightarrow> (bytes \<times> 'm conn_world) option" where
  "buildCreateResponseContexts P raw tree maxAccess diskFileID volumeID w =
     (if length raw = 0 then Some ([], w)
      else case IterateCreateContexts raw (response_context P tree maxAccess diskFileID volumeID) ([], w) of
        None \<Rightarrow> None
      | Some (out, w') \<Rightarrow> map_option (\<lambda>b. (b, w')) (EncodeCreateContexts out))"

section \<open>Only what was asked for is answered\<close>

text \<open>The contexts a callback that never stops sees.\<close>

function contexts_from :: "bytes \<Rightarrow> nat \<Rightarrow> create_context list" where
  "contexts_from raw off =
     (if off + 16 \<le> length raw then
        (case context_at raw off of None \<Rightarrow> [] | Some (nx, c) \<Rightarrow> c # (if nx = 0 then [] else contexts_from raw (off + nx)))
      else [])"
  by pat_completeness auto
termination
  by (relation "measure (\<lambda>(raw, off). length raw - off)") auto

declare contexts_from.simps [simp del]

lemma iterate_from_fold:
  assumes "\<And>st c. \<exists>st'. fn st c = Some (True, st')"
  shows "iterate_from raw fn off st = fold_contexts fn st (contexts_from raw off)"
proof (induction raw off arbitrary: st rule: contexts_from.induct)
  case (1 raw off)
  show ?case
  proof (cases "off + 16 \<le> length raw")
    case False
    then show ?thesis by (subst iterate_from.simps, subst contexts_from.simps) auto
  next
    case True
    then obtain nx c where c: "context_at raw off = Some (nx, c)" using context_at_no_panic by fastforce
    obtain st' where st': "fn st c = Some (True, st')" using assms by blast
    moreover have "\<not> length raw - off < 16" "off < length raw" using True by simp_all
    ultimately show ?thesis using 1 [OF True c refl] True c
      by (subst iterate_from.simps, subst contexts_from.simps) simp
  qed
qed

abbreviation contexts_of :: "bytes \<Rightarrow> create_context list" where
  "contexts_of raw \<equiv> contexts_from raw 0"

text \<open>A context of the response: an answer to a requested AAPL context with the case sensitivity of the share, the
  maximal access, or the identity of the file on its volume.\<close>

definition answer_ok :: "create_context list \<Rightarrow> bool \<Rightarrow> u32 \<Rightarrow> u64 \<Rightarrow> u64 \<Rightarrow> create_context \<Rightarrow> bool" where
  "answer_ok asked sens maxAccess diskFileID volumeID c \<longleftrightarrow>
     cc_Name c \<in> cc_Name ` set asked \<and> wire_context c \<and>
     (cc_Name c = aaplTag \<and> (\<exists>q \<in> set asked. cc_Name q = aaplTag \<and> fst (buildAAPLResponse (cc_Data q) sens) = Some (cc_Data c))
      \<or> cc_Name c = mxAcTag \<and> cc_Data c = le32 0 @ le32 maxAccess
      \<or> cc_Name c = qFidTag \<and> diskFileID \<noteq> 0 \<and> cc_Data c = le64 diskFileID @ le64 volumeID @ zeros 16)"

lemma length_aapl_model: "length aapl_model = 30"
  by code_simp

lemma buildAAPLResponse_short: "fst (buildAAPLResponse q s) = Some r \<Longrightarrow> length r \<le> 62"
  by (auto simp: buildAAPLResponse_def Let_def length_aapl_model split: if_splits)

lemma response_context_continues: "\<exists>st'. response_context P tree maxAccess did vid st c = Some (True, st')"
  by (cases st) (simp add: response_context_def)

lemma tags_differ: "aaplTag \<noteq> mxAcTag" "aaplTag \<noteq> qFidTag" "mxAcTag \<noteq> qFidTag"
  by code_simp+

lemma length_tags [simp]: "length aaplTag = 4" "length mxAcTag = 4" "length qFidTag = 4"
  by (simp_all add: aaplTag_def mxAcTag_def qFidTag_def)

text \<open>The answers to one context, in the order they are added.\<close>

definition answers_to :: "bool \<Rightarrow> u32 \<Rightarrow> u64 \<Rightarrow> u64 \<Rightarrow> create_context \<Rightarrow> create_context list" where
  "answers_to sens maxAccess did vid c =
     (if cc_Name c = aaplTag then
        (case fst (buildAAPLResponse (cc_Data c) sens) of None \<Rightarrow> [] | Some r \<Rightarrow> [\<lparr>cc_Name = aaplTag, cc_Data = r\<rparr>])
      else if cc_Name c = mxAcTag then [\<lparr>cc_Name = mxAcTag, cc_Data = mxac_data maxAccess\<rparr>]
      else if cc_Name c = qFidTag \<and> did \<noteq> 0 then [\<lparr>cc_Name = qFidTag, cc_Data = qfid_data did vid\<rparr>]
      else [])"

lemma image_concat_iff: "y \<in> g ` set (concat (map f xs)) \<longleftrightarrow> (\<exists>x \<in> set xs. y \<in> g ` set (f x))"
  by (induction xs) auto

lemma answers_to_ok:
  assumes "c \<in> set asked" and "a \<in> set (answers_to sens maxAccess did vid c)"
  shows "answer_ok asked sens maxAccess did vid a"
proof -
  have short: "length r < 2147483648" if "Some r = fst (buildAAPLResponse q s)" for q s r
    using buildAAPLResponse_short [of q s r] that by simp
  show ?thesis using assms
    by (auto simp: answers_to_def answer_ok_def wire_context_def mxac_data_def qfid_data_def
        dest: short split: if_splits option.splits intro: rev_image_eqI)
qed

lemma shareCaseSensitive_again:
  assumes "shareCaseSensitive P (Some tree) w = (s, w')"
  shows "fst (shareCaseSensitive P (Some tree) (w'\<lparr>cw_AAPLReadDirAttr := f\<rparr>)) = s" "fst (shareCaseSensitive P (Some tree) w') = s"
  using assms
  by (auto simp: shareCaseSensitive_def shareCaseProbe_def Let_def map_of_put split: option.splits prod.splits if_splits)

lemma response_context_answers:
  assumes "fst (shareCaseSensitive P (Some tree) w) = sens"
  obtains w' where "response_context P tree maxAccess did vid (out, w) c = Some (True, out @ answers_to sens maxAccess did vid c, w')"
    and "fst (shareCaseSensitive P (Some tree) w') = sens"
proof -
  obtain w1 where cs: "shareCaseSensitive P (Some tree) w = (sens, w1)" using assms by (cases "shareCaseSensitive P (Some tree) w") simp
  obtain r rd where ap: "buildAAPLResponse (cc_Data c) sens = (r, rd)" by fastforce
  show ?thesis
    by (rule that [of "if cc_Name c = aaplTag then (if r \<noteq> None \<and> rd then w1\<lparr>cw_AAPLReadDirAttr := True\<rparr> else w1) else w"])
      (use assms shareCaseSensitive_again [OF cs] in \<open>auto simp: response_context_def answers_to_def cs ap split: option.split\<close>)
qed

lemma response_contexts_fold:
  assumes "fst (shareCaseSensitive P (Some tree) w) = sens"
  shows "\<exists>w'. fold_contexts (response_context P tree maxAccess did vid) (out, w) cs
    = Some (out @ concat (map (answers_to sens maxAccess did vid) cs), w')"
  using assms
proof (induction cs arbitrary: out w)
  case (Cons c cs)
  obtain w1 where step: "response_context P tree maxAccess did vid (out, w) c = Some (True, out @ answers_to sens maxAccess did vid c, w1)"
    and same: "fst (shareCaseSensitive P (Some tree) w1) = sens"
    by (rule response_context_answers [OF Cons.prems])
  from Cons.IH [OF same, of "out @ answers_to sens maxAccess did vid c"] step show ?case by simp
qed simp

lemma buildCreateResponseContexts_out:
  assumes "fst (shareCaseSensitive P (Some tree) w) = sens"
  shows "\<exists>raw' w'. buildCreateResponseContexts P raw tree maxAccess did vid w = Some (raw', w')
     \<and> EncodeCreateContexts (concat (map (answers_to sens maxAccess did vid) (contexts_of raw))) = Some raw'"
proof (cases "raw = []")
  case True
  then show ?thesis by (simp add: buildCreateResponseContexts_def EncodeCreateContexts_def contexts_from.simps)
next
  case False
  let ?fn = "response_context P tree maxAccess did vid" and ?out = "concat (map (answers_to sens maxAccess did vid) (contexts_of raw))"
  have "IterateCreateContexts raw ?fn ([], w) = fold_contexts ?fn ([], w) (contexts_of raw)"
    unfolding IterateCreateContexts_def by (rule iterate_from_fold) (rule response_context_continues)
  then obtain w' where out: "IterateCreateContexts raw ?fn ([], w) = Some (?out, w')"
    using response_contexts_fold [OF assms, of maxAccess did vid "[]" "contexts_of raw"] by auto
  obtain raw' where "EncodeCreateContexts ?out = Some raw'"
    using encode_contexts_ok [of ?out] unfolding EncodeCreateContexts_def by (metis not_None_eq)
  with False out show ?thesis by (simp add: buildCreateResponseContexts_def)
qed

lemma buildCreateResponseContexts_some:
  obtains raw' w' where "buildCreateResponseContexts P raw tree maxAccess did vid w = Some (raw', w')"
  using buildCreateResponseContexts_out [OF refl] by blast

text \<open>C39: \<^verbatim>\<open>buildCreateResponseContexts\<close> answers what the client asked for and nothing else. Whatever bytes came as create
  contexts, the contexts are built without a panic, and reading them back gives a list in which
  every context has the name of one that the request had, and is the AAPL answer to the data of a requested context of
  that name with the case sensitivity of the share, the maximal access, or the identity of the file on disk with that of its
  volume - 32 bytes, and only when there is a non-zero identity. A request for the maximal access is always
  answered, and so is one for the identity when there is one. The durable and lease contexts of a
  CREATE response are added to these afterwards, by \<^verbatim>\<open>applyDurableAndLease\<close>, and are not part of this statement.\<close>

theorem only_requested_contexts_are_answered:
  "\<exists>out raw' w'. buildCreateResponseContexts P raw tree maxAccess diskFileID volumeID w = Some (raw', w')
     \<and> list_all (answer_ok (contexts_of raw) (fst (shareCaseSensitive P (Some tree) w)) maxAccess diskFileID volumeID) out
     \<and> (mxAcTag \<in> cc_Name ` set out \<longleftrightarrow> mxAcTag \<in> cc_Name ` set (contexts_of raw))
     \<and> (qFidTag \<in> cc_Name ` set out \<longleftrightarrow> qFidTag \<in> cc_Name ` set (contexts_of raw) \<and> diskFileID \<noteq> 0)
     \<and> IterateCreateContexts raw' fn st = fold_contexts fn st out"
proof -
  let ?s = "fst (shareCaseSensitive P (Some tree) w)"
  define out where "out = concat (map (answers_to ?s maxAccess diskFileID volumeID) (contexts_of raw))"
  obtain raw' w' where run: "buildCreateResponseContexts P raw tree maxAccess diskFileID volumeID w = Some (raw', w')"
    and enc: "EncodeCreateContexts out = Some raw'"
    using buildCreateResponseContexts_out [OF refl] unfolding out_def by blast
  have ok: "list_all (answer_ok (contexts_of raw) ?s maxAccess diskFileID volumeID) out"
    unfolding out_def list_all_iff by (auto intro: answers_to_ok)
  then have "list_all wire_context out" by (induction out) (auto simp: answer_ok_def)
  from create_contexts_roundtrip [OF this, of fn st] enc have reread: "IterateCreateContexts raw' fn st = fold_contexts fn st out" by simp
  have names: "mxAcTag \<in> cc_Name ` set (answers_to s m did vid c) \<longleftrightarrow> cc_Name c = mxAcTag"
    "qFidTag \<in> cc_Name ` set (answers_to s m did vid c) \<longleftrightarrow> cc_Name c = qFidTag \<and> did \<noteq> 0" for s m did vid c
    by (auto simp: answers_to_def tags_differ tags_differ [symmetric] split: option.splits)
  have "mxAcTag \<in> cc_Name ` set out \<longleftrightarrow> mxAcTag \<in> cc_Name ` set (contexts_of raw)"
    unfolding out_def image_concat_iff names(1) by (metis imageE image_eqI)
  moreover have "qFidTag \<in> cc_Name ` set out \<longleftrightarrow> qFidTag \<in> cc_Name ` set (contexts_of raw) \<and> diskFileID \<noteq> 0"
    unfolding out_def image_concat_iff names(2) by (metis imageE image_eqI)
  ultimately show ?thesis using run ok reread by blast
qed

section \<open>The probe\<close>

definition ascii_upper :: "byte \<Rightarrow> byte" where
  "ascii_upper c = (if 0x61 \<le> c \<and> c \<le> 0x7A then c - 0x20 else c)"

text \<open>What \<^verbatim>\<open>strings.ToUpper\<close> does to ASCII.\<close>

definition upper_law :: "(gostring \<Rightarrow> gostring) \<Rightarrow> bool" where
  "upper_law toUpper \<longleftrightarrow> (\<forall>s. list_all (\<lambda>c. c < 0x80) s \<longrightarrow> toUpper s = map ascii_upper s)"

text \<open>How a directory of a case-sensitive or case-insensitive file system answers a name that differs from
  an existing one in case only: with nothing or another file, or with the same one. Two such names are not
  links to one file.\<close>

definition answers_other_case :: "'m probe_calls \<Rightarrow> bool \<Rightarrow> gostring \<Rightarrow> 'm \<Rightarrow> gostring \<Rightarrow> file_ident \<Rightarrow> bool" where
  "answers_other_case C sens root k name ident \<longleftrightarrow>
     (\<forall>other. name_ok other \<and> other \<noteq> name \<and> map ascii_upper other = map ascii_upper name \<longrightarrow>
        (if sens then (case pc_lstat C k (Join2 root other) of Inl e \<Rightarrow> e = ENOENT | Inr i \<Rightarrow> i \<noteq> ident)
         else pc_lstat C k (Join2 root other) = Inr ident))"

text \<open>Names are single components, neither empty nor \<^verbatim>\<open>.\<close> nor \<^verbatim>\<open>..\<close>, as the entries of a directory are.\<close>

definition volume_law :: "'m probe_calls \<Rightarrow> bool \<Rightarrow> gostring \<Rightarrow> bool" where
  "volume_law C sens root \<longleftrightarrow>
     (\<forall>k name ident. name_ok name \<and> pc_lstat C k (Join2 root name) = Inr ident \<longrightarrow> answers_other_case C sens root k name ident) \<and>
     (\<forall>k k' name ident. name_ok name \<and> pc_createExcl C k (Join2 root name) = (k', None)
        \<and> pc_fstat C k' (Join2 root name) = Inr ident \<longrightarrow> answers_other_case C sens root k' name ident) \<and>
     (\<forall>k n names. pc_readdirnames C k root n = Inr names \<longrightarrow> list_all name_ok names)"

lemma ascii_upper_plain [simp]:
  "ascii_upper c = slash \<longleftrightarrow> c = slash" "ascii_upper c = 0x2E \<longleftrightarrow> c = 0x2E"
  by (auto simp: ascii_upper_def word_le_nat_alt unat_sub_if_size word_unat_eq_iff)

lemma name_ok_case:
  assumes "map ascii_upper other = map ascii_upper name" and "name_ok name"
  shows "name_ok other"
proof -
  have ok: "name_ok (map ascii_upper s) \<longleftrightarrow> name_ok s" for s
    by (auto simp: name_ok_def image_iff eq_commute [of slash] map_eq_Cons_conv)
  from ok [of other] ok [of name] assms show ?thesis by simp
qed

lemma probe_name_ok: "name_ok (caseProbePrefix @ hex_encode sfx)"
proof -
  have digit: "n < 16 \<Longrightarrow> hex_digit n \<noteq> slash" for n
    unfolding hex_digit_def by (simp add: word_unat_eq_iff unat_of_nat)
  have "slash \<notin> set (hex_encode sfx)"
  proof (induction sfx)
    case (Cons b sfx)
    have "unat b div 16 < 16" using unsigned_less [of b] by (simp add: div_less_iff_less_mult)
    with Cons digit [of "unat b div 16"] digit [of "unat b mod 16"] show ?case by (auto simp: hex_encode_def)
  qed (simp add: hex_encode_def)
  then have "slash \<notin> set (caseProbePrefix @ hex_encode sfx)" by (simp add: caseProbePrefix_def lit_def)
  moreover have "2 < length (caseProbePrefix @ hex_encode sfx)" by (simp add: caseProbePrefix_def lit_def)
  moreover have "name_ok n" if "slash \<notin> set n" "2 < length n" for n using that by (auto simp: name_ok_def)
  ultimately show ?thesis by blast
qed

lemma upper_other_case:
  assumes "upper_law toUpper"
  shows "toUpper (caseProbePrefix @ hex_encode sfx) \<noteq> caseProbePrefix @ hex_encode sfx
    \<and> map ascii_upper (toUpper (caseProbePrefix @ hex_encode sfx)) = map ascii_upper (caseProbePrefix @ hex_encode sfx)"
proof -
  let ?s = "caseProbePrefix @ hex_encode sfx"
  have digit: "n < 16 \<Longrightarrow> hex_digit n < 0x80" for n
    unfolding hex_digit_def by (simp add: word_less_nat_alt unat_of_nat)
  have "list_all (\<lambda>c. c < 0x80) (hex_encode sfx)"
  proof (induction sfx)
    case (Cons b sfx)
    have "unat b div 16 < 16" using unsigned_less [of b] by (simp add: div_less_iff_less_mult)
    with Cons digit show ?case by (simp add: hex_encode_def)
  qed (simp add: hex_encode_def)
  moreover have "list_all (\<lambda>c. c < 0x80) caseProbePrefix" by code_simp
  ultimately have up: "toUpper ?s = map ascii_upper ?s" using assms by (simp add: upper_law_def)
  have "map ascii_upper caseProbePrefix \<noteq> caseProbePrefix" by code_simp
  moreover have "ascii_upper (ascii_upper c) = ascii_upper c" for c
    unfolding ascii_upper_def by (auto simp: word_le_nat_alt unat_sub_if_size)
  ultimately show ?thesis unfolding up by auto
qed

lemma flip_other_case:
  assumes "flipASCIICase name = (flipped, True)"
  shows "flipped \<noteq> name \<and> map ascii_upper flipped = map ascii_upper name"
proof -
  have fl: "list_ex is_letter name" "flipped = map flip_byte name" using assms by (auto simp: flipASCIICase_def split: if_splits)
  have letter: "is_letter c \<Longrightarrow> flip_byte c \<noteq> c" for c
    unfolding is_letter_def flip_byte_def by (auto simp: word_le_nat_alt unat_sub_if_size unat_word_ariths word_unat_eq_iff)
  have "ascii_upper (flip_byte c) = ascii_upper c" for c
    unfolding ascii_upper_def flip_byte_def by (auto simp: word_le_nat_alt unat_sub_if_size unat_word_ariths word_unat_eq_iff)
  then have "map ascii_upper flipped = map ascii_upper name" by (simp add: fl(2))
  moreover from fl(1) have "map flip_byte name \<noteq> name" by (induction name) (auto simp: letter)
  ultimately show ?thesis using fl(2) by simp
qed

lemma volume_lists: "volume_law C sens root \<Longrightarrow> pc_readdirnames C k root n = Inr names \<Longrightarrow> list_all name_ok names"
  unfolding volume_law_def by blast

lemma probe_names_right:
  "volume_law C sens root \<Longrightarrow> list_all name_ok names \<Longrightarrow> probe_names C root k names = Some s \<Longrightarrow> s = sens"
proof (induction names)
  case (Cons name names)
  obtain flipped ok where fl: "flipASCIICase name = (flipped, ok)" by fastforce
  show ?case
  proof (cases "ok \<and> \<not> isl (pc_lstat C k (Join2 root name))")
    case True
    then obtain ident where ident: "pc_lstat C k (Join2 root name) = Inr ident" by (metis isl_def sum.collapse(2) True)
    have fl': "flipASCIICase name = (flipped, True)" using fl True by simp
    have "answers_other_case C sens root k name ident" using Cons.prems(1,2) ident unfolding volume_law_def list.pred_inject by blast
    then have "if sens then (case pc_lstat C k (Join2 root flipped) of Inl e \<Rightarrow> e = ENOENT | Inr i \<Rightarrow> i \<noteq> ident)
        else pc_lstat C k (Join2 root flipped) = Inr ident"
      using flip_other_case [OF fl'] name_ok_case [of flipped name] Cons.prems(2) unfolding answers_other_case_def by simp
    with fl' ident Cons show ?thesis by (auto simp: os_IsNotExist_def split: if_splits sum.splits)
  next
    case False
    with Cons fl show ?thesis by (auto split: if_splits sum.splits)
  qed
qed simp

lemma probeCaseByExistingEntry_right:
  "volume_law C sens root \<Longrightarrow> probeCaseByExistingEntry C root k = Some s \<Longrightarrow> s = sens"
  using probe_names_right volume_lists by (fastforce simp: probeCaseByExistingEntry_def split: sum.splits)

lemma probeCaseByCreate_right:
  assumes "volume_law C sens root" and "upper_law toUpper" and "probeCaseByCreate C toUpper rnd root k = (Some s, k')"
  shows "s = sens \<and> (\<exists>lower k1 e. pc_remove C k1 (Join2 root lower) = (k', e) \<and> pc_createExcl C k (Join2 root lower) = (k1, None))"
proof -
  obtain sfx where sfx: "rnd = Some sfx" using assms(3) by (cases rnd) (simp_all add: probeCaseByCreate_def)
  let ?lower = "caseProbePrefix @ hex_encode sfx"
  obtain k1 where create: "pc_createExcl C k (Join2 root ?lower) = (k1, None)"
    using assms(3) by (auto simp: probeCaseByCreate_def sfx Let_def split: prod.splits option.splits)
  obtain ident where ident: "pc_fstat C k1 (Join2 root ?lower) = Inr ident"
    using assms(3) create by (auto simp: probeCaseByCreate_def sfx Let_def split: sum.splits)
  have "answers_other_case C sens root k1 ?lower ident" using assms(1) create ident probe_name_ok unfolding volume_law_def by blast
  then have "s = sens" "k' = fst (pc_remove C k1 (Join2 root ?lower))"
    using assms(3) create ident upper_other_case [OF assms(2), of sfx] name_ok_case [OF _ probe_name_ok, of _ sfx]
    by (auto simp: probeCaseByCreate_def sfx Let_def answers_other_case_def os_IsNotExist_def split: sum.splits if_splits)
  then show ?thesis using create by (metis prod.collapse)
qed

lemma probeCaseSensitivity_right:
  assumes "volume_law C sens root" and "upper_law toUpper" and "probeCaseSensitivity C toUpper rnd root ro k = (Some s, k')"
  shows "s = sens"
proof (cases ro)
  case True
  with assms(3) probeCaseByExistingEntry_right [OF assms(1)] show ?thesis by (auto simp: probeCaseSensitivity_def)
next
  case False
  obtain r k1 where create: "probeCaseByCreate C toUpper rnd root k = (r, k1)" by fastforce
  show ?thesis
  proof (cases r)
    case None
    with False assms(3) create probeCaseByExistingEntry_right [OF assms(1)] show ?thesis by (auto simp: probeCaseSensitivity_def)
  next
    case (Some s')
    with create have "s' = sens" using probeCaseByCreate_right [OF assms(1,2)] by blast
    with False Some assms(3) create show ?thesis by (simp add: probeCaseSensitivity_def)
  qed
qed

section \<open>One answer per share\<close>

text \<open>Any number of questions about any shares, with whatever the machine does then.\<close>

definition asked_later :: "('m probe_env \<times> Tree) list \<Rightarrow> 'm conn_world \<Rightarrow> 'm conn_world" where
  "asked_later qs w = fold (\<lambda>(P, t) w. snd (shareCaseProbe P t w)) qs w"

lemma shareCaseProbe_cached:
  "map_of (cw_probes w) (Clean (sc_Path (t_Share t))) = Some p \<Longrightarrow> shareCaseProbe P t w = (p, w)"
  by (simp add: shareCaseProbe_def)

lemma shareCaseProbe_caches:
  "shareCaseProbe P t w = (p, w') \<Longrightarrow> map_of (cw_probes w') (Clean (sc_Path (t_Share t))) = Some p"
  by (auto simp: shareCaseProbe_def Let_def map_of_put split: option.splits prod.splits)

lemma shareCaseProbe_keeps:
  "map_of (cw_probes w) r = Some p \<Longrightarrow> map_of (cw_probes (snd (shareCaseProbe P t w))) r = Some p"
  by (auto simp: shareCaseProbe_def Let_def map_of_put split: option.splits prod.splits)

lemma asked_later_keeps:
  "map_of (cw_probes w) r = Some p \<Longrightarrow> map_of (cw_probes (asked_later qs w)) r = Some p"
proof (induction qs arbitrary: w)
  case (Cons q qs)
  obtain P t where q: "q = (P, t)" by fastforce
  from Cons.IH [OF shareCaseProbe_keeps [OF Cons.prems]] q show ?case by (simp add: asked_later_def)
qed (simp add: asked_later_def)

definition volume_bit :: "bytes option \<Rightarrow> bool" where
  "volume_bit r = (case r of None \<Rightarrow> False | Some b \<Rightarrow> (le_word (take 8 (drop 16 b)) :: u64) AND aaplVolCaseSensitive \<noteq> 0)"

text \<open>The request for the volume capabilities alone.\<close>

definition volume_query :: bytes where
  "volume_query = le32 1 @ le32 0 @ le64 2 @ le64 0"

lemma volume_bit_query: "volume_bit (fst (buildAAPLResponse volume_query s)) = s"
proof -
  have "volume_bit (fst (buildAAPLResponse volume_query True))" "\<not> volume_bit (fst (buildAAPLResponse volume_query False))"
    by code_simp+
  then show ?thesis by (cases s) auto
qed

text \<open>C38: What the server says of the case sensitivity of a share is measured once, right, and the same
  everywhere. The first question about a share probes its file system; when the probe gave an answer, it is
  that of the file system (one that tells two entry names that differ in the case of ASCII letters apart, no such pair
  being links to one file, or one that does not). Any later question, whatever
  was asked in between about this or other shares, gets the same answer without another probe: the
  attribute bit of the volume, the capability bit of the Apple extension, and the matcher's flag agree, and
  the resolver folds names itself exactly when nothing was measured and the share is not called
  sensitive.\<close>

theorem case_sensitivity_is_consistent:
  assumes "sc_Path (t_Share t) \<noteq> []" and "shareCaseProbe P t w = (p, w1)"
  shows "(map_of (cw_probes w) (Clean (sc_Path (t_Share t))) = None \<and> cp_measured p
      \<and> volume_law (pe_calls P) sens (Clean (sc_Path (t_Share t))) \<and> upper_law (pe_toUpper P) \<longrightarrow> cp_sensitive p = sens)
    \<and> (let w2 = asked_later qs w1 in
        fst (fsAttributes P' (Some t) w2) AND fileCaseSensitiveSearch \<noteq> 0 \<longleftrightarrow> cp_sensitive p)
    \<and> shareCaseSensitive P' (Some t) (asked_later qs w1) = (cp_sensitive p, asked_later qs w1)
    \<and> volume_bit (fst (buildAAPLResponse volume_query (fst (shareCaseSensitive P' (Some t) (asked_later qs w1))))) = cp_sensitive p
    \<and> shareFoldsCase P' (Some t) (asked_later qs w1) = (\<not> cp_sensitive p \<and> \<not> cp_measured p, asked_later qs w1)"
proof -
  have later: "shareCaseProbe P' t (asked_later qs w1) = (p, asked_later qs w1)"
    by (intro shareCaseProbe_cached asked_later_keeps shareCaseProbe_caches [OF assms(2)])
  have path: "has_path (Some t)" using assms(1) by (simp add: has_path_def)
  have right: "cp_sensitive p = sens"
    if "map_of (cw_probes w) (Clean (sc_Path (t_Share t))) = None" "cp_measured p"
      "volume_law (pe_calls P) sens (Clean (sc_Path (t_Share t)))" "upper_law (pe_toUpper P)"
    using assms(2) that probeCaseSensitivity_right [OF that(3,4)]
    by (auto simp: shareCaseProbe_def Let_def split: prod.splits option.splits)
  have "shareCaseSensitive P' (Some t) (asked_later qs w1) = (cp_sensitive p, asked_later qs w1)"
    using path by (simp add: shareCaseSensitive_def later)
  with right path show ?thesis
    by (auto simp: fsAttributes_def shareFoldsCase_def later volume_bit_query Let_def)
qed

definition wprobe :: "unit probe_env" where
  "wprobe = \<lparr>pe_calls = \<lparr>pc_createExcl = (\<lambda>k _. (k, None)), pc_fstat = (\<lambda>_ _. Inr (1, 7)), pc_lstat = (\<lambda>_ _. Inr (1, 7)),
       pc_remove = (\<lambda>k _. (k, None)), pc_readdirnames = (\<lambda>_ _ _. Inr [])\<rparr>,
     pe_toUpper = map ascii_upper, pe_suffix = Some (zeros 8)\<rparr>"

definition wprobe_tree :: Tree where
  "wprobe_tree = \<lparr>t_ID = 2, t_Share = \<lparr>sc_Name = [0x64], sc_Path = [0x2F, 0x73], sc_ReadOnly = False, sc_GuestOK = False\<rparr>\<rparr>"

abbreviation wprobe_world :: "unit conn_world" where
  "wprobe_world \<equiv> \<lparr>cw_probes = [], cw_AAPLReadDirAttr = False, cw_opened = [], cw_m = ()\<rparr>"

text \<open>A case-sensitive file system: the share has a file \<^verbatim>\<open>f\<close>, and the machine remembers the probe file.\<close>

definition wsens_lstat :: "gostring option \<Rightarrow> gostring \<Rightarrow> errno + file_ident" where
  "wsens_lstat k p = (if p = lit ''/s/f'' then Inr (1, 7) else if k = Some p then Inr (1, 8) else Inl ENOENT)"

definition wsens :: "gostring option probe_env" where
  "wsens = \<lparr>pe_calls = \<lparr>pc_createExcl = (\<lambda>k p. if isl (wsens_lstat k p) then (Some p, None) else (k, Some EEXIST)),
       pc_fstat = wsens_lstat, pc_lstat = wsens_lstat, pc_remove = (\<lambda>k p. (None, None)),
       pc_readdirnames = (\<lambda>_ _ _. Inr [lit ''f''])\<rparr>,
     pe_toUpper = map ascii_upper, pe_suffix = Some (zeros 8)\<rparr>"

abbreviation wsens_world :: "gostring option conn_world" where
  "wsens_world \<equiv> \<lparr>cw_probes = [], cw_AAPLReadDirAttr = False, cw_opened = [], cw_m = None\<rparr>"

lemma Join2_share: "name_ok n \<Longrightarrow> Join2 (lit ''/s'') n = lit ''/s/'' @ n"
proof -
  assume ok: "name_ok n"
  have "Join2 (abs_path [lit ''s'']) n = abs_path (clean_stack True [lit ''s''] [n])"
    using ok Join2_abs_path(1) [of "[lit ''s'']" n] by (simp add: split_on_plain name_ok_def lit_def)
  with ok show ?thesis by (simp add: abs_path_def name_ok_def lit_def)
qed

lemma wsens_law: "volume_law (pe_calls wsens) True (lit ''/s'')"
proof -
  have differ: "case wsens_lstat k (Join2 (lit ''/s'') other) of Inl e \<Rightarrow> e = ENOENT | Inr i \<Rightarrow> i \<noteq> ident"
    if "name_ok name" "name_ok other" "other \<noteq> name" "wsens_lstat k (Join2 (lit ''/s'') name) = Inr ident" for k name other ident
    using that Join2_share [of name] Join2_share [of other] by (auto simp: wsens_lstat_def lit_def split: if_splits)
  then show ?thesis
    by (auto simp: volume_law_def answers_other_case_def wsens_def name_ok_def lit_def)
qed

text \<open>The file system that folds case and the one that does not are both told right.\<close>

theorem case_sensitivity_is_consistent_witness:
  "(\<exists>p w1. shareCaseProbe wprobe wprobe_tree wprobe_world = (p, w1) \<and> cp_measured p \<and> \<not> cp_sensitive p
     \<and> shareFoldsCase wprobe (Some wprobe_tree) (asked_later [(wprobe, wprobe_tree)] w1) = (False, asked_later [(wprobe, wprobe_tree)] w1))
   \<and> (\<exists>p w1. shareCaseProbe wsens wprobe_tree wsens_world = (p, w1) \<and> cp_measured p \<and> cp_sensitive p
     \<and> fst (fsAttributes wsens (Some wprobe_tree) (asked_later [(wsens, wprobe_tree)] w1)) AND fileCaseSensitiveSearch \<noteq> 0)"
proof
  have path: "sc_Path (t_Share wprobe_tree) \<noteq> []" by (simp add: wprobe_tree_def)
  have clean: "Clean (sc_Path (t_Share wprobe_tree)) = lit ''/s''" by code_simp
  let ?p = "\<lparr>cp_sensitive = False, cp_measured = True\<rparr>"
  obtain w1 where run: "shareCaseProbe wprobe wprobe_tree wprobe_world = (?p, w1)"
    by (simp add: shareCaseProbe_def Let_def probeCaseSensitivity_def probeCaseByCreate_def wprobe_def wprobe_tree_def)
  have law: "volume_law (pe_calls wprobe) False root" for root
    by (simp add: volume_law_def answers_other_case_def wprobe_def)
  have upper: "upper_law (pe_toUpper wprobe)" by (simp add: upper_law_def wprobe_def)
  from case_sensitivity_is_consistent [OF path run, of False "[(wprobe, wprobe_tree)]" wprobe] law upper run
  show "\<exists>p w1. shareCaseProbe wprobe wprobe_tree wprobe_world = (p, w1) \<and> cp_measured p \<and> \<not> cp_sensitive p
     \<and> shareFoldsCase wprobe (Some wprobe_tree) (asked_later [(wprobe, wprobe_tree)] w1) = (False, asked_later [(wprobe, wprobe_tree)] w1)"
    by auto
  have measured: "cp_measured (fst (shareCaseProbe wsens wprobe_tree wsens_world))" by code_simp
  obtain p w2 where run2: "shareCaseProbe wsens wprobe_tree wsens_world = (p, w2)" by fastforce
  have upper2: "upper_law (pe_toUpper wsens)" by (simp add: upper_law_def wsens_def)
  from case_sensitivity_is_consistent [OF path run2, of True "[(wsens, wprobe_tree)]" wsens] wsens_law upper2 measured run2
  show "\<exists>p w1. shareCaseProbe wsens wprobe_tree wsens_world = (p, w1) \<and> cp_measured p \<and> cp_sensitive p
     \<and> fst (fsAttributes wsens (Some wprobe_tree) (asked_later [(wsens, wprobe_tree)] w1)) AND fileCaseSensitiveSearch \<noteq> 0"
    by (auto simp: clean Let_def)
qed

end
