(* ===== verification/Create.thy ===== *)
theory Create
  imports Aapl Set_Info Share_Properties
begin

text \<open>
  CREATE (\<^verbatim>\<open>handleCreate\<close> of \<^verbatim>\<open>internal/parent/dispatch.go\<close> and \<^verbatim>\<open>handleCreateNamedStream\<close> of
  \<^verbatim>\<open>stream.go\<close>): reconnects of durable handles, pipes, named streams, and files and directories with
  their dispositions, link following, sharing and response contexts.

  The machine is reached through the calls of \<open>fs_calls\<close> and \<open>create_calls\<close>; \<open>create_env\<close> holds what else a request meets: random
  bytes, the clock, the resolver's view, and what happens on the other connections while the request is
  parked by a sharing conflict. The new handle sits at address \<open>new\<close>; \<open>fstat\<close> says which file is behind a
  descriptor. \<open>None\<close> is a panic, or a request that is still parked.
\<close>

section \<open>The request\<close>

abbreviation (input) CreateOptDeleteOnClose :: u32 where "CreateOptDeleteOnClose \<equiv> 0x00001000"









section \<open>The machine and the surroundings\<close>





definition set_handles :: "(handles \<Rightarrow> handles) \<Rightarrow> 'k dstate \<Rightarrow> 'k dstate" where
  "set_handles f ds = with_sv (\<lambda>sv. sv\<lparr>sv_handles := f (sv_handles sv)\<rparr>) ds"

definition set_sess :: "sess_ref \<Rightarrow> Session \<Rightarrow> 'k dstate \<Rightarrow> 'k dstate" where
  "set_sess r s ds = with_sv (\<lambda>sv. sv\<lparr>sv_sess := (sv_sess sv)(r := s)\<rparr>) ds"

definition set_created :: "bytes \<Rightarrow> 'k dstate \<Rightarrow> 'k dstate" where
  "set_created fid ds = ds\<lparr>ds_chain := (ds_chain ds)\<lparr>ch_LastCreatedFileID := fid, ch_HasLastCreated := True\<rparr>\<rparr>"

definition new_open :: "Tree \<Rightarrow> bytes \<Rightarrow> Open" where
  "new_open tree fid = \<lparr>o_FileID = fid, o_Path = [], o_LinkPath = [], o_IsDir = False, o_IsPipe = False, o_IsStream = False,
     o_HasFile = False, o_Tree = Some tree, o_DeleteOnClose = False, o_GrantedAccess = 0, o_IsDurable = False,
     o_DurableClientGuid = zeros 16, o_DurableCreateGuid = zeros 16, o_PipeName = [], o_pipeOut = [],
     o_StreamName = [], o_streamBuf = [], o_streamWritten = False, o_streamSynthetic = False\<rparr>"


section \<open>Pipes\<close>




section \<open>Named streams\<close>






section \<open>Files and directories\<close>

record target =
  tg_path :: gostring
  tg_link :: gostring
  tg_exists :: bool
  tg_isDir :: bool
  tg_st :: "file_info option"













definition created_open :: "create_request \<Rightarrow> Tree \<Rightarrow> target \<Rightarrow> u32 \<Rightarrow> bytes \<Rightarrow> Open" where
  "created_open req tree tg granted fid =
     (new_open tree fid)\<lparr>o_Path := tg_path tg, o_LinkPath := tg_link tg, o_IsDir := tg_isDir tg, o_HasFile := \<not> tg_isDir tg,
        o_GrantedAccess := granted, o_DeleteOnClose := (crq_CreateOptions req AND CreateOptDeleteOnClose \<noteq> 0)\<rparr>"








section \<open>The handler\<close>



section \<open>What a CREATE leaves behind\<close>

















section \<open>The probe\<close>









section \<open>Pipes and streams\<close>

lemma set_open_fields [simp]:
  "hs_opens (sv_handles (ds_sv (set_open h op ds))) = (hs_opens (sv_handles (ds_sv ds)))(h := op)"
  "hs_shares (sv_handles (ds_sv (set_open h op ds))) = hs_shares (sv_handles (ds_sv ds))"
  "hs_closed (sv_handles (ds_sv (set_open h op ds))) = hs_closed (sv_handles (ds_sv ds))"
  "ds_session (set_open h op ds) r = ds_session ds r" "ds_k (set_open h op ds) = ds_k ds"
  "sv_durable (ds_sv (set_open h op ds)) = sv_durable (ds_sv ds)" "sv_guid (ds_sv (set_open h op ds)) = sv_guid (ds_sv ds)"
  "ds_chain (set_open h op ds) = ds_chain ds"
  by (simp_all add: set_open_def)

lemma set_created_fields [simp]:
  "ds_sv (set_created fid ds) = ds_sv ds" "ds_k (set_created fid ds) = ds_k ds"
  "ch_LastCreatedFileID (ds_chain (set_created fid ds)) = fid" "ch_HasLastCreated (ds_chain (set_created fid ds))"
  "ch_pending (ds_chain (set_created fid ds)) = ch_pending (ds_chain ds)"
  by (simp_all add: set_created_def)

lemma set_sess_fields [simp]:
  "sv_handles (ds_sv (set_sess r s ds)) = sv_handles (ds_sv ds)" "ds_session (set_sess r s ds) r' = (if r' = r then s else ds_session ds r')"
  "ds_k (set_sess r s ds) = ds_k ds" "sv_durable (ds_sv (set_sess r s ds)) = sv_durable (ds_sv ds)"
  "sv_guid (ds_sv (set_sess r s ds)) = sv_guid (ds_sv ds)" "ds_chain (set_sess r s ds) = ds_chain ds"
  by (simp_all add: set_sess_def with_sv_def)

lemma set_handles_fields [simp]:
  "sv_handles (ds_sv (set_handles f ds)) = f (sv_handles (ds_sv ds))" "ds_session (set_handles f ds) r = ds_session ds r"
  "ds_k (set_handles f ds) = ds_k ds" "sv_durable (ds_sv (set_handles f ds)) = sv_durable (ds_sv ds)"
  "sv_guid (ds_sv (set_handles f ds)) = sv_guid (ds_sv ds)" "ds_chain (set_handles f ds) = ds_chain ds"
  by (simp_all add: set_handles_def with_sv_def)



lemma new_open_fields [simp]:
  "o_FileID (new_open tree fid) = fid" "o_HasFile (new_open tree fid) = False" "o_Tree (new_open tree fid) = Some tree"
  "o_GrantedAccess (new_open tree fid) = 0" "o_DeleteOnClose (new_open tree fid) = False" "o_LinkPath (new_open tree fid) = []"
  by (simp_all add: new_open_def)









section \<open>The durable grant\<close>












section \<open>The reservation\<close>


lemma sm_store_owners [simp]: "sm_owners (sm_store t key es) = sm_owners t"
  by (simp add: sm_store_def)

lemma unwait_owners [simp]: "sm_owners (unwait t w) = sm_owners t"
  by (simp add: unwait_def Let_def split: option.split)






section \<open>Files and directories: where, and what is left\<close>














lemma created_open_fields [simp]:
  "o_FileID (created_open req tree tg granted fid) = fid" "o_HasFile (created_open req tree tg granted fid) = (\<not> tg_isDir tg)"
  by (simp_all add: created_open_def)

lemma close_file_fields [simp]:
  "hs_opens (close_file h hs) = hs_opens hs" "hs_shares (close_file h hs) = hs_shares hs" "hs_closed (close_file h hs) = h # hs_closed hs"
  by (simp_all add: close_file_def)







section \<open>A CREATE from end to end\<close>










declare deepest_existing.simps [code]



end
