(* ===== verification/Spec2Isabelle.thy ===== *)
theory Spec2Isabelle
  imports Wire_Properties Lock_Properties Share_Properties Durable_Properties Session_Properties
    Wildcard Vfs_Norm Frames Go_Files Copy_Chunk Srvsvc File_Io Conn_Writer Smb2_Negotiate Spnego Negotiator Ntlm
    Session_Setup Dir_Records Query_Directory Xattr Close Set_Info Aapl Create
begin

text \<open>
  A model of gosamba, an SMB2/3 file server written in Go, and of what makes its core
  correct.

  \<^bold>\<open>The program.\<close> A connection (\<^verbatim>\<open>internal/parent/conn.go\<close>) reads NetBIOS frames
  (\<^verbatim>\<open>internal/transport\<close>), each holding one SMB2 message or a chain of them, decodes header
  and body (\<^verbatim>\<open>internal/smb2\<close>) and hands them to a dispatcher (\<^verbatim>\<open>dispatch.go\<close>), which
  works on the sessions of the connection, their trees and their open handles. Three tables are
  shared by all connections of the process: the byte-range locks, the share modes and the
  durable handles; a fourth, the session index, lets a client that reconnects close its
  previous session on another connection. A handle is released on several paths (CLOSE, tree
  disconnect, logoff, a superseded session, a dropped connection, durable expiry), and each of
  them has to give up what the handle holds in the shared tables.

  \<^bold>\<open>The theories.\<close>
  \<^item> \<open>Gosamba_Prelude\<close>: machine integers, Go slices (out of range is \<open>None\<close>, Go's panic),
    little-endian encoding, and the locales the components interpret: \<open>prefix_codec\<close> (a
    self-delimiting codec) and \<open>invariant_system\<close> (an invariant kept by every step).
  \<^item> \<open>Nbss\<close>: \<^verbatim>\<open>transport/nbss.go\<close>. The stream is a byte list; \<open>ReadFrame\<close> returns the payload
    and the rest.
  \<^item> \<open>Smb2_Header\<close>, \<open>Smb2_Messages\<close>, \<open>Smb2_Status\<close>: \<^verbatim>\<open>smb2/header.go\<close>, \<^verbatim>\<open>command.go\<close>, the
    request decoders and response encoders of \<^verbatim>\<open>session\<close>, \<^verbatim>\<open>tree\<close>, \<^verbatim>\<open>create\<close>, \<^verbatim>\<open>lock\<close>,
    \<^verbatim>\<open>read\<close>, \<^verbatim>\<open>write\<close>, \<^verbatim>\<open>close\<close>, \<^verbatim>\<open>flush\<close>, \<^verbatim>\<open>set_info\<close>, \<^verbatim>\<open>query_dir\<close>, \<^verbatim>\<open>query_info\<close>,
    \<^verbatim>\<open>change_notify\<close> and \<^verbatim>\<open>ioctl.go\<close>, and \<^verbatim>\<open>status.go\<close>. A decoder returns \<open>None\<close> where the Go
    code would panic, \<open>Some (Inl e)\<close> for an error, \<open>Some (Inr r)\<close> for a request.
    \<open>Smb2_Message_Props\<close> shows that none of them panics on any input.
  \<^item> \<open>Smb2_Negotiate\<close>: \<^verbatim>\<open>negotiate.go\<close>, \<^verbatim>\<open>selection.go\<close> and \<^verbatim>\<open>preauth.go\<close>, the NEGOTIATE codec, the
    choice of dialect and algorithms and the pre-authentication hash. \<open>Negotiator\<close>: the first
    exchange on a connection (\<^verbatim>\<open>parent/negotiator.go\<close>); what was announced, what the connection keeps and what was
    hashed are shown to agree.
  \<^item> \<open>Go_Text\<close>: Go's iteration over strings, \<^verbatim>\<open>unicode/utf16\<close> and the two name converters.
  \<^item> \<open>Create_Contexts\<close>: the walk over create contexts and their serialisation (\<^verbatim>\<open>create.go\<close>), the
    durable and lease parsers (\<^verbatim>\<open>parent/durable.go\<close>) and the timewarp check.
  \<^item> \<open>Access_Mask\<close>: \<^verbatim>\<open>maxaccess.go\<close> and \<^verbatim>\<open>credits.go\<close>.
  \<^item> \<open>Lock_Ranges\<close>: \<^verbatim>\<open>lock_ranges.go\<close>, the range table, the guarded table with its published
    count and the channel that wakes waiters. \<open>Lock_Manager\<close>: \<^verbatim>\<open>lock.go\<close> (the LOCK handler, its
    rollback, the parked wait) over the interface \<open>lock_service\<close>, and the two managers of
    \<^verbatim>\<open>lock_darwin.go\<close> and \<^verbatim>\<open>lock_linux.go\<close>. \<open>Lock_Properties\<close>: what they guarantee.
  \<^item> \<open>Share_Modes\<close>, \<open>Share_Properties\<close>: \<^verbatim>\<open>sharemode.go\<close> and \<^verbatim>\<open>sharewait.go\<close>.
  \<^item> \<open>Handles\<close>: \<^verbatim>\<open>Open\<close>, \<^verbatim>\<open>Tree\<close> and the release of one handle. \<open>Durable\<close>,
    \<open>Durable_Properties\<close>: the durable table, reclaim, reconnect and grant (\<^verbatim>\<open>durable.go\<close>).
  \<^item> \<open>Go_Map\<close>: Go maps the code iterates over, as association lists with distinct keys.
    \<open>Async_Requests\<close>: the table of outstanding requests of a connection (\<^verbatim>\<open>dispatch.go\<close>).
    \<open>Resume_Keys\<close>: the capabilities of server-side copy (\<^verbatim>\<open>copychunk.go\<close>).
  \<^item> \<open>Sessions\<close>, \<open>Session_Properties\<close>: \<^verbatim>\<open>session.go\<close> up to the session table,
    \<^verbatim>\<open>sessionindex.go\<close>, the tree disconnect, logoff and \<^verbatim>\<open>releaseOpens\<close> of \<^verbatim>\<open>dispatch.go\<close>
    and the teardown of a connection in \<^verbatim>\<open>conn.go\<close>. A handle leaves a session exactly once, and every
    teardown gives up its locks, its reservation, its descriptor and its outstanding requests.
  \<^item> \<open>Spnego\<close>, \<open>Ntlm\<close>, \<open>Session_Setup\<close>: \<^verbatim>\<open>smb2/spnego.go\<close>, \<^verbatim>\<open>internal/ntlm\<close> and the handler of
    \<^verbatim>\<open>session.go\<close>: both legs of the authentication, the message integrity code, the guest rule, the keys and
    the supersede of a previous session. Whoever is authenticated earned it, and the second leg is
    described outcome by outcome.
  \<^item> \<open>Wildcard\<close>: \<^verbatim>\<open>wildcard.go\<close>, the pattern matcher of directory queries. \<open>Vfs_Path\<close>,
    \<open>Vfs_Norm\<close>: \<^verbatim>\<open>vfs/path.go\<close> and \<^verbatim>\<open>vfs/norm.go\<close>, containment of client paths in the share
    and the lookup of a name under another case or normal form.
  \<^item> \<open>Smb3_Cipher\<close>, \<open>Smb3_Ccm\<close>, \<open>Smb3_Transform\<close>: \<^verbatim>\<open>internal/smb3\<close>. AES-CMAC and the key
    derivation, CCM, and on top of them signing, the encryption transform with its nonces and the
    cache of prepared keys. \<open>block_cipher\<close> is the interface to AES and \<open>aead_scheme\<close> the one to
    an authenticated cipher, which CCM meets and GCM is assumed to meet.
  \<^item> \<open>Responses\<close>: how \<^verbatim>\<open>dispatch.go\<close> builds, signs and emits a reply. \<open>Tree_Connect\<close>: TREE_CONNECT
    and which shares a user sees. \<open>Dispatch\<close>: the gate before every handler (encryption policy,
    signature, related requests, the handle lock) and the routing. \<open>Compound\<close>: \<^verbatim>\<open>compound.go\<close>,
    joining the replies of a chain. \<open>Frames\<close>: \<^verbatim>\<open>conn.go\<close>, from one inbound frame to its replies,
    and how many frames of a connection are served at once.
  \<^item> \<open>Conn_Writer\<close>: \<^verbatim>\<open>writer.go\<close>, the outbound queue, atomic operation by atomic operation, under
    any interleaving of the senders, the writer and the close.
  \<^item> \<open>Go_Files\<close>: files as the handlers see them (\<^verbatim>\<open>ReadAt\<close>, \<^verbatim>\<open>WriteAt\<close>, the two forms of
    \<^verbatim>\<open>copyFileRange\<close>) over the calls of a kernel; \<open>posix_files\<close> states what the documentation says of
    those calls, \<open>range_copier\<close> what a copy through them does, for both forms. \<open>File_Io\<close>: READ, WRITE, FLUSH
    and IOCTL. \<open>Copy_Chunk\<close>: server-side copy. \<open>Srvsvc\<close>: the pipe that lists the shares.
  \<^item> \<open>Dir_Records\<close>, \<open>Query_Directory\<close>: the directory records and QUERY_DIRECTORY with its scan and cursor.
    \<open>Xattr\<close>: extended attributes and named streams (\<^verbatim>\<open>xattr.go\<close>, \<^verbatim>\<open>stream.go\<close>). \<open>Close\<close>, \<open>Set_Info\<close>: the
    two handlers. \<open>Aapl\<close>: \<^verbatim>\<open>aapl.go\<close>, the probe of case sensitivity and the response contexts. \<open>Create\<close>:
    CREATE with pipes, streams, files, directories and reconnects.
  \<^item> \<open>Wire_Properties\<close>: round trips of the wire formats, and the LOCK handler from bytes to table.

  \<^bold>\<open>State.\<close> Go pointers to \<^verbatim>\<open>Open\<close>, \<^verbatim>\<open>Session\<close> and \<^verbatim>\<open>sessionHost\<close> are references (natural
  numbers) into heaps, since identity matters. Maps are functions to \<open>option\<close> or association lists
  with distinct keys where the code iterates over them. A critical section under a mutex is one
  step; the interleaving of goroutines is the order of steps, and the safety theorems quantify over
  all step sequences (\<open>lt_step\<close>, \<open>share_step\<close>, \<open>key_step\<close>, \<open>session_step\<close>, \<open>table_move\<close>); \<open>writer_step\<close>
  is finer, since the writer takes no mutex. A handler runs on \<open>dstate\<close>: the server, the responses of
  the frame, the handle lock it holds, and the machine. Descriptors carry no state of their own: \<open>cw_opened\<close> and
  \<open>hs_closed\<close> record the handles whose descriptor was opened and closed.

  \<^bold>\<open>Parameters.\<close> What the kernel answers is an argument of the definitions: \<open>fstat\<close> (the device
  and inode behind a descriptor, or an errno), \<open>fcntl\<close> (the OFD lock call), \<open>faccessat\<close>, the
  result of opening a file again on a durable reconnect, and \<open>equalFold\<close> (\<^verbatim>\<open>strings.EqualFold\<close>).
  The primitives of Go's crypto packages (AES on one block, SHA-256, GCM) are a record \<open>crypto\<close>;
  \<open>lstat\<close>, \<open>EvalSymlinks\<close>, \<open>ReadDir\<close>, Unicode's \<open>SimpleFold\<close> and the normal forms NFC and NFD are
  arguments of the path functions, and the number of processors one of \<open>connWorkers\<close>. SHA-512, HMAC-MD5 and the
  random bytes of the handshake are in \<open>negotiation_env\<close> and \<open>setup_env\<close>. The machine under the file handlers is a type
  variable, changed only through records of calls: \<open>kernel\<close> (data of open files), \<open>fs_calls\<close> (names, times and
  attributes), \<open>create_calls\<close> and \<open>probe_calls\<close>; \<open>dir_env\<close>, \<open>query_env\<close>, \<open>name_env\<close> and \<open>create_env\<close> hold what else a
  request meets, such as the clock, random bytes, the resolver's view, the effect of the case probe on the machine,
  and what the other connections do while a CREATE is parked. Laws of these calls (\<open>posix_files\<close>, \<open>keeps_times\<close>,
  \<open>volume_law\<close>, \<open>norm_laws\<close>, \<open>gcm_ok\<close>) are hypotheses of the theorems that need them, each with an instance
  among the witnesses. \<open>Dispatch\<close> takes the handlers as an argument.
  Time is an integer argument in nanoseconds. Waits (a parked LOCK, a parked CREATE) run over the
  finite list of wake-ups that reach them; that they answer is proved for every list that ends in a
  cancellation or a deadline, which the code always arms.

  \<^bold>\<open>Loops and bounds.\<close> Recursion is structural or has a measure. Five loops whose end depends on a parameter are
  \<open>partial_function\<close>s with \<open>None\<close> for not returning (\<open>kdf_loop\<close>, \<open>fold_min\<close>, \<open>fold_orbit\<close>, \<open>match_loop\<close>,
  \<open>deepest_existing\<close>), and the theorems that use them show that they return. There is no fuel. Lengths are natural
  numbers, with the wrap-around of the code's conversions written out where a field is narrower.

  \<^bold>\<open>Not modelled.\<close> QUERY_INFO and the CHANGE_NOTIFY handler (their messages and the table of outstanding
  requests are); the sweeper and the idle deadline; the configuration parser; worker
  processes, file watching, service discovery, the listener, the user database, start-up; the system calls behind volume
  data and birth times. Logging is left out everywhere.
\<close>

end
